(* ===== verification/Prelude.thy ===== *)
theory Prelude
  imports Main "HOL-Library.Char_ord" "HOL-Library.List_Lexorder" "HOL-Library.Product_Lexorder"
    "HOL-Library.Sublist" "HOL-Library.Code_Target_Nat"
begin

text \<open>
  Shared notions of the development: Rust strings as UTF-8 byte strings, the decimal formatting
  and parsing the branch numbers rest on, i64 arithmetic with its wrap-around and saturation,
  and SQL tables as lists of rows with the three statements the store uses (an insert that
  ignores conflicts, an update with a WHERE clause, a select of at most one row).
\<close>

named_theorems table_simps \<open>how lookups see inserts and updates of a table\<close>
named_theorems store_simps \<open>unfolding rules of the store operations\<close>

section \<open>Rust strings\<close>

text \<open>
  A Rust \<open>String\<close> is its UTF-8 byte sequence, so \<open>string\<close> (a list of 8-bit characters) models it
  without loss. \<open>chars().count()\<close> counts the bytes that are not continuation bytes (10xxxxxx).
\<close>

definition utf8_cont :: "char \<Rightarrow> bool" where
  "utf8_cont c \<longleftrightarrow> 128 \<le> (of_char c :: nat) \<and> (of_char c :: nat) < 192"

definition chars_count :: "string \<Rightarrow> nat" where
  "chars_count s = length (filter (\<lambda>c. \<not> utf8_cont c) s)"

text \<open>\<open>chars().take(n).collect()\<close>: the longest prefix with at most \<open>n\<close> characters.\<close>

fun take_chars :: "nat \<Rightarrow> string \<Rightarrow> string" where
  "take_chars n [] = []"
| "take_chars n (c # cs) =
     (if utf8_cont c then c # take_chars n cs
      else case n of 0 \<Rightarrow> [] | Suc m \<Rightarrow> c # take_chars m cs)"

lemma chars_count_le_length: "chars_count s \<le> length s"
  by (simp add: chars_count_def)

lemma chars_count_take_chars: "chars_count (take_chars n s) \<le> n"
  by (induction n s rule: take_chars.induct) (auto simp: chars_count_def split: nat.splits)

lemma take_chars_short: "chars_count s \<le> n \<Longrightarrow> take_chars n s = s"
  by (induction n s rule: take_chars.induct)
    (auto simp: chars_count_def split: nat.splits if_splits)

definition utf8 :: "nat list \<Rightarrow> string" where
  "utf8 bs = map char_of bs"

text \<open>The Unicode White_Space characters, as UTF-8, that \<open>str::trim\<close> removes.\<close>

definition white_space :: "string list" where
  "white_space = map utf8
     [[9], [10], [11], [12], [13], [32], [194, 133], [194, 160], [225, 154, 128],
      [226, 128, 128], [226, 128, 129], [226, 128, 130], [226, 128, 131], [226, 128, 132],
      [226, 128, 133], [226, 128, 134], [226, 128, 135], [226, 128, 136], [226, 128, 137],
      [226, 128, 138], [226, 128, 168], [226, 128, 169], [226, 128, 175], [226, 129, 159],
      [227, 128, 128]]"

lemma white_space_nonempty: "w \<in> set white_space \<Longrightarrow> w \<noteq> []"
  by (auto simp: white_space_def utf8_def)

function strip_any :: "string list \<Rightarrow> string \<Rightarrow> string" where
  "strip_any ws s =
     (case find (\<lambda>w. w \<noteq> [] \<and> prefix w s) ws of
        None \<Rightarrow> s
      | Some w \<Rightarrow> strip_any ws (drop (length w) s))"
  by pat_completeness auto
termination
proof (relation "measure (\<lambda>(ws, s). length s)", simp, clarsimp)
  fix ws :: "string list" and s w :: string
  assume "find (\<lambda>w. w \<noteq> [] \<and> prefix w s) ws = Some w"
  then have "w \<noteq> []" and "prefix w s" by (auto simp: find_Some_iff)
  then show "length s - length w < length s"
    by (metis diff_less length_greater_0_conv prefix_bot.extremum_uniqueI)
qed

declare strip_any.simps [simp del]

definition trim_start :: "string \<Rightarrow> string" where
  "trim_start s = strip_any white_space s"

definition trim :: "string \<Rightarrow> string" where
  "trim s = rev (strip_any (map rev white_space) (rev (trim_start s)))"

definition to_ascii_lowercase :: "string \<Rightarrow> string" where
  "to_ascii_lowercase s =
     map (\<lambda>c. if 65 \<le> (of_char c :: nat) \<and> (of_char c :: nat) \<le> 90
              then char_of ((of_char c :: nat) + 32) else c) s"

definition strip_prefix :: "string \<Rightarrow> string \<Rightarrow> string option" where
  "strip_prefix p s = (if prefix p s then Some (drop (length p) s) else None)"

lemma strip_prefix_Some_iff: "strip_prefix p s = Some r \<longleftrightarrow> s = p @ r"
  by (auto simp: strip_prefix_def prefix_def)

text \<open>\<open>split_once\<close> at the first occurrence of a character.\<close>

fun split_once :: "char \<Rightarrow> string \<Rightarrow> (string \<times> string) option" where
  "split_once d [] = None"
| "split_once d (c # cs) =
     (if c = d then Some ([], cs)
      else map_option (\<lambda>(a, b). (c # a, b)) (split_once d cs))"

lemma split_once_Some_iff: "split_once d s = Some (a, b) \<longleftrightarrow> s = a @ d # b \<and> d \<notin> set a"
proof (induction s arbitrary: a)
  case Nil
  then show ?case by simp
next
  case (Cons c cs)
  then show ?case by (cases a) auto
qed

text \<open>\<open>str::split\<close> at a character: always at least one piece.\<close>

fun split_on :: "char \<Rightarrow> string \<Rightarrow> string list" where
  "split_on d [] = [[]]"
| "split_on d (c # cs) =
     (if c = d then [] # split_on d cs
      else case split_on d cs of [] \<Rightarrow> [[c]] | p # ps \<Rightarrow> (c # p) # ps)"

section \<open>Decimal numbers\<close>

definition digit_char :: "nat \<Rightarrow> char" where
  "digit_char d = char_of (48 + d)"

definition hex_digit :: "nat \<Rightarrow> char" where
  "hex_digit d = char_of (if d < 10 then 48 + d else 87 + d)"

definition is_digit :: "char \<Rightarrow> bool" where
  "is_digit c \<longleftrightarrow> 48 \<le> (of_char c :: nat) \<and> (of_char c :: nat) \<le> 57"

definition digit_val :: "char \<Rightarrow> nat" where
  "digit_val c = (of_char c :: nat) - 48"

fun dec :: "nat \<Rightarrow> string" where
  "dec n = (if n < 10 then [digit_char n] else dec (n div 10) @ [digit_char (n mod 10)])"

declare dec.simps [simp del]

fun dec_val :: "nat \<Rightarrow> string \<Rightarrow> nat option" where
  "dec_val acc [] = Some acc"
| "dec_val acc (c # cs) =
     (if is_digit c then dec_val (acc * 10 + digit_val c) cs else None)"

lemma digit_char_simps [simp]:
  assumes "d < 10"
  shows "is_digit (digit_char d)" "digit_val (digit_char d) = d"
  using assms by (simp_all add: is_digit_def digit_val_def digit_char_def)

lemma dec_val_append:
  "dec_val acc (xs @ ys) = (case dec_val acc xs of None \<Rightarrow> None | Some a \<Rightarrow> dec_val a ys)"
  by (induction xs arbitrary: acc) auto

lemma dec_val_dec: "dec_val 0 (dec n) = Some n"
proof (induction n rule: dec.induct)
  case (1 n)
  then show ?case
    by (cases "n < 10") (simp_all add: dec.simps [of n] dec_val_append)
qed

lemma dec_inj: "dec m = dec n \<Longrightarrow> m = n"
  by (metis dec_val_dec option.inject)

lemma dec_nonempty [simp]: "dec n \<noteq> []"
  by (subst dec.simps) simp

lemma dec_digits: "c \<in> set (dec n) \<Longrightarrow> is_digit c"
proof (induction n rule: dec.induct)
  case (1 n)
  then show ?case
    by (cases "n < 10") (auto simp: dec.simps [of n])
qed

lemma dec_val_zeros: "dec_val 0 (replicate k (CHR ''0'') @ s) = dec_val 0 s"
  by (induction k) (auto simp: is_digit_def digit_val_def)

text \<open>\<open>format!("{:02}", n)\<close>: at least two digits, zero padded.\<close>

definition pad2 :: "nat \<Rightarrow> string" where
  "pad2 n = replicate (2 - length (dec n)) (CHR ''0'') @ dec n"

lemma dec_val_pad2: "dec_val 0 (pad2 n) = Some n"
  by (simp add: pad2_def dec_val_zeros dec_val_dec)

lemma pad2_inj: "pad2 m = pad2 n \<Longrightarrow> m = n"
  by (metis dec_val_pad2 option.inject)

lemma pad2_eq_iff [simp]: "pad2 m = pad2 n \<longleftrightarrow> m = n"
  using pad2_inj by blast

lemma pad2_digits: "c \<in> set (pad2 n) \<Longrightarrow> is_digit c"
  by (auto simp: pad2_def dec_digits) (auto simp: is_digit_def)

lemma pad2_nonempty [simp]: "pad2 n \<noteq> []"
  by (simp add: pad2_def)

text \<open>
  \<open>str::parse::<usize>()\<close> on a 64-bit target: an optional \<open>+\<close>, at least one digit, no overflow.
\<close>

definition usize_max :: nat where
  "usize_max = 18446744073709551615"

definition parse_usize :: "string \<Rightarrow> nat option" where
  "parse_usize s =
     (let t = (case s of [] \<Rightarrow> [] | c # cs \<Rightarrow> if c = CHR ''+'' then cs else s)
      in if t = [] then None
         else case dec_val 0 t of None \<Rightarrow> None | Some n \<Rightarrow> if n \<le> usize_max then Some n else None)"

lemma parse_usize_pad2: "parse_usize (pad2 n) = (if n \<le> usize_max then Some n else None)"
proof -
  obtain c cs where p: "pad2 n = c # cs" by (cases "pad2 n") auto
  with pad2_digits [of c n] have "c \<noteq> CHR ''+''" by (auto simp: is_digit_def)
  with p dec_val_pad2 [of n] show ?thesis by (simp add: parse_usize_def Let_def)
qed

section \<open>64-bit signed integers\<close>

text \<open>\<open>str::parse::<i64>()\<close>: an optional sign, at least one digit, no overflow.\<close>

definition i64_max :: int where
  "i64_max = 9223372036854775807"

definition i64_min :: int where
  "i64_min = -9223372036854775808"

definition wrap_i64 :: "int \<Rightarrow> int" where
  "wrap_i64 x = (x + 9223372036854775808) mod 18446744073709551616 - 9223372036854775808"

definition in_i64 :: "int \<Rightarrow> bool" where
  "in_i64 x \<longleftrightarrow> i64_min \<le> x \<and> x \<le> i64_max"

lemma wrap_i64_id: "in_i64 x \<Longrightarrow> wrap_i64 x = x"
  by (auto simp: wrap_i64_def in_i64_def i64_min_def i64_max_def mod_pos_pos_trivial)

lemma wrap_i64_range: "in_i64 (wrap_i64 x)"
proof -
  have "0 \<le> (x + 9223372036854775808) mod 18446744073709551616"
    "(x + 9223372036854775808) mod 18446744073709551616 < 18446744073709551616"
    by simp_all
  then show ?thesis by (simp add: wrap_i64_def in_i64_def i64_min_def i64_max_def)
qed

definition parse_i64 :: "string \<Rightarrow> int option" where
  "parse_i64 s =
     (let (neg, t) = (case s of [] \<Rightarrow> (False, [])
        | c # cs \<Rightarrow> if c = CHR ''+'' then (False, cs) else if c = CHR ''-'' then (True, cs)
                   else (False, s))
      in if t = [] then None
         else case dec_val 0 t of
             None \<Rightarrow> None
           | Some n \<Rightarrow> (let v = (if neg then - int n else int n)
                        in if in_i64 v then Some v else None))"

lemma parse_i64_range: "parse_i64 s = Some v \<Longrightarrow> in_i64 v"
  by (auto simp: parse_i64_def Let_def split: prod.splits option.splits if_splits)

definition saturating_add_i64 :: "int \<Rightarrow> int \<Rightarrow> int" where
  "saturating_add_i64 x y = max i64_min (min i64_max (x + y))"

text \<open>Signed numbers as text.\<close>

definition dec_int :: "int \<Rightarrow> string" where
  "dec_int i = (if i < 0 then CHR ''-'' # dec (nat (- i)) else dec (nat i))"

lemma dec_head: "dec n = c # cs \<Longrightarrow> c \<noteq> CHR ''+'' \<and> c \<noteq> CHR ''-''"
  using dec_digits [of c n] by (auto simp: is_digit_def)

lemma parse_dec_int [simp]: "in_i64 i \<Longrightarrow> parse_i64 (dec_int i) = Some i"
proof (cases "i < 0")
  case True
  assume "in_i64 i"
  with True show ?thesis by (simp add: parse_i64_def dec_int_def dec_val_dec Let_def)
next
  case False
  assume "in_i64 i"
  obtain c cs where d: "dec (nat i) = c # cs" by (cases "dec (nat i)") auto
  with dec_head [OF d] dec_val_dec [of "nat i"] False \<open>in_i64 i\<close> show ?thesis
    by (simp add: parse_i64_def dec_int_def Let_def)
qed

section \<open>Tables\<close>

text \<open>
  A table is the list of its rows in the order a scan meets them (the statements that select one
  row without ORDER BY leave that order open, and the theorems hold for every order). A primary
  key is a function of the row, and \<open>keyed\<close> says it is unique.
\<close>

definition keyed :: "('r \<Rightarrow> 'k) \<Rightarrow> 'r list \<Rightarrow> bool" where
  "keyed k rs \<longleftrightarrow> distinct (map k rs)"

definition row_at :: "('r \<Rightarrow> 'k) \<Rightarrow> 'k \<Rightarrow> 'r list \<Rightarrow> 'r option" where
  "row_at k x rs = find (\<lambda>r. k r = x) rs"

definition insert_ignore :: "('r \<Rightarrow> 'k) \<Rightarrow> 'r \<Rightarrow> 'r list \<Rightarrow> nat \<times> 'r list" where
  "insert_ignore k r rs = (if k r \<in> k ` set rs then (0, rs) else (1, rs @ [r]))"

definition update_where :: "('r \<Rightarrow> bool) \<Rightarrow> ('r \<Rightarrow> 'r) \<Rightarrow> 'r list \<Rightarrow> nat \<times> 'r list" where
  "update_where P f rs = (length (filter P rs), map (\<lambda>r. if P r then f r else r) rs)"

definition delete_where :: "('r \<Rightarrow> bool) \<Rightarrow> 'r list \<Rightarrow> nat \<times> 'r list" where
  "delete_where P rs = (length (filter P rs), filter (\<lambda>r. \<not> P r) rs)"

lemma find_map_same:
  assumes "\<And>r. P (f r) = P r"
  shows "find P (map f rs) = map_option f (find P rs)"
  using assms by (induction rs) auto

lemma row_at_None_iff: "row_at k x rs = None \<longleftrightarrow> x \<notin> k ` set rs"
  by (auto simp: row_at_def find_None_iff)

lemma row_at_SomeD: "row_at k x rs = Some r \<Longrightarrow> r \<in> set rs \<and> k r = x"
  by (auto simp: row_at_def find_Some_iff)

lemma row_at_keyed: "keyed k rs \<Longrightarrow> r \<in> set rs \<Longrightarrow> row_at k (k r) rs = Some r"
  by (induction rs) (auto simp: keyed_def row_at_def)

lemma row_at_append:
  "row_at k x (rs @ qs) = (case row_at k x rs of None \<Rightarrow> row_at k x qs | Some r \<Rightarrow> Some r)"
  by (induction rs) (auto simp: row_at_def)

lemma row_at_Nil [simp]: "row_at k x [] = None"
  and row_at_Cons: "row_at k x (r # rs) = (if k r = x then Some r else row_at k x rs)"
  by (simp_all add: row_at_def)

lemma row_at_insert_ignore [table_simps]:
  "row_at k x (snd (insert_ignore k r rs)) =
     (if x = k r then (case row_at k x rs of None \<Rightarrow> Some r | Some q \<Rightarrow> Some q)
      else row_at k x rs)"
proof (cases "k r \<in> k ` set rs")
  case True
  then have "row_at k (k r) rs \<noteq> None" by (simp add: row_at_None_iff)
  with True show ?thesis by (auto simp: insert_ignore_def split: option.splits)
next
  case False
  then have "row_at k (k r) rs = None" by (simp add: row_at_None_iff)
  with False show ?thesis
    by (auto simp: insert_ignore_def row_at_append row_at_Cons split: option.splits)
qed

lemma fst_insert_ignore [table_simps]:
  "fst (insert_ignore k r rs) = (if row_at k (k r) rs = None then 1 else 0)"
  by (auto simp: insert_ignore_def row_at_None_iff)

lemma keyed_insert_ignore: "keyed k rs \<Longrightarrow> keyed k (snd (insert_ignore k r rs))"
  by (auto simp: insert_ignore_def keyed_def)

lemma map_key_update_where:
  assumes "\<And>r. P r \<Longrightarrow> k (f r) = k r"
  shows "map k (snd (update_where P f rs)) = map k rs"
  using assms by (induction rs) (auto simp: update_where_def)

lemma keyed_update_where:
  assumes "\<And>r. P r \<Longrightarrow> k (f r) = k r" and "keyed k rs"
  shows "keyed k (snd (update_where P f rs))"
  using assms(2) map_key_update_where [of P k f rs, OF assms(1)] by (simp add: keyed_def)

lemma row_at_update_where:
  assumes "\<And>r. P r \<Longrightarrow> k (f r) = k r"
  shows "row_at k x (snd (update_where P f rs)) =
    map_option (\<lambda>r. if P r then f r else r) (row_at k x rs)"
  unfolding row_at_def update_where_def snd_conv
  by (rule find_map_same) (use assms in auto)

lemma fst_update_where_pos: "0 < fst (update_where P f rs) \<longleftrightarrow> (\<exists>r\<in>set rs. P r)"
  by (auto simp: update_where_def filter_empty_conv)

text \<open>A WHERE clause that fixes the key: at most the row with that key is affected.\<close>

lemma fst_update_where_key:
  assumes "keyed k rs"
  shows "0 < fst (update_where (\<lambda>r. k r = x \<and> Q r) f rs) \<longleftrightarrow>
    (\<exists>r. row_at k x rs = Some r \<and> Q r)"
  unfolding fst_update_where_pos
  using row_at_keyed [OF assms] row_at_SomeD [of k x rs] by blast

lemma update_where_other:
  assumes "\<And>r. P r \<Longrightarrow> k (f r) = k r \<and> k r = y" and "x \<noteq> y"
  shows "row_at k x (snd (update_where P f rs)) = row_at k x rs"
proof -
  have "row_at k x (snd (update_where P f rs)) =
      map_option (\<lambda>r. if P r then f r else r) (row_at k x rs)"
    by (rule row_at_update_where) (use assms in blast)
  then show ?thesis
    using assms row_at_SomeD [of k x rs] by (cases "row_at k x rs") auto
qed

text \<open>The two forms of WHERE clause the store uses: a key, and a key with a guard.\<close>

lemma row_at_update_guarded [table_simps]:
  assumes "\<And>r. k (f r) = k r"
  shows "row_at k x (snd (update_where (\<lambda>r. k r = y \<and> Q r) f rs)) =
    (if x = y then map_option (\<lambda>r. if Q r then f r else r) (row_at k x rs) else row_at k x rs)"
proof -
  have "row_at k x (snd (update_where (\<lambda>r. k r = y \<and> Q r) f rs)) =
      map_option (\<lambda>r. if k r = y \<and> Q r then f r else r) (row_at k x rs)"
    by (rule row_at_update_where) (rule assms)
  then show ?thesis
    using row_at_SomeD [of k x rs] by (cases "row_at k x rs") auto
qed

lemma row_at_update_key [table_simps]:
  assumes "\<And>r. k (f r) = k r"
  shows "row_at k x (snd (update_where (\<lambda>r. k r = y) f rs)) =
    (if x = y then map_option f (row_at k x rs) else row_at k x rs)"
proof -
  have "update_where (\<lambda>r. k r = y) f rs = update_where (\<lambda>r. k r = y \<and> True) f rs" by simp
  then show ?thesis
    by (simp only: row_at_update_guarded [of k f, OF assms] if_True)
qed

lemma keyed_update [intro]:
  assumes "\<And>r. k (f r) = k r" "keyed k rs"
  shows "keyed k (snd (update_where P f rs))"
  by (rule keyed_update_where [OF _ assms(2)]) (rule assms(1))

lemma keyed_delete [intro]: "keyed k rs \<Longrightarrow> keyed k (snd (delete_where P rs))"
  by (simp add: keyed_def delete_where_def distinct_map_filter)

lemma set_update_where:
  "r \<in> set (snd (update_where P f rs)) \<longleftrightarrow> (\<exists>q\<in>set rs. r = (if P q then f q else q))"
  by (auto simp: update_where_def)

lemma set_insert_ignore: "set (snd (insert_ignore k r rs)) \<subseteq> insert r (set rs)"
  by (auto simp: insert_ignore_def)

end
