(* ===== verification/Core_Types.thy ===== *)
theory Core_Types
  imports Prelude
begin

text \<open>
  The enumerations of \<^verbatim>\<open>crates/dtmrs-core/src/lib.rs\<close> and their wire strings, and the verdict
  on a branch call (\<open>BranchResult\<close>) as HTTP and gRPC answers give it. The interface every
  enumeration offers to the stores (a string form and its parser) is the locale \<open>wire_codec\<close>.
\<close>

section \<open>Branch results\<close>

datatype branch_result = Success | Failure | Ongoing | Unknown

definition from_http :: "nat \<Rightarrow> string \<Rightarrow> branch_result" where
  "from_http status body =
     (if sublist ''FAILURE'' body then Failure
      else if sublist ''ONGOING'' body then Ongoing
      else if 200 \<le> status \<and> status \<le> 299 then Success
      else if status = 409 then Failure
      else if status = 425 then Ongoing
      else Unknown)"

definition grpc_ok :: int where "grpc_ok = 0"
definition grpc_aborted :: int where "grpc_aborted = 10"
definition grpc_failed_precondition :: int where "grpc_failed_precondition = 9"

definition from_grpc :: "int \<Rightarrow> branch_result" where
  "from_grpc code =
     (if code = grpc_ok then Success
      else if code = grpc_aborted then Failure
      else if code = grpc_failed_precondition then Ongoing
      else Unknown)"

lemmas verdict_defs = from_http_def from_grpc_def grpc_ok_def grpc_aborted_def
  grpc_failed_precondition_def

section \<open>Transactions, branches and operations\<close>

datatype trans_type = Saga | Tcc | Msg | Xa | Workflow

fun trans_type_str :: "trans_type \<Rightarrow> string" where
  "trans_type_str Saga = ''saga''"
| "trans_type_str Tcc = ''tcc''"
| "trans_type_str Msg = ''msg''"
| "trans_type_str Xa = ''xa''"
| "trans_type_str Workflow = ''workflow''"

definition parse_trans_type :: "string \<Rightarrow> trans_type option" where
  "parse_trans_type s =
     (if s = ''saga'' then Some Saga
      else if s = ''tcc'' then Some Tcc
      else if s = ''msg'' then Some Msg
      else if s = ''xa'' then Some Xa
      else if s = ''workflow'' then Some Workflow
      else None)"

text \<open>
  \<open>GlobalStatus\<close> and \<open>BranchStatus\<close> share constructor names in the source; here they carry the
  prefixes \<open>G\<close> and \<open>B\<close>.
\<close>

datatype global_status = GPrepared | GSubmitted | GAborting | GSucceed | GFailed

fun global_status_str :: "global_status \<Rightarrow> string" where
  "global_status_str GPrepared = ''prepared''"
| "global_status_str GSubmitted = ''submitted''"
| "global_status_str GAborting = ''aborting''"
| "global_status_str GSucceed = ''succeed''"
| "global_status_str GFailed = ''failed''"

definition parse_global_status :: "string \<Rightarrow> global_status option" where
  "parse_global_status s =
     (if s = ''prepared'' then Some GPrepared
      else if s = ''submitted'' then Some GSubmitted
      else if s = ''aborting'' then Some GAborting
      else if s = ''succeed'' then Some GSucceed
      else if s = ''failed'' then Some GFailed
      else None)"

fun is_final :: "global_status \<Rightarrow> bool" where
  "is_final GSucceed = True"
| "is_final GFailed = True"
| "is_final _ = False"

lemma is_final_iff: "is_final s \<longleftrightarrow> s = GSucceed \<or> s = GFailed"
  by (cases s) simp_all

datatype branch_status = BPrepared | BSucceed | BFailed

fun branch_status_str :: "branch_status \<Rightarrow> string" where
  "branch_status_str BPrepared = ''prepared''"
| "branch_status_str BSucceed = ''succeed''"
| "branch_status_str BFailed = ''failed''"

definition parse_branch_status :: "string \<Rightarrow> branch_status option" where
  "parse_branch_status s =
     (if s = ''prepared'' then Some BPrepared
      else if s = ''succeed'' then Some BSucceed
      else if s = ''failed'' then Some BFailed
      else None)"

datatype branch_op = Action | Compensate | Try | Confirm | Cancel | Commit | Rollback

fun branch_op_str :: "branch_op \<Rightarrow> string" where
  "branch_op_str Action = ''action''"
| "branch_op_str Compensate = ''compensate''"
| "branch_op_str Try = ''try''"
| "branch_op_str Confirm = ''confirm''"
| "branch_op_str Cancel = ''cancel''"
| "branch_op_str Commit = ''commit''"
| "branch_op_str Rollback = ''rollback''"

definition parse_branch_op :: "string \<Rightarrow> branch_op option" where
  "parse_branch_op s =
     (if s = ''action'' then Some Action
      else if s = ''compensate'' then Some Compensate
      else if s = ''try'' then Some Try
      else if s = ''confirm'' then Some Confirm
      else if s = ''cancel'' then Some Cancel
      else if s = ''commit'' then Some Commit
      else if s = ''rollback'' then Some Rollback
      else None)"

fun origin_op :: "branch_op \<Rightarrow> branch_op option" where
  "origin_op Cancel = Some Try"
| "origin_op Compensate = Some Action"
| "origin_op Rollback = Some Action"
| "origin_op _ = None"

definition is_compensating :: "branch_op \<Rightarrow> bool" where
  "is_compensating op \<longleftrightarrow> origin_op op \<noteq> None"

lemma origin_op_neq: "origin_op op = Some o' \<Longrightarrow> o' \<noteq> op"
  by (cases op) auto

lemma origin_op_forward: "origin_op op = Some o' \<Longrightarrow> origin_op o' = None"
  by (cases op) auto

record saga_step =
  s_action :: string
  s_compensate :: string
  s_payload :: string

definition saga_step_new :: "string \<Rightarrow> string \<Rightarrow> saga_step" where
  "saga_step_new a c = \<lparr>s_action = a, s_compensate = c, s_payload = []\<rparr>"

definition saga_step_with_payload :: "string \<Rightarrow> string \<Rightarrow> string \<Rightarrow> saga_step" where
  "saga_step_with_payload a c p = \<lparr>s_action = a, s_compensate = c, s_payload = p\<rparr>"

section \<open>The wire codec contract\<close>

text \<open>
  The stores write \<open>as_str\<close> and read with \<open>parse\<close>; what they rely on is that reading back gives
  the value written and that the parser accepts nothing else.
\<close>

locale wire_codec =
  fixes as_str :: "'a \<Rightarrow> string" and parse :: "string \<Rightarrow> 'a option"
  assumes parse_as_str: "parse (as_str x) = Some x"
    and parse_Some: "parse s = Some x \<Longrightarrow> as_str x = s"
begin

lemma as_str_inj: "as_str x = as_str y \<longleftrightarrow> x = y"
  by (metis option.inject parse_as_str)

lemma parse_iff: "parse s = Some x \<longleftrightarrow> s = as_str x"
  using parse_as_str parse_Some by auto

lemma parse_None_iff: "parse s = None \<longleftrightarrow> s \<notin> range as_str"
  using parse_as_str parse_Some by (cases "parse s") auto

end

interpretation tt: wire_codec trans_type_str parse_trans_type
proof
  fix x show "parse_trans_type (trans_type_str x) = Some x"
    by (cases x) (simp_all add: parse_trans_type_def)
next
  fix s x show "parse_trans_type s = Some x \<Longrightarrow> trans_type_str x = s"
    by (auto simp: parse_trans_type_def split: if_splits)
qed

interpretation gs: wire_codec global_status_str parse_global_status
proof
  fix x show "parse_global_status (global_status_str x) = Some x"
    by (cases x) (simp_all add: parse_global_status_def)
next
  fix s x show "parse_global_status s = Some x \<Longrightarrow> global_status_str x = s"
    by (auto simp: parse_global_status_def split: if_splits)
qed

interpretation bs: wire_codec branch_status_str parse_branch_status
proof
  fix x show "parse_branch_status (branch_status_str x) = Some x"
    by (cases x) (simp_all add: parse_branch_status_def)
next
  fix s x show "parse_branch_status s = Some x \<Longrightarrow> branch_status_str x = s"
    by (auto simp: parse_branch_status_def split: if_splits)
qed

interpretation bo: wire_codec branch_op_str parse_branch_op
proof
  fix x show "parse_branch_op (branch_op_str x) = Some x"
    by (cases x) (simp_all add: parse_branch_op_def)
next
  fix s x show "parse_branch_op s = Some x \<Longrightarrow> branch_op_str x = s"
    by (auto simp: parse_branch_op_def split: if_splits)
qed

text \<open>
  \<open>ORDER BY branch_id, op\<close> compares the stored strings, so operations are ordered by their
  wire form.
\<close>

instantiation branch_op :: linorder
begin

definition less_eq_branch_op :: "branch_op \<Rightarrow> branch_op \<Rightarrow> bool" where
  "less_eq_branch_op a b \<longleftrightarrow> branch_op_str a \<le> branch_op_str b"

definition less_branch_op :: "branch_op \<Rightarrow> branch_op \<Rightarrow> bool" where
  "less_branch_op a b \<longleftrightarrow> branch_op_str a < branch_op_str b"

instance
proof
  fix x y z :: branch_op
  show "(x < y) = (x \<le> y \<and> \<not> y \<le> x)" "x \<le> x" "x \<le> y \<or> y \<le> x"
    by (auto simp: less_eq_branch_op_def less_branch_op_def)
  show "x \<le> y \<Longrightarrow> y \<le> z \<Longrightarrow> x \<le> z"
    by (auto simp: less_eq_branch_op_def)
  show "x \<le> y \<Longrightarrow> y \<le> x \<Longrightarrow> x = y"
    by (auto simp: less_eq_branch_op_def bo.as_str_inj)
qed

end

section \<open>Only an explicit refusal is a failure\<close>

lemma from_http_Failure_iff:
  "from_http status body = Failure \<longleftrightarrow>
     sublist ''FAILURE'' body \<or> \<not> sublist ''ONGOING'' body \<and> status = 409"
  by (auto simp: from_http_def)

lemma from_grpc_Failure_iff: "from_grpc code = Failure \<longleftrightarrow> code = grpc_aborted"
  by (auto simp: verdict_defs)

end
