(* ===== verification/Advance.thy ===== *)
theory Advance
  imports Core_Types
begin

text \<open>
  The state machines of \<^verbatim>\<open>crates/dtmrs-core/src/lib.rs\<close>: what the coordinator does next for a
  global transaction, given the states of its branches. One function per mode, the retry
  policy, the prepared deadline, and the statuses an API call may change under a worker.
  TCC and XA share a contract, the locale \<open>two_phase\<close>.
\<close>

datatype advance =
    Call nat branch_op
  | Finish global_status
  | Wait
  | RunWorkflow
  | CallEach "nat list" branch_op

section \<open>Who else may change the status\<close>

fun status_contested :: "global_status \<Rightarrow> trans_type \<Rightarrow> bool" where
  "status_contested GPrepared tt = True"
| "status_contested GSubmitted tt = (tt = Saga \<or> tt = Workflow)"
| "status_contested GAborting tt = False"
| "status_contested GSucceed tt = False"
| "status_contested GFailed tt = False"

section \<open>Scans over branch states\<close>

text \<open>The forward loops take the first branch not yet succeeded, the backward ones the last.\<close>

fun scan_up :: "('a \<Rightarrow> bool) \<Rightarrow> nat \<Rightarrow> 'a list \<Rightarrow> nat option" where
  "scan_up P i [] = None"
| "scan_up P i (x # xs) = (if P x then Some i else scan_up P (Suc i) xs)"

fun scan_down :: "('a \<Rightarrow> bool) \<Rightarrow> 'a list \<Rightarrow> nat \<Rightarrow> nat option" where
  "scan_down P xs 0 = None"
| "scan_down P xs (Suc i) = (if P (xs ! i) then Some i else scan_down P xs i)"

definition pending :: "branch_status \<Rightarrow> bool" where
  "pending st \<longleftrightarrow> st \<noteq> BSucceed"

lemma scan_up_Some_offset:
  "scan_up P k xs = Some i \<longleftrightarrow>
     (\<exists>m. i = k + m \<and> m < length xs \<and> P (xs ! m) \<and> (\<forall>j<m. \<not> P (xs ! j)))"
proof (induction xs arbitrary: k)
  case Nil
  then show ?case by simp
next
  case (Cons x xs)
  show ?case
  proof (cases "P x")
    case True
    then have "m = 0" if "\<forall>j<m. \<not> P ((x # xs) ! j)" for m
      using that by (cases m) auto
    with True show ?thesis by (auto intro: exI [of _ "0::nat"])
  next
    case False
    have "(\<exists>m. i = k + m \<and> m < length (x # xs) \<and> P ((x # xs) ! m) \<and> (\<forall>j<m. \<not> P ((x # xs) ! j)))
      \<longleftrightarrow> (\<exists>m. i = k + Suc m \<and> m < length xs \<and> P (xs ! m) \<and> (\<forall>j<m. \<not> P (xs ! j)))"
      (is "?L \<longleftrightarrow> ?R")
    proof
      assume ?L
      then obtain m where m: "i = k + m" "m < length (x # xs)" "P ((x # xs) ! m)"
        "\<forall>j<m. \<not> P ((x # xs) ! j)" by blast
      from m(3) False obtain n where "m = Suc n" by (cases m) auto
      with m show ?R by (intro exI [of _ n]) auto
    next
      assume ?R
      then obtain m where m: "i = k + Suc m" "m < length xs" "P (xs ! m)" "\<forall>j<m. \<not> P (xs ! j)"
        by blast
      with False show ?L by (intro exI [of _ "Suc m"]) (auto simp: less_Suc_eq_0_disj)
    qed
    with False Cons [of "Suc k"] show ?thesis by simp
  qed
qed

lemma scan_up0_Some_iff:
  "scan_up P 0 xs = Some i \<longleftrightarrow> i < length xs \<and> P (xs ! i) \<and> (\<forall>j<i. \<not> P (xs ! j))"
  by (simp add: scan_up_Some_offset)

lemma scan_up_None_iff: "scan_up P k xs = None \<longleftrightarrow> (\<forall>x\<in>set xs. \<not> P x)"
  by (induction xs arbitrary: k) auto

lemma scan_down_Some_iff:
  "scan_down P xs n = Some i \<longleftrightarrow> i < n \<and> P (xs ! i) \<and> (\<forall>j. i < j \<and> j < n \<longrightarrow> \<not> P (xs ! j))"
proof (induction n)
  case 0
  then show ?case by simp
next
  case (Suc n)
  then show ?case by (auto simp: less_Suc_eq)
qed

lemma scan_down_None_iff: "scan_down P xs n = None \<longleftrightarrow> (\<forall>j<n. \<not> P (xs ! j))"
  by (induction n) (auto simp: less_Suc_eq)

lemma scan_down_all_None_iff:
  "scan_down P xs (length xs) = None \<longleftrightarrow> (\<forall>x\<in>set xs. \<not> P x)"
  by (simp add: scan_down_None_iff all_set_conv_all_nth)

section \<open>SAGA\<close>

fun saga_forward :: "nat \<Rightarrow> branch_status list \<Rightarrow> advance" where
  "saga_forward i [] = Finish GSucceed"
| "saga_forward i (st # sts) =
     (case st of
        BSucceed \<Rightarrow> saga_forward (Suc i) sts
      | BPrepared \<Rightarrow> Call i Action
      | BFailed \<Rightarrow> Finish GAborting)"

fun saga_advance :: "global_status \<Rightarrow> branch_status list \<Rightarrow> branch_status list \<Rightarrow> advance" where
  "saga_advance GSubmitted actions compensates = saga_forward 0 actions"
| "saga_advance GAborting actions compensates =
     (case scan_down (\<lambda>st. st = BPrepared) compensates (length compensates) of
        Some i \<Rightarrow> Call i Compensate
      | None \<Rightarrow> Finish GFailed)"
| "saga_advance GPrepared actions compensates = Wait"
| "saga_advance s actions compensates = Finish s"

lemma scan_up_Suc: "scan_up P (Suc k) xs = map_option Suc (scan_up P k xs)"
  by (induction xs arbitrary: k) auto

lemma saga_forward_offset:
  "saga_forward k sts = (case scan_up pending 0 sts of
     None \<Rightarrow> Finish GSucceed
   | Some m \<Rightarrow> if sts ! m = BPrepared then Call (k + m) Action else Finish GAborting)"
proof (induction sts arbitrary: k)
  case Nil
  then show ?case by simp
next
  case (Cons st sts)
  then show ?case
    by (cases st) (auto simp: scan_up_Suc pending_def split: option.splits)
qed

section \<open>Retry policy\<close>

record retry_policy =
  rp_initial :: int
  rp_max :: int

definition retry_policy_default :: retry_policy where
  "retry_policy_default = \<lparr>rp_initial = 10, rp_max = 300\<rparr>"

text \<open>A positive integer of the environment, or the fallback.\<close>

definition env_pos :: "(string \<Rightarrow> string option) \<Rightarrow> string \<Rightarrow> int \<Rightarrow> int" where
  "env_pos env k fallback =
     (case env k of
        None \<Rightarrow> fallback
      | Some v \<Rightarrow> (case parse_i64 v of
            None \<Rightarrow> fallback
          | Some n \<Rightarrow> if 0 < n then n else fallback))"

definition retry_policy_from_env :: "(string \<Rightarrow> string option) \<Rightarrow> retry_policy" where
  "retry_policy_from_env env =
     (let d = retry_policy_default;
          initial = env_pos env ''DTMRS_RETRY_INTERVAL'' (rp_initial d);
          mx = env_pos env ''DTMRS_RETRY_MAX_INTERVAL'' (rp_max d)
      in \<lparr>rp_initial = initial, rp_max = max mx initial\<rparr>)"

text \<open>\<open>cur * 2\<close> is an i64 product: in a release build it wraps.\<close>

definition next_interval_with :: "int \<Rightarrow> retry_policy \<Rightarrow> int" where
  "next_interval_with cur p =
     (if cur \<le> 0 then rp_initial p else min (wrap_i64 (cur * 2)) (rp_max p))"

definition next_interval :: "int \<Rightarrow> int" where
  "next_interval cur = next_interval_with cur retry_policy_default"

lemma env_pos_pos: "0 < fallback \<Longrightarrow> 0 < env_pos env k fallback"
  by (auto simp: env_pos_def split: option.splits)

lemma env_pos_in_i64: "in_i64 fallback \<Longrightarrow> in_i64 (env_pos env k fallback)"
  by (auto simp: env_pos_def dest: parse_i64_range split: option.splits)

definition policy_ok :: "retry_policy \<Rightarrow> bool" where
  "policy_ok p \<longleftrightarrow> 0 < rp_initial p \<and> rp_initial p \<le> rp_max p"

lemma policy_ok_from_env: "policy_ok (retry_policy_from_env env)"
  by (simp add: policy_ok_def retry_policy_from_env_def Let_def env_pos_pos
      retry_policy_default_def)

text \<open>The sequence of waits a transaction sees: each is computed from the one before.\<close>

fun nth_wait :: "retry_policy \<Rightarrow> nat \<Rightarrow> int" where
  "nth_wait p 0 = next_interval_with 0 p"
| "nth_wait p (Suc n) = next_interval_with (nth_wait p n) p"

lemma next_interval_with_pos:
  assumes "policy_ok p" "rp_max p \<le> 4611686018427387903" "0 \<le> cur" "cur \<le> rp_max p"
  shows "rp_initial p \<le> next_interval_with cur p \<or> cur \<le> next_interval_with cur p"
    and "0 < next_interval_with cur p" and "next_interval_with cur p \<le> rp_max p"
proof -
  have "in_i64 (cur * 2)"
    using assms by (simp add: in_i64_def i64_min_def i64_max_def)
  then have w: "wrap_i64 (cur * 2) = cur * 2" by (rule wrap_i64_id)
  show "rp_initial p \<le> next_interval_with cur p \<or> cur \<le> next_interval_with cur p"
    and "0 < next_interval_with cur p" and "next_interval_with cur p \<le> rp_max p"
    using assms by (auto simp: next_interval_with_def w policy_ok_def)
qed

lemma nth_wait_closed:
  assumes "policy_ok p" "rp_max p \<le> 4611686018427387903"
  shows "nth_wait p n = min (rp_initial p * 2 ^ n) (rp_max p)"
proof (induction n)
  case 0
  from assms show ?case by (simp add: next_interval_with_def policy_ok_def)
next
  case (Suc n)
  let ?c = "nth_wait p n"
  have pos: "0 < ?c" and le: "?c \<le> rp_max p"
    using Suc assms by (auto simp: policy_ok_def)
  then have "wrap_i64 (?c * 2) = ?c * 2"
    using assms by (intro wrap_i64_id) (simp add: in_i64_def i64_min_def i64_max_def)
  with pos have "nth_wait p (Suc n) = min (?c * 2) (rp_max p)"
    by (simp add: next_interval_with_def)
  moreover have "0 < rp_max p" using assms by (simp add: policy_ok_def)
  ultimately show ?case
    by (auto simp: Suc min_def)
qed

section \<open>TCC, two-phase message, XA and workflow\<close>

fun tcc_advance :: "global_status \<Rightarrow> branch_status list \<Rightarrow> branch_status list \<Rightarrow> advance" where
  "tcc_advance GPrepared confirms cancels = Wait"
| "tcc_advance GSubmitted confirms cancels =
     (case scan_up pending 0 confirms of
        Some i \<Rightarrow> Call i Confirm
      | None \<Rightarrow> Finish GSucceed)"
| "tcc_advance GAborting confirms cancels =
     (case scan_down pending cancels (length cancels) of
        Some i \<Rightarrow> Call i Cancel
      | None \<Rightarrow> Finish GFailed)"
| "tcc_advance s confirms cancels = Finish s"

fun msg_advance :: "global_status \<Rightarrow> branch_status list \<Rightarrow> advance" where
  "msg_advance GPrepared actions = Wait"
| "msg_advance GSubmitted actions =
     (case scan_up pending 0 actions of
        Some i \<Rightarrow> Call i Action
      | None \<Rightarrow> Finish GSucceed)"
| "msg_advance GAborting actions = Finish GFailed"
| "msg_advance s actions = Finish s"

fun xa_advance :: "global_status \<Rightarrow> branch_status list \<Rightarrow> branch_status list \<Rightarrow> advance" where
  "xa_advance GPrepared commits rollbacks = Wait"
| "xa_advance GSubmitted commits rollbacks =
     (case scan_up pending 0 commits of
        Some i \<Rightarrow> Call i Commit
      | None \<Rightarrow> Finish GSucceed)"
| "xa_advance GAborting commits rollbacks =
     (case scan_down pending rollbacks (length rollbacks) of
        Some i \<Rightarrow> Call i Rollback
      | None \<Rightarrow> Finish GFailed)"
| "xa_advance s commits rollbacks = Finish s"

fun workflow_advance :: "global_status \<Rightarrow> branch_status list \<Rightarrow> advance" where
  "workflow_advance GPrepared compensates = Wait"
| "workflow_advance GSubmitted compensates = RunWorkflow"
| "workflow_advance GAborting compensates =
     (case scan_down pending compensates (length compensates) of
        Some i \<Rightarrow> Call i Compensate
      | None \<Rightarrow> Finish GFailed)"
| "workflow_advance s compensates = Finish s"

text \<open>
  By topic: the first step with a branch not yet succeeded, and all of that step's branches that
  have not succeeded. \<open>position\<close> is the scan from the front, the index filter a list
  comprehension over \<open>0..states.len()\<close>.
\<close>

fun msg_fanout_advance :: "global_status \<Rightarrow> nat list \<Rightarrow> branch_status list \<Rightarrow> advance" where
  "msg_fanout_advance GPrepared steps states = Wait"
| "msg_fanout_advance GSubmitted steps states =
     (case scan_up pending 0 states of
        None \<Rightarrow> Finish GSucceed
      | Some first \<Rightarrow>
          (let step = steps ! first
           in CallEach [k \<leftarrow> [0..<length states]. steps ! k = step \<and> pending (states ! k)]
                Action))"
| "msg_fanout_advance GAborting steps states = Finish GFailed"
| "msg_fanout_advance s steps states = Finish s"

section \<open>Prepared transactions that nobody settles\<close>

definition default_timeout_to_fail :: int where
  "default_timeout_to_fail = 35"

definition prepared_timeout_to :: "global_status \<Rightarrow> trans_type \<Rightarrow> global_status option" where
  "prepared_timeout_to status tt =
     (if status = GPrepared \<and> (tt = Tcc \<or> tt = Xa) then Some GAborting else None)"

definition prepared_deadline :: "int \<Rightarrow> int \<Rightarrow> int \<Rightarrow> int option" where
  "prepared_deadline create_time timeout_to_fail dflt =
     (let t = (if 0 < timeout_to_fail then timeout_to_fail else dflt)
      in if 0 < t then Some (saturating_add_i64 create_time t) else None)"

section \<open>The two-phase contract\<close>

text \<open>
  What the driver of TCC and XA relies on: forward operations in order and nothing else once
  submitted, backward operations in reverse order and nothing else once aborting.
\<close>

locale two_phase =
  fixes adv :: "global_status \<Rightarrow> branch_status list \<Rightarrow> branch_status list \<Rightarrow> advance"
    and fwd bwd :: branch_op
  assumes fwd_bwd: "fwd \<noteq> bwd"
    and prepared: "adv GPrepared f b = Wait"
    and submitted: "adv GSubmitted f b =
      (case scan_up pending 0 f of Some i \<Rightarrow> Call i fwd | None \<Rightarrow> Finish GSucceed)"
    and aborting: "adv GAborting f b =
      (case scan_down pending b (length b) of Some i \<Rightarrow> Call i bwd | None \<Rightarrow> Finish GFailed)"
    and final: "is_final s \<Longrightarrow> adv s f b = Finish s"
begin

lemma call_cases:
  assumes "adv s f b = Call i op"
  obtains (forward) "s = GSubmitted" "op = fwd" "i < length f" "pending (f ! i)"
      "\<forall>j<i. f ! j = BSucceed"
    | (backward) "s = GAborting" "op = bwd" "i < length b" "pending (b ! i)"
      "\<forall>j. i < j \<and> j < length b \<longrightarrow> b ! j = BSucceed"
proof (cases s)
  case GSubmitted
  with assms submitted [of f b] have "op = fwd" and *: "scan_up pending 0 f = Some i"
    by (auto split: option.splits)
  from * show ?thesis
    by (intro forward) (use GSubmitted \<open>op = fwd\<close> in \<open>auto simp: scan_up0_Some_iff pending_def\<close>)
next
  case GAborting
  with assms aborting [of f b] have "op = bwd" and *: "scan_down pending b (length b) = Some i"
    by (auto split: option.splits)
  from * show ?thesis
    by (intro backward) (use GAborting \<open>op = bwd\<close> in \<open>auto simp: scan_down_Some_iff pending_def\<close>)
qed (use assms prepared final in auto)

lemma finish_cases:
  assumes "adv s f b = Finish t"
  obtains (succeed) "s = GSubmitted" "t = GSucceed" "\<forall>st\<in>set f. st = BSucceed"
    | (failed) "s = GAborting" "t = GFailed" "\<forall>st\<in>set b. st = BSucceed"
    | (already) "is_final s" "t = s"
proof (cases s)
  case GSubmitted
  with assms submitted [of f b] have "t = GSucceed" "scan_up pending 0 f = None"
    by (auto split: option.splits)
  with GSubmitted show ?thesis by (intro succeed) (auto simp: scan_up_None_iff pending_def)
next
  case GAborting
  with assms aborting [of f b] have "t = GFailed" "scan_down pending b (length b) = None"
    by (auto split: option.splits)
  with GAborting show ?thesis
    by (intro failed) (auto simp: scan_down_all_None_iff pending_def)
qed (use assms prepared final in auto)

lemma finish_direction: "adv s f b = Finish t \<Longrightarrow> s = GSubmitted \<Longrightarrow> t = GSucceed"
  by (erule finish_cases) auto

lemma only_calls_and_finishes: "adv s f b \<noteq> RunWorkflow \<and> adv s f b \<noteq> CallEach is op"
  using prepared submitted [of f b] aborting [of f b] final [of s f b]
  by (cases s) (auto split: option.splits)

lemma wait_iff: "adv s f b = Wait \<longleftrightarrow> s = GPrepared"
  using prepared submitted [of f b] aborting [of f b] final [of s f b]
  by (cases s) (auto split: option.splits)

end

interpretation tcc: two_phase tcc_advance Confirm Cancel
  by unfold_locales (auto simp: is_final_iff)

interpretation xa: two_phase xa_advance Commit Rollback
  by unfold_locales (auto simp: is_final_iff)

section \<open>Properties\<close>

lemma filter_upt_eq: "m < n \<Longrightarrow> [k \<leftarrow> [0..<n]. k = m] = [m]"
  by (induction n) (auto simp: less_Suc_eq filter_empty_conv)

text \<open>
  A submitted saga calls the action of the first step not yet done, finishes as succeeded
  exactly when every step is done, and turns to aborting exactly when that first step is
  refused; an aborting saga calls the compensation of the last step whose compensation is still
  prepared, so in reverse order, and fails when none is left.
\<close>

theorem saga_advance_decides:
  "(saga_advance GSubmitted acts comps = Call i op \<longleftrightarrow>
     op = Action \<and> i < length acts \<and> acts ! i = BPrepared \<and> (\<forall>j<i. acts ! j = BSucceed)) \<and>
   (saga_advance GSubmitted acts comps = Finish st \<longleftrightarrow>
     st = GSucceed \<and> (\<forall>a\<in>set acts. a = BSucceed) \<or>
     st = GAborting \<and> (\<exists>i<length acts. acts ! i = BFailed \<and> (\<forall>j<i. acts ! j = BSucceed))) \<and>
   (saga_advance GAborting acts comps = Call i op \<longleftrightarrow>
     op = Compensate \<and> i < length comps \<and> comps ! i = BPrepared \<and>
     (\<forall>j. i < j \<and> j < length comps \<longrightarrow> comps ! j \<noteq> BPrepared)) \<and>
   (saga_advance GAborting acts comps = Finish st \<longleftrightarrow>
     st = GFailed \<and> (\<forall>c\<in>set comps. c \<noteq> BPrepared))"
proof (intro conjI)
  have up: "scan_up pending 0 acts = Some m \<longleftrightarrow>
      m < length acts \<and> acts ! m \<noteq> BSucceed \<and> (\<forall>j<m. acts ! j = BSucceed)" for m
    by (auto simp: scan_up0_Some_iff pending_def)
  have none: "scan_up pending 0 acts = None \<longleftrightarrow> (\<forall>a\<in>set acts. a = BSucceed)"
    by (auto simp: scan_up_None_iff pending_def)
  show "saga_advance GSubmitted acts comps = Call i op \<longleftrightarrow>
     op = Action \<and> i < length acts \<and> acts ! i = BPrepared \<and> (\<forall>j<i. acts ! j = BSucceed)"
  proof -
    have "saga_advance GSubmitted acts comps = Call i op \<longleftrightarrow>
        op = Action \<and> scan_up pending 0 acts = Some i \<and> acts ! i = BPrepared"
      by (auto simp: saga_forward_offset split: option.splits)
    with up [of i] show ?thesis by auto
  qed
  show "saga_advance GSubmitted acts comps = Finish st \<longleftrightarrow>
     st = GSucceed \<and> (\<forall>a\<in>set acts. a = BSucceed) \<or>
     st = GAborting \<and> (\<exists>i<length acts. acts ! i = BFailed \<and> (\<forall>j<i. acts ! j = BSucceed))"
  proof (cases "scan_up pending 0 acts")
    case None
    then have "\<not> (\<exists>i<length acts. acts ! i = BFailed)" using none nth_mem by fastforce
    with None none show ?thesis by (auto simp: saga_forward_offset)
  next
    case (Some m)
    with up have m: "m < length acts" "acts ! m \<noteq> BSucceed" "\<forall>j<m. acts ! j = BSucceed" by auto
    have only: "(\<exists>i<length acts. acts ! i = BFailed \<and> (\<forall>j<i. acts ! j = BSucceed)) \<longleftrightarrow> acts ! m = BFailed"
    proof
      assume "\<exists>i<length acts. acts ! i = BFailed \<and> (\<forall>j<i. acts ! j = BSucceed)"
      then obtain i where i: "acts ! i = BFailed" "\<forall>j<i. acts ! j = BSucceed" by blast
      from i m have "\<not> i < m" "\<not> m < i" by auto
      with i show "acts ! m = BFailed" by simp
    qed (use m in blast)
    have "\<not> (\<forall>a\<in>set acts. a = BSucceed)" using m nth_mem by blast
    then show ?thesis
      unfolding only using Some m(2) by (cases "acts ! m") (simp_all add: saga_forward_offset, blast)
  qed
  show "saga_advance GAborting acts comps = Call i op \<longleftrightarrow>
     op = Compensate \<and> i < length comps \<and> comps ! i = BPrepared \<and>
     (\<forall>j. i < j \<and> j < length comps \<longrightarrow> comps ! j \<noteq> BPrepared)"
  proof -
    have "saga_advance GAborting acts comps = Call i op \<longleftrightarrow>
        op = Compensate \<and> scan_down (\<lambda>st. st = BPrepared) comps (length comps) = Some i"
      by (auto split: option.splits)
    with scan_down_Some_iff [of "\<lambda>st. st = BPrepared" comps "length comps" i] show ?thesis by simp
  qed
  show "saga_advance GAborting acts comps = Finish st \<longleftrightarrow>
     st = GFailed \<and> (\<forall>c\<in>set comps. c \<noteq> BPrepared)"
    using scan_down_all_None_iff [of "\<lambda>st. st = BPrepared" comps]
    by (auto split: option.splits)
qed

lemma saga_advance_decides_witness:
  "saga_advance GSubmitted [BSucceed, BPrepared] [BPrepared, BPrepared] = Call 1 Action \<and>
   saga_advance GAborting [BSucceed, BFailed] [BPrepared, BSucceed] = Call 0 Compensate"
  using saga_advance_decides [of "[BSucceed, BPrepared]" "[BPrepared, BPrepared]" 1 Action]
    saga_advance_decides [of "[BSucceed, BFailed]" "[BPrepared, BSucceed]" 0 Compensate]
  by (simp add: less_Suc_eq)

text \<open>
  By topic, the branches called together are exactly the undelivered branches of one step,
  and every branch of an earlier step has been delivered: steps are sent in order, and within a
  step nobody waits for anybody.
\<close>

theorem fanout_step_by_step:
  assumes "sorted steps" "length steps = length states"
    and "msg_fanout_advance GSubmitted steps states = CallEach is op" "i \<in> set is"
  shows "op = Action \<and> i < length states \<and> states ! i \<noteq> BSucceed \<and>
    (\<forall>j<length states. steps ! j < steps ! i \<longrightarrow> states ! j = BSucceed) \<and>
    (\<forall>j<length states. steps ! j = steps ! i \<longrightarrow> states ! j \<noteq> BSucceed \<longrightarrow> j \<in> set is)"
proof -
  obtain m where m: "scan_up pending 0 states = Some m"
    and is_def: "is = [k \<leftarrow> [0..<length states]. steps ! k = steps ! m \<and> pending (states ! k)]"
    and op: "op = Action"
    using assms(3) by (auto simp: Let_def split: option.splits)
  have before: "\<forall>j<m. states ! j = BSucceed" and m_less: "m < length states"
    using m by (auto simp: scan_up0_Some_iff pending_def)
  have "steps ! j \<ge> steps ! m" if "m \<le> j" "j < length states" for j
    using that assms(1,2) by (simp add: sorted_nth_mono)
  with before have "\<forall>j<length states. steps ! j < steps ! m \<longrightarrow> states ! j = BSucceed"
    by (metis leD linorder_not_less)
  with assms(4) op show ?thesis by (auto simp: is_def pending_def)
qed

lemma fanout_step_by_step_witness:
  "msg_fanout_advance GSubmitted [0, 1, 1, 2] [BSucceed, BSucceed, BFailed, BPrepared] =
     CallEach [2] Action \<and> [BSucceed, BSucceed, BFailed, BPrepared] ! 2 \<noteq> BSucceed"
proof -
  have *: "msg_fanout_advance GSubmitted [0, 1, 1, 2] [BSucceed, BSucceed, BFailed, BPrepared] =
     CallEach [2] Action" by code_simp
  with fanout_step_by_step [OF _ _ *, of 2] show ?thesis by simp
qed

text \<open>
  Without fan-out (every step has one branch) the fan-out machine decides exactly what the
  plain message machine decides.
\<close>

theorem fanout_of_single_branches:
  assumes "distinct steps" "length steps = length states"
  shows "msg_fanout_advance st steps states =
    (case msg_advance st states of Call i op \<Rightarrow> CallEach [i] op | a \<Rightarrow> a)"
proof (cases st)
  case GSubmitted
  show ?thesis
  proof (cases "scan_up pending 0 states")
    case None
    with GSubmitted show ?thesis by simp
  next
    case (Some m)
    then have m: "m < length states" "pending (states ! m)" by (auto simp: scan_up0_Some_iff)
    have "[k \<leftarrow> [0..<length states]. steps ! k = steps ! m \<and> pending (states ! k)] =
        [k \<leftarrow> [0..<length states]. k = m]"
      using assms m by (intro filter_cong) (auto simp: nth_eq_iff_index_eq)
    also have "\<dots> = [m]" using m(1) by (rule filter_upt_eq)
    finally show ?thesis using GSubmitted Some by (simp add: Let_def)
  qed
qed simp_all

lemma fanout_of_single_branches_witness:
  "msg_fanout_advance GSubmitted [0, 1] [BSucceed, BPrepared] = CallEach [1] Action"
  using fanout_of_single_branches [of "[0, 1]" "[BSucceed, BPrepared]" GSubmitted]
  by (simp add: pending_def)

text \<open>
  C38. The waits between retries grow geometrically from the initial interval and stop at the
  cap, for every policy read from the environment whose cap an i64 can double.
\<close>

theorem backoff_closed_form:
  assumes "p = retry_policy_from_env env" "rp_max p \<le> 4611686018427387903"
  shows "nth_wait p n = min (rp_initial p * 2 ^ n) (rp_max p) \<and> 0 < nth_wait p n"
proof -
  have ok: "policy_ok p" unfolding assms(1) by (rule policy_ok_from_env)
  moreover from ok have "0 < min (rp_initial p * 2 ^ n) (rp_max p)" by (simp add: policy_ok_def)
  ultimately show ?thesis using nth_wait_closed [OF ok assms(2)] by simp
qed

lemma backoff_closed_form_witness:
  "nth_wait (retry_policy_from_env (\<lambda>_. None)) 3 = 80"
  using backoff_closed_form [OF refl, of "\<lambda>_. None" 3]
  by (simp add: retry_policy_from_env_def env_pos_def retry_policy_default_def Let_def
      next_interval_with_def wrap_i64_def)

text \<open>
  Only a prepared TCC or XA transaction has a deadline to be rolled back at, and the
  deadline lies after its creation, at its own timeout if it has one and at the default
  otherwise; without either it is never rolled back by the clock.
\<close>

theorem prepared_rollback_deadline:
  assumes "0 \<le> ct" "ct \<le> i64_max"
  shows "(prepared_timeout_to st tt = Some t \<longleftrightarrow>
      st = GPrepared \<and> (tt = Tcc \<or> tt = Xa) \<and> t = GAborting) \<and>
    (prepared_deadline ct ttf dflt = None \<longleftrightarrow> ttf \<le> 0 \<and> dflt \<le> 0) \<and>
    (prepared_deadline ct ttf dflt = Some d \<longrightarrow>
      ct \<le> d \<and> (d = ct + (if 0 < ttf then ttf else dflt) \<or> d = i64_max))"
proof (intro conjI)
  show "prepared_timeout_to st tt = Some t \<longleftrightarrow> st = GPrepared \<and> (tt = Tcc \<or> tt = Xa) \<and> t = GAborting"
    by (auto simp: prepared_timeout_to_def)
  show "prepared_deadline ct ttf dflt = None \<longleftrightarrow> ttf \<le> 0 \<and> dflt \<le> 0"
    by (auto simp: prepared_deadline_def Let_def)
  show "prepared_deadline ct ttf dflt = Some d \<longrightarrow>
      ct \<le> d \<and> (d = ct + (if 0 < ttf then ttf else dflt) \<or> d = i64_max)"
    using assms
    by (auto simp: prepared_deadline_def Let_def saturating_add_i64_def i64_min_def i64_max_def
        split: if_splits)
qed

lemma prepared_rollback_deadline_witness:
  "prepared_timeout_to GPrepared Xa = Some GAborting \<and> prepared_deadline 100 0 35 = Some 135"
  using prepared_rollback_deadline [of 100 GPrepared Xa GAborting 0 35 135]
  by (simp add: prepared_deadline_def saturating_add_i64_def i64_min_def i64_max_def)

end
