(* ===== verification/Topics.thy ===== *)
theory Topics
  imports Core_Types
begin

text \<open>
  Two-phase messages by topic (\<^verbatim>\<open>crates/dtmrs-core/src/lib.rs\<close>): the branch list a message
  carries, the defaults old payloads are completed with, and the expansion of \<open>topic://\<close> steps
  into one branch per subscriber. The subscriptions are an argument, as in the source.
\<close>

definition msg_topic_prefix :: string where
  "msg_topic_prefix = ''topic://''"

record msg_branch =
  mb_action :: string
  mb_compensate :: string
  mb_payload :: string
  mb_branch_id :: string
  mb_step :: "nat option"

definition fill_default :: "nat \<Rightarrow> msg_branch \<Rightarrow> msg_branch" where
  "fill_default i b =
     (let b1 = (if mb_branch_id b = [] then b\<lparr>mb_branch_id := pad2 (i + 1)\<rparr> else b)
      in if mb_step b1 = None then b1\<lparr>mb_step := Some i\<rparr> else b1)"

fun fill_defaults_from :: "nat \<Rightarrow> msg_branch list \<Rightarrow> msg_branch list" where
  "fill_defaults_from i [] = []"
| "fill_defaults_from i (b # bs) = fill_default i b # fill_defaults_from (Suc i) bs"

definition fill_defaults :: "msg_branch list \<Rightarrow> msg_branch list" where
  "fill_defaults bs = fill_defaults_from 0 bs"

record msg_expansion =
  me_branches :: "msg_branch list"
  me_empty_topics :: "string list"

text \<open>The error texts of the expansion, one constructor each.\<close>

datatype expand_error = Payloads_mismatch nat nat | Empty_topic | Topic_not_found

text \<open>The branches of one step: step number \<open>i\<close>, its addresses and its payload.\<close>

fun number_urls :: "nat \<Rightarrow> nat \<Rightarrow> string \<Rightarrow> nat \<Rightarrow> string list \<Rightarrow> msg_branch list" where
  "number_urls i n payload j [] = []"
| "number_urls i n payload j (url # urls) =
     \<lparr>mb_action = url, mb_compensate = [], mb_payload = payload,
      mb_branch_id = (if n = 1 then pad2 (i + 1) else pad2 (i + 1) @ ''-'' @ pad2 (j + 1)),
      mb_step = Some i\<rparr> # number_urls i n payload (Suc j) urls"

definition step_urls ::
  "(string \<Rightarrow> string list) \<Rightarrow> bool \<Rightarrow> string \<Rightarrow> expand_error + (string list \<times> string list)" where
  "step_urls subscribers allow_empty action =
     (case strip_prefix msg_topic_prefix action of
        None \<Rightarrow> Inr ([action], [])
      | Some topic \<Rightarrow>
          if topic = [] then Inl Empty_topic
          else let urls = subscribers topic
               in if urls = [] then (if allow_empty then Inr (urls, [topic]) else Inl Topic_not_found)
                  else Inr (urls, []))"

fun expand_from ::
  "nat \<Rightarrow> string list \<Rightarrow> string list \<Rightarrow> (string \<Rightarrow> string list) \<Rightarrow> bool \<Rightarrow> msg_expansion \<Rightarrow>
   expand_error + msg_expansion" where
  "expand_from i [] payloads subscribers allow_empty out = Inr out"
| "expand_from i (action # actions) payloads subscribers allow_empty out =
     (let payload = (if i < length payloads then payloads ! i else [])
      in case step_urls subscribers allow_empty action of
           Inl e \<Rightarrow> Inl e
         | Inr (urls, empties) \<Rightarrow>
             expand_from (Suc i) actions payloads subscribers allow_empty
               (out\<lparr>me_branches := me_branches out @ number_urls i (length urls) payload 0 urls,
                    me_empty_topics := me_empty_topics out @ empties\<rparr>))"

definition expand_msg_steps ::
  "string list \<Rightarrow> string list \<Rightarrow> (string \<Rightarrow> string list) \<Rightarrow> bool \<Rightarrow> expand_error + msg_expansion"
where
  "expand_msg_steps actions payloads subscribers allow_empty =
     (if payloads \<noteq> [] \<and> length payloads \<noteq> length actions
      then Inl (Payloads_mismatch (length payloads) (length actions))
      else expand_from 0 actions payloads subscribers allow_empty
             \<lparr>me_branches = [], me_empty_topics = []\<rparr>)"

section \<open>Branch numbers of an expansion\<close>

definition fan_id :: "nat \<Rightarrow> nat \<Rightarrow> string" where
  "fan_id i j = pad2 (i + 1) @ ''-'' @ pad2 (j + 1)"

lemma dash_not_in_pad2: "CHR ''-'' \<notin> set (pad2 n)"
  using pad2_digits [of "CHR ''-''" n] by (auto simp: is_digit_def)

lemma fan_id_inj: "fan_id i j = fan_id i' j' \<longleftrightarrow> i = i' \<and> j = j'"
proof
  assume "fan_id i j = fan_id i' j'"
  then have "split_once (CHR ''-'') (fan_id i j) = split_once (CHR ''-'') (fan_id i' j')" by simp
  moreover have "split_once (CHR ''-'') (fan_id a b) = Some (pad2 (a + 1), pad2 (b + 1))" for a b
    by (simp add: split_once_Some_iff fan_id_def dash_not_in_pad2)
  ultimately show "i = i' \<and> j = j'" by (auto dest: pad2_inj)
qed simp

lemma fan_id_neq_pad2: "fan_id i j \<noteq> pad2 n"
proof
  assume "fan_id i j = pad2 n"
  then have "set (fan_id i j) = set (pad2 n)" by simp
  then show False using dash_not_in_pad2 [of n] by (auto simp: fan_id_def)
qed

lemma number_urls_ids:
  "map mb_branch_id (number_urls i n p k urls) =
     map (\<lambda>j. if n = 1 then pad2 (i + 1) else fan_id i j) [k..<k + length urls]"
proof (induction urls arbitrary: k)
  case Nil
  then show ?case by simp
next
  case (Cons u us)
  have "[k..<k + length (u # us)] = k # [Suc k..<Suc k + length us]"
    by (simp add: upt_rec)
  with Cons [of "Suc k"] show ?case by (simp add: fan_id_def)
qed

lemma number_urls_fields:
  assumes "b \<in> set (number_urls i n p k urls)"
  shows "mb_step b = Some i" "mb_payload b = p" "mb_compensate b = []" "mb_action b \<in> set urls"
    "mb_branch_id b = pad2 (i + 1) \<or> (\<exists>j. mb_branch_id b = fan_id i j)"
proof -
  from assms show "mb_step b = Some i" "mb_payload b = p" "mb_compensate b = []"
    "mb_action b \<in> set urls"
    by (induction urls arbitrary: k) auto
  from assms have "mb_branch_id b \<in> set (map mb_branch_id (number_urls i n p k urls))" by simp
  then show "mb_branch_id b = pad2 (i + 1) \<or> (\<exists>j. mb_branch_id b = fan_id i j)"
    unfolding number_urls_ids by (auto split: if_splits)
qed

lemma number_urls_actions: "map mb_action (number_urls i n p k urls) = urls"
  by (induction urls arbitrary: k) auto

lemma number_urls_distinct: "distinct (map mb_branch_id (number_urls i (length urls) p k urls))"
proof (cases "length urls = 1")
  case True
  then obtain u where "urls = [u]" by (cases urls) auto
  then show ?thesis by simp
next
  case False
  then show ?thesis
    by (simp add: number_urls_ids distinct_map inj_on_def fan_id_inj)
qed

text \<open>
  The accumulator only grows at its end, and what one run adds has step numbers from \<open>i\<close> on,
  in order, with pairwise different branch numbers.
\<close>

definition adds_from :: "nat \<Rightarrow> msg_branch list \<Rightarrow> bool" where
  "adds_from i bs \<longleftrightarrow>
     (\<forall>b\<in>set bs. \<exists>k\<ge>i. mb_step b = Some k \<and>
        (mb_branch_id b = pad2 (k + 1) \<or> (\<exists>j. mb_branch_id b = fan_id k j))) \<and>
     distinct (map mb_branch_id bs) \<and> sorted (map (the \<circ> mb_step) bs)"

lemma adds_from_cons:
  assumes "adds_from (Suc i) bs"
  shows "adds_from i (number_urls i (length urls) p 0 urls @ bs)"
proof -
  let ?us = "number_urls i (length urls) p 0 urls"
  have new: "mb_step b = Some i" "mb_branch_id b = pad2 (i + 1) \<or> (\<exists>j. mb_branch_id b = fan_id i j)"
    if "b \<in> set ?us" for b
    using number_urls_fields [OF that] by simp_all
  have old: "\<exists>k\<ge>Suc i. mb_step b = Some k \<and>
      (mb_branch_id b = pad2 (k + 1) \<or> (\<exists>j. mb_branch_id b = fan_id k j))" if "b \<in> set bs" for b
    using assms that by (auto simp: adds_from_def)
  have "mb_branch_id a \<noteq> mb_branch_id b" if a: "a \<in> set ?us" and b: "b \<in> set bs" for a b
  proof -
    from old [OF b] obtain k where "Suc i \<le> k"
      "mb_branch_id b = pad2 (k + 1) \<or> (\<exists>j. mb_branch_id b = fan_id k j)"
      by blast
    with new(2) [OF a] show ?thesis
      by (auto simp: fan_id_inj fan_id_neq_pad2 fan_id_neq_pad2 [symmetric] dest: pad2_inj)
  qed
  then have "distinct (map mb_branch_id (?us @ bs))"
    using assms number_urls_distinct [of i urls p 0] by (auto simp: adds_from_def)
  moreover have "sorted (map (the \<circ> mb_step) (?us @ bs))"
  proof -
    have const: "map (the \<circ> mb_step) ?us = replicate (length ?us) i"
      using new(1) by (auto intro: map_replicate_const [THEN trans] simp: list_eq_iff_nth_eq)
    have "\<forall>x\<in>set (map (the \<circ> mb_step) bs). i \<le> x" using old by fastforce
    with const show ?thesis
      using assms by (auto simp: adds_from_def sorted_append)
  qed
  moreover have "\<exists>k\<ge>i. mb_step b = Some k \<and>
      (mb_branch_id b = pad2 (k + 1) \<or> (\<exists>j. mb_branch_id b = fan_id k j))"
    if "b \<in> set (?us @ bs)" for b
    using that new old Suc_leD by (metis Un_iff le_refl set_append)
  ultimately show ?thesis unfolding adds_from_def by blast
qed

lemma expand_from_adds:
  assumes "expand_from i actions payloads subs ae out = Inr e"
  shows "\<exists>bs. me_branches e = me_branches out @ bs \<and> adds_from i bs"
  using assms
proof (induction actions arbitrary: i out)
  case Nil
  then show ?case by (auto simp: adds_from_def)
next
  case (Cons a as)
  from Cons.prems obtain urls empties where
    e: "expand_from (Suc i) as payloads subs ae
         (out\<lparr>me_branches := me_branches out @
            number_urls i (length urls) (if i < length payloads then payloads ! i else []) 0 urls,
          me_empty_topics := me_empty_topics out @ empties\<rparr>) = Inr e"
    by (auto simp: Let_def split: sum.splits prod.splits)
  from Cons.IH [OF e] show ?case using adds_from_cons by fastforce
qed

section \<open>Properties\<close>

text \<open>What one action is sent to: itself, or the subscribers of the topic it names.\<close>

definition receivers :: "(string \<Rightarrow> string list) \<Rightarrow> string \<Rightarrow> string list" where
  "receivers subs action =
     (case strip_prefix msg_topic_prefix action of None \<Rightarrow> [action] | Some t \<Rightarrow> subs t)"

lemma step_urls_receivers:
  "step_urls subs ae a = Inr (urls, empties) \<Longrightarrow> urls = receivers subs a \<and> (urls = [] \<longrightarrow> ae)"
  by (auto simp: step_urls_def receivers_def Let_def split: option.splits if_splits)

lemma step_urls_empties:
  "step_urls subs ae a = Inr (urls, empties) \<Longrightarrow>
   empties = (case strip_prefix msg_topic_prefix a of
     None \<Rightarrow> [] | Some t \<Rightarrow> if urls = [] then [t] else [])"
  by (auto simp: step_urls_def Let_def split: option.splits if_splits)

lemma expand_from_actions:
  assumes "expand_from i actions payloads subs ae out = Inr e"
  shows "map mb_action (me_branches e) =
      map mb_action (me_branches out) @ concat (map (receivers subs) actions)"
    and "\<forall>a\<in>set actions. receivers subs a = [] \<longrightarrow> ae"
  using assms
proof (induction actions arbitrary: i out)
  case (Cons a as)
  {
    case 1
    then obtain urls empties where "step_urls subs ae a = Inr (urls, empties)"
      and rest: "expand_from (Suc i) as payloads subs ae
         (out\<lparr>me_branches := me_branches out @
            number_urls i (length urls) (if i < length payloads then payloads ! i else []) 0 urls,
          me_empty_topics := me_empty_topics out @ empties\<rparr>) = Inr e"
      by (auto simp: Let_def split: sum.splits prod.splits)
    with Cons.IH(1) [OF rest] step_urls_receivers show ?case by (simp add: number_urls_actions)
  next
    case 2
    then obtain urls empties where s: "step_urls subs ae a = Inr (urls, empties)"
      and rest: "expand_from (Suc i) as payloads subs ae
         (out\<lparr>me_branches := me_branches out @
            number_urls i (length urls) (if i < length payloads then payloads ! i else []) 0 urls,
          me_empty_topics := me_empty_topics out @ empties\<rparr>) = Inr e"
      by (auto simp: Let_def split: sum.splits prod.splits)
    with Cons.IH(2) [OF rest] step_urls_receivers [OF s] show ?case by simp
  }
qed simp_all

text \<open>
  C25. Expanding a message sends every action, in order, to itself or to all subscribers of its
  topic and to nobody else; the branch numbers it makes are pairwise different, its steps are in
  order, and an action nobody receives is let through only where the caller allowed it.
\<close>

theorem expansion_reaches_everyone_once:
  assumes "expand_msg_steps actions payloads subs allow_empty = Inr e"
  shows "map mb_action (me_branches e) = concat (map (receivers subs) actions) \<and>
    distinct (map mb_branch_id (me_branches e)) \<and>
    sorted (map (the \<circ> mb_step) (me_branches e)) \<and>
    (\<forall>a\<in>set actions. receivers subs a = [] \<longrightarrow> allow_empty)"
proof -
  have *: "expand_from 0 actions payloads subs allow_empty \<lparr>me_branches = [], me_empty_topics = []\<rparr> =
      Inr e" using assms by (auto simp: expand_msg_steps_def split: if_splits)
  from expand_from_actions [OF *]
  have "map mb_action (me_branches e) = concat (map (receivers subs) actions)"
    and "\<forall>a\<in>set actions. receivers subs a = [] \<longrightarrow> allow_empty" by simp_all
  moreover from expand_from_adds [OF *] have "distinct (map mb_branch_id (me_branches e))"
    and "sorted (map (the \<circ> mb_step) (me_branches e))" by (auto simp: adds_from_def)
  ultimately show ?thesis by blast
qed

lemma expansion_reaches_everyone_once_witness:
  "map mb_action [\<lparr>mb_action = ''u'', mb_compensate = [], mb_payload = [], mb_branch_id = ''01-01'', mb_step = Some 0\<rparr>,
     \<lparr>mb_action = ''v'', mb_compensate = [], mb_payload = [], mb_branch_id = ''01-02'', mb_step = Some 0\<rparr>,
     \<lparr>mb_action = ''http://x'', mb_compensate = [], mb_payload = [], mb_branch_id = ''02'', mb_step = Some 1\<rparr>] =
   concat (map (receivers (\<lambda>t. if t = ''paid'' then [''u'', ''v''] else [])) [''topic://paid'', ''http://x''])"
proof -
  have "expand_msg_steps [''topic://paid'', ''http://x''] [] (\<lambda>t. if t = ''paid'' then [''u'', ''v''] else [])
      False = Inr \<lparr>me_branches =
    [\<lparr>mb_action = ''u'', mb_compensate = [], mb_payload = [], mb_branch_id = ''01-01'', mb_step = Some 0\<rparr>,
     \<lparr>mb_action = ''v'', mb_compensate = [], mb_payload = [], mb_branch_id = ''01-02'', mb_step = Some 0\<rparr>,
     \<lparr>mb_action = ''http://x'', mb_compensate = [], mb_payload = [], mb_branch_id = ''02'', mb_step = Some 1\<rparr>],
     me_empty_topics = []\<rparr>" by code_simp
  from expansion_reaches_everyone_once [OF this] show ?thesis by simp
qed

end
