(* ===== verification/Branch_Id.thy ===== *)
theory Branch_Id
  imports Core_Types
begin

text \<open>
  Branch numbers (\<^verbatim>\<open>crates/dtmrs-server/src/driver.rs\<close>): the driver regenerates a number from the
  index of a branch, so a registered number is usable only if it is the one regenerated.
\<close>

definition branch_id :: "nat \<Rightarrow> string" where
  "branch_id index = pad2 (index + 1)"

definition max_branch_index :: nat where
  "max_branch_index = 9999"

definition index_of :: "string \<Rightarrow> nat option" where
  "index_of bid =
     (case parse_usize bid of
        None \<Rightarrow> None
      | Some v \<Rightarrow> if v < 1 then None
                  else if v - 1 \<le> max_branch_index then Some (v - 1) else None)"

definition is_canonical_branch_id :: "string \<Rightarrow> bool" where
  "is_canonical_branch_id s \<longleftrightarrow> map_option branch_id (index_of s) = Some s"

lemma index_of_bound: "index_of s = Some i \<Longrightarrow> i \<le> max_branch_index"
  by (auto simp: index_of_def split: option.splits if_splits)

lemma index_of_branch_id: "index_of (branch_id i) = (if i \<le> max_branch_index then Some i else None)"
  by (auto simp: index_of_def branch_id_def parse_usize_pad2 max_branch_index_def usize_max_def)

lemma branch_id_inj: "branch_id i = branch_id j \<longleftrightarrow> i = j"
  by (auto simp: branch_id_def dest: pad2_inj)

lemma canonical_iff: "is_canonical_branch_id s \<longleftrightarrow> (\<exists>i\<le>max_branch_index. s = branch_id i)"
proof
  assume "is_canonical_branch_id s"
  then show "\<exists>i\<le>max_branch_index. s = branch_id i"
    using index_of_bound [of s] by (auto simp: is_canonical_branch_id_def)
next
  assume "\<exists>i\<le>max_branch_index. s = branch_id i"
  then show "is_canonical_branch_id s"
    by (auto simp: is_canonical_branch_id_def index_of_branch_id)
qed

lemma canonical_index: "is_canonical_branch_id s \<Longrightarrow> index_of s = Some i \<Longrightarrow> s = branch_id i"
  by (simp add: is_canonical_branch_id_def)

lemma branch_id_nonempty: "branch_id i \<noteq> []"
  by (simp add: branch_id_def)

text \<open>
  C37. A branch number is accepted exactly when the driver regenerates it from its index; the
  accepted numbers and the indices up to the bound correspond one to one, and two accepted
  numbers with one index are the same string.
\<close>

theorem branch_numbers_round_trip:
  "(is_canonical_branch_id s \<longleftrightarrow> (\<exists>i\<le>max_branch_index. s = branch_id i)) \<and>
   (i \<le> max_branch_index \<longrightarrow> index_of (branch_id i) = Some i) \<and>
   (is_canonical_branch_id s \<longrightarrow> is_canonical_branch_id t \<longrightarrow> index_of s = index_of t \<longrightarrow> s = t)"
proof (intro conjI)
  show "is_canonical_branch_id s \<longleftrightarrow> (\<exists>i\<le>max_branch_index. s = branch_id i)"
    by (rule canonical_iff)
  show "i \<le> max_branch_index \<longrightarrow> index_of (branch_id i) = Some i"
    by (simp add: index_of_branch_id)
  show "is_canonical_branch_id s \<longrightarrow> is_canonical_branch_id t \<longrightarrow> index_of s = index_of t \<longrightarrow> s = t"
    by (auto simp: canonical_iff index_of_branch_id)
qed

lemma branch_numbers_round_trip_witness:
  "is_canonical_branch_id ''100'' \<and> \<not> is_canonical_branch_id ''1'' \<and> index_of (branch_id 99) = Some 99"
proof -
  have "is_canonical_branch_id ''100''" "is_canonical_branch_id ''01''"
    "index_of ''1'' = index_of ''01''" by code_simp+
  with branch_numbers_round_trip [of "''1''" 99 "''01''"] have "\<not> is_canonical_branch_id ''1''" by auto
  moreover have "index_of (branch_id 99) = Some 99"
    using branch_numbers_round_trip [of "''1''" 99 "''01''"] by (simp add: max_branch_index_def)
  ultimately show ?thesis using \<open>is_canonical_branch_id ''100''\<close> by simp
qed

end
