(* ===== verification/Dialect.thy ===== *)
theory Dialect
  imports Prelude
begin

text \<open>
  The SQL dialects (\<^verbatim>\<open>crates/dtmrs-core/src/dialect.rs\<close>): one template rendered for sqlite,
  postgres and mysql, the column types each backend needs, and the length check made before a
  write because MySQL's \<open>INSERT IGNORE\<close> truncates silently.
\<close>

datatype backend = Sqlite | Postgres | MySql

fun backend_name :: "backend \<Rightarrow> string" where
  "backend_name Sqlite = ''sqlite''"
| "backend_name Postgres = ''postgres''"
| "backend_name MySql = ''mysql''"

definition from_url :: "string \<Rightarrow> backend" where
  "from_url url =
     (let u = to_ascii_lowercase (trim url)
      in if prefix ''mysql'' u \<or> prefix ''mariadb'' u then MySql
         else if prefix ''postgres'' u then Postgres
         else Sqlite)"

section \<open>Column types\<close>

definition id_max :: nat where "id_max = 128"
definition id_short_max :: nat where "id_short_max = 45"

definition id_text :: "backend \<Rightarrow> string" where
  "id_text be = (if be = MySql then ''VARCHAR(128)'' else ''TEXT'')"

definition id_short :: "backend \<Rightarrow> string" where
  "id_short be = (if be = MySql then ''VARCHAR(45)'' else ''TEXT'')"

definition text_type :: "backend \<Rightarrow> nat \<Rightarrow> string" where
  "text_type be n = (if be = MySql then ''VARCHAR('' @ dec n @ '')'' else ''TEXT'')"

section \<open>Rendering a template\<close>

text \<open>\<open>str::replace\<close>: the occurrences of a pattern, left to right, without overlap.\<close>

fun replace_all :: "string \<Rightarrow> string \<Rightarrow> string \<Rightarrow> string" where
  "replace_all pat rep [] = []"
| "replace_all pat rep (c # cs) =
     (if pat \<noteq> [] \<and> prefix pat (c # cs)
      then rep @ replace_all pat rep (drop (length pat - 1) cs)
      else c # replace_all pat rep cs)"

definition ins_words :: "backend \<Rightarrow> string" where
  "ins_words be = (if be = MySql then ''INSERT IGNORE INTO'' else ''INSERT INTO'')"

definition no_conflict :: "backend \<Rightarrow> string" where
  "no_conflict be = (if be = MySql then [] else ''ON CONFLICT DO NOTHING'')"

fun number_marks :: "nat \<Rightarrow> string \<Rightarrow> string" where
  "number_marks n [] = []"
| "number_marks n (c # cs) =
     (if c = CHR ''?'' then CHR ''$'' # dec (n + 1) @ number_marks (n + 1) cs
      else c # number_marks n cs)"

definition placeholders :: "backend \<Rightarrow> string \<Rightarrow> string" where
  "placeholders be sql = (if be = MySql then sql else number_marks 0 sql)"

definition sql_q :: "backend \<Rightarrow> string \<Rightarrow> string" where
  "sql_q be template =
     placeholders be
       (replace_all ''{NOCONFLICT}'' (no_conflict be)
         (replace_all ''{INS}'' (ins_words be) template))"

definition create_index :: "backend \<Rightarrow> string \<Rightarrow> string \<Rightarrow> string \<Rightarrow> string option" where
  "create_index be name table cols =
     (if be = MySql then None
      else Some (''CREATE INDEX IF NOT EXISTS '' @ name @ '' ON '' @ table @ ''('' @ cols @ '')''))"

definition inline_index :: "backend \<Rightarrow> string \<Rightarrow> string \<Rightarrow> string" where
  "inline_index be name cols =
     (if be = MySql then '', KEY '' @ name @ '' ('' @ cols @ '')'' else [])"

definition skip_locked :: "backend \<Rightarrow> string" where
  "skip_locked be = (if be = Sqlite then [] else '' FOR UPDATE SKIP LOCKED'')"

section \<open>Length check\<close>

record too_long =
  tl_col :: string
  tl_len :: nat
  tl_max :: nat

definition check_len :: "string \<Rightarrow> string \<Rightarrow> nat \<Rightarrow> too_long + unit" where
  "check_len col val mx =
     (let len = chars_count val
      in if mx < len then Inl \<lparr>tl_col = col, tl_len = len, tl_max = mx\<rparr> else Inr ())"

lemma check_len_ok_iff: "check_len col val mx = Inr () \<longleftrightarrow> chars_count val \<le> mx"
  by (auto simp: check_len_def Let_def)

lemma check_len_cases:
  "check_len col val mx =
     (if chars_count val \<le> mx then Inr ()
      else Inl \<lparr>tl_col = col, tl_len = chars_count val, tl_max = mx\<rparr>)"
  by (auto simp: check_len_def Let_def)

section \<open>Numbered placeholders\<close>

lemma split_on_nonempty: "split_on d s \<noteq> []"
  by (induction s) (auto split: list.splits)

text \<open>
  The rendered statement is the template with its marks replaced by \<open>$1\<close>, \<open>$2\<close>, ... in order:
  the pieces between the marks, joined by the numbers.
\<close>

fun join_numbered :: "nat \<Rightarrow> string list \<Rightarrow> string" where
  "join_numbered n [] = []"
| "join_numbered n [p] = p"
| "join_numbered n (p # q # ps) = p @ CHR ''$'' # dec (n + 1) @ join_numbered (n + 1) (q # ps)"

lemma join_numbered_Cons_hd:
  "ps \<noteq> [] \<Longrightarrow> join_numbered n ((c # hd ps) # tl ps) = c # join_numbered n ps"
  by (cases ps; cases "tl ps") auto

lemma number_marks_join: "number_marks n s = join_numbered n (split_on (CHR ''?'') s)"
proof (induction s arbitrary: n)
  case Nil
  then show ?case by simp
next
  case (Cons c cs)
  obtain p ps where p: "split_on (CHR ''?'') cs = p # ps"
    using split_on_nonempty [of "CHR ''?''" cs] by (cases "split_on (CHR ''?'') cs") auto
  show ?case
  proof (cases "c = CHR ''?''")
    case True
    with Cons [of "n + 1"] p show ?thesis by (cases ps) auto
  next
    case False
    with Cons [of n] p join_numbered_Cons_hd [of "p # ps" n c] show ?thesis by simp
  qed
qed

lemma dec_no_mark: "CHR ''?'' \<notin> set (dec n)"
  using dec_digits [of "CHR ''?''" n] by (auto simp: is_digit_def)

lemma number_marks_no_mark: "CHR ''?'' \<notin> set (number_marks n s)"
  by (induction s arbitrary: n) (auto simp: dec_no_mark)

section \<open>Properties\<close>

text \<open>
  A rendered template has the placeholders its backend understands: for MySQL it is the
  template with the insert words substituted; for the others every \<open>?\<close> mark is replaced by
  \<open>$1\<close>, \<open>$2\<close>, ... counted from one without gaps, the text between the marks is kept, and no mark
  is left.
\<close>

theorem rendered_placeholders:
  "sql_q be template =
     (let s = replace_all ''{NOCONFLICT}'' (no_conflict be) (replace_all ''{INS}'' (ins_words be) template)
      in if be = MySql then s else join_numbered 0 (split_on (CHR ''?'') s)) \<and>
   (be \<noteq> MySql \<longrightarrow> CHR ''?'' \<notin> set (sql_q be template))"
proof (intro conjI)
  show "sql_q be template =
     (let s = replace_all ''{NOCONFLICT}'' (no_conflict be) (replace_all ''{INS}'' (ins_words be) template)
      in if be = MySql then s else join_numbered 0 (split_on (CHR ''?'') s))"
    by (simp add: sql_q_def placeholders_def number_marks_join Let_def)
  show "be \<noteq> MySql \<longrightarrow> CHR ''?'' \<notin> set (sql_q be template)"
    by (auto simp: sql_q_def placeholders_def number_marks_no_mark split: if_splits)
qed

lemma rendered_placeholders_witness:
  "sql_q MySql ''{INS} t (k) VALUES (?)'' = ''INSERT IGNORE INTO t (k) VALUES (?)'' \<and>
   sql_q Postgres ''a=? AND b=?'' = ''a=$1 AND b=$2'' \<and>
   CHR ''?'' \<notin> set (sql_q Postgres ''a=? AND b=?'')"
proof (intro conjI)
  show "sql_q MySql ''{INS} t (k) VALUES (?)'' = ''INSERT IGNORE INTO t (k) VALUES (?)''"
    "sql_q Postgres ''a=? AND b=?'' = ''a=$1 AND b=$2''" by code_simp+
  show "CHR ''?'' \<notin> set (sql_q Postgres ''a=? AND b=?'')"
    using rendered_placeholders [of Postgres "''a=? AND b=?''"] by blast
qed

end
