(* ===== verification/Sql_Store.thy ===== *)
theory Sql_Store
  imports Core_Types Dialect
begin

text \<open>
  The SQL store (\<^verbatim>\<open>crates/dtmrs-store/src/lib.rs\<close>, \<open>SqlStore\<close>): its four tables as lists of rows
  and every statement of every operation as a function on them. A column that holds an
  enumeration holds the value itself: \<open>as_str\<close> and \<open>parse\<close> form a \<open>wire_codec\<close>, so comparing
  the stored strings is comparing the values. The clock is the store's, read once per operation
  as \<open>now()\<close> is; failures of the connection are not modelled.
\<close>

section \<open>Rows and tables\<close>

definition big :: nat where "big = 8192"
definition mid :: nat where "mid = 1024"
definition topic_len :: nat where "topic_len = 128"
definition sub_url_len :: nat where "sub_url_len = 512"

record topic_sub =
  t_topic :: string
  t_url :: string
  t_remark :: string
  t_create_time :: int

text \<open>\<open>GlobalRow\<close>, with the column \<open>update_time\<close> the struct does not carry.\<close>

record global_row =
  g_gid :: string
  g_trans_type :: trans_type
  g_status :: global_status
  g_payload :: string
  g_next_cron_time :: int
  g_next_cron_interval :: int
  g_owner :: string
  g_lease_until :: int
  g_rollback_reason :: string
  g_query_prepared :: string
  g_create_time :: int
  g_update_time :: int
  g_finish_time :: "int option"
  g_timeout_to_fail :: int
  g_retry_count :: int

record branch_row =
  b_gid :: string
  b_branch_id :: string
  b_op :: branch_op
  b_url :: string
  b_payload :: string
  b_status :: branch_status
  b_create_time :: int
  b_update_time :: int
  b_finish_time :: "int option"

record token_row =
  k_hash :: string
  k_name :: string
  k_create_time :: int
  k_last_used :: int
  k_use_count :: int
  k_last_ip :: string
  k_revoked :: int
  k_secret :: string

record store =
  st_backend :: backend
  st_clock :: int
  st_global :: "global_row list"
  st_branch :: "branch_row list"
  st_topic :: "topic_sub list"
  st_token :: "token_row list"

abbreviation now :: "store \<Rightarrow> int" where
  "now s \<equiv> st_clock s"

definition b_key :: "branch_row \<Rightarrow> string \<times> string \<times> branch_op" where
  "b_key b = (b_gid b, b_branch_id b, b_op b)"

definition t_key :: "topic_sub \<Rightarrow> string \<times> string" where
  "t_key t = (t_topic t, t_url t)"

datatype store_error = Encode too_long | Duplicate_key

type_synonym 'a res = "store_error + 'a"

definition len_ok :: "string \<Rightarrow> string \<Rightarrow> nat \<Rightarrow> unit res" where
  "len_ok col val mx =
     (case check_len col val mx of Inl e \<Rightarrow> Inl (Encode e) | Inr u \<Rightarrow> Inr u)"

text \<open>A series of checks, each followed by \<open>?\<close>: the first error wins.\<close>

fun all_ok :: "unit res list \<Rightarrow> unit res" where
  "all_ok [] = Inr ()"
| "all_ok (Inl e # cs) = Inl e"
| "all_ok (Inr u # cs) = all_ok cs"

lemma len_ok_iff: "len_ok col val mx = Inr () \<longleftrightarrow> chars_count val \<le> mx"
  by (auto simp: len_ok_def check_len_cases)

lemma all_ok_iff: "all_ok cs = Inr () \<longleftrightarrow> (\<forall>c\<in>set cs. c = Inr ())"
  by (induction cs rule: all_ok.induct) auto

lemma all_ok_Inr: "all_ok cs = Inr u \<longleftrightarrow> (\<forall>c\<in>set cs. c = Inr ())"
  using all_ok_iff by simp

section \<open>Topic subscriptions\<close>

definition subscribe :: "string \<Rightarrow> string \<Rightarrow> string \<Rightarrow> store \<Rightarrow> bool res \<times> store" where
  "subscribe topic url remark s =
     (case all_ok [len_ok ''topic'' topic topic_len, len_ok ''url'' url sub_url_len,
                   len_ok ''remark'' remark mid] of
        Inl e \<Rightarrow> (Inl e, s)
      | Inr _ \<Rightarrow>
          (let (n, rows) = insert_ignore t_key
                 \<lparr>t_topic = topic, t_url = url, t_remark = remark, t_create_time = now s\<rparr>
                 (st_topic s)
           in (Inr (0 < n), s\<lparr>st_topic := rows\<rparr>)))"

definition unsubscribe :: "string \<Rightarrow> string \<Rightarrow> store \<Rightarrow> bool \<times> store" where
  "unsubscribe topic url s =
     (let (n, rows) = delete_where (\<lambda>t. t_topic t = topic \<and> t_url t = url) (st_topic s)
      in (0 < n, s\<lparr>st_topic := rows\<rparr>))"

definition delete_topic :: "string \<Rightarrow> store \<Rightarrow> nat \<times> store" where
  "delete_topic topic s =
     (let (n, rows) = delete_where (\<lambda>t. t_topic t = topic) (st_topic s)
      in (n, s\<lparr>st_topic := rows\<rparr>))"

definition list_subscriptions :: "string option \<Rightarrow> store \<Rightarrow> topic_sub list" where
  "list_subscriptions topic s =
     (case topic of
        Some t \<Rightarrow> sort_key (\<lambda>r. (t_create_time r, t_url r))
                    (filter (\<lambda>r. t_topic r = t) (st_topic s))
      | None \<Rightarrow> sort_key (\<lambda>r. (t_topic r, t_create_time r, t_url r)) (st_topic s))"

section \<open>Global transactions\<close>

definition branch_checks :: "branch_row \<Rightarrow> unit res list" where
  "branch_checks b =
     [len_ok ''branch_id'' (b_branch_id b) id_max, len_ok ''url'' (b_url b) mid,
      len_ok ''payload'' (b_payload b) mid]"

definition insert_branch :: "int \<Rightarrow> branch_row \<Rightarrow> branch_row list \<Rightarrow> branch_row list" where
  "insert_branch t b rows =
     snd (insert_ignore b_key
       (b\<lparr>b_create_time := t, b_update_time := t, b_finish_time := None\<rparr>) rows)"

definition create_global ::
  "global_row \<Rightarrow> branch_row list \<Rightarrow> store \<Rightarrow> bool res \<times> store" where
  "create_global g branches s =
     (case all_ok ([len_ok ''gid'' (g_gid g) id_max, len_ok ''payload'' (g_payload g) big,
                    len_ok ''query_prepared'' (g_query_prepared g) mid]
                   @ concat (map branch_checks branches)) of
        Inl e \<Rightarrow> (Inl e, s)
      | Inr _ \<Rightarrow>
          (let t = now s;
               (n, rows) = insert_ignore g_gid
                 (g\<lparr>g_rollback_reason := [], g_create_time := t, g_update_time := t,
                    g_finish_time := None, g_retry_count := 0\<rparr>) (st_global s)
           in if n = 0 then (Inr False, s)
              else (Inr True, s\<lparr>st_global := rows,
                                st_branch := fold (insert_branch t) branches (st_branch s)\<rparr>)))"

definition get_global :: "string \<Rightarrow> store \<Rightarrow> global_row option" where
  "get_global gid s = row_at g_gid gid (st_global s)"

definition list_branches :: "string \<Rightarrow> store \<Rightarrow> branch_row list" where
  "list_branches gid s =
     sort_key (\<lambda>b. (b_branch_id b, b_op b)) (filter (\<lambda>b. b_gid b = gid) (st_branch s))"

definition fin_time :: "global_status \<Rightarrow> int \<Rightarrow> int option" where
  "fin_time st t = (if is_final st then Some t else None)"

definition put_status :: "global_status \<Rightarrow> int \<Rightarrow> string \<Rightarrow> global_row \<Rightarrow> global_row" where
  "put_status st t reason g =
     g\<lparr>g_status := st, g_update_time := t, g_finish_time := fin_time st t,
       g_rollback_reason := (if reason \<noteq> [] then reason else g_rollback_reason g)\<rparr>"

definition set_global_status ::
  "string \<Rightarrow> global_status \<Rightarrow> trans_type \<Rightarrow> string \<Rightarrow> store \<Rightarrow> store" where
  "set_global_status gid status tt reason s =
     (let t = now s; reason = take_chars mid reason;
          (n, rows) = update_where (\<lambda>g. g_gid g = gid) (put_status status t reason) (st_global s)
      in s\<lparr>st_global := rows\<rparr>)"

definition transition ::
  "string \<Rightarrow> global_status \<Rightarrow> global_status \<Rightarrow> trans_type \<Rightarrow> string \<Rightarrow> store \<Rightarrow> bool \<times> store" where
  "transition gid from_st to_st tt reason s =
     (let t = now s; reason = take_chars mid reason;
          (n, rows) = update_where (\<lambda>g. g_gid g = gid \<and> g_status g = from_st)
                        (put_status to_st t reason) (st_global s)
      in (0 < n, s\<lparr>st_global := rows\<rparr>))"

section \<open>Branches\<close>

definition put_branch_status :: "branch_status \<Rightarrow> int \<Rightarrow> branch_row \<Rightarrow> branch_row" where
  "put_branch_status st t b =
     b\<lparr>b_status := st, b_update_time := t,
       b_finish_time := (if st \<noteq> BPrepared then Some t else b_finish_time b)\<rparr>"

definition set_branch_result ::
  "string \<Rightarrow> string \<Rightarrow> branch_op \<Rightarrow> branch_status \<Rightarrow> string \<Rightarrow> store \<Rightarrow> unit res \<times> store" where
  "set_branch_result gid bid op status payload s =
     (case len_ok ''payload'' payload mid of
        Inl e \<Rightarrow> (Inl e, s)
      | Inr _ \<Rightarrow>
          (Inr (), s\<lparr>st_branch :=
             snd (update_where (\<lambda>b. b_key b = (gid, bid, op))
                   (\<lambda>b. (put_branch_status status (now s) b)\<lparr>b_payload := payload\<rparr>)
                   (st_branch s))\<rparr>))"

definition set_branch_status ::
  "string \<Rightarrow> string \<Rightarrow> branch_op \<Rightarrow> branch_status \<Rightarrow> store \<Rightarrow> store" where
  "set_branch_status gid bid op status s =
     s\<lparr>st_branch :=
        snd (update_where (\<lambda>b. b_key b = (gid, bid, op)) (put_branch_status status (now s))
              (st_branch s))\<rparr>"

datatype register_outcome = Registered | Conflict branch_op string

text \<open>
  One transaction: the rows inserted before a conflict is found are not committed, so the
  conflict branch returns the store as it was.
\<close>

fun register_ops ::
  "string \<Rightarrow> string \<Rightarrow> string \<Rightarrow> int \<Rightarrow> (branch_op \<times> string) list \<Rightarrow> branch_row list \<Rightarrow>
   (branch_op \<times> string) + branch_row list" where
  "register_ops gid bid payload t [] rows = Inr rows"
| "register_ops gid bid payload t ((op, url) # ops) rows =
     (let rows' = insert_branch t
            \<lparr>b_gid = gid, b_branch_id = bid, b_op = op, b_url = url, b_payload = payload,
             b_status = BPrepared, b_create_time = t, b_update_time = t, b_finish_time = None\<rparr> rows
      in case row_at b_key (gid, bid, op) rows' of
           Some stored \<Rightarrow>
             if b_url stored \<noteq> url then Inl (op, b_url stored)
             else register_ops gid bid payload t ops rows'
         | None \<Rightarrow> register_ops gid bid payload t ops rows')"

definition register_branch_with ::
  "string \<Rightarrow> string \<Rightarrow> (branch_op \<times> string) list \<Rightarrow> string \<Rightarrow> store \<Rightarrow>
   register_outcome res \<times> store" where
  "register_branch_with gid bid ops payload s =
     (case all_ok ([len_ok ''gid'' gid id_max, len_ok ''branch_id'' bid id_max]
                   @ map (\<lambda>(_, url). len_ok ''url'' url mid) ops
                   @ [len_ok ''payload'' payload mid]) of
        Inl e \<Rightarrow> (Inl e, s)
      | Inr _ \<Rightarrow>
          (case register_ops gid bid payload (now s) ops (st_branch s) of
             Inl (op, existing) \<Rightarrow> (Inr (Conflict op existing), s)
           | Inr rows \<Rightarrow> (Inr Registered, s\<lparr>st_branch := rows\<rparr>)))"

definition register_branch ::
  "string \<Rightarrow> string \<Rightarrow> (branch_op \<times> string) list \<Rightarrow> store \<Rightarrow> register_outcome res \<times> store" where
  "register_branch gid bid ops s = register_branch_with gid bid ops [] s"

section \<open>Scheduling and leases\<close>

definition schedulable :: "global_row \<Rightarrow> bool" where
  "schedulable g \<longleftrightarrow>
     g_status g = GSubmitted \<or> g_status g = GAborting \<or>
     g_status g = GPrepared \<and> (g_trans_type g = Msg \<or> g_trans_type g = Tcc \<or> g_trans_type g = Xa)"

definition due :: "int \<Rightarrow> global_row \<Rightarrow> bool" where
  "due t g \<longleftrightarrow> g_next_cron_time g \<le> t \<and> g_lease_until g \<le> t"

definition take_lease :: "string \<Rightarrow> int \<Rightarrow> int \<Rightarrow> global_row \<Rightarrow> global_row" where
  "take_lease owner t lease g =
     g\<lparr>g_owner := owner, g_next_cron_time := wrap_i64 (t + lease),
       g_lease_until := wrap_i64 (t + lease), g_update_time := t\<rparr>"

definition lock_one_due :: "string \<Rightarrow> int \<Rightarrow> store \<Rightarrow> global_row option \<times> store" where
  "lock_one_due owner lease s =
     (let t = now s
      in case find (\<lambda>g. schedulable g \<and> due t g) (st_global s) of
           None \<Rightarrow> (None, s)
         | Some picked \<Rightarrow>
             (let gid = g_gid picked;
                  (n, rows) = update_where (\<lambda>g. g_gid g = gid \<and> due t g)
                                (take_lease owner t lease) (st_global s)
              in if n = 0 then (None, s)
                 else (row_at g_gid gid rows, s\<lparr>st_global := rows\<rparr>)))"

definition schedule_retry :: "string \<Rightarrow> int \<Rightarrow> store \<Rightarrow> store" where
  "schedule_retry gid interval s =
     (let t = now s
      in s\<lparr>st_global := snd (update_where (\<lambda>g. g_gid g = gid)
            (\<lambda>g. g\<lparr>g_next_cron_interval := interval,
                   g_next_cron_time := wrap_i64 (t + interval), g_update_time := t\<rparr>)
            (st_global s))\<rparr>)"

text \<open>
  The SET clause of \<open>release_lease\<close> as the list of its assignments, each computing the value it
  stores from the row it reads. MySQL evaluates them left to right, so an assignment reads the
  row its predecessors have written; sqlite and postgres read the row as it was.
\<close>

type_synonym assignment = "global_row \<Rightarrow> global_row \<Rightarrow> global_row"

fun apply_sets :: "backend \<Rightarrow> assignment list \<Rightarrow> global_row \<Rightarrow> global_row \<Rightarrow> global_row" where
  "apply_sets be [] old g = g"
| "apply_sets be (a # as) old g = apply_sets be as old (a (if be = MySql then g else old) g)"

definition release_sets :: "int \<Rightarrow> int \<Rightarrow> assignment list" where
  "release_sets interval t =
     [\<lambda>r g. g\<lparr>g_retry_count := g_retry_count r + (if 0 < interval then 1 else 0)\<rparr>,
      \<lambda>r g. g\<lparr>g_next_cron_interval :=
               (if g_next_cron_time r < g_lease_until r then 0 else interval)\<rparr>,
      \<lambda>r g. g\<lparr>g_next_cron_time :=
               (if g_next_cron_time r < g_lease_until r then g_next_cron_time r
                else wrap_i64 (t + interval))\<rparr>,
      \<lambda>r g. g\<lparr>g_update_time := t\<rparr>,
      \<lambda>r g. g\<lparr>g_lease_until := 0\<rparr>]"

definition release_lease :: "string \<Rightarrow> int \<Rightarrow> int \<Rightarrow> store \<Rightarrow> store" where
  "release_lease gid lease interval s =
     (let t = now s
      in s\<lparr>st_global := snd (update_where (\<lambda>g. g_gid g = gid \<and> g_lease_until g = lease)
            (\<lambda>g. apply_sets (st_backend s) (release_sets interval t) g g) (st_global s))\<rparr>)"

definition schedule_now :: "string \<Rightarrow> store \<Rightarrow> store" where
  "schedule_now gid s =
     s\<lparr>st_global := snd (update_where (\<lambda>g. g_gid g = gid)
         (\<lambda>g. g\<lparr>g_next_cron_time := now s, g_next_cron_interval := 0\<rparr>) (st_global s))\<rparr>"

datatype submit_outcome = Missing | Advanced global_row | Already

text \<open>
  \<open>submit_prepared\<close> is a SELECT and an UPDATE outside any transaction. \<open>between\<close> is what other
  sessions commit between the two statements; alone, it is the identity.
\<close>

definition claim_until :: "string \<Rightarrow> int \<Rightarrow> int" where
  "claim_until owner next_cron_time = (if owner = [] then 0 else next_cron_time)"

definition submit_update :: "string \<Rightarrow> string \<Rightarrow> int \<Rightarrow> store \<Rightarrow> store" where
  "submit_update gid owner next_cron_time s =
     s\<lparr>st_global := snd (update_where (\<lambda>r. g_gid r = gid \<and> g_status r = GPrepared)
         (\<lambda>r. r\<lparr>g_status := GSubmitted, g_update_time := now s,
                g_next_cron_time := next_cron_time, g_next_cron_interval := 0,
                g_owner := owner, g_lease_until := claim_until owner next_cron_time\<rparr>)
         (st_global s))\<rparr>"

definition submitted_row :: "string \<Rightarrow> int \<Rightarrow> global_row \<Rightarrow> global_row" where
  "submitted_row owner next_cron_time g =
     g\<lparr>g_status := GSubmitted, g_next_cron_time := next_cron_time, g_owner := owner,
       g_lease_until := claim_until owner next_cron_time\<rparr>"

definition submit_prepared_between ::
  "(store \<Rightarrow> store) \<Rightarrow> string \<Rightarrow> string \<Rightarrow> int \<Rightarrow> store \<Rightarrow> submit_outcome \<times> store" where
  "submit_prepared_between between gid owner next_cron_time s =
     (case get_global gid s of
        None \<Rightarrow> (Missing, s)
      | Some g \<Rightarrow>
          if g_status g \<noteq> GPrepared then (Already, s)
          else (Advanced (submitted_row owner next_cron_time g),
                submit_update gid owner next_cron_time (between s)))"

definition submit_prepared ::
  "string \<Rightarrow> string \<Rightarrow> int \<Rightarrow> store \<Rightarrow> submit_outcome \<times> store" where
  "submit_prepared gid owner next_cron_time s =
     submit_prepared_between (\<lambda>s. s) gid owner next_cron_time s"

section \<open>Listings\<close>

text \<open>\<open>LIMIT\<close> with a bound negative value is no limit on sqlite.\<close>

definition limit_rows :: "int \<Rightarrow> 'a list \<Rightarrow> 'a list" where
  "limit_rows limit rows = (if limit < 0 then rows else take (nat limit) rows)"

definition list_recent :: "int \<Rightarrow> store \<Rightarrow> global_row list" where
  "list_recent limit s = limit_rows limit (sort_key (\<lambda>g. - g_create_time g) (st_global s))"

definition list_stuck :: "int \<Rightarrow> int \<Rightarrow> store \<Rightarrow> global_row list" where
  "list_stuck min_retries limit s =
     limit_rows limit
       (sort_key g_create_time
         (filter (\<lambda>g. (g_status g = GPrepared \<or> g_status g = GSubmitted \<or> g_status g = GAborting)
                      \<and> min_retries \<le> g_retry_count g) (st_global s)))"

section \<open>Access tokens\<close>

definition create_token :: "string \<Rightarrow> string \<Rightarrow> string \<Rightarrow> store \<Rightarrow> unit res \<times> store" where
  "create_token hash name secret s =
     (case all_ok [len_ok ''name'' name mid, len_ok ''secret'' secret mid] of
        Inl e \<Rightarrow> (Inl e, s)
      | Inr _ \<Rightarrow>
          if hash \<in> k_hash ` set (st_token s) then (Inl Duplicate_key, s)
          else (Inr (), s\<lparr>st_token := st_token s @
                 [\<lparr>k_hash = hash, k_name = name, k_create_time = now s, k_last_used = 0,
                   k_use_count = 0, k_last_ip = [], k_revoked = 0, k_secret = secret\<rparr>]\<rparr>))"

definition list_tokens :: "store \<Rightarrow> token_row list" where
  "list_tokens s = sort_key (\<lambda>k. - k_create_time k) (st_token s)"

definition revoke_token :: "string \<Rightarrow> store \<Rightarrow> bool \<times> store" where
  "revoke_token hash s =
     (let (n, rows) = update_where (\<lambda>k. k_hash k = hash \<and> k_revoked k = 0)
                        (\<lambda>k. k\<lparr>k_revoked := now s\<rparr>) (st_token s)
      in (0 < n, s\<lparr>st_token := rows\<rparr>))"

definition active_token_hashes :: "store \<Rightarrow> string list" where
  "active_token_hashes s = map k_hash (filter (\<lambda>k. k_revoked k = 0) (st_token s))"

definition touch_token :: "string \<Rightarrow> string \<Rightarrow> store \<Rightarrow> store" where
  "touch_token hash ip s =
     s\<lparr>st_token := snd (update_where (\<lambda>k. k_hash k = hash)
         (\<lambda>k. k\<lparr>k_last_used := now s, k_use_count := k_use_count k + 1, k_last_ip := ip\<rparr>)
         (st_token s))\<rparr>"

end
