(* ===== verification/Sql_Laws.thy ===== *)
theory Sql_Laws
  imports Sql_Store
begin

text \<open>
  What the operations of the SQL store promise: how a lookup sees each of them, the table
  invariant (unique primary keys) and the width invariant that keeps MySQL from truncating.
\<close>

section \<open>How lookups see the operations\<close>

definition branch_at :: "string \<Rightarrow> string \<Rightarrow> branch_op \<Rightarrow> store \<Rightarrow> branch_row option" where
  "branch_at gid bid op s = row_at b_key (gid, bid, op) (st_branch s)"

lemma put_status_simps [simp]:
  "g_gid (put_status st t r g) = g_gid g"
  "g_trans_type (put_status st t r g) = g_trans_type g"
  "g_status (put_status st t r g) = st"
  "g_payload (put_status st t r g) = g_payload g"
  "g_next_cron_time (put_status st t r g) = g_next_cron_time g"
  "g_owner (put_status st t r g) = g_owner g"
  "g_lease_until (put_status st t r g) = g_lease_until g"
  "g_query_prepared (put_status st t r g) = g_query_prepared g"
  "g_create_time (put_status st t r g) = g_create_time g"
  "g_finish_time (put_status st t r g) = fin_time st t"
  "g_retry_count (put_status st t r g) = g_retry_count g"
  by (simp_all add: put_status_def)

lemma put_branch_status_simps [simp]:
  "b_key (put_branch_status st t b) = b_key b"
  "b_gid (put_branch_status st t b) = b_gid b"
  "b_branch_id (put_branch_status st t b) = b_branch_id b"
  "b_op (put_branch_status st t b) = b_op b"
  "b_url (put_branch_status st t b) = b_url b"
  "b_payload (put_branch_status st t b) = b_payload b"
  "b_status (put_branch_status st t b) = st"
  by (simp_all add: put_branch_status_def b_key_def)

lemma take_lease_simps [simp]:
  "g_gid (take_lease owner t lease g) = g_gid g"
  "g_status (take_lease owner t lease g) = g_status g"
  "g_trans_type (take_lease owner t lease g) = g_trans_type g"
  "g_lease_until (take_lease owner t lease g) = wrap_i64 (t + lease)"
  "g_next_cron_time (take_lease owner t lease g) = wrap_i64 (t + lease)"
  "g_owner (take_lease owner t lease g) = owner"
  by (simp_all add: take_lease_def)

text \<open>
  The order of the assignments makes MySQL compute what the others compute: the row after
  \<open>release_lease\<close> does not depend on the backend.
\<close>

definition released :: "int \<Rightarrow> int \<Rightarrow> global_row \<Rightarrow> global_row" where
  "released interval t g =
     g\<lparr>g_retry_count := g_retry_count g + (if 0 < interval then 1 else 0),
       g_next_cron_interval := (if g_next_cron_time g < g_lease_until g then 0 else interval),
       g_next_cron_time := (if g_next_cron_time g < g_lease_until g then g_next_cron_time g
                            else wrap_i64 (t + interval)),
       g_update_time := t, g_lease_until := 0\<rparr>"

lemma release_sets_released: "apply_sets be (release_sets interval t) g g = released interval t g"
  by (cases be) (simp_all add: release_sets_def released_def)

lemma released_simps [simp]:
  "g_gid (released i t g) = g_gid g"
  "g_status (released i t g) = g_status g"
  "g_trans_type (released i t g) = g_trans_type g"
  "g_lease_until (released i t g) = 0"
  by (simp_all add: released_def)

lemma get_set_global_status [store_simps]:
  "get_global x (set_global_status gid st tt r s) =
     (if x = gid then map_option (put_status st (now s) (take_chars mid r)) (get_global x s)
      else get_global x s)"
  by (simp add: get_global_def set_global_status_def Let_def split_beta row_at_update_key)

lemma get_transition [store_simps]:
  "get_global x (snd (transition gid f t tt r s)) =
     (if x = gid
      then map_option (\<lambda>g. if g_status g = f then put_status t (now s) (take_chars mid r) g else g)
             (get_global x s)
      else get_global x s)"
  by (simp add: get_global_def transition_def Let_def split_beta row_at_update_guarded)

lemma fst_transition:
  assumes "keyed g_gid (st_global s)"
  shows "fst (transition gid f t tt r s) \<longleftrightarrow> (\<exists>g. get_global gid s = Some g \<and> g_status g = f)"
  by (simp add: get_global_def transition_def Let_def split_beta fst_update_where_key [OF assms])

lemma get_schedule_retry [store_simps]:
  "get_global x (schedule_retry gid i s) =
     (if x = gid
      then map_option (\<lambda>g. g\<lparr>g_next_cron_interval := i,
             g_next_cron_time := wrap_i64 (now s + i), g_update_time := now s\<rparr>) (get_global x s)
      else get_global x s)"
  by (simp add: get_global_def schedule_retry_def Let_def row_at_update_key)

lemma get_schedule_now [store_simps]:
  "get_global x (schedule_now gid s) =
     (if x = gid
      then map_option (\<lambda>g. g\<lparr>g_next_cron_time := now s, g_next_cron_interval := 0\<rparr>)
             (get_global x s)
      else get_global x s)"
  by (simp add: get_global_def schedule_now_def row_at_update_key)

lemma get_release_lease [store_simps]:
  "get_global x (release_lease gid lease i s) =
     (if x = gid
      then map_option (\<lambda>g. if g_lease_until g = lease then released i (now s) g else g)
             (get_global x s)
      else get_global x s)"
  by (simp add: get_global_def release_lease_def Let_def row_at_update_guarded
      release_sets_released)

lemma get_submit_update [store_simps]:
  "get_global x (submit_update gid owner t s) =
     (if x = gid
      then map_option (\<lambda>r. if g_status r = GPrepared
             then r\<lparr>g_status := GSubmitted, g_update_time := now s, g_next_cron_time := t,
                    g_next_cron_interval := 0, g_owner := owner,
                    g_lease_until := claim_until owner t\<rparr> else r) (get_global x s)
      else get_global x s)"
  by (simp add: get_global_def submit_update_def row_at_update_guarded)

lemma get_branch_ops [store_simps]:
  "get_global x (set_branch_status gid bid op st s) = get_global x s"
  "get_global x (snd (set_branch_result gid bid op st p s)) = get_global x s"
  "get_global x (snd (register_branch_with gid bid ops p s)) = get_global x s"
  by (auto simp: get_global_def set_branch_status_def set_branch_result_def
      register_branch_with_def split: sum.splits)

lemma now_ops [store_simps]:
  "now (set_global_status gid st tt r s) = now s"
  "now (snd (transition gid f t tt r s)) = now s"
  "now (schedule_now gid s) = now s"
  "now (schedule_retry gid i s) = now s"
  "now (release_lease gid l i s) = now s"
  "now (snd (lock_one_due owner lease s)) = now s"
  "now (set_branch_status gid bid op bst s) = now s"
  "now (snd (set_branch_result gid bid op bst p s)) = now s"
  "now (snd (register_branch_with gid bid ops p s)) = now s"
  "now (snd (create_global g bs s)) = now s"
  "now (submit_update gid owner nct s) = now s"
  by (auto simp: set_global_status_def transition_def schedule_now_def schedule_retry_def
      release_lease_def lock_one_due_def set_branch_status_def set_branch_result_def
      register_branch_with_def create_global_def submit_update_def Let_def split_beta
      split: sum.splits option.splits)

lemma branch_at_global_ops [store_simps]:
  "branch_at x b op (set_global_status gid st tt r s) = branch_at x b op s"
  "branch_at x b op (snd (transition gid f t tt r s)) = branch_at x b op s"
  "branch_at x b op (schedule_now gid s) = branch_at x b op s"
  "branch_at x b op (schedule_retry gid i s) = branch_at x b op s"
  "branch_at x b op (release_lease gid l i s) = branch_at x b op s"
  by (simp_all add: branch_at_def set_global_status_def transition_def schedule_now_def
      schedule_retry_def release_lease_def Let_def split_beta)

lemma branch_at_set_status [store_simps]:
  "branch_at x b o' (set_branch_status gid bid op st s) =
     (if (x, b, o') = (gid, bid, op)
      then map_option (put_branch_status st (now s)) (branch_at x b o' s)
      else branch_at x b o' s)"
  by (simp add: branch_at_def set_branch_status_def row_at_update_key)

definition fresh_row :: "int \<Rightarrow> global_row \<Rightarrow> global_row" where
  "fresh_row t g =
     g\<lparr>g_rollback_reason := [], g_create_time := t, g_update_time := t, g_finish_time := None,
       g_retry_count := 0\<rparr>"

lemma create_global_True:
  assumes "create_global g bs s = (Inr True, s')"
  shows "get_global (g_gid g) s = None"
    and "s' = s\<lparr>st_global := st_global s @ [fresh_row (now s) g],
               st_branch := fold (insert_branch (now s)) bs (st_branch s)\<rparr>"
  using assms
  by (auto simp: create_global_def get_global_def fresh_row_def Let_def insert_ignore_def
      row_at_None_iff split: sum.splits if_splits prod.splits)

lemma get_create_global [store_simps]:
  assumes "create_global g bs s = (Inr True, s')"
  shows "get_global x s' =
    (if x = g_gid g then Some (fresh_row (now s) g) else get_global x s)"
  using create_global_True [OF assms]
  by (auto simp: get_global_def row_at_append row_at_Cons fresh_row_def split: option.splits)

lemma create_global_existing:
  assumes "create_global g bs s = (Inr False, s')"
  shows "s' = s" and "get_global (g_gid g) s \<noteq> None"
  using assms
  by (auto simp: create_global_def get_global_def Let_def insert_ignore_def row_at_None_iff
      split: sum.splits if_splits prod.splits)

lemma create_global_error: "create_global g bs s = (Inl e, s') \<Longrightarrow> s' = s"
  by (auto simp: create_global_def Let_def split: sum.splits if_splits prod.splits)

section \<open>Unique keys\<close>

definition store_ok :: "store \<Rightarrow> bool" where
  "store_ok s \<longleftrightarrow>
     keyed g_gid (st_global s) \<and> keyed b_key (st_branch s) \<and>
     keyed t_key (st_topic s) \<and> keyed k_hash (st_token s)"

lemma insert_branch_keyed: "keyed b_key rows \<Longrightarrow> keyed b_key (insert_branch t b rows)"
  by (simp add: insert_branch_def keyed_insert_ignore)

lemma fold_insert_branch_keyed:
  "keyed b_key rows \<Longrightarrow> keyed b_key (fold (insert_branch t) bs rows)"
  by (induction bs arbitrary: rows) (auto simp: insert_branch_keyed)

lemma register_ops_keyed:
  "register_ops gid bid p t ops rows = Inr rows' \<Longrightarrow> keyed b_key rows \<Longrightarrow> keyed b_key rows'"
  by (induction gid bid p t ops rows rule: register_ops.induct)
    (auto simp: Let_def insert_branch_keyed split: option.splits if_splits)

lemma store_ok_create_global: "store_ok s \<Longrightarrow> store_ok (snd (create_global g bs s))"
  by (auto simp: store_ok_def create_global_def Let_def insert_ignore_def keyed_def
      fold_insert_branch_keyed [unfolded keyed_def] split: sum.splits)

lemma store_ok_set_global_status: "store_ok s \<Longrightarrow> store_ok (set_global_status gid st tt r s)"
  by (auto simp: store_ok_def set_global_status_def Let_def split_beta)

lemma store_ok_transition: "store_ok s \<Longrightarrow> store_ok (snd (transition gid f t tt r s))"
  by (auto simp: store_ok_def transition_def Let_def split_beta)

lemma store_ok_set_branch_status: "store_ok s \<Longrightarrow> store_ok (set_branch_status gid bid op st s)"
  by (auto simp: store_ok_def set_branch_status_def)

lemma store_ok_set_branch_result:
  "store_ok s \<Longrightarrow> store_ok (snd (set_branch_result gid bid op st p s))"
  by (auto simp: store_ok_def set_branch_result_def b_key_def put_branch_status_def
      split: sum.splits intro!: keyed_update)

lemma store_ok_register: "store_ok s \<Longrightarrow> store_ok (snd (register_branch_with gid bid ops p s))"
  by (auto simp: store_ok_def register_branch_with_def register_ops_keyed split: sum.splits)

lemma store_ok_lock: "store_ok s \<Longrightarrow> store_ok (snd (lock_one_due owner lease s))"
  by (auto simp: store_ok_def lock_one_due_def Let_def split_beta split: option.splits)

lemma store_ok_schedule:
  "store_ok s \<Longrightarrow> store_ok (schedule_now gid s)"
  "store_ok s \<Longrightarrow> store_ok (schedule_retry gid i s)"
  "store_ok s \<Longrightarrow> store_ok (release_lease gid l i s)"
  by (auto simp: store_ok_def schedule_now_def schedule_retry_def release_lease_def Let_def
      release_sets_released)

lemma store_ok_submit_update: "store_ok s \<Longrightarrow> store_ok (submit_update gid owner t s)"
  by (auto simp: store_ok_def submit_update_def)

lemma store_ok_submit_prepared:
  assumes "store_ok s" "\<And>s. store_ok s \<Longrightarrow> store_ok (between s)"
  shows "store_ok (snd (submit_prepared_between between gid owner t s))"
  using assms by (auto simp: submit_prepared_between_def store_ok_submit_update split: option.splits)

lemma store_ok_topics:
  "store_ok s \<Longrightarrow> store_ok (snd (subscribe t u r s))"
  "store_ok s \<Longrightarrow> store_ok (snd (unsubscribe t u s))"
  "store_ok s \<Longrightarrow> store_ok (snd (delete_topic t s))"
  by (auto simp: store_ok_def subscribe_def unsubscribe_def delete_topic_def Let_def split_beta
      keyed_insert_ignore split: sum.splits)

lemma store_ok_tokens:
  "store_ok s \<Longrightarrow> store_ok (snd (create_token h n c s))"
  "store_ok s \<Longrightarrow> store_ok (snd (revoke_token h s))"
  "store_ok s \<Longrightarrow> store_ok (touch_token h ip s)"
  by (auto simp: store_ok_def create_token_def revoke_token_def touch_token_def split_beta
      keyed_def split: sum.splits intro!: keyed_update [unfolded keyed_def])

lemmas store_ok_ops = store_ok_create_global store_ok_set_global_status store_ok_transition
  store_ok_set_branch_status store_ok_set_branch_result store_ok_register store_ok_lock
  store_ok_schedule store_ok_submit_prepared store_ok_topics store_ok_tokens

section \<open>Registering a branch\<close>

lemma b_key_new:
  "b_key (b\<lparr>b_create_time := t, b_update_time := u, b_finish_time := f\<rparr>) = b_key b"
  by (simp add: b_key_def)

lemma row_at_insert_branch:
  "row_at b_key x (insert_branch t b rows) =
     (case row_at b_key x rows of
        Some r \<Rightarrow> Some r
      | None \<Rightarrow> if x = b_key b
                then Some (b\<lparr>b_create_time := t, b_update_time := t, b_finish_time := None\<rparr>)
                else None)"
  by (auto simp: insert_branch_def row_at_insert_ignore b_key_new split: option.splits)

lemma insert_branch_keeps: "row_at b_key x rows = Some r \<Longrightarrow> row_at b_key x (insert_branch t b rows) = Some r"
  by (simp add: row_at_insert_branch)

lemma register_ops_keeps:
  "register_ops gid bid p t ops rows = Inr rows' \<Longrightarrow> row_at b_key x rows = Some r \<Longrightarrow>
   row_at b_key x rows' = Some r"
  by (induction gid bid p t ops rows rule: register_ops.induct)
    (auto simp: Let_def insert_branch_keeps split: option.splits if_splits)

lemma register_ops_stores:
  "register_ops gid bid p t ops rows = Inr rows' \<Longrightarrow> (op, url) \<in> set ops \<Longrightarrow>
   \<exists>r. row_at b_key (gid, bid, op) rows' = Some r \<and> b_url r = url"
proof (induction gid bid p t ops rows rule: register_ops.induct)
  case (2 gid bid p t op' url' ops rows)
  let ?rows = "insert_branch t \<lparr>b_gid = gid, b_branch_id = bid, b_op = op', b_url = url',
    b_payload = p, b_status = BPrepared, b_create_time = t, b_update_time = t,
    b_finish_time = None\<rparr> rows"
  have "row_at b_key (gid, bid, op') ?rows \<noteq> None"
    by (simp add: row_at_insert_branch b_key_def split: option.splits)
  then obtain r where r: "row_at b_key (gid, bid, op') ?rows = Some r" by blast
  with 2(3) have url: "b_url r = url'" and rest: "register_ops gid bid p t ops ?rows = Inr rows'"
    by (auto simp: Let_def split: if_splits)
  show ?case
  proof (cases "(op, url) = (op', url')")
    case True
    with register_ops_keeps [OF rest r] url show ?thesis by auto
  next
    case False
    with 2(4) have "(op, url) \<in> set ops" by auto
    with 2(2) [OF refl r] url rest show ?thesis by auto
  qed
qed simp

text \<open>Nothing is inserted when every row is there, with its address: a retry changes nothing.\<close>

lemma register_ops_idempotent:
  assumes "\<forall>(op, url)\<in>set ops. \<exists>r. row_at b_key (gid, bid, op) rows = Some r \<and> b_url r = url"
  shows "register_ops gid bid p t ops rows = Inr rows"
  using assms
proof (induction ops)
  case (Cons a ops)
  obtain op url where a: "a = (op, url)" by (cases a)
  with Cons.prems obtain r where r: "row_at b_key (gid, bid, op) rows = Some r" "b_url r = url"
    by auto
  then have "(gid, bid, op) \<in> b_key ` set rows"
    using row_at_None_iff [of b_key "(gid, bid, op)" rows] by auto
  then have "insert_branch t \<lparr>b_gid = gid, b_branch_id = bid, b_op = op, b_url = url,
    b_payload = p, b_status = BPrepared, b_create_time = t, b_update_time = t,
    b_finish_time = None\<rparr> rows = rows"
    by (simp add: insert_branch_def insert_ignore_def b_key_def)
  with a r Cons show ?case by simp
qed simp

lemma register_branch_cases:
  assumes "register_branch_with gid bid ops p s = (r, s')"
  obtains (error) e where "r = Inl e" "s' = s"
    | (conflict) op existing where "r = Inr (Conflict op existing)" "s' = s"
        "register_ops gid bid p (now s) ops (st_branch s) = Inl (op, existing)"
    | (registered) rows where "r = Inr Registered" "s' = s\<lparr>st_branch := rows\<rparr>"
        "register_ops gid bid p (now s) ops (st_branch s) = Inr rows"
  using assms by (auto simp: register_branch_with_def split: sum.splits)

text \<open>
  \<open>branch_kept\<close>: every branch row is still there with its address. The branch tables of an
  operation's two states are compared by it.
\<close>

definition branch_kept :: "branch_row list \<Rightarrow> branch_row list \<Rightarrow> bool" where
  "branch_kept rows rows' \<longleftrightarrow>
     (\<forall>x r. row_at b_key x rows = Some r \<longrightarrow> (\<exists>r'. row_at b_key x rows' = Some r' \<and> b_url r' = b_url r))"

lemma branch_kept_refl [simp]: "branch_kept rows rows"
  by (auto simp: branch_kept_def)

lemma branch_kept_trans: "branch_kept a b \<Longrightarrow> branch_kept b c \<Longrightarrow> branch_kept a c"
  unfolding branch_kept_def by metis

lemma branch_kept_insert: "branch_kept rows (insert_branch t b rows)"
  by (auto simp: branch_kept_def insert_branch_keeps)

lemma branch_kept_fold: "branch_kept rows (fold (insert_branch t) bs rows)"
proof (induction bs arbitrary: rows)
  case (Cons b bs)
  show ?case using branch_kept_trans [OF branch_kept_insert Cons] by simp
qed simp

lemma branch_kept_register:
  "register_ops gid bid p t ops rows = Inr rows' \<Longrightarrow> branch_kept rows rows'"
  by (auto simp: branch_kept_def dest: register_ops_keeps)

lemma branch_kept_update:
  assumes "\<And>r. b_key (f r) = b_key r" "\<And>r. b_url (f r) = b_url r"
  shows "branch_kept rows (snd (update_where (\<lambda>r. b_key r = k) f rows))"
  using assms by (auto simp: branch_kept_def row_at_update_key)

section \<open>Properties\<close>

text \<open>
  Registering a branch is all or nothing. If it succeeds, every operation is stored with
  exactly the address asked for and every branch registered before is as it was; in every other
  case, an error or a number taken by another address, the store is unchanged. Registering the
  same addresses again succeeds and changes nothing.
\<close>

theorem register_all_or_nothing:
  assumes "register_branch_with gid bid ops p s = (r, s')"
  shows "if r = Inr Registered
    then (\<forall>(op, url)\<in>set ops. \<exists>b. branch_at gid bid op s' = Some b \<and> b_url b = url) \<and>
         (\<forall>x y op b. branch_at x y op s = Some b \<longrightarrow> branch_at x y op s' = Some b) \<and>
         register_branch_with gid bid ops p s' = (Inr Registered, s')
    else s' = s"
  using assms
proof (cases rule: register_branch_cases)
  case (registered rows)
  have "register_ops gid bid p t ops rows = Inr rows" for t
    by (rule register_ops_idempotent) (use register_ops_stores [OF registered(3)] in auto)
  moreover have "all_ok ([len_ok ''gid'' gid id_max, len_ok ''branch_id'' bid id_max]
        @ map (\<lambda>(_, url). len_ok ''url'' url mid) ops @ [len_ok ''payload'' p mid]) = Inr ()"
    using assms registered(1) by (auto simp: register_branch_with_def split: sum.splits)
  ultimately have "register_branch_with gid bid ops p s' = (Inr Registered, s')"
    unfolding register_branch_with_def by (simp add: registered(2))
  with registered register_ops_stores [OF registered(3)] register_ops_keeps [OF registered(3)]
  show ?thesis by (auto simp: branch_at_def)
qed simp_all

lemma register_all_or_nothing_witness:
  "\<exists>b. branch_at ''g'' ''01'' Cancel (snd (register_branch_with ''g'' ''01''
        [(Confirm, ''http://c''), (Cancel, ''http://x'')] []
        \<lparr>st_backend = Sqlite, st_clock = 7, st_global = [], st_branch = [], st_topic = [], st_token = []\<rparr>)) =
      Some b \<and> b_url b = ''http://x''"
proof -
  have "register_branch_with ''g'' ''01'' [(Confirm, ''http://c''), (Cancel, ''http://x'')] []
      \<lparr>st_backend = Sqlite, st_clock = 7, st_global = [], st_branch = [], st_topic = [], st_token = []\<rparr> =
    (Inr Registered, snd (register_branch_with ''g'' ''01'' [(Confirm, ''http://c''), (Cancel, ''http://x'')] []
      \<lparr>st_backend = Sqlite, st_clock = 7, st_global = [], st_branch = [], st_topic = [], st_token = []\<rparr>))"
    by code_simp
  from register_all_or_nothing [OF this] show ?thesis by simp
qed

text \<open>
  Creating a transaction is idempotent: on a gid that exists it reports so and changes
  nothing, on a new one the row is stored with its clock fields set and every branch row that
  was there stays, and a value too long for its MySQL column is refused before anything is
  written.
\<close>

theorem create_global_idempotent:
  assumes "create_global g bs s = (r, s')"
  shows "if r = Inr True
    then get_global (g_gid g) s = None \<and>
         (\<forall>x. get_global x s' = (if x = g_gid g then Some (fresh_row (now s) g) else get_global x s)) \<and>
         (\<forall>x y op b. branch_at x y op s = Some b \<longrightarrow> branch_at x y op s' = Some b) \<and>
         create_global g bs s' = (Inr False, s') \<and>
         chars_count (g_gid g) \<le> id_max \<and> chars_count (g_payload g) \<le> big \<and>
         chars_count (g_query_prepared g) \<le> mid
    else s' = s \<and> (r = Inr False \<longrightarrow> get_global (g_gid g) s \<noteq> None)"
proof (cases "r = Inr True")
  case True
  with assms have c: "create_global g bs s = (Inr True, s')" by simp
  have keep: "row_at b_key k rows = Some b \<Longrightarrow> row_at b_key k (fold (insert_branch t) bs rows) = Some b"
    for k rows t b by (induction bs arbitrary: rows) (auto simp: insert_branch_keeps)
  from c have "g_gid g \<in> g_gid ` set (st_global s')"
    by (simp add: create_global_True(2) [OF c] fresh_row_def)
  with c have "create_global g bs s' = (Inr False, s')"
    by (auto simp: create_global_def Let_def insert_ignore_def split: sum.splits prod.splits if_splits)
  moreover have "chars_count (g_gid g) \<le> id_max \<and> chars_count (g_payload g) \<le> big \<and>
      chars_count (g_query_prepared g) \<le> mid"
    using c by (auto simp: create_global_def all_ok_Inr len_ok_iff split: sum.splits)
  ultimately show ?thesis
    using True create_global_True [OF c] get_create_global [OF c] keep by (simp add: branch_at_def)
next
  case False
  with assms create_global_existing [of g bs s s'] create_global_error [of g bs s _ s'] show ?thesis
    by (cases r) (simp, case_tac b, simp_all)
qed

definition order_row :: global_row where
  "order_row =
     \<lparr>g_gid = ''o-1'', g_trans_type = Tcc, g_status = GPrepared, g_payload = ''[]'',
      g_next_cron_time = 7, g_next_cron_interval = 0, g_owner = [], g_lease_until = 0,
      g_rollback_reason = [], g_query_prepared = [], g_create_time = 0, g_update_time = 0,
      g_finish_time = None, g_timeout_to_fail = 0, g_retry_count = 0\<rparr>"

lemma create_global_idempotent_witness:
  "create_global order_row [] (snd (create_global order_row []
      \<lparr>st_backend = Sqlite, st_clock = 7, st_global = [], st_branch = [], st_topic = [], st_token = []\<rparr>)) =
    (Inr False, snd (create_global order_row []
      \<lparr>st_backend = Sqlite, st_clock = 7, st_global = [], st_branch = [], st_topic = [], st_token = []\<rparr>))"
proof -
  have "create_global order_row []
      \<lparr>st_backend = Sqlite, st_clock = 7, st_global = [], st_branch = [], st_topic = [], st_token = []\<rparr> =
    (Inr True, snd (create_global order_row []
      \<lparr>st_backend = Sqlite, st_clock = 7, st_global = [], st_branch = [], st_topic = [], st_token = []\<rparr>))"
    by code_simp
  from create_global_idempotent [OF this] show ?thesis by simp
qed

text \<open>
  Releasing a lease leaves the same row on MySQL, which evaluates a SET clause from left to
  right, as on sqlite and postgres, which evaluate it on the old row.
\<close>

theorem release_same_on_every_backend:
  "apply_sets be (release_sets interval t) g g = apply_sets be' (release_sets interval t) g g \<and>
   apply_sets be (release_sets interval t) g g = released interval t g"
  by (simp add: release_sets_released)

end
