(* ===== verification/Store_Contract.thy ===== *)
theory Store_Contract
  imports Sql_Laws
begin

text \<open>
  What the driver and the API rely on, whichever backend is behind the store: writing a status by
  comparison (\<open>status_store\<close>) and leasing a due transaction (\<open>lease_store\<close>). The laws are stated
  over the map from gids to rows; the client lemmas are proved from the laws alone, and the SQL
  store is shown to be an instance of both.
\<close>

section \<open>Writing a status by comparison\<close>

text \<open>The abstract operation: a compare-and-set on the map of transactions.\<close>

type_synonym txn_map = "string \<Rightarrow> global_row option"

definition cas_status ::
  "int \<Rightarrow> string \<Rightarrow> global_status \<Rightarrow> global_status \<Rightarrow> string \<Rightarrow> txn_map \<Rightarrow> bool \<times> txn_map" where
  "cas_status t gid from_st to_st reason m =
     (case m gid of
        None \<Rightarrow> (False, m)
      | Some g \<Rightarrow> if g_status g = from_st then (True, m(gid \<mapsto> put_status to_st t reason g))
                  else (False, m))"

text \<open>
  A backend compares where it is \<open>guarded\<close>: SQL always, Redis only for statuses that others may
  change. Where it does not compare, the write is right when the reading it rests on is fresh.
\<close>

locale status_store =
  fixes inv :: "'s \<Rightarrow> bool"
    and get :: "string \<Rightarrow> 's \<Rightarrow> global_row option"
    and clock :: "'s \<Rightarrow> int"
    and guarded :: "global_status \<Rightarrow> trans_type \<Rightarrow> bool"
    and trans :: "string \<Rightarrow> global_status \<Rightarrow> global_status \<Rightarrow> trans_type \<Rightarrow> string \<Rightarrow> 's \<Rightarrow> bool \<times> 's"
  assumes trans_clock: "clock (snd (trans gid f t tt r s)) = clock s"
    and trans_inv: "inv s \<Longrightarrow> guarded f tt \<Longrightarrow> inv (snd (trans gid f t tt r s))"
    and trans_refines: "inv s \<Longrightarrow> guarded f tt \<Longrightarrow> trans gid f t tt r s = (ok, s') \<Longrightarrow>
      (ok, \<lambda>x. get x s') = cas_status (clock s) gid f t (take_chars mid r) (\<lambda>x. get x s)"
    and trans_fresh: "inv s \<Longrightarrow> get gid s = Some g \<Longrightarrow> g_status g = f \<Longrightarrow> \<not> is_final f \<Longrightarrow>
      trans gid f t tt r s = (ok, s') \<Longrightarrow>
      ok \<and> inv s' \<and> (\<lambda>x. get x s') = (\<lambda>x. get x s)(gid \<mapsto> put_status t (clock s) (take_chars mid r) g)"
begin

lemma trans_ok_iff:
  assumes "inv s" "guarded f tt" "trans gid f t tt r s = (ok, s')"
  shows "ok \<longleftrightarrow> (\<exists>g. get gid s = Some g \<and> g_status g = f)"
  using trans_refines [OF assms] by (auto simp: cas_status_def split: option.splits if_splits)

lemma trans_get:
  assumes "inv s" "guarded f tt" "trans gid f t tt r s = (ok, s')"
  shows "get x s' = (if ok \<and> x = gid
    then map_option (put_status t (clock s) (take_chars mid r)) (get x s) else get x s)"
proof -
  have "(\<lambda>x. get x s') = snd (cas_status (clock s) gid f t (take_chars mid r) (\<lambda>x. get x s))"
    and "ok = fst (cas_status (clock s) gid f t (take_chars mid r) (\<lambda>x. get x s))"
    using trans_refines [OF assms] by (metis snd_conv, metis fst_conv)
  then show ?thesis
    by (auto simp: cas_status_def fun_eq_iff split: option.splits if_splits)
qed

text \<open>A writer whose reading is stale changes nothing.\<close>

lemma stale_write_is_noop:
  assumes "inv s" "guarded f tt" "get gid s = Some g" "g_status g \<noteq> f" "trans gid f t tt r s = (ok, s')"
  shows "\<not> ok" and "get x s' = get x s"
  using trans_ok_iff [OF assms(1,2,5)] trans_get [OF assms(1,2,5)] assms(3,4) by auto

text \<open>Of two writers that read the same status, the first wins and the second is told so.\<close>

lemma one_winner:
  assumes "inv s" "f \<noteq> t1" "guarded f tt1" "guarded f tt2"
    and "trans gid f t1 tt1 r1 s = (True, s1)" "trans gid f t2 tt2 r2 s1 = (ok, s2)"
  shows "\<not> ok" and "\<exists>g. get gid s2 = Some g \<and> g_status g = t1"
proof -
  obtain g where g: "get gid s = Some g" using trans_ok_iff [OF assms(1,3,5)] by auto
  have "get gid s1 = Some (put_status t1 (clock s) (take_chars mid r1) g)"
    using trans_get [OF assms(1,3,5), of gid] g by simp
  moreover have "inv s1" using trans_inv [OF assms(1,3), of gid t1 r1] assms(5) by simp
  ultimately show "\<not> ok" and "\<exists>g. get gid s2 = Some g \<and> g_status g = t1"
    using stale_write_is_noop [of s1 f tt2 gid _ t2 r2 ok s2] assms(2,4,6) by auto
qed

end

section \<open>Leases\<close>

definition free_at :: "int \<Rightarrow> global_row \<Rightarrow> bool" where
  "free_at t g \<longleftrightarrow> schedulable g \<and> due t g"

text \<open>The holder of the lease can count one more retry in 64 bits.\<close>

definition countable_retries ::
  "string \<Rightarrow> int \<Rightarrow> 's \<Rightarrow> (string \<Rightarrow> 's \<Rightarrow> global_row option) \<Rightarrow> bool" where
  "countable_retries gid l s get \<longleftrightarrow>
     (case get gid s of
        None \<Rightarrow> True | Some g \<Rightarrow> g_lease_until g = l \<longrightarrow> in_i64 (g_retry_count g + 1))"

lemma countable_retries_iff:
  "countable_retries gid l s get \<longleftrightarrow>
     (\<forall>g. get gid s = Some g \<longrightarrow> g_lease_until g = l \<longrightarrow> in_i64 (g_retry_count g + 1))"
  by (auto simp: countable_retries_def split: option.splits)

locale lease_store = status_store inv get clock guarded trans
  for inv :: "'s \<Rightarrow> bool" and get clock guarded trans +
  fixes lock :: "string \<Rightarrow> int \<Rightarrow> 's \<Rightarrow> global_row option \<times> 's"
    and release :: "string \<Rightarrow> int \<Rightarrow> int \<Rightarrow> 's \<Rightarrow> 's"
    and sched :: "string \<Rightarrow> 's \<Rightarrow> 's"
  assumes lock_inv: "inv s \<Longrightarrow> inv (snd (lock owner lease s))"
    and lock_clock: "clock (snd (lock owner lease s)) = clock s"
    and lock_Some: "inv s \<Longrightarrow> lock owner lease s = (Some g, s') \<Longrightarrow>
      \<exists>g0. get (g_gid g) s = Some g0 \<and> free_at (clock s) g0 \<and>
           g = take_lease owner (clock s) lease g0 \<and>
           (\<lambda>x. get x s') = (\<lambda>x. get x s)(g_gid g \<mapsto> g)"
    and lock_None: "inv s \<Longrightarrow> lock owner lease s = (None, s') \<Longrightarrow> get x s' = get x s"
    and release_inv: "inv s \<Longrightarrow> in_i64 i \<Longrightarrow> countable_retries gid l s get \<Longrightarrow>
      inv (release gid l i s)"
    and release_clock: "clock (release gid l i s) = clock s"
    and release_get: "inv s \<Longrightarrow> in_i64 i \<Longrightarrow> countable_retries gid l s get \<Longrightarrow> get x (release gid l i s) =
      (if x = gid then map_option (\<lambda>g. if g_lease_until g = l then released i (clock s) g else g)
                        (get x s)
       else get x s)"
    and sched_inv: "inv s \<Longrightarrow> inv (sched gid s)"
    and sched_clock: "clock (sched gid s) = clock s"
    and sched_get: "inv s \<Longrightarrow> get x (sched gid s) =
      (if x = gid then map_option (\<lambda>g. g\<lparr>g_next_cron_time := clock s, g_next_cron_interval := 0\<rparr>)
                        (get x s)
       else get x s)"
begin

lemma leased_not_locked:
  assumes "inv s" "get gid s = Some g" "clock s < g_lease_until g" "lock owner lease s = (Some g', s')"
  shows "g_gid g' \<noteq> gid"
proof
  assume "g_gid g' = gid"
  with lock_Some [OF assms(1,4)] assms(2) have "g_lease_until g \<le> clock s"
    by (auto simp: free_at_def due_def)
  with assms(3) show False by simp
qed

text \<open>Asking for immediate treatment does not break the lease a worker holds.\<close>

lemma sched_keeps_lease:
  assumes "inv s" "get gid s = Some g"
  shows "\<exists>g'. get gid (sched x s) = Some g' \<and> g_lease_until g' = g_lease_until g"
  using sched_get [OF assms(1), of gid x] assms(2) by auto

text \<open>A worker whose lease has expired and been taken over cannot release the new one.\<close>

lemma stale_release_is_noop:
  assumes "inv s" "in_i64 i" "get gid s = Some g" "g_lease_until g \<noteq> l"
  shows "get x (release gid l i s) = get x s"
proof -
  have "countable_retries gid l s get" using assms(3,4) by (simp add: countable_retries_iff)
  from release_get [OF assms(1,2) this, of x] assms(3,4) show ?thesis by (cases "x = gid") auto
qed

text \<open>A request made while the lease was held survives its release.\<close>

lemma request_survives_release:
  assumes "inv s" "get gid s = Some g" "clock s < g_lease_until g" "inv s'" "in_i64 i"
    and "get gid s' = get gid (sched gid s)" "clock s \<le> clock s'" "in_i64 (g_retry_count g + 1)"
  shows "\<exists>g'. get gid (release gid (g_lease_until g) i s') = Some g' \<and>
    g_next_cron_time g' = clock s \<and> g_lease_until g' = 0 \<and> due (max (clock s') 0) g'"
proof -
  have "countable_retries gid (g_lease_until g) s' get"
    using sched_get [OF assms(1), of gid gid] assms by (auto simp: countable_retries_iff)
  from release_get [OF assms(4,5) this, of gid] show ?thesis
    using sched_get [OF assms(1), of gid gid] assms by (auto simp: released_def due_def)
qed

end

section \<open>The SQL store is an instance\<close>

lemma lock_one_due_Some:
  assumes "keyed g_gid (st_global s)" "lock_one_due owner lease s = (Some g, s')"
  shows "\<exists>g0. get_global (g_gid g) s = Some g0 \<and> free_at (now s) g0 \<and>
    g = take_lease owner (now s) lease g0 \<and>
    (\<lambda>x. get_global x s') = (\<lambda>x. get_global x s)(g_gid g \<mapsto> g)"
proof -
  let ?Q = "due (now s)" and ?f = "take_lease owner (now s) lease"
  obtain p where p: "find (\<lambda>g. schedulable g \<and> due (now s) g) (st_global s) = Some p"
    and g: "row_at g_gid (g_gid p)
      (snd (update_where (\<lambda>g. g_gid g = g_gid p \<and> ?Q g) ?f (st_global s))) = Some g"
    and s': "s' = s\<lparr>st_global :=
      snd (update_where (\<lambda>g. g_gid g = g_gid p \<and> ?Q g) ?f (st_global s))\<rparr>"
    using assms(2)
    by (auto simp: lock_one_due_def Let_def split_beta split: option.splits if_splits)
  from p have in_s: "p \<in> set (st_global s)" and free: "free_at (now s) p"
    by (auto simp: find_Some_iff free_at_def)
  from row_at_keyed [OF assms(1) in_s] have at: "get_global (g_gid p) s = Some p"
    by (simp add: get_global_def)
  with g free have "g = ?f p"
    by (simp add: row_at_update_guarded get_global_def free_at_def)
  moreover from this have gid: "g_gid g = g_gid p" by simp
  moreover have "get_global x s' = ((\<lambda>x. get_global x s)(g_gid g \<mapsto> g)) x" for x
    using at free by (simp add: get_global_def s' row_at_update_guarded gid \<open>g = ?f p\<close> free_at_def)
  ultimately show ?thesis using at free by auto
qed

lemma lock_one_due_None:
  assumes "keyed g_gid (st_global s)" "lock_one_due owner lease s = (None, s')"
  shows "s' = s" and "\<forall>g\<in>set (st_global s). \<not> free_at (now s) g"
proof -
  show "\<forall>g\<in>set (st_global s). \<not> free_at (now s) g"
  proof (rule ccontr)
    assume "\<not> ?thesis"
    then obtain p where p: "find (\<lambda>g. schedulable g \<and> due (now s) g) (st_global s) = Some p"
      by (cases "find (\<lambda>g. schedulable g \<and> due (now s) g) (st_global s)")
        (auto simp: find_None_iff free_at_def)
    then have in_s: "p \<in> set (st_global s)" and "due (now s) p"
      by (auto simp: find_Some_iff)
    then have pos: "0 < fst (update_where (\<lambda>g. g_gid g = g_gid p \<and> due (now s) g)
        (take_lease owner (now s) lease) (st_global s))"
      by (auto simp: fst_update_where_pos)
    have "row_at g_gid (g_gid p) (st_global s) = Some p"
      by (rule row_at_keyed [OF assms(1) in_s])
    with p pos assms(2) show False
      by (auto simp: lock_one_due_def Let_def split_beta row_at_update_guarded)
  qed
  then have "find (\<lambda>g. schedulable g \<and> due (now s) g) (st_global s) = None"
    by (auto simp: find_None_iff free_at_def)
  with assms(2) show "s' = s" by (simp add: lock_one_due_def Let_def)
qed

lemma transition_refines:
  assumes "keyed g_gid (st_global s)" "transition gid f t tt r s = (ok, s')"
  shows "(ok, \<lambda>x. get_global x s') =
    cas_status (now s) gid f t (take_chars mid r) (\<lambda>x. get_global x s)"
proof -
  have "ok = fst (transition gid f t tt r s)" "s' = snd (transition gid f t tt r s)"
    using assms(2) by simp_all
  then show ?thesis
    using fst_transition [OF assms(1), of gid f t tt r]
    by (auto simp: cas_status_def get_transition fun_eq_iff split: option.splits)
qed

interpretation sql: lease_store store_ok get_global st_clock "\<lambda>_ _. True" transition lock_one_due
  release_lease schedule_now
proof
  fix s gid f t tt r ok s'
  assume "store_ok s"
  then show "store_ok (snd (transition gid f t tt r s))" by (rule store_ok_transition)
  from \<open>store_ok s\<close> show "transition gid f t tt r s = (ok, s') \<Longrightarrow>
      (ok, \<lambda>x. get_global x s') = cas_status (now s) gid f t (take_chars mid r) (\<lambda>x. get_global x s)"
    by (intro transition_refines) (simp_all add: store_ok_def)
next
  fix s gid g f t tt r ok s'
  assume a: "store_ok s" "get_global gid s = Some g" "g_status g = f" "transition gid f t tt r s = (ok, s')"
  then have "(ok, \<lambda>x. get_global x s') =
      cas_status (now s) gid f t (take_chars mid r) (\<lambda>x. get_global x s)"
    by (intro transition_refines) (simp_all add: store_ok_def)
  with a store_ok_transition [OF a(1), of gid f t tt r] show "ok \<and> store_ok s' \<and>
      (\<lambda>x. get_global x s') = (\<lambda>x. get_global x s)(gid \<mapsto> put_status t (now s) (take_chars mid r) g)"
    by (simp add: cas_status_def)
next
  fix s gid f t tt r
  show "now (snd (transition gid f t tt r s)) = now s"
    by (simp add: transition_def Let_def split_beta)
next
  fix s owner lease g s'
  assume "store_ok s"
  then show "store_ok (snd (lock_one_due owner lease s))" by (rule store_ok_lock)
  from \<open>store_ok s\<close> show "lock_one_due owner lease s = (Some g, s') \<Longrightarrow>
      \<exists>g0. get_global (g_gid g) s = Some g0 \<and> free_at (now s) g0 \<and>
           g = take_lease owner (now s) lease g0 \<and>
           (\<lambda>x. get_global x s') = (\<lambda>x. get_global x s)(g_gid g \<mapsto> g)"
    by (intro lock_one_due_Some) (simp_all add: store_ok_def)
next
  fix s owner lease s' x
  assume "store_ok s" "lock_one_due owner lease s = (None, s')"
  then show "get_global x s' = get_global x s"
    using lock_one_due_None [of s owner lease s'] by (simp add: store_ok_def)
next
  fix s owner lease
  show "now (snd (lock_one_due owner lease s)) = now s"
    by (auto simp: lock_one_due_def Let_def split_beta split: option.splits)
qed (auto simp: store_ok_schedule store_simps)

end
