(* ===== verification/Lifecycle.thy ===== *)
theory Lifecycle
  imports Store_Contract
begin

text \<open>
  The life of a global transaction: which status may follow which, per mode, and the relation
  \<open>evolves\<close> between two states of the store that every operation of the coordinator respects.
  It is reflexive and transitive, so it is both what a worker may assume of the others and what
  it guarantees to them.
\<close>

section \<open>Reachable statuses\<close>

text \<open>
  Two edges exist only because a message or a saga without any branch is finished as succeeded
  whatever its status was.
\<close>

definition reach :: "trans_type \<Rightarrow> global_status \<Rightarrow> global_status \<Rightarrow> bool" where
  "reach tt f t \<longleftrightarrow>
     f = t \<or> f = GPrepared \<or>
     f = GSubmitted \<and> (t = GSucceed \<or> (tt = Saga \<or> tt = Workflow) \<and> (t = GAborting \<or> t = GFailed)) \<or>
     f = GAborting \<and> (t = GFailed \<or> t = GSucceed \<and> (tt = Saga \<or> tt = Msg))"

lemma reach_refl [simp]: "reach tt f f"
  by (simp add: reach_def)

lemma reach_trans: "reach tt f t \<Longrightarrow> reach tt t u \<Longrightarrow> reach tt f u"
  by (cases tt; cases f; cases t; cases u) (simp_all add: reach_def)

lemma reach_final: "is_final f \<Longrightarrow> reach tt f t \<Longrightarrow> t = f"
  by (cases f) (simp_all add: reach_def)

lemma reach_submitted_two_phase:
  "reach tt GSubmitted t \<Longrightarrow> tt = Tcc \<or> tt = Xa \<or> tt = Msg \<Longrightarrow> t = GSubmitted \<or> t = GSucceed"
  by (cases tt; cases t) (simp_all add: reach_def)

lemma reach_aborting:
  "reach tt GAborting t \<Longrightarrow> tt = Tcc \<or> tt = Xa \<or> tt = Workflow \<Longrightarrow> t = GAborting \<or> t = GFailed"
  by (cases tt; cases t) (simp_all add: reach_def)

section \<open>Evolution of the store\<close>

definition row_evolves :: "global_row \<Rightarrow> global_row \<Rightarrow> bool" where
  "row_evolves g g' \<longleftrightarrow>
     g_gid g' = g_gid g \<and> g_trans_type g' = g_trans_type g \<and> g_payload g' = g_payload g \<and>
     g_query_prepared g' = g_query_prepared g \<and> g_create_time g' = g_create_time g \<and>
     g_timeout_to_fail g' = g_timeout_to_fail g \<and>
     reach (g_trans_type g) (g_status g) (g_status g')"

definition evolves :: "store \<Rightarrow> store \<Rightarrow> bool" where
  "evolves s s' \<longleftrightarrow>
     now s \<le> now s' \<and> (store_ok s \<longrightarrow> store_ok s') \<and>
     (\<forall>x g. get_global x s = Some g \<longrightarrow>
        (\<exists>g'. get_global x s' = Some g' \<and> row_evolves g g')) \<and>
     branch_kept (st_branch s) (st_branch s')"

lemma row_evolves_refl [simp]: "row_evolves g g"
  by (simp add: row_evolves_def)

lemma row_evolves_trans: "row_evolves a b \<Longrightarrow> row_evolves b c \<Longrightarrow> row_evolves a c"
  by (auto simp: row_evolves_def intro: reach_trans)

lemma evolves_refl [simp]: "evolves s s"
  by (auto simp: evolves_def)

lemma evolves_trans:
  assumes "evolves a b" "evolves b c" shows "evolves a c"
proof -
  have "\<exists>g'. get_global x c = Some g' \<and> row_evolves g g'" if "get_global x a = Some g" for x g
    using assms that unfolding evolves_def by (meson row_evolves_trans)
  with assms show ?thesis
    unfolding evolves_def by (auto intro: branch_kept_trans)
qed

lemma evolves_status:
  assumes "evolves s s'" "get_global x s = Some g"
  obtains g' where "get_global x s' = Some g'" "row_evolves g g'"
  using assms by (auto simp: evolves_def)

lemma evolves_ok: "evolves s s' \<Longrightarrow> store_ok s \<Longrightarrow> store_ok s'"
  by (simp add: evolves_def)

text \<open>Operations that touch the global table by key only have to be judged row by row.\<close>

lemma evolvesI:
  assumes "now s \<le> now s'" "store_ok s \<Longrightarrow> store_ok s'" "branch_kept (st_branch s) (st_branch s')"
    and "\<And>x g. get_global x s = Some g \<Longrightarrow> \<exists>g'. get_global x s' = Some g' \<and> row_evolves g g'"
  shows "evolves s s'"
  using assms by (simp add: evolves_def)

lemma evolves_row_update:
  assumes "now s' = now s" "store_ok s \<Longrightarrow> store_ok s'" "st_branch s' = st_branch s"
    and get: "\<And>x. get_global x s' =
      (if x = gid then map_option F (get_global x s) else get_global x s)"
    and row: "\<And>g. get_global gid s = Some g \<Longrightarrow> row_evolves g (F g)"
  shows "evolves s s'"
proof (rule evolvesI)
  fix x g assume g: "get_global x s = Some g"
  show "\<exists>g'. get_global x s' = Some g' \<and> row_evolves g g'"
  proof (cases "x = gid")
    case True
    with g get [of x] have "get_global x s' = Some (F g)" by simp
    with row True g show ?thesis by auto
  next
    case False
    with g get [of x] show ?thesis by simp
  qed
qed (use assms in auto)

lemma get_global_gid: "get_global x s = Some g \<Longrightarrow> g_gid g = x"
  by (auto simp: get_global_def dest: row_at_SomeD)

lemma row_evolves_put_status:
  "reach (g_trans_type g) (g_status g) st \<Longrightarrow> row_evolves g (put_status st t r g)"
  by (simp add: row_evolves_def put_status_def)

lemma row_evolves_released [simp]: "row_evolves g (released i t g)"
  by (simp add: row_evolves_def released_def)

lemma row_evolves_take_lease [simp]: "row_evolves g (take_lease owner t lease g)"
  by (simp add: row_evolves_def take_lease_def)

section \<open>The operations of the store respect it\<close>

lemma branch_table_unchanged [simp]:
  "st_branch (snd (transition gid f t tt r s)) = st_branch s"
  "st_branch (release_lease gid l i s) = st_branch s"
  "st_branch (schedule_now gid s) = st_branch s"
  "st_branch (schedule_retry gid i s) = st_branch s"
  "st_branch (snd (lock_one_due owner lease s)) = st_branch s"
  "st_branch (submit_update gid owner nct s) = st_branch s"
  by (auto simp: submit_update_def transition_def release_lease_def schedule_now_def schedule_retry_def
      lock_one_due_def Let_def split_beta split: option.splits)

lemma evolves_transition:
  assumes "\<And>g. get_global gid s = Some g \<Longrightarrow> g_status g = f \<Longrightarrow> reach (g_trans_type g) f t"
  shows "evolves s (snd (transition gid f t tt r s))"
  by (rule evolves_row_update [OF _ _ _ get_transition])
    (use assms in \<open>auto simp: store_simps store_ok_transition intro: row_evolves_put_status\<close>)

lemma evolves_release: "evolves s (release_lease gid l i s)"
  by (rule evolves_row_update [OF _ _ _ get_release_lease]) (auto simp: store_simps store_ok_schedule)

lemma evolves_schedule_now: "evolves s (schedule_now gid s)"
  by (rule evolves_row_update [OF _ _ _ get_schedule_now])
    (auto simp: store_simps store_ok_schedule row_evolves_def)

lemma evolves_schedule_retry: "evolves s (schedule_retry gid i s)"
  by (rule evolves_row_update [OF _ _ _ get_schedule_retry])
    (auto simp: store_simps store_ok_schedule row_evolves_def)

lemma evolves_lock:
  assumes "store_ok s" shows "evolves s (snd (lock_one_due owner lease s))"
proof (rule evolvesI)
  fix x g assume g: "get_global x s = Some g"
  obtain r s' where l: "lock_one_due owner lease s = (r, s')" by fastforce
  show "\<exists>g'. get_global x (snd (lock_one_due owner lease s)) = Some g' \<and> row_evolves g g'"
  proof (cases r)
    case None
    with l lock_one_due_None [of s owner lease s'] assms g show ?thesis
      by (auto simp: store_ok_def)
  next
    case (Some h)
    with l lock_one_due_Some [of s owner lease h s'] assms g show ?thesis
      by (auto simp: store_ok_def fun_eq_iff)
  qed
qed (use assms in \<open>auto simp: store_simps store_ok_lock\<close>)

lemma evolves_branch_only:
  assumes "now s' = now s" "store_ok s \<Longrightarrow> store_ok s'" "\<And>x. get_global x s' = get_global x s"
    and "branch_kept (st_branch s) (st_branch s')"
  shows "evolves s s'"
  by (rule evolvesI) (use assms in auto)

lemma evolves_set_branch_status: "evolves s (set_branch_status gid bid op st s)"
proof (rule evolves_branch_only)
  show "branch_kept (st_branch s) (st_branch (set_branch_status gid bid op st s))"
    by (simp add: set_branch_status_def branch_kept_update)
qed (simp_all add: store_simps store_ok_set_branch_status)

lemma evolves_set_branch_result: "evolves s (snd (set_branch_result gid bid op st p s))"
proof (rule evolves_branch_only)
  show "branch_kept (st_branch s) (st_branch (snd (set_branch_result gid bid op st p s)))"
    by (auto simp: set_branch_result_def b_key_def [of "_\<lparr>b_payload := _\<rparr>"] b_key_def [symmetric]
        intro!: branch_kept_update split: sum.splits)
qed (simp_all add: store_simps store_ok_set_branch_result)

lemma evolves_register: "evolves s (snd (register_branch_with gid bid ops p s))"
proof -
  obtain r s' where *: "register_branch_with gid bid ops p s = (r, s')" by fastforce
  then have "branch_kept (st_branch s) (st_branch s')"
    by (cases rule: register_branch_cases) (auto intro: branch_kept_register)
  with * show ?thesis
    using store_ok_register [of s gid bid ops p] get_branch_ops(3) [of _ gid bid ops p s]
      now_ops(9) [of gid bid ops p s]
    by (intro evolvesI) auto
qed

lemma evolves_create_global: "evolves s (snd (create_global g bs s))"
proof (cases "create_global g bs s")
  case (Pair r s')
  show ?thesis
  proof (cases "r = Inr True")
    case True
    then have cr: "create_global g bs s = (Inr True, s')" using Pair by simp
    show ?thesis
    proof (rule evolvesI)
      fix x h assume "get_global x s = Some h"
      then show "\<exists>g'. get_global x (snd (create_global g bs s)) = Some g' \<and> row_evolves h g'"
        using get_create_global [OF cr, of x] create_global_True(1) [OF cr] cr by auto
    qed (use cr create_global_True [OF cr] store_ok_create_global [of s g bs] in
        \<open>auto simp: branch_kept_fold\<close>)
  next
    case False
    then have "s' = s"
      using Pair create_global_existing(1) create_global_error
      by (cases r) (metis, metis (full_types))
    with Pair show ?thesis by simp
  qed
qed

lemma evolves_submit_update: "evolves s (submit_update gid owner t s)"
  by (rule evolves_row_update [OF _ _ _ get_submit_update])
    (auto simp: store_simps store_ok_submit_update row_evolves_def reach_def)

lemma evolves_submit_prepared_between:
  assumes "evolves s (between s)"
  shows "evolves s (snd (submit_prepared_between between gid owner t s))"
  using assms
  by (auto simp: submit_prepared_between_def intro: evolves_trans evolves_submit_update
      split: option.splits)

lemma evolves_submit_prepared: "evolves s (snd (submit_prepared gid owner t s))"
  by (simp add: submit_prepared_def evolves_submit_prepared_between)

lemma evolves_topics:
  "evolves s (snd (subscribe t u r s))" "evolves s (snd (unsubscribe t u s))"
  "evolves s (snd (delete_topic t s))"
proof -
  have "get_global x (snd (subscribe t u r s)) = get_global x s" for x
    by (auto simp: get_global_def subscribe_def split_beta split: sum.splits)
  then show "evolves s (snd (subscribe t u r s))"
    by (intro evolves_branch_only)
      (auto simp: store_ok_topics, auto simp: subscribe_def split_beta split: sum.splits)
  have "get_global x (snd (unsubscribe t u s)) = get_global x s"
    "get_global x (snd (delete_topic t s)) = get_global x s" for x
    by (auto simp: get_global_def unsubscribe_def delete_topic_def split_beta)
  then show "evolves s (snd (unsubscribe t u s))" "evolves s (snd (delete_topic t s))"
    by (intro evolves_branch_only;
        auto simp: store_ok_topics; auto simp: unsubscribe_def delete_topic_def split_beta)+
qed

lemma evolves_clock: "0 \<le> d \<Longrightarrow> evolves s (s\<lparr>st_clock := now s + d\<rparr>)"
  by (rule evolvesI) (auto simp: get_global_def store_ok_def)

lemmas evolves_ops = evolves_release evolves_schedule_now evolves_schedule_retry
  evolves_set_branch_status evolves_set_branch_result evolves_register evolves_create_global
  evolves_submit_prepared evolves_submit_update

end
