(* ===== verification/Lease_History.thy ===== *)
theory Lease_History
  imports Lifecycle
begin

text \<open>
  Leases over whole histories: what every other session of the SQL store may do, in any order
  and number, while a worker holds a lease, and the two races the store's statements are in.
\<close>

text \<open>
  One step of the others. They may use every operation; releasing is by token, and the token of
  another lease differs from this one.
\<close>

inductive others_step :: "string \<Rightarrow> int \<Rightarrow> store \<Rightarrow> store \<Rightarrow> bool" for gid L where
  create: "others_step gid L s (snd (create_global g bs s))"
| transition: "to_st \<noteq> GPrepared \<Longrightarrow> others_step gid L s (snd (transition x from_st to_st tt r s))"
| branch_status: "others_step gid L s (set_branch_status x bid op st s)"
| branch_result: "others_step gid L s (snd (set_branch_result x bid op st p s))"
| registering: "others_step gid L s (snd (register_branch_with x bid ops p s))"
| locking: "others_step gid L s (snd (lock_one_due owner lease s))"
| releasing: "x \<noteq> gid \<or> l \<noteq> L \<Longrightarrow> others_step gid L s (release_lease x l i s)"
| scheduling: "others_step gid L s (schedule_now x s)"
| retrying: "others_step gid L s (schedule_retry x i s)"
| submitting: "others_step gid L s (submit_update x owner t s)"
| ticking: "0 \<le> d \<Longrightarrow> others_step gid L s (s\<lparr>st_clock := now s + d\<rparr>)"

definition leased :: "string \<Rightarrow> int \<Rightarrow> store \<Rightarrow> bool" where
  "leased gid L s \<longleftrightarrow> store_ok s \<and>
     (\<exists>g. get_global gid s = Some g \<and> g_lease_until g = L \<and> g_status g \<noteq> GPrepared)"

lemma leased_row_update:
  assumes "leased gid L s" "store_ok s'"
    and "\<And>g. get_global gid s = Some g \<Longrightarrow> get_global gid s' = Some (F g)"
    and "\<And>g. get_global gid s = Some g \<Longrightarrow> g_lease_until g = L \<Longrightarrow> g_status g \<noteq> GPrepared \<Longrightarrow>
      g_lease_until (F g) = L \<and> g_status (F g) \<noteq> GPrepared"
  shows "leased gid L s'"
  using assms unfolding leased_def by metis

lemma leased_same: "leased gid L s \<Longrightarrow> store_ok s' \<Longrightarrow> get_global gid s' = get_global gid s \<Longrightarrow> leased gid L s'"
  by (auto simp: leased_def)

lemma leased_ok: "leased gid L s \<Longrightarrow> store_ok s"
  by (simp add: leased_def)

lemma leased_create:
  assumes "leased gid L s" shows "leased gid L (snd (create_global g bs s))"
proof (cases "create_global g bs s")
  case (Pair r s')
  have ok: "store_ok s'" using store_ok_create_global [OF leased_ok [OF assms], of g bs] Pair by simp
  show ?thesis
  proof (cases "r = Inr True")
    case True
    with Pair have c: "create_global g bs s = (Inr True, s')" by simp
    then have "g_gid g \<noteq> gid" using create_global_True(1) [OF c] assms by (auto simp: leased_def)
    then have "get_global gid s' = get_global gid s" by (simp add: get_create_global [OF c])
    with assms ok Pair show ?thesis by (simp add: leased_same)
  next
    case False
    with Pair create_global_existing(1) [of g bs s s'] create_global_error [of g bs s _ s'] assms
    show ?thesis by (cases r) (simp, case_tac b, simp_all)
  qed
qed

lemma leased_lock:
  assumes "leased gid L s" "now s < L" shows "leased gid L (snd (lock_one_due owner lease s))"
proof -
  obtain r s' where l: "lock_one_due owner lease s = (r, s')" by fastforce
  from leased_ok [OF assms(1)] have ok: "store_ok s" .
  have ok': "store_ok s'" using store_ok_lock [OF ok, of owner lease] l by simp
  have "get_global gid s' = get_global gid s"
  proof (cases r)
    case None
    with l sql.lock_None [OF ok] show ?thesis by blast
  next
    case (Some g)
    from assms obtain g0 where "get_global gid s = Some g0" "now s < g_lease_until g0"
      by (auto simp: leased_def)
    with sql.leased_not_locked [OF ok] l Some have "g_gid g \<noteq> gid" by blast
    moreover from l Some have "lock_one_due owner lease s = (Some g, s')" by simp
    from sql.lock_Some [OF ok this]
    have "(\<lambda>x. get_global x s') = (\<lambda>x. get_global x s)(g_gid g \<mapsto> g)" by blast
    then have "get_global gid s' = ((\<lambda>x. get_global x s)(g_gid g \<mapsto> g)) gid" by (rule fun_cong)
    ultimately show ?thesis by simp
  qed
  with assms ok' l show ?thesis by (simp add: leased_same)
qed

lemma leased_step:
  assumes "others_step gid L s s'" "leased gid L s" "now s < L"
  shows "leased gid L s'"
  using assms
proof (cases rule: others_step.cases)
  case (create g bs)
  with assms show ?thesis by (simp add: leased_create)
next
  case (transition to_st x from_st tt r)
  show ?thesis
    by (rule leased_row_update [OF assms(2), where F = "\<lambda>g. if gid = x \<and> g_status g = from_st
          then put_status to_st (now s) (take_chars mid r) g else g"])
      (use transition leased_ok [OF assms(2)] in \<open>auto simp: store_simps store_ok_transition\<close>)
next
  case (branch_status x bid op st)
  with assms show ?thesis
    by (auto intro!: leased_same [of gid L s] simp: store_simps store_ok_set_branch_status leased_ok)
next
  case (branch_result x bid op st p)
  with assms show ?thesis
    by (auto intro!: leased_same [of gid L s] simp: store_simps store_ok_set_branch_result leased_ok)
next
  case (registering x bid ops p)
  with assms show ?thesis
    by (auto intro!: leased_same [of gid L s] simp: store_simps store_ok_register leased_ok)
next
  case (locking owner lease)
  with assms show ?thesis by (simp add: leased_lock)
next
  case (releasing x l i)
  show ?thesis
    by (rule leased_row_update [OF assms(2), where F = "\<lambda>g. if gid = x \<and> g_lease_until g = l
          then released i (now s) g else g"])
      (use releasing leased_ok [OF assms(2)] in \<open>auto simp: store_simps store_ok_schedule\<close>)
next
  case (scheduling x)
  show ?thesis
    by (rule leased_row_update [OF assms(2), where F = "\<lambda>g. if gid = x
          then g\<lparr>g_next_cron_time := now s, g_next_cron_interval := 0\<rparr> else g"])
      (use scheduling leased_ok [OF assms(2)] in \<open>auto simp: store_simps store_ok_schedule\<close>)
next
  case (retrying x i)
  show ?thesis
    by (rule leased_row_update [OF assms(2), where F = "\<lambda>g. if gid = x
          then g\<lparr>g_next_cron_interval := i, g_next_cron_time := wrap_i64 (now s + i),
            g_update_time := now s\<rparr> else g"])
      (use retrying leased_ok [OF assms(2)] in \<open>auto simp: store_simps store_ok_schedule\<close>)
next
  case (submitting x owner t)
  show ?thesis
    by (rule leased_row_update [OF assms(2), where F = "\<lambda>r. if gid = x \<and> g_status r = GPrepared
          then r\<lparr>g_status := GSubmitted, g_update_time := now s, g_next_cron_time := t,
                 g_next_cron_interval := 0, g_owner := owner,
                 g_lease_until := claim_until owner t\<rparr> else r"])
      (use submitting leased_ok [OF assms(2)] in \<open>auto simp: store_simps store_ok_submit_update\<close>)
next
  case (ticking d)
  with assms show ?thesis by (auto simp: leased_def get_global_def store_ok_def)
qed

lemma others_step_clock: "others_step gid L s s' \<Longrightarrow> now s \<le> now s'"
  by (induction rule: others_step.induct) (simp_all add: store_simps)

lemma leased_history:
  assumes "(others_step gid L)\<^sup>*\<^sup>* s s'" "leased gid L s" "now s' < L"
  shows "leased gid L s'"
  using assms
proof (induction rule: rtranclp_induct)
  case (step t u)
  with others_step_clock [OF step(2)] have "now t < L" by simp
  with step leased_step show ?case by blast
qed

section \<open>Properties\<close>

text \<open>
  C13. From the moment a worker leases a transaction (past prepared) until its lease runs out,
  nobody else is given that transaction, whatever the others do in between: immediate
  scheduling, status changes, branch writes, other leases and releases, submissions.
\<close>

theorem lease_excludes_others:
  assumes "store_ok s0" "lock_one_due owner lease s0 = (Some g, s1)" "g_status g \<noteq> GPrepared"
    and "(others_step (g_gid g) (g_lease_until g))\<^sup>*\<^sup>* s1 s2" "now s2 < g_lease_until g"
    and "lock_one_due owner' lease' s2 = (Some g', s3)"
  shows "g_gid g' \<noteq> g_gid g"
proof -
  have "get_global (g_gid g) s1 = Some g"
    using sql.lock_Some [OF assms(1,2)] by (auto simp: fun_eq_iff)
  moreover have "store_ok s1" using store_ok_lock [OF assms(1), of owner lease] assms(2) by simp
  ultimately have "leased (g_gid g) (g_lease_until g) s1" using assms(3) by (simp add: leased_def)
  from leased_history [OF assms(4) this assms(5)] show ?thesis
    using sql.leased_not_locked [of s2] assms(5,6) by (auto simp: leased_def)
qed

definition two_due :: store where
  "two_due =
     (let g = order_row\<lparr>g_status := GSubmitted\<rparr>
      in \<lparr>st_backend = Sqlite, st_clock = 7, st_global = [g, g\<lparr>g_gid := ''o-2''\<rparr>], st_branch = [],
          st_topic = [], st_token = []\<rparr>)"

lemma lease_excludes_others_witness:
  "g_gid (the (fst (lock_one_due ''w2'' 30 (schedule_now ''o-1'' (snd (lock_one_due ''w1'' 30 two_due)))))) \<noteq>
   g_gid (the (fst (lock_one_due ''w1'' 30 two_due)))"
proof (rule lease_excludes_others)
  let ?g = "the (fst (lock_one_due ''w1'' 30 two_due))" and ?s1 = "snd (lock_one_due ''w1'' 30 two_due)"
  show "store_ok two_due"
    by (simp add: store_ok_def two_due_def keyed_def order_row_def Let_def)
  show "lock_one_due ''w1'' 30 two_due = (Some ?g, ?s1)" by code_simp
  show "g_status ?g \<noteq> GPrepared" by code_simp
  show "(others_step (g_gid ?g) (g_lease_until ?g))\<^sup>*\<^sup>* ?s1 (schedule_now ''o-1'' ?s1)"
    by (rule r_into_rtranclp, rule others_step.scheduling)
  show "now (schedule_now ''o-1'' ?s1) < g_lease_until ?g" by code_simp
  show "lock_one_due ''w2'' 30 (schedule_now ''o-1'' ?s1) =
    (Some (the (fst (lock_one_due ''w2'' 30 (schedule_now ''o-1'' ?s1)))),
     snd (lock_one_due ''w2'' 30 (schedule_now ''o-1'' ?s1)))" by code_simp
qed

text \<open>
  Of two writers of the status that have read the same status, the first wins, the second
  is told that it lost, and the first one's status stands.
\<close>

theorem one_status_writer_wins:
  assumes "store_ok s" "from_st \<noteq> to1"
    and "transition gid from_st to1 tt r1 s = (True, s1)"
    and "transition gid from_st to2 tt r2 s1 = (ok, s2)"
  shows "\<not> ok \<and> (\<exists>g. get_global gid s2 = Some g \<and> g_status g = to1)"
  using sql.one_winner [OF assms(1,2) _ _ assms(3,4)] by simp

lemma one_status_writer_wins_witness:
  "\<not> fst (transition ''o-1'' GSubmitted GSucceed Saga [] (snd (transition ''o-1'' GSubmitted GAborting Saga [] two_due))) \<and>
   (\<exists>g. get_global ''o-1'' (snd (transition ''o-1'' GSubmitted GSucceed Saga []
      (snd (transition ''o-1'' GSubmitted GAborting Saga [] two_due)))) = Some g \<and> g_status g = GAborting)"
proof (rule one_status_writer_wins)
  show "store_ok two_due"
    by (simp add: store_ok_def two_due_def keyed_def order_row_def Let_def)
  show "transition ''o-1'' GSubmitted GAborting Saga [] two_due =
      (True, snd (transition ''o-1'' GSubmitted GAborting Saga [] two_due))" by code_simp
qed simp_all

text \<open>
  Submitting a prepared transaction reads and writes in two statements: when an abort lands
  between them, the caller is still told that the transaction was advanced, and handed a row
  that says submitted, while the store says aborting.
\<close>

theorem submit_prepared_may_report_a_lost_race:
  "\<exists>between s g g'.
     evolves s (between s) \<and>
     fst (submit_prepared_between between ''o-1'' ''tc'' 37 s) = Advanced g \<and> g_status g = GSubmitted \<and>
     get_global ''o-1'' (snd (submit_prepared_between between ''o-1'' ''tc'' 37 s)) = Some g' \<and>
     g_status g' = GAborting"
proof -
  let ?s = "\<lparr>st_backend = Sqlite, st_clock = 7, st_global = [order_row], st_branch = [],
    st_topic = [], st_token = []\<rparr>"
  let ?b = "\<lambda>s. snd (transition ''o-1'' GPrepared GAborting Tcc [] s)"
  have "evolves ?s (?b ?s)" by (rule evolves_transition) (simp add: reach_def)
  moreover have "get_global ''o-1'' ?s = Some order_row"
    by (simp add: get_global_def row_at_Cons order_row_def)
  ultimately show ?thesis
    by (intro exI [of _ ?b] exI [of _ ?s])
      (simp add: submit_prepared_between_def order_row_def submitted_row_def store_simps)
qed

end
