(* ===== verification/Registry.thy ===== *)
theory Registry
  imports Core_Types
begin

text \<open>
  Branch addresses and the table of in-process branches
  (\<^verbatim>\<open>crates/dtmrs-server/src/registry.rs\<close>): an address is a local name, an HTTP URL or a gRPC
  endpoint with a method path. What a registered handler does is code of the embedding program,
  so handlers are a type parameter here.
\<close>

record grpc_target =
  gt_endpoint :: string
  gt_path :: string
  gt_tls :: bool

datatype target = Local string | Http string | Grpc grpc_target

definition parse_grpc :: "string \<Rightarrow> string \<Rightarrow> bool \<Rightarrow> grpc_target option" where
  "parse_grpc rest scheme tls =
     (case split_once (CHR ''/'') rest of
        None \<Rightarrow> None
      | Some (authority, path) \<Rightarrow>
          if authority = [] then None
          else (case filter (\<lambda>s. s \<noteq> []) (split_on (CHR ''/'') path) of
                  [service, method] \<Rightarrow>
                    Some \<lparr>gt_endpoint = scheme @ ''://'' @ authority,
                          gt_path = ''/'' @ service @ ''/'' @ method, gt_tls = tls\<rparr>
                | _ \<Rightarrow> None))"

fun try_grpc :: "(string \<times> string \<times> bool) list \<Rightarrow> string \<Rightarrow> target option" where
  "try_grpc [] s = None"
| "try_grpc ((pre, scheme, tls) # rules) s =
     (case strip_prefix pre s of
        None \<Rightarrow> try_grpc rules s
      | Some rest \<Rightarrow>
          (case parse_grpc rest scheme tls of
             Some t \<Rightarrow> Some (Grpc t)
           | None \<Rightarrow> try_grpc rules s))"

definition parse_target :: "string \<Rightarrow> target" where
  "parse_target s =
     (case strip_prefix ''local://'' s of
        Some name \<Rightarrow> Local name
      | None \<Rightarrow>
          (case try_grpc [(''grpcs://'', ''https'', True), (''grpc://'', ''http'', False)] s of
             Some t \<Rightarrow> t
           | None \<Rightarrow> Http s))"

text \<open>The registry: names to handlers; a later registration replaces an earlier one.\<close>

type_synonym 'h registry = "string \<Rightarrow> 'h option"

definition registry_new :: "'h registry" where
  "registry_new = (\<lambda>_. None)"

definition register :: "string \<Rightarrow> 'h \<Rightarrow> 'h registry \<Rightarrow> 'h registry" where
  "register name f r = r(name \<mapsto> f)"

definition registry_get :: "'h registry \<Rightarrow> string \<Rightarrow> 'h option" where
  "registry_get r name = r name"

definition missing_of :: "'h registry \<Rightarrow> string \<Rightarrow> string option" where
  "missing_of r t =
     (case parse_target t of
        Local n \<Rightarrow> if r n = None then Some n else None
      | _ \<Rightarrow> None)"

definition check_all :: "'h registry \<Rightarrow> string list \<Rightarrow> string list + unit" where
  "check_all r targets =
     (let missing = List.map_filter (missing_of r) targets
      in if missing = [] then Inr () else Inl missing)"

section \<open>What an address can be parsed to\<close>

lemma parse_grpc_Some:
  assumes "parse_grpc rest scheme tls = Some t"
  shows "gt_tls t = tls" and "prefix (scheme @ ''://'') (gt_endpoint t)"
  using assms by (auto simp: parse_grpc_def split: option.splits prod.splits list.splits if_splits)

lemma parse_target_Grpc:
  assumes "parse_target s = Grpc t"
  shows "if gt_tls t then prefix ''grpcs://'' s \<and> prefix ''https://'' (gt_endpoint t)
         else prefix ''grpc://'' s \<and> prefix ''http://'' (gt_endpoint t)"
proof -
  from assms consider
      (tls) rest where "s = ''grpcs://'' @ rest" "parse_grpc rest ''https'' True = Some t"
    | (plain) rest where "s = ''grpc://'' @ rest" "parse_grpc rest ''http'' False = Some t"
    by (auto simp: parse_target_def strip_prefix_Some_iff split: option.splits)
  then show ?thesis
    by cases (auto dest: parse_grpc_Some)
qed

lemma parse_target_Local: "parse_target s = Local n \<longleftrightarrow> s = ''local://'' @ n"
proof
  assume "parse_target s = Local n"
  then show "s = ''local://'' @ n"
    by (auto simp: parse_target_def strip_prefix_Some_iff split: option.splits if_splits)
next
  assume "s = ''local://'' @ n"
  then show "parse_target s = Local n" by (simp add: parse_target_def strip_prefix_def)
qed

lemma parse_target_Http: "parse_target s = Http u \<Longrightarrow> u = s"
  by (auto simp: parse_target_def split: option.splits if_splits)

lemma check_all_ok_iff:
  "check_all r targets = Inr () \<longleftrightarrow> (\<forall>n. ''local://'' @ n \<in> set targets \<longrightarrow> r n \<noteq> None)"
proof -
  have "missing_of r t = None \<longleftrightarrow> (\<forall>n. t = ''local://'' @ n \<longrightarrow> r n \<noteq> None)" for t
    unfolding parse_target_Local [symmetric] by (simp add: missing_of_def split: target.splits)
  moreover have "List.map_filter (missing_of r) targets = [] \<longleftrightarrow>
      (\<forall>t\<in>set targets. missing_of r t = None)"
    by (induction targets) (auto simp: List.map_filter_simps split: option.splits)
  ultimately show ?thesis by (auto simp: check_all_def Let_def)
qed

section \<open>Properties\<close>

text \<open>
  An address is never downgraded: what is parsed as a gRPC target without TLS was written
  \<open>grpc://\<close>, what was written \<open>grpcs://\<close> is a TLS target with an https endpoint or is left to
  the HTTP client unchanged, and a local address is exactly \<open>local://\<close> and its name.
\<close>

theorem no_silent_downgrade:
  "(parse_target (''grpcs://'' @ rest) = Grpc t \<longrightarrow> gt_tls t \<and> prefix ''https://'' (gt_endpoint t)) \<and>
   (parse_target s = Grpc t \<longrightarrow> gt_tls t \<or> prefix ''grpc://'' s) \<and>
   (parse_target s = Http u \<longrightarrow> u = s) \<and>
   (parse_target s = Local n \<longleftrightarrow> s = ''local://'' @ n)"
proof (intro conjI impI)
  assume g: "parse_target (''grpcs://'' @ rest) = Grpc t"
  from parse_target_Grpc [OF g] show "gt_tls t" "prefix ''https://'' (gt_endpoint t)"
    by (auto split: if_splits)
next
  assume "parse_target s = Grpc t"
  from parse_target_Grpc [OF this] show "gt_tls t \<or> prefix ''grpc://'' s" by (auto split: if_splits)
qed (simp_all add: parse_target_Http parse_target_Local)

lemma no_silent_downgrade_witness:
  "gt_tls \<lparr>gt_endpoint = ''https://h:9'', gt_path = ''/p.S/M'', gt_tls = True\<rparr> \<and>
   prefix ''https://'' (gt_endpoint \<lparr>gt_endpoint = ''https://h:9'', gt_path = ''/p.S/M'', gt_tls = True\<rparr>)"
proof -
  have "parse_target (''grpcs://'' @ ''h:9/p.S/M'') =
      Grpc \<lparr>gt_endpoint = ''https://h:9'', gt_path = ''/p.S/M'', gt_tls = True\<rparr>" by code_simp
  with no_silent_downgrade [of "''h:9/p.S/M''"] show ?thesis by blast
qed

text \<open>
  The check before a submission accepts exactly the addresses whose local names are all
  registered, and otherwise names the missing ones.
\<close>

theorem check_all_finds_missing:
  "(check_all r targets = Inr () \<longleftrightarrow> (\<forall>n. ''local://'' @ n \<in> set targets \<longrightarrow> r n \<noteq> None)) \<and>
   (check_all r targets = Inl missing \<longrightarrow> missing \<noteq> [] \<and>
      (\<forall>n. n \<in> set missing \<longleftrightarrow> ''local://'' @ n \<in> set targets \<and> r n = None))"
proof (intro conjI)
  show "check_all r targets = Inr () \<longleftrightarrow> (\<forall>n. ''local://'' @ n \<in> set targets \<longrightarrow> r n \<noteq> None)"
    by (rule check_all_ok_iff)
  have local: "missing_of r t = Some n \<longleftrightarrow> t = ''local://'' @ n \<and> r n = None" for t n
    unfolding parse_target_Local [symmetric] by (auto simp: missing_of_def split: target.splits)
  have mem: "n \<in> set (List.map_filter f ts) \<longleftrightarrow> (\<exists>t\<in>set ts. f t = Some n)" for f and ts :: "string list" and n
    by (induction ts) (auto simp: List.map_filter_simps split: option.splits)
  have "n \<in> set (List.map_filter (missing_of r) targets) \<longleftrightarrow>
      ''local://'' @ n \<in> set targets \<and> r n = None" for n
    unfolding mem local by blast
  then show "check_all r targets = Inl missing \<longrightarrow> missing \<noteq> [] \<and>
      (\<forall>n. n \<in> set missing \<longleftrightarrow> ''local://'' @ n \<in> set targets \<and> r n = None)"
    by (auto simp: check_all_def Let_def split: if_splits)
qed

lemma check_all_finds_missing_witness:
  "[''pay''] \<noteq> [] \<and> (\<forall>n. n \<in> set [''pay''] \<longleftrightarrow>
     ''local://'' @ n \<in> set [''http://x'', ''local://pay''] \<and> (registry_new :: nat registry) n = None)"
proof -
  have "check_all (registry_new :: nat registry) [''http://x'', ''local://pay''] = Inl [''pay'']"
    by (simp add: check_all_def registry_new_def missing_of_def parse_target_def strip_prefix_def
        List.map_filter_simps)
  with check_all_finds_missing [of "registry_new :: nat registry" "[''http://x'', ''local://pay'']" "[''pay'']"]
  show ?thesis by blast
qed

end
