(* ===== verification/Server_Rows.thy ===== *)
theory Server_Rows
  imports Advance Topics Branch_Id Sql_Store
begin

text \<open>
  The rows a transaction starts from (\<^verbatim>\<open>crates/dtmrs-server/src/lib.rs\<close>). Payloads are JSON
  text made by serde_json, which is not under src/: the encoders and decoders are the record
  \<open>json\<close>, an argument of what uses them. A decoder that fails gives \<open>None\<close>.
\<close>

record json =
  js_of_steps :: "saga_step list \<Rightarrow> string"
  js_steps :: "string \<Rightarrow> saga_step list option"
  js_of_branches :: "msg_branch list \<Rightarrow> string"
  js_branches :: "string \<Rightarrow> msg_branch list option"
  js_of_workflow :: "string \<Rightarrow> string \<Rightarrow> string"
  js_workflow :: "string \<Rightarrow> (string option \<times> string option) option"

text \<open>\<open>unwrap_or_default\<close> of a list decoder.\<close>

definition or_default :: "'a list option \<Rightarrow> 'a list" where
  "or_default x = (case x of None \<Rightarrow> [] | Some xs \<Rightarrow> xs)"

definition global_init :: "int \<Rightarrow> string \<Rightarrow> trans_type \<Rightarrow> global_status \<Rightarrow> string \<Rightarrow> global_row" where
  "global_init t gid tt status payload =
     \<lparr>g_gid = gid, g_trans_type = tt, g_status = status, g_payload = payload,
      g_next_cron_time = t, g_next_cron_interval = 0, g_owner = [], g_lease_until = 0,
      g_rollback_reason = [], g_query_prepared = [], g_create_time = 0, g_update_time = 0,
      g_finish_time = None, g_timeout_to_fail = 0, g_retry_count = 0\<rparr>"

definition timeout_to_fail_default :: "(string \<Rightarrow> string option) \<Rightarrow> int" where
  "timeout_to_fail_default env =
     (case env ''DTMRS_TIMEOUT_TO_FAIL'' of
        None \<Rightarrow> default_timeout_to_fail
      | Some v \<Rightarrow> (case parse_i64 (trim v) of
            None \<Rightarrow> default_timeout_to_fail | Some n \<Rightarrow> n))"

definition never :: int where
  "never = i64_max div 4"

definition branch_init ::
  "string \<Rightarrow> string \<Rightarrow> branch_op \<Rightarrow> string \<Rightarrow> string \<Rightarrow> branch_row" where
  "branch_init gid bid op url payload =
     \<lparr>b_gid = gid, b_branch_id = bid, b_op = op, b_url = url, b_payload = payload,
      b_status = BPrepared, b_create_time = 0, b_update_time = 0, b_finish_time = None\<rparr>"

definition step_rows :: "string \<Rightarrow> nat \<times> saga_step \<Rightarrow> branch_row list" where
  "step_rows gid = (\<lambda>(i, st).
     [branch_init gid (branch_id i) Action (s_action st) (s_payload st),
      branch_init gid (branch_id i) Compensate (s_compensate st) (s_payload st)])"

definition saga_rows ::
  "json \<Rightarrow> int \<Rightarrow> string \<Rightarrow> saga_step list \<Rightarrow> global_row \<times> branch_row list" where
  "saga_rows js t gid steps =
     (global_init t gid Saga GSubmitted (js_of_steps js steps),
      concat (map (step_rows gid) (enumerate 0 steps)))"

definition msg_global ::
  "int \<Rightarrow> string \<Rightarrow> string \<Rightarrow> string \<Rightarrow> int \<Rightarrow> global_row" where
  "msg_global t gid payload query_prepared grace_secs =
     (global_init t gid Msg GPrepared payload)
       \<lparr>g_query_prepared := query_prepared,
        g_next_cron_time := wrap_i64 (t + max grace_secs 0)\<rparr>"

definition msg_rows ::
  "json \<Rightarrow> int \<Rightarrow> string \<Rightarrow> string list \<Rightarrow> string \<Rightarrow> int \<Rightarrow> global_row \<times> branch_row list" where
  "msg_rows js t gid actions query_prepared grace_secs =
     (let steps = map (\<lambda>a. \<lparr>s_action = a, s_compensate = [], s_payload = []\<rparr>) actions
      in (msg_global t gid (js_of_steps js steps) query_prepared grace_secs,
          map (\<lambda>(i, a). branch_init gid (branch_id i) Action a []) (enumerate 0 actions)))"

definition msg_rows_expanded ::
  "json \<Rightarrow> int \<Rightarrow> string \<Rightarrow> msg_branch list \<Rightarrow> string \<Rightarrow> int \<Rightarrow> global_row \<times> branch_row list" where
  "msg_rows_expanded js t gid branches query_prepared grace_secs =
     (msg_global t gid (js_of_branches js branches) query_prepared grace_secs,
      map (\<lambda>b. branch_init gid (mb_branch_id b) Action (mb_action b) (mb_payload b)) branches)"

definition tcc_rows :: "int \<Rightarrow> string \<Rightarrow> global_row" where
  "tcc_rows t gid = global_init t gid Tcc GPrepared ''[]''"

definition tcc_rows_with_timeout :: "int \<Rightarrow> int \<Rightarrow> string \<Rightarrow> int \<Rightarrow> global_row" where
  "tcc_rows_with_timeout dflt t gid timeout_to_fail =
     (let ttf = max timeout_to_fail 0;
          at = (case prepared_deadline t ttf dflt of None \<Rightarrow> never | Some d \<Rightarrow> d)
      in (global_init t gid Tcc GPrepared ''[]'')
           \<lparr>g_timeout_to_fail := ttf, g_next_cron_time := at\<rparr>)"

section \<open>The branches of a saga\<close>

lemma step_rows_keys:
  "map b_key (concat (map (step_rows gid) (enumerate k steps))) =
     concat (map (\<lambda>i. [(gid, branch_id i, Action), (gid, branch_id i, Compensate)])
       [k..<k + length steps])"
proof (induction steps arbitrary: k)
  case (Cons st steps)
  have "[k..<k + length (st # steps)] = k # [Suc k..<Suc k + length steps]"
    by (simp add: upt_rec)
  with Cons [of "Suc k"] show ?case
    by (simp add: step_rows_def branch_init_def b_key_def)
qed simp

lemma saga_rows_distinct: "distinct (map b_key (snd (saga_rows js t gid steps)))"
proof -
  have "distinct (concat (map (\<lambda>i. [(gid, branch_id i, Action), (gid, branch_id i, Compensate)])
      [k..<k + n]))" for k n
  proof (induction n arbitrary: k)
    case (Suc n)
    have "[k..<k + Suc n] = k # [Suc k..<Suc k + n]" by (simp add: upt_rec)
    with Suc [of "Suc k"] show ?case by (auto simp: branch_id_inj)
  qed simp
  from this [of 0 "length steps"] show ?thesis
    by (simp add: saga_rows_def step_rows_keys del: map_concat)
qed

end
