(* ===== verification/Alert.thy ===== *)
theory Alert
  imports Core_Types
begin

text \<open>
  Alerts for stuck transactions (\<^verbatim>\<open>crates/dtmrs-server/src/alert.rs\<close>): when one is due and what it
  carries. Posting it is I/O and cannot fail the driver; an alert is an event of the trace.
\<close>

record pending_branch =
  pb_branch_id :: string
  pb_op :: string
  pb_url :: string

record alert =
  al_gid :: string
  al_trans_type :: string
  al_status :: string
  al_retry_count :: int
  al_rollback_reason :: string
  al_pending :: "pending_branch list"

datatype alert_sink = Webhook string | Callback

record alert_config =
  ac_sink :: alert_sink
  ac_retry_limit :: int

definition default_alert_retry_limit :: int where
  "default_alert_retry_limit = 3"

definition alert_from_env :: "(string \<Rightarrow> string option) \<Rightarrow> alert_config option" where
  "alert_from_env env =
     (case env ''DTMRS_ALERT_WEBHOOK'' of
        None \<Rightarrow> None
      | Some url0 \<Rightarrow>
          (let url = trim url0
           in if url = [] then None
              else
                (let limit = (case env ''DTMRS_ALERT_RETRY_LIMIT'' of
                       None \<Rightarrow> default_alert_retry_limit
                     | Some v \<Rightarrow> (case parse_i64 (trim v) of
                           None \<Rightarrow> default_alert_retry_limit
                         | Some n \<Rightarrow> if 0 < n then n else default_alert_retry_limit))
                 in Some \<lparr>ac_sink = Webhook url, ac_retry_limit = limit\<rparr>)))"

definition should_fire :: "alert_config \<Rightarrow> int \<Rightarrow> bool" where
  "should_fire a retry_count \<longleftrightarrow> max (ac_retry_limit a) 1 \<le> retry_count"

text \<open>
  What becomes of an alert: the callback gets it, or it is posted in the background with a timeout
  in seconds; whatever the answer, nothing but a line of the log depends on it.
\<close>

datatype delivery = Handed_over alert | Posted string alert nat

definition fire :: "alert_config \<Rightarrow> alert \<Rightarrow> delivery" where
  "fire c a = (case ac_sink c of Callback \<Rightarrow> Handed_over a | Webhook url \<Rightarrow> Posted url a 5)"

lemma alert_from_env_limit: "alert_from_env env = Some a \<Longrightarrow> 0 < ac_retry_limit a"
  by (auto simp: alert_from_env_def default_alert_retry_limit_def Let_def
      split: option.splits if_splits)

lemma should_fire_mono: "should_fire a n \<Longrightarrow> n \<le> m \<Longrightarrow> should_fire a m"
  by (simp add: should_fire_def)

lemma should_fire_zero: "\<not> should_fire a 0"
  by (simp add: should_fire_def)

end
