(* ===== verification/Exec.thy ===== *)
theory Exec
  imports Server_Rows Registry Lifecycle Alert "HOL-Library.State_Monad"
begin

text \<open>
  The execution model of the driver and the API. A program is a state transformer on the
  \<open>world\<close>: the store, the number of accesses made so far and the trace of what the program did.
  The \<open>environment\<close> answers the branch calls and says what every other worker, client and
  instance does to the store just before each access, so a theorem for all environments is a
  theorem for all interleavings.
\<close>

section \<open>Worlds and programs\<close>

text \<open>A call of a branch, as the branch sees it.\<close>

record branch_call =
  c_gid :: string
  c_trans_type :: trans_type
  c_branch_id :: string
  c_op :: branch_op
  c_url :: string
  c_payload :: string

datatype event =
    Called branch_call branch_result
  | Status global_status global_status bool
  | Alerted alert
  | Detached global_row
  | Empty_topic_passed string

record world =
  w_store :: store
  w_step :: nat
  w_trace :: "event list"

type_synonym 'a prog = "(world, 'a) state"

record environment =
  e_others :: "nat \<Rightarrow> store \<Rightarrow> store"
  e_http :: "nat \<Rightarrow> branch_call \<Rightarrow> (nat \<times> string) option"
  e_grpc :: "nat \<Rightarrow> grpc_target \<Rightarrow> branch_call \<Rightarrow> int option"
  e_local :: "(nat \<Rightarrow> branch_call \<Rightarrow> branch_result) registry"
  e_joined :: "nat \<Rightarrow> (string \<times> branch_result) list \<Rightarrow> (string \<times> branch_result) list"

text \<open>One access to the store, after the others have had their turn.\<close>

definition access :: "environment \<Rightarrow> (store \<Rightarrow> 'a \<times> store) \<Rightarrow> 'a prog" where
  "access env f = State (\<lambda>w.
     let (r, s) = f (e_others env (w_step w) (w_store w))
     in (r, w\<lparr>w_store := s, w_step := Suc (w_step w)\<rparr>))"

definition execute :: "environment \<Rightarrow> (store \<Rightarrow> store) \<Rightarrow> unit prog" where
  "execute env f = access env (\<lambda>s. ((), f s))"

definition observe :: "environment \<Rightarrow> (store \<Rightarrow> 'a) \<Rightarrow> 'a prog" where
  "observe env f = access env (\<lambda>s. (f s, s))"

definition answer_of :: "(nat \<Rightarrow> branch_call \<Rightarrow> branch_result) \<Rightarrow> branch_call \<Rightarrow> branch_result prog" where
  "answer_of f c = State (\<lambda>w.
     let r = f (w_step w) c
     in (r, w\<lparr>w_step := Suc (w_step w), w_trace := w_trace w @ [Called c r]\<rparr>))"

definition run_closure ::
  "(nat \<Rightarrow> branch_result \<times> string) \<Rightarrow> branch_call \<Rightarrow> (branch_result \<times> string) prog" where
  "run_closure f c = State (\<lambda>w.
     let r = f (w_step w)
     in (r, w\<lparr>w_step := Suc (w_step w), w_trace := w_trace w @ [Called c (fst r)]\<rparr>))"

definition emit :: "event \<Rightarrow> unit prog" where
  "emit e = State (\<lambda>w. ((), w\<lparr>w_trace := w_trace w @ [e]\<rparr>))"

abbreviation ret :: "'a \<Rightarrow> 'a prog" where
  "ret \<equiv> State_Monad.return"

text \<open>A loop runs with fuel; the termination theorems say how much is enough.\<close>

datatype outcome = Done | Out_of_fuel

section \<open>Reasoning about programs\<close>

text \<open>
  \<open>triple P m Q\<close>: from a world with \<open>P\<close>, the program ends in a world and with a result that
  satisfy \<open>Q\<close>. \<open>keeps\<close> is the special case of an invariant.
\<close>

definition triple :: "(world \<Rightarrow> bool) \<Rightarrow> 'a prog \<Rightarrow> ('a \<Rightarrow> world \<Rightarrow> bool) \<Rightarrow> bool" where
  "triple P m Q \<longleftrightarrow> (\<forall>w. P w \<longrightarrow> Q (fst (run_state m w)) (snd (run_state m w)))"

definition keeps :: "(world \<Rightarrow> bool) \<Rightarrow> 'a prog \<Rightarrow> bool" where
  "keeps I m \<longleftrightarrow> triple I m (\<lambda>_. I)"

named_theorems keeps_intro \<open>structural rules for invariants of programs\<close>

lemma tripleI: "(\<And>w. P w \<Longrightarrow> Q (fst (run_state m w)) (snd (run_state m w))) \<Longrightarrow> triple P m Q"
  by (simp add: triple_def)

lemma tripleD: "triple P m Q \<Longrightarrow> P w \<Longrightarrow> Q (fst (run_state m w)) (snd (run_state m w))"
  by (simp add: triple_def)

lemma triple_return: "(\<And>w. P w \<Longrightarrow> Q x w) \<Longrightarrow> triple P (ret x) Q"
  by (simp add: triple_def)

lemma triple_bind:
  assumes "triple P m R" "\<And>x. triple (R x) (f x) Q"
  shows "triple P (State_Monad.bind m f) Q"
proof (rule tripleI)
  fix w assume "P w"
  from tripleD [OF assms(1) this] tripleD [OF assms(2)]
  show "Q (fst (run_state (State_Monad.bind m f) w)) (snd (run_state (State_Monad.bind m f) w))"
    by (simp add: split_beta)
qed

lemma triple_conseq:
  assumes "triple P' m Q'" "\<And>w. P w \<Longrightarrow> P' w" "\<And>r w. Q' r w \<Longrightarrow> Q r w"
  shows "triple P m Q"
  using assms by (simp add: triple_def)

lemma triple_conj:
  "triple P m Q \<Longrightarrow> triple P' m Q' \<Longrightarrow> triple (\<lambda>w. P w \<and> P' w) m (\<lambda>r w. Q r w \<and> Q' r w)"
  by (simp add: triple_def)

lemma keepsD: "keeps I m \<Longrightarrow> I w \<Longrightarrow> I (snd (run_state m w))"
  unfolding keeps_def by (rule tripleD)

lemma keeps_return [keeps_intro]: "keeps I (ret x)"
  unfolding keeps_def by (rule triple_return)

lemma keeps_bind [keeps_intro]:
  "keeps I m \<Longrightarrow> (\<And>x. keeps I (f x)) \<Longrightarrow> keeps I (State_Monad.bind m f)"
  unfolding keeps_def by (rule triple_bind)

lemma keeps_if [keeps_intro]:
  "(b \<Longrightarrow> keeps I m) \<Longrightarrow> (\<not> b \<Longrightarrow> keeps I n) \<Longrightarrow> keeps I (if b then m else n)"
  by simp

lemma keeps_option [keeps_intro]:
  "(x = None \<Longrightarrow> keeps I m) \<Longrightarrow> (\<And>y. x = Some y \<Longrightarrow> keeps I (f y)) \<Longrightarrow>
   keeps I (case x of None \<Rightarrow> m | Some y \<Rightarrow> f y)"
  by (cases x) auto

lemma keeps_result [keeps_intro]:
  "keeps I m1 \<Longrightarrow> keeps I m2 \<Longrightarrow> keeps I m3 \<Longrightarrow> keeps I m4 \<Longrightarrow>
   keeps I (case x of Success \<Rightarrow> m1 | Failure \<Rightarrow> m2 | Ongoing \<Rightarrow> m3 | Unknown \<Rightarrow> m4)"
  by (cases x) auto

lemma keeps_prod [keeps_intro]:
  "(\<And>a b. x = (a, b) \<Longrightarrow> keeps I (f a b)) \<Longrightarrow> keeps I (case x of (a, b) \<Rightarrow> f a b)"
  by (cases x) auto

lemma keeps_sum [keeps_intro]:
  "(\<And>a. x = Inl a \<Longrightarrow> keeps I (f a)) \<Longrightarrow> (\<And>b. x = Inr b \<Longrightarrow> keeps I (g b)) \<Longrightarrow>
   keeps I (case x of Inl a \<Rightarrow> f a | Inr b \<Rightarrow> g b)"
  by (cases x) auto

text \<open>An invariant of the store alone, kept by the others and by the access.\<close>

lemma keeps_access:
  assumes "\<And>w. I w \<Longrightarrow> I (w\<lparr>w_store := snd (f (e_others env (w_step w) (w_store w))),
    w_step := Suc (w_step w)\<rparr>)"
  shows "keeps I (access env f)"
  using assms by (auto simp: keeps_def triple_def access_def Let_def split_beta)

lemma keeps_execute:
  assumes "\<And>w. I w \<Longrightarrow> I (w\<lparr>w_store := f (e_others env (w_step w) (w_store w)),
    w_step := Suc (w_step w)\<rparr>)"
  shows "keeps I (execute env f)"
  unfolding execute_def by (rule keeps_access) (simp add: assms)

lemma keeps_observe:
  assumes "\<And>w. I w \<Longrightarrow> I (w\<lparr>w_store := e_others env (w_step w) (w_store w),
    w_step := Suc (w_step w)\<rparr>)"
  shows "keeps I (observe env f)"
  unfolding observe_def by (rule keeps_access) (simp add: assms)

lemma run_access [simp]:
  "run_state (access env f) w =
     (fst (f (e_others env (w_step w) (w_store w))),
      w\<lparr>w_store := snd (f (e_others env (w_step w) (w_store w))), w_step := Suc (w_step w)\<rparr>)"
  by (simp add: access_def Let_def split_beta)

lemma run_execute [simp]:
  "run_state (execute env f) w =
     ((), w\<lparr>w_store := f (e_others env (w_step w) (w_store w)), w_step := Suc (w_step w)\<rparr>)"
  by (simp add: execute_def)

lemma run_observe [simp]:
  "run_state (observe env f) w =
     (f (e_others env (w_step w) (w_store w)),
      w\<lparr>w_store := e_others env (w_step w) (w_store w), w_step := Suc (w_step w)\<rparr>)"
  by (simp add: observe_def)

lemma run_answer_of [simp]:
  "run_state (answer_of f c) w =
     (f (w_step w) c, w\<lparr>w_step := Suc (w_step w), w_trace := w_trace w @ [Called c (f (w_step w) c)]\<rparr>)"
  by (simp add: answer_of_def Let_def)

lemma run_run_closure [simp]:
  "run_state (run_closure f c) w =
     (f (w_step w), w\<lparr>w_step := Suc (w_step w), w_trace := w_trace w @ [Called c (fst (f (w_step w)))]\<rparr>)"
  by (simp add: run_closure_def Let_def)

lemma run_emit [simp]: "run_state (emit e) w = ((), w\<lparr>w_trace := w_trace w @ [e]\<rparr>)"
  by (simp add: emit_def)

section \<open>Rely and guarantee\<close>

text \<open>
  \<open>rely env\<close>: the others change the store only as coordinator operations do. A program
  \<open>respects\<close> the relation if its own accesses do too, for a transaction of a given mode.
\<close>

definition rely :: "environment \<Rightarrow> bool" where
  "rely env \<longleftrightarrow> (\<forall>n s. evolves s (e_others env n s))"

text \<open>The environment in which nobody else acts and no branch can be reached.\<close>

definition quiet :: environment where
  "quiet =
     \<lparr>e_others = \<lambda>n s. s, e_http = \<lambda>n c. None, e_grpc = \<lambda>n t c. None, e_local = registry_new,
      e_joined = \<lambda>n rs. rs\<rparr>"

lemma quiet_simps [simp]:
  "e_others quiet = (\<lambda>n s. s)" "e_http quiet = (\<lambda>n c. None)" "e_grpc quiet = (\<lambda>n t c. None)"
  "e_local quiet = registry_new" "e_joined quiet = (\<lambda>n rs. rs)"
  by (simp_all add: quiet_def)

lemma rely_unchanged: "e_others env = (\<lambda>n s. s) \<Longrightarrow> rely env"
  by (simp add: rely_def)

text \<open>Small concrete states, for applying theorems.\<close>

definition world_of :: "store \<Rightarrow> world" where
  "world_of s = \<lparr>w_store = s, w_step = 0, w_trace = []\<rparr>"

definition empty_store :: "int \<Rightarrow> store" where
  "empty_store t =
     \<lparr>st_backend = Sqlite, st_clock = t, st_global = [], st_branch = [], st_topic = [], st_token = []\<rparr>"

definition one_txn :: "int \<Rightarrow> trans_type \<Rightarrow> global_status \<Rightarrow> store" where
  "one_txn t tt st = (empty_store t)\<lparr>st_global := [global_init t ''g'' tt st ''[]'']\<rparr>"

lemma one_txn_simps [simp]:
  "get_global ''g'' (one_txn t tt st) = Some (global_init t ''g'' tt st ''[]'')"
  "store_ok (one_txn t tt st)" "st_branch (one_txn t tt st) = []" "st_clock (one_txn t tt st) = t"
  "st_global (one_txn t tt st) = [global_init t ''g'' tt st ''[]'']"
  by (simp_all add: one_txn_def empty_store_def get_global_def row_at_Cons global_init_def
      store_ok_def keyed_def)

lemma world_of_simps [simp]:
  "w_store (world_of s) = s" "w_step (world_of s) = 0" "w_trace (world_of s) = []"
  by (simp_all add: world_of_def)

definition txn_inv :: "store \<Rightarrow> string \<Rightarrow> trans_type \<Rightarrow> world \<Rightarrow> bool" where
  "txn_inv s0 gid tt w \<longleftrightarrow>
     evolves s0 (w_store w) \<and> store_ok (w_store w) \<and>
     (\<exists>g. get_global gid (w_store w) = Some g \<and> g_trans_type g = tt)"

lemma txn_inv_evolves:
  assumes "txn_inv s0 gid tt w" "evolves (w_store w) s"
  shows "txn_inv s0 gid tt (w\<lparr>w_store := s, w_step := n\<rparr>)"
  using assms evolves_trans [of s0 "w_store w" s] evolves_ok [of "w_store w" s]
  by (auto simp: txn_inv_def row_evolves_def elim!: evolves_status)

lemma txn_inv_trace [simp]:
  "txn_inv s0 gid tt (w\<lparr>w_step := n, w_trace := tr\<rparr>) = txn_inv s0 gid tt w"
  "txn_inv s0 gid tt (w\<lparr>w_trace := tr\<rparr>) = txn_inv s0 gid tt w"
  "txn_inv s0 gid tt (w\<lparr>w_step := n\<rparr>) = txn_inv s0 gid tt w"
  by (simp_all add: txn_inv_def)

lemma keeps_txn_access:
  assumes "rely env"
    and "\<And>s g. store_ok s \<Longrightarrow> get_global gid s = Some g \<Longrightarrow> g_trans_type g = tt \<Longrightarrow>
      evolves s (snd (f s))"
  shows "keeps (txn_inv s0 gid tt) (access env f)"
proof (rule keeps_access)
  fix w assume I: "txn_inv s0 gid tt w"
  let ?s = "e_others env (w_step w) (w_store w)"
  have e: "evolves (w_store w) ?s" using assms(1) by (simp add: rely_def)
  from txn_inv_evolves [OF I e, of 0] have "store_ok ?s"
    and "\<exists>g. get_global gid ?s = Some g \<and> g_trans_type g = tt"
    by (auto simp: txn_inv_def)
  with assms(2) have "evolves ?s (snd (f ?s))" by auto
  with e have "evolves (w_store w) (snd (f ?s))" by (rule evolves_trans)
  with I show "txn_inv s0 gid tt (w\<lparr>w_store := snd (f ?s), w_step := Suc (w_step w)\<rparr>)"
    by (rule txn_inv_evolves)
qed

lemma keeps_txn_execute:
  assumes "rely env"
    and "\<And>s g. store_ok s \<Longrightarrow> get_global gid s = Some g \<Longrightarrow> g_trans_type g = tt \<Longrightarrow>
      evolves s (f s)"
  shows "keeps (txn_inv s0 gid tt) (execute env f)"
  unfolding execute_def by (rule keeps_txn_access) (use assms in simp_all)

lemma keeps_txn_observe: "rely env \<Longrightarrow> keeps (txn_inv s0 gid tt) (observe env f)"
  unfolding observe_def by (rule keeps_txn_access) simp_all

lemma keeps_txn_answer: "keeps (txn_inv s0 gid tt) (answer_of f c)"
  by (auto simp: keeps_def triple_def)

lemma keeps_txn_closure: "keeps (txn_inv s0 gid tt) (run_closure f c)"
  by (auto simp: keeps_def triple_def)

lemma keeps_txn_emit: "keeps (txn_inv s0 gid tt) (emit e)"
  by (auto simp: keeps_def triple_def)

lemmas keeps_txn = keeps_txn_observe keeps_txn_answer keeps_txn_emit keeps_txn_closure

end
