(* ===== verification/Workflow.thy ===== *)
theory Workflow
  imports Exec
begin

text \<open>
  Workflows (\<^verbatim>\<open>crates/dtmrs-server/src/workflow.rs\<close>): the user's function is run from its start
  each time, a branch that has succeeded gives back its stored result, and the others are
  registered and executed. A function is modelled by what it can do: return, or open a branch
  and continue with the branch's result, success or error, in any way.
\<close>

datatype wf_error =
    Wf_rollback string
  | Wf_retry string
  | Wf_diverged string string string
  | Wf_internal store_error

datatype wf_body =
    Wf_return "wf_error + unit"
  | Wf_branch string "string option" "nat \<Rightarrow> branch_result \<times> string" "wf_error + string \<Rightarrow> wf_body"

text \<open>The context a run starts with: its gid, its input and the branches recorded so far.\<close>

record wf_ctx =
  x_gid :: string
  x_input :: string
  x_seq :: nat
  x_recorded :: "branch_row list"

definition wf_ctx_new :: "string \<Rightarrow> string \<Rightarrow> branch_row list \<Rightarrow> wf_ctx" where
  "wf_ctx_new gid input rows =
     \<lparr>x_gid = gid, x_input = input, x_seq = 0,
      x_recorded = filter (\<lambda>r. b_op r = Action) rows\<rparr>"

text \<open>Collecting into a map keeps the last row of a branch.\<close>

definition recorded :: "wf_ctx \<Rightarrow> string \<Rightarrow> branch_row option" where
  "recorded ctx bid = find (\<lambda>r. b_branch_id r = bid) (rev (x_recorded ctx))"

text \<open>The texts \<open>format!("...{bid}...{name}...")\<close>, as UTF-8.\<close>

definition wf_failure_text :: "string \<Rightarrow> string \<Rightarrow> string" where
  "wf_failure_text bid name =
     utf8 [229, 136, 134, 230, 148, 175, 32] @ bid @ utf8 [239, 188, 136] @ name @
     utf8 [239, 188, 137, 232, 191, 148, 229, 155, 158, 32, 70, 65, 73, 76, 85, 82, 69]"

definition wf_unknown_text :: "string \<Rightarrow> string \<Rightarrow> string" where
  "wf_unknown_text bid name =
     utf8 [229, 136, 134, 230, 148, 175, 32] @ bid @ utf8 [239, 188, 136] @ name @
     utf8 [239, 188, 137, 231, 187, 147, 230, 158, 156, 230, 156, 170, 231, 159, 165, 230, 136,
           150, 229, 164, 132, 231, 144, 134, 228, 184, 173]"

definition wf_ops :: "string \<Rightarrow> string option \<Rightarrow> (branch_op \<times> string) list" where
  "wf_ops name compensate =
     (case compensate of None \<Rightarrow> [] | Some c \<Rightarrow> [(Compensate, c)]) @ [(Action, name)]"

definition wf_call :: "string \<Rightarrow> string \<Rightarrow> string \<Rightarrow> branch_call" where
  "wf_call gid bid name =
     \<lparr>c_gid = gid, c_trans_type = Workflow, c_branch_id = bid, c_op = Action, c_url = name,
      c_payload = []\<rparr>"

definition execute_branch ::
  "environment \<Rightarrow> string \<Rightarrow> string \<Rightarrow> string \<Rightarrow> string option \<Rightarrow>
   (nat \<Rightarrow> branch_result \<times> string) \<Rightarrow> (wf_error + string) prog" where
  "execute_branch env gid bid name compensate f = do {
     reg \<leftarrow> access env (register_branch gid bid (wf_ops name compensate));
     case reg of
       Inl e \<Rightarrow> ret (Inl (Wf_internal e))
     | Inr _ \<Rightarrow> do {
         rd \<leftarrow> run_closure f (wf_call gid bid name);
         case fst rd of
           Success \<Rightarrow> do {
             saved \<leftarrow> access env (set_branch_result gid bid Action BSucceed (snd rd));
             case saved of
               Inl e \<Rightarrow> ret (Inl (Wf_internal e))
             | Inr _ \<Rightarrow> ret (Inr (snd rd))
           }
         | Failure \<Rightarrow> do {
             execute env (set_branch_status gid bid Action BFailed);
             ret (Inl (Wf_rollback (wf_failure_text bid name)))
           }
         | Ongoing \<Rightarrow> ret (Inl (Wf_retry (wf_unknown_text bid name)))
         | Unknown \<Rightarrow> ret (Inl (Wf_retry (wf_unknown_text bid name)))
       }
   }"

definition run_with ::
  "environment \<Rightarrow> wf_ctx \<Rightarrow> string \<Rightarrow> string option \<Rightarrow> (nat \<Rightarrow> branch_result \<times> string) \<Rightarrow>
   (wf_error + string) prog" where
  "run_with env ctx name compensate f =
     (let bid = branch_id (x_seq ctx); gid = x_gid ctx
      in case recorded ctx bid of
           Some row \<Rightarrow>
             if b_url row \<noteq> name then ret (Inl (Wf_diverged bid (b_url row) name))
             else if b_status row = BSucceed then ret (Inr (b_payload row))
             else execute_branch env gid bid name compensate f
         | None \<Rightarrow> execute_branch env gid bid name compensate f)"

text \<open>\<open>run\<close>: a branch without result data.\<close>

definition run_unit ::
  "environment \<Rightarrow> wf_ctx \<Rightarrow> string \<Rightarrow> string option \<Rightarrow> (nat \<Rightarrow> branch_result) \<Rightarrow>
   (wf_error + unit) prog" where
  "run_unit env ctx name compensate f = do {
     r \<leftarrow> run_with env ctx name compensate (\<lambda>n. (f n, []));
     ret (case r of Inl e \<Rightarrow> Inl e | Inr _ \<Rightarrow> Inr ())
   }"

primrec run_wf :: "wf_body \<Rightarrow> environment \<Rightarrow> wf_ctx \<Rightarrow> (wf_error + unit) prog" where
  "run_wf (Wf_return r) env ctx = ret r"
| "run_wf (Wf_branch name compensate f k) env ctx =
     State_Monad.bind (run_with env ctx name compensate f)
       (\<lambda>r. run_wf (k r) env (ctx\<lparr>x_seq := Suc (x_seq ctx)\<rparr>))"

type_synonym wf_registry = "string \<Rightarrow> (string \<Rightarrow> string \<Rightarrow> wf_body) option"

definition encode_payload :: "json \<Rightarrow> string \<Rightarrow> string \<Rightarrow> string" where
  "encode_payload js name input = js_of_workflow js name input"

definition decode_payload :: "json \<Rightarrow> string \<Rightarrow> string \<times> string" where
  "decode_payload js payload =
     (case js_workflow js payload of
        None \<Rightarrow> ([], [])
      | Some (name, input) \<Rightarrow>
          (case name of None \<Rightarrow> [] | Some n \<Rightarrow> n, case input of None \<Rightarrow> [] | Some i \<Rightarrow> i))"

section \<open>Memoisation\<close>

lemma run_with_memo:
  assumes "recorded ctx (branch_id (x_seq ctx)) = Some row" "b_url row = name" "b_status row = BSucceed"
  shows "run_with env ctx name compensate f = ret (Inr (b_payload row))"
  using assms by (simp add: run_with_def Let_def)

lemma run_with_diverged:
  assumes "recorded ctx (branch_id (x_seq ctx)) = Some row" "b_url row \<noteq> name"
  shows "run_with env ctx name compensate f =
    ret (Inl (Wf_diverged (branch_id (x_seq ctx)) (b_url row) name))"
  using assms by (simp add: run_with_def Let_def)

lemma run_with_execute:
  assumes "recorded ctx (branch_id (x_seq ctx)) = None \<or>
    (\<exists>row. recorded ctx (branch_id (x_seq ctx)) = Some row \<and> b_url row = name \<and> b_status row \<noteq> BSucceed)"
  shows "run_with env ctx name compensate f =
    execute_branch env (x_gid ctx) (branch_id (x_seq ctx)) name compensate f"
  using assms by (auto simp: run_with_def Let_def)

section \<open>A run keeps the life cycle\<close>

lemma keeps_execute_branch:
  assumes "rely env"
  shows "keeps (txn_inv s0 gid tt) (execute_branch env gid' bid name compensate f)"
  unfolding execute_branch_def register_branch_def
  by (intro keeps_intro keeps_txn keeps_txn_access [OF assms] keeps_txn_execute [OF assms]
      keeps_sum evolves_ops)

lemma keeps_run_with:
  "rely env \<Longrightarrow> keeps (txn_inv s0 gid tt) (run_with env ctx name compensate f)"
  unfolding run_with_def Let_def
  by (intro keeps_intro keeps_execute_branch)

lemma keeps_run_wf: "rely env \<Longrightarrow> keeps (txn_inv s0 gid tt) (run_wf body env ctx)"
proof (induction body arbitrary: ctx)
  case (Wf_return r)
  then show ?case by (simp add: keeps_return)
next
  case (Wf_branch name compensate f k)
  then show ?case by (auto intro!: keeps_bind keeps_run_with)
qed

end
