(* ===== verification/Driver.thy ===== *)
theory Driver
  imports Workflow
begin

text \<open>
  The driver (\<^verbatim>\<open>crates/dtmrs-server/src/driver.rs\<close>): it leases a due transaction and carries
  out what the state machines of \<open>Advance\<close> decide, one handler per mode. Every status is
  written by comparison, and a lost comparison ends the round. Loops run with fuel. A group of
  branches of one step is called in the order of its indices and its answers are recorded in
  any order (\<open>e_joined\<close>); a panicking in-process branch is not modelled.
\<close>

section \<open>Configuration\<close>

record driver_config =
  cf_branch_timeout_secs :: int
  cf_lease_secs :: int
  cf_retry :: retry_policy
  cf_workers :: nat

definition driver_config_default :: driver_config where
  "driver_config_default =
     \<lparr>cf_branch_timeout_secs = 10, cf_lease_secs = 30, cf_retry = retry_policy_default,
      cf_workers = 16\<rparr>"

definition driver_config_from_env :: "(string \<Rightarrow> string option) \<Rightarrow> driver_config" where
  "driver_config_from_env env =
     (let d = driver_config_default
      in \<lparr>cf_branch_timeout_secs = env_pos env ''DTMRS_BRANCH_TIMEOUT'' (cf_branch_timeout_secs d),
          cf_lease_secs = env_pos env ''DTMRS_LEASE'' (cf_lease_secs d),
          cf_retry = retry_policy_from_env env,
          cf_workers = nat (env_pos env ''DTMRS_WORKERS'' (int (cf_workers d)))\<rparr>)"

record driver =
  dr_owner :: string
  dr_lease :: int
  dr_retry :: retry_policy
  dr_branch_timeout_secs :: nat
  dr_workers :: nat
  dr_alert :: "alert_config option"
  dr_workflows :: wf_registry
  dr_json :: json
  dr_timeout_default :: int

text \<open>
  The JSON functions and the default prepared timeout, which the process reads once from its
  environment, are fields here; the HTTP and gRPC clients are in the \<open>environment\<close>.
\<close>

definition with_config :: "json \<Rightarrow> int \<Rightarrow> string \<Rightarrow> driver_config \<Rightarrow> driver" where
  "with_config js dflt owner cfg =
     \<lparr>dr_owner = owner, dr_lease = cf_lease_secs cfg, dr_retry = cf_retry cfg,
      dr_branch_timeout_secs = nat (max (cf_branch_timeout_secs cfg) 1),
      dr_workers = max (cf_workers cfg) 1, dr_alert = None, dr_workflows = registry_new,
      dr_json = js, dr_timeout_default = dflt\<rparr>"

section \<open>Reading the branch rows\<close>

definition branch_states :: "branch_row list \<Rightarrow> nat \<Rightarrow> branch_status list \<times> branch_status list" where
  "branch_states rows n =
     fold (\<lambda>r (actions, compensates).
       case index_of (b_branch_id r) of
         None \<Rightarrow> (actions, compensates)
       | Some i \<Rightarrow>
           if n \<le> i then (actions, compensates)
           else (case b_op r of
               Action \<Rightarrow> (actions[i := b_status r], compensates)
             | Try \<Rightarrow> (actions[i := b_status r], compensates)
             | Compensate \<Rightarrow> (actions, compensates[i := b_status r])
             | Cancel \<Rightarrow> (actions, compensates[i := b_status r])
             | Rollback \<Rightarrow> (actions, compensates[i := b_status r])
             | _ \<Rightarrow> (actions, compensates)))
       rows (replicate n BPrepared, replicate n BPrepared)"

definition split_by_op ::
  "branch_row list \<Rightarrow> nat \<Rightarrow> branch_op \<Rightarrow> branch_op \<Rightarrow> branch_status list \<times> branch_status list" where
  "split_by_op rows n fwd bwd =
     fold (\<lambda>r (a, b).
       case index_of (b_branch_id r) of
         None \<Rightarrow> (a, b)
       | Some i \<Rightarrow>
           if n \<le> i then (a, b)
           else if b_op r = fwd then (a[i := b_status r], b)
           else if b_op r = bwd then (a, b[i := b_status r])
           else (a, b))
       rows (replicate n BPrepared, replicate n BPrepared)"

text \<open>\<open>max().map(|m| m + 1).unwrap_or(0)\<close> over the indices that parse.\<close>

definition index_bound :: "branch_row list \<Rightarrow> nat" where
  "index_bound rows =
     fold (\<lambda>i m. max (i + 1) m) (List.map_filter (\<lambda>r. index_of (b_branch_id r)) rows) 0"

definition compensate_states :: "branch_row list \<Rightarrow> branch_status list" where
  "compensate_states rows =
     (let cs = filter (\<lambda>r. b_op r = Compensate) rows; n = index_bound cs
      in fold (\<lambda>r v. case index_of (b_branch_id r) of
                None \<Rightarrow> v
              | Some i \<Rightarrow> if i < n then v[i := b_status r] else v)
           cs (replicate n BSucceed))"

definition find_branch :: "branch_row list \<Rightarrow> string \<Rightarrow> branch_op \<Rightarrow> branch_row option" where
  "find_branch rows bid op = find (\<lambda>r. b_branch_id r = bid \<and> b_op r = op) rows"

definition payload_of :: "branch_row list \<Rightarrow> string \<Rightarrow> branch_op \<Rightarrow> string" where
  "payload_of rows bid op = (case find_branch rows bid op of None \<Rightarrow> [] | Some r \<Rightarrow> b_payload r)"

definition url_of :: "branch_row list \<Rightarrow> string \<Rightarrow> branch_op \<Rightarrow> string option" where
  "url_of rows bid op = map_option b_url (find_branch rows bid op)"

definition branch_payload :: "string \<Rightarrow> string" where
  "branch_payload step_payload = (if trim step_payload = [] then ''{}'' else step_payload)"

section \<open>Calling a branch\<close>

definition mk_call :: "global_row \<Rightarrow> string \<Rightarrow> branch_op \<Rightarrow> string \<Rightarrow> string \<Rightarrow> branch_call" where
  "mk_call g bid op url payload =
     \<lparr>c_gid = g_gid g, c_trans_type = g_trans_type g, c_branch_id = bid, c_op = op, c_url = url,
      c_payload = payload\<rparr>"

definition call_local ::
  "environment \<Rightarrow> global_row \<Rightarrow> string \<Rightarrow> branch_op \<Rightarrow> string \<Rightarrow> string \<Rightarrow> branch_result prog" where
  "call_local env g bid op name payload =
     (case registry_get (e_local env) name of
        None \<Rightarrow> ret Unknown
      | Some h \<Rightarrow> answer_of h (mk_call g bid op (''local://'' @ name) payload))"

definition call_http ::
  "environment \<Rightarrow> global_row \<Rightarrow> string \<Rightarrow> branch_op \<Rightarrow> string \<Rightarrow> string \<Rightarrow> branch_result prog" where
  "call_http env g bid op url payload =
     answer_of (\<lambda>n c. case e_http env n c of
         None \<Rightarrow> Unknown
       | Some (code, body) \<Rightarrow> from_http code body)
       (mk_call g bid op url (branch_payload payload))"

text \<open>The gRPC caller sends no body; no connection, or an address it refuses, is unknown.\<close>

definition call_grpc ::
  "environment \<Rightarrow> global_row \<Rightarrow> string \<Rightarrow> branch_op \<Rightarrow> string \<Rightarrow> grpc_target \<Rightarrow> branch_result prog" where
  "call_grpc env g bid op url t =
     answer_of (\<lambda>n c. case e_grpc env n t c of
         None \<Rightarrow> Unknown
       | Some code \<Rightarrow> from_grpc code)
       (mk_call g bid op url [])"

definition call_branch ::
  "environment \<Rightarrow> global_row \<Rightarrow> string \<Rightarrow> branch_op \<Rightarrow> string \<Rightarrow> string \<Rightarrow> branch_result prog" where
  "call_branch env g bid op url payload =
     (case parse_target url of
        Local name \<Rightarrow> call_local env g bid op name payload
      | Http u \<Rightarrow> call_http env g bid op u payload
      | Grpc t \<Rightarrow> call_grpc env g bid op url t)"

section \<open>Ending a round\<close>

definition pending_of :: "branch_row list \<Rightarrow> pending_branch list" where
  "pending_of rows =
     map (\<lambda>r. \<lparr>pb_branch_id = b_branch_id r, pb_op = branch_op_str (b_op r), pb_url = b_url r\<rparr>)
       (filter (\<lambda>r. b_status r \<noteq> BSucceed) rows)"

definition retry_later :: "environment \<Rightarrow> driver \<Rightarrow> global_row \<Rightarrow> unit prog" where
  "retry_later env d g = do {
     execute env (release_lease (g_gid g) (g_lease_until g)
       (next_interval_with (g_next_cron_interval g) (dr_retry d)));
     case dr_alert d of
       None \<Rightarrow> ret ()
     | Some a \<Rightarrow>
         if should_fire a (g_retry_count g + 1) then do {
           rows \<leftarrow> observe env (list_branches (g_gid g));
           emit (Alerted \<lparr>al_gid = g_gid g, al_trans_type = trans_type_str (g_trans_type g),
             al_status = global_status_str (g_status g), al_retry_count = g_retry_count g + 1,
             al_rollback_reason = g_rollback_reason g, al_pending = pending_of rows\<rparr>)
         }
         else ret ()
   }"

definition drv_transition ::
  "environment \<Rightarrow> global_row \<Rightarrow> global_status \<Rightarrow> global_status \<Rightarrow> string \<Rightarrow> bool prog" where
  "drv_transition env g from_st to_st reason =
     (if from_st = to_st then ret True
      else do {
        ok \<leftarrow> access env (transition (g_gid g) from_st to_st (g_trans_type g) reason);
        emit (Status from_st to_st ok);
        if ok then ret True
        else do {
          execute env (release_lease (g_gid g) (g_lease_until g) 0);
          ret False
        }
      })"

section \<open>SAGA\<close>

definition saga_failed_text :: string where
  "saga_failed_text = utf8 [229, 136, 134, 230, 148, 175, 229, 183, 178, 229, 136, 164, 229, 164,
     177, 232, 180, 165]"

definition saga_failure_text :: "string \<Rightarrow> string" where
  "saga_failure_text bid =
     utf8 [229, 136, 134, 230, 148, 175, 32] @ bid @
     utf8 [32, 232, 191, 148, 229, 155, 158, 32, 70, 65, 73, 76, 85, 82, 69]"

text \<open>What one call of a saga branch leads to: the status to go on with, or the end of the round.\<close>

definition saga_call ::
  "environment \<Rightarrow> driver \<Rightarrow> global_row \<Rightarrow> saga_step list \<Rightarrow> global_status \<Rightarrow> nat \<Rightarrow> branch_op \<Rightarrow>
   global_status option prog" where
  "saga_call env d g steps status index op = do {
     let bid = branch_id index;
     let step = steps ! index;
     let url = (if op = Action then s_action step else s_compensate step);
     r \<leftarrow> call_branch env g bid op url (s_payload step);
     case r of
       Success \<Rightarrow> do {
         execute env (set_branch_status (g_gid g) bid op BSucceed);
         ret (Some status)
       }
     | Failure \<Rightarrow> do {
         execute env (set_branch_status (g_gid g) bid op BFailed);
         if op = Action then do {
           ok \<leftarrow> drv_transition env g status GAborting (saga_failure_text bid);
           ret (if ok then Some GAborting else None)
         }
         else do { retry_later env d g; ret None }
       }
     | Ongoing \<Rightarrow> do { retry_later env d g; ret None }
     | Unknown \<Rightarrow> do { retry_later env d g; ret None }
   }"

primrec saga_loop ::
  "nat \<Rightarrow> environment \<Rightarrow> driver \<Rightarrow> global_row \<Rightarrow> saga_step list \<Rightarrow> global_status \<Rightarrow> outcome prog" where
  "saga_loop 0 env d g steps status = ret Out_of_fuel"
| "saga_loop (Suc fuel) env d g steps status = do {
     rows \<leftarrow> observe env (list_branches (g_gid g));
     case saga_advance status (fst (branch_states rows (length steps)))
            (snd (branch_states rows (length steps))) of
       Finish s \<Rightarrow>
         if s = GAborting then do {
           ok \<leftarrow> drv_transition env g status s saga_failed_text;
           if ok then saga_loop fuel env d g steps s else ret Done
         }
         else do { drv_transition env g status s []; ret Done }
     | Wait \<Rightarrow> ret Done
     | RunWorkflow \<Rightarrow> ret Done
     | CallEach is op \<Rightarrow> ret Done
     | Call index op \<Rightarrow> do {
         next \<leftarrow> saga_call env d g steps status index op;
         case next of None \<Rightarrow> ret Done | Some s \<Rightarrow> saga_loop fuel env d g steps s
       }
   }"

definition process_saga :: "nat \<Rightarrow> environment \<Rightarrow> driver \<Rightarrow> global_row \<Rightarrow> outcome prog" where
  "process_saga fuel env d g =
     (let steps = or_default (js_steps (dr_json d) (g_payload g))
      in if steps = [] then do { drv_transition env g (g_status g) GSucceed []; ret Done }
         else saga_loop fuel env d g steps (g_status g))"

section \<open>TCC and XA\<close>

definition two_phase_call ::
  "environment \<Rightarrow> driver \<Rightarrow> global_row \<Rightarrow> branch_row list \<Rightarrow> nat \<Rightarrow> branch_op \<Rightarrow> bool prog" where
  "two_phase_call env d g rows index op = do {
     let bid = branch_id index;
     case url_of rows bid op of
       None \<Rightarrow> do { retry_later env d g; ret False }
     | Some url \<Rightarrow> do {
         r \<leftarrow> call_branch env g bid op url (payload_of rows bid op);
         case r of
           Success \<Rightarrow> do {
             execute env (set_branch_status (g_gid g) bid op BSucceed);
             ret True
           }
         | Failure \<Rightarrow> do {
             execute env (set_branch_status (g_gid g) bid op BFailed);
             retry_later env d g;
             ret False
           }
         | Ongoing \<Rightarrow> do { retry_later env d g; ret False }
         | Unknown \<Rightarrow> do { retry_later env d g; ret False }
       }
   }"

primrec two_phase_loop ::
  "nat \<Rightarrow> environment \<Rightarrow> driver \<Rightarrow> global_row \<Rightarrow> nat \<Rightarrow> branch_op \<Rightarrow> branch_op \<Rightarrow> outcome prog" where
  "two_phase_loop 0 env d g n fwd bwd = ret Out_of_fuel"
| "two_phase_loop (Suc fuel) env d g n fwd bwd = do {
     rows \<leftarrow> observe env (list_branches (g_gid g));
     case (if fwd = Commit then xa_advance else tcc_advance) (g_status g)
            (fst (split_by_op rows n fwd bwd)) (snd (split_by_op rows n fwd bwd)) of
       Finish s \<Rightarrow> do { drv_transition env g (g_status g) s []; ret Done }
     | Wait \<Rightarrow> ret Done
     | RunWorkflow \<Rightarrow> ret Done
     | CallEach is op \<Rightarrow> ret Done
     | Call index op \<Rightarrow> do {
         go_on \<leftarrow> two_phase_call env d g rows index op;
         if go_on then two_phase_loop fuel env d g n fwd bwd else ret Done
       }
   }"

definition drive_two_phase ::
  "nat \<Rightarrow> environment \<Rightarrow> driver \<Rightarrow> global_row \<Rightarrow> branch_op \<Rightarrow> branch_op \<Rightarrow> outcome prog" where
  "drive_two_phase fuel env d g fwd bwd = do {
     rows \<leftarrow> observe env (list_branches (g_gid g));
     let n = index_bound rows;
     if n = 0 then
       (if rows \<noteq> [] then ret Done
        else do {
          drv_transition env g (g_status g)
            (if g_status g = GAborting then GFailed else GSucceed) [];
          ret Done
        })
     else two_phase_loop fuel env d g n fwd bwd
   }"

definition process_tcc :: "nat \<Rightarrow> environment \<Rightarrow> driver \<Rightarrow> global_row \<Rightarrow> outcome prog" where
  "process_tcc fuel env d g = drive_two_phase fuel env d g Confirm Cancel"

definition process_xa :: "nat \<Rightarrow> environment \<Rightarrow> driver \<Rightarrow> global_row \<Rightarrow> outcome prog" where
  "process_xa fuel env d g = drive_two_phase fuel env d g Commit Rollback"

section \<open>Two-phase message\<close>

definition msg_failed_text :: string where
  "msg_failed_text = utf8 [229, 155, 158, 230, 159, 165, 229, 190, 151, 229, 136, 176, 32, 70, 65,
     73, 76, 85, 82, 69, 239, 188, 154, 230, 156, 172, 229, 156, 176, 228, 186, 139, 229, 138,
     161, 230, 156, 170, 230, 143, 144, 228, 186, 164]"

text \<open>The status a prepared message goes on with after asking back, or the end of the round.\<close>

definition query_back ::
  "environment \<Rightarrow> driver \<Rightarrow> global_row \<Rightarrow> global_status option prog" where
  "query_back env d g =
     (if g_query_prepared g = [] then do { retry_later env d g; ret None }
      else do {
        r \<leftarrow> call_branch env g ''00'' Action (g_query_prepared g) [];
        case r of
          Success \<Rightarrow> do {
            ok \<leftarrow> drv_transition env g (g_status g) GSubmitted [];
            ret (if ok then Some GSubmitted else None)
          }
        | Failure \<Rightarrow> do {
            drv_transition env g (g_status g) GFailed msg_failed_text;
            ret None
          }
        | Ongoing \<Rightarrow> do { retry_later env d g; ret None }
        | Unknown \<Rightarrow> do { retry_later env d g; ret None }
      })"

definition msg_states :: "branch_row list \<Rightarrow> msg_branch list \<Rightarrow> branch_status list" where
  "msg_states rows branches =
     map (\<lambda>b. if \<exists>r\<in>set rows. b_op r = Action \<and> b_status r = BSucceed
                          \<and> b_branch_id r = mb_branch_id b
              then BSucceed else BPrepared) branches"

primrec call_each ::
  "environment \<Rightarrow> global_row \<Rightarrow> msg_branch list \<Rightarrow> (string \<times> branch_result) list prog" where
  "call_each env g [] = ret []"
| "call_each env g (b # bs) = do {
     r \<leftarrow> call_branch env g (mb_branch_id b) Action (mb_action b) (mb_payload b);
     rs \<leftarrow> call_each env g bs;
     ret ((mb_branch_id b, r) # rs)
   }"

primrec record_each ::
  "environment \<Rightarrow> global_row \<Rightarrow> (string \<times> branch_result) list \<Rightarrow> bool prog" where
  "record_each env g [] = ret True"
| "record_each env g (br # brs) = do {
     ok \<leftarrow> (if snd br = Success
       then do { execute env (set_branch_status (g_gid g) (fst br) Action BSucceed); ret True }
       else ret False);
     rest \<leftarrow> record_each env g brs;
     ret (ok \<and> rest)
   }"

definition joined :: "environment \<Rightarrow> (string \<times> branch_result) list \<Rightarrow> (string \<times> branch_result) list prog" where
  "joined env rs = State (\<lambda>w. (e_joined env (w_step w) rs, w))"

definition call_group ::
  "environment \<Rightarrow> driver \<Rightarrow> global_row \<Rightarrow> msg_branch list \<Rightarrow> bool prog" where
  "call_group env d g bs = do {
     rs \<leftarrow> call_each env g bs;
     rs' \<leftarrow> joined env rs;
     ok \<leftarrow> record_each env g rs';
     if ok then ret True else do { retry_later env d g; ret False }
   }"

primrec msg_loop ::
  "nat \<Rightarrow> environment \<Rightarrow> driver \<Rightarrow> global_row \<Rightarrow> msg_branch list \<Rightarrow> global_status \<Rightarrow> outcome prog" where
  "msg_loop 0 env d g branches status = ret Out_of_fuel"
| "msg_loop (Suc fuel) env d g branches status = do {
     rows \<leftarrow> observe env (list_branches (g_gid g));
     let steps = map (\<lambda>b. case mb_step b of None \<Rightarrow> 0 | Some i \<Rightarrow> i) branches;
     case msg_fanout_advance status steps (msg_states rows branches) of
       Finish s \<Rightarrow> do { drv_transition env g status s []; ret Done }
     | Wait \<Rightarrow> ret Done
     | CallEach is op \<Rightarrow> do {
         go_on \<leftarrow> call_group env d g (map (\<lambda>i. branches ! i) is);
         if go_on then msg_loop fuel env d g branches status else ret Done
       }
     | Call i op \<Rightarrow> do {
         go_on \<leftarrow> call_group env d g [branches ! i];
         if go_on then msg_loop fuel env d g branches status else ret Done
       }
     | RunWorkflow \<Rightarrow> ret Done
   }"

definition send_msg ::
  "nat \<Rightarrow> environment \<Rightarrow> driver \<Rightarrow> global_row \<Rightarrow> global_status \<Rightarrow> outcome prog" where
  "send_msg fuel env d g status =
     (let branches = fill_defaults (or_default (js_branches (dr_json d) (g_payload g)))
      in if branches = [] then do { drv_transition env g status GSucceed []; ret Done }
         else msg_loop fuel env d g branches status)"

definition process_msg :: "nat \<Rightarrow> environment \<Rightarrow> driver \<Rightarrow> global_row \<Rightarrow> outcome prog" where
  "process_msg fuel env d g =
     (if g_status g = GPrepared
      then do {
        next \<leftarrow> query_back env d g;
        case next of None \<Rightarrow> ret Done | Some s \<Rightarrow> send_msg fuel env d g s
      }
      else send_msg fuel env d g (g_status g))"

section \<open>Workflow\<close>

text \<open>One run of the user's function: the status to go on with, or the end of the round.\<close>

definition workflow_run ::
  "environment \<Rightarrow> driver \<Rightarrow> global_row \<Rightarrow> string \<Rightarrow> string \<Rightarrow> branch_row list \<Rightarrow> global_status \<Rightarrow>
   global_status option prog" where
  "workflow_run env d g name input rows status =
     (case registry_get (dr_workflows d) name of
        None \<Rightarrow> do { retry_later env d g; ret None }
      | Some f \<Rightarrow> do {
          r \<leftarrow> run_wf (f (g_gid g) input) env (wf_ctx_new (g_gid g) input rows);
          case r of
            Inr u \<Rightarrow> do { drv_transition env g status GSucceed []; ret None }
          | Inl e \<Rightarrow>
              (case e of
                 Wf_rollback reason \<Rightarrow> do {
                   ok \<leftarrow> drv_transition env g status GAborting reason;
                   ret (if ok then Some GAborting else None)
                 }
               | Wf_diverged bid recorded_name got \<Rightarrow> do { retry_later env d g; ret None }
               | Wf_retry m \<Rightarrow> do { retry_later env d g; ret None }
               | Wf_internal se \<Rightarrow> do { retry_later env d g; ret None })
        })"

definition workflow_call ::
  "environment \<Rightarrow> driver \<Rightarrow> global_row \<Rightarrow> branch_row list \<Rightarrow> nat \<Rightarrow> branch_op \<Rightarrow> bool prog" where
  "workflow_call env d g rows index op = do {
     let bid = branch_id index;
     case url_of rows bid op of
       None \<Rightarrow> do { retry_later env d g; ret False }
     | Some url \<Rightarrow> do {
         r \<leftarrow> call_branch env g bid op url (payload_of rows bid op);
         if r = Success then do {
           execute env (set_branch_status (g_gid g) bid op BSucceed);
           ret True
         }
         else do { retry_later env d g; ret False }
       }
   }"

primrec workflow_loop ::
  "nat \<Rightarrow> environment \<Rightarrow> driver \<Rightarrow> global_row \<Rightarrow> string \<Rightarrow> string \<Rightarrow> global_status \<Rightarrow> outcome prog" where
  "workflow_loop 0 env d g name input status = ret Out_of_fuel"
| "workflow_loop (Suc fuel) env d g name input status = do {
     rows \<leftarrow> observe env (list_branches (g_gid g));
     case workflow_advance status (compensate_states rows) of
       Finish s \<Rightarrow> do { drv_transition env g status s []; ret Done }
     | Wait \<Rightarrow> ret Done
     | RunWorkflow \<Rightarrow> do {
         next \<leftarrow> workflow_run env d g name input rows status;
         case next of None \<Rightarrow> ret Done | Some s \<Rightarrow> workflow_loop fuel env d g name input s
       }
     | CallEach is op \<Rightarrow> ret Done
     | Call index op \<Rightarrow> do {
         go_on \<leftarrow> workflow_call env d g rows index op;
         if go_on then workflow_loop fuel env d g name input status else ret Done
       }
   }"

definition process_workflow :: "nat \<Rightarrow> environment \<Rightarrow> driver \<Rightarrow> global_row \<Rightarrow> outcome prog" where
  "process_workflow fuel env d g =
     (let (name, input) = decode_payload (dr_json d) (g_payload g)
      in workflow_loop fuel env d g name input (g_status g))"

section \<open>One transaction, one worker\<close>

definition timeout_text :: "int \<Rightarrow> string" where
  "timeout_text secs = ''Timeout after '' @ dec (nat secs) @ '' seconds''"

text \<open>A prepared TCC or XA transaction: roll back at its deadline, or come back then.\<close>

definition process_prepared ::
  "nat \<Rightarrow> environment \<Rightarrow> driver \<Rightarrow> global_row \<Rightarrow> global_status \<Rightarrow> outcome prog" where
  "process_prepared fuel env d g to_st = do {
     t \<leftarrow> observe env st_clock;
     let deadline = prepared_deadline (g_create_time g) (g_timeout_to_fail g) (dr_timeout_default d);
     case (case deadline of None \<Rightarrow> None | Some dl \<Rightarrow> if dl \<le> t then Some dl else None) of
       None \<Rightarrow> do {
         let at = (case deadline of None \<Rightarrow> never | Some dl \<Rightarrow> dl);
         execute env (release_lease (g_gid g) (g_lease_until g) (max (at - t) 1));
         ret Done
       }
     | Some dl \<Rightarrow> do {
         let reason = timeout_text (dl - g_create_time g);
         ok \<leftarrow> drv_transition env g (g_status g) to_st reason;
         if \<not> ok then ret Done
         else
           (let g2 = g\<lparr>g_status := to_st, g_rollback_reason := reason\<rparr>
            in if g_trans_type g2 = Xa then process_xa fuel env d g2
               else process_tcc fuel env d g2)
       }
   }"

definition process :: "nat \<Rightarrow> environment \<Rightarrow> driver \<Rightarrow> global_row \<Rightarrow> outcome prog" where
  "process fuel env d g =
     (case prepared_timeout_to (g_status g) (g_trans_type g) of
        Some to_st \<Rightarrow> process_prepared fuel env d g to_st
      | None \<Rightarrow>
          (case g_trans_type g of
             Saga \<Rightarrow> process_saga fuel env d g
           | Tcc \<Rightarrow> process_tcc fuel env d g
           | Msg \<Rightarrow> process_msg fuel env d g
           | Xa \<Rightarrow> process_xa fuel env d g
           | Workflow \<Rightarrow> process_workflow fuel env d g))"

text \<open>\<open>rounds\<close> turns of a worker's loop; a turn without work ends with the sleep.\<close>

primrec worker_loop :: "nat \<Rightarrow> nat \<Rightarrow> environment \<Rightarrow> driver \<Rightarrow> unit prog" where
  "worker_loop 0 fuel env d = ret ()"
| "worker_loop (Suc rounds) fuel env d = do {
     due_row \<leftarrow> access env (lock_one_due (dr_owner d) (dr_lease d));
     case due_row of
       None \<Rightarrow> worker_loop rounds fuel env d
     | Some g \<Rightarrow> do { process fuel env d g; worker_loop rounds fuel env d }
   }"

text \<open>A driver whose payloads all decode to the given lists, for concrete runs.\<close>

definition demo_json :: "saga_step list \<Rightarrow> msg_branch list \<Rightarrow> json" where
  "demo_json steps branches =
     \<lparr>js_of_steps = \<lambda>_. ''[]'', js_steps = \<lambda>_. Some steps, js_of_branches = \<lambda>_. ''[]'',
      js_branches = \<lambda>_. Some branches, js_of_workflow = \<lambda>n i. ''{}'',
      js_workflow = \<lambda>_. Some (Some ''w'', None)\<rparr>"

definition demo_driver :: "saga_step list \<Rightarrow> msg_branch list \<Rightarrow> driver" where
  "demo_driver steps branches =
     with_config (demo_json steps branches) 35 ''tc'' driver_config_default"

end
