(* ===== verification/Driver_Guarantee.thy ===== *)
theory Driver_Guarantee
  imports Driver
begin

text \<open>
  What a worker guarantees to the others: whatever they do to the store meanwhile, as long as
  they respect the life cycle, the round it runs respects it too. The proofs follow the
  structure of the handlers; only the status writes need an argument.
\<close>

lemma keeps_outcome_advance [keeps_intro]:
  assumes "\<And>i op. x = Call i op \<Longrightarrow> keeps I (f1 i op)" "\<And>s. x = Finish s \<Longrightarrow> keeps I (f2 s)"
    and "keeps I m3" "x = RunWorkflow \<Longrightarrow> keeps I m4" "\<And>is op. x = CallEach is op \<Longrightarrow> keeps I (f5 is op)"
  shows "keeps I (case x of Call i op \<Rightarrow> f1 i op | Finish s \<Rightarrow> f2 s | Wait \<Rightarrow> m3
    | RunWorkflow \<Rightarrow> m4 | CallEach is op \<Rightarrow> f5 is op)"
  using assms by (cases x) auto

lemma keeps_target [keeps_intro]:
  assumes "\<And>n. keeps I (f1 n)" "\<And>u. keeps I (f2 u)" "\<And>t. keeps I (f3 t)"
  shows "keeps I (case x of Local n \<Rightarrow> f1 n | Http u \<Rightarrow> f2 u | Grpc t \<Rightarrow> f3 t)"
  using assms by (cases x) auto

lemma keeps_wf_error [keeps_intro]:
  assumes "\<And>m. keeps I (f1 m)" "\<And>m. keeps I (f2 m)" "\<And>a b c. keeps I (f3 a b c)"
    "\<And>e. keeps I (f4 e)"
  shows "keeps I (case x of Wf_rollback m \<Rightarrow> f1 m | Wf_retry m \<Rightarrow> f2 m
    | Wf_diverged a b c \<Rightarrow> f3 a b c | Wf_internal e \<Rightarrow> f4 e)"
  using assms by (cases x) auto

section \<open>Calls and ends of rounds, for any invariant\<close>

text \<open>
  What the handlers need of an invariant: it survives accesses of the kinds they make, calls and
  events. The guarantee instantiates it with the life cycle; the trace properties with what the
  trace may contain.
\<close>

locale round_inv =
  fixes I :: "world \<Rightarrow> bool" and env :: environment and g :: global_row
    and ops :: "branch_op set"
  assumes obs: "keeps I (observe env (list_branches gid))"
    and clk: "keeps I (observe env st_clock)"
    and rel: "keeps I (execute env (release_lease (g_gid g) l i))"
    and bst: "keeps I (execute env (set_branch_status (g_gid g) bid op st))"
    and alert: "keeps I (emit (Alerted a))"
    and ans: "op \<in> ops \<Longrightarrow> keeps I (answer_of h (mk_call g bid op url p))"
begin

lemma keeps_call_branch: "op \<in> ops \<Longrightarrow> keeps I (call_branch env g bid op url p)"
  unfolding call_branch_def call_local_def call_http_def call_grpc_def
  by (intro keeps_intro ans)

lemma keeps_retry_later: "keeps I (retry_later env d g)"
  unfolding retry_later_def by (intro keeps_intro rel obs alert)

lemma keeps_drv_transition:
  assumes "from_st \<noteq> to_st \<Longrightarrow>
      keeps I (access env (transition (g_gid g) from_st to_st (g_trans_type g) reason))"
    and "\<And>ok. from_st \<noteq> to_st \<Longrightarrow> keeps I (emit (Status from_st to_st ok))"
  shows "keeps I (drv_transition env g from_st to_st reason)"
  unfolding drv_transition_def by (intro keeps_intro assms rel)

lemma keeps_two_phase_call: "op \<in> ops \<Longrightarrow> keeps I (two_phase_call env d g rows i op)"
  unfolding two_phase_call_def Let_def
  by (intro keeps_intro keeps_call_branch keeps_retry_later bst)

lemma keeps_workflow_call: "op \<in> ops \<Longrightarrow> keeps I (workflow_call env d g rows i op)"
  unfolding workflow_call_def Let_def
  by (intro keeps_intro keeps_call_branch keeps_retry_later bst)

lemma keeps_call_each: "Action \<in> ops \<Longrightarrow> keeps I (call_each env g bs)"
  by (induction bs) (auto intro!: keeps_intro keeps_call_branch)

lemma keeps_record_each: "keeps I (record_each env g rs)"
  by (induction rs) (auto intro!: keeps_intro bst)

lemma keeps_call_group: "Action \<in> ops \<Longrightarrow> keeps I (call_group env d g bs)"
  unfolding call_group_def
  by (intro keeps_intro keeps_call_each keeps_record_each keeps_retry_later)
    (simp_all add: joined_def keeps_def triple_def)

end

section \<open>The life cycle\<close>

abbreviation life :: "store \<Rightarrow> global_row \<Rightarrow> world \<Rightarrow> bool" where
  "life s0 g \<equiv> txn_inv s0 (g_gid g) (g_trans_type g)"

lemma life_round_inv:
  assumes "rely env" shows "round_inv (life s0 g) env g UNIV"
  by unfold_locales
    (use assms in \<open>auto intro!: keeps_txn keeps_txn_execute evolves_ops\<close>)

lemma life_transition:
  assumes "rely env" "reach (g_trans_type g) from_st to_st"
  shows "keeps (life s0 g) (drv_transition env g from_st to_st reason)"
proof (rule round_inv.keeps_drv_transition [OF life_round_inv [OF assms(1)]])
  show "keeps (life s0 g) (access env (transition (g_gid g) from_st to_st (g_trans_type g) reason))"
    by (rule keeps_txn_access [OF assms(1)]) (use assms(2) in \<open>auto intro!: evolves_transition\<close>)
qed (rule keeps_txn_emit)

lemmas life_rules = keeps_intro round_inv.keeps_call_branch [OF life_round_inv]
  round_inv.keeps_retry_later [OF life_round_inv]
  round_inv.keeps_two_phase_call [OF life_round_inv]
  round_inv.keeps_workflow_call [OF life_round_inv]
  round_inv.keeps_call_group [OF life_round_inv]
  round_inv.bst [OF life_round_inv] round_inv.clk [OF life_round_inv] round_inv.obs [OF life_round_inv]
  round_inv.rel [OF life_round_inv] life_transition

text \<open>Saga.\<close>

lemma saga_advance_reach: "saga_advance st a c = Finish t \<Longrightarrow> reach Saga st t"
  by (cases st) (auto simp: reach_def saga_forward_offset split: option.splits if_splits)

lemma saga_advance_call:
  "saga_advance st a c = Call i op \<Longrightarrow> op = Action \<and> st = GSubmitted \<or> op = Compensate \<and> st = GAborting"
  by (cases st) (auto simp: saga_forward_offset split: option.splits if_splits)

lemma keeps_saga_call:
  assumes "rely env" "op = Action \<Longrightarrow> reach (g_trans_type g) status GAborting"
  shows "keeps (life s0 g) (saga_call env d g steps status i op)"
  unfolding saga_call_def Let_def by (intro life_rules assms UNIV_I) auto

lemma keeps_saga_loop:
  assumes "rely env" "g_trans_type g = Saga"
  shows "keeps (life s0 g) (saga_loop fuel env d g steps status)"
proof (induction fuel arbitrary: status)
  case 0
  then show ?case by (simp add: keeps_return)
next
  case (Suc fuel)
  show ?case
    unfolding saga_loop.simps
    by (intro life_rules keeps_saga_call Suc assms)
      (use assms in \<open>auto dest: saga_advance_reach saga_advance_call simp: reach_def\<close>)
qed

lemma keeps_process_saga:
  assumes "rely env" "g_trans_type g = Saga" "\<not> is_final (g_status g)"
  shows "keeps (life s0 g) (process_saga fuel env d g)"
  unfolding process_saga_def Let_def
  by (intro life_rules keeps_saga_loop assms)
    (use assms in \<open>cases "g_status g"; simp add: reach_def\<close>)

text \<open>TCC and XA.\<close>

lemma two_phase_reach:
  assumes "(if fwd = Commit then xa_advance else tcc_advance) st f b = Finish t"
  shows "reach tt st t"
proof (cases "fwd = Commit")
  case True
  with assms have "xa_advance st f b = Finish t" by simp
  then show ?thesis by (rule xa.finish_cases) (auto simp: reach_def)
next
  case False
  with assms have "tcc_advance st f b = Finish t" by simp
  then show ?thesis by (rule tcc.finish_cases) (auto simp: reach_def)
qed

lemma keeps_two_phase_loop:
  assumes "rely env"
  shows "keeps (life s0 g) (two_phase_loop fuel env d g n fwd bwd)"
proof (induction fuel)
  case 0
  then show ?case by (simp add: keeps_return)
next
  case (Suc fuel)
  show ?case
    unfolding two_phase_loop.simps
    by (intro life_rules Suc assms UNIV_I) (auto dest: two_phase_reach)
qed

lemma keeps_drive_two_phase:
  assumes "rely env" "\<not> is_final (g_status g)"
  shows "keeps (life s0 g) (drive_two_phase fuel env d g fwd bwd)"
  unfolding drive_two_phase_def Let_def
  by (intro life_rules keeps_two_phase_loop assms)
    (use assms in \<open>cases "g_status g"; simp add: reach_def\<close>)

text \<open>Two-phase message.\<close>

lemma msg_fanout_reach: "msg_fanout_advance st steps states = Finish t \<Longrightarrow> reach Msg st t"
  by (cases st) (auto simp: reach_def Let_def split: option.splits)

lemma keeps_msg_loop:
  assumes "rely env" "g_trans_type g = Msg"
  shows "keeps (life s0 g) (msg_loop fuel env d g branches status)"
proof (induction fuel)
  case 0
  then show ?case by (simp add: keeps_return)
next
  case (Suc fuel)
  show ?case
    unfolding msg_loop.simps Let_def
    by (intro life_rules Suc assms UNIV_I) (auto simp: assms dest: msg_fanout_reach)
qed

lemma keeps_send_msg:
  assumes "rely env" "g_trans_type g = Msg" "\<not> is_final status"
  shows "keeps (life s0 g) (send_msg fuel env d g status)"
  unfolding send_msg_def Let_def
  by (intro life_rules keeps_msg_loop assms)
    (use assms in \<open>cases status; simp add: reach_def\<close>)

lemma keeps_query_back:
  assumes "rely env" "g_status g = GPrepared"
  shows "keeps (life s0 g) (query_back env d g)"
  unfolding query_back_def by (intro life_rules assms UNIV_I) (simp_all add: assms reach_def)

lemma query_back_status:
  "triple (\<lambda>_. True) (query_back env d g) (\<lambda>r w. r = None \<or> r = Some GSubmitted)"
  by (auto simp: triple_def query_back_def split_beta split: branch_result.splits)

lemma keeps_process_msg:
  assumes "rely env" "g_trans_type g = Msg" "\<not> is_final (g_status g)"
  shows "keeps (life s0 g) (process_msg fuel env d g)"
proof (cases "g_status g = GPrepared")
  case True
  show ?thesis
    unfolding process_msg_def keeps_def
  proof (simp only: True simp_thms if_True, rule triple_bind)
    show "triple (life s0 g) (query_back env d g)
        (\<lambda>r w. life s0 g w \<and> (r = None \<or> r = Some GSubmitted))"
      using keeps_query_back [OF assms(1) True, of s0 d] query_back_status [of env d g]
      by (simp add: triple_def keeps_def)
    show "triple (\<lambda>w. life s0 g w \<and> (r = None \<or> r = Some GSubmitted))
        (case r of None \<Rightarrow> ret Done | Some s \<Rightarrow> send_msg fuel env d g s) (\<lambda>_. life s0 g)" for r
      using keeps_send_msg [OF assms(1,2), of GSubmitted s0 fuel d]
      by (cases r) (auto simp: triple_def keeps_def)
  qed
next
  case False
  with keeps_send_msg [OF assms, of s0 fuel d] show ?thesis by (simp add: process_msg_def)
qed

text \<open>Workflow.\<close>

lemma workflow_advance_reach: "workflow_advance st c = Finish t \<Longrightarrow> reach Workflow st t"
  by (cases st) (auto simp: reach_def split: option.splits)

lemma workflow_advance_run: "workflow_advance st c = RunWorkflow \<Longrightarrow> st = GSubmitted"
  by (cases st) (auto split: option.splits)

lemma keeps_workflow_run:
  assumes "rely env" "g_trans_type g = Workflow" "status = GSubmitted"
  shows "keeps (life s0 g) (workflow_run env d g name input rows status)"
  unfolding workflow_run_def
  by (intro life_rules keeps_run_wf assms) (simp_all add: assms reach_def)

lemma keeps_workflow_loop:
  assumes "rely env" "g_trans_type g = Workflow"
  shows "keeps (life s0 g) (workflow_loop fuel env d g name input status)"
proof (induction fuel arbitrary: status)
  case 0
  then show ?case by (simp add: keeps_return)
next
  case (Suc fuel)
  show ?case
    unfolding workflow_loop.simps
    by (intro life_rules keeps_workflow_run Suc assms UNIV_I)
      (auto simp: assms dest: workflow_advance_reach workflow_advance_run)
qed

section \<open>A whole round\<close>

lemma keeps_process_prepared:
  assumes "rely env" "g_status g = GPrepared" "to_st = GAborting"
  shows "keeps (life s0 g) (process_prepared fuel env d g to_st)"
proof -
  have "keeps (life s0 g) (drive_two_phase fuel env d (g\<lparr>g_status := GAborting,
      g_rollback_reason := r\<rparr>) fwd bwd)" for r fwd bwd
    using keeps_drive_two_phase [OF assms(1), of "g\<lparr>g_status := GAborting,
      g_rollback_reason := r\<rparr>" s0] by simp
  then show ?thesis
    unfolding process_prepared_def Let_def process_xa_def process_tcc_def assms(3)
    by (intro life_rules assms(1)) (simp_all add: assms(2) reach_def)
qed

theorem process_respects_life_cycle:
  assumes "rely env" "\<not> is_final (g_status g)"
  shows "keeps (life s0 g) (process fuel env d g)"
proof (cases "prepared_timeout_to (g_status g) (g_trans_type g)")
  case (Some to_st)
  then have "g_status g = GPrepared" "to_st = GAborting"
    by (auto simp: prepared_timeout_to_def split: if_splits)
  with Some assms(1) show ?thesis by (simp add: process_def keeps_process_prepared)
next
  case None
  then show ?thesis
    using keeps_process_saga [OF assms(1) _ assms(2), of s0 fuel d]
      keeps_process_msg [OF assms(1) _ assms(2), of s0 fuel d]
      keeps_drive_two_phase [OF assms, of s0 fuel d]
      keeps_workflow_loop [OF assms(1), of g s0 fuel d]
    by (cases "g_trans_type g")
      (simp_all add: process_def process_tcc_def process_xa_def process_workflow_def split_beta)
qed

end
