(* ===== verification/Branch_Slots.thy ===== *)
theory Branch_Slots
  imports Driver
begin

text \<open>
  How the driver turns branch rows into the status lists the state machines decide on. All the
  readers fill slots: a row selects a slot, and its status is put there.
\<close>

definition fill ::
  "(branch_row \<Rightarrow> nat option) \<Rightarrow> branch_row list \<Rightarrow> branch_status list \<Rightarrow> branch_status list" where
  "fill sel rows v = fold (\<lambda>r v. case sel r of None \<Rightarrow> v | Some i \<Rightarrow> v[i := b_status r]) rows v"

definition slot :: "nat \<Rightarrow> branch_op set \<Rightarrow> branch_row \<Rightarrow> nat option" where
  "slot n ops r =
     (case index_of (b_branch_id r) of
        None \<Rightarrow> None
      | Some i \<Rightarrow> if i < n \<and> b_op r \<in> ops then Some i else None)"

lemma fill_simps [simp]:
  "fill sel [] v = v"
  "fill sel (r # rows) v =
     fill sel rows (case sel r of None \<Rightarrow> v | Some i \<Rightarrow> v[i := b_status r])"
  by (simp_all add: fill_def)

lemma length_fill [simp]: "length (fill sel rows v) = length v"
  by (induction rows arbitrary: v) (auto split: option.splits)

lemma fill_unselected: "\<forall>r\<in>set rows. sel r \<noteq> Some i \<Longrightarrow> fill sel rows v ! i = v ! i"
  by (induction rows arbitrary: v) (auto split: option.splits)

lemma set_fill: "set (fill sel rows v) \<subseteq> set v \<union> b_status ` set rows"
proof (induction rows arbitrary: v)
  case (Cons r rows)
  have "set (v[i := b_status r]) \<subseteq> insert (b_status r) (set v)" for i
    by (rule set_update_subset_insert)
  with Cons show ?case by (auto split: option.splits)
qed simp

text \<open>A slot only one row selects holds that row's status.\<close>

lemma fill_unique:
  assumes "r \<in> set rows" "sel r = Some i" "i < length v"
    and "\<forall>q\<in>set rows. sel q = Some i \<longrightarrow> q = r"
  shows "fill sel rows v ! i = b_status r"
  using assms
proof (induction rows arbitrary: v)
  case (Cons q rows)
  let ?v = "case sel q of None \<Rightarrow> v | Some i \<Rightarrow> v[i := b_status q]"
  have len: "i < length ?v" using Cons.prems(3) by (simp split: option.split)
  have rest: "\<forall>p\<in>set rows. sel p = Some i \<longrightarrow> p = r" using Cons.prems(4) by simp
  show ?case
  proof (cases "r \<in> set rows")
    case True
    from Cons.IH [OF True Cons.prems(2) len rest] show ?thesis by simp
  next
    case False
    with rest have "\<forall>p\<in>set rows. sel p \<noteq> Some i" by blast
    moreover from False Cons.prems(1) have "q = r" by simp
    ultimately show ?thesis using Cons.prems(2,3) by (simp add: fill_unselected)
  qed
qed simp

section \<open>The readers\<close>

lemma branch_states_fill:
  "branch_states rows n =
     (fill (slot n {Action, Try}) rows (replicate n BPrepared),
      fill (slot n {Compensate, Cancel, Rollback}) rows (replicate n BPrepared))"
proof -
  have "fold (\<lambda>r (actions, compensates).
       case index_of (b_branch_id r) of
         None \<Rightarrow> (actions, compensates)
       | Some i \<Rightarrow>
           if n \<le> i then (actions, compensates)
           else (case b_op r of
               Action \<Rightarrow> (actions[i := b_status r], compensates)
             | Try \<Rightarrow> (actions[i := b_status r], compensates)
             | Compensate \<Rightarrow> (actions, compensates[i := b_status r])
             | Cancel \<Rightarrow> (actions, compensates[i := b_status r])
             | Rollback \<Rightarrow> (actions, compensates[i := b_status r])
             | _ \<Rightarrow> (actions, compensates))) rows (a, c) =
      (fill (slot n {Action, Try}) rows a, fill (slot n {Compensate, Cancel, Rollback}) rows c)"
    for a c
    by (induction rows arbitrary: a c)
      (auto simp: slot_def split: option.splits branch_op.splits)
  then show ?thesis by (simp add: branch_states_def)
qed

lemma split_by_op_fill:
  assumes "fwd \<noteq> bwd"
  shows "split_by_op rows n fwd bwd =
     (fill (slot n {fwd}) rows (replicate n BPrepared),
      fill (slot n {bwd}) rows (replicate n BPrepared))"
proof -
  have "fold (\<lambda>r (a, b).
       case index_of (b_branch_id r) of
         None \<Rightarrow> (a, b)
       | Some i \<Rightarrow>
           if n \<le> i then (a, b)
           else if b_op r = fwd then (a[i := b_status r], b)
           else if b_op r = bwd then (a, b[i := b_status r])
           else (a, b)) rows (a, c) =
      (fill (slot n {fwd}) rows a, fill (slot n {bwd}) rows c)" for a c
    using assms by (induction rows arbitrary: a c) (auto simp: slot_def split: option.splits)
  then show ?thesis by (simp add: split_by_op_def)
qed

lemma index_bound_le:
  assumes "\<forall>r\<in>set rows. \<forall>i. index_of (b_branch_id r) = Some i \<longrightarrow> i < n"
  shows "index_bound rows \<le> n"
proof -
  have "fold (\<lambda>i m. max (i + 1) m) xs m \<le> n" if "\<forall>i\<in>set xs. i < n" "m \<le> n" for xs and m :: nat
    using that by (induction xs arbitrary: m) auto
  moreover have "\<forall>i\<in>set (List.map_filter (\<lambda>r. index_of (b_branch_id r)) rows). i < n"
    using assms by (auto simp: map_filter_def)
  ultimately show ?thesis by (simp only: index_bound_def le0)
qed

lemma index_bound_gt:
  assumes "r \<in> set rows" "index_of (b_branch_id r) = Some i"
  shows "i < index_bound rows"
proof -
  have mono: "m \<le> fold (\<lambda>i m. max (i + 1) m) xs m" for xs and m :: nat
    by (induction xs arbitrary: m) (auto intro: max.coboundedI2 order_trans)
  have "i < fold (\<lambda>i m. max (i + 1) m) (xs :: nat list) m" if "i \<in> set xs" for xs m
    using that
  proof (induction xs arbitrary: m)
    case (Cons x xs)
    show ?case
    proof (cases "i \<in> set xs")
      case True
      with Cons.IH show ?thesis by simp
    next
      case False
      with Cons.prems have "x = i" by simp
      with mono [of "max (i + 1) m" xs] show ?thesis by simp
    qed
  qed simp
  moreover have "i \<in> set (List.map_filter (\<lambda>r. index_of (b_branch_id r)) rows)"
    using assms by (force simp: List.map_filter_def)
  ultimately show ?thesis by (simp add: index_bound_def)
qed

lemma compensate_states_fill:
  "compensate_states rows =
     fill (slot (index_bound (filter (\<lambda>r. b_op r = Compensate) rows)) {Compensate}) rows
       (replicate (index_bound (filter (\<lambda>r. b_op r = Compensate) rows)) BSucceed)"
proof -
  have "fold (\<lambda>r v. case index_of (b_branch_id r) of
              None \<Rightarrow> v | Some i \<Rightarrow> if i < n then v[i := b_status r] else v)
         (filter (\<lambda>r. b_op r = Compensate) rows) v =
      fill (slot n {Compensate}) rows v" for n v
    by (induction rows arbitrary: v) (auto simp: slot_def split: option.splits)
  then show ?thesis by (simp add: compensate_states_def Let_def)
qed

section \<open>Rows of one transaction\<close>

text \<open>
  \<open>well_numbered\<close>: the branch numbers of the transaction are ones the driver regenerates, as
  registration enforces; then a slot determines its row.
\<close>

definition well_numbered :: "string \<Rightarrow> store \<Rightarrow> bool" where
  "well_numbered gid s \<longleftrightarrow>
     (\<forall>b\<in>set (st_branch s). b_gid b = gid \<longrightarrow> is_canonical_branch_id (b_branch_id b))"

lemma set_list_branches: "set (list_branches gid s) = {b \<in> set (st_branch s). b_gid b = gid}"
  by (auto simp: list_branches_def)

lemma list_branches_unique:
  assumes "store_ok s" "a \<in> set (list_branches gid s)" "b \<in> set (list_branches gid s)"
    and "b_branch_id a = b_branch_id b" "b_op a = b_op b"
  shows "a = b"
proof -
  from assms have "b_key a = b_key b" "a \<in> set (st_branch s)" "b \<in> set (st_branch s)"
    by (auto simp: set_list_branches b_key_def)
  with assms(1) show ?thesis by (auto simp: store_ok_def keyed_def distinct_map inj_on_def)
qed

lemma branch_at_in: "branch_at gid bid op s = Some b \<Longrightarrow>
    b \<in> set (list_branches gid s) \<and> b_branch_id b = bid \<and> b_op b = op \<and> b_gid b = gid"
  by (auto simp: branch_at_def set_list_branches b_key_def dest: row_at_SomeD)

lemma in_branch_at:
  assumes "store_ok s" "b \<in> set (list_branches gid s)"
  shows "branch_at gid (b_branch_id b) (b_op b) s = Some b"
proof -
  from assms have "b \<in> set (st_branch s)" "b_gid b = gid" by (auto simp: set_list_branches)
  with row_at_keyed [of b_key "st_branch s" b] assms(1) show ?thesis
    by (simp add: branch_at_def store_ok_def b_key_def)
qed

lemma slot_branch_id:
  "b_branch_id r = branch_id i \<Longrightarrow> i \<le> max_branch_index \<Longrightarrow>
   slot n ops r = (if i < n \<and> b_op r \<in> ops then Some i else None)"
  by (simp add: slot_def index_of_branch_id)

lemma fill_list_branches:
  assumes "store_ok s" "well_numbered gid s" "branch_at gid (branch_id i) op s = Some b"
    and "i < n" "n = length v" "i \<le> max_branch_index" "op \<in> ops"
    and "\<forall>q\<in>set (list_branches gid s). b_branch_id q = branch_id i \<longrightarrow> b_op q \<in> ops \<longrightarrow> b_op q = op"
  shows "fill (slot n ops) (list_branches gid s) v ! i = b_status b"
proof (rule fill_unique)
  from branch_at_in [OF assms(3)] show b: "b \<in> set (list_branches gid s)" by simp
  from branch_at_in [OF assms(3)] assms show "slot n ops b = Some i"
    by (simp add: slot_branch_id)
  show "\<forall>q\<in>set (list_branches gid s). slot n ops q = Some i \<longrightarrow> q = b"
  proof (intro ballI impI)
    fix q assume q: "q \<in> set (list_branches gid s)" "slot n ops q = Some i"
    with assms(2) have "is_canonical_branch_id (b_branch_id q)"
      by (auto simp: well_numbered_def set_list_branches)
    moreover from q(2) have "index_of (b_branch_id q) = Some i" "b_op q \<in> ops"
      by (auto simp: slot_def split: option.splits if_splits)
    ultimately have "b_branch_id q = branch_id i" by (intro canonical_index)
    with q(1) \<open>b_op q \<in> ops\<close> assms(8) have "b_op q = op" by blast
    with q(1) b \<open>b_branch_id q = branch_id i\<close> branch_at_in [OF assms(3)]
    show "q = b" by (intro list_branches_unique [OF assms(1)]) auto
  qed
qed (use assms in simp)

end
