(* ===== verification/Driver_Trace.thy ===== *)
theory Driver_Trace
  imports Driver_Guarantee Branch_Slots
begin

text \<open>
  What a round may do, read off its trace, whatever the others and the branches do: the
  direction of TCC and XA, and that a saga no branch has refused is not rolled back.
\<close>

section \<open>Which calls and which status writes occur\<close>

definition event_in :: "branch_op set \<Rightarrow> global_status set \<Rightarrow> event \<Rightarrow> bool" where
  "event_in ops sts e \<longleftrightarrow>
     (case e of Called c r \<Rightarrow> c_op c \<in> ops | Status f t ok \<Rightarrow> t \<in> sts | _ \<Rightarrow> True)"

definition trace_in :: "branch_op set \<Rightarrow> global_status set \<Rightarrow> world \<Rightarrow> bool" where
  "trace_in ops sts w \<longleftrightarrow> (\<forall>e\<in>set (w_trace w). event_in ops sts e)"

lemma trace_in_access [simp]:
  "trace_in ops sts (w\<lparr>w_store := s\<rparr>) = trace_in ops sts w"
  "trace_in ops sts (w\<lparr>w_step := n\<rparr>) = trace_in ops sts w"
  "trace_in ops sts (w\<lparr>w_trace := tr @ [e]\<rparr>) \<longleftrightarrow>
     trace_in ops sts (w\<lparr>w_trace := tr\<rparr>) \<and> event_in ops sts e"
  "trace_in ops sts (w\<lparr>w_trace := w_trace w\<rparr>) = trace_in ops sts w"
  by (auto simp: trace_in_def)

interpretation dir: round_inv "trace_in ops sts" env g ops for ops sts env g
  by unfold_locales
    (auto simp: keeps_def triple_def event_in_def mk_call_def)

lemma keeps_dir_transition:
  assumes "from_st \<noteq> to_st \<Longrightarrow> to_st \<in> sts"
  shows "keeps (trace_in ops sts) (drv_transition env g from_st to_st reason)"
  by (rule dir.keeps_drv_transition) (use assms in \<open>auto simp: keeps_def triple_def event_in_def\<close>)

lemmas dir_rules = keeps_intro dir.keeps_call_branch dir.keeps_retry_later dir.keeps_two_phase_call
  dir.keeps_workflow_call dir.keeps_call_group dir.obs dir.clk dir.bst dir.rel

section \<open>TCC and XA never change direction\<close>

definition two_phase_ops :: "branch_op \<Rightarrow> branch_op \<Rightarrow> bool" where
  "two_phase_ops fwd bwd \<longleftrightarrow> fwd = Confirm \<and> bwd = Cancel \<or> fwd = Commit \<and> bwd = Rollback"

definition direction_ops :: "branch_op \<Rightarrow> branch_op \<Rightarrow> global_status \<Rightarrow> branch_op set" where
  "direction_ops fwd bwd st = (if st = GSubmitted then {fwd} else if st = GAborting then {bwd} else {})"

definition direction_end :: "global_status \<Rightarrow> global_status set" where
  "direction_end st = (if st = GAborting then {GFailed} else {GSucceed})"

lemma two_phase_adv_cases:
  assumes "two_phase_ops fwd bwd"
  shows "(if fwd = Commit then xa_advance else tcc_advance) st f b = Call i op \<Longrightarrow>
      op \<in> direction_ops fwd bwd st"
    and "(if fwd = Commit then xa_advance else tcc_advance) st f b = Finish t \<Longrightarrow>
      st \<noteq> t \<Longrightarrow> t \<in> direction_end st"
proof -
  have call: "op \<in> direction_ops fwd bwd st"
    if "two_phase_ops fwd bwd" "(if fwd = Commit then xa_advance else tcc_advance) st f b = Call i op"
    using that
    by (cases "fwd = Commit")
      (auto simp: two_phase_ops_def direction_ops_def
        simp del: tcc_advance.simps xa_advance.simps elim!: tcc.call_cases xa.call_cases)
  have finish: "t \<in> direction_end st"
    if "st \<noteq> t" "(if fwd = Commit then xa_advance else tcc_advance) st f b = Finish t"
    using that
    by (cases "fwd = Commit")
      (auto simp: direction_end_def
        simp del: tcc_advance.simps xa_advance.simps elim!: tcc.finish_cases xa.finish_cases)
  show "(if fwd = Commit then xa_advance else tcc_advance) st f b = Call i op \<Longrightarrow>
      op \<in> direction_ops fwd bwd st"
    using call assms by blast
  show "(if fwd = Commit then xa_advance else tcc_advance) st f b = Finish t \<Longrightarrow>
      st \<noteq> t \<Longrightarrow> t \<in> direction_end st"
    using finish by blast
qed

lemma two_phase_loop_direction:
  assumes "two_phase_ops fwd bwd"
  shows "keeps (trace_in (direction_ops fwd bwd (g_status g)) (direction_end (g_status g)))
    (two_phase_loop fuel env d g n fwd bwd)"
proof (induction fuel)
  case 0
  then show ?case by (simp add: keeps_return)
next
  case (Suc fuel)
  show ?case
    unfolding two_phase_loop.simps
    by (intro dir_rules keeps_dir_transition two_phase_adv_cases [OF assms] Suc)
qed

lemma drive_two_phase_direction:
  assumes "two_phase_ops fwd bwd"
  shows "keeps (trace_in (direction_ops fwd bwd (g_status g)) (direction_end (g_status g)))
    (drive_two_phase fuel env d g fwd bwd)"
proof -
  have "keeps (trace_in ops (direction_end (g_status g)))
      (drv_transition env g (g_status g) (if g_status g = GAborting then GFailed else GSucceed) [])"
    for ops
    by (rule keeps_dir_transition) (auto simp: direction_end_def)
  then show ?thesis
    unfolding drive_two_phase_def Let_def
    by (intro dir_rules two_phase_loop_direction assms)
qed

lemma process_two_phase_direction:
  assumes "g_trans_type g = Tcc \<and> fwd = Confirm \<and> bwd = Cancel \<or>
      g_trans_type g = Xa \<and> fwd = Commit \<and> bwd = Rollback"
    and "g_status g \<noteq> GPrepared"
  shows "keeps (trace_in (direction_ops fwd bwd (g_status g)) (direction_end (g_status g)))
    (process fuel env d g)"
proof -
  have "process fuel env d g = drive_two_phase fuel env d g fwd bwd"
    using assms
    by (auto simp: process_def prepared_timeout_to_def process_tcc_def process_xa_def)
  moreover have "two_phase_ops fwd bwd" using assms(1) by (auto simp: two_phase_ops_def)
  ultimately show ?thesis by (simp add: drive_two_phase_direction)
qed

text \<open>From a prepared transaction only the backward direction can be taken.\<close>

lemma process_prepared_direction:
  assumes "g_trans_type g = Tcc \<and> fwd = Confirm \<and> bwd = Cancel \<or>
      g_trans_type g = Xa \<and> fwd = Commit \<and> bwd = Rollback"
    and "g_status g = GPrepared"
  shows "keeps (trace_in {bwd} {GAborting, GFailed}) (process fuel env d g)"
proof -
  have ops: "two_phase_ops fwd bwd" using assms(1) by (auto simp: two_phase_ops_def)
  let ?g2 = "\<lambda>r. g\<lparr>g_status := GAborting, g_rollback_reason := r\<rparr>"
  have sub: "keeps (trace_in {bwd} {GAborting, GFailed}) (drive_two_phase fuel env d (?g2 r) fwd bwd)"
    for r
  proof -
    have loop: "keeps (trace_in {bwd} {GAborting, GFailed}) (two_phase_loop k env d g' n fwd bwd)"
      if st: "g_status g' = GAborting" for k n g'
    proof (induction k)
      case 0
      then show ?case by (simp add: keeps_return)
    next
      case (Suc k)
      have adv: "(if fwd = Commit then xa_advance else tcc_advance) GAborting f b = Call i op \<Longrightarrow>
          op \<in> {bwd}"
        "(if fwd = Commit then xa_advance else tcc_advance) GAborting f b = Finish t \<Longrightarrow>
          GAborting \<noteq> t \<Longrightarrow> t \<in> {GAborting, GFailed}" for f b i op t
        using two_phase_adv_cases [OF ops, of GAborting f b]
        by (auto simp: direction_ops_def direction_end_def)
      show ?case
        unfolding two_phase_loop.simps st
        by (intro dir_rules keeps_dir_transition adv Suc)
    qed
    show ?thesis
      unfolding drive_two_phase_def Let_def
      by (auto intro!: dir_rules loop keeps_dir_transition)
  qed
  have "process fuel env d g = process_prepared fuel env d g GAborting"
    using assms by (auto simp: process_def prepared_timeout_to_def)
  moreover have "keeps (trace_in {bwd} {GAborting, GFailed}) (process_prepared fuel env d g GAborting)"
    unfolding process_prepared_def Let_def process_xa_def process_tcc_def
    using assms sub by (auto intro!: dir_rules keeps_dir_transition)
  ultimately show ?thesis by simp
qed

section \<open>No refusal, no rollback\<close>

text \<open>
  No branch answers with a failure: no HTTP answer, gRPC code or in-process branch is read as
  one. Time-outs, unreachable branches, server errors and answers that say \<open>ongoing\<close> all qualify.
\<close>

definition never_refuses :: "environment \<Rightarrow> bool" where
  "never_refuses env \<longleftrightarrow>
     (\<forall>n c code body. e_http env n c = Some (code, body) \<longrightarrow> from_http code body \<noteq> Failure) \<and>
     (\<forall>n t c code. e_grpc env n t c = Some code \<longrightarrow> from_grpc code \<noteq> Failure) \<and>
     (\<forall>name h n c. e_local env name = Some h \<longrightarrow> h n c \<noteq> Failure)"

text \<open>No branch of the transaction is marked as failed, and the others do not mark one.\<close>

definition none_failed :: "string \<Rightarrow> store \<Rightarrow> bool" where
  "none_failed gid s \<longleftrightarrow> (\<forall>b\<in>set (st_branch s). b_gid b = gid \<longrightarrow> b_status b \<noteq> BFailed)"

definition others_fail_none :: "string \<Rightarrow> environment \<Rightarrow> bool" where
  "others_fail_none gid env \<longleftrightarrow> (\<forall>n s. none_failed gid s \<longrightarrow> none_failed gid (e_others env n s))"

definition calm :: "string \<Rightarrow> world \<Rightarrow> bool" where
  "calm gid w \<longleftrightarrow> none_failed gid (w_store w) \<and> trace_in {Action} {GSucceed} w"

lemma none_failed_branch_table:
  "st_branch s' = st_branch s \<Longrightarrow> none_failed gid s' = none_failed gid s"
  by (simp add: none_failed_def)

lemma none_failed_succeed:
  "none_failed gid s \<Longrightarrow> none_failed gid (set_branch_status g bid op BSucceed s)"
  by (auto simp: none_failed_def set_branch_status_def set_update_where put_branch_status_def
      split: if_splits)

lemma call_branch_not_failure:
  assumes "never_refuses env"
  shows "triple P (call_branch env g bid op url p) (\<lambda>r w. r \<noteq> Failure)"
  using assms
  by (auto simp: triple_def call_branch_def call_local_def call_http_def call_grpc_def
      registry_get_def never_refuses_def split: target.splits option.splits)

lemma actions_not_failed:
  assumes "none_failed gid s"
  shows "\<forall>st\<in>set (fst (branch_states (list_branches gid s) n)). st \<noteq> BFailed"
proof -
  have "\<forall>st\<in>set (replicate n BPrepared) \<union> b_status ` set (list_branches gid s). st \<noteq> BFailed"
    using assms by (auto simp: set_list_branches none_failed_def)
  then show ?thesis
    using set_fill [of "slot n {Action, Try}" "list_branches gid s" "replicate n BPrepared"]
    by (auto simp: branch_states_fill)
qed

lemma saga_forward_calm:
  assumes "\<forall>st\<in>set as. st \<noteq> BFailed"
  shows "saga_advance GSubmitted as cs = Finish GSucceed \<or> (\<exists>i. saga_advance GSubmitted as cs = Call i Action)"
proof (cases "scan_up pending 0 as")
  case None
  then show ?thesis by (simp add: saga_forward_offset)
next
  case (Some m)
  with assms have "as ! m = BPrepared"
    by (auto simp: scan_up0_Some_iff pending_def) (metis branch_status.exhaust nth_mem)
  with Some show ?thesis by (simp add: saga_forward_offset)
qed

lemma calm_access:
  assumes "others_fail_none gid env" "calm gid w" "\<And>s. none_failed gid s \<Longrightarrow> none_failed gid (f s)"
  shows "calm gid (w\<lparr>w_store := f (e_others env (w_step w) (w_store w)), w_step := n\<rparr>)"
  using assms by (simp add: calm_def others_fail_none_def)

lemma keeps_calm_execute:
  assumes "others_fail_none gid env" "\<And>s. none_failed gid s \<Longrightarrow> none_failed gid (f s)"
  shows "keeps (calm gid) (execute env f)"
  by (rule keeps_execute) (rule calm_access [OF assms(1) _ assms(2)])

lemma keeps_calm_access:
  assumes "others_fail_none gid env" "\<And>s. none_failed gid s \<Longrightarrow> none_failed gid (snd (f s))"
  shows "keeps (calm gid) (access env f)"
  by (rule keeps_access) (rule calm_access [OF assms(1) _ assms(2)])

lemma keeps_calm_observe: "others_fail_none gid env \<Longrightarrow> keeps (calm gid) (observe env f)"
  unfolding observe_def by (rule keeps_calm_access) simp_all

lemma keeps_calm_emit: "event_in {Action} {GSucceed} e \<Longrightarrow> keeps (calm gid) (emit e)"
  by (simp add: keeps_def triple_def calm_def)

lemma keeps_calm_answer:
  "c_op c = Action \<Longrightarrow> keeps (calm gid) (answer_of h c)"
  by (simp add: keeps_def triple_def calm_def event_in_def)

lemma none_failed_release: "none_failed gid s \<Longrightarrow> none_failed gid (release_lease x l i s)"
  by (simp add: none_failed_branch_table [of "release_lease x l i s" s])

lemma keeps_calm_retry:
  "others_fail_none gid env \<Longrightarrow> keeps (calm gid) (retry_later env d g)"
  unfolding retry_later_def
  by (intro keeps_intro keeps_calm_execute keeps_calm_observe keeps_calm_emit none_failed_release)
    (simp_all add: event_in_def)

lemma keeps_calm_call:
  "keeps (calm gid) (call_branch env g bid Action url p)"
  unfolding call_branch_def call_local_def call_http_def call_grpc_def
  by (intro keeps_intro keeps_calm_answer) (simp_all add: mk_call_def)

lemma keeps_calm_finish:
  assumes "others_fail_none gid env"
  shows "keeps (calm gid) (drv_transition env g GSubmitted GSucceed reason)"
proof -
  have "none_failed gid s \<Longrightarrow> none_failed gid (snd (transition x f t tt r s))" for s x f t tt r
    by (simp add: none_failed_branch_table [of "snd (transition x f t tt r s)" s])
  then show ?thesis
    unfolding drv_transition_def
    by (intro keeps_intro keeps_calm_access keeps_calm_execute keeps_calm_emit none_failed_release
        assms) (simp_all add: event_in_def)
qed

lemma saga_call_calm:
  assumes "never_refuses env" "others_fail_none gid env"
  shows "triple (calm gid) (saga_call env d g steps GSubmitted i Action)
    (\<lambda>r w. calm gid w \<and> (r = None \<or> r = Some GSubmitted))"
  unfolding saga_call_def Let_def
proof (rule triple_bind)
  let ?call = "call_branch env g (branch_id i) Action
    (if Action = Action then s_action (steps ! i) else s_compensate (steps ! i)) (s_payload (steps ! i))"
  show "triple (calm gid) ?call (\<lambda>r w. calm gid w \<and> r \<noteq> Failure)"
    using keeps_calm_call [of gid env g "branch_id i"] call_branch_not_failure [OF assms(1)]
    by (simp add: keeps_def triple_def)
  have succ: "keeps (calm gid) (execute env (set_branch_status (g_gid g) (branch_id i) Action BSucceed))"
    by (intro keeps_calm_execute assms none_failed_succeed)
  fix r
  show "triple (\<lambda>w. calm gid w \<and> r \<noteq> Failure) (case r of
       Success \<Rightarrow> State_Monad.bind
         (execute env (set_branch_status (g_gid g) (branch_id i) Action BSucceed))
         (\<lambda>_. ret (Some GSubmitted))
     | Failure \<Rightarrow> State_Monad.bind
         (execute env (set_branch_status (g_gid g) (branch_id i) Action BFailed))
         (\<lambda>_. if Action = Action then State_Monad.bind
              (drv_transition env g GSubmitted GAborting (saga_failure_text (branch_id i)))
              (\<lambda>ok. ret (if ok then Some GAborting else None))
            else State_Monad.bind (retry_later env d g) (\<lambda>_. ret None))
     | Ongoing \<Rightarrow> State_Monad.bind (retry_later env d g) (\<lambda>_. ret None)
     | Unknown \<Rightarrow> State_Monad.bind (retry_later env d g) (\<lambda>_. ret None))
    (\<lambda>r w. calm gid w \<and> (r = None \<or> r = Some GSubmitted))"
    using keepsD [OF succ] keepsD [OF keeps_calm_retry [OF assms(2), of d g]]
    by (cases r) (simp_all add: triple_def split_beta del: run_execute)
qed

lemma saga_loop_calm:
  assumes "never_refuses env" "others_fail_none (g_gid g) env"
  shows "keeps (calm (g_gid g)) (saga_loop fuel env d g steps GSubmitted)"
proof (induction fuel)
  case 0
  then show ?case by (simp add: keeps_return)
next
  case (Suc fuel)
  let ?gid = "g_gid g"
  show ?case
    unfolding saga_loop.simps keeps_def
  proof (rule triple_bind)
    show "triple (calm ?gid) (observe env (list_branches ?gid))
        (\<lambda>rows w. calm ?gid w \<and> rows = list_branches ?gid (w_store w))"
      using keepsD [OF keeps_calm_observe [OF assms(2), of "list_branches ?gid"]]
      by (simp add: triple_def)
    fix rows
    let ?a = "fst (branch_states rows (length steps))" and ?c = "snd (branch_states rows (length steps))"
    let ?body = "case saga_advance GSubmitted ?a ?c of
        Finish s \<Rightarrow>
          if s = GAborting
          then State_Monad.bind (drv_transition env g GSubmitted s saga_failed_text)
            (\<lambda>ok. if ok then saga_loop fuel env d g steps s else ret Done)
          else State_Monad.bind (drv_transition env g GSubmitted s []) (\<lambda>_. ret Done)
      | Wait \<Rightarrow> ret Done | RunWorkflow \<Rightarrow> ret Done | CallEach is op \<Rightarrow> ret Done
      | Call index op \<Rightarrow> State_Monad.bind (saga_call env d g steps GSubmitted index op)
          (\<lambda>next. case next of None \<Rightarrow> ret Done | Some s \<Rightarrow> saga_loop fuel env d g steps s)"
    have finish: "keeps (calm ?gid)
        (State_Monad.bind (drv_transition env g GSubmitted GSucceed []) (\<lambda>_. ret Done))"
      by (intro keeps_intro keeps_calm_finish assms)
    have call: "keeps (calm ?gid) (State_Monad.bind (saga_call env d g steps GSubmitted i Action)
          (\<lambda>next. case next of None \<Rightarrow> ret Done | Some s \<Rightarrow> saga_loop fuel env d g steps s))" for i
      unfolding keeps_def
    proof (rule triple_bind [OF saga_call_calm [OF assms]])
      show "triple (\<lambda>w. calm ?gid w \<and> (r = None \<or> r = Some GSubmitted))
          (case r of None \<Rightarrow> ret Done | Some s \<Rightarrow> saga_loop fuel env d g steps s)
          (\<lambda>_. calm ?gid)" for r
        using Suc by (cases r) (auto simp: triple_def keeps_def)
    qed
    show "triple (\<lambda>w. calm ?gid w \<and> rows = list_branches ?gid (w_store w)) ?body (\<lambda>_. calm ?gid)"
    proof (rule tripleI)
      fix w assume w: "calm ?gid w \<and> rows = list_branches ?gid (w_store w)"
      then have "\<forall>st\<in>set ?a. st \<noteq> BFailed"
        using actions_not_failed [of ?gid "w_store w" "length steps"] by (simp add: calm_def)
      from saga_forward_calm [OF this, of ?c] keepsD [OF finish, of w] keepsD [OF call, of w] w
      show "calm ?gid (snd (run_state ?body w))" by auto
    qed
  qed
qed

lemma process_saga_calm:
  assumes "never_refuses env" "others_fail_none (g_gid g) env" "g_trans_type g = Saga"
    "g_status g = GSubmitted"
  shows "keeps (calm (g_gid g)) (process fuel env d g)"
  using assms saga_loop_calm [OF assms(1,2), of fuel d]
  by (auto simp: process_def prepared_timeout_to_def process_saga_def Let_def
      intro!: keeps_bind keeps_return keeps_calm_finish)

section \<open>Properties\<close>

text \<open>
  C7. A round on a submitted TCC or XA transaction calls only confirm (commit) and can only
  finish it as succeeded; on an aborting one it calls only cancel (rollback) and can only finish
  it as failed. This holds for every behaviour of the branches and of everybody else.
\<close>

theorem two_phase_never_turns:
  assumes "g_trans_type g = Tcc \<and> fwd = Confirm \<and> bwd = Cancel \<or>
      g_trans_type g = Xa \<and> fwd = Commit \<and> bwd = Rollback"
    and "g_status g = GSubmitted \<and> op = fwd \<and> goal = GSucceed \<or>
      g_status g = GAborting \<and> op = bwd \<and> goal = GFailed"
    and "w_trace w = []" "e \<in> set (w_trace (snd (run_state (process fuel env d g) w)))"
  shows "(\<forall>c r. e = Called c r \<longrightarrow> c_op c = op) \<and> (\<forall>f t ok. e = Status f t ok \<longrightarrow> t = goal)"
proof -
  have "trace_in {op} {goal} w" using assms(3) by (simp add: trace_in_def)
  moreover have "direction_ops fwd bwd (g_status g) = {op}" "direction_end (g_status g) = {goal}"
    "g_status g \<noteq> GPrepared"
    using assms(2) by (auto simp: direction_ops_def direction_end_def)
  ultimately have "trace_in {op} {goal} (snd (run_state (process fuel env d g) w))"
    using keepsD [OF process_two_phase_direction [OF assms(1)], of w fuel env d] by simp
  with assms(4) have "event_in {op} {goal} e" by (simp add: trace_in_def)
  then show ?thesis by (simp add: event_in_def split: event.splits)
qed

definition tcc_demo :: store where
  "tcc_demo = snd (register_branch_with ''g'' ''01'' [(Confirm, ''http://c''), (Cancel, ''http://x'')]
     [] (one_txn 7 Tcc GSubmitted))"

lemma two_phase_never_turns_witness:
  "Called \<lparr>c_gid = ''g'', c_trans_type = Tcc, c_branch_id = ''01'', c_op = Confirm,
       c_url = ''http://c'', c_payload = ''{}''\<rparr> Unknown
     \<in> set (w_trace (snd (run_state (process 3 quiet (demo_driver [] [])
          (global_init 7 ''g'' Tcc GSubmitted ''[]'')) (world_of tcc_demo)))) \<and>
   c_op \<lparr>c_gid = ''g'', c_trans_type = Tcc, c_branch_id = ''01'', c_op = Confirm,
       c_url = ''http://c'', c_payload = ''{}''\<rparr> = Confirm"
  (is "?m \<and> _")
proof
  show m: ?m by code_simp
  show "c_op \<lparr>c_gid = ''g'', c_trans_type = Tcc, c_branch_id = ''01'', c_op = Confirm,
       c_url = ''http://c'', c_payload = ''{}''\<rparr> = Confirm"
    using two_phase_never_turns [OF _ _ _ m, of Confirm Cancel Confirm GSucceed]
    by (simp add: global_init_def)
qed

text \<open>
  C8. A submitted saga whose branches never answer with an explicit refusal is never rolled
  back by the driver: it calls actions only and writes no status but succeeded, however often
  the calls time out, cannot be delivered or answer with an error or \<open>ongoing\<close>.
\<close>

theorem saga_rolls_back_only_on_refusal:
  assumes "never_refuses env" "others_fail_none (g_gid g) env"
    and "g_trans_type g = Saga" "g_status g = GSubmitted"
    and "none_failed (g_gid g) (w_store w)" "w_trace w = []"
    and "e \<in> set (w_trace (snd (run_state (process fuel env d g) w)))"
  shows "(\<forall>c r. e = Called c r \<longrightarrow> c_op c = Action) \<and> (\<forall>f t ok. e = Status f t ok \<longrightarrow> t = GSucceed)"
proof -
  have "calm (g_gid g) w" using assms(5,6) by (simp add: calm_def trace_in_def)
  then have "trace_in {Action} {GSucceed} (snd (run_state (process fuel env d g) w))"
    using keepsD [OF process_saga_calm [OF assms(1-4)], of w fuel d] by (simp add: calm_def)
  with assms(7) have "event_in {Action} {GSucceed} e" by (simp add: trace_in_def)
  then show ?thesis by (simp add: event_in_def split: event.splits)
qed

definition saga_demo :: "saga_step list \<Rightarrow> store" where
  "saga_demo steps = snd (create_global (global_init 7 ''g'' Saga GSubmitted ''[]'')
     (concat (map (step_rows ''g'') (enumerate 0 steps))) (empty_store 7))"

lemma saga_rolls_back_only_on_refusal_witness:
  "Called \<lparr>c_gid = ''g'', c_trans_type = Saga, c_branch_id = ''01'', c_op = Action,
       c_url = ''http://a'', c_payload = ''{}''\<rparr> Unknown
     \<in> set (w_trace (snd (run_state (process 3 quiet (demo_driver [saga_step_new ''http://a'' ''http://b''] [])
          (global_init 7 ''g'' Saga GSubmitted ''[]''))
          (world_of (saga_demo [saga_step_new ''http://a'' ''http://b'']))))) \<and>
   c_op \<lparr>c_gid = ''g'', c_trans_type = Saga, c_branch_id = ''01'', c_op = Action,
       c_url = ''http://a'', c_payload = ''{}''\<rparr> = Action"
  (is "?m \<and> ?c")
proof
  show m: ?m by code_simp
  have "never_refuses quiet" by (simp add: never_refuses_def registry_new_def)
  moreover have "others_fail_none ''g'' quiet" by (simp add: others_fail_none_def)
  moreover have "none_failed ''g'' (saga_demo [saga_step_new ''http://a'' ''http://b''])"
    unfolding none_failed_def by code_simp
  ultimately show ?c
    using saga_rolls_back_only_on_refusal [OF _ _ _ _ _ _ m] by (simp add: global_init_def)
qed

end
