(* ===== verification/Saga_Run.thy ===== *)
theory Saga_Run
  imports Driver_Guarantee Branch_Slots
begin

text \<open>
  A saga from its creation to its end: with nobody interfering and branches that answer by
  operation, the round calls the actions in order and, after a refusal, all compensations in
  reverse order, and the fuel needed is twice the number of steps and two.
\<close>

section \<open>Branches that answer by number and operation\<close>

definition answers_by :: "environment \<Rightarrow> (string \<Rightarrow> branch_op \<Rightarrow> branch_result) \<Rightarrow> bool" where
  "answers_by env ans \<longleftrightarrow>
     (\<forall>n c. (case e_http env n c of None \<Rightarrow> Unknown | Some (code, body) \<Rightarrow> from_http code body) =
        ans (c_branch_id c) (c_op c)) \<and>
     (\<forall>n t c. (case e_grpc env n t c of None \<Rightarrow> Unknown | Some code \<Rightarrow> from_grpc code) =
        ans (c_branch_id c) (c_op c)) \<and>
     (\<forall>name. \<exists>h. e_local env name = Some h \<and> (\<forall>n c. h n c = ans (c_branch_id c) (c_op c)))"

text \<open>Such an environment, with nobody else acting.\<close>

definition answering :: "(string \<Rightarrow> branch_op \<Rightarrow> branch_result) \<Rightarrow> environment" where
  "answering ans =
     \<lparr>e_others = \<lambda>n s. s,
      e_http = \<lambda>n c. Some (case ans (c_branch_id c) (c_op c) of
        Success \<Rightarrow> (200, []) | Failure \<Rightarrow> (409, []) | Ongoing \<Rightarrow> (425, []) | Unknown \<Rightarrow> (500, [])),
      e_grpc = \<lambda>n t c. Some (case ans (c_branch_id c) (c_op c) of
        Success \<Rightarrow> 0 | Failure \<Rightarrow> 10 | Ongoing \<Rightarrow> 9 | Unknown \<Rightarrow> 14),
      e_local = \<lambda>name. Some (\<lambda>n c. ans (c_branch_id c) (c_op c)),
      e_joined = \<lambda>n rs. rs\<rparr>"

lemma answers_by_answering: "answers_by (answering ans) ans"
  by (auto simp: answers_by_def answering_def verdict_defs sublist_code split: branch_result.splits)

lemma others_answering [simp]: "e_others (answering ans) = (\<lambda>n s. s)"
  by (simp add: answering_def)

fun called :: "event list \<Rightarrow> (string \<times> branch_op) list" where
  "called [] = []"
| "called (Called c r # es) = (c_branch_id c, c_op c) # called es"
| "called (e # es) = called es"

lemma called_append [simp]: "called (xs @ ys) = called xs @ called ys"
  by (induction xs rule: called.induct) auto

lemma run_call_branch:
  assumes "answers_by env ans"
  shows "\<exists>c. run_state (call_branch env g bid op url p) w =
      (ans bid op, w\<lparr>w_step := Suc (w_step w), w_trace := w_trace w @ [Called c (ans bid op)]\<rparr>) \<and>
    c_branch_id c = bid \<and> c_op c = op"
proof (cases "parse_target url")
  case (Local name)
  from assms obtain h where "e_local env name = Some h" "\<forall>n c. h n c = ans (c_branch_id c) (c_op c)"
    using that unfolding answers_by_def by blast
  with Local show ?thesis
    by (auto simp: call_branch_def call_local_def registry_get_def mk_call_def)
next
  case (Http u)
  with assms show ?thesis by (auto simp: answers_by_def call_branch_def call_http_def mk_call_def)
next
  case (Grpc t)
  with assms show ?thesis by (auto simp: answers_by_def call_branch_def call_grpc_def mk_call_def)
qed

section \<open>The branch table of a saga\<close>

definition saga_ready :: "string \<Rightarrow> nat \<Rightarrow> store \<Rightarrow> bool" where
  "saga_ready gid n s \<longleftrightarrow>
     store_ok s \<and> well_numbered gid s \<and> n \<le> max_branch_index + 1 \<and>
     (\<forall>b\<in>set (list_branches gid s). b_op b = Action \<or> b_op b = Compensate) \<and>
     (\<forall>i<n. branch_at gid (branch_id i) Action s \<noteq> None \<and> branch_at gid (branch_id i) Compensate s \<noteq> None)"

definition status_at :: "string \<Rightarrow> branch_op \<Rightarrow> store \<Rightarrow> nat \<Rightarrow> branch_status" where
  "status_at gid op s i = b_status (the (branch_at gid (branch_id i) op s))"

lemma saga_ready_states:
  assumes "saga_ready gid n s"
  shows "branch_states (list_branches gid s) n =
    (map (status_at gid Action s) [0..<n], map (status_at gid Compensate s) [0..<n])"
proof -
  have fill: "fill (slot n ops) (list_branches gid s) (replicate n BPrepared) =
      map (status_at gid op s) [0..<n]"
    if "op = Action \<and> ops = {Action, Try} \<or> op = Compensate \<and> ops = {Compensate, Cancel, Rollback}"
    for op ops
  proof (rule nth_equalityI)
    fix i assume "i < length (fill (slot n ops) (list_branches gid s) (replicate n BPrepared))"
    then have i: "i < n" by simp
    with assms that obtain b where b: "branch_at gid (branch_id i) op s = Some b"
      by (auto simp: saga_ready_def)
    have "fill (slot n ops) (list_branches gid s) (replicate n BPrepared) ! i = b_status b"
      using assms that i
      by (intro fill_list_branches [OF _ _ b]) (auto simp: saga_ready_def)
    with b i show "fill (slot n ops) (list_branches gid s) (replicate n BPrepared) ! i =
        map (status_at gid op s) [0..<n] ! i" by (simp add: status_at_def)
  qed simp
  show ?thesis by (simp add: branch_states_fill fill)
qed

lemma list_branches_set_status:
  "set (list_branches gid (set_branch_status gid bid op st s)) =
     (\<lambda>b. if b_key b = (gid, bid, op) then put_branch_status st (now s) b else b) `
       set (list_branches gid s)"
  by (auto simp: set_list_branches set_branch_status_def set_update_where)

lemma saga_ready_set_status:
  assumes "saga_ready gid n s"
  shows "saga_ready gid n (set_branch_status gid (branch_id i) op st s)"
    and "i < n \<Longrightarrow> op = Action \<or> op = Compensate \<Longrightarrow> j < n \<Longrightarrow>
      status_at gid o' (set_branch_status gid (branch_id i) op st s) j =
        (if o' = op \<and> j = i then st else status_at gid o' s j)"
proof -
  let ?s = "set_branch_status gid (branch_id i) op st s"
  have "well_numbered gid ?s"
    using assms
    by (auto simp: saga_ready_def well_numbered_def set_branch_status_def set_update_where
        split: if_splits)
  moreover have "\<forall>b\<in>set (list_branches gid ?s). b_op b = Action \<or> b_op b = Compensate"
    using assms by (auto simp: list_branches_set_status saga_ready_def)
  ultimately show "saga_ready gid n ?s"
    using assms by (auto simp: saga_ready_def store_ok_set_branch_status branch_at_set_status)
  assume "i < n" "op = Action \<or> op = Compensate" "j < n"
  moreover from this assms have "branch_at gid (branch_id i) op s \<noteq> None" by (auto simp: saga_ready_def)
  ultimately show "status_at gid o' ?s j = (if o' = op \<and> j = i then st else status_at gid o' s j)"
    by (auto simp: status_at_def branch_at_set_status branch_id_inj)
qed

lemma saga_ready_transition:
  assumes "saga_ready gid n s"
  shows "saga_ready gid n (snd (transition x f t tt r s))"
    and "status_at gid op (snd (transition x f t tt r s)) = status_at gid op s"
  using assms
  by (auto simp: saga_ready_def store_ok_transition well_numbered_def list_branches_def
      branch_at_global_ops status_at_def)

section \<open>The phases of the loop\<close>

text \<open>
  Where a run stands: the first \<open>j\<close> actions done, the compensations from \<open>c\<close> on done, and the
  status of the row.
\<close>

definition at_point ::
  "global_row \<Rightarrow> nat \<Rightarrow> nat \<Rightarrow> branch_status list \<Rightarrow> global_status \<Rightarrow> world \<Rightarrow> bool" where
  "at_point g n c acts st w \<longleftrightarrow>
     saga_ready (g_gid g) n (w_store w) \<and> length acts = n \<and>
     (\<forall>i<n. status_at (g_gid g) Action (w_store w) i = acts ! i) \<and>
     (\<forall>i<n. status_at (g_gid g) Compensate (w_store w) i = (if i < c then BPrepared else BSucceed)) \<and>
     (\<exists>r. get_global (g_gid g) (w_store w) = Some r \<and> g_status r = st)"

lemma at_point_states:
  "at_point g n c acts st w \<Longrightarrow> branch_states (list_branches (g_gid g) (w_store w)) n =
     (acts, map (\<lambda>i. if i < c then BPrepared else BSucceed) [0..<n])"
  by (auto simp: at_point_def saga_ready_states intro: nth_equalityI)

lemma at_point_trace [simp]:
  "at_point g n c acts st (w\<lparr>w_step := m\<rparr>) = at_point g n c acts st w"
  "at_point g n c acts st (w\<lparr>w_trace := tr\<rparr>) = at_point g n c acts st w"
  by (simp_all add: at_point_def)

lemma at_point_action:
  assumes "at_point g n n acts st w" "i < n"
  shows "at_point g n n (acts[i := b]) st
    (w\<lparr>w_store := set_branch_status (g_gid g) (branch_id i) Action b (w_store w), w_step := m\<rparr>)"
  using assms saga_ready_set_status [of "g_gid g" n "w_store w", where i = i and op = Action and st = b]
  by (auto simp: at_point_def store_simps nth_list_update)

lemma at_point_compensate:
  assumes "at_point g n (Suc i) acts st w" "i < n"
  shows "at_point g n i acts st
    (w\<lparr>w_store := set_branch_status (g_gid g) (branch_id i) Compensate BSucceed (w_store w), w_step := m\<rparr>)"
  using assms saga_ready_set_status [of "g_gid g" n "w_store w", where i = i and op = Compensate and st = BSucceed]
  by (auto simp: at_point_def store_simps less_Suc_eq)

lemma at_point_transition:
  assumes "at_point g n c acts st w"
  shows "fst (transition (g_gid g) st t tt r (w_store w))"
    and "at_point g n c acts t
      (w\<lparr>w_store := snd (transition (g_gid g) st t tt r (w_store w)), w_step := m\<rparr>)"
  using assms saga_ready_transition [of "g_gid g" n "w_store w", where x = "g_gid g" and f = st and t = t and tt = tt and r = r]
    fst_transition [of "w_store w" "g_gid g" st t tt r]
  by (auto simp: at_point_def store_simps saga_ready_def store_ok_def)

section \<open>One turn of the loop\<close>

lemma world_order:
  fixes w :: world
  shows "w\<lparr>w_trace := t, w_store := s, w_step := m\<rparr> = w\<lparr>w_store := s, w_step := m, w_trace := t\<rparr>"
  by simp

lemma saga_loop_success:
  assumes "answers_by env ans" "e_others env = (\<lambda>n s. s)" "ans (branch_id i) op = Success"
    and "saga_advance status (fst (branch_states (list_branches (g_gid g) (w_store w)) (length steps)))
           (snd (branch_states (list_branches (g_gid g) (w_store w)) (length steps))) = Call i op"
  shows "\<exists>m c. run_state (saga_loop (Suc fuel) env d g steps status) w =
      run_state (saga_loop fuel env d g steps status)
        (w\<lparr>w_store := set_branch_status (g_gid g) (branch_id i) op BSucceed (w_store w), w_step := m,
           w_trace := w_trace w @ [Called c Success]\<rparr>) \<and>
    c_branch_id c = branch_id i \<and> c_op c = op"
proof -
  let ?w = "w\<lparr>w_step := Suc (w_step w)\<rparr>"
  from run_call_branch [OF assms(1), of g "branch_id i" op
      "if op = Action then s_action (steps ! i) else s_compensate (steps ! i)"
      "s_payload (steps ! i)" ?w]
  obtain c where "run_state (call_branch env g (branch_id i) op
      (if op = Action then s_action (steps ! i) else s_compensate (steps ! i))
      (s_payload (steps ! i))) ?w =
      (Success, ?w\<lparr>w_step := Suc (w_step ?w), w_trace := w_trace ?w @ [Called c Success]\<rparr>)"
    and "c_branch_id c = branch_id i \<and> c_op c = op"
    by (auto simp: assms(3))
  then show ?thesis
    by (intro exI [of _ "Suc (Suc (Suc (w_step w)))"] exI [of _ c])
      (simp add: assms(2,4) saga_call_def Let_def, simp add: world_order)
qed

lemma saga_loop_refused:
  assumes "answers_by env ans" "e_others env = (\<lambda>n s. s)" "ans (branch_id i) Action = Failure"
    and "saga_advance GSubmitted (fst (branch_states (list_branches (g_gid g) (w_store w)) (length steps)))
           (snd (branch_states (list_branches (g_gid g) (w_store w)) (length steps))) = Call i Action"
    and "w' = w\<lparr>w_store := set_branch_status (g_gid g) (branch_id i) Action BFailed (w_store w),
           w_step := 0\<rparr>"
    and "fst (transition (g_gid g) GSubmitted GAborting (g_trans_type g)
           (saga_failure_text (branch_id i)) (w_store w'))"
  shows "\<exists>m c. run_state (saga_loop (Suc fuel) env d g steps GSubmitted) w =
      run_state (saga_loop fuel env d g steps GAborting)
        (w'\<lparr>w_store := snd (transition (g_gid g) GSubmitted GAborting (g_trans_type g)
             (saga_failure_text (branch_id i)) (w_store w')), w_step := m,
           w_trace := w_trace w @ [Called c Failure, Status GSubmitted GAborting True]\<rparr>) \<and>
    c_branch_id c = branch_id i \<and> c_op c = Action"
proof -
  let ?w = "w\<lparr>w_step := Suc (w_step w)\<rparr>"
  from run_call_branch [OF assms(1), of g "branch_id i" Action "s_action (steps ! i)"
      "s_payload (steps ! i)" ?w]
  obtain c where "run_state (call_branch env g (branch_id i) Action (s_action (steps ! i))
      (s_payload (steps ! i))) ?w =
      (Failure, ?w\<lparr>w_step := Suc (w_step ?w), w_trace := w_trace ?w @ [Called c Failure]\<rparr>)"
    and "c_branch_id c = branch_id i \<and> c_op c = Action"
    by (auto simp: assms(3))
  with assms(6) show ?thesis
    by (intro exI [of _ "Suc (Suc (Suc (Suc (w_step w))))"] exI [of _ c])
      (simp add: assms(2,4,5) saga_call_def drv_transition_def Let_def del: saga_advance.simps)
qed

lemma saga_loop_finish:
  assumes "e_others env = (\<lambda>n s. s)" "s \<noteq> GAborting" "s \<noteq> status"
    and "saga_advance status (fst (branch_states (list_branches (g_gid g) (w_store w)) (length steps)))
           (snd (branch_states (list_branches (g_gid g) (w_store w)) (length steps))) = Finish s"
    and "fst (transition (g_gid g) status s (g_trans_type g) [] (w_store w))"
  shows "\<exists>m. run_state (saga_loop (Suc fuel) env d g steps status) w =
      (Done, w\<lparr>w_store := snd (transition (g_gid g) status s (g_trans_type g) [] (w_store w)),
         w_step := m, w_trace := w_trace w @ [Status status s True]\<rparr>)"
  using assms by (intro exI [of _ "Suc (Suc (w_step w))"]) (simp add: drv_transition_def)

section \<open>The phases\<close>

definition done_until :: "nat \<Rightarrow> nat \<Rightarrow> branch_status list" where
  "done_until n j = map (\<lambda>i. if i < j then BSucceed else BPrepared) [0..<n]"

lemma done_until_simps [simp]:
  "length (done_until n j) = n"
  "i < n \<Longrightarrow> done_until n j ! i = (if i < j then BSucceed else BPrepared)"
  by (simp_all add: done_until_def)

lemma done_until_Suc: "j < n \<Longrightarrow> (done_until n j)[j := BSucceed] = done_until n (Suc j)"
  by (auto intro!: nth_equalityI simp: nth_list_update less_Suc_eq)

lemma saga_advance_call_action:
  assumes "i < length acts" "acts ! i = BPrepared" "\<forall>j<i. acts ! j = BSucceed"
  shows "saga_advance GSubmitted acts comps = Call i Action"
proof -
  have "scan_up pending 0 acts = Some i" using assms by (auto simp: scan_up0_Some_iff pending_def)
  with assms(2) show ?thesis by (simp add: saga_forward_offset)
qed

lemma saga_advance_call_compensate:
  assumes "i < length comps" "comps ! i = BPrepared" "\<forall>j. i < j \<longrightarrow> j < length comps \<longrightarrow> comps ! j \<noteq> BPrepared"
  shows "saga_advance GAborting acts comps = Call i Compensate"
  using assms scan_down_Some_iff [of "\<lambda>st. st = BPrepared" comps "length comps" i] by simp

lemma forward_phase:
  assumes "answers_by env ans" "e_others env = (\<lambda>n s. s)" "n = length steps" "j \<le> k" "k \<le> n"
    and "\<forall>i<k. ans (branch_id i) Action = Success" "at_point g n n (done_until n j) GSubmitted w"
  shows "\<exists>w'. run_state (saga_loop ((k - j) + fuel) env d g steps GSubmitted) w =
      run_state (saga_loop fuel env d g steps GSubmitted) w' \<and>
    at_point g n n (done_until n k) GSubmitted w' \<and>
    called (w_trace w') = called (w_trace w) @ map (\<lambda>i. (branch_id i, Action)) [j..<k]"
  using assms(4,7)
proof (induction "k - j" arbitrary: j w)
  case 0
  then show ?case by auto
next
  case (Suc m)
  then have j: "j < k" "j < n" using assms(5) by auto
  let ?comps = "map (\<lambda>i. if i < n then BPrepared else BSucceed) [0..<n]"
  note st = at_point_states [OF Suc.prems(2)]
  have adv: "saga_advance GSubmitted
      (fst (branch_states (list_branches (g_gid g) (w_store w)) (length steps)))
      (snd (branch_states (list_branches (g_gid g) (w_store w)) (length steps))) = Call j Action"
    using st j assms(3) by (simp add: saga_advance_call_action del: saga_advance.simps)
  have "ans (branch_id j) Action = Success" using assms(6) j by blast
  from saga_loop_success [OF assms(1,2) this adv, of "(k - Suc j) + fuel" d]
  obtain t c where run: "run_state (saga_loop ((k - j) + fuel) env d g steps GSubmitted) w =
      run_state (saga_loop ((k - Suc j) + fuel) env d g steps GSubmitted)
        (w\<lparr>w_store := set_branch_status (g_gid g) (branch_id j) Action BSucceed (w_store w),
           w_step := t, w_trace := w_trace w @ [Called c Success]\<rparr>)" (is "_ = run_state _ ?w")
    and c: "c_branch_id c = branch_id j" "c_op c = Action"
    using j(1) by (auto simp: Suc_diff_Suc)
  have "at_point g n n (done_until n (Suc j)) GSubmitted ?w"
    using at_point_action [OF Suc.prems(2) j(2), of BSucceed t] j(2) by (simp add: done_until_Suc)
  moreover have "m = k - Suc j" "Suc j \<le> k" using Suc.hyps(2) j(1) by simp_all
  ultimately obtain w' where "run_state (saga_loop ((k - Suc j) + fuel) env d g steps GSubmitted) ?w =
      run_state (saga_loop fuel env d g steps GSubmitted) w'"
    and "at_point g n n (done_until n k) GSubmitted w'"
    and "called (w_trace w') = called (w_trace ?w) @ map (\<lambda>i. (branch_id i, Action)) [Suc j..<k]"
    using Suc.hyps(1) [of "Suc j" ?w] by blast
  with run c j(1) show ?case by (intro exI [of _ w']) (simp add: upt_conv_Cons)
qed

lemma backward_phase:
  assumes "answers_by env ans" "e_others env = (\<lambda>n s. s)" "n = length steps" "c \<le> n"
    and "\<forall>i<c. ans (branch_id i) Compensate = Success" "at_point g n c acts GAborting w"
  shows "\<exists>w'. run_state (saga_loop (c + fuel) env d g steps GAborting) w =
      run_state (saga_loop fuel env d g steps GAborting) w' \<and>
    at_point g n 0 acts GAborting w' \<and>
    called (w_trace w') = called (w_trace w) @ map (\<lambda>i. (branch_id i, Compensate)) (rev [0..<c])"
  using assms(4,5,6)
proof (induction c arbitrary: w)
  case 0
  then show ?case by auto
next
  case (Suc c)
  then have c: "c < n" by simp
  note st = at_point_states [OF Suc.prems(3)]
  have adv: "saga_advance GAborting
      (fst (branch_states (list_branches (g_gid g) (w_store w)) (length steps)))
      (snd (branch_states (list_branches (g_gid g) (w_store w)) (length steps))) = Call c Compensate"
    using st c assms(3) by (simp add: saga_advance_call_compensate del: saga_advance.simps)
  have "ans (branch_id c) Compensate = Success" using Suc.prems by blast
  from saga_loop_success [OF assms(1,2) this adv, of "c + fuel" d]
  obtain t r where run: "run_state (saga_loop (Suc c + fuel) env d g steps GAborting) w =
      run_state (saga_loop (c + fuel) env d g steps GAborting)
        (w\<lparr>w_store := set_branch_status (g_gid g) (branch_id c) Compensate BSucceed (w_store w),
           w_step := t, w_trace := w_trace w @ [Called r Success]\<rparr>)" (is "_ = run_state _ ?w")
    and r: "c_branch_id r = branch_id c" "c_op r = Compensate"
    by auto
  have "at_point g n c acts GAborting ?w"
    using at_point_compensate [OF Suc.prems(3) c, of t] by simp
  with Suc.IH [of ?w] Suc.prems(2) c
  obtain w' where "run_state (saga_loop (c + fuel) env d g steps GAborting) ?w =
      run_state (saga_loop fuel env d g steps GAborting) w'"
    and "at_point g n 0 acts GAborting w'"
    and "called (w_trace w') = called (w_trace ?w) @ map (\<lambda>i. (branch_id i, Compensate)) (rev [0..<c])"
    by auto
  with run r show ?case by (intro exI [of _ w']) simp
qed

lemma refusal_phase:
  assumes "answers_by env ans" "e_others env = (\<lambda>n s. s)" "n = length steps" "k < n"
    and "ans (branch_id k) Action = Failure" "at_point g n n (done_until n k) GSubmitted w"
  shows "\<exists>w'. run_state (saga_loop (Suc fuel) env d g steps GSubmitted) w =
      run_state (saga_loop fuel env d g steps GAborting) w' \<and>
    at_point g n n ((done_until n k)[k := BFailed]) GAborting w' \<and>
    called (w_trace w') = called (w_trace w) @ [(branch_id k, Action)]"
proof -
  note st = at_point_states [OF assms(6)]
  have adv: "saga_advance GSubmitted
      (fst (branch_states (list_branches (g_gid g) (w_store w)) (length steps)))
      (snd (branch_states (list_branches (g_gid g) (w_store w)) (length steps))) = Call k Action"
    using st assms(3,4) by (simp add: saga_advance_call_action del: saga_advance.simps)
  let ?w = "w\<lparr>w_store := set_branch_status (g_gid g) (branch_id k) Action BFailed (w_store w), w_step := 0\<rparr>"
  have failed: "at_point g n n ((done_until n k)[k := BFailed]) GSubmitted ?w"
    by (rule at_point_action [OF assms(6,4)])
  note turn = at_point_transition [OF failed, where t = GAborting and tt = "g_trans_type g" and
      r = "saga_failure_text (branch_id k)"]
  from saga_loop_refused [OF assms(1,2,5) adv refl turn(1), of fuel d]
  obtain t c where "run_state (saga_loop (Suc fuel) env d g steps GSubmitted) w =
      run_state (saga_loop fuel env d g steps GAborting)
        (?w\<lparr>w_store := snd (transition (g_gid g) GSubmitted GAborting (g_trans_type g)
             (saga_failure_text (branch_id k)) (w_store ?w)), w_step := t,
           w_trace := w_trace w @ [Called c Failure, Status GSubmitted GAborting True]\<rparr>)"
    and "c_branch_id c = branch_id k" "c_op c = Action" by blast
  with turn(2) [of t] show ?thesis by (intro exI conjI) (assumption, simp_all)
qed

lemma finish_phase:
  assumes "e_others env = (\<lambda>n s. s)" "n = length steps" "at_point g n c acts st w"
    and "st = GSubmitted \<and> t = GSucceed \<and> (\<forall>a\<in>set acts. a = BSucceed) \<or>
         st = GAborting \<and> t = GFailed \<and> c = 0"
  shows "\<exists>w'. run_state (saga_loop (Suc fuel) env d g steps st) w = (Done, w') \<and>
    at_point g n c acts t w' \<and> called (w_trace w') = called (w_trace w)"
proof -
  have adv: "saga_advance st
      (fst (branch_states (list_branches (g_gid g) (w_store w)) (length steps)))
      (snd (branch_states (list_branches (g_gid g) (w_store w)) (length steps))) = Finish t"
    using at_point_states [OF assms(3)] assms(2,4) scan_down_all_None_iff [of "\<lambda>st. st = BPrepared" "map (\<lambda>i. BSucceed) [0..<length steps]"]
    by (auto simp: saga_forward_offset scan_up_None_iff pending_def split: option.splits)
  note turn = at_point_transition [OF assms(3), where t = t and tt = "g_trans_type g" and r = "[]"]
  have "t \<noteq> GAborting" "t \<noteq> st" using assms(4) by auto
  from saga_loop_finish [OF assms(1) this adv turn(1), of fuel d]
  obtain m where "run_state (saga_loop (Suc fuel) env d g steps st) w =
      (Done, w\<lparr>w_store := snd (transition (g_gid g) st t (g_trans_type g) [] (w_store w)),
         w_step := m, w_trace := w_trace w @ [Status st t True]\<rparr>)" by blast
  with turn(2) [of m] show ?thesis by (intro exI conjI) (assumption, simp_all)
qed

section \<open>From the row the API writes\<close>

definition stamped :: "int \<Rightarrow> branch_row \<Rightarrow> branch_row" where
  "stamped t b = b\<lparr>b_create_time := t, b_update_time := t, b_finish_time := None\<rparr>"

lemma stamped_simps [simp]:
  "b_key (stamped t b) = b_key b" "b_gid (stamped t b) = b_gid b" "b_op (stamped t b) = b_op b"
  "b_branch_id (stamped t b) = b_branch_id b" "b_status (stamped t b) = b_status b"
  by (simp_all add: stamped_def b_key_def)

lemma row_at_fold_insert:
  "row_at b_key x (fold (insert_branch t) bs rows) =
     (case row_at b_key x rows of Some r \<Rightarrow> Some r | None \<Rightarrow> map_option (stamped t) (row_at b_key x bs))"
  by (induction bs arbitrary: rows)
    (auto simp: row_at_insert_branch row_at_Cons row_at_Nil stamped_def split: option.splits)

lemma set_fold_insert:
  "set (fold (insert_branch t) bs rows) \<subseteq> set rows \<union> stamped t ` set bs"
proof (induction bs arbitrary: rows)
  case (Cons b bs)
  have "set (insert_branch t b rows) \<subseteq> insert (stamped t b) (set rows)"
    by (auto simp: insert_branch_def insert_ignore_def stamped_def)
  with Cons [of "insert_branch t b rows"] show ?case by auto
qed simp

lemma row_at_member:
  "r \<in> set rows \<Longrightarrow> distinct (map k rows) \<Longrightarrow> row_at k (k r) rows = Some r"
  using row_at_keyed [of k rows r] by (simp add: keyed_def)

lemma saga_rows_in:
  assumes "i < length steps" "op = Action \<or> op = Compensate"
  shows "\<exists>url p. branch_init gid (branch_id i) op url p \<in> set (snd (saga_rows js t gid steps))"
proof -
  from assms(1) have "(i, steps ! i) \<in> set (enumerate 0 steps)" by (simp add: in_set_enumerate_eq)
  with assms(2) show ?thesis
    by (force simp: saga_rows_def step_rows_def)
qed

lemma saga_rows_out:
  "b \<in> set (snd (saga_rows js t gid steps)) \<Longrightarrow>
   b_gid b = gid \<and> b_status b = BPrepared \<and> (b_op b = Action \<or> b_op b = Compensate) \<and>
   (\<exists>i<length steps. b_branch_id b = branch_id i)"
  by (auto simp: saga_rows_def step_rows_def branch_init_def in_set_enumerate_eq)

lemma saga_rows_ready:
  assumes "create_global (fst (saga_rows js t gid steps)) (snd (saga_rows js t gid steps)) s =
      (Inr True, s')"
    and "store_ok s" "list_branches gid s = []" "length steps \<le> max_branch_index + 1"
  shows "saga_ready gid (length steps) s'"
    and "i < length steps \<Longrightarrow> op = Action \<or> op = Compensate \<Longrightarrow> status_at gid op s' i = BPrepared"
proof -
  let ?rows = "snd (saga_rows js t gid steps)"
  have st: "st_branch s' = fold (insert_branch (now s)) ?rows (st_branch s)"
    using create_global_True [OF assms(1)] by simp
  have none: "b_gid b \<noteq> gid" if "b \<in> set (st_branch s)" for b
    using that assms(3) set_list_branches [of gid s] by auto
  have new: "b \<in> stamped (now s) ` set ?rows" if "b \<in> set (st_branch s')" "b_gid b = gid" for b
    using that none set_fold_insert [of "now s" ?rows "st_branch s"] by (auto simp: st)
  have at: "\<exists>b. branch_at gid (branch_id i) op s' = Some b \<and> b_status b = BPrepared"
    if "i < length steps" "op = Action \<or> op = Compensate" for i op
  proof -
    from saga_rows_in [OF that] obtain url p
      where b: "branch_init gid (branch_id i) op url p \<in> set ?rows" by blast
    have "row_at b_key (gid, branch_id i, op) (st_branch s) = None"
      using none by (auto simp: row_at_None_iff b_key_def)
    moreover have "row_at b_key (gid, branch_id i, op) ?rows = Some (branch_init gid (branch_id i) op url p)"
      using row_at_member [OF b saga_rows_distinct] by (simp add: branch_init_def b_key_def)
    ultimately show ?thesis
      by (simp add: branch_at_def st row_at_fold_insert branch_init_def)
  qed
  have "store_ok s'" using store_ok_create_global [OF assms(2)] assms(1) by (metis snd_conv)
  moreover have "well_numbered gid s'"
    unfolding well_numbered_def
  proof (intro ballI impI)
    fix b assume "b \<in> set (st_branch s')" "b_gid b = gid"
    from new [OF this] obtain i where "i < length steps" "b_branch_id b = branch_id i"
      by (auto dest: saga_rows_out)
    with assms(4) show "is_canonical_branch_id (b_branch_id b)" by (auto simp: canonical_iff intro!: exI [of _ i])
  qed
  moreover have "\<forall>b\<in>set (list_branches gid s'). b_op b = Action \<or> b_op b = Compensate"
  proof
    fix b assume "b \<in> set (list_branches gid s')"
    then have "b \<in> stamped (now s) ` set ?rows" using new by (simp add: set_list_branches)
    then show "b_op b = Action \<or> b_op b = Compensate" by (auto dest: saga_rows_out)
  qed
  ultimately show "saga_ready gid (length steps) s'"
    using at assms(4) by (fastforce simp: saga_ready_def)
  assume "i < length steps" "op = Action \<or> op = Compensate"
  from at [OF this] show "status_at gid op s' i = BPrepared" by (auto simp: status_at_def)
qed

section \<open>Properties\<close>

lemma leased_at_start:
  assumes "create_global (fst (saga_rows js t gid steps)) (snd (saga_rows js t gid steps)) s =
      (Inr True, s1)"
    and "store_ok s" "list_branches gid s = []" "length steps \<le> max_branch_index + 1"
    and "lock_one_due owner lease s1 = (Some g, s2)" "g_gid g = gid"
  shows "at_point g (length steps) (length steps) (done_until (length steps) 0) GSubmitted (world_of s2)"
    and "g_trans_type g = Saga" "g_status g = GSubmitted" "g_payload g = js_of_steps js steps"
proof -
  note ready = saga_rows_ready [OF assms(1-4)]
  have s1: "keyed g_gid (st_global s1)" using ready(1) by (simp add: saga_ready_def store_ok_def)
  from lock_one_due_Some [OF s1 assms(5)] obtain g0
    where g0: "get_global gid s1 = Some g0" "g = take_lease owner (now s1) lease g0"
      and s2: "get_global gid s2 = Some g"
    using assms(6) by (auto simp: fun_eq_iff)
  from g0(1) get_create_global [OF assms(1), of gid]
  have "g0 = fresh_row (now s) (fst (saga_rows js t gid steps))"
    by (simp add: saga_rows_def global_init_def)
  with g0(2) show "g_trans_type g = Saga" and st: "g_status g = GSubmitted"
    and "g_payload g = js_of_steps js steps"
    by (simp_all add: fresh_row_def saga_rows_def global_init_def take_lease_def)
  have b: "st_branch s2 = st_branch s1" using assms(5) branch_table_unchanged(5) [of owner lease s1] by simp
  have "store_ok s2"
    using store_ok_lock [of s1 owner lease] ready(1) assms(5) by (simp add: saga_ready_def)
  with ready b have "saga_ready gid (length steps) s2"
    and "\<And>op i. i < length steps \<Longrightarrow> op = Action \<or> op = Compensate \<Longrightarrow> status_at gid op s2 i = BPrepared"
    by (simp_all add: saga_ready_def well_numbered_def list_branches_def branch_at_def status_at_def)
  with s2 st assms(6)
  show "at_point g (length steps) (length steps) (done_until (length steps) 0) GSubmitted (world_of s2)"
    by (simp add: at_point_def)
qed

lemma process_saga_at_start:
  assumes "g_trans_type g = Saga" "g_status g = GSubmitted" "g_payload g = js_of_steps (dr_json d) steps"
    and "js_steps (dr_json d) (js_of_steps (dr_json d) steps) = Some steps" "steps \<noteq> []"
  shows "process fuel env d g = saga_loop fuel env d g steps GSubmitted"
  using assms by (simp add: process_def prepared_timeout_to_def process_saga_def or_default_def)

definition two_steps :: "saga_step list" where
  "two_steps =
     [\<lparr>s_action = ''http://a/out'', s_compensate = ''http://a/back'', s_payload = []\<rparr>,
      \<lparr>s_action = ''local://in'', s_compensate = ''grpc://b/S/Back'', s_payload = ''{}''\<rparr>]"

definition saga_start :: store where
  "saga_start = (let rows = saga_rows (demo_json two_steps []) 0 ''g'' two_steps
     in snd (create_global (fst rows) (snd rows) (empty_store 5)))"

lemma saga_start_facts:
  "create_global (fst (saga_rows (dr_json (demo_driver two_steps [])) 0 ''g'' two_steps))
     (snd (saga_rows (dr_json (demo_driver two_steps [])) 0 ''g'' two_steps)) (empty_store 5) =
   (Inr True, saga_start)"
  "lock_one_due ''w'' 30 saga_start =
     (Some (the (fst (lock_one_due ''w'' 30 saga_start))), snd (lock_one_due ''w'' 30 saga_start))"
  "g_gid (the (fst (lock_one_due ''w'' 30 saga_start))) = ''g''"
  by code_simp+

lemma saga_start_setting:
  "store_ok (empty_store 5)" "list_branches ''g'' (empty_store 5) = []" "two_steps \<noteq> []"
  "length two_steps = 2" "length two_steps \<le> max_branch_index + 1"
  "js_steps (dr_json (demo_driver two_steps [])) (js_of_steps (dr_json (demo_driver two_steps [])) two_steps) =
     Some two_steps"
  by (simp_all add: store_ok_def keyed_def empty_store_def list_branches_def two_steps_def
      demo_driver_def with_config_def demo_json_def max_branch_index_def)

text \<open>
  A saga whose actions all succeed: from the rows the API writes, the worker that leases it
  calls the actions once each in order, no compensation, and ends it as succeeded; the number of
  steps and one is fuel enough.
\<close>

theorem saga_succeeds_in_order:
  assumes "answers_by env ans" "e_others env = (\<lambda>n s. s)"
    and "create_global (fst (saga_rows (dr_json d) t gid steps))
      (snd (saga_rows (dr_json d) t gid steps)) s = (Inr True, s1)"
    and "store_ok s" "list_branches gid s = []"
    and "lock_one_due owner lease s1 = (Some g, s2)" "g_gid g = gid"
    and "js_steps (dr_json d) (js_of_steps (dr_json d) steps) = Some steps"
    and "steps \<noteq> []" "length steps \<le> max_branch_index + 1"
    and "\<forall>i<length steps. ans (branch_id i) Action = Success" "length steps + 1 \<le> fuel"
  shows "\<exists>w r. run_state (process fuel env d g) (world_of s2) = (Done, w) \<and>
    called (w_trace w) = map (\<lambda>i. (branch_id i, Action)) [0..<length steps] \<and>
    get_global gid (w_store w) = Some r \<and> g_status r = GSucceed"
proof -
  let ?n = "length steps"
  note start = leased_at_start [OF assms(3-5,10,6,7)]
  obtain f where f: "fuel = ?n + Suc f"
    using assms(12) by (metis add_Suc_right le_add_diff_inverse Suc_eq_plus1 add.commute add_Suc)
  from forward_phase [OF assms(1,2) refl le0 order_refl assms(11) start(1), of "Suc f" d]
  obtain w1 where run: "run_state (saga_loop fuel env d g steps GSubmitted) (world_of s2) =
      run_state (saga_loop (Suc f) env d g steps GSubmitted) w1"
    and w1: "at_point g ?n ?n (done_until ?n ?n) GSubmitted w1"
      "called (w_trace w1) = map (\<lambda>i. (branch_id i, Action)) [0..<?n]"
    using f by auto
  have "\<forall>a\<in>set (done_until ?n ?n). a = BSucceed" by (auto simp: done_until_def)
  with finish_phase [OF assms(2) refl w1(1), of GSucceed f d]
  obtain w where "run_state (saga_loop (Suc f) env d g steps GSubmitted) w1 = (Done, w)"
    and "at_point g ?n ?n (done_until ?n ?n) GSucceed w" "called (w_trace w) = called (w_trace w1)"
    by blast
  with run w1(2) process_saga_at_start [OF start(2,3,4) assms(8,9), of fuel env] assms(7)
  show ?thesis by (auto simp: at_point_def)
qed

lemma saga_succeeds_in_order_witness:
  "\<exists>w r. run_state (process 3 (answering (\<lambda>_ _. Success)) (demo_driver two_steps [])
      (the (fst (lock_one_due ''w'' 30 saga_start)))) (world_of (snd (lock_one_due ''w'' 30 saga_start))) =
      (Done, w) \<and>
    called (w_trace w) = map (\<lambda>i. (branch_id i, Action)) [0..<length two_steps] \<and>
    get_global ''g'' (w_store w) = Some r \<and> g_status r = GSucceed"
  by (rule saga_succeeds_in_order [OF answers_by_answering others_answering saga_start_facts(1)
        saga_start_setting(1,2) saga_start_facts(2,3) saga_start_setting(6,3,5)])
    (simp_all add: saga_start_setting(4))




end
