(* ===== verification/Round_Ends.thy ===== *)
theory Round_Ends
  imports Saga_Run
begin

text \<open>
  Every round ends: whatever the branches answer, the loops of the driver make progress towards
  an end, because a branch that succeeds is recorded and is not called again. The measures count
  the branches still to be called, so they are also the fuel that is enough.
\<close>

section \<open>Calls leave the store alone\<close>

lemma store_call_branch [simp]:
  "w_store (snd (run_state (call_branch env g bid op url p) w)) = w_store w"
  by (auto simp: call_branch_def call_local_def call_http_def call_grpc_def
      split: target.splits option.splits)

section \<open>Counting prepared slots\<close>

definition prepared_below :: "(nat \<Rightarrow> branch_status) \<Rightarrow> nat \<Rightarrow> nat" where
  "prepared_below st n = card {i. i < n \<and> st i = BPrepared}"

lemma prepared_below_le: "prepared_below st n \<le> n"
proof -
  have "{i. i < n \<and> st i = BPrepared} \<subseteq> {..<n}" by auto
  from card_mono [OF _ this] show ?thesis by (simp add: prepared_below_def)
qed

lemma prepared_below_decr:
  assumes "i < n" "st i = BPrepared" "\<forall>j<n. st' j = (if j = i then v else st j)" "v \<noteq> BPrepared"
  shows "prepared_below st' n < prepared_below st n"
proof -
  have "{j. j < n \<and> st' j = BPrepared} = {j. j < n \<and> st j = BPrepared} - {i}"
    using assms(3,4) by (auto split: if_splits)
  moreover have "card ({j. j < n \<and> st j = BPrepared} - {i}) < card {j. j < n \<and> st j = BPrepared}"
    using assms(1,2) by (intro card_Diff1_less) auto
  ultimately show ?thesis by (simp add: prepared_below_def)
qed

lemma prepared_below_cong:
  "(\<And>i. i < n \<Longrightarrow> st i = st' i) \<Longrightarrow> prepared_below st n = prepared_below st' n"
  unfolding prepared_below_def by (rule arg_cong [where f = card]) auto

section \<open>Saga\<close>

definition saga_work :: "string \<Rightarrow> nat \<Rightarrow> global_status \<Rightarrow> store \<Rightarrow> nat" where
  "saga_work gid n st s =
     (if st = GSubmitted then Suc (prepared_below (status_at gid Action s) n) else 0) +
     prepared_below (status_at gid Compensate s) n"

lemma saga_work_le: "saga_work gid n st s \<le> 2 * n + 1"
  using prepared_below_le [of "status_at gid Action s" n] prepared_below_le [of "status_at gid Compensate s" n]
  by (auto simp: saga_work_def)

lemma saga_work_transition:
  "saga_ready gid n s \<Longrightarrow> saga_work gid n st (snd (transition x f t tt r s)) = saga_work gid n st s"
  by (simp add: saga_work_def saga_ready_transition(2))

lemma saga_work_set:
  assumes "saga_ready gid n s" "i < n" "op = Action \<and> st = GSubmitted \<or> op = Compensate"
    and "status_at gid op s i = BPrepared" "v \<noteq> BPrepared"
  shows "saga_work gid n st (set_branch_status gid (branch_id i) op v s) < saga_work gid n st s"
proof -
  let ?s = "set_branch_status gid (branch_id i) op v s"
  have op: "op = Action \<or> op = Compensate" using assms(3) by auto
  note set = saga_ready_set_status(2) [OF assms(1,2) op]
  have "prepared_below (status_at gid op ?s) n < prepared_below (status_at gid op s) n"
    by (rule prepared_below_decr [where i = i and v = v]) (use assms set in simp_all)
  moreover have "prepared_below (status_at gid o' ?s) n = prepared_below (status_at gid o' s) n"
    if "o' \<noteq> op" for o'
    by (rule prepared_below_cong) (use that in \<open>simp add: set\<close>)
  ultimately show ?thesis using assms(3) by (auto simp: saga_work_def)
qed

lemma saga_work_turn: "saga_work gid n GAborting s < saga_work gid n GSubmitted s"
  by (simp add: saga_work_def)

lemma saga_advance_decides_call:
  assumes "saga_advance st acts comps = Call i op"
  shows "op = Action \<and> st = GSubmitted \<and> i < length acts \<and> acts ! i = BPrepared \<or>
    op = Compensate \<and> st = GAborting \<and> i < length comps \<and> comps ! i = BPrepared"
  using assms
  by (cases st) (auto simp: saga_forward_offset scan_up0_Some_iff scan_down_Some_iff
      split: option.splits if_splits)

lemma drv_transition_ok:
  assumes "e_others env = (\<lambda>n s. s)" "run_state (drv_transition env g f t r) w = (True, w')" "f \<noteq> t"
  shows "w_store w' = snd (transition (g_gid g) f t (g_trans_type g) r (w_store w))"
  using assms by (auto simp: drv_transition_def split: if_splits)

lemma saga_call_progress:
  assumes "e_others env = (\<lambda>n s. s)" "saga_ready (g_gid g) n (w_store w)" "i < n"
    and "op = Action \<and> status = GSubmitted \<or> op = Compensate \<and> status = GAborting"
    and "status_at (g_gid g) op (w_store w) i = BPrepared"
    and "run_state (saga_call env d g steps status i op) w = (Some s, w')"
  shows "saga_ready (g_gid g) n (w_store w') \<and>
    saga_work (g_gid g) n s (w_store w') < saga_work (g_gid g) n status (w_store w)"
proof -
  let ?gid = "g_gid g" and ?bid = "branch_id i"
  let ?url = "if op = Action then s_action (steps ! i) else s_compensate (steps ! i)"
  obtain r w1 where call: "run_state (call_branch env g ?bid op ?url (s_payload (steps ! i))) w = (r, w1)"
    by fastforce
  then have w1: "w_store w1 = w_store w"
    using store_call_branch [of env g ?bid op ?url "s_payload (steps ! i)" w] by simp
  let ?set = "\<lambda>v. set_branch_status ?gid ?bid op v (w_store w)"
  have ready: "saga_ready ?gid n (?set v)" for v using assms(2) by (rule saga_ready_set_status)
  have less: "saga_work ?gid n status (?set v) < saga_work ?gid n status (w_store w)"
    if "v \<noteq> BPrepared" for v
    by (rule saga_work_set) (use assms that in auto)
  show ?thesis
  proof (cases r)
    case Success
    with call w1 assms(1,6) have "w_store w' = ?set BSucceed" "s = status"
      by (auto simp: saga_call_def Let_def)
    with ready less show ?thesis by simp
  next
    case Failure
    show ?thesis
    proof (cases "op = Action")
      case True
      let ?w = "w1\<lparr>w_store := ?set BFailed, w_step := Suc (w_step w1)\<rparr>"
      from True assms(4) have sub: "status = GSubmitted" by auto
      obtain ok w2 where t: "run_state (drv_transition env g status GAborting (saga_failure_text ?bid)) ?w = (ok, w2)"
        by fastforce
      with Failure True call w1 assms(1,6) have "ok" "s = GAborting" "w' = w2"
        by (auto simp: saga_call_def Let_def split: if_splits)
      with t drv_transition_ok [OF assms(1), of g status GAborting _ ?w w2] sub
      have w': "w_store w' = snd (transition ?gid GSubmitted GAborting (g_trans_type g)
          (saga_failure_text ?bid) (?set BFailed))" by simp
      have "saga_work ?gid n GAborting (?set BFailed) < saga_work ?gid n GSubmitted (w_store w)"
        using saga_work_turn [of ?gid n "?set BFailed"] less [of BFailed] sub by simp
      with w' \<open>s = GAborting\<close> sub ready saga_ready_transition(1) [OF ready] saga_work_transition [OF ready]
      show ?thesis by simp
    next
      case False
      with Failure call assms(1,6) show ?thesis by (auto simp: saga_call_def Let_def split_beta)
    qed
  qed (use call assms(1,6) in \<open>auto simp: saga_call_def Let_def split_beta\<close>)
qed

lemma saga_loop_ends:
  assumes "e_others env = (\<lambda>n s. s)" "saga_ready (g_gid g) (length steps) (w_store w)"
    and "saga_work (g_gid g) (length steps) status (w_store w) < fuel"
  shows "fst (run_state (saga_loop fuel env d g steps status) w) = Done"
  using assms(2,3)
proof (induction fuel arbitrary: w status)
  case 0
  then show ?case by simp
next
  case (Suc fuel)
  let ?n = "length steps" and ?gid = "g_gid g"
  let ?w = "w\<lparr>w_step := Suc (w_step w)\<rparr>"
  let ?acts = "map (status_at ?gid Action (w_store w)) [0..<?n]"
  let ?comps = "map (status_at ?gid Compensate (w_store w)) [0..<?n]"
  have states: "branch_states (list_branches ?gid (w_store w)) ?n = (?acts, ?comps)"
    by (rule saga_ready_states [OF Suc.prems(1)])
  have again: "fst (run_state (saga_loop fuel env d g steps s) w') = Done"
    if "saga_ready ?gid ?n (w_store w')"
      "saga_work ?gid ?n s (w_store w') < saga_work ?gid ?n status (w_store w)" for s w'
    using Suc.IH [OF that(1), of s] that(2) Suc.prems(2) by simp
  show ?case
  proof (cases "saga_advance status ?acts ?comps")
    case (Finish s)
    show ?thesis
    proof (cases "s = GAborting \<and> status \<noteq> GAborting")
      case True
      with Finish have sub: "status = GSubmitted" by (cases status) (auto split: option.splits)
      obtain ok w2 where t: "run_state (drv_transition env g status GAborting saga_failed_text) ?w = (ok, w2)"
        by fastforce
      show ?thesis
      proof (cases ok)
        case ok: True
        with t drv_transition_ok [OF assms(1), of g status GAborting _ ?w w2] sub
        have w2: "w_store w2 = snd (transition ?gid GSubmitted GAborting (g_trans_type g)
            saga_failed_text (w_store w))" by simp
        have "fst (run_state (saga_loop fuel env d g steps GAborting) w2) = Done"
          by (rule again) (simp_all add: w2 sub saga_ready_transition(1) [OF Suc.prems(1)]
              saga_work_transition [OF Suc.prems(1)] saga_work_turn)
        with True Finish states t ok show ?thesis by (simp add: assms(1) del: saga_advance.simps)
      next
        case False
        with True Finish states t show ?thesis by (simp add: assms(1) del: saga_advance.simps)
      qed
    next
      case False
      with Finish have "s \<noteq> GAborting" by (cases status) (auto split: option.splits)
      with Finish states show ?thesis by (simp add: assms(1) split_beta del: saga_advance.simps)
    qed
  next
    case (Call i op)
    from saga_advance_decides_call [OF this]
    have op: "op = Action \<and> status = GSubmitted \<or> op = Compensate \<and> status = GAborting"
      and i: "i < ?n" "status_at ?gid op (w_store w) i = BPrepared" by auto
    obtain r w2 where c: "run_state (saga_call env d g steps status i op) ?w = (r, w2)" by fastforce
    show ?thesis
    proof (cases r)
      case None
      with Call states c show ?thesis by (simp add: assms(1) del: saga_advance.simps)
    next
      case (Some s)
      with c have c: "run_state (saga_call env d g steps status i op) ?w = (Some s, w2)" by simp
      from saga_call_progress [OF assms(1) _ i(1) op _ c] Suc.prems(1) i(2)
      have "fst (run_state (saga_loop fuel env d g steps s) w2) = Done" by (intro again) simp_all
      with Call states c show ?thesis by (simp add: assms(1) del: saga_advance.simps)
    qed
  qed (use assms(1) states in \<open>simp_all del: saga_advance.simps\<close>)
qed

section \<open>TCC and XA\<close>

definition slot_status :: "string \<Rightarrow> branch_op \<Rightarrow> store \<Rightarrow> nat \<Rightarrow> branch_status" where
  "slot_status gid op s j =
     (case branch_at gid (branch_id j) op s of None \<Rightarrow> BPrepared | Some b \<Rightarrow> b_status b)"

definition numbered :: "string \<Rightarrow> nat \<Rightarrow> store \<Rightarrow> bool" where
  "numbered gid n s \<longleftrightarrow> store_ok s \<and> well_numbered gid s \<and> n \<le> max_branch_index + 1"

lemma fill_slot_status:
  assumes "numbered gid n s"
  shows "fill (slot n {op}) (list_branches gid s) (replicate n BPrepared) =
    map (slot_status gid op s) [0..<n]"
proof (rule nth_equalityI)
  fix j assume "j < length (fill (slot n {op}) (list_branches gid s) (replicate n BPrepared))"
  then have j: "j < n" "j \<le> max_branch_index" using assms by (simp_all add: numbered_def)
  have "fill (slot n {op}) (list_branches gid s) (replicate n BPrepared) ! j = slot_status gid op s j"
  proof (cases "branch_at gid (branch_id j) op s")
    case (Some b)
    with assms j have "fill (slot n {op}) (list_branches gid s) (replicate n BPrepared) ! j = b_status b"
      by (intro fill_list_branches [OF _ _ Some]) (auto simp: numbered_def)
    with Some show ?thesis by (simp add: slot_status_def)
  next
    case None
    have "slot n {op} r \<noteq> Some j" if r: "r \<in> set (list_branches gid s)" for r
    proof
      assume sel: "slot n {op} r = Some j"
      then have "index_of (b_branch_id r) = Some j" "b_op r = op"
        by (auto simp: slot_def split: option.splits if_splits)
      moreover from assms r have "is_canonical_branch_id (b_branch_id r)"
        by (auto simp: numbered_def well_numbered_def set_list_branches)
      ultimately have "b_branch_id r = branch_id j" by (intro canonical_index)
      with \<open>b_op r = op\<close> in_branch_at [OF _ r] assms None show False by (simp add: numbered_def)
    qed
    with None j show ?thesis by (simp add: fill_unselected slot_status_def)
  qed
  with j show "fill (slot n {op}) (list_branches gid s) (replicate n BPrepared) ! j =
      map (slot_status gid op s) [0..<n] ! j" by simp
qed simp

lemma split_by_op_slots:
  "numbered gid n s \<Longrightarrow> fwd \<noteq> bwd \<Longrightarrow> split_by_op (list_branches gid s) n fwd bwd =
     (map (slot_status gid fwd s) [0..<n], map (slot_status gid bwd s) [0..<n])"
  by (simp add: split_by_op_fill fill_slot_status)

lemma well_numbered_set_status:
  "well_numbered gid s \<Longrightarrow> well_numbered gid (set_branch_status gid' bid op v s)"
  by (auto simp: well_numbered_def set_branch_status_def set_update_where split: if_splits)

lemma numbered_set_status:
  "numbered gid n s \<Longrightarrow> numbered gid n (set_branch_status gid bid op v s)"
  by (simp add: numbered_def store_ok_set_branch_status well_numbered_set_status)

lemma slot_status_set:
  assumes "branch_at gid (branch_id i) op s \<noteq> None"
  shows "slot_status gid o' (set_branch_status gid (branch_id i) op v s) j =
    (if o' = op \<and> j = i then v else slot_status gid o' s j)"
  using assms by (auto simp: slot_status_def branch_at_set_status branch_id_inj split: option.splits)

text \<open>The branches of one direction that have not succeeded.\<close>

definition open_slots :: "string \<Rightarrow> nat \<Rightarrow> branch_op \<Rightarrow> store \<Rightarrow> nat" where
  "open_slots gid n op s = card {j. j < n \<and> slot_status gid op s j \<noteq> BSucceed}"

lemma open_slots_le: "open_slots gid n op s \<le> n"
proof -
  have "{j. j < n \<and> slot_status gid op s j \<noteq> BSucceed} \<subseteq> {..<n}" by auto
  from card_mono [OF _ this] show ?thesis by (simp add: open_slots_def)
qed

lemma open_slots_set:
  assumes "branch_at gid (branch_id i) op s \<noteq> None" "i < n" "slot_status gid op s i \<noteq> BSucceed"
  shows "open_slots gid n op (set_branch_status gid (branch_id i) op BSucceed s) < open_slots gid n op s"
proof -
  have "{j. j < n \<and> slot_status gid op (set_branch_status gid (branch_id i) op BSucceed s) j \<noteq> BSucceed} =
      {j. j < n \<and> slot_status gid op s j \<noteq> BSucceed} - {i}"
    using slot_status_set [OF assms(1)] by (auto split: if_splits)
  moreover have "card ({j. j < n \<and> slot_status gid op s j \<noteq> BSucceed} - {i}) <
      card {j. j < n \<and> slot_status gid op s j \<noteq> BSucceed}"
    using assms(2,3) by (intro card_Diff1_less) auto
  ultimately show ?thesis by (simp add: open_slots_def)
qed

abbreviation advance_of :: "branch_op \<Rightarrow> global_status \<Rightarrow> branch_status list \<Rightarrow> branch_status list \<Rightarrow> advance" where
  "advance_of fwd \<equiv> if fwd = Commit then xa_advance else tcc_advance"

abbreviation modes :: "branch_op \<Rightarrow> branch_op \<Rightarrow> bool" where
  "modes fwd bwd \<equiv> fwd = Confirm \<and> bwd = Cancel \<or> fwd = Commit \<and> bwd = Rollback"

lemma two_phase_decides_call:
  assumes "advance_of fwd st f b = Call i op" "modes fwd bwd"
  shows "st = GSubmitted \<and> op = fwd \<and> i < length f \<and> f ! i \<noteq> BSucceed \<or>
    st = GAborting \<and> op = bwd \<and> i < length b \<and> b ! i \<noteq> BSucceed"
proof (cases "fwd = Commit")
  case True
  with assms have "xa_advance st f b = Call i op" "bwd = Rollback" by auto
  with True show ?thesis by (elim xa.call_cases) (simp_all add: pending_def)
next
  case False
  with assms have "tcc_advance st f b = Call i op" "fwd = Confirm" "bwd = Cancel" by auto
  then show ?thesis by (elim tcc.call_cases) (simp_all add: pending_def)
qed

lemma two_phase_decides: "advance_of fwd st f b \<noteq> RunWorkflow \<and> advance_of fwd st f b \<noteq> CallEach is op"
  using xa.only_calls_and_finishes tcc.only_calls_and_finishes by simp

lemma url_of_branch_at:
  assumes "store_ok s" "url_of (list_branches gid s) bid op = Some u"
  shows "branch_at gid bid op s \<noteq> None"
proof -
  from assms(2) obtain r where "r \<in> set (list_branches gid s)" "b_branch_id r = bid" "b_op r = op"
    by (auto simp: url_of_def find_branch_def find_Some_iff in_set_conv_nth)
  with in_branch_at [OF assms(1)] show ?thesis by auto
qed

lemma two_phase_call_progress:
  assumes "e_others env = (\<lambda>n s. s)" "numbered (g_gid g) n (w_store w)" "i < n"
    and "slot_status (g_gid g) op (w_store w) i \<noteq> BSucceed"
    and "run_state (two_phase_call env d g (list_branches (g_gid g) (w_store w)) i op) w = (True, w')"
  shows "numbered (g_gid g) n (w_store w') \<and>
    open_slots (g_gid g) n op (w_store w') < open_slots (g_gid g) n op (w_store w)"
proof -
  let ?rows = "list_branches (g_gid g) (w_store w)" and ?bid = "branch_id i"
  from assms(5) obtain url where url: "url_of ?rows ?bid op = Some url"
    by (auto simp: two_phase_call_def Let_def split_beta split: option.splits)
  with assms(2) have at: "branch_at (g_gid g) ?bid op (w_store w) \<noteq> None"
    by (intro url_of_branch_at) (simp_all add: numbered_def)
  obtain r w1 where call: "run_state (call_branch env g ?bid op url (payload_of ?rows ?bid op)) w = (r, w1)"
    by fastforce
  then have w1: "w_store w1 = w_store w"
    using store_call_branch [of env g ?bid op url "payload_of ?rows ?bid op" w] by simp
  from assms(1,5) url call have "r = Success"
    by (cases r) (auto simp: two_phase_call_def Let_def split_beta)
  with assms(1,5) url call w1
  have "w_store w' = set_branch_status (g_gid g) ?bid op BSucceed (w_store w)"
    by (auto simp: two_phase_call_def Let_def)
  with open_slots_set [OF at assms(3,4)] numbered_set_status [OF assms(2)] show ?thesis by simp
qed

lemma two_phase_loop_ends:
  assumes "e_others env = (\<lambda>n s. s)" "modes fwd bwd" "numbered (g_gid g) n (w_store w)"
    and "open_slots (g_gid g) n (if g_status g = GSubmitted then fwd else bwd) (w_store w) < fuel"
  shows "fst (run_state (two_phase_loop fuel env d g n fwd bwd) w) = Done"
  using assms(3,4)
proof (induction fuel arbitrary: w)
  case 0
  then show ?case by simp
next
  case (Suc fuel)
  let ?gid = "g_gid g" and ?w = "w\<lparr>w_step := Suc (w_step w)\<rparr>"
  let ?f = "map (slot_status ?gid fwd (w_store w)) [0..<n]"
  let ?b = "map (slot_status ?gid bwd (w_store w)) [0..<n]"
  have split: "split_by_op (list_branches ?gid (w_store w)) n fwd bwd = (?f, ?b)"
    using assms(2) by (intro split_by_op_slots Suc.prems) auto
  show ?case
  proof (cases "advance_of fwd (g_status g) ?f ?b")
    case (Call i op)
    from two_phase_decides_call [OF this assms(2)]
    have op: "op = (if g_status g = GSubmitted then fwd else bwd)"
      and i: "i < n" "slot_status ?gid op (w_store w) i \<noteq> BSucceed" by auto
    obtain ok w2 where c: "run_state (two_phase_call env d g (list_branches ?gid (w_store w)) i op) ?w = (ok, w2)"
      by fastforce
    show ?thesis
    proof (cases ok)
      case True
      with two_phase_call_progress [OF assms(1), of g n ?w i op d w2] Suc.prems i c
      have "numbered ?gid n (w_store w2)"
        "open_slots ?gid n op (w_store w2) < open_slots ?gid n op (w_store w)" by simp_all
      with Suc.IH [of w2] Suc.prems(2) op
      have "fst (run_state (two_phase_loop fuel env d g n fwd bwd) w2) = Done" by simp
      with Call split c True show ?thesis by (simp add: assms(1))
    next
      case False
      with Call split c show ?thesis by (simp add: assms(1))
    qed
  qed (use split two_phase_decides [of fwd "g_status g" ?f ?b] in \<open>simp_all add: assms(1) split_beta\<close>)
qed

lemma index_bound_max: "index_bound rows \<le> max_branch_index + 1"
  by (intro index_bound_le) (auto dest: index_of_bound)

lemma drive_two_phase_ends:
  assumes "e_others env = (\<lambda>n s. s)" "modes fwd bwd" "store_ok (w_store w)"
    and "well_numbered (g_gid g) (w_store w)" "max_branch_index + 2 \<le> fuel"
  shows "fst (run_state (drive_two_phase fuel env d g fwd bwd) w) = Done"
proof -
  let ?n = "index_bound (list_branches (g_gid g) (w_store w))"
  let ?op = "if g_status g = GSubmitted then fwd else bwd"
  have n: "?n \<le> max_branch_index + 1" by (rule index_bound_max)
  with assms(5) open_slots_le [of "g_gid g" ?n ?op "w_store w"]
  have "open_slots (g_gid g) ?n ?op (w_store w) < fuel" by simp
  with two_phase_loop_ends [OF assms(1,2), of g ?n "w\<lparr>w_step := Suc (w_step w)\<rparr>" fuel d] assms(3,4) n
  show ?thesis
    by (auto simp: drive_two_phase_def assms(1) numbered_def split_beta Let_def)
qed

lemma well_numbered_transition [simp]:
  "well_numbered gid (snd (transition x f t tt r s)) = well_numbered gid s"
  by (simp add: well_numbered_def)

section \<open>Properties\<close>

text \<open>
  C21. A round on a saga ends whatever its branches answer: with the branches the saga was created
  with, two turns a step and two more are enough.
\<close>

theorem saga_round_ends:
  assumes "e_others env = (\<lambda>n s. s)" "g_trans_type g = Saga"
    and "js_steps (dr_json d) (g_payload g) = Some steps"
    and "saga_ready (g_gid g) (length steps) (w_store w)" "2 * length steps + 2 \<le> fuel"
  shows "fst (run_state (process fuel env d g) w) = Done"
proof -
  have "saga_work (g_gid g) (length steps) (g_status g) (w_store w) < fuel"
    using saga_work_le [of "g_gid g" "length steps" "g_status g" "w_store w"] assms(5) by simp
  with saga_loop_ends [OF assms(1,4)] assms(2,3) show ?thesis
    by (simp add: process_def prepared_timeout_to_def process_saga_def or_default_def split_beta)
qed

lemma saga_round_ends_witness:
  "fst (run_state (process 6 quiet (demo_driver two_steps [])
     (the (get_global ''g'' saga_start))) (world_of saga_start)) = Done"
proof (rule saga_round_ends)
  show "e_others quiet = (\<lambda>n s. s)" by simp
  show "g_trans_type (the (get_global ''g'' saga_start)) = Saga" by code_simp
  show "js_steps (dr_json (demo_driver two_steps [])) (g_payload (the (get_global ''g'' saga_start))) =
      Some two_steps"
    by (simp add: demo_driver_def with_config_def demo_json_def)
  have "g_gid (the (get_global ''g'' saga_start)) = ''g''" by code_simp
  with saga_rows_ready(1) [OF saga_start_facts(1) saga_start_setting(1,2,5)]
  show "saga_ready (g_gid (the (get_global ''g'' saga_start))) (length two_steps) (w_store (world_of saga_start))"
    by simp
  show "2 * length two_steps + 2 \<le> 6" by (simp add: saga_start_setting(4))
qed

text \<open>
  C20. A round on a TCC or XA transaction ends whatever its branches answer and in whatever status
  it is, if its branch numbers are ones that registration accepts; the largest number of branches
  and one turn more are enough.
\<close>

theorem two_phase_round_ends:
  assumes "e_others env = (\<lambda>n s. s)" "g_trans_type g = Tcc \<or> g_trans_type g = Xa"
    and "store_ok (w_store w)" "well_numbered (g_gid g) (w_store w)" "max_branch_index + 2 \<le> fuel"
  shows "fst (run_state (process fuel env d g) w) = Done"
proof -
  have ends: "fst (run_state (process_tcc fuel env d g') w') = Done"
    "fst (run_state (process_xa fuel env d g') w') = Done"
    if "g_gid g' = g_gid g" "store_ok (w_store w')" "well_numbered (g_gid g) (w_store w')" for g' w'
    using drive_two_phase_ends [OF assms(1) _ that(2) _ assms(5), of _ _ g' d] that
    by (simp_all add: process_tcc_def process_xa_def)
  show ?thesis
  proof (cases "prepared_timeout_to (g_status g) (g_trans_type g)")
    case None
    with ends [of g w] assms show ?thesis by (auto simp: process_def)
  next
    case (Some to_st)
    then have "g_status g = GPrepared" "to_st = GAborting" by (auto simp: prepared_timeout_to_def split: if_splits)
    with Some ends assms(1-4) show ?thesis
      by (auto simp: process_def process_prepared_def drv_transition_def split_beta Let_def
          store_ok_transition split: option.splits)
  qed
qed

lemma two_phase_round_ends_witness:
  "fst (run_state (process (max_branch_index + 2) quiet (demo_driver [] [])
     (global_init 5 ''g'' Tcc GSubmitted ''[]'')) (world_of (one_txn 5 Tcc GSubmitted))) = Done"
  by (rule two_phase_round_ends)
    (simp_all add: global_init_def well_numbered_def)

end
