(* ===== verification/Workflow_Laws.thy ===== *)
theory Workflow_Laws
  imports Workflow Branch_Slots
begin

text \<open>
  What makes replaying a workflow safe: a branch that has succeeded is not executed again, and
  no branch is executed before it and its compensation are registered.
\<close>

text \<open>The context of a replay, in step with the store: \<open>k\<close> branches opened so far.\<close>

definition replay_ctx :: "string \<Rightarrow> string \<Rightarrow> nat \<Rightarrow> store \<Rightarrow> wf_ctx" where
  "replay_ctx gid input k s = (wf_ctx_new gid input (list_branches gid s))\<lparr>x_seq := k\<rparr>"

lemma replay_ctx_simps [simp]:
  "x_gid (replay_ctx gid input k s) = gid" "x_seq (replay_ctx gid input k s) = k"
  by (simp_all add: replay_ctx_def wf_ctx_new_def)

lemma find_SomeD: "find P xs = Some x \<Longrightarrow> x \<in> set xs \<and> P x"
  by (induction xs) (auto split: if_splits)

lemma recorded_replay:
  assumes "store_ok s"
  shows "recorded (replay_ctx gid input k s) bid = branch_at gid bid Action s"
proof (cases "branch_at gid bid Action s")
  case None
  have "b_branch_id r \<noteq> bid" if "r \<in> set (list_branches gid s)" "b_op r = Action" for r
    using in_branch_at [OF assms that(1)] that(2) None by auto
  with None show ?thesis
    by (auto simp: recorded_def replay_ctx_def wf_ctx_new_def find_None_iff)
next
  case (Some b)
  note b = branch_at_in [OF Some]
  let ?rows = "rev (filter (\<lambda>r. b_op r = Action) (list_branches gid s))"
  have "find (\<lambda>r. b_branch_id r = bid) ?rows \<noteq> None" using b by (auto simp: find_None_iff)
  then obtain r where r: "find (\<lambda>r. b_branch_id r = bid) ?rows = Some r" by blast
  from find_SomeD [OF r] have "r \<in> set (list_branches gid s)" "b_op r = Action" "b_branch_id r = bid"
    by auto
  with b have "r = b" by (intro list_branches_unique [OF assms]) auto
  with r Some show ?thesis by (simp add: recorded_def replay_ctx_def wf_ctx_new_def)
qed

lemma branch_at_set_result:
  assumes "set_branch_result gid bid op st p s = (Inr (), s')"
  shows "branch_at gid bid op s' =
    map_option (\<lambda>b. (put_branch_status st (now s) b)\<lparr>b_payload := p\<rparr>) (branch_at gid bid op s)"
proof -
  have key: "b_key ((put_branch_status st t b)\<lparr>b_payload := p\<rparr>) = b_key b" for t b
    by (simp add: b_key_def put_branch_status_def)
  from assms have "s' = s\<lparr>st_branch := snd (update_where (\<lambda>b. b_key b = (gid, bid, op))
      (\<lambda>b. (put_branch_status st (now s) b)\<lparr>b_payload := p\<rparr>) (st_branch s))\<rparr>"
    unfolding set_branch_result_def by (simp split: sum.splits)
  then show ?thesis
    unfolding branch_at_def
    using row_at_update_key [where k = b_key and y = "(gid, bid, op)" and x = "(gid, bid, op)" and
        rs = "st_branch s" and f = "\<lambda>b. (put_branch_status st (now s) b)\<lparr>b_payload := p\<rparr>", OF key]
    by simp
qed

lemma wf_ops_stored:
  assumes "register_branch gid bid (wf_ops name cmp) s = (Inr Registered, s')"
  shows "\<exists>b. branch_at gid bid Action s' = Some b \<and> b_url b = name"
    and "cmp = Some c \<Longrightarrow> \<exists>b. branch_at gid bid Compensate s' = Some b \<and> b_url b = c"
  using assms register_ops_stores [of gid bid "[]" "now s" "wf_ops name cmp" "st_branch s" "st_branch s'"]
  by (auto simp: register_branch_def register_branch_with_def wf_ops_def branch_at_def
      split: sum.splits)

lemma execute_branch_saves:
  assumes "e_others env = (\<lambda>n s. s)"
    and "fst (register_branch gid bid (wf_ops name cmp) (w_store w)) = Inr Registered"
    and "run_state (execute_branch env gid bid name cmp f) w = (Inr data, w')"
  shows "\<exists>b. branch_at gid bid Action (w_store w') = Some b \<and> b_url b = name \<and>
    b_status b = BSucceed \<and> b_payload b = data"
proof -
  let ?s = "snd (register_branch gid bid (wf_ops name cmp) (w_store w))"
  have "register_branch gid bid (wf_ops name cmp) (w_store w) = (Inr Registered, ?s)"
    using assms(2) by (simp add: prod_eq_iff)
  from wf_ops_stored(1) [OF this] obtain b
    where b: "branch_at gid bid Action ?s = Some b" "b_url b = name" by blast
  have "set_branch_result gid bid Action BSucceed data ?s = (Inr (), w_store w')"
    using assms
    by (auto simp: execute_branch_def prod_eq_iff split_beta
        split: sum.splits branch_result.splits)
  from branch_at_set_result [OF this] b show ?thesis by (simp add: put_branch_status_def)
qed



text \<open>
  C23. No action before its registration: if opening a workflow branch calls anything, it is one
  call of that branch, the registration of the branch was not an error, and once registered the
  compensation is in the store with its address when the branch returns, whatever others do.
\<close>

theorem compensation_is_registered_first:
  assumes "rely env" "store_ok (w_store w)"
    and "run_state (run_with env ctx name (Some c) f) w = (r, w')" "w_trace w' \<noteq> w_trace w"
    and "register_branch (x_gid ctx) (branch_id (x_seq ctx)) (wf_ops name (Some c))
      (e_others env (w_step w) (w_store w)) = (reg, s)"
  shows "(\<exists>res. w_trace w' = w_trace w @ [Called (wf_call (x_gid ctx) (branch_id (x_seq ctx)) name) res]) \<and>
    (\<exists>outcome. reg = Inr outcome \<and> (outcome = Registered \<longrightarrow>
      (\<exists>b. branch_at (x_gid ctx) (branch_id (x_seq ctx)) Compensate (w_store w') = Some b \<and> b_url b = c)))"
proof -
  let ?gid = "x_gid ctx" and ?bid = "branch_id (x_seq ctx)"
  have run: "run_state (execute_branch env ?gid ?bid name (Some c) f) w = (r, w')"
    using assms(3,4) by (auto simp: run_with_def Let_def split: option.splits if_splits)
  then obtain outcome where reg: "reg = Inr outcome"
    using assms(4,5) by (auto simp: execute_branch_def split: sum.splits)
  let ?res = "fst (f (Suc (w_step w)))"
  have others: "evolves u (e_others env n u)" for n u using assms(1) by (simp add: rely_def)
  have after: "w_trace w' = w_trace w @ [Called (wf_call ?gid ?bid name) ?res] \<and> evolves s (w_store w')"
  proof (cases ?res)
    case Success
    with run assms(5) reg evolves_trans [OF others evolves_set_branch_result] show ?thesis
      by (auto simp: execute_branch_def split_beta split: sum.splits)
  next
    case Failure
    with run assms(5) reg evolves_trans [OF others evolves_set_branch_status] show ?thesis
      by (auto simp: execute_branch_def split_beta)
  qed (use run assms(5) reg in \<open>auto simp: execute_branch_def split_beta\<close>)
  have "\<exists>b. branch_at ?gid ?bid Compensate (w_store w') = Some b \<and> b_url b = c" if "outcome = Registered"
  proof -
    from assms(5) reg that have "register_branch ?gid ?bid (wf_ops name (Some c))
        (e_others env (w_step w) (w_store w)) = (Inr Registered, s)" by simp
    from wf_ops_stored(2) [OF this refl] after show ?thesis
      by (auto simp: evolves_def branch_kept_def branch_at_def)
  qed
  with after reg show ?thesis by blast
qed

lemma compensation_is_registered_first_witness:
  "\<exists>b. branch_at ''g'' (branch_id 0) Compensate (w_store (snd (run_state
      (run_with quiet (replay_ctx ''g'' [] 0 (one_txn 5 Workflow GSubmitted)) ''pay'' (Some ''local://undo'')
        (\<lambda>_. (Unknown, []))) (world_of (one_txn 5 Workflow GSubmitted))))) = Some b \<and> b_url b = ''local://undo''"
proof -
  let ?s = "one_txn 5 Workflow GSubmitted" and ?ctx = "replay_ctx ''g'' [] 0 (one_txn 5 Workflow GSubmitted)"
  let ?run = "run_state (run_with quiet ?ctx ''pay'' (Some ''local://undo'') (\<lambda>_. (Unknown, []))) (world_of ?s)"
  have reg: "register_branch (x_gid ?ctx) (branch_id (x_seq ?ctx)) (wf_ops ''pay'' (Some ''local://undo''))
      (e_others quiet (w_step (world_of ?s)) (w_store (world_of ?s))) =
    (Inr Registered, snd (register_branch ''g'' (branch_id 0) (wf_ops ''pay'' (Some ''local://undo'')) ?s))"
    by code_simp
  have run: "?run = (fst ?run, snd ?run)" by simp
  have trace: "w_trace (snd ?run) \<noteq> w_trace (world_of ?s)" by code_simp
  have "rely quiet" "store_ok (w_store (world_of ?s))" by (simp_all add: rely_unchanged)
  from compensation_is_registered_first [OF this run trace reg] show ?thesis by simp
qed

end
