(* ===== verification/Api.thy ===== *)
theory Api
  imports Driver
begin

text \<open>
  The operations offered to clients, whatever the protocol
  (\<^verbatim>\<open>crates/dtmrs-server/src/api.rs\<close>). Each reads and writes the store in several accesses, and
  the others may act between any two of them. The texts of the errors are constructors.
\<close>

datatype api_msg =
    Empty_gid | Unknown_trans_type | Saga_steps_empty | Prepare_first | Workflow_embedded_only
  | Empty_topic_name | Empty_url | Url_is_topic | Url_exists | Url_is_static
  | No_such_url | No_such_topic | Storage_not_found
  | Msg_actions_empty | Query_prepared_required | Expansion expand_error
  | Negative_timeout | Prepare_modes
  | Empty_gid_or_branch | Bad_branch_id string nat | No_more_branches global_status
  | Gid_missing_prepare | Tcc_needs_both | Xa_needs_both | Only_tcc_and_xa
  | Branch_taken string branch_op string
  | Gid_missing | Already_submitted trans_type | Already_final | Abort_contended
  | No_retry_when_final | Unknown_category string | Store_text store_error

datatype api_error =
    Bad_request api_msg | Not_found api_msg | Conflicting api_msg | Internal_error store_error

type_synonym 'a api_res = "api_error + 'a"

fun message :: "api_error \<Rightarrow> api_msg" where
  "message (Bad_request m) = m"
| "message (Not_found m) = m"
| "message (Conflicting m) = m"
| "message (Internal_error e) = Store_text e"

record branch_view =
  bv_branch_id :: string
  bv_op :: string
  bv_url :: string
  bv_status :: string

record trans_view =
  tv_gid :: string
  tv_trans_type :: string
  tv_status :: string
  tv_rollback_reason :: string
  tv_create_time :: int
  tv_finish_time :: "int option"
  tv_retry_count :: int
  tv_next_cron_time :: int
  tv_branches :: "branch_view list"

record register_request =
  rb_gid :: string
  rb_branch_id :: string
  rb_confirm :: string
  rb_cancel :: string
  rb_try :: string
  rb_commit :: string
  rb_rollback :: string
  rb_data :: string

record prepare_opts =
  po_payloads :: "string list"
  po_allow_empty_topic :: bool
  po_timeout_to_fail :: int

definition prepare_opts_default :: prepare_opts where
  "prepare_opts_default =
     \<lparr>po_payloads = [], po_allow_empty_topic = False, po_timeout_to_fail = 0\<rparr>"

text \<open>
  The static subscriptions are a \<open>BTreeMap\<close>: the association list in the order of its keys. The
  counter of empty topics is the number of \<open>Empty_topic_passed\<close> events.
\<close>

record api =
  ap_inline :: "driver option"
  ap_static_topics :: "(string \<times> string list) list"
  ap_json :: json
  ap_timeout_default :: int

definition api_new :: "json \<Rightarrow> int \<Rightarrow> api" where
  "api_new js dflt =
     \<lparr>ap_inline = None, ap_static_topics = [], ap_json = js, ap_timeout_default = dflt\<rparr>"

fun add_static :: "string \<Rightarrow> string \<Rightarrow> (string \<times> string list) list \<Rightarrow> (string \<times> string list) list" where
  "add_static t u [] = [(t, [u])]"
| "add_static t u ((t', us) # m) =
     (if t < t' then (t, [u]) # (t', us) # m
      else if t = t' then (t', if u \<in> set us then us else us @ [u]) # m
      else (t', us) # add_static t u m)"

definition with_static_topics :: "(string \<times> string) list \<Rightarrow> api \<Rightarrow> api" where
  "with_static_topics subs a =
     a\<lparr>ap_static_topics := fold (\<lambda>(t, u). add_static t u) subs []\<rparr>"

definition with_inline_driver :: "driver \<Rightarrow> api \<Rightarrow> api" where
  "with_inline_driver d a = a\<lparr>ap_inline := Some d\<rparr>"

definition static_urls :: "api \<Rightarrow> string \<Rightarrow> string list" where
  "static_urls a t = (case map_of (ap_static_topics a) t of None \<Rightarrow> [] | Some us \<Rightarrow> us)"

definition is_static :: "api \<Rightarrow> string \<Rightarrow> string \<Rightarrow> bool" where
  "is_static a t u \<longleftrightarrow> u \<in> set (static_urls a t)"

section \<open>Submitting\<close>

text \<open>The lease fields of a new transaction, and whether they were claimed.\<close>

definition claim_for_inline :: "environment \<Rightarrow> api \<Rightarrow> global_row \<Rightarrow> (bool \<times> global_row) prog" where
  "claim_for_inline env a g =
     (case ap_inline a of
        None \<Rightarrow> ret (False, g)
      | Some d \<Rightarrow> do {
          t \<leftarrow> observe env st_clock;
          let until = wrap_i64 (t + dr_lease d);
          ret (True, g\<lparr>g_owner := dr_owner d, g_next_cron_time := until, g_lease_until := until\<rparr>)
        })"

definition claim_and_submit :: "environment \<Rightarrow> api \<Rightarrow> string \<Rightarrow> submit_outcome prog" where
  "claim_and_submit env a gid = do {
     t \<leftarrow> observe env st_clock;
     let (owner, nct) = (case ap_inline a of
           Some d \<Rightarrow> (dr_owner d, wrap_i64 (t + dr_lease d)) | None \<Rightarrow> ([], t));
     row \<leftarrow> observe env (get_global gid);
     case row of
       None \<Rightarrow> ret Missing
     | Some g \<Rightarrow>
         if g_status g \<noteq> GPrepared then ret Already
         else do {
           execute env (submit_update gid owner nct);
           ret (Advanced (submitted_row owner nct g))
         }
   }"

definition drive_detached :: "api \<Rightarrow> global_row \<Rightarrow> unit prog" where
  "drive_detached a g = (case ap_inline a of None \<Rightarrow> ret () | Some d \<Rightarrow> emit (Detached g))"

definition submit_existing :: "environment \<Rightarrow> api \<Rightarrow> string \<Rightarrow> api_error \<Rightarrow> unit api_res prog" where
  "submit_existing env a gid missing = do {
     r \<leftarrow> claim_and_submit env a gid;
     case r of
       Advanced g \<Rightarrow> do { drive_detached a g; ret (Inr ()) }
     | Already \<Rightarrow> ret (Inr ())
     | Missing \<Rightarrow> ret (Inl missing)
   }"

definition submit_saga ::
  "environment \<Rightarrow> api \<Rightarrow> string \<Rightarrow> saga_step list \<Rightarrow> unit api_res prog" where
  "submit_saga env a gid steps = do {
     t \<leftarrow> observe env st_clock;
     let (g0, branches) = saga_rows (ap_json a) t gid steps;
     cg \<leftarrow> claim_for_inline env a g0;
     created \<leftarrow> access env (create_global (snd cg) branches);
     case created of
       Inl e \<Rightarrow> ret (Inl (Internal_error e))
     | Inr new \<Rightarrow>
         if new then do {
           (if fst cg then drive_detached a (snd cg) else ret ());
           ret (Inr ())
         }
         else do {
           r \<leftarrow> claim_and_submit env a gid;
           (case r of Advanced g \<Rightarrow> drive_detached a g | Already \<Rightarrow> ret () | Missing \<Rightarrow> ret ());
           ret (Inr ())
         }
   }"

definition submit ::
  "environment \<Rightarrow> api \<Rightarrow> string \<Rightarrow> string \<Rightarrow> saga_step list \<Rightarrow> unit api_res prog" where
  "submit env a gid trans_type steps =
     (if gid = [] then ret (Inl (Bad_request Empty_gid))
      else case parse_trans_type trans_type of
          None \<Rightarrow> ret (Inl (Bad_request Unknown_trans_type))
        | Some tt \<Rightarrow>
            if tt = Saga then
              (if steps = [] then submit_existing env a gid (Bad_request Saga_steps_empty)
               else submit_saga env a gid steps)
            else if tt = Workflow then ret (Inl (Bad_request Workflow_embedded_only))
            else submit_existing env a gid (Bad_request Prepare_first))"

section \<open>Topics\<close>

definition add_missing :: "string list \<Rightarrow> string list \<Rightarrow> string list" where
  "add_missing stored urls = fold (\<lambda>u us. if u \<in> set us then us else us @ [u]) stored urls"

definition topic_urls :: "environment \<Rightarrow> api \<Rightarrow> string \<Rightarrow> string list prog" where
  "topic_urls env a topic = do {
     subs \<leftarrow> observe env (list_subscriptions (Some topic));
     ret (add_missing (map t_url subs) (static_urls a topic))
   }"

definition api_subscribe ::
  "environment \<Rightarrow> api \<Rightarrow> string \<Rightarrow> string \<Rightarrow> string \<Rightarrow> unit api_res prog" where
  "api_subscribe env a topic url remark =
     (if topic = [] then ret (Inl (Bad_request Empty_topic_name))
      else if url = [] then ret (Inl (Bad_request Empty_url))
      else if prefix msg_topic_prefix url then ret (Inl (Bad_request Url_is_topic))
      else if is_static a topic url then ret (Inl (Bad_request Url_exists))
      else do {
        r \<leftarrow> access env (subscribe topic url remark);
        ret (case r of
               Inl e \<Rightarrow> Inl (Bad_request (Store_text e))
             | Inr added \<Rightarrow> if added then Inr () else Inl (Bad_request Url_exists))
      })"

definition api_unsubscribe ::
  "environment \<Rightarrow> api \<Rightarrow> string \<Rightarrow> string \<Rightarrow> unit api_res prog" where
  "api_unsubscribe env a topic url =
     (if topic = [] then ret (Inl (Bad_request Empty_topic_name))
      else if url = [] then ret (Inl (Bad_request Empty_url))
      else if is_static a topic url then ret (Inl (Bad_request Url_is_static))
      else do {
        removed \<leftarrow> access env (unsubscribe topic url);
        if removed then ret (Inr ())
        else do {
          subs \<leftarrow> observe env (list_subscriptions (Some topic));
          ret (Inl (Not_found (if subs \<noteq> [] then No_such_url else No_such_topic)))
        }
      })"

definition api_delete_topic :: "environment \<Rightarrow> string \<Rightarrow> unit api_res prog" where
  "api_delete_topic env topic =
     (if topic = [] then ret (Inl (Bad_request Empty_topic_name))
      else do {
        n \<leftarrow> access env (delete_topic topic);
        ret (if n = 0 then Inl (Not_found Storage_not_found) else Inr ())
      })"

definition static_subs :: "api \<Rightarrow> string option \<Rightarrow> topic_sub list" where
  "static_subs a topic =
     concat (map (\<lambda>(t, urls).
         map (\<lambda>u. \<lparr>t_topic = t, t_url = u, t_remark = ''(static)'', t_create_time = 0\<rparr>) urls)
       (filter (\<lambda>(t, urls). case topic of None \<Rightarrow> True | Some x \<Rightarrow> x = t) (ap_static_topics a)))"

definition list_topic_subs :: "environment \<Rightarrow> api \<Rightarrow> string option \<Rightarrow> topic_sub list prog" where
  "list_topic_subs env a topic = do {
     subs \<leftarrow> observe env (list_subscriptions topic);
     ret (sort_key t_topic
       (static_subs a topic @ filter (\<lambda>s. \<not> is_static a (t_topic s) (t_url s)) subs))
   }"

section \<open>Preparing\<close>

text \<open>The subscriptions of every topic the actions name, each read once.\<close>

primrec read_topics ::
  "environment \<Rightarrow> api \<Rightarrow> string list \<Rightarrow> (string \<Rightarrow> string list option) \<Rightarrow>
   (string \<Rightarrow> string list option) prog" where
  "read_topics env a [] subs = ret subs"
| "read_topics env a (action # actions) subs =
     (case strip_prefix msg_topic_prefix action of
        None \<Rightarrow> read_topics env a actions subs
      | Some t \<Rightarrow>
          if t \<noteq> [] \<and> subs t = None then do {
            urls \<leftarrow> topic_urls env a t;
            read_topics env a actions (subs(t \<mapsto> urls))
          }
          else read_topics env a actions subs)"

primrec note_empty :: "string list \<Rightarrow> unit prog" where
  "note_empty [] = ret ()"
| "note_empty (t # ts) = do { emit (Empty_topic_passed t); note_empty ts }"

definition prepare_msg ::
  "environment \<Rightarrow> api \<Rightarrow> string \<Rightarrow> string list \<Rightarrow> string \<Rightarrow> int option \<Rightarrow> prepare_opts \<Rightarrow>
   unit api_res prog" where
  "prepare_msg env a gid actions query_prepared grace_secs opts =
     (if actions = [] then ret (Inl (Bad_request Msg_actions_empty))
      else if query_prepared = [] then ret (Inl (Bad_request Query_prepared_required))
      else do {
        subs \<leftarrow> read_topics env a actions (\<lambda>_. None);
        case expand_msg_steps actions (po_payloads opts)
               (\<lambda>t. case subs t of None \<Rightarrow> [] | Some us \<Rightarrow> us) (po_allow_empty_topic opts) of
          Inl e \<Rightarrow> ret (Inl (Bad_request (Expansion e)))
        | Inr ex \<Rightarrow> do {
            note_empty (me_empty_topics ex);
            t \<leftarrow> observe env st_clock;
            let (g, br) = msg_rows_expanded (ap_json a) t gid (me_branches ex) query_prepared
                  (case grace_secs of None \<Rightarrow> 10 | Some n \<Rightarrow> n);
            created \<leftarrow> access env (create_global g br);
            ret (case created of Inl e \<Rightarrow> Inl (Internal_error e) | Inr _ \<Rightarrow> Inr ())
          }
      })"

definition prepare_with ::
  "environment \<Rightarrow> api \<Rightarrow> string \<Rightarrow> string \<Rightarrow> string list \<Rightarrow> string \<Rightarrow> int option \<Rightarrow> prepare_opts \<Rightarrow>
   unit api_res prog" where
  "prepare_with env a gid trans_type actions query_prepared grace_secs opts =
     (if gid = [] then ret (Inl (Bad_request Empty_gid))
      else case parse_trans_type trans_type of
          Some Msg \<Rightarrow> prepare_msg env a gid actions query_prepared grace_secs opts
        | Some tt \<Rightarrow>
            if tt = Tcc \<or> tt = Xa then
              (if po_timeout_to_fail opts < 0 then ret (Inl (Bad_request Negative_timeout))
               else do {
                 t \<leftarrow> observe env st_clock;
                 let g = (tcc_rows_with_timeout (ap_timeout_default a) t gid
                            (po_timeout_to_fail opts))\<lparr>g_trans_type := tt\<rparr>;
                 created \<leftarrow> access env (create_global g []);
                 ret (case created of Inl e \<Rightarrow> Inl (Internal_error e) | Inr _ \<Rightarrow> Inr ())
               })
            else ret (Inl (Bad_request Prepare_modes))
        | None \<Rightarrow> ret (Inl (Bad_request Prepare_modes)))"

definition prepare ::
  "environment \<Rightarrow> api \<Rightarrow> string \<Rightarrow> string \<Rightarrow> string list \<Rightarrow> string \<Rightarrow> int option \<Rightarrow>
   unit api_res prog" where
  "prepare env a gid trans_type actions query_prepared grace_secs =
     prepare_with env a gid trans_type actions query_prepared grace_secs prepare_opts_default"

section \<open>Registering a branch\<close>

definition register_ops_of :: "trans_type \<Rightarrow> register_request \<Rightarrow> api_error + (branch_op \<times> string) list" where
  "register_ops_of tt r =
     (case tt of
        Tcc \<Rightarrow>
          if rb_confirm r = [] \<or> rb_cancel r = [] then Inl (Bad_request Tcc_needs_both)
          else Inr ([(Confirm, rb_confirm r), (Cancel, rb_cancel r)]
                    @ (if rb_try r \<noteq> [] then [(Try, rb_try r)] else []))
      | Xa \<Rightarrow>
          if rb_commit r = [] \<or> rb_rollback r = [] then Inl (Bad_request Xa_needs_both)
          else Inr [(Commit, rb_commit r), (Rollback, rb_rollback r)]
      | _ \<Rightarrow> Inl (Bad_request Only_tcc_and_xa))"

definition api_register_branch :: "environment \<Rightarrow> register_request \<Rightarrow> unit api_res prog" where
  "api_register_branch env r =
     (if rb_gid r = [] \<or> rb_branch_id r = [] then ret (Inl (Bad_request Empty_gid_or_branch))
      else if \<not> is_canonical_branch_id (rb_branch_id r)
      then ret (Inl (Bad_request (Bad_branch_id (rb_branch_id r) (max_branch_index + 1))))
      else do {
        row \<leftarrow> observe env (get_global (rb_gid r));
        case row of
          None \<Rightarrow> ret (Inl (Not_found Gid_missing_prepare))
        | Some g \<Rightarrow>
            if g_status g = GAborting \<or> is_final (g_status g)
            then ret (Inl (Conflicting (No_more_branches (g_status g))))
            else (case register_ops_of (g_trans_type g) r of
                    Inl e \<Rightarrow> ret (Inl e)
                  | Inr ops \<Rightarrow> do {
                      reg \<leftarrow> access env (register_branch_with (rb_gid r) (rb_branch_id r) ops (rb_data r));
                      ret (case reg of
                             Inl e \<Rightarrow> Inl (Internal_error e)
                           | Inr Registered \<Rightarrow> Inr ()
                           | Inr (Conflict op existing) \<Rightarrow>
                               Inl (Conflicting (Branch_taken (rb_branch_id r) op existing)))
                    })
      })"

section \<open>Aborting and retrying\<close>

definition abort_text :: string where
  "abort_text = utf8 [232, 176, 131, 231, 148, 168, 230, 150, 185, 228, 184, 187, 229, 138, 168,
     228, 184, 173, 230, 173, 162]"

primrec abort_rounds :: "nat \<Rightarrow> environment \<Rightarrow> string \<Rightarrow> unit api_res prog" where
  "abort_rounds 0 env gid = ret (Inl (Conflicting Abort_contended))"
| "abort_rounds (Suc n) env gid = do {
     row \<leftarrow> observe env (get_global gid);
     case row of
       None \<Rightarrow> ret (Inl (Not_found Gid_missing))
     | Some g \<Rightarrow>
         if g_status g = GSubmitted
            \<and> (g_trans_type g = Tcc \<or> g_trans_type g = Xa \<or> g_trans_type g = Msg)
         then ret (Inl (Conflicting (Already_submitted (g_trans_type g))))
         else if is_final (g_status g) then ret (Inl (Conflicting Already_final))
         else if g_status g = GAborting then ret (Inr ())
         else do {
           ok \<leftarrow> access env (transition gid (g_status g) GAborting (g_trans_type g) abort_text);
           if \<not> ok then abort_rounds n env gid
           else do {
             execute env (schedule_now gid);
             ret (Inr ())
           }
         }
   }"

definition api_abort :: "environment \<Rightarrow> string \<Rightarrow> unit api_res prog" where
  "api_abort env gid = abort_rounds 5 env gid"

definition api_retry :: "environment \<Rightarrow> string \<Rightarrow> unit api_res prog" where
  "api_retry env gid = do {
     row \<leftarrow> observe env (get_global gid);
     case row of
       None \<Rightarrow> ret (Inl (Not_found Gid_missing))
     | Some g \<Rightarrow>
         if \<not> is_final (g_status g) then do { execute env (schedule_now gid); ret (Inr ()) }
         else ret (Inl (Conflicting No_retry_when_final))
   }"

section \<open>Queries\<close>

definition branch_view_of :: "branch_row \<Rightarrow> branch_view" where
  "branch_view_of b =
     \<lparr>bv_branch_id = b_branch_id b, bv_op = branch_op_str (b_op b), bv_url = b_url b,
      bv_status = branch_status_str (b_status b)\<rparr>"

definition trans_view_of :: "global_row \<Rightarrow> branch_row list \<Rightarrow> trans_view" where
  "trans_view_of g branches =
     \<lparr>tv_gid = g_gid g, tv_trans_type = trans_type_str (g_trans_type g),
      tv_status = global_status_str (g_status g), tv_rollback_reason = g_rollback_reason g,
      tv_create_time = g_create_time g, tv_finish_time = g_finish_time g,
      tv_retry_count = g_retry_count g, tv_next_cron_time = g_next_cron_time g,
      tv_branches = map branch_view_of branches\<rparr>"

definition api_query :: "environment \<Rightarrow> string \<Rightarrow> trans_view api_res prog" where
  "api_query env gid = do {
     row \<leftarrow> observe env (get_global gid);
     case row of
       None \<Rightarrow> ret (Inl (Not_found Gid_missing))
     | Some g \<Rightarrow> do {
         branches \<leftarrow> observe env (list_branches gid);
         ret (Inr (trans_view_of g branches))
       }
   }"

definition api_list_recent :: "environment \<Rightarrow> int \<Rightarrow> trans_view list prog" where
  "api_list_recent env limit = do {
     rows \<leftarrow> observe env (list_recent limit);
     ret (map (\<lambda>g. trans_view_of g []) rows)
   }"

primrec query_all :: "environment \<Rightarrow> global_row list \<Rightarrow> trans_view list api_res prog" where
  "query_all env [] = ret (Inr [])"
| "query_all env (g # gs) = do {
     v \<leftarrow> api_query env (g_gid g);
     case v of
       Inl e \<Rightarrow> ret (Inl e)
     | Inr view \<Rightarrow> do {
         rest \<leftarrow> query_all env gs;
         ret (case rest of Inl e \<Rightarrow> Inl e | Inr views \<Rightarrow> Inr (view # views))
       }
   }"

definition api_list_stuck :: "environment \<Rightarrow> int \<Rightarrow> int \<Rightarrow> trans_view list api_res prog" where
  "api_list_stuck env min_retries limit = do {
     rows \<leftarrow> observe env (list_stuck (max min_retries 0) (max 1 (min limit 1000)));
     query_all env rows
   }"

end
