(* ===== verification/Api_Laws.thy ===== *)
theory Api_Laws
  imports Api
begin

text \<open>
  What the operations of the API promise their callers: the effect of aborting and submitting on
  every branch, what a successful registration has stored, and that an error changes nothing.
\<close>

section \<open>Aborting\<close>

definition rolling_back :: "string \<Rightarrow> store \<Rightarrow> bool" where
  "rolling_back gid s \<longleftrightarrow>
     (\<exists>r. get_global gid s = Some r \<and> reach (g_trans_type r) GAborting (g_status r))"

lemma rolling_back_evolves: "rolling_back gid s \<Longrightarrow> evolves s s' \<Longrightarrow> rolling_back gid s'"
  unfolding rolling_back_def
  by (elim exE conjE, erule (1) evolves_status) (auto simp: row_evolves_def intro: reach_trans)

lemma rolling_back_schedule_now: "rolling_back gid s \<Longrightarrow> rolling_back gid (schedule_now gid s)"
  by (auto simp: rolling_back_def store_simps)

lemma rolling_back_transition:
  assumes "store_ok s" "fst (transition gid f GAborting tt r s)"
  shows "rolling_back gid (snd (transition gid f GAborting tt r s))"
  using assms fst_transition [of s gid f GAborting tt r]
  by (auto simp: rolling_back_def store_simps store_ok_def)

lemma abort_rounds_aborting:
  assumes "rely env" "store_ok (w_store w)" "run_state (abort_rounds n env gid) w = (Inr (), w')"
  shows "rolling_back gid (w_store w')"
  using assms(2,3)
proof (induction n arbitrary: w)
  case 0
  then show ?case by simp
next
  case (Suc n)
  let ?s = "e_others env (w_step w) (w_store w)"
  have ev: "evolves s (e_others env m s)" for m s using assms(1) by (simp add: rely_def)
  from evolves_ok [OF ev Suc.prems(1)] have ok: "store_ok ?s" .
  show ?case
  proof (cases "get_global gid ?s")
    case None
    with Suc.prems(2) show ?thesis by simp
  next
    case (Some g)
    let ?s2 = "e_others env (Suc (w_step w)) ?s"
    let ?t = "transition gid (g_status g) GAborting (g_trans_type g) abort_text ?s2"
    let ?w = "w\<lparr>w_store := snd ?t, w_step := Suc (Suc (w_step w))\<rparr>"
    from evolves_ok [OF ev ok] have ok2: "store_ok ?s2" .
    show ?thesis
    proof (cases "g_status g = GAborting")
      case True
      with Some Suc.prems(2) show ?thesis by (auto simp: rolling_back_def split: if_splits)
    next
      case False
      show ?thesis
      proof (cases "fst ?t")
        case True
        from rolling_back_evolves [OF rolling_back_transition [OF ok2 True] ev]
        have "rolling_back gid (schedule_now gid (e_others env (Suc (Suc (w_step w))) (snd ?t)))"
          by (rule rolling_back_schedule_now)
        with Some False True Suc.prems(2) show ?thesis by (auto split: if_splits)
      next
        case nok: False
        have "store_ok (snd ?t)" using ok2 by (rule store_ok_transition)
        moreover have "run_state (abort_rounds n env gid) ?w = (Inr (), w')"
          using Some False nok Suc.prems(2) by (auto split: if_splits)
        ultimately show ?thesis using Suc.IH [of ?w] by simp
      qed
    qed
  qed
qed



text \<open>
  Alone, an abort does exactly what its guards say: it refuses a transaction that does not
  exist, a submitted TCC, XA or message transaction and one that has ended, repeats itself
  harmlessly on one that is aborting, and turns every other one to aborting, due at once.
\<close>

theorem abort_outcome:
  assumes "e_others env = (\<lambda>n s. s)" "store_ok (w_store w)"
  shows "fst (run_state (api_abort env gid) w) =
      (case get_global gid (w_store w) of
         None \<Rightarrow> Inl (Not_found Gid_missing)
       | Some g \<Rightarrow>
           if g_status g = GSubmitted \<and> g_trans_type g \<in> {Tcc, Xa, Msg}
           then Inl (Conflicting (Already_submitted (g_trans_type g)))
           else if is_final (g_status g) then Inl (Conflicting Already_final) else Inr ()) \<and>
    get_global gid (w_store (snd (run_state (api_abort env gid) w))) =
      map_option (\<lambda>g.
        if g_status g = GPrepared \<or> g_status g = GSubmitted \<and> g_trans_type g \<in> {Saga, Workflow}
        then (put_status GAborting (now (w_store w)) abort_text g)
               \<lparr>g_next_cron_time := now (w_store w), g_next_cron_interval := 0\<rparr>
        else g) (get_global gid (w_store w))"
proof (cases "get_global gid (w_store w)")
  case None
  with assms(1) show ?thesis
    by (simp add: api_abort_def eval_nat_numeral)
next
  case (Some g)
  have "take_chars mid abort_text = abort_text" by code_simp
  with Some assms fst_transition [of "w_store w" gid "g_status g" GAborting "g_trans_type g" abort_text]
  show ?thesis
    by (cases "g_status g"; cases "g_trans_type g")
      (simp_all add: api_abort_def eval_nat_numeral store_simps store_ok_def)
qed

lemma abort_outcome_witness:
  "fst (run_state (api_abort quiet ''g'') (world_of (one_txn 5 Xa GSubmitted))) =
     Inl (Conflicting (Already_submitted Xa))"
  using abort_outcome [of quiet "world_of (one_txn 5 Xa GSubmitted)" "''g''"]
  by (simp add: global_init_def)

section \<open>Registering a branch\<close>

definition stored_branch :: "register_request \<Rightarrow> branch_op \<Rightarrow> string \<Rightarrow> store \<Rightarrow> bool" where
  "stored_branch r op url s \<longleftrightarrow>
     (\<exists>b. branch_at (rb_gid r) (rb_branch_id r) op s = Some b \<and> b_url b = url)"

lemma register_branch_with_stores:
  assumes "register_branch_with gid bid ops p s = (Inr Registered, s')" "(op, url) \<in> set ops"
  shows "\<exists>b. branch_at gid bid op s' = Some b \<and> b_url b = url"
  using assms register_ops_stores
  by (auto simp: register_branch_with_def branch_at_def split: sum.splits)

lemma register_branch_success:
  assumes "run_state (api_register_branch env r) w = (Inr (), w')"
  shows "is_canonical_branch_id (rb_branch_id r) \<and>
    (rb_confirm r \<noteq> [] \<and> rb_cancel r \<noteq> [] \<and> stored_branch r Confirm (rb_confirm r) (w_store w') \<and>
       stored_branch r Cancel (rb_cancel r) (w_store w') \<or>
     rb_commit r \<noteq> [] \<and> rb_rollback r \<noteq> [] \<and> stored_branch r Commit (rb_commit r) (w_store w') \<and>
       stored_branch r Rollback (rb_rollback r) (w_store w'))"
proof -
  let ?s = "e_others env (w_step w) (w_store w)"
  let ?s2 = "e_others env (Suc (w_step w)) ?s"
  from assms have can: "is_canonical_branch_id (rb_branch_id r)"
    by (auto simp: api_register_branch_def split: if_splits)
  from assms obtain g where g: "get_global (rb_gid r) ?s = Some g"
    by (auto simp: api_register_branch_def split: if_splits option.splits)
  with assms obtain ops where ops: "register_ops_of (g_trans_type g) r = Inr ops"
    by (auto simp: api_register_branch_def split: if_splits sum.splits)
  with assms g have reg: "register_branch_with (rb_gid r) (rb_branch_id r) ops (rb_data r) ?s2 =
      (Inr Registered, w_store w')"
    by (auto simp: api_register_branch_def prod_eq_iff split: if_splits sum.splits
        register_outcome.splits)
  note stores = register_branch_with_stores [OF reg]
  show ?thesis
  proof (cases "g_trans_type g")
    case Tcc
    with ops have "rb_confirm r \<noteq> []" "rb_cancel r \<noteq> []"
      "(Confirm, rb_confirm r) \<in> set ops" "(Cancel, rb_cancel r) \<in> set ops"
      by (auto simp: register_ops_of_def split: if_splits)
    with can stores show ?thesis by (auto simp: stored_branch_def)
  next
    case Xa
    with ops have "rb_commit r \<noteq> []" "rb_rollback r \<noteq> []"
      "(Commit, rb_commit r) \<in> set ops" "(Rollback, rb_rollback r) \<in> set ops"
      by (auto simp: register_ops_of_def split: if_splits)
    with can stores show ?thesis by (auto simp: stored_branch_def)
  qed (use ops in \<open>simp_all add: register_ops_of_def\<close>)
qed

text \<open>
  C24. When registering a branch reports success, in whatever environment, its number is one the
  driver can find again and the store holds both directions at the addresses given: confirm and
  cancel for TCC, commit and rollback for XA; no other mode registers branches.
\<close>

theorem registered_branch_is_complete:
  assumes "run_state (api_register_branch env r) w = (Inr (), w')"
  shows "is_canonical_branch_id (rb_branch_id r) \<and>
    (rb_confirm r \<noteq> [] \<and> rb_cancel r \<noteq> [] \<and> stored_branch r Confirm (rb_confirm r) (w_store w') \<and>
       stored_branch r Cancel (rb_cancel r) (w_store w') \<or>
     rb_commit r \<noteq> [] \<and> rb_rollback r \<noteq> [] \<and> stored_branch r Commit (rb_commit r) (w_store w') \<and>
       stored_branch r Rollback (rb_rollback r) (w_store w'))"
  by (rule register_branch_success [OF assms])

definition tcc_request :: register_request where
  "tcc_request =
     \<lparr>rb_gid = ''g'', rb_branch_id = ''01'', rb_confirm = ''http://c'', rb_cancel = ''http://x'',
      rb_try = [], rb_commit = [], rb_rollback = [], rb_data = []\<rparr>"

lemma registered_branch_is_complete_witness:
  "stored_branch tcc_request Cancel ''http://x''
     (w_store (snd (run_state (api_register_branch quiet tcc_request) (world_of (one_txn 5 Tcc GPrepared)))))"
proof -
  have "run_state (api_register_branch quiet tcc_request) (world_of (one_txn 5 Tcc GPrepared)) =
    (Inr (), snd (run_state (api_register_branch quiet tcc_request) (world_of (one_txn 5 Tcc GPrepared))))"
    by code_simp
  from registered_branch_is_complete [OF this] show ?thesis by (simp add: tcc_request_def)
qed

section \<open>Submitting\<close>

text \<open>
  Alone, submitting by gid a TCC, XA or message transaction is idempotent: a prepared one
  becomes submitted, every other one, also one being rolled back or failed, is left as it is,
  and both report success; only a gid that does not exist is an error.
\<close>

theorem submit_outcome:
  assumes "e_others env = (\<lambda>n s. s)" "gid \<noteq> []"
    and "parse_trans_type tt = Some Tcc \<or> parse_trans_type tt = Some Xa \<or> parse_trans_type tt = Some Msg"
  shows "fst (run_state (submit env a gid tt steps) w) =
      (if get_global gid (w_store w) = None then Inl (Bad_request Prepare_first) else Inr ()) \<and>
    map_option g_status (get_global gid (w_store (snd (run_state (submit env a gid tt steps) w)))) =
      map_option (\<lambda>g. if g_status g = GPrepared then GSubmitted else g_status g)
        (get_global gid (w_store w)) \<and>
    (get_global gid (w_store (snd (run_state (submit env a gid tt steps) w))) \<noteq>
       get_global gid (w_store w) \<longrightarrow>
     (\<exists>g. get_global gid (w_store w) = Some g \<and> g_status g = GPrepared))"
proof -
  have eq: "submit env a gid tt steps = submit_existing env a gid (Bad_request Prepare_first)"
    using assms(2,3) by (auto simp: submit_def)
  show ?thesis
    unfolding eq submit_existing_def claim_and_submit_def drive_detached_def
    using assms(1)
    by (cases "get_global gid (w_store w)"; cases "ap_inline a") (auto simp: store_simps)
qed

lemma submit_outcome_witness:
  "fst (run_state (submit quiet (api_new (demo_json [] []) 35) ''g'' ''tcc'' []) (world_of (one_txn 5 Tcc GFailed))) =
     Inr () \<and>
   map_option g_status (get_global ''g'' (w_store (snd (run_state
     (submit quiet (api_new (demo_json [] []) 35) ''g'' ''tcc'' []) (world_of (one_txn 5 Tcc GFailed)))))) = Some GFailed"
proof -
  have "parse_trans_type ''tcc'' = Some Tcc" by code_simp
  with submit_outcome [of quiet "''g''" "''tcc''" "api_new (demo_json [] []) 35" "[]"
      "world_of (one_txn 5 Tcc GFailed)"]
  show ?thesis by (simp add: global_init_def)
qed

section \<open>Errors\<close>

text \<open>A program that changes nothing when it ends in an error.\<close>

definition clean :: "'a api_res prog \<Rightarrow> bool" where
  "clean m \<longleftrightarrow> (\<forall>w. isl (fst (run_state m w)) \<longrightarrow> w_store (snd (run_state m w)) = w_store w)"

lemma clean_subscribe: "e_others env = (\<lambda>n s. s) \<Longrightarrow> clean (api_subscribe env a t u r)"
  by (auto simp: clean_def api_subscribe_def subscribe_def split_beta insert_ignore_def
      split: sum.splits if_splits)

lemma clean_unsubscribe: "e_others env = (\<lambda>n s. s) \<Longrightarrow> clean (api_unsubscribe env a t u)"
  by (auto simp: clean_def api_unsubscribe_def unsubscribe_def delete_where_def split_beta Let_def
      filter_empty_conv filter_id_conv split: if_splits)

lemma clean_delete_topic: "e_others env = (\<lambda>n s. s) \<Longrightarrow> clean (api_delete_topic env t)"
  by (auto simp: clean_def api_delete_topic_def delete_topic_def delete_where_def Let_def split_beta
      filter_empty_conv filter_id_conv split: if_splits)

lemma clean_register: "e_others env = (\<lambda>n s. s) \<Longrightarrow> clean (api_register_branch env r)"
  by (auto simp: clean_def api_register_branch_def register_branch_with_def
      split: option.splits sum.splits if_splits register_outcome.splits)

lemma clean_retry: "e_others env = (\<lambda>n s. s) \<Longrightarrow> clean (api_retry env gid)"
  by (auto simp: clean_def api_retry_def split: option.splits if_splits)

lemma clean_claim:
  assumes "e_others env = (\<lambda>n s. s)" "fst (run_state (claim_and_submit env a gid) w) = Missing"
  shows "w_store (snd (run_state (claim_and_submit env a gid) w)) = w_store w"
  using assms
  by (auto simp: claim_and_submit_def split: option.splits if_splits prod.splits)

lemma clean_submit_existing:
  "e_others env = (\<lambda>n s. s) \<Longrightarrow> clean (submit_existing env a gid missing)"
  by (auto simp: clean_def submit_existing_def clean_claim drive_detached_def split_beta
      split: submit_outcome.splits option.splits)

lemma create_global_Inl: "fst (create_global g bs s) = Inl e \<Longrightarrow> snd (create_global g bs s) = s"
  by (auto simp: create_global_def Let_def split_beta split: sum.splits if_splits)

lemma clean_submit_saga: "e_others env = (\<lambda>n s. s) \<Longrightarrow> clean (submit_saga env a gid steps)"
  by (auto simp: clean_def submit_saga_def claim_for_inline_def split_beta Let_def create_global_Inl
      split: sum.splits option.splits if_splits)

lemma clean_submit: "e_others env = (\<lambda>n s. s) \<Longrightarrow> clean (submit env a gid tt steps)"
  unfolding submit_def
  by (auto simp: clean_submit_existing clean_submit_saga split: option.splits)
    (simp add: clean_def)+

lemma store_read_topics:
  "e_others env = (\<lambda>n s. s) \<Longrightarrow> w_store (snd (run_state (read_topics env a actions subs) w)) = w_store w"
  by (induction actions arbitrary: subs w)
    (auto simp: topic_urls_def split_beta split: option.splits)

lemma store_note_empty: "w_store (snd (run_state (note_empty ts) w)) = w_store w"
  by (induction ts arbitrary: w) auto

lemma clean_prepare_msg:
  "e_others env = (\<lambda>n s. s) \<Longrightarrow> clean (prepare_msg env a gid actions qp grace opts)"
  unfolding clean_def prepare_msg_def
  by (auto simp: split_beta store_read_topics store_note_empty create_global_Inl
      split: sum.splits if_splits)

lemma clean_prepare: "e_others env = (\<lambda>n s. s) \<Longrightarrow> clean (prepare_with env a gid tt actions qp grace opts)"
  unfolding prepare_with_def
  by (auto simp: clean_prepare_msg split: option.splits trans_type.splits)
    (auto simp: clean_def create_global_Inl split_beta split: sum.splits)

lemma clean_abort_rounds:
  "e_others env = (\<lambda>n s. s) \<Longrightarrow> keyed g_gid (st_global (w_store w)) \<Longrightarrow>
   isl (fst (run_state (abort_rounds n env gid) w)) \<Longrightarrow>
   w_store (snd (run_state (abort_rounds n env gid) w)) = w_store w"
proof (cases n)
  case (Suc m)
  assume "e_others env = (\<lambda>n s. s)" "keyed g_gid (st_global (w_store w))"
    "isl (fst (run_state (abort_rounds n env gid) w))"
  with Suc fst_transition [of "w_store w" gid] show ?thesis
    by (auto split: option.splits if_splits)
qed simp

text \<open>
  C26. An operation of the API that reports an error has changed nothing: requests refused by a
  guard, by the store or by its unique keys leave every table as it was.
\<close>

theorem api_errors_change_nothing:
  assumes "e_others env = (\<lambda>n s. s)" "store_ok (w_store w)"
    and "m \<in> {submit env a gid tt steps, prepare_with env a gid tt actions qp grace opts,
      api_register_branch env r, api_abort env gid, api_retry env gid,
      api_subscribe env a topic url remark, api_unsubscribe env a topic url,
      api_delete_topic env topic}"
    and "run_state m w = (Inl e, w')"
  shows "w_store w' = w_store w"
proof (cases "m = api_abort env gid")
  case True
  with assms clean_abort_rounds [of env w 5 gid] show ?thesis
    by (simp add: api_abort_def store_ok_def)
next
  case False
  with assms(1,3) have "clean m"
    by (auto simp: clean_submit clean_prepare clean_register clean_retry clean_subscribe
        clean_unsubscribe clean_delete_topic)
  with assms(4) show ?thesis unfolding clean_def by (metis fst_conv snd_conv sum.disc(1))
qed

lemma api_errors_change_nothing_witness:
  "w_store (snd (run_state (api_retry quiet ''g'') (world_of (one_txn 5 Saga GFailed)))) = one_txn 5 Saga GFailed"
proof -
  have "run_state (api_retry quiet ''g'') (world_of (one_txn 5 Saga GFailed)) =
    (Inl (Conflicting No_retry_when_final),
     snd (run_state (api_retry quiet ''g'') (world_of (one_txn 5 Saga GFailed))))" by code_simp
  from api_errors_change_nothing [where env = quiet and gid = "''g''", OF _ _ _ this]
  show ?thesis by simp
qed

end
