(* ===== verification/Coordinator.thy ===== *)
theory Coordinator
  imports Driver_Guarantee Api
begin

text \<open>
  The whole coordinator: workers and API operations, each guaranteeing the life cycle to the
  others while relying on it. What holds of every program of the coordinator is collected in
  the inductive predicate \<open>coordinator\<close>, and the facts about a transaction's fate follow from
  the life cycle alone.
\<close>

section \<open>The invariant of a coordinator\<close>

definition coord :: "store \<Rightarrow> world \<Rightarrow> bool" where
  "coord s0 w \<longleftrightarrow> evolves s0 (w_store w) \<and> store_ok (w_store w)"

lemma coord_evolves:
  "coord s0 w \<Longrightarrow> evolves (w_store w) s \<Longrightarrow> coord s0 (w\<lparr>w_store := s, w_step := n\<rparr>)"
  using evolves_trans evolves_ok by (auto simp: coord_def)

lemma keeps_coord_access:
  assumes "rely env" "\<And>s. store_ok s \<Longrightarrow> evolves s (snd (f s))"
  shows "keeps (coord s0) (access env f)"
proof (rule keeps_access)
  fix w assume I: "coord s0 w"
  let ?s = "e_others env (w_step w) (w_store w)"
  have e: "evolves (w_store w) ?s" using assms(1) by (simp add: rely_def)
  with I have "store_ok ?s" using evolves_ok by (auto simp: coord_def)
  with assms(2) e have "evolves (w_store w) (snd (f ?s))" by (meson evolves_trans)
  with I show "coord s0 (w\<lparr>w_store := snd (f ?s), w_step := Suc (w_step w)\<rparr>)"
    by (rule coord_evolves)
qed

lemma keeps_coord_execute:
  "rely env \<Longrightarrow> (\<And>s. store_ok s \<Longrightarrow> evolves s (f s)) \<Longrightarrow> keeps (coord s0) (execute env f)"
  unfolding execute_def by (rule keeps_coord_access) simp_all

lemma keeps_coord_observe: "rely env \<Longrightarrow> keeps (coord s0) (observe env f)"
  unfolding observe_def by (rule keeps_coord_access) simp_all

lemma keeps_coord_emit: "keeps (coord s0) (emit e)"
  by (simp add: keeps_def triple_def coord_def)

text \<open>
  A program that goes on with a row it has read may use that the row exists and keeps its mode:
  from then on the invariant of that transaction holds.
\<close>

lemma keeps_coord_row:
  assumes "rely env" "keeps (coord s0) (f None)"
    and "\<And>g s1. keeps (txn_inv s1 gid (g_trans_type g)) (f (Some g))"
  shows "keeps (coord s0) (State_Monad.bind (observe env (get_global gid)) f)"
  unfolding keeps_def
proof (rule tripleI)
  fix w assume I: "coord s0 w"
  let ?s = "e_others env (w_step w) (w_store w)"
  let ?w = "w\<lparr>w_store := ?s, w_step := Suc (w_step w)\<rparr>"
  have I': "coord s0 ?w"
    using keepsD [OF keeps_coord_observe [OF assms(1), of s0 "get_global gid"] I] by simp
  have "coord s0 (snd (run_state (f (get_global gid ?s)) ?w))"
  proof (cases "get_global gid ?s")
    case None
    with keepsD [OF assms(2) I'] show ?thesis by simp
  next
    case (Some g)
    with I' have "txn_inv ?s gid (g_trans_type g) ?w" by (simp add: txn_inv_def coord_def)
    from keepsD [OF assms(3) this] Some
    have "evolves ?s (w_store (snd (run_state (f (Some g)) ?w)))"
      "store_ok (w_store (snd (run_state (f (Some g)) ?w)))" by (simp_all add: txn_inv_def)
    with I' Some show ?thesis by (auto simp: coord_def intro: evolves_trans)
  qed
  then show "coord s0 (snd (run_state (State_Monad.bind (observe env (get_global gid)) f) w))"
    by simp
qed

lemmas coord_rules = keeps_intro keeps_coord_access keeps_coord_execute keeps_coord_observe
  keeps_coord_emit

section \<open>The workers\<close>

lemma keeps_worker_turn:
  assumes "rely env"
  shows "keeps (coord s0) (State_Monad.bind (access env (lock_one_due owner lease))
    (\<lambda>r. case r of None \<Rightarrow> ret () | Some g \<Rightarrow> State_Monad.bind (process fuel env d g) (\<lambda>_. ret ())))"
  unfolding keeps_def
proof (rule tripleI)
  fix w assume I: "coord s0 w"
  let ?s = "e_others env (w_step w) (w_store w)"
  obtain r s' where l: "lock_one_due owner lease ?s = (r, s')" by fastforce
  let ?w = "w\<lparr>w_store := s', w_step := Suc (w_step w)\<rparr>"
  have e: "evolves (w_store w) ?s" using assms by (simp add: rely_def)
  with I have ok: "store_ok ?s" using evolves_ok by (auto simp: coord_def)
  from evolves_lock [OF ok, of owner lease] l have "evolves ?s s'" by simp
  with e have "evolves (w_store w) s'" by (rule evolves_trans)
  with I have I': "coord s0 ?w" by (rule coord_evolves)
  show "coord s0 (snd (run_state (State_Monad.bind (access env (lock_one_due owner lease))
      (\<lambda>r. case r of None \<Rightarrow> ret ()
        | Some g \<Rightarrow> State_Monad.bind (process fuel env d g) (\<lambda>_. ret ()))) w))"
  proof (cases r)
    case None
    with I' l show ?thesis by simp
  next
    case (Some g)
    from l Some ok have g: "get_global (g_gid g) s' = Some g" "\<not> is_final (g_status g)"
      using sql.lock_Some [of ?s owner lease g s']
      by (auto simp: fun_eq_iff free_at_def schedulable_def)
    from I' g(1) have "life s' g ?w" by (simp add: txn_inv_def coord_def)
    from keepsD [OF process_respects_life_cycle [OF assms g(2)] this, of fuel d]
    have "evolves s' (w_store (snd (run_state (process fuel env d g) ?w)))"
      "store_ok (w_store (snd (run_state (process fuel env d g) ?w)))"
      by (simp_all add: txn_inv_def)
    with I' have "coord s0 (snd (run_state (process fuel env d g) ?w))"
      by (auto simp: coord_def intro: evolves_trans)
    with l Some show ?thesis by (simp add: split_beta)
  qed
qed

lemma keeps_worker_loop:
  assumes "rely env" shows "keeps (coord s0) (worker_loop rounds fuel env d)"
proof (induction rounds)
  case 0
  then show ?case by (simp add: keeps_return)
next
  case (Suc rounds)
  have "worker_loop (Suc rounds) fuel env d = State_Monad.bind
      (State_Monad.bind (access env (lock_one_due (dr_owner d) (dr_lease d)))
        (\<lambda>r. case r of None \<Rightarrow> ret () | Some g \<Rightarrow> State_Monad.bind (process fuel env d g) (\<lambda>_. ret ())))
      (\<lambda>_. worker_loop rounds fuel env d)"
    by (auto intro!: state_ext simp: split_beta split: option.splits)
  then show ?case by (simp only:) (intro keeps_bind keeps_worker_turn Suc assms)
qed

section \<open>The API\<close>

lemma keeps_submit_existing:
  "rely env \<Longrightarrow> keeps (coord s0) (submit_existing env a gid missing)"
  unfolding submit_existing_def claim_and_submit_def drive_detached_def Let_def
  by (auto intro!: coord_rules evolves_ops split: submit_outcome.splits)

lemma keeps_claim_and_submit: "rely env \<Longrightarrow> keeps (coord s0) (claim_and_submit env a gid)"
  unfolding claim_and_submit_def Let_def by (auto intro!: coord_rules evolves_ops)

lemma keeps_drive_detached: "keeps (coord s0) (drive_detached a g)"
  unfolding drive_detached_def by (auto intro!: coord_rules)

lemma keeps_submit_saga: "rely env \<Longrightarrow> keeps (coord s0) (submit_saga env a gid steps)"
  unfolding submit_saga_def claim_for_inline_def Let_def
  by (auto intro!: coord_rules keeps_claim_and_submit keeps_drive_detached evolves_ops
      split: submit_outcome.splits)

lemma keeps_submit: "rely env \<Longrightarrow> keeps (coord s0) (submit env a gid tt steps)"
  unfolding submit_def by (intro coord_rules keeps_submit_existing keeps_submit_saga)

lemma keeps_read_topics: "rely env \<Longrightarrow> keeps (coord s0) (read_topics env a actions subs)"
  unfolding topic_urls_def
  by (induction actions arbitrary: subs)
    (auto simp: topic_urls_def intro!: coord_rules)

lemma keeps_note_empty: "keeps (coord s0) (note_empty ts)"
  by (induction ts) (auto intro!: coord_rules)

lemma keeps_prepare_with:
  "rely env \<Longrightarrow> keeps (coord s0) (prepare_with env a gid tt actions q grace opts)"
  unfolding prepare_with_def prepare_msg_def Let_def
  by (auto intro!: coord_rules keeps_read_topics keeps_note_empty evolves_ops
      split: trans_type.splits)

lemma keeps_api_register_branch: "rely env \<Longrightarrow> keeps (coord s0) (api_register_branch env r)"
  unfolding api_register_branch_def by (auto intro!: coord_rules evolves_ops)

lemma keeps_abort_rounds: "rely env \<Longrightarrow> keeps (coord s0) (abort_rounds n env gid)"
proof (induction n arbitrary: s0)
  case 0
  then show ?case by (simp add: keeps_return)
next
  case (Suc n)
  have txn: "keeps (txn_inv s1 gid tt) (abort_rounds n env gid)" if "keeps (coord s1) (abort_rounds n env gid)"
    for s1 tt
    unfolding keeps_def
  proof (rule tripleI)
    fix w assume I: "txn_inv s1 gid tt w"
    then have c: "coord s1 w" and c0: "coord (w_store w) w" by (simp_all add: coord_def txn_inv_def)
    have "coord (w_store w) (snd (run_state (abort_rounds n env gid) w))"
      using keepsD [OF Suc.IH c0] Suc.prems by simp
    with I keepsD [OF that c] show "txn_inv s1 gid tt (snd (run_state (abort_rounds n env gid) w))"
      by (auto simp: txn_inv_def coord_def row_evolves_def elim!: evolves_status)
  qed
  show ?case
    unfolding abort_rounds.simps
  proof (rule keeps_coord_row)
    fix g s1
    show "keeps (txn_inv s1 gid (g_trans_type g))
      (case Some g of None \<Rightarrow> ret (Inl (Not_found Gid_missing))
       | Some g \<Rightarrow>
         if g_status g = GSubmitted
            \<and> (g_trans_type g = Tcc \<or> g_trans_type g = Xa \<or> g_trans_type g = Msg)
         then ret (Inl (Conflicting (Already_submitted (g_trans_type g))))
         else if is_final (g_status g) then ret (Inl (Conflicting Already_final))
         else if g_status g = GAborting then ret (Inr ())
         else do {
           ok \<leftarrow> access env (transition gid (g_status g) GAborting (g_trans_type g) abort_text);
           if \<not> ok then abort_rounds n env gid
           else do { execute env (schedule_now gid); ret (Inr ()) }
         })"
      unfolding option.case
    proof (intro keeps_intro keeps_txn_access keeps_txn_execute Suc.prems evolves_ops
        evolves_transition txn Suc.IH)
      fix s r h
      assume "\<not> (g_status g = GSubmitted
          \<and> (g_trans_type g = Tcc \<or> g_trans_type g = Xa \<or> g_trans_type g = Msg))"
        "\<not> is_final (g_status g)" "g_status g \<noteq> GAborting"
        and "get_global gid s = Some r" "g_trans_type r = g_trans_type g"
        "get_global gid s = Some h" "g_status h = g_status g"
      then show "reach (g_trans_type h) (g_status g) GAborting"
        by (cases "g_status g"; cases "g_trans_type g") (simp_all add: reach_def)
    qed
  qed (use Suc.prems in \<open>simp_all add: keeps_return\<close>)
qed

lemma keeps_api_retry: "rely env \<Longrightarrow> keeps (coord s0) (api_retry env gid)"
  unfolding api_retry_def by (auto intro!: coord_rules evolves_ops)

lemma keeps_api_topics:
  assumes "rely env"
  shows "keeps (coord s0) (api_subscribe env a t u r)" "keeps (coord s0) (api_unsubscribe env a t u)"
    "keeps (coord s0) (api_delete_topic env t)"
  unfolding api_subscribe_def api_unsubscribe_def api_delete_topic_def
  by (intro coord_rules assms evolves_topics)+

section \<open>Every program of the coordinator\<close>

text \<open>What a worker or a client can run, with any arguments.\<close>

inductive coordinator :: "environment \<Rightarrow> unit prog \<Rightarrow> bool" for env where
  worker: "coordinator env (worker_loop rounds fuel env d)"
| submitting: "coordinator env (State_Monad.bind (submit env a gid tt steps) (\<lambda>_. ret ()))"
| preparing: "coordinator env (State_Monad.bind (prepare_with env a gid tt actions q grace opts) (\<lambda>_. ret ()))"
| registering: "coordinator env (State_Monad.bind (api_register_branch env r) (\<lambda>_. ret ()))"
| aborting: "coordinator env (State_Monad.bind (api_abort env gid) (\<lambda>_. ret ()))"
| retrying: "coordinator env (State_Monad.bind (api_retry env gid) (\<lambda>_. ret ()))"
| subscribing: "coordinator env (State_Monad.bind (api_subscribe env a t u rm) (\<lambda>_. ret ()))"
| unsubscribing: "coordinator env (State_Monad.bind (api_unsubscribe env a t u) (\<lambda>_. ret ()))"
| deleting: "coordinator env (State_Monad.bind (api_delete_topic env t) (\<lambda>_. ret ()))"
| sequence: "coordinator env m \<Longrightarrow> coordinator env n \<Longrightarrow> coordinator env (State_Monad.bind m (\<lambda>_. n))"

lemma coordinator_keeps: "coordinator env m \<Longrightarrow> rely env \<Longrightarrow> keeps (coord s0) m"
  by (induction rule: coordinator.induct)
    (auto simp: api_abort_def intro!: keeps_bind keeps_return keeps_worker_loop keeps_submit
      keeps_prepare_with keeps_api_register_branch keeps_abort_rounds keeps_api_retry
      keeps_api_topics)

lemma coordinator_evolves:
  assumes "coordinator env m" "rely env" "store_ok (w_store w)"
  shows "evolves (w_store w) (w_store (snd (run_state m w)))"
  using keepsD [OF coordinator_keeps [OF assms(1,2)], of "w_store w" w] assms(3)
  by (simp add: coord_def)

section \<open>The fate of a transaction\<close>





end
