(* ===== verification/Redis_Keys.thy ===== *)
theory Redis_Keys
  imports Prelude "HOL-Library.AList"
begin

text \<open>
  The Redis commands the scripts of \<^verbatim>\<open>crates/dtmrs-store/src/redis_store.rs\<close> are made of, on a key
  space of hashes, sorted sets and sets. A script runs alone, so it is a function on the key
  space. An empty hash is a key that does not exist. The scores of a sorted set are doubles in
  Redis; the ones used here are seconds, which doubles hold exactly.
\<close>

section \<open>Numbers as text\<close>

text \<open>\<open>tonumber\<close> of a field that holds an integer, and a missing field read as \<open>d\<close>.\<close>

definition num :: "string option \<Rightarrow> int" where
  "num v = (case v of None \<Rightarrow> 0 | Some s \<Rightarrow> (case parse_i64 s of None \<Rightarrow> 0 | Some n \<Rightarrow> n))"

lemma num_simps [simp]:
  "num None = 0"
  "in_i64 i \<Longrightarrow> num (Some (dec_int i)) = i"
  by (simp_all add: num_def)

section \<open>The key space\<close>

record key_space =
  rk_hash :: "string \<Rightarrow> (string \<times> string) list"
  rk_zset :: "string \<Rightarrow> (string \<times> int) list"
  rk_set :: "string \<Rightarrow> string list"
  rk_ttl :: "string \<Rightarrow> int option"

subsection \<open>Hashes\<close>

definition exists_key :: "string \<Rightarrow> key_space \<Rightarrow> bool" where
  "exists_key k K \<longleftrightarrow> rk_hash K k \<noteq> []"

definition hgetall :: "string \<Rightarrow> key_space \<Rightarrow> (string \<times> string) list" where
  "hgetall k K = rk_hash K k"

definition hget :: "string \<Rightarrow> string \<Rightarrow> key_space \<Rightarrow> string option" where
  "hget k f K = map_of (rk_hash K k) f"

definition hset :: "string \<Rightarrow> (string \<times> string) list \<Rightarrow> key_space \<Rightarrow> key_space" where
  "hset k fvs K =
     K\<lparr>rk_hash := (rk_hash K)(k := fold (\<lambda>(f, v). AList.update f v) fvs (rk_hash K k))\<rparr>"

definition hsetnx :: "string \<Rightarrow> string \<Rightarrow> string \<Rightarrow> key_space \<Rightarrow> bool \<times> key_space" where
  "hsetnx k f v K = (case hget k f K of None \<Rightarrow> (True, hset k [(f, v)] K) | Some _ \<Rightarrow> (False, K))"

definition hdel :: "string \<Rightarrow> string \<Rightarrow> key_space \<Rightarrow> bool \<times> key_space" where
  "hdel k f K =
     (hget k f K \<noteq> None, K\<lparr>rk_hash := (rk_hash K)(k := AList.delete f (rk_hash K k))\<rparr>)"

text \<open>\<open>HINCRBY\<close> refuses to overflow, and the script ends there.\<close>

definition hincrby :: "string \<Rightarrow> string \<Rightarrow> int \<Rightarrow> key_space \<Rightarrow> key_space option" where
  "hincrby k f n K =
     (let v = num (hget k f K) + n in if in_i64 v then Some (hset k [(f, dec_int v)] K) else None)"

subsection \<open>Sorted sets and sets\<close>

text \<open>Members by score, then by name.\<close>

definition by_score :: "(string \<times> int) list \<Rightarrow> (string \<times> int) list" where
  "by_score = sort_key (\<lambda>(m, s). (s, m))"

definition zadd :: "string \<Rightarrow> int \<Rightarrow> string \<Rightarrow> key_space \<Rightarrow> key_space" where
  "zadd k s m K = K\<lparr>rk_zset := (rk_zset K)(k := AList.update m s (rk_zset K k))\<rparr>"

definition zrem :: "string \<Rightarrow> string \<Rightarrow> key_space \<Rightarrow> key_space" where
  "zrem k m K = K\<lparr>rk_zset := (rk_zset K)(k := AList.delete m (rk_zset K k))\<rparr>"

definition zscore :: "string \<Rightarrow> string \<Rightarrow> key_space \<Rightarrow> int option" where
  "zscore k m K = map_of (rk_zset K k) m"

definition zrangebyscore :: "string \<Rightarrow> int \<Rightarrow> nat \<Rightarrow> key_space \<Rightarrow> string list" where
  "zrangebyscore k mx n K = map fst (take n (filter (\<lambda>(m, s). s \<le> mx) (by_score (rk_zset K k))))"

definition zrange :: "string \<Rightarrow> key_space \<Rightarrow> string list" where
  "zrange k K = map fst (by_score (rk_zset K k))"

text \<open>\<open>ZREMRANGEBYRANK key 0 -(n + 1)\<close>: the \<open>n\<close> members of the highest scores stay.\<close>

definition zkeep_last :: "string \<Rightarrow> nat \<Rightarrow> key_space \<Rightarrow> key_space" where
  "zkeep_last k n K =
     (let z = by_score (rk_zset K k)
      in K\<lparr>rk_zset := (rk_zset K)(k := drop (length z - n) z)\<rparr>)"

definition sadd :: "string \<Rightarrow> string \<Rightarrow> key_space \<Rightarrow> key_space" where
  "sadd k m K = K\<lparr>rk_set := (rk_set K)(k := List.insert m (rk_set K k))\<rparr>"

definition srem :: "string \<Rightarrow> string \<Rightarrow> key_space \<Rightarrow> key_space" where
  "srem k m K = K\<lparr>rk_set := (rk_set K)(k := removeAll m (rk_set K k))\<rparr>"

definition smembers :: "string \<Rightarrow> key_space \<Rightarrow> string list" where
  "smembers k K = rk_set K k"

subsection \<open>Expiry and deletion\<close>

definition expire :: "string \<Rightarrow> int \<Rightarrow> key_space \<Rightarrow> key_space" where
  "expire k at K = (if exists_key k K then K\<lparr>rk_ttl := (rk_ttl K)(k \<mapsto> at)\<rparr> else K)"

definition del_key :: "string \<Rightarrow> key_space \<Rightarrow> key_space" where
  "del_key k K =
     K\<lparr>rk_hash := (rk_hash K)(k := []), rk_zset := (rk_zset K)(k := []), rk_set := (rk_set K)(k := []),
       rk_ttl := (rk_ttl K)(k := None)\<rparr>"

text \<open>A key whose time has come disappears.\<close>

definition expired :: "int \<Rightarrow> string \<Rightarrow> key_space \<Rightarrow> bool" where
  "expired t k K \<longleftrightarrow> (case rk_ttl K k of None \<Rightarrow> False | Some e \<Rightarrow> e \<le> t)"

section \<open>How reads see writes\<close>

lemma map_of_fold_update:
  "map_of (fold (\<lambda>(f, v). AList.update f v) fvs h) = fold (\<lambda>(f, v) m. m(f \<mapsto> v)) fvs (map_of h)"
proof (induction fvs arbitrary: h)
  case (Cons p fvs)
  then show ?case by (cases p) (simp only: fold_simps comp_apply id_apply prod.case AList.update_conv')
qed simp

lemma fold_update_nonempty:
  "fold (\<lambda>(f, v). AList.update f v) fvs h = [] \<longleftrightarrow> fvs = [] \<and> h = []"
proof (induction fvs arbitrary: h)
  case (Cons p fvs)
  then show ?case by (cases p) simp
qed simp

lemma hash_hset:
  "rk_hash (hset k fvs K) k' =
     (if k' = k then fold (\<lambda>(f, v). AList.update f v) fvs (rk_hash K k) else rk_hash K k')"
  by (simp add: hset_def)

lemma other_parts [simp]:
  "rk_zset (hset k fvs K) = rk_zset K" "rk_set (hset k fvs K) = rk_set K" "rk_ttl (hset k fvs K) = rk_ttl K"
  "rk_hash (zadd k s m K) = rk_hash K" "rk_set (zadd k s m K) = rk_set K" "rk_ttl (zadd k s m K) = rk_ttl K"
  "rk_hash (zrem k m K) = rk_hash K" "rk_set (zrem k m K) = rk_set K" "rk_ttl (zrem k m K) = rk_ttl K"
  "rk_hash (zkeep_last k n K) = rk_hash K" "rk_ttl (zkeep_last k n K) = rk_ttl K"
  "rk_hash (expire k at K) = rk_hash K" "rk_zset (expire k at K) = rk_zset K"
  "rk_hash (sadd k m K) = rk_hash K" "rk_zset (sadd k m K) = rk_zset K"
  "rk_hash (srem k m K) = rk_hash K" "rk_zset (srem k m K) = rk_zset K"
  "rk_ttl (sadd k m K) = rk_ttl K" "rk_ttl (srem k m K) = rk_ttl K"
  by (simp_all add: hset_def zadd_def zrem_def zkeep_last_def expire_def sadd_def srem_def Let_def)

lemma zset_ops:
  "rk_zset (zadd k s m K) k' = (if k' = k then AList.update m s (rk_zset K k) else rk_zset K k')"
  "rk_zset (zrem k m K) k' = (if k' = k then AList.delete m (rk_zset K k) else rk_zset K k')"
  by (simp_all add: zadd_def zrem_def)

lemma zscore_ops:
  "zscore k' m' (zadd k s m K) = (if k' = k \<and> m' = m then Some s else zscore k' m' K)"
  "zscore k' m' (zrem k m K) = (if k' = k \<and> m' = m then None else zscore k' m' K)"
  "zscore k' m' (hset k fvs K) = zscore k' m' K"
  "zscore k' m' (expire k at K) = zscore k' m' K"
  by (auto simp: zscore_def zadd_def zrem_def AList.update_conv' AList.delete_conv')

lemma set_by_score [simp]: "set (by_score z) = set z"
  by (simp add: by_score_def)

lemma zrangebyscore_in:
  assumes "m \<in> set (zrangebyscore k mx n K)" "distinct (map fst (rk_zset K k))"
  shows "\<exists>s. zscore k m K = Some s \<and> s \<le> mx"
proof -
  from assms(1) obtain s where "(m, s) \<in> set (filter (\<lambda>(m, s). s \<le> mx) (by_score (rk_zset K k)))"
    unfolding zrangebyscore_def by (auto dest!: in_set_takeD)
  with assms(2) show ?thesis by (auto simp: zscore_def)
qed

end
