(* ===== verification/Redis_Store.thy ===== *)
theory Redis_Store
  imports Sql_Store Advance Redis_Keys
begin

text \<open>
  The Redis store (\<^verbatim>\<open>crates/dtmrs-store/src/redis_store.rs\<close>): one hash per transaction, one for
  its branches, a sorted set of the transactions to be scheduled by the time they are due, one
  of the recent ones, and hashes and sets for tokens and topics. Every script and every
  \<open>MULTI\<close> block is a function on the key space; operations of several round trips are written as
  the sequence of theirs. Values of branch fields are JSON, read by serde_json and, inside one
  script, by cjson: they are the parameter \<open>branch_json\<close>.
\<close>

section \<open>The store and its keys\<close>

definition recent_cap :: nat where "recent_cap = 1000"
definition default_final_ttl :: int where "default_final_ttl = 7 * 24 * 3600"
definition scan_limit :: nat where "scan_limit = 20"

record redis_store =
  rs_prefix :: string
  rs_final_ttl :: int
  rs_clock :: int
  rs_keys :: key_space

definition rds_schedulable :: "global_status \<Rightarrow> trans_type \<Rightarrow> bool" where
  "rds_schedulable status tt \<longleftrightarrow>
     status = GSubmitted \<or> status = GAborting \<or>
     status = GPrepared \<and> (tt = Msg \<or> tt = Tcc \<or> tt = Xa)"

text \<open>\<open>LUA_SCHEDULABLE\<close>: the same on the texts of the fields.\<close>

definition lua_schedulable :: "string \<Rightarrow> string option \<Rightarrow> bool" where
  "lua_schedulable status tt \<longleftrightarrow>
     status = ''submitted'' \<or> status = ''aborting'' \<or>
     status = ''prepared'' \<and> (tt = Some ''msg'' \<or> tt = Some ''tcc'' \<or> tt = Some ''xa'')"

datatype prefix_error = Prefix_empty | Prefix_char string char | Prefix_twice

definition prefix_char :: "char \<Rightarrow> bool" where
  "prefix_char c \<longleftrightarrow>
     (let n = of_char c :: nat in 48 \<le> n \<and> n \<le> 57 \<or> 65 \<le> n \<and> n \<le> 90 \<or> 97 \<le> n \<and> n \<le> 122)
     \<or> c = CHR '':'' \<or> c = CHR ''_'' \<or> c = CHR ''.'' \<or> c = CHR ''-''"

definition check_prefix :: "string \<Rightarrow> prefix_error + unit" where
  "check_prefix p =
     (if p = [] then Inl Prefix_empty
      else case find (\<lambda>c. \<not> prefix_char c) p of Some c \<Rightarrow> Inl (Prefix_char p c) | None \<Rightarrow> Inr ())"

text \<open>The loop over the parameters of the URL, with what it has found and what it leaves.\<close>

fun split_params ::
  "string list \<Rightarrow> string option \<Rightarrow> string list \<Rightarrow> prefix_error + (string list \<times> string option)" where
  "split_params [] found rest = Inr (rest, found)"
| "split_params (kv # kvs) found rest =
     (case strip_prefix ''key_prefix='' kv of
        Some v \<Rightarrow>
          if found \<noteq> None then Inl Prefix_twice
          else (case check_prefix v of Inl e \<Rightarrow> Inl e | Inr _ \<Rightarrow> split_params kvs (Some v) rest)
      | None \<Rightarrow> split_params kvs found (rest @ [kv]))"

definition join_amp :: "string list \<Rightarrow> string" where
  "join_amp kvs = (case kvs of [] \<Rightarrow> [] | kv # kvs \<Rightarrow> kv @ concat (map (\<lambda>x. CHR ''&'' # x) kvs))"

definition split_key_prefix :: "string \<Rightarrow> prefix_error + (string \<times> string option)" where
  "split_key_prefix url =
     (case split_once (CHR ''?'') url of
        None \<Rightarrow> Inr (url, None)
      | Some (base, query) \<Rightarrow>
          (case split_params (split_on (CHR ''&'') query) None [] of
             Inl e \<Rightarrow> Inl e
           | Inr (rest, found) \<Rightarrow>
               Inr (if rest = [] then base else base @ ''?'' @ join_amp rest, found)))"

text \<open>\<open>open\<close>, with \<open>client\<close> the connection to the URL left over and \<open>t\<close> the clock.\<close>

definition rds_open :: "(string \<Rightarrow> key_space) \<Rightarrow> int \<Rightarrow> string \<Rightarrow> prefix_error + redis_store" where
  "rds_open client t url =
     (case split_key_prefix url of
        Inl e \<Rightarrow> Inl e
      | Inr (url, found) \<Rightarrow>
          Inr \<lparr>rs_prefix = (case found of None \<Rightarrow> ''dtmrs:'' | Some p \<Rightarrow> p),
               rs_final_ttl = default_final_ttl, rs_clock = t, rs_keys = client url\<rparr>)"

definition rds_with_prefix :: "string \<Rightarrow> redis_store \<Rightarrow> redis_store" where
  "rds_with_prefix p R = R\<lparr>rs_prefix := p\<rparr>"

definition rds_with_ttl :: "int \<Rightarrow> redis_store \<Rightarrow> redis_store" where
  "rds_with_ttl secs R = R\<lparr>rs_final_ttl := secs\<rparr>"

definition gkey :: "string \<Rightarrow> string \<Rightarrow> string" where "gkey p gid = p @ ''g:'' @ gid"
definition brkey :: "string \<Rightarrow> string \<Rightarrow> string" where "brkey p gid = p @ ''b:'' @ gid"
definition ikey :: "string \<Rightarrow> string" where "ikey p = p @ ''idx''"
definition akey :: "string \<Rightarrow> string" where "akey p = p @ ''all''"
definition tokkey :: "string \<Rightarrow> string \<Rightarrow> string" where "tokkey p hash = p @ ''tok:'' @ hash"
definition tidx :: "string \<Rightarrow> string" where "tidx p = p @ ''tokens''"
definition topic_key :: "string \<Rightarrow> string \<Rightarrow> string" where "topic_key p topic = p @ ''topic:'' @ topic"
definition topics_idx :: "string \<Rightarrow> string" where "topics_idx p = p @ ''topics''"

definition unit_sep :: char where "unit_sep = CHR 0x1F"

definition bfield :: "string \<Rightarrow> branch_op \<Rightarrow> string" where
  "bfield bid op = bid @ unit_sep # branch_op_str op"

definition status_suffix :: string where
  "status_suffix = [unit_sep, CHR ''s'']"

definition sfield :: "string \<Rightarrow> branch_op \<Rightarrow> string" where
  "sfield bid op = bid @ unit_sep # branch_op_str op @ status_suffix"

definition parse_bfield :: "string \<Rightarrow> (string \<times> branch_op) option" where
  "parse_bfield f =
     (case split_once unit_sep f of
        None \<Rightarrow> None
      | Some (b, op) \<Rightarrow> (case parse_branch_op op of None \<Rightarrow> None | Some op \<Rightarrow> Some (b, op)))"

section \<open>Rows from hashes\<close>

record branch_json =
  bj_value :: "string \<Rightarrow> string \<Rightarrow> string"
  bj_fields :: "string \<Rightarrow> (string option \<times> string option) option"
  bj_set_payload :: "string \<Rightarrow> string \<Rightarrow> string"

definition or_empty :: "string option \<Rightarrow> string" where
  "or_empty v = (case v of None \<Rightarrow> [] | Some s \<Rightarrow> s)"

text \<open>The fields \<open>url\<close> and \<open>payload\<close> of a value that parses, when they are texts.\<close>

definition branch_from ::
  "branch_json \<Rightarrow> string \<Rightarrow> string \<Rightarrow> string \<Rightarrow> string option \<Rightarrow> branch_row option" where
  "branch_from J gid field val status =
     (case parse_bfield field of
        None \<Rightarrow> None
      | Some (bid, op) \<Rightarrow>
          (case bj_fields J val of
             None \<Rightarrow> None
           | Some (url, payload) \<Rightarrow>
               Some \<lparr>b_gid = gid, b_branch_id = bid, b_op = op, b_url = or_empty url,
                 b_payload = or_empty payload,
                 b_status = (case status of None \<Rightarrow> BPrepared
                   | Some s \<Rightarrow> (case parse_branch_status s of None \<Rightarrow> BPrepared | Some st \<Rightarrow> st)),
                 b_create_time = 0, b_update_time = 0, b_finish_time = None\<rparr>))"

text \<open>\<open>update_time\<close> is a field of the hash, not of \<open>GlobalRow\<close>.\<close>

definition row_of :: "(string \<Rightarrow> string option) \<Rightarrow> global_row" where
  "row_of m =
     \<lparr>g_gid = or_empty (m ''gid''),
      g_trans_type = (case parse_trans_type (or_empty (m ''trans_type'')) of None \<Rightarrow> Saga | Some t \<Rightarrow> t),
      g_status = (case parse_global_status (or_empty (m ''status'')) of None \<Rightarrow> GPrepared | Some s \<Rightarrow> s),
      g_payload = or_empty (m ''payload''),
      g_next_cron_time = num (m ''next_cron_time''),
      g_next_cron_interval = num (m ''next_cron_interval''),
      g_owner = or_empty (m ''owner''),
      g_lease_until = num (m ''lease_until''),
      g_rollback_reason = or_empty (m ''rollback_reason''),
      g_query_prepared = or_empty (m ''query_prepared''),
      g_create_time = num (m ''create_time''),
      g_update_time = num (m ''update_time''),
      g_finish_time = (case m ''finish_time'' of None \<Rightarrow> None | Some v \<Rightarrow> parse_i64 v),
      g_timeout_to_fail = num (m ''timeout_to_fail''),
      g_retry_count = num (m ''retry_count'')\<rparr>"

definition global_from :: "(string \<times> string) list \<Rightarrow> global_row option" where
  "global_from h = (if h = [] then None else Some (row_of (map_of h)))"

section \<open>Transactions\<close>

definition global_checks :: "global_row \<Rightarrow> unit res list" where
  "global_checks g =
     [len_ok ''gid'' (g_gid g) id_max, len_ok ''payload'' (g_payload g) big,
      len_ok ''query_prepared'' (g_query_prepared g) mid]"

definition branch_args :: "branch_json \<Rightarrow> branch_row \<Rightarrow> (string \<times> string) list" where
  "branch_args J b =
     (bfield (b_branch_id b) (b_op b), bj_value J (b_url b) (b_payload b)) #
     (if b_status b \<noteq> BPrepared
      then [(sfield (b_branch_id b) (b_op b), branch_status_str (b_status b))] else [])"

definition create_fields :: "int \<Rightarrow> global_row \<Rightarrow> (string \<times> string) list" where
  "create_fields t g =
     [(''gid'', g_gid g), (''trans_type'', trans_type_str (g_trans_type g)),
      (''status'', global_status_str (g_status g)), (''payload'', g_payload g),
      (''next_cron_time'', dec_int (g_next_cron_time g)),
      (''next_cron_interval'', dec_int (g_next_cron_interval g)), (''owner'', g_owner g),
      (''rollback_reason'', []), (''query_prepared'', g_query_prepared g),
      (''create_time'', dec_int t), (''update_time'', dec_int t),
      (''lease_until'', dec_int (g_lease_until g)), (''timeout_to_fail'', dec_int (g_timeout_to_fail g))]"

definition create_script ::
  "string \<Rightarrow> int \<Rightarrow> global_row \<Rightarrow> (string \<times> string) list \<Rightarrow> key_space \<Rightarrow> bool \<times> key_space" where
  "create_script p t g args K =
     (if exists_key (gkey p (g_gid g)) K then (False, K)
      else
        (let K = hset (gkey p (g_gid g)) (create_fields t g) K;
             K = (if args \<noteq> [] then hset (brkey p (g_gid g)) args K else K);
             K = (if rds_schedulable (g_status g) (g_trans_type g)
                  then zadd (ikey p) (g_next_cron_time g) (g_gid g) K else K);
             K = zadd (akey p) t (g_gid g) K
         in (True, zkeep_last (akey p) recent_cap K)))"

definition rds_create_global ::
  "branch_json \<Rightarrow> global_row \<Rightarrow> branch_row list \<Rightarrow> redis_store \<Rightarrow> bool res \<times> redis_store" where
  "rds_create_global J g branches R =
     (case all_ok (global_checks g @ concat (map branch_checks branches)) of
        Inl e \<Rightarrow> (Inl e, R)
      | Inr _ \<Rightarrow>
          (let (created, K) = create_script (rs_prefix R) (rs_clock R) g
                                (concat (map (branch_args J) branches)) (rs_keys R)
           in (Inr created, R\<lparr>rs_keys := K\<rparr>)))"

definition rds_get_global :: "string \<Rightarrow> redis_store \<Rightarrow> global_row option" where
  "rds_get_global gid R = global_from (hgetall (gkey (rs_prefix R) gid) (rs_keys R))"

definition rds_list_branches :: "branch_json \<Rightarrow> string \<Rightarrow> redis_store \<Rightarrow> branch_row list" where
  "rds_list_branches J gid R =
     (let h = hgetall (brkey (rs_prefix R) gid) (rs_keys R)
      in sort_key (\<lambda>b. (b_branch_id b, b_op b))
           (List.map_filter (\<lambda>(f, val). branch_from J gid f val (map_of h (f @ status_suffix)))
             (filter (\<lambda>(f, _). \<not> suffix status_suffix f) h)))"

text \<open>
  The loop of \<open>lock_one_due\<close> over the candidates: members that are gone or not to be scheduled
  leave the index, leased ones are passed over, the first free one is leased.
\<close>

fun lock_scan ::
  "string \<Rightarrow> int \<Rightarrow> string \<Rightarrow> int \<Rightarrow> string list \<Rightarrow> key_space \<Rightarrow> (string \<times> string) list option \<times> key_space" where
  "lock_scan p t owner til [] K = (None, K)"
| "lock_scan p t owner til (gid # gids) K =
     (case hget (gkey p gid) ''status'' K of
        None \<Rightarrow> lock_scan p t owner til gids (zrem (ikey p) gid K)
      | Some st \<Rightarrow>
          if \<not> lua_schedulable st (hget (gkey p gid) ''trans_type'' K)
          then lock_scan p t owner til gids (zrem (ikey p) gid K)
          else if t < num (hget (gkey p gid) ''lease_until'' K)
          then lock_scan p t owner til gids K
          else
            (let K = hset (gkey p gid)
                   [(''owner'', owner), (''next_cron_time'', dec_int til),
                    (''lease_until'', dec_int til), (''update_time'', dec_int t)] K;
                 K = zadd (ikey p) til gid K
             in (Some (hgetall (gkey p gid) K), K)))"

definition rds_lock_one_due :: "string \<Rightarrow> int \<Rightarrow> redis_store \<Rightarrow> global_row option \<times> redis_store" where
  "rds_lock_one_due owner lease R =
     (let t = rs_clock R; p = rs_prefix R;
          (flat, K) = lock_scan p t owner (wrap_i64 (t + lease))
                        (zrangebyscore (ikey p) t scan_limit (rs_keys R)) (rs_keys R)
      in (case flat of None \<Rightarrow> None | Some h \<Rightarrow> global_from h, R\<lparr>rs_keys := K\<rparr>))"

definition status_fields :: "global_status \<Rightarrow> int \<Rightarrow> string \<Rightarrow> (string \<times> string) list" where
  "status_fields status t reason =
     [(''status'', global_status_str status), (''update_time'', dec_int t)]
     @ (if is_final status then [(''finish_time'', dec_int t)] else [])
     @ (if reason \<noteq> [] then [(''rollback_reason'', reason)] else [])"

text \<open>The time to live of an ended transaction, for its two hashes.\<close>

definition expire_both :: "string \<Rightarrow> string \<Rightarrow> global_status \<Rightarrow> int \<Rightarrow> int \<Rightarrow> key_space \<Rightarrow> key_space" where
  "expire_both p gid status t ttl K =
     (if is_final status \<and> 0 < ttl
      then expire (brkey p gid) (t + ttl) (expire (gkey p gid) (t + ttl) K) else K)"

definition rds_set_global_status ::
  "string \<Rightarrow> global_status \<Rightarrow> trans_type \<Rightarrow> string \<Rightarrow> redis_store \<Rightarrow> redis_store" where
  "rds_set_global_status gid status tt reason R =
     (let t = rs_clock R; p = rs_prefix R; reason = take_chars mid reason; K = rs_keys R
      in if \<not> rds_schedulable status tt
         then R\<lparr>rs_keys := expire_both p gid status t (rs_final_ttl R)
                  (zrem (ikey p) gid (hset (gkey p gid) (status_fields status t reason) K))\<rparr>
         else (case hget (gkey p gid) ''next_cron_time'' K of
                 None \<Rightarrow> R
               | Some nct \<Rightarrow>
                   R\<lparr>rs_keys := zadd (ikey p) (num (Some nct)) gid
                      (hset (gkey p gid) (status_fields status t reason) K)\<rparr>))"

definition transition_script ::
  "string \<Rightarrow> int \<Rightarrow> int \<Rightarrow> string \<Rightarrow> global_status \<Rightarrow> global_status \<Rightarrow> trans_type \<Rightarrow> string \<Rightarrow>
   key_space \<Rightarrow> bool \<times> key_space" where
  "transition_script p t ttl gid from_st to_st tt reason K =
     (case hget (gkey p gid) ''status'' K of
        None \<Rightarrow> (False, K)
      | Some st \<Rightarrow>
          if st \<noteq> global_status_str from_st then (False, K)
          else
            (let nct = hget (gkey p gid) ''next_cron_time'' K;
                 K = hset (gkey p gid) (status_fields to_st t reason) K;
                 K = (if rds_schedulable to_st tt
                      then zadd (ikey p) (case nct of None \<Rightarrow> t | Some _ \<Rightarrow> num nct) gid K
                      else zrem (ikey p) gid K)
             in (True, expire_both p gid to_st t ttl K)))"

definition rds_transition ::
  "string \<Rightarrow> global_status \<Rightarrow> global_status \<Rightarrow> trans_type \<Rightarrow> string \<Rightarrow> redis_store \<Rightarrow>
   bool \<times> redis_store" where
  "rds_transition gid from_st to_st tt reason R =
     (if \<not> status_contested from_st tt then (True, rds_set_global_status gid to_st tt reason R)
      else
        (let (ok, K) = transition_script (rs_prefix R) (rs_clock R) (rs_final_ttl R) gid from_st to_st
                         tt (take_chars mid reason) (rs_keys R)
         in (ok, R\<lparr>rs_keys := K\<rparr>)))"

section \<open>Scheduling and submitting\<close>

text \<open>
  \<open>HINCRBY\<close> may end the script of \<open>release_lease\<close>; what was written before stays written.
\<close>

definition release_script ::
  "string \<Rightarrow> string \<Rightarrow> int \<Rightarrow> int \<Rightarrow> int \<Rightarrow> int \<Rightarrow> key_space \<Rightarrow> key_space" where
  "release_script p gid lease at interval t K =
     (let g = gkey p gid; lu = num (hget g ''lease_until'' K)
      in if hget g ''status'' K = None then K
         else if lu \<noteq> lease then K
         else
           (let nct = num (hget g ''next_cron_time'' K);
                (newt, newi) = (if nct < lu then (or_empty (hget g ''next_cron_time'' K), ''0'')
                                else (dec_int at, dec_int interval));
                K = hset g [(''next_cron_time'', newt), (''next_cron_interval'', newi),
                            (''lease_until'', ''0''), (''update_time'', dec_int t)] K
            in case (if 0 < interval then hincrby g ''retry_count'' 1 K else Some K) of
                 None \<Rightarrow> K
               | Some K \<Rightarrow>
                   (case zscore (ikey p) gid K of
                      None \<Rightarrow> K
                    | Some _ \<Rightarrow> zadd (ikey p) (num (Some newt)) gid K)))"

definition rds_release_lease :: "string \<Rightarrow> int \<Rightarrow> int \<Rightarrow> redis_store \<Rightarrow> redis_store" where
  "rds_release_lease gid lease interval R =
     R\<lparr>rs_keys := release_script (rs_prefix R) gid lease (wrap_i64 (rs_clock R + interval)) interval
                    (rs_clock R) (rs_keys R)\<rparr>"

definition rds_schedule_retry :: "string \<Rightarrow> int \<Rightarrow> redis_store \<Rightarrow> redis_store" where
  "rds_schedule_retry gid interval R =
     (let t = rs_clock R; p = rs_prefix R; K = rs_keys R; at = wrap_i64 (t + interval)
      in if \<not> exists_key (gkey p gid) K then R
         else
           (let K = hset (gkey p gid) [(''next_cron_interval'', dec_int interval),
                      (''next_cron_time'', dec_int at), (''update_time'', dec_int t)] K
            in R\<lparr>rs_keys := (case zscore (ikey p) gid K of
                               None \<Rightarrow> K | Some _ \<Rightarrow> zadd (ikey p) at gid K)\<rparr>))"

definition rds_submit_prepared ::
  "string \<Rightarrow> string \<Rightarrow> int \<Rightarrow> redis_store \<Rightarrow> submit_outcome \<times> redis_store" where
  "rds_submit_prepared gid owner next_cron_time R =
     (let t = rs_clock R; p = rs_prefix R; K = rs_keys R; g = gkey p gid
      in case hget g ''status'' K of
           None \<Rightarrow> (Missing, R)
         | Some st \<Rightarrow>
             if st \<noteq> global_status_str GPrepared then (Already, R)
             else
               (let tt = hget g ''trans_type'' K;
                    K = hset g [(''status'', global_status_str GSubmitted), (''update_time'', dec_int t),
                          (''next_cron_time'', dec_int next_cron_time), (''next_cron_interval'', ''0''),
                          (''owner'', owner),
                          (''lease_until'', dec_int (claim_until owner next_cron_time))] K;
                    K = (if lua_schedulable (global_status_str GSubmitted) tt
                         then zadd (ikey p) next_cron_time gid K else K)
                in (case global_from (hgetall g K) of Some row \<Rightarrow> Advanced row | None \<Rightarrow> Already,
                    R\<lparr>rs_keys := K\<rparr>)))"

definition rds_schedule_now :: "string \<Rightarrow> redis_store \<Rightarrow> redis_store" where
  "rds_schedule_now gid R =
     (let t = rs_clock R; p = rs_prefix R; K = rs_keys R; g = gkey p gid
      in case hget g ''status'' K of
           None \<Rightarrow> R
         | Some st \<Rightarrow>
             (let tt = hget g ''trans_type'' K;
                  K = hset g [(''next_cron_time'', dec_int t), (''next_cron_interval'', ''0'')] K
              in R\<lparr>rs_keys := (if lua_schedulable st tt then zadd (ikey p) t gid K else K)\<rparr>))"

section \<open>Branches\<close>

definition rds_set_branch_result ::
  "branch_json \<Rightarrow> string \<Rightarrow> string \<Rightarrow> branch_op \<Rightarrow> branch_status \<Rightarrow> string \<Rightarrow> redis_store \<Rightarrow>
   unit res \<times> redis_store" where
  "rds_set_branch_result J gid bid op status payload R =
     (case len_ok ''payload'' payload mid of
        Inl e \<Rightarrow> (Inl e, R)
      | Inr _ \<Rightarrow>
          (let k = brkey (rs_prefix R) gid; K = rs_keys R
           in case hget k (bfield bid op) K of
                None \<Rightarrow> (Inr (), R)
              | Some cur \<Rightarrow>
                  (Inr (), R\<lparr>rs_keys := hset k [(bfield bid op, bj_set_payload J cur payload),
                                              (sfield bid op, branch_status_str status)] K\<rparr>)))"

definition rds_set_branch_status ::
  "string \<Rightarrow> string \<Rightarrow> branch_op \<Rightarrow> branch_status \<Rightarrow> redis_store \<Rightarrow> redis_store" where
  "rds_set_branch_status gid bid op status R =
     R\<lparr>rs_keys := hset (brkey (rs_prefix R) gid) [(sfield bid op, branch_status_str status)] (rs_keys R)\<rparr>"

text \<open>One \<open>HSETNX\<close> per operation; what was set before a conflict is found stays.\<close>

fun hsetnx_ops ::
  "branch_json \<Rightarrow> string \<Rightarrow> string \<Rightarrow> string \<Rightarrow> (branch_op \<times> string) list \<Rightarrow> key_space \<Rightarrow>
   register_outcome \<times> key_space" where
  "hsetnx_ops J k bid payload [] K = (Registered, K)"
| "hsetnx_ops J k bid payload ((op, url) # ops) K =
     (let (fresh, K) = hsetnx k (bfield bid op) (bj_value J url payload) K
      in if fresh then hsetnx_ops J k bid payload ops K
         else
           (let existing = (case hget k (bfield bid op) K of
                  None \<Rightarrow> None
                | Some v \<Rightarrow> (case bj_fields J v of None \<Rightarrow> None | Some (url, _) \<Rightarrow> url))
            in case existing of
                 Some u \<Rightarrow> if u \<noteq> url then (Conflict op u, K) else hsetnx_ops J k bid payload ops K
               | None \<Rightarrow> hsetnx_ops J k bid payload ops K))"

definition rds_register_branch_with ::
  "branch_json \<Rightarrow> string \<Rightarrow> string \<Rightarrow> (branch_op \<times> string) list \<Rightarrow> string \<Rightarrow> redis_store \<Rightarrow>
   register_outcome res \<times> redis_store" where
  "rds_register_branch_with J gid bid ops payload R =
     (case all_ok ([len_ok ''gid'' gid id_max, len_ok ''branch_id'' bid id_max]
                   @ map (\<lambda>(_, url). len_ok ''url'' url mid) ops
                   @ [len_ok ''payload'' payload mid]) of
        Inl e \<Rightarrow> (Inl e, R)
      | Inr _ \<Rightarrow>
          (let (out, K) = hsetnx_ops J (brkey (rs_prefix R) gid) bid payload ops (rs_keys R)
           in (Inr out, R\<lparr>rs_keys := K\<rparr>)))"

definition rds_register_branch ::
  "branch_json \<Rightarrow> string \<Rightarrow> string \<Rightarrow> (branch_op \<times> string) list \<Rightarrow> redis_store \<Rightarrow>
   register_outcome res \<times> redis_store" where
  "rds_register_branch J gid bid ops R = rds_register_branch_with J gid bid ops [] R"

section \<open>Listings\<close>

definition rds_list_recent :: "int \<Rightarrow> redis_store \<Rightarrow> global_row list" where
  "rds_list_recent limit R =
     List.map_filter (\<lambda>gid. rds_get_global gid R)
       (take (nat (max limit 1)) (rev (zrange (akey (rs_prefix R)) (rs_keys R))))"

definition rds_list_stuck :: "int \<Rightarrow> int \<Rightarrow> redis_store \<Rightarrow> global_row list" where
  "rds_list_stuck min_retries limit R =
     take (nat (max limit 0))
       (sort_key g_create_time
         (filter (\<lambda>g. \<not> is_final (g_status g) \<and> min_retries \<le> g_retry_count g)
           (List.map_filter (\<lambda>gid. rds_get_global gid R) (zrange (ikey (rs_prefix R)) (rs_keys R)))))"

section \<open>Tokens\<close>

definition rds_create_token :: "string \<Rightarrow> string \<Rightarrow> string \<Rightarrow> redis_store \<Rightarrow> redis_store" where
  "rds_create_token hash name secret R =
     (let p = rs_prefix R
      in R\<lparr>rs_keys := sadd (tidx p) hash
             (hset (tokkey p hash)
               [(''name'', name), (''create_time'', dec_int (rs_clock R)), (''last_used'', ''0''),
                (''use_count'', ''0''), (''last_ip'', []), (''revoked'', ''0''), (''secret'', secret)]
               (rs_keys R))\<rparr>)"

definition token_from :: "string \<Rightarrow> (string \<Rightarrow> string option) \<Rightarrow> token_row" where
  "token_from h m =
     \<lparr>k_hash = h, k_name = or_empty (m ''name''), k_create_time = num (m ''create_time''),
      k_last_used = num (m ''last_used''), k_use_count = num (m ''use_count''),
      k_last_ip = or_empty (m ''last_ip''), k_revoked = num (m ''revoked''),
      k_secret = or_empty (m ''secret'')\<rparr>"

definition rds_list_tokens :: "redis_store \<Rightarrow> token_row list" where
  "rds_list_tokens R =
     (let p = rs_prefix R; K = rs_keys R
      in sort_key (\<lambda>k. - k_create_time k)
           (List.map_filter (\<lambda>h. let m = hgetall (tokkey p h) K
                                 in if m = [] then None else Some (token_from h (map_of m)))
             (smembers (tidx p) K)))"

definition rds_revoke_token :: "string \<Rightarrow> redis_store \<Rightarrow> bool \<times> redis_store" where
  "rds_revoke_token hash R =
     (let k = tokkey (rs_prefix R) hash; K = rs_keys R
      in if \<not> exists_key k K then (False, R)
         else if hget k ''revoked'' K \<noteq> Some ''0'' then (False, R)
         else (True, R\<lparr>rs_keys := hset k [(''revoked'', dec_int (rs_clock R))] K\<rparr>))"

definition rds_active_token_hashes :: "redis_store \<Rightarrow> string list" where
  "rds_active_token_hashes R =
     map k_hash (filter (\<lambda>k. k_revoked k = 0) (rds_list_tokens R))"

text \<open>The three commands of one \<open>MULTI\<close>; one that fails does not stop the others.\<close>

definition rds_touch_token :: "string \<Rightarrow> string \<Rightarrow> redis_store \<Rightarrow> redis_store" where
  "rds_touch_token hash ip R =
     (let k = tokkey (rs_prefix R) hash;
          K = hset k [(''last_used'', dec_int (rs_clock R))] (rs_keys R);
          K = (case hincrby k ''use_count'' 1 K of None \<Rightarrow> K | Some K \<Rightarrow> K)
      in R\<lparr>rs_keys := hset k [(''last_ip'', ip)] K\<rparr>)"

section \<open>Topics\<close>

definition rds_subscribe :: "string \<Rightarrow> string \<Rightarrow> string \<Rightarrow> redis_store \<Rightarrow> bool res \<times> redis_store" where
  "rds_subscribe topic url remark R =
     (case all_ok [len_ok ''topic'' topic topic_len, len_ok ''url'' url sub_url_len,
                   len_ok ''remark'' remark mid] of
        Inl e \<Rightarrow> (Inl e, R)
      | Inr _ \<Rightarrow>
          (let p = rs_prefix R;
               (added, K) = hsetnx (topic_key p topic) url
                              (dec_int (rs_clock R) @ unit_sep # remark) (rs_keys R)
           in (Inr added, R\<lparr>rs_keys := sadd (topics_idx p) topic K\<rparr>)))"

definition rds_unsubscribe :: "string \<Rightarrow> string \<Rightarrow> redis_store \<Rightarrow> bool \<times> redis_store" where
  "rds_unsubscribe topic url R =
     (let p = rs_prefix R;
          (gone, K) = hdel (topic_key p topic) url (rs_keys R);
          K = (if hgetall (topic_key p topic) K = [] then srem (topics_idx p) topic K else K)
      in (gone, R\<lparr>rs_keys := K\<rparr>))"

definition rds_delete_topic :: "string \<Rightarrow> redis_store \<Rightarrow> nat \<times> redis_store" where
  "rds_delete_topic topic R =
     (let p = rs_prefix R; K = rs_keys R
      in (length (hgetall (topic_key p topic) K),
          R\<lparr>rs_keys := srem (topics_idx p) topic (del_key (topic_key p topic) K)\<rparr>))"

definition sub_from :: "string \<Rightarrow> string \<times> string \<Rightarrow> topic_sub" where
  "sub_from topic e =
     (case e of (url, v) \<Rightarrow>
        (case split_once unit_sep v of
           None \<Rightarrow> \<lparr>t_topic = topic, t_url = url, t_remark = [], t_create_time = 0\<rparr>
         | Some (ct, remark) \<Rightarrow>
             \<lparr>t_topic = topic, t_url = url, t_remark = remark, t_create_time = num (Some ct)\<rparr>))"

definition rds_list_subscriptions :: "string option \<Rightarrow> redis_store \<Rightarrow> topic_sub list" where
  "rds_list_subscriptions topic R =
     (let p = rs_prefix R; K = rs_keys R;
          topics = (case topic of Some t \<Rightarrow> [t] | None \<Rightarrow> smembers (topics_idx p) K)
      in concat (map (\<lambda>t. sort_key (\<lambda>r. (t_create_time r, t_url r))
                             (map (sub_from t) (hgetall (topic_key p t) K)))
                     (sort topics)))"

text \<open>\<open>KEYS prefix*\<close> matches what begins with the prefix, which holds no wildcard.\<close>

definition rds_flush_prefix :: "redis_store \<Rightarrow> (prefix_error + unit) \<times> redis_store" where
  "rds_flush_prefix R =
     (case check_prefix (rs_prefix R) of
        Inl e \<Rightarrow> (Inl e, R)
      | Inr _ \<Rightarrow>
          (let gone = (\<lambda>k. prefix (rs_prefix R) k); K = rs_keys R
           in (Inr (), R\<lparr>rs_keys :=
                 \<lparr>rk_hash = (\<lambda>k. if gone k then [] else rk_hash K k),
                  rk_zset = (\<lambda>k. if gone k then [] else rk_zset K k),
                  rk_set = (\<lambda>k. if gone k then [] else rk_set K k),
                  rk_ttl = (\<lambda>k. if gone k then None else rk_ttl K k)\<rparr>\<rparr>)))"

end
