(* ===== verification/Redis_Laws.thy ===== *)
theory Redis_Laws
  imports Redis_Store Store_Contract
begin

text \<open>
  The Redis store keeps the contract of \<open>Store_Contract\<close>: how its hashes read as rows, what every
  hash and index satisfies, and the interpretation of the two locales.
\<close>

section \<open>Rows and fields\<close>

lemma row_of_simps [simp]:
  "row_of (m(''gid'' \<mapsto> v)) = (row_of m)\<lparr>g_gid := v\<rparr>"
  "row_of (m(''payload'' \<mapsto> v)) = (row_of m)\<lparr>g_payload := v\<rparr>"
  "row_of (m(''owner'' \<mapsto> v)) = (row_of m)\<lparr>g_owner := v\<rparr>"
  "row_of (m(''rollback_reason'' \<mapsto> v)) = (row_of m)\<lparr>g_rollback_reason := v\<rparr>"
  "row_of (m(''query_prepared'' \<mapsto> v)) = (row_of m)\<lparr>g_query_prepared := v\<rparr>"
  "row_of (m(''next_cron_time'' \<mapsto> v)) = (row_of m)\<lparr>g_next_cron_time := num (Some v)\<rparr>"
  "row_of (m(''next_cron_interval'' \<mapsto> v)) = (row_of m)\<lparr>g_next_cron_interval := num (Some v)\<rparr>"
  "row_of (m(''lease_until'' \<mapsto> v)) = (row_of m)\<lparr>g_lease_until := num (Some v)\<rparr>"
  "row_of (m(''create_time'' \<mapsto> v)) = (row_of m)\<lparr>g_create_time := num (Some v)\<rparr>"
  "row_of (m(''update_time'' \<mapsto> v)) = (row_of m)\<lparr>g_update_time := num (Some v)\<rparr>"
  "row_of (m(''timeout_to_fail'' \<mapsto> v)) = (row_of m)\<lparr>g_timeout_to_fail := num (Some v)\<rparr>"
  "row_of (m(''retry_count'' \<mapsto> v)) = (row_of m)\<lparr>g_retry_count := num (Some v)\<rparr>"
  "row_of (m(''finish_time'' \<mapsto> v)) = (row_of m)\<lparr>g_finish_time := parse_i64 v\<rparr>"
  "row_of (m(''status'' \<mapsto> global_status_str st)) = (row_of m)\<lparr>g_status := st\<rparr>"
  "row_of (m(''trans_type'' \<mapsto> trans_type_str tt)) = (row_of m)\<lparr>g_trans_type := tt\<rparr>"
  by (simp_all add: row_of_def or_empty_def gs.parse_as_str tt.parse_as_str)

lemma num_zero [simp]: "num (Some ''0'') = 0"
  by code_simp

text \<open>The families of keys under one prefix do not overlap.\<close>

lemma keys_apart [simp]:
  "gkey p x = gkey p y \<longleftrightarrow> x = y"
  "gkey p x \<noteq> brkey p y" "gkey p x \<noteq> tokkey p y" "gkey p x \<noteq> topic_key p y"
  "brkey p x = brkey p y \<longleftrightarrow> x = y"
  "brkey p x \<noteq> tokkey p y" "brkey p x \<noteq> topic_key p y"
  "tokkey p x = tokkey p y \<longleftrightarrow> x = y" "tokkey p x \<noteq> topic_key p y"
  "topic_key p x = topic_key p y \<longleftrightarrow> x = y"
  "ikey p \<noteq> akey p" "tidx p \<noteq> topics_idx p"
  "topic_key p x \<noteq> ikey p" "topic_key p x \<noteq> akey p"
  by (auto simp: gkey_def brkey_def tokkey_def topic_key_def ikey_def akey_def tidx_def topics_idx_def)

lemma rds_get_hset:
  assumes "\<And>y. rk_hash K (gkey (rs_prefix R) y) = rk_hash (hset (gkey (rs_prefix R) gid) fvs (rs_keys R)) (gkey (rs_prefix R) y)"
    and "fvs \<noteq> []"
  shows "rds_get_global x (R\<lparr>rs_keys := K\<rparr>) =
    (if x = gid then Some (row_of (fold (\<lambda>(f, v) m. m(f \<mapsto> v)) fvs
                       (map_of (rk_hash (rs_keys R) (gkey (rs_prefix R) gid)))))
     else rds_get_global x R)"
  using assms(2)
  by (simp add: rds_get_global_def hgetall_def assms(1) hash_hset global_from_def
      fold_update_nonempty map_of_fold_update)

lemma rds_get_same: "rk_hash K = rk_hash (rs_keys R) \<Longrightarrow> rds_get_global x (R\<lparr>rs_keys := K\<rparr>) = rds_get_global x R"
  by (simp add: rds_get_global_def hgetall_def)

lemma rds_get_Some:
  "rds_get_global gid R = Some g \<longleftrightarrow>
     exists_key (gkey (rs_prefix R) gid) (rs_keys R) \<and>
     g = row_of (map_of (rk_hash (rs_keys R) (gkey (rs_prefix R) gid)))"
  by (auto simp: rds_get_global_def hgetall_def global_from_def exists_key_def)

section \<open>The invariant\<close>

definition fields_ok :: "string \<Rightarrow> (string \<Rightarrow> string option) \<Rightarrow> bool" where
  "fields_ok gid m \<longleftrightarrow>
     m ''gid'' = Some gid \<and> (\<exists>tt. m ''trans_type'' = Some (trans_type_str tt)) \<and>
     (\<exists>st. m ''status'' = Some (global_status_str st) \<and> (m ''finish_time'' \<noteq> None \<longrightarrow> is_final st)) \<and>
     (\<exists>n. in_i64 n \<and> m ''next_cron_time'' = Some (dec_int n))"

definition index_ok :: "redis_store \<Rightarrow> bool" where
  "index_ok R \<longleftrightarrow>
     (\<forall>gid g s. zscore (ikey (rs_prefix R)) gid (rs_keys R) = Some s \<longrightarrow> rds_get_global gid R = Some g \<longrightarrow>
        schedulable g \<longrightarrow> s = g_next_cron_time g)"

definition redis_ok :: "redis_store \<Rightarrow> bool" where
  "redis_ok R \<longleftrightarrow>
     in_i64 (rs_clock R) \<and> distinct (map fst (rk_zset (rs_keys R) (ikey (rs_prefix R)))) \<and>
     (\<forall>gid. rk_hash (rs_keys R) (gkey (rs_prefix R) gid) \<noteq> [] \<longrightarrow>
        fields_ok gid (map_of (rk_hash (rs_keys R) (gkey (rs_prefix R) gid)))) \<and>
     index_ok R"

lemma fields_ok_status:
  "fields_ok gid m \<Longrightarrow> m ''status'' = Some (global_status_str (g_status (row_of m)))"
  "fields_ok gid m \<Longrightarrow> m ''trans_type'' = Some (trans_type_str (g_trans_type (row_of m)))"
  "fields_ok gid m \<Longrightarrow> m ''next_cron_time'' = Some (dec_int (g_next_cron_time (row_of m)))"
  "fields_ok gid m \<Longrightarrow> in_i64 (g_next_cron_time (row_of m))"
  "fields_ok gid m \<Longrightarrow> g_gid (row_of m) = gid"
  "fields_ok gid m \<Longrightarrow> \<not> is_final (g_status (row_of m)) \<Longrightarrow> g_finish_time (row_of m) = None"
  by (auto simp: fields_ok_def row_of_def or_empty_def gs.parse_as_str tt.parse_as_str)

lemma lua_schedulable_iff:
  "lua_schedulable (global_status_str st) (Some (trans_type_str tt)) \<longleftrightarrow> rds_schedulable st tt"
  by (cases st; cases tt) (simp_all add: lua_schedulable_def rds_schedulable_def)

lemma rds_schedulable_iff: "rds_schedulable (g_status g) (g_trans_type g) \<longleftrightarrow> schedulable g"
  by (simp add: rds_schedulable_def schedulable_def)

text \<open>What the store knows of a transaction, field by field.\<close>

lemma redis_hash:
  assumes "redis_ok R" "rds_get_global gid R = Some g"
  defines "h \<equiv> map_of (rk_hash (rs_keys R) (gkey (rs_prefix R) gid))"
  shows "fields_ok gid h" and "g = row_of h"
  using assms by (auto simp: redis_ok_def rds_get_Some exists_key_def)

lemma redis_fields:
  assumes "redis_ok R" "rds_get_global gid R = Some g"
  shows "hget (gkey (rs_prefix R) gid) ''status'' (rs_keys R) = Some (global_status_str (g_status g))"
    and "hget (gkey (rs_prefix R) gid) ''trans_type'' (rs_keys R) = Some (trans_type_str (g_trans_type g))"
    and "hget (gkey (rs_prefix R) gid) ''next_cron_time'' (rs_keys R) = Some (dec_int (g_next_cron_time g))"
    and "num (hget (gkey (rs_prefix R) gid) ''lease_until'' (rs_keys R)) = g_lease_until g"
    and "num (hget (gkey (rs_prefix R) gid) ''retry_count'' (rs_keys R)) = g_retry_count g"
    and "in_i64 (g_next_cron_time g)" "g_gid g = gid"
    and "\<not> is_final (g_status g) \<Longrightarrow> g_finish_time g = None"
  using redis_hash [OF assms]
  by (auto simp: hget_def fields_ok_status) (simp_all add: row_of_def)

lemma redis_missing:
  assumes "rds_get_global gid R = None"
  shows "hget (gkey (rs_prefix R) gid) f (rs_keys R) = None"
    and "\<not> exists_key (gkey (rs_prefix R) gid) (rs_keys R)"
  using assms by (auto simp: rds_get_global_def hgetall_def global_from_def hget_def exists_key_def
      split: if_splits)

lemma status_missing_iff:
  assumes "redis_ok R"
  shows "hget (gkey (rs_prefix R) gid) ''status'' (rs_keys R) = None \<longleftrightarrow> rds_get_global gid R = None"
  using redis_fields(1) [OF assms, of gid] redis_missing(1) [of gid R]
  by (cases "rds_get_global gid R") auto

text \<open>
  One step of the store on one transaction: fields are written to its hash, its place in the
  index may change, and the rest of the key space does not matter. \<open>F\<close> is the step on rows.
\<close>

definition writes ::
  "string \<Rightarrow> (string \<times> string) list \<Rightarrow> redis_store \<Rightarrow> key_space \<Rightarrow> bool" where
  "writes gid fvs R K \<longleftrightarrow>
     fvs \<noteq> [] \<and>
     (\<forall>x. rk_hash K (gkey (rs_prefix R) x) =
        rk_hash (hset (gkey (rs_prefix R) gid) fvs (rs_keys R)) (gkey (rs_prefix R) x)) \<and>
     distinct (map fst (rk_zset K (ikey (rs_prefix R)))) \<and>
     (\<forall>x. x \<noteq> gid \<longrightarrow> zscore (ikey (rs_prefix R)) x K = zscore (ikey (rs_prefix R)) x (rs_keys R) \<or>
        zscore (ikey (rs_prefix R)) x K = None)"

definition written :: "(string \<times> string) list \<Rightarrow> (string \<Rightarrow> string option) \<Rightarrow> string \<Rightarrow> string option" where
  "written fvs m = fold (\<lambda>(f, v) m. m(f \<mapsto> v)) fvs m"

lemma writes_get:
  assumes "writes gid fvs R K" "rds_get_global gid R = Some g"
  shows "rds_get_global x (R\<lparr>rs_keys := K\<rparr>) =
    (if x = gid then Some (row_of (written fvs (map_of (rk_hash (rs_keys R) (gkey (rs_prefix R) gid)))))
     else rds_get_global x R)"
  using assms rds_get_hset [of K R gid fvs x] by (simp add: writes_def written_def)

lemma writes_ok:
  assumes "redis_ok R" "writes gid fvs R K"
    and "fields_ok gid (written fvs (map_of (rk_hash (rs_keys R) (gkey (rs_prefix R) gid))))"
    and "\<And>s g. zscore (ikey (rs_prefix R)) gid K = Some s \<Longrightarrow> rds_get_global gid (R\<lparr>rs_keys := K\<rparr>) = Some g \<Longrightarrow>
      schedulable g \<Longrightarrow> s = g_next_cron_time g"
  shows "redis_ok (R\<lparr>rs_keys := K\<rparr>)"
proof -
  let ?R = "R\<lparr>rs_keys := K\<rparr>"
  have h: "rk_hash K (gkey (rs_prefix R) x) = (if x = gid
      then fold (\<lambda>(f, v). AList.update f v) fvs (rk_hash (rs_keys R) (gkey (rs_prefix R) gid))
      else rk_hash (rs_keys R) (gkey (rs_prefix R) x))" for x
    using assms(2) by (simp add: writes_def hash_hset)
  have "fields_ok x (map_of (rk_hash K (gkey (rs_prefix R) x)))"
    if "rk_hash K (gkey (rs_prefix R) x) \<noteq> []" for x
  proof (cases "x = gid")
    case True
    with assms(3) show ?thesis by (simp add: h map_of_fold_update written_def)
  next
    case False
    with assms(1) that show ?thesis by (simp add: h redis_ok_def)
  qed
  moreover have "index_ok ?R"
    unfolding index_ok_def
  proof (intro allI impI)
    fix x g s
    assume s: "zscore (ikey (rs_prefix ?R)) x (rs_keys ?R) = Some s" and g: "rds_get_global x ?R = Some g"
      and sch: "schedulable g"
    show "s = g_next_cron_time g"
    proof (cases "x = gid")
      case True
      with s g sch assms(4) show ?thesis by simp
    next
      case False
      with assms(2) s have "zscore (ikey (rs_prefix R)) x (rs_keys R) = Some s"
        by (fastforce simp: writes_def)
      moreover have "rds_get_global x R = Some g"
        using g False by (simp add: rds_get_global_def hgetall_def h)
      ultimately show ?thesis using assms(1) sch by (simp add: redis_ok_def index_ok_def)
    qed
  qed
  ultimately show ?thesis using assms(1,2) by (simp add: redis_ok_def writes_def)
qed

lemma writesI:
  assumes "redis_ok R" "fvs \<noteq> []" "rk_hash K = rk_hash (hset (gkey (rs_prefix R) gid) fvs (rs_keys R))"
    and "rk_zset K (ikey (rs_prefix R)) = rk_zset (rs_keys R) (ikey (rs_prefix R)) \<or>
      (\<exists>s. rk_zset K (ikey (rs_prefix R)) = AList.update gid s (rk_zset (rs_keys R) (ikey (rs_prefix R)))) \<or>
      rk_zset K (ikey (rs_prefix R)) = AList.delete gid (rk_zset (rs_keys R) (ikey (rs_prefix R)))"
  shows "writes gid fvs R K"
  using assms
  by (auto simp: writes_def redis_ok_def zscore_def AList.update_conv' AList.delete_conv'
      AList.distinct_update AList.distinct_delete)

text \<open>Writing fields that are not the identity of the transaction keeps the hash well formed.\<close>

lemma fields_ok_upd:
  "fields_ok gid m \<Longrightarrow> f \<notin> {''gid'', ''trans_type'', ''status'', ''finish_time'', ''next_cron_time''} \<Longrightarrow>
   fields_ok gid (m(f \<mapsto> v))"
  "fields_ok gid m \<Longrightarrow> in_i64 n \<Longrightarrow> fields_ok gid (m(''next_cron_time'' \<mapsto> dec_int n))"
  by (auto simp: fields_ok_def)

lemma written_simps [simp]:
  "written [] m = m"
  "written ((f, v) # fvs) m = written fvs (m(f \<mapsto> v))"
  by (simp_all add: written_def)

section \<open>Scheduling\<close>

lemma num_ok: "in_i64 0" "in_i64 (wrap_i64 x)"
  by (simp_all add: in_i64_def i64_min_def i64_max_def wrap_i64_range [unfolded in_i64_def i64_min_def i64_max_def])

text \<open>The store after one transaction was rewritten by \<open>F\<close> and nothing else has changed.\<close>

definition rewritten :: "string \<Rightarrow> (global_row \<Rightarrow> global_row) \<Rightarrow> redis_store \<Rightarrow> redis_store \<Rightarrow> bool" where
  "rewritten gid F R R' \<longleftrightarrow>
     redis_ok R' \<and> rs_clock R' = rs_clock R \<and>
     (\<forall>x. rds_get_global x R' = (if x = gid then map_option F (rds_get_global x R) else rds_get_global x R))"

lemma rewritten_missing:
  "redis_ok R \<Longrightarrow> rds_get_global gid R = None \<Longrightarrow> rewritten gid F R R"
  by (simp add: rewritten_def)

lemma rewritten_refl:
  "redis_ok R \<Longrightarrow> (\<And>g. rds_get_global gid R = Some g \<Longrightarrow> F g = g) \<Longrightarrow> rewritten gid F R R"
  by (cases "rds_get_global gid R") (auto simp: rewritten_def)

lemma rewrittenI:
  assumes "redis_ok R" "rds_get_global gid R = Some g" "writes gid fvs R K"
    and "fields_ok gid (written fvs (map_of (rk_hash (rs_keys R) (gkey (rs_prefix R) gid))))"
    and "row_of (written fvs (map_of (rk_hash (rs_keys R) (gkey (rs_prefix R) gid)))) = F g"
    and "\<And>s. zscore (ikey (rs_prefix R)) gid K = Some s \<Longrightarrow> schedulable (F g) \<Longrightarrow> s = g_next_cron_time (F g)"
  shows "rewritten gid F R (R\<lparr>rs_keys := K\<rparr>)"
proof -
  have g: "rds_get_global x (R\<lparr>rs_keys := K\<rparr>) = (if x = gid then Some (F g) else rds_get_global x R)" for x
    using writes_get [OF assms(3,2), of x] assms(5) by simp
  have "redis_ok (R\<lparr>rs_keys := K\<rparr>)"
    by (rule writes_ok [OF assms(1,3,4)]) (use g [of gid] assms(6) in auto)
  with g assms(2) show ?thesis by (simp add: rewritten_def)
qed

lemma redis_clock: "redis_ok R \<Longrightarrow> in_i64 (rs_clock R)"
  by (simp add: redis_ok_def)

text \<open>An entry of the index agrees with the row it stands for.\<close>

lemma index_entry:
  "redis_ok R \<Longrightarrow> rds_get_global gid R = Some g \<Longrightarrow> zscore (ikey (rs_prefix R)) gid (rs_keys R) = Some s \<Longrightarrow>
   schedulable g \<Longrightarrow> s = g_next_cron_time g"
  by (auto simp: redis_ok_def index_ok_def)

lemma rewritten_schedule_now:
  assumes "redis_ok R"
  shows "rewritten gid (\<lambda>g. g\<lparr>g_next_cron_time := rs_clock R, g_next_cron_interval := 0\<rparr>) R
    (rds_schedule_now gid R)"
proof (cases "rds_get_global gid R")
  case None
  then show ?thesis using assms by (simp add: rds_schedule_now_def redis_missing Let_def rewritten_missing)
next
  case (Some g)
  let ?p = "rs_prefix R" and ?t = "rs_clock R"
  let ?fvs = "[(''next_cron_time'', dec_int ?t), (''next_cron_interval'', ''0'')]"
  let ?H = "hset (gkey ?p gid) ?fvs (rs_keys R)"
  let ?K = "if schedulable g then zadd (ikey ?p) ?t gid ?H else ?H"
  have "rds_schedule_now gid R = R\<lparr>rs_keys := ?K\<rparr>"
    using redis_fields [OF assms Some]
    by (simp add: rds_schedule_now_def Let_def lua_schedulable_iff rds_schedulable_iff)
  moreover have "rewritten gid (\<lambda>g. g\<lparr>g_next_cron_time := ?t, g_next_cron_interval := 0\<rparr>) R (R\<lparr>rs_keys := ?K\<rparr>)"
    by (rule rewrittenI [OF assms Some, of ?fvs])
      (use redis_hash [OF assms Some] redis_clock [OF assms] in
        \<open>auto intro!: writesI [OF assms] simp: zset_ops zscore_ops fields_ok_upd schedulable_def split: if_splits\<close>)
  ultimately show ?thesis by simp
qed

lemma rewritten_schedule_retry:
  assumes "redis_ok R" "in_i64 i"
  shows "rewritten gid (\<lambda>g. g\<lparr>g_next_cron_interval := i, g_next_cron_time := wrap_i64 (rs_clock R + i),
      g_update_time := rs_clock R\<rparr>) R (rds_schedule_retry gid i R)"
proof (cases "rds_get_global gid R")
  case None
  then show ?thesis using assms by (simp add: rds_schedule_retry_def redis_missing Let_def rewritten_missing)
next
  case (Some g)
  let ?p = "rs_prefix R" and ?t = "rs_clock R" and ?at = "wrap_i64 (rs_clock R + i)"
  let ?fvs = "[(''next_cron_interval'', dec_int i), (''next_cron_time'', dec_int ?at), (''update_time'', dec_int ?t)]"
  let ?H = "hset (gkey ?p gid) ?fvs (rs_keys R)"
  let ?K = "case zscore (ikey ?p) gid ?H of None \<Rightarrow> ?H | Some _ \<Rightarrow> zadd (ikey ?p) ?at gid ?H"
  have "rds_schedule_retry gid i R = R\<lparr>rs_keys := ?K\<rparr>"
    using Some by (simp add: rds_schedule_retry_def Let_def rds_get_Some)
  moreover have "rewritten gid (\<lambda>g. g\<lparr>g_next_cron_interval := i, g_next_cron_time := ?at,
      g_update_time := ?t\<rparr>) R (R\<lparr>rs_keys := ?K\<rparr>)"
    by (rule rewrittenI [OF assms(1) Some, of ?fvs])
      (use redis_hash [OF assms(1) Some] redis_clock [OF assms(1)] assms(2) in
        \<open>auto intro!: writesI [OF assms(1)] simp: zset_ops zscore_ops fields_ok_upd num_ok split: option.splits\<close>)
  ultimately show ?thesis by simp
qed

section \<open>Releasing a lease\<close>

lemma rewritten_release:
  assumes "redis_ok R" "in_i64 i" "countable_retries gid l R rds_get_global"
  shows "rewritten gid (\<lambda>g. if g_lease_until g = l then released i (rs_clock R) g else g) R
    (rds_release_lease gid l i R)"
proof (cases "rds_get_global gid R")
  case None
  then show ?thesis using assms(1)
    by (simp add: rds_release_lease_def release_script_def redis_missing Let_def rewritten_missing)
next
  case (Some g)
  let ?p = "rs_prefix R" and ?t = "rs_clock R" and ?at = "wrap_i64 (rs_clock R + i)"
  let ?early = "g_next_cron_time g < g_lease_until g"
  let ?nct = "if ?early then g_next_cron_time g else ?at"
  let ?four = "[(''next_cron_time'', dec_int ?nct), (''next_cron_interval'', dec_int (if ?early then 0 else i)),
    (''lease_until'', ''0''), (''update_time'', dec_int ?t)]"
  let ?fvs = "?four @ (if 0 < i then [(''retry_count'', dec_int (g_retry_count g + 1))] else [])"
  let ?H4 = "hset (gkey ?p gid) ?four (rs_keys R)"
  let ?H = "hset (gkey ?p gid) ?fvs (rs_keys R)"
  let ?K = "case zscore (ikey ?p) gid ?H of None \<Rightarrow> ?H | Some _ \<Rightarrow> zadd (ikey ?p) ?nct gid ?H"
  note f = redis_fields [OF assms(1) Some]
  show ?thesis
  proof (cases "g_lease_until g = l")
    case False
    then have "rds_release_lease gid l i R = R"
      using f by (simp add: rds_release_lease_def release_script_def Let_def)
    with False Some assms(1) show ?thesis by (auto intro!: rewritten_refl)
  next
    case True
    with assms(3) Some have cnt: "in_i64 (g_retry_count g + 1)" by (simp add: countable_retries_iff)
    have zero: "dec_int 0 = ''0''" by code_simp
    have "hget (gkey ?p gid) ''retry_count'' ?H4 = hget (gkey ?p gid) ''retry_count'' (rs_keys R)"
      by (simp add: hget_def hash_hset AList.update_conv')
    with f(5) cnt have "hincrby (gkey ?p gid) ''retry_count'' 1 ?H4 =
        Some (hset (gkey ?p gid) [(''retry_count'', dec_int (g_retry_count g + 1))] ?H4)"
      by (simp add: hincrby_def)
    moreover have "(if 0 < i then hset (gkey ?p gid) [(''retry_count'', dec_int (g_retry_count g + 1))] ?H4 else ?H4) = ?H"
      by (simp add: hset_def)
    ultimately have inc: "(if 0 < i then hincrby (gkey ?p gid) ''retry_count'' 1 ?H4 else Some ?H4) = Some ?H"
      by (cases "0 < i") (simp_all only: if_True if_False simp_thms)
    have "num (Some (dec_int ?nct)) = ?nct" using f(6) num_ok(2) by simp
    moreover have "release_script ?p gid l ?at i ?t (rs_keys R) =
        (case (if 0 < i then hincrby (gkey ?p gid) ''retry_count'' 1 ?H4 else Some ?H4) of
           None \<Rightarrow> ?H4
         | Some K \<Rightarrow> (case zscore (ikey ?p) gid K of None \<Rightarrow> K
             | Some _ \<Rightarrow> zadd (ikey ?p) (num (Some (dec_int ?nct))) gid K))"
      using f True zero by (cases ?early) (simp_all add: release_script_def or_empty_def Let_def cong: option.case_cong)
    ultimately have "rds_release_lease gid l i R = R\<lparr>rs_keys := ?K\<rparr>"
      unfolding inc by (simp only: rds_release_lease_def option.case)
    moreover have "rewritten gid (\<lambda>g. if g_lease_until g = l then released i ?t g else g) R (R\<lparr>rs_keys := ?K\<rparr>)"
      by (rule rewrittenI [OF assms(1) Some, of ?fvs])
        (use redis_hash [OF assms(1) Some] redis_clock [OF assms(1)] assms(2) True f(6) cnt in
          \<open>auto intro!: writesI [OF assms(1)] simp: zset_ops zscore_ops fields_ok_upd num_ok released_def split: option.splits\<close>)
    ultimately show ?thesis by simp
  qed
qed

section \<open>Statuses\<close>

lemma written_append: "written (as @ bs) m = written bs (written as m)"
  by (simp add: written_def)

lemma row_of_status_fields:
  assumes "in_i64 t" "is_final st \<or> g_finish_time (row_of m) = None"
  shows "row_of (written (status_fields st t reason) m) = put_status st t reason (row_of m)"
  using assms by (auto simp: status_fields_def written_append put_status_def fin_time_def)

lemma fields_ok_status_fields:
  assumes "fields_ok gid m" "is_final st \<or> g_finish_time (row_of m) = None \<and> m ''finish_time'' = None"
  shows "fields_ok gid (written (status_fields st t reason) m)"
  using assms by (auto simp: fields_ok_def status_fields_def written_append)

lemma status_fields_nonempty: "status_fields st t reason \<noteq> []"
  by (simp add: status_fields_def)

lemma no_finish_time:
  "fields_ok gid m \<Longrightarrow> \<not> is_final (g_status (row_of m)) \<Longrightarrow> m ''finish_time'' = None"
  by (auto simp: fields_ok_def row_of_def or_empty_def gs.parse_as_str)

lemma zset_expire_both [simp]:
  "rk_zset (expire_both p gid st t ttl K) = rk_zset K" "rk_hash (expire_both p gid st t ttl K) = rk_hash K"
  "zscore k m (expire_both p gid st t ttl K) = zscore k m K"
  by (simp_all add: expire_both_def zscore_def)

text \<open>Writing a status over a row that has not ended, with the index kept in step or left behind.\<close>

lemma rewritten_status:
  assumes "redis_ok R" "rds_get_global gid R = Some g" "\<not> is_final (g_status g) \<or> is_final st"
    and "rk_hash K = rk_hash (hset (gkey (rs_prefix R) gid) (status_fields st (rs_clock R) reason) (rs_keys R))"
    and "rk_zset K (ikey (rs_prefix R)) = AList.update gid (g_next_cron_time g) (rk_zset (rs_keys R) (ikey (rs_prefix R))) \<or>
      rk_zset K (ikey (rs_prefix R)) = AList.delete gid (rk_zset (rs_keys R) (ikey (rs_prefix R)))"
  shows "rewritten gid (put_status st (rs_clock R) reason) R (R\<lparr>rs_keys := K\<rparr>)"
proof -
  let ?m = "map_of (rk_hash (rs_keys R) (gkey (rs_prefix R) gid))"
  note h = redis_hash [OF assms(1,2)]
  from h assms(3) have nf: "is_final st \<or> g_finish_time (row_of ?m) = None \<and> ?m ''finish_time'' = None"
    using no_finish_time [of gid ?m] redis_fields(8) [OF assms(1,2)] by auto
  show ?thesis
  proof (rule rewrittenI [OF assms(1,2)])
    show "writes gid (status_fields st (rs_clock R) reason) R K"
      by (rule writesI [OF assms(1) status_fields_nonempty assms(4)]) (use assms(5) in blast)
    show "fields_ok gid (written (status_fields st (rs_clock R) reason) ?m)"
      using h nf by (intro fields_ok_status_fields) auto
    show "row_of (written (status_fields st (rs_clock R) reason) ?m) = put_status st (rs_clock R) reason g"
      using h nf redis_clock [OF assms(1)] row_of_status_fields [of "rs_clock R" st ?m] by auto
  next
    fix s
    assume "zscore (ikey (rs_prefix R)) gid K = Some s"
    with assms(5) show "s = g_next_cron_time (put_status st (rs_clock R) reason g)"
      by (auto simp: zscore_def AList.update_conv' AList.delete_conv' put_status_def)
  qed
qed

lemma rewritten_set_status:
  assumes "redis_ok R" "rds_get_global gid R = Some g" "\<not> is_final (g_status g) \<or> is_final st"
  shows "rewritten gid (put_status st (rs_clock R) (take_chars mid reason)) R
    (rds_set_global_status gid st tt reason R)"
proof (cases "rds_schedulable st tt")
  case True
  then have "rds_set_global_status gid st tt reason R = R\<lparr>rs_keys := zadd (ikey (rs_prefix R)) (g_next_cron_time g) gid
      (hset (gkey (rs_prefix R) gid) (status_fields st (rs_clock R) (take_chars mid reason)) (rs_keys R))\<rparr>"
    using redis_fields [OF assms(1,2)] by (simp add: rds_set_global_status_def Let_def)
  moreover have "rewritten gid (put_status st (rs_clock R) (take_chars mid reason)) R (R\<lparr>rs_keys :=
      zadd (ikey (rs_prefix R)) (g_next_cron_time g) gid
      (hset (gkey (rs_prefix R) gid) (status_fields st (rs_clock R) (take_chars mid reason)) (rs_keys R))\<rparr>)"
    by (rule rewritten_status [OF assms]) (simp_all add: zset_ops)
  ultimately show ?thesis by simp
next
  case False
  let ?K = "expire_both (rs_prefix R) gid st (rs_clock R) (rs_final_ttl R) (zrem (ikey (rs_prefix R)) gid
      (hset (gkey (rs_prefix R) gid) (status_fields st (rs_clock R) (take_chars mid reason)) (rs_keys R)))"
  from False have "rds_set_global_status gid st tt reason R = R\<lparr>rs_keys := ?K\<rparr>"
    by (simp add: rds_set_global_status_def Let_def)
  moreover have "rewritten gid (put_status st (rs_clock R) (take_chars mid reason)) R (R\<lparr>rs_keys := ?K\<rparr>)"
    by (rule rewritten_status [OF assms]) (simp_all add: zset_ops)
  ultimately show ?thesis by simp
qed

lemma contested_not_final: "status_contested f tt \<Longrightarrow> \<not> is_final f"
  by (cases f) auto

lemma rds_transition_effect:
  assumes "redis_ok R" "status_contested f tt"
  shows "case rds_transition gid f st tt reason R of (ok, R') \<Rightarrow>
    (ok \<longleftrightarrow> (\<exists>g. rds_get_global gid R = Some g \<and> g_status g = f)) \<and>
    (if ok then rewritten gid (put_status st (rs_clock R) (take_chars mid reason)) R R' else R' = R)"
proof (cases "rds_get_global gid R")
  case None
  then show ?thesis using assms by (simp add: rds_transition_def transition_script_def redis_missing)
next
  case (Some g)
  note F = redis_fields [OF assms(1) Some]
  show ?thesis
  proof (cases "g_status g = f")
    case False
    then show ?thesis using assms F Some
      by (simp add: rds_transition_def transition_script_def gs.as_str_inj)
  next
    case True
    let ?H = "hset (gkey (rs_prefix R) gid) (status_fields st (rs_clock R) (take_chars mid reason)) (rs_keys R)"
    let ?K = "expire_both (rs_prefix R) gid st (rs_clock R) (rs_final_ttl R)
      (if rds_schedulable st tt then zadd (ikey (rs_prefix R)) (g_next_cron_time g) gid ?H
       else zrem (ikey (rs_prefix R)) gid ?H)"
    have "rds_transition gid f st tt reason R = (True, R\<lparr>rs_keys := ?K\<rparr>)"
      using True assms F by (simp add: rds_transition_def transition_script_def Let_def)
    moreover have "rewritten gid (put_status st (rs_clock R) (take_chars mid reason)) R (R\<lparr>rs_keys := ?K\<rparr>)"
      by (rule rewritten_status [OF assms(1) Some])
        (use True contested_not_final [OF assms(2)] in \<open>auto simp: zset_ops\<close>)
    ultimately show ?thesis using True Some by simp
  qed
qed

section \<open>Leasing\<close>

text \<open>The key space of \<open>R\<close> with some members of its index removed.\<close>

definition pruned :: "redis_store \<Rightarrow> key_space \<Rightarrow> bool" where
  "pruned R K \<longleftrightarrow>
     rk_hash K = rk_hash (rs_keys R) \<and> distinct (map fst (rk_zset K (ikey (rs_prefix R)))) \<and>
     (\<forall>x. zscore (ikey (rs_prefix R)) x K = zscore (ikey (rs_prefix R)) x (rs_keys R)
        \<or> zscore (ikey (rs_prefix R)) x K = None)"

lemma pruned_refl: "redis_ok R \<Longrightarrow> pruned R (rs_keys R)"
  by (simp add: pruned_def redis_ok_def)

lemma pruned_zrem: "pruned R K \<Longrightarrow> pruned R (zrem (ikey (rs_prefix R)) gid K)"
  by (auto simp: pruned_def zset_ops zscore_ops AList.distinct_delete)

lemma pruned_hget: "pruned R K \<Longrightarrow> hget k f K = hget k f (rs_keys R)"
  by (simp add: pruned_def hget_def)

lemma pruned_ok:
  assumes "redis_ok R" "pruned R K"
  shows "redis_ok (R\<lparr>rs_keys := K\<rparr>)" and "rds_get_global x (R\<lparr>rs_keys := K\<rparr>) = rds_get_global x R"
proof -
  have g: "rds_get_global x (R\<lparr>rs_keys := K\<rparr>) = rds_get_global x R" for x
    using assms(2) by (intro rds_get_same) (simp add: pruned_def)
  then show "rds_get_global x (R\<lparr>rs_keys := K\<rparr>) = rds_get_global x R" .
  have "index_ok (R\<lparr>rs_keys := K\<rparr>)"
    unfolding index_ok_def g
  proof (intro allI impI)
    fix gid g s
    assume "zscore (ikey (rs_prefix (R\<lparr>rs_keys := K\<rparr>))) gid (rs_keys (R\<lparr>rs_keys := K\<rparr>)) = Some s"
      and rest: "rds_get_global gid R = Some g" "schedulable g"
    moreover have "zscore (ikey (rs_prefix R)) gid K = zscore (ikey (rs_prefix R)) gid (rs_keys R) \<or>
        zscore (ikey (rs_prefix R)) gid K = None" using assms(2) by (simp add: pruned_def)
    ultimately have "zscore (ikey (rs_prefix R)) gid (rs_keys R) = Some s" by auto
    with rest assms(1) show "s = g_next_cron_time g" by (simp add: index_entry)
  qed
  with assms show "redis_ok (R\<lparr>rs_keys := K\<rparr>)" by (simp add: redis_ok_def pruned_def)
qed

definition lease_fields :: "string \<Rightarrow> int \<Rightarrow> int \<Rightarrow> (string \<times> string) list" where
  "lease_fields owner t til =
     [(''owner'', owner), (''next_cron_time'', dec_int til), (''lease_until'', dec_int til),
      (''update_time'', dec_int t)]"

lemma lock_scan_result:
  assumes "redis_ok R" "pruned R K"
    and "\<And>x. x \<in> set gids \<Longrightarrow> \<exists>s. zscore (ikey (rs_prefix R)) x (rs_keys R) = Some s \<and> s \<le> t"
  shows "case lock_scan (rs_prefix R) t owner til gids K of
      (None, K') \<Rightarrow> pruned R K'
    | (Some h, K') \<Rightarrow> \<exists>gid g K1. rds_get_global gid R = Some g \<and> free_at t g \<and> pruned R K1 \<and>
        K' = zadd (ikey (rs_prefix R)) til gid (hset (gkey (rs_prefix R) gid) (lease_fields owner t til) K1) \<and>
        h = rk_hash K' (gkey (rs_prefix R) gid)"
  using assms(2,3)
proof (induction gids arbitrary: K)
  case (Cons gid gids)
  let ?p = "rs_prefix R"
  have cand: "\<And>x. x \<in> set gids \<Longrightarrow> \<exists>s. zscore (ikey ?p) x (rs_keys R) = Some s \<and> s \<le> t"
    using Cons.prems(2) by simp
  note next1 = Cons.IH [OF pruned_zrem [OF Cons.prems(1)] cand]
  note next2 = Cons.IH [OF Cons.prems(1) cand]
  show ?case
  proof (cases "rds_get_global gid R")
    case None
    with next1 show ?thesis by (simp add: pruned_hget [OF Cons.prems(1)] redis_missing)
  next
    case (Some g)
    note f = redis_fields [OF assms(1) Some]
    consider "\<not> schedulable g" | "schedulable g" "t < g_lease_until g" | "schedulable g" "g_lease_until g \<le> t"
      by fastforce
    then show ?thesis
    proof cases
      case 1
      with next1 f show ?thesis
        by (simp add: pruned_hget [OF Cons.prems(1)] lua_schedulable_iff rds_schedulable_iff)
    next
      case 2
      with next2 f show ?thesis
        by (simp add: pruned_hget [OF Cons.prems(1)] lua_schedulable_iff rds_schedulable_iff)
    next
      case 3
      let ?K = "zadd (ikey ?p) til gid (hset (gkey ?p gid) (lease_fields owner t til) K)"
      obtain s where "zscore (ikey ?p) gid (rs_keys R) = Some s" "s \<le> t" using Cons.prems(2) by auto
      with index_entry [OF assms(1) Some _ 3(1)] 3 have "free_at t g"
        by (auto simp: free_at_def due_def)
      moreover have "lock_scan ?p t owner til (gid # gids) K = (Some (rk_hash ?K (gkey ?p gid)), ?K)"
        using 3 f by (simp add: pruned_hget [OF Cons.prems(1)] lua_schedulable_iff rds_schedulable_iff
            lease_fields_def hgetall_def Let_def)
      ultimately show ?thesis using Some Cons.prems(1) by auto
    qed
  qed
qed simp

lemma candidates:
  assumes "redis_ok R" "x \<in> set (zrangebyscore (ikey (rs_prefix R)) t n (rs_keys R))"
  shows "\<exists>s. zscore (ikey (rs_prefix R)) x (rs_keys R) = Some s \<and> s \<le> t"
  using assms by (intro zrangebyscore_in) (auto simp: redis_ok_def)

lemma rds_lock_Some:
  assumes "redis_ok R" "rds_lock_one_due owner lease R = (Some g, R')"
  shows "\<exists>g0. rds_get_global (g_gid g) R = Some g0 \<and> free_at (rs_clock R) g0 \<and>
    g = take_lease owner (rs_clock R) lease g0 \<and>
    rewritten (g_gid g) (take_lease owner (rs_clock R) lease) R R'"
proof -
  let ?p = "rs_prefix R" and ?t = "rs_clock R" and ?til = "wrap_i64 (rs_clock R + lease)"
  let ?c = "zrangebyscore (ikey ?p) ?t scan_limit (rs_keys R)"
  have cand: "\<exists>s. zscore (ikey ?p) x (rs_keys R) = Some s \<and> s \<le> ?t" if "x \<in> set ?c" for x
    using candidates [OF assms(1) that] .
  note scan = lock_scan_result [where gids = ?c and t = ?t and owner = owner and til = ?til,
      OF assms(1) pruned_refl [OF assms(1)] cand]
  from assms(2) obtain h K where ls: "lock_scan ?p ?t owner ?til ?c (rs_keys R) = (Some h, K)"
    and h: "global_from h = Some g" and R': "R' = R\<lparr>rs_keys := K\<rparr>"
    by (auto simp: rds_lock_one_due_def Let_def split: prod.splits option.splits)
  from scan ls obtain gid g0 K1 where g0: "rds_get_global gid R = Some g0" "free_at ?t g0" "pruned R K1"
    and K: "K = zadd (ikey ?p) ?til gid (hset (gkey ?p gid) (lease_fields owner ?t ?til) K1)"
    and hh: "h = rk_hash K (gkey ?p gid)"
    by auto
  have w: "writes gid (lease_fields owner ?t ?til) R K"
    using g0(3) unfolding K
    by (auto simp: writes_def pruned_def lease_fields_def hset_def zadd_def zscore_def
        AList.distinct_update AList.update_conv')
  have "rewritten gid (take_lease owner ?t lease) R (R\<lparr>rs_keys := K\<rparr>)"
  proof (rule rewrittenI [OF assms(1) g0(1) w])
    show "fields_ok gid (written (lease_fields owner ?t ?til) (map_of (rk_hash (rs_keys R) (gkey ?p gid))))"
      using redis_hash(1) [OF assms(1) g0(1)] by (simp add: lease_fields_def fields_ok_upd num_ok)
    show "row_of (written (lease_fields owner ?t ?til) (map_of (rk_hash (rs_keys R) (gkey ?p gid)))) =
        take_lease owner ?t lease g0"
      using redis_hash(2) [OF assms(1) g0(1)] redis_clock [OF assms(1)]
      by (simp add: lease_fields_def take_lease_def num_ok)
  qed (simp add: K zscore_ops take_lease_def)
  moreover have "rds_get_global gid (R\<lparr>rs_keys := K\<rparr>) = Some g"
    using h hh by (simp add: rds_get_global_def hgetall_def)
  ultimately have "g = take_lease owner ?t lease g0" using g0(1) by (simp add: rewritten_def)
  moreover from this have "g_gid g = gid" using redis_fields(7) [OF assms(1) g0(1)] by simp
  ultimately show ?thesis using g0 R' \<open>rewritten gid _ R _\<close> by auto
qed

lemma rds_lock_None:
  assumes "redis_ok R" "rds_lock_one_due owner lease R = (None, R')"
  shows "redis_ok R' \<and> rs_clock R' = rs_clock R \<and> rds_get_global x R' = rds_get_global x R"
proof -
  let ?p = "rs_prefix R" and ?t = "rs_clock R" and ?til = "wrap_i64 (rs_clock R + lease)"
  let ?c = "zrangebyscore (ikey ?p) ?t scan_limit (rs_keys R)"
  have cand: "\<exists>s. zscore (ikey ?p) x (rs_keys R) = Some s \<and> s \<le> ?t" if "x \<in> set ?c" for x
    using candidates [OF assms(1) that] .
  note scan = lock_scan_result [where gids = ?c and t = ?t and owner = owner and til = ?til,
      OF assms(1) pruned_refl [OF assms(1)] cand]
  obtain flat K where ls: "lock_scan ?p ?t owner ?til ?c (rs_keys R) = (flat, K)" by fastforce
  with assms(2) have R': "R' = R\<lparr>rs_keys := K\<rparr>" and n: "flat = None \<or> (\<exists>h. flat = Some h \<and> global_from h = None)"
    by (auto simp: rds_lock_one_due_def Let_def split: option.splits)
  have "flat = None"
  proof (rule ccontr)
    assume "flat \<noteq> None"
    with n obtain h where "flat = Some h" "global_from h = None" by auto
    with scan ls show False
      by (auto simp: global_from_def hash_hset fold_update_nonempty lease_fields_def split: if_splits)
  qed
  with scan ls have "pruned R K" by simp
  from pruned_ok [OF assms(1) this] show ?thesis by (simp add: R')
qed

lemma rds_lock_ok:
  assumes "redis_ok R" shows "redis_ok (snd (rds_lock_one_due owner lease R))"
proof (cases "rds_lock_one_due owner lease R")
  case (Pair r R')
  show ?thesis
  proof (cases r)
    case None
    with Pair rds_lock_None [OF assms, of owner lease R'] show ?thesis by simp
  next
    case (Some g)
    with Pair rds_lock_Some [OF assms, of owner lease g R'] show ?thesis by (auto simp: rewritten_def)
  qed
qed

section \<open>The contract\<close>

lemma rewritten_some:
  assumes "rewritten gid F R R'" "rds_get_global gid R = Some g"
  shows "(\<lambda>x. rds_get_global x R') = (\<lambda>x. rds_get_global x R)(gid \<mapsto> F g)"
  using assms by (auto simp: rewritten_def)

lemma rds_transition_clock: "rs_clock (snd (rds_transition gid f t tt r R)) = rs_clock R"
  by (auto simp: rds_transition_def rds_set_global_status_def Let_def split: option.splits prod.splits)

interpretation redis: lease_store redis_ok rds_get_global rs_clock status_contested rds_transition
  rds_lock_one_due rds_release_lease rds_schedule_now
proof
  fix gid f t tt r R
  show "rs_clock (snd (rds_transition gid f t tt r R)) = rs_clock R" by (rule rds_transition_clock)
next
  fix R f tt gid t r
  assume "redis_ok R" "status_contested f tt"
  from rds_transition_effect [OF this, of gid t r] \<open>redis_ok R\<close>
  show "redis_ok (snd (rds_transition gid f t tt r R))"
    by (auto simp: rewritten_def split: prod.splits if_splits)
next
  fix R f tt gid t r ok R'
  assume a: "redis_ok R" "status_contested f tt" "rds_transition gid f t tt r R = (ok, R')"
  have e: "ok \<longleftrightarrow> (\<exists>g. rds_get_global gid R = Some g \<and> g_status g = f)"
    "if ok then rewritten gid (put_status t (rs_clock R) (take_chars mid r)) R R' else R' = R"
    using rds_transition_effect [OF a(1,2), of gid t r] a(3) by simp_all
  show "(ok, \<lambda>x. rds_get_global x R') =
      cas_status (rs_clock R) gid f t (take_chars mid r) (\<lambda>x. rds_get_global x R)"
  proof (cases ok)
    case True
    with e obtain g where "rds_get_global gid R = Some g" "g_status g = f" by auto
    with True e(2) show ?thesis by (simp add: cas_status_def rewritten_some)
  next
    case False
    from False e(2) have "R' = R" by simp
    with False e(1) show ?thesis by (cases "rds_get_global gid R") (simp_all add: cas_status_def)
  qed
next
  fix R gid g f t tt r ok R'
  assume a: "redis_ok R" "rds_get_global gid R = Some g" "g_status g = f" "\<not> is_final f"
    "rds_transition gid f t tt r R = (ok, R')"
  have "ok \<and> rewritten gid (put_status t (rs_clock R) (take_chars mid r)) R R'"
  proof (cases "status_contested f tt")
    case True
    from rds_transition_effect [OF a(1) True, of gid t r] a show ?thesis by auto
  next
    case False
    with a rewritten_set_status [OF a(1,2), of t r tt] show ?thesis by (auto simp: rds_transition_def)
  qed
  with rewritten_some [OF _ a(2)] show "ok \<and> redis_ok R' \<and> (\<lambda>x. rds_get_global x R') =
      (\<lambda>x. rds_get_global x R)(gid \<mapsto> put_status t (rs_clock R) (take_chars mid r) g)"
    by (auto simp: rewritten_def)
next
  fix R owner lease
  show "redis_ok R \<Longrightarrow> redis_ok (snd (rds_lock_one_due owner lease R))" by (rule rds_lock_ok)
  show "rs_clock (snd (rds_lock_one_due owner lease R)) = rs_clock R"
    by (simp add: rds_lock_one_due_def Let_def split: prod.splits)
next
  fix R owner lease g R'
  assume a: "redis_ok R" "rds_lock_one_due owner lease R = (Some g, R')"
  from rds_lock_Some [OF a] obtain g0 where g0: "rds_get_global (g_gid g) R = Some g0"
    "free_at (rs_clock R) g0" "g = take_lease owner (rs_clock R) lease g0"
    "rewritten (g_gid g) (take_lease owner (rs_clock R) lease) R R'" by blast
  from rewritten_some [OF g0(4,1)] g0
  show "\<exists>g0. rds_get_global (g_gid g) R = Some g0 \<and> free_at (rs_clock R) g0 \<and>
      g = take_lease owner (rs_clock R) lease g0 \<and>
      (\<lambda>x. rds_get_global x R') = (\<lambda>x. rds_get_global x R)(g_gid g \<mapsto> g)" by auto
next
  fix R owner lease R' x
  assume "redis_ok R" "rds_lock_one_due owner lease R = (None, R')"
  with rds_lock_None show "rds_get_global x R' = rds_get_global x R" by blast
next
  fix R gid l i x
  assume "redis_ok R" "in_i64 i" "countable_retries gid l R rds_get_global"
  from rewritten_release [OF this]
  show "rds_get_global x (rds_release_lease gid l i R) =
      (if x = gid then map_option (\<lambda>g. if g_lease_until g = l then released i (rs_clock R) g else g)
                        (rds_get_global x R)
       else rds_get_global x R)" by (simp add: rewritten_def)
next
  fix R gid l i
  assume "redis_ok R" "in_i64 i" "countable_retries gid l R rds_get_global"
  from rewritten_release [OF this] show "redis_ok (rds_release_lease gid l i R)"
    by (simp add: rewritten_def)
next
  fix R gid x
  show "redis_ok R \<Longrightarrow> redis_ok (rds_schedule_now gid R)"
    using rewritten_schedule_now [of R gid] by (simp add: rewritten_def)
  show "rs_clock (rds_schedule_now gid R) = rs_clock R"
    by (simp add: rds_schedule_now_def Let_def split: option.splits)
  show "redis_ok R \<Longrightarrow> rds_get_global x (rds_schedule_now gid R) =
      (if x = gid then map_option (\<lambda>g. g\<lparr>g_next_cron_time := rs_clock R, g_next_cron_interval := 0\<rparr>)
                        (rds_get_global x R)
       else rds_get_global x R)"
    using rewritten_schedule_now [of R gid] by (simp add: rewritten_def)
qed (simp add: rds_release_lease_def)

end
