(* ===== verification/Redis_History.thy ===== *)
theory Redis_History
  imports Redis_Laws
begin

text \<open>
  Histories of the Redis store: every operation keeps the invariant, every transaction that is to
  be scheduled stays in the index, and what follows for leasing. The places where the store does
  something else than the SQL store are theorems too.
\<close>

section \<open>The index is complete\<close>

definition index_at :: "string \<Rightarrow> redis_store \<Rightarrow> int option" where
  "index_at gid R = zscore (ikey (rs_prefix R)) gid (rs_keys R)"

definition index_complete :: "redis_store \<Rightarrow> bool" where
  "index_complete R \<longleftrightarrow>
     (\<forall>gid g. rds_get_global gid R = Some g \<longrightarrow> schedulable g \<longrightarrow> index_at gid R \<noteq> None)"

definition redis_inv :: "redis_store \<Rightarrow> bool" where
  "redis_inv R \<longleftrightarrow> redis_ok R \<and> index_complete R"

text \<open>
  A step keeps the index complete when it leaves the entries of the others and gives the
  transaction it writes an entry, or leaves its entry when it was to be scheduled before.
\<close>

lemma rewritten_inv:
  assumes "redis_inv R" "rewritten gid F R R'"
    and "\<And>x g. x \<noteq> gid \<Longrightarrow> rds_get_global x R = Some g \<Longrightarrow> schedulable g \<Longrightarrow> index_at x R' = index_at x R"
    and "\<And>g. rds_get_global gid R = Some g \<Longrightarrow> schedulable (F g) \<Longrightarrow>
      index_at gid R' \<noteq> None \<or> index_at gid R' = index_at gid R \<and> schedulable g"
  shows "redis_inv R'"
proof -
  have "index_at x R' \<noteq> None" if x: "rds_get_global x R' = Some g" "schedulable g" for x g
  proof (cases "x = gid")
    case True
    with assms(2) x obtain g0 where "rds_get_global gid R = Some g0" "g = F g0"
      by (auto simp: rewritten_def)
    with assms(1) assms(4) [of g0] x True show ?thesis by (auto simp: redis_inv_def index_complete_def)
  next
    case False
    with assms(2) x have "rds_get_global x R = Some g" by (simp add: rewritten_def)
    with assms(1) assms(3) [OF False] x show ?thesis by (auto simp: redis_inv_def index_complete_def)
  qed
  with assms(2) show ?thesis by (simp add: redis_inv_def index_complete_def rewritten_def)
qed

lemma index_at_schedule_now:
  assumes "redis_ok R"
  shows "index_at x (rds_schedule_now gid R) =
    (if x = gid \<and> (\<exists>g. rds_get_global gid R = Some g \<and> schedulable g) then Some (rs_clock R) else index_at x R)"
proof (cases "rds_get_global gid R")
  case None
  then show ?thesis by (simp add: rds_schedule_now_def redis_missing Let_def index_at_def)
next
  case (Some g)
  with redis_fields [OF assms Some] show ?thesis
    by (simp add: rds_schedule_now_def Let_def index_at_def lua_schedulable_iff rds_schedulable_iff zscore_ops)
qed

lemma inv_schedule_now:
  assumes "redis_inv R" shows "redis_inv (rds_schedule_now gid R)"
proof (rule rewritten_inv [OF assms rewritten_schedule_now])
  show ok: "redis_ok R" using assms by (simp add: redis_inv_def)
  show "index_at x (rds_schedule_now gid R) = index_at x R" if "x \<noteq> gid" for x
    using that by (simp add: index_at_schedule_now [OF ok])
  show "index_at gid (rds_schedule_now gid R) \<noteq> None \<or>
      index_at gid (rds_schedule_now gid R) = index_at gid R \<and> schedulable g"
    if "rds_get_global gid R = Some g" "schedulable (g\<lparr>g_next_cron_time := rs_clock R, g_next_cron_interval := 0\<rparr>)" for g
    using that by (simp add: index_at_schedule_now [OF ok] schedulable_def)
qed

text \<open>Steps that neither take members out of the index nor make anything schedulable.\<close>

lemma rewritten_inv_keep:
  assumes "redis_inv R" "rewritten gid F R R'"
    and "\<And>g. schedulable (F g) = schedulable g" "\<And>x. index_at x R' = None \<longleftrightarrow> index_at x R = None"
  shows "redis_inv R'"
proof -
  have "index_at x R' \<noteq> None" if x: "rds_get_global x R' = Some g" "schedulable g" for x g
  proof -
    from x assms(2,3) obtain g0 where "rds_get_global x R = Some g0" "schedulable g0"
      by (auto simp: rewritten_def split: if_splits)
    with assms(1,4) show ?thesis by (auto simp: redis_inv_def index_complete_def)
  qed
  with assms(2) show ?thesis by (simp add: redis_inv_def index_complete_def rewritten_def)
qed

lemma index_at_schedule_retry: "index_at x (rds_schedule_retry gid i R) = None \<longleftrightarrow> index_at x R = None"
  by (auto simp: index_at_def rds_schedule_retry_def Let_def zscore_ops split: option.splits)

lemma inv_schedule_retry:
  assumes "redis_inv R" "in_i64 i" shows "redis_inv (rds_schedule_retry gid i R)"
proof (rule rewritten_inv_keep [OF assms(1) rewritten_schedule_retry [OF _ assms(2)]])
  show "redis_ok R" using assms by (simp add: redis_inv_def)
qed (simp_all add: index_at_schedule_retry schedulable_def)

lemma index_at_release: "index_at x (rds_release_lease gid l i R) = None \<longleftrightarrow> index_at x R = None"
  by (auto simp: index_at_def rds_release_lease_def release_script_def hincrby_def Let_def zscore_ops
      split: option.splits prod.splits if_splits)

lemma inv_release:
  assumes "redis_inv R" "in_i64 i" "countable_retries gid l R rds_get_global"
  shows "redis_inv (rds_release_lease gid l i R)"
proof (rule rewritten_inv_keep [OF assms(1) rewritten_release [OF _ assms(2,3)]])
  show "redis_ok R" using assms by (simp add: redis_inv_def)
qed (simp_all add: index_at_release schedulable_def)

section \<open>Statuses and leases\<close>

lemma index_at_set_status:
  "x \<noteq> gid \<Longrightarrow> index_at x (rds_set_global_status gid st tt r R) = index_at x R"
  "redis_ok R \<Longrightarrow> rds_get_global gid R = Some g \<Longrightarrow> rds_schedulable st tt \<Longrightarrow>
   index_at gid (rds_set_global_status gid st tt r R) = Some (g_next_cron_time g)"
  using redis_fields [of R gid g]
  by (auto simp: index_at_def rds_set_global_status_def Let_def zscore_ops split: option.splits)

lemma index_at_transition:
  "x \<noteq> gid \<Longrightarrow> index_at x (snd (rds_transition gid f st tt r R)) = index_at x R"
  using index_at_set_status(1) [of x gid st tt r R]
  by (cases "status_contested f tt")
    (auto simp: rds_transition_def transition_script_def Let_def index_at_def zscore_ops split: option.splits)

lemma index_at_transition_self:
  assumes "redis_ok R" "rds_get_global gid R = Some g" "rds_schedulable st tt"
    and "rds_transition gid f st tt r R = (True, R')"
  shows "index_at gid R' = Some (g_next_cron_time g)"
proof (cases "status_contested f tt")
  case True
  with assms redis_fields [OF assms(1,2)] show ?thesis
    by (auto simp: rds_transition_def transition_script_def Let_def index_at_def zscore_ops split: if_splits)
next
  case False
  with assms show ?thesis by (auto simp: rds_transition_def index_at_set_status)
qed

text \<open>
  The caller names the mode of the transaction, and where Redis does not compare (\<open>status_contested\<close>)
  the transaction exists and is being ended, or has not ended.
\<close>

definition sound_write :: "string \<Rightarrow> global_status \<Rightarrow> global_status \<Rightarrow> trans_type \<Rightarrow> redis_store \<Rightarrow> bool" where
  "sound_write gid f st tt R \<longleftrightarrow>
     (\<forall>g. rds_get_global gid R = Some g \<longrightarrow> g_trans_type g = tt) \<and>
     (status_contested f tt \<or>
      (\<exists>g. rds_get_global gid R = Some g \<and> (is_final st \<or> \<not> is_final (g_status g))))"

lemma transition_rewrites:
  assumes "redis_ok R" "sound_write gid f st tt R"
    and "rds_transition gid f st tt r R = (ok, R')"
  shows "if ok then (\<exists>g. rds_get_global gid R = Some g \<and> g_trans_type g = tt) \<and>
      rewritten gid (put_status st (rs_clock R) (take_chars mid r)) R R' else R' = R"
proof (cases "status_contested f tt")
  case True
  with rds_transition_effect [OF assms(1) True, of gid st r] assms(2,3) show ?thesis
    by (auto simp: sound_write_def)
next
  case False
  with assms(2) obtain g where g: "rds_get_global gid R = Some g" "g_trans_type g = tt"
    "\<not> is_final (g_status g) \<or> is_final st" by (auto simp: sound_write_def)
  with rewritten_set_status [OF assms(1) g(1,3), of r tt] False assms(3) show ?thesis
    by (auto simp: rds_transition_def)
qed

lemma inv_transition:
  assumes "redis_inv R" "sound_write gid f st tt R"
  shows "redis_inv (snd (rds_transition gid f st tt r R))"
proof -
  obtain ok R' where tr: "rds_transition gid f st tt r R = (ok, R')" by fastforce
  have R: "redis_ok R" using assms(1) by (simp add: redis_inv_def)
  note e = transition_rewrites [OF R assms(2) tr]
  show ?thesis
  proof (cases ok)
    case False
    with e assms(1) tr show ?thesis by simp
  next
    case True
    with e obtain g where g: "rds_get_global gid R = Some g" "g_trans_type g = tt"
      and w: "rewritten gid (put_status st (rs_clock R) (take_chars mid r)) R R'" by auto
    have "redis_inv R'"
    proof (rule rewritten_inv [OF assms(1) w])
      show "index_at x R' = index_at x R" if "x \<noteq> gid" for x
        using index_at_transition [OF that, of f st tt r R] tr by simp
      show "index_at gid R' \<noteq> None \<or> index_at gid R' = index_at gid R \<and> schedulable g'"
        if "rds_get_global gid R = Some g'" "schedulable (put_status st (rs_clock R) (take_chars mid r) g')" for g'
        using that g index_at_transition_self [OF R g(1), of st tt f r R'] tr True
        by (auto simp: rds_schedulable_iff [symmetric] put_status_def)
    qed
    with tr show ?thesis by simp
  qed
qed

text \<open>The scan removes only what is not to be scheduled.\<close>

definition pruned_well :: "redis_store \<Rightarrow> key_space \<Rightarrow> bool" where
  "pruned_well R K \<longleftrightarrow>
     (\<forall>x g. rds_get_global x R = Some g \<longrightarrow> schedulable g \<longrightarrow>
        zscore (ikey (rs_prefix R)) x K = index_at x R)"

lemma lock_scan_index:
  assumes "redis_ok R" "pruned R K" "pruned_well R K"
    and "lock_scan (rs_prefix R) t owner til gids K = (r, K')"
    and "rds_get_global x R = Some g" "schedulable g"
  shows "zscore (ikey (rs_prefix R)) x K' = index_at x R \<or>
    (r \<noteq> None \<and> zscore (ikey (rs_prefix R)) x K' \<noteq> None)"
  using assms(2-4)
proof (induction gids arbitrary: K)
  case Nil
  with assms(5,6) show ?case by (auto simp: pruned_well_def)
next
  case (Cons gid gids)
  let ?p = "rs_prefix R"
  show ?case
  proof (cases "rds_get_global gid R")
    case None
    then have "pruned_well R (zrem (ikey ?p) gid K)"
      using Cons.prems(2) by (auto simp: pruned_well_def zscore_ops)
    with Cons.IH [OF pruned_zrem [OF Cons.prems(1)]] Cons.prems None show ?thesis
      by (simp add: pruned_hget [OF Cons.prems(1)] redis_missing)
  next
    case (Some g0)
    note f = redis_fields [OF assms(1) Some]
    consider "\<not> schedulable g0" | "schedulable g0" "t < g_lease_until g0" | "schedulable g0" "g_lease_until g0 \<le> t"
      by fastforce
    then show ?thesis
    proof cases
      case 1
      then have "pruned_well R (zrem (ikey ?p) gid K)"
        using Cons.prems(2) Some by (auto simp: pruned_well_def zscore_ops)
      with Cons.IH [OF pruned_zrem [OF Cons.prems(1)]] Cons.prems 1 f show ?thesis
        by (simp add: pruned_hget [OF Cons.prems(1)] lua_schedulable_iff rds_schedulable_iff)
    next
      case 2
      with Cons.IH [OF Cons.prems(1,2)] Cons.prems f show ?thesis
        by (simp add: pruned_hget [OF Cons.prems(1)] lua_schedulable_iff rds_schedulable_iff)
    next
      case 3
      let ?K = "zadd (ikey ?p) til gid (hset (gkey ?p gid) (lease_fields owner t til) K)"
      have "lock_scan ?p t owner til (gid # gids) K = (Some (rk_hash ?K (gkey ?p gid)), ?K)"
        using 3 f by (simp add: pruned_hget [OF Cons.prems(1)] lua_schedulable_iff rds_schedulable_iff
            lease_fields_def hgetall_def Let_def)
      with Cons.prems(2,3) assms(5,6) show ?thesis
        by (auto simp: pruned_well_def zscore_ops)
    qed
  qed
qed

lemma inv_lock:
  assumes "redis_inv R" shows "redis_inv (snd (rds_lock_one_due owner lease R))"
proof -
  have R: "redis_ok R" using assms by (simp add: redis_inv_def)
  obtain r R' where l: "rds_lock_one_due owner lease R = (r, R')" by fastforce
  have sched: "schedulable g0" if "rds_get_global x R' = Some g" "schedulable g" "rds_get_global x R = Some g0" for x g g0
  proof (cases r)
    case None
    with that l rds_lock_None [OF R, of owner lease R' x] show ?thesis by simp
  next
    case (Some g1)
    with l rds_lock_Some [OF R, of owner lease g1 R'] obtain
      "rewritten (g_gid g1) (take_lease owner (rs_clock R) lease) R R'" by auto
    with that show ?thesis by (auto simp: rewritten_def schedulable_def split: if_splits)
  qed
  have dom: "rds_get_global x R \<noteq> None" if "rds_get_global x R' = Some g" for x g
  proof (cases r)
    case None
    with that l rds_lock_None [OF R, of owner lease R' x] show ?thesis by simp
  next
    case (Some g1)
    with l rds_lock_Some [OF R, of owner lease g1 R'] obtain
      "rewritten (g_gid g1) (take_lease owner (rs_clock R) lease) R R'" by auto
    with that show ?thesis by (auto simp: rewritten_def split: if_splits)
  qed
  have "index_at x R' \<noteq> None" if x: "rds_get_global x R' = Some g" "schedulable g" for x g
  proof -
    from dom [OF x(1)] obtain g0 where g0: "rds_get_global x R = Some g0" by auto
    from sched [OF x g0] have s0: "schedulable g0" .
    obtain flat K where ls: "lock_scan (rs_prefix R) (rs_clock R) owner (wrap_i64 (rs_clock R + lease))
        (zrangebyscore (ikey (rs_prefix R)) (rs_clock R) scan_limit (rs_keys R)) (rs_keys R) = (flat, K)"
      by fastforce
    with l have R': "R' = R\<lparr>rs_keys := K\<rparr>" by (simp add: rds_lock_one_due_def Let_def)
    have "pruned_well R (rs_keys R)" by (simp add: pruned_well_def index_at_def)
    from lock_scan_index [OF R pruned_refl [OF R] this ls g0 s0] assms g0 s0
    show ?thesis by (auto simp: R' index_at_def redis_inv_def index_complete_def)
  qed
  with rds_lock_ok [OF R, of owner lease] l show ?thesis by (simp add: redis_inv_def index_complete_def)
qed

section \<open>Submitting and creating\<close>

definition put_submitted :: "string \<Rightarrow> int \<Rightarrow> int \<Rightarrow> global_row \<Rightarrow> global_row" where
  "put_submitted owner at t r =
     r\<lparr>g_status := GSubmitted, g_update_time := t, g_next_cron_time := at, g_next_cron_interval := 0,
       g_owner := owner, g_lease_until := claim_until owner at\<rparr>"

text \<open>
  One script: the answer is what happened, and what it hands back is the row as it is stored.
\<close>

lemma rds_submit_result:
  assumes "redis_ok R" "in_i64 at" "rds_submit_prepared gid owner at R = (out, R')"
  shows "case rds_get_global gid R of
      None \<Rightarrow> out = Missing \<and> R' = R
    | Some g \<Rightarrow>
        if g_status g = GPrepared
        then out = Advanced (put_submitted owner at (rs_clock R) g) \<and>
          rewritten gid (put_submitted owner at (rs_clock R)) R R' \<and> index_at gid R' = Some at
        else out = Already \<and> R' = R"
proof (cases "rds_get_global gid R")
  case None
  with assms show ?thesis by (simp add: rds_submit_prepared_def redis_missing)
next
  case (Some g)
  note f = redis_fields [OF assms(1) Some]
  let ?p = "rs_prefix R" and ?t = "rs_clock R"
  let ?fvs = "[(''status'', global_status_str GSubmitted), (''update_time'', dec_int ?t),
    (''next_cron_time'', dec_int at), (''next_cron_interval'', ''0''), (''owner'', owner),
    (''lease_until'', dec_int (claim_until owner at))]"
  let ?K = "zadd (ikey ?p) at gid (hset (gkey ?p gid) ?fvs (rs_keys R))"
  have c: "in_i64 (claim_until owner at)" using assms(2) num_ok(1) by (simp add: claim_until_def)
  show ?thesis
  proof (cases "g_status g = GPrepared")
    case False
    with assms(3) f(1) Some show ?thesis
      by (simp add: rds_submit_prepared_def Let_def gs.as_str_inj del: global_status_str.simps)
  next
    case True
    have "lua_schedulable (global_status_str GSubmitted) tt" for tt by (simp add: lua_schedulable_def)
    with True assms(3) f have out: "out = (case rds_get_global gid (R\<lparr>rs_keys := ?K\<rparr>) of
        Some row \<Rightarrow> Advanced row | None \<Rightarrow> Already)" and R': "R' = R\<lparr>rs_keys := ?K\<rparr>"
      by (auto simp: rds_submit_prepared_def rds_get_global_def Let_def hgetall_def
          simp del: global_status_str.simps)
    have nf: "map_of (rk_hash (rs_keys R) (gkey ?p gid)) ''finish_time'' = None"
      using no_finish_time [OF redis_hash(1) [OF assms(1) Some]] redis_hash(2) [OF assms(1) Some] True by simp
    have w: "rewritten gid (put_submitted owner at ?t) R (R\<lparr>rs_keys := ?K\<rparr>)"
    proof (rule rewrittenI [OF assms(1) Some, of ?fvs])
      show "writes gid ?fvs R ?K" by (rule writesI [OF assms(1)]) (auto simp: zset_ops)
      have "\<exists>st. m = Some (global_status_str st)" if "m = Some (global_status_str GSubmitted)" for m
        using that by blast
      with redis_hash(1) [OF assms(1) Some] nf assms(2)
      show "fields_ok gid (written ?fvs (map_of (rk_hash (rs_keys R) (gkey ?p gid))))"
        by (auto simp: fields_ok_def simp del: global_status_str.simps)
      show "row_of (written ?fvs (map_of (rk_hash (rs_keys R) (gkey ?p gid)))) = put_submitted owner at ?t g"
        using redis_hash(2) [OF assms(1) Some] redis_clock [OF assms(1)] assms(2) c
        by (simp add: put_submitted_def del: global_status_str.simps)
    qed (simp add: zscore_ops put_submitted_def)
    then have "rds_get_global gid (R\<lparr>rs_keys := ?K\<rparr>) = Some (put_submitted owner at ?t g)"
      using Some by (simp add: rewritten_def)
    with out w True Some R' show ?thesis by (simp add: index_at_def zscore_ops)
  qed
qed

definition row_i64 :: "global_row \<Rightarrow> bool" where
  "row_i64 g \<longleftrightarrow> in_i64 (g_next_cron_time g) \<and> in_i64 (g_next_cron_interval g) \<and>
     in_i64 (g_lease_until g) \<and> in_i64 (g_timeout_to_fail g)"

lemma row_of_create_fields:
  assumes "in_i64 t" "row_i64 g"
  shows "row_of (written (create_fields t g) (\<lambda>_. None)) = fresh_row t g"
  using assms by (cases g) (simp add: create_fields_def row_i64_def fresh_row_def row_of_def or_empty_def
      tt.parse_as_str gs.parse_as_str)

lemma fields_ok_create:
  "row_i64 g \<Longrightarrow> fields_ok (g_gid g) (written (create_fields t g) (\<lambda>_. None))"
  by (auto simp: create_fields_def row_i64_def fields_ok_def)

lemma zset_keep_other: "k \<noteq> k' \<Longrightarrow> rk_zset (zkeep_last k' n K) k = rk_zset K k"
  by (simp add: zkeep_last_def Let_def)

lemma rds_create_result:
  assumes "redis_ok R" "row_i64 g" "rds_create_global J g bs R = (Inr True, R')"
  shows "rds_get_global (g_gid g) R = None" "redis_ok R'" "rs_clock R' = rs_clock R" "rs_prefix R' = rs_prefix R"
    and "rds_get_global x R' = (if x = g_gid g then Some (fresh_row (rs_clock R) g) else rds_get_global x R)"
    and "index_at x R' = (if x = g_gid g \<and> schedulable g then Some (g_next_cron_time g) else index_at x R)"
    and "rk_ttl (rs_keys R') = rk_ttl (rs_keys R)"
proof -
  let ?p = "rs_prefix R" and ?t = "rs_clock R" and ?args = "concat (map (branch_args J) bs)"
  let ?H = "hset (gkey ?p (g_gid g)) (create_fields ?t g) (rs_keys R)"
  let ?B = "if ?args \<noteq> [] then hset (brkey ?p (g_gid g)) ?args ?H else ?H"
  let ?I = "if schedulable g then zadd (ikey ?p) (g_next_cron_time g) (g_gid g) ?B else ?B"
  let ?K = "zkeep_last (akey ?p) recent_cap (zadd (akey ?p) ?t (g_gid g) ?I)"
  from assms(3) have new: "\<not> exists_key (gkey ?p (g_gid g)) (rs_keys R)" and R': "R' = R\<lparr>rs_keys := ?K\<rparr>"
    by (auto simp: rds_create_global_def create_script_def Let_def rds_schedulable_iff
        split: sum.splits prod.splits if_splits)
  then have h: "rk_hash (rs_keys R) (gkey ?p (g_gid g)) = []" by (simp add: exists_key_def)
  then show "rds_get_global (g_gid g) R = None" by (simp add: rds_get_global_def hgetall_def global_from_def)
  have ne: "create_fields ?t g \<noteq> []" by (simp add: create_fields_def)
  have hash: "rk_hash ?K (gkey ?p y) = rk_hash ?H (gkey ?p y)" for y
    by (simp add: hash_hset)
  have z: "rk_zset ?K (ikey ?p) = (if schedulable g
      then AList.update (g_gid g) (g_next_cron_time g) (rk_zset (rs_keys R) (ikey ?p))
      else rk_zset (rs_keys R) (ikey ?p))"
    by (simp add: zset_keep_other zset_ops)
  have w: "writes (g_gid g) (create_fields ?t g) R ?K"
    using assms(1) z hash ne
    by (auto simp: writes_def redis_ok_def zscore_def AList.update_conv' AList.distinct_update)
  have get: "rds_get_global y R' = (if y = g_gid g then Some (fresh_row ?t g) else rds_get_global y R)" for y
    unfolding R' using rds_get_hset [of ?K R "g_gid g" "create_fields ?t g" y] hash ne h
      row_of_create_fields [OF redis_clock [OF assms(1)] assms(2)]
    by (simp add: written_def)
  then show "rds_get_global x R' = (if x = g_gid g then Some (fresh_row ?t g) else rds_get_global x R)" .
  show idx: "index_at x R' = (if x = g_gid g \<and> schedulable g then Some (g_next_cron_time g) else index_at x R)" for x
    by (simp add: R' index_at_def zscore_def z AList.update_conv')
  have "redis_ok (R\<lparr>rs_keys := ?K\<rparr>)"
  proof (rule writes_ok [OF assms(1) w])
    show "fields_ok (g_gid g) (written (create_fields ?t g) (map_of (rk_hash (rs_keys R) (gkey ?p (g_gid g)))))"
      using fields_ok_create [OF assms(2)] by (simp add: h)
  next
    fix s g'
    assume "zscore (ikey ?p) (g_gid g) ?K = Some s" "rds_get_global (g_gid g) (R\<lparr>rs_keys := ?K\<rparr>) = Some g'"
      "schedulable g'"
    with get [of "g_gid g"] idx [of "g_gid g"] show "s = g_next_cron_time g'"
      by (auto simp: R' index_at_def fresh_row_def schedulable_def split: if_splits)
  qed
  with R' show "redis_ok R'" by simp
  show "rs_clock R' = rs_clock R" "rs_prefix R' = rs_prefix R" by (simp_all add: R')
  show "rk_ttl (rs_keys R') = rk_ttl (rs_keys R)" by (simp add: R')
qed

lemma rds_create_same:
  assumes "rds_create_global J g bs R = (r, R')" "r \<noteq> Inr True"
  shows "R' = R"
  using assms
  by (auto simp: rds_create_global_def create_script_def Let_def split: sum.splits prod.splits if_splits)

lemma inv_create:
  assumes "redis_inv R" "row_i64 g" shows "redis_inv (snd (rds_create_global J g bs R))"
proof -
  obtain r R' where c: "rds_create_global J g bs R = (r, R')" by fastforce
  show ?thesis
  proof (cases "r = Inr True")
    case True
    with c have c: "rds_create_global J g bs R = (Inr True, R')" by simp
    have R: "redis_ok R" using assms(1) by (simp add: redis_inv_def)
    note e = rds_create_result [OF R assms(2) c]
    have "index_complete R'"
      using assms(1) by (auto simp: redis_inv_def index_complete_def e(5,6) fresh_row_def schedulable_def)
    with c e(2) show ?thesis by (simp add: redis_inv_def)
  next
    case False
    with rds_create_same [OF c] assms(1) c show ?thesis by simp
  qed
qed

lemma inv_submit:
  assumes "redis_inv R" "in_i64 at" shows "redis_inv (snd (rds_submit_prepared gid owner at R))"
proof -
  have R: "redis_ok R" using assms(1) by (simp add: redis_inv_def)
  obtain out R' where c: "rds_submit_prepared gid owner at R = (out, R')" by fastforce
  note e = rds_submit_result [OF R assms(2) c]
  show ?thesis
  proof (cases "\<exists>g. rds_get_global gid R = Some g \<and> g_status g = GPrepared")
    case False
    with e have "R' = R" by (auto split: option.splits if_splits)
    with c assms(1) show ?thesis by simp
  next
    case True
    with e have w: "rewritten gid (put_submitted owner at (rs_clock R)) R R'" and i: "index_at gid R' = Some at"
      by auto
    have "redis_inv R'"
    proof (rule rewritten_inv [OF assms(1) w])
      show "index_at x R' = index_at x R" if "x \<noteq> gid" for x
        using c that by (auto simp: rds_submit_prepared_def Let_def index_at_def zscore_ops split: option.splits if_splits)
    qed (simp add: i)
    with c show ?thesis by simp
  qed
qed

section \<open>Operations on other keys\<close>

text \<open>Branches, tokens and topics live under other keys.\<close>

definition untouched :: "redis_store \<Rightarrow> redis_store \<Rightarrow> bool" where
  "untouched R R' \<longleftrightarrow>
     rs_prefix R' = rs_prefix R \<and> rs_clock R' = rs_clock R \<and>
     (\<forall>gid. rk_hash (rs_keys R') (gkey (rs_prefix R) gid) = rk_hash (rs_keys R) (gkey (rs_prefix R) gid) \<and>
        rk_ttl (rs_keys R') (gkey (rs_prefix R) gid) = rk_ttl (rs_keys R) (gkey (rs_prefix R) gid)) \<and>
     rk_zset (rs_keys R') (ikey (rs_prefix R)) = rk_zset (rs_keys R) (ikey (rs_prefix R))"

lemma untouched_get: "untouched R R' \<Longrightarrow> rds_get_global x R' = rds_get_global x R"
  by (simp add: untouched_def rds_get_global_def hgetall_def)

lemma untouched_index: "untouched R R' \<Longrightarrow> index_at x R' = index_at x R"
  by (simp add: untouched_def index_at_def zscore_def)

lemma untouched_inv: "untouched R R' \<Longrightarrow> redis_inv R \<Longrightarrow> redis_inv R'"
  by (auto simp: redis_inv_def index_complete_def untouched_get untouched_index)
    (auto simp: redis_ok_def index_ok_def untouched_def rds_get_global_def hgetall_def zscore_def)

lemma hsetnx_other: "k' \<noteq> k \<Longrightarrow> rk_hash (snd (hsetnx k f v K)) k' = rk_hash K k'"
  by (auto simp: hsetnx_def hash_hset split: option.splits)

lemma hsetnx_parts: "rk_zset (snd (hsetnx k f v K)) = rk_zset K" "rk_ttl (snd (hsetnx k f v K)) = rk_ttl K"
  by (auto simp: hsetnx_def split: option.splits)

lemma hsetnx_ops_parts:
  "(k' \<noteq> k \<longrightarrow> rk_hash (snd (hsetnx_ops J k bid payload ops K)) k' = rk_hash K k') \<and>
   rk_zset (snd (hsetnx_ops J k bid payload ops K)) = rk_zset K \<and>
   rk_ttl (snd (hsetnx_ops J k bid payload ops K)) = rk_ttl K"
proof (induction ops arbitrary: K)
  case (Cons p ops)
  obtain op url where p: "p = (op, url)" by fastforce
  obtain fresh K1 where n: "hsetnx k (bfield bid op) (bj_value J url payload) K = (fresh, K1)" by fastforce
  then have "k' \<noteq> k \<Longrightarrow> rk_hash K1 k' = rk_hash K k'" "rk_zset K1 = rk_zset K" "rk_ttl K1 = rk_ttl K"
    using hsetnx_other [of k' k "bfield bid op" "bj_value J url payload" K]
      hsetnx_parts [of k "bfield bid op" "bj_value J url payload" K] by simp_all
  with Cons.IH [of K1] show ?case by (auto simp: p n Let_def split: option.splits)
qed simp

lemma untouched_branches:
  "untouched R (rds_set_branch_status gid bid op st R)"
  "untouched R (snd (rds_set_branch_result J gid bid op st payload R))"
  "untouched R (snd (rds_register_branch_with J gid bid ops payload R))"
proof -
  show "untouched R (rds_set_branch_status gid bid op st R)"
    by (simp add: untouched_def rds_set_branch_status_def hash_hset)
  show "untouched R (snd (rds_set_branch_result J gid bid op st payload R))"
    by (auto simp: untouched_def rds_set_branch_result_def hash_hset Let_def split: sum.splits option.splits)
  show "untouched R (snd (rds_register_branch_with J gid bid ops payload R))"
    using hsetnx_ops_parts [of _ "brkey (rs_prefix R) gid" J bid payload ops "rs_keys R"]
    by (auto simp: untouched_def rds_register_branch_with_def split_beta Let_def split: sum.splits)
qed

lemma hincrby_other: "hincrby k f n K = Some K' \<Longrightarrow> k' \<noteq> k \<Longrightarrow> rk_hash K' k' = rk_hash K k'"
  "hincrby k f n K = Some K' \<Longrightarrow> rk_zset K' = rk_zset K" "hincrby k f n K = Some K' \<Longrightarrow> rk_ttl K' = rk_ttl K"
  by (auto simp: hincrby_def hash_hset Let_def split: if_splits)

lemma untouched_tokens:
  "untouched R (rds_create_token h n c R)"
  "untouched R (snd (rds_revoke_token h R))"
  "untouched R (rds_touch_token h ip R)"
proof -
  show "untouched R (rds_create_token h n c R)"
    by (simp add: untouched_def rds_create_token_def Let_def hash_hset)
  show "untouched R (snd (rds_revoke_token h R))"
    by (simp add: untouched_def rds_revoke_token_def Let_def hash_hset)
  show "untouched R (rds_touch_token h ip R)"
    by (auto simp: untouched_def rds_touch_token_def Let_def hash_hset hincrby_other split: option.splits)
qed

lemma untouched_topics:
  "untouched R (snd (rds_subscribe t u r R))"
  "untouched R (snd (rds_unsubscribe t u R))"
  "untouched R (snd (rds_delete_topic t R))"
proof -
  have ne: "gkey p x \<noteq> topic_key p t" "ikey p \<noteq> topic_key p t" for p x
    using keys_apart(14) [of p t] by (auto simp: gkey_def topic_key_def ikey_def)
  show "untouched R (snd (rds_subscribe t u r R))"
    using ne(1) by (auto simp: untouched_def rds_subscribe_def split_beta Let_def hsetnx_other hsetnx_parts
        split: sum.splits)
  show "untouched R (snd (rds_unsubscribe t u R))"
    using ne(1) by (auto simp: untouched_def rds_unsubscribe_def split_beta Let_def hdel_def)
  show "untouched R (snd (rds_delete_topic t R))"
    using ne by (auto simp: untouched_def rds_delete_topic_def Let_def del_key_def)
qed

section \<open>Only ended transactions expire\<close>

definition ttl_at :: "string \<Rightarrow> redis_store \<Rightarrow> int option" where
  "ttl_at gid R = rk_ttl (rs_keys R) (gkey (rs_prefix R) gid)"

definition expiry_ok :: "redis_store \<Rightarrow> bool" where
  "expiry_ok R \<longleftrightarrow>
     (\<forall>gid. ttl_at gid R \<noteq> None \<longrightarrow>
        (\<exists>g. rds_get_global gid R = Some g \<and> is_final (g_status g)))"

lemma expiry_same:
  assumes "expiry_ok R" "\<And>x. ttl_at x R' = ttl_at x R"
    and "\<And>x g. rds_get_global x R = Some g \<Longrightarrow> is_final (g_status g) \<Longrightarrow>
      \<exists>g'. rds_get_global x R' = Some g' \<and> g_status g' = g_status g"
  shows "expiry_ok R'"
  unfolding expiry_ok_def
proof (intro allI impI)
  fix x
  assume "ttl_at x R' \<noteq> None"
  with assms(1,2) obtain g where "rds_get_global x R = Some g" "is_final (g_status g)"
    by (auto simp: expiry_ok_def)
  with assms(3) show "\<exists>g. rds_get_global x R' = Some g \<and> is_final (g_status g)" by fastforce
qed

lemma expiry_rewritten:
  assumes "expiry_ok R" "rewritten gid F R R'" "\<And>x. ttl_at x R' = ttl_at x R"
    and "\<And>g. is_final (g_status g) \<Longrightarrow> g_status (F g) = g_status g"
  shows "expiry_ok R'"
  by (rule expiry_same [OF assms(1,3)]) (use assms(2,4) in \<open>auto simp: rewritten_def\<close>)

lemma ttl_at_simps:
  "ttl_at x (rds_schedule_now gid R) = ttl_at x R"
  "ttl_at x (rds_schedule_retry gid i R) = ttl_at x R"
  "ttl_at x (rds_release_lease gid l i R) = ttl_at x R"
  "ttl_at x (snd (rds_submit_prepared gid owner at R)) = ttl_at x R"
  by (auto simp: ttl_at_def rds_schedule_now_def rds_schedule_retry_def rds_release_lease_def
      release_script_def rds_submit_prepared_def hincrby_def Let_def split: option.splits if_splits prod.splits)

lemma ttl_lock_scan: "lock_scan p t owner til gids K = (r, K') \<Longrightarrow> rk_ttl K' = rk_ttl K"
  by (induction gids arbitrary: K) (auto simp: Let_def split: option.splits if_splits)

lemma ttl_at_lock: "ttl_at x (snd (rds_lock_one_due owner lease R)) = ttl_at x R"
  by (auto simp: ttl_at_def rds_lock_one_due_def Let_def ttl_lock_scan split: prod.splits)

lemma released_status: "g_status (if c then released i t g else g) = g_status g"
  by simp

lemma expiry_schedule:
  assumes "redis_inv R" "expiry_ok R"
  shows "expiry_ok (rds_schedule_now gid R)"
    and "in_i64 i \<Longrightarrow> expiry_ok (rds_schedule_retry gid i R)"
    and "in_i64 i \<Longrightarrow> countable_retries gid l R rds_get_global \<Longrightarrow> expiry_ok (rds_release_lease gid l i R)"
proof -
  have R: "redis_ok R" using assms(1) by (simp add: redis_inv_def)
  show "expiry_ok (rds_schedule_now gid R)"
    by (rule expiry_rewritten [OF assms(2) rewritten_schedule_now [OF R]]) (simp_all add: ttl_at_simps)
  show "expiry_ok (rds_schedule_retry gid i R)" if "in_i64 i"
    by (rule expiry_rewritten [OF assms(2) rewritten_schedule_retry [OF R that]]) (simp_all add: ttl_at_simps)
  show "expiry_ok (rds_release_lease gid l i R)"
    if "in_i64 i" "countable_retries gid l R rds_get_global"
    by (rule expiry_rewritten [OF assms(2) rewritten_release [OF R that]]) (simp_all add: ttl_at_simps)
qed

lemma expiry_lock:
  assumes "redis_inv R" "expiry_ok R" shows "expiry_ok (snd (rds_lock_one_due owner lease R))"
proof -
  have R: "redis_ok R" using assms(1) by (simp add: redis_inv_def)
  obtain r R' where l: "rds_lock_one_due owner lease R = (r, R')" by fastforce
  have t: "ttl_at x R' = ttl_at x R" for x using ttl_at_lock [of x owner lease R] l by simp
  have "expiry_ok R'"
  proof (cases r)
    case None
    with l rds_lock_None [OF R, of owner lease R'] have "rds_get_global x R' = rds_get_global x R" for x
      by simp
    with t show ?thesis by (intro expiry_same [OF assms(2)]) auto
  next
    case (Some g)
    with l rds_lock_Some [OF R, of owner lease g R']
    have "rewritten (g_gid g) (take_lease owner (rs_clock R) lease) R R'" by auto
    from expiry_rewritten [OF assms(2) this t] show ?thesis by simp
  qed
  with l show ?thesis by simp
qed

lemma expiry_submit:
  assumes "redis_inv R" "expiry_ok R" "in_i64 at"
  shows "expiry_ok (snd (rds_submit_prepared gid owner at R))"
proof -
  have R: "redis_ok R" using assms(1) by (simp add: redis_inv_def)
  obtain out R' where c: "rds_submit_prepared gid owner at R = (out, R')" by fastforce
  have t: "ttl_at x R' = ttl_at x R" for x using ttl_at_simps(4) [of x gid owner at R] c by simp
  have "expiry_ok R'"
  proof (rule expiry_same [OF assms(2) t])
    fix x g
    assume "rds_get_global x R = Some g" "is_final (g_status g)"
    with rds_submit_result [OF R assms(3) c]
    show "\<exists>g'. rds_get_global x R' = Some g' \<and> g_status g' = g_status g"
      by (auto simp: rewritten_def split: option.splits if_splits)
  qed
  with c show ?thesis by simp
qed

lemma expiry_create:
  assumes "redis_inv R" "expiry_ok R" "row_i64 g"
  shows "expiry_ok (snd (rds_create_global J g bs R))"
proof -
  have R: "redis_ok R" using assms(1) by (simp add: redis_inv_def)
  obtain r R' where c: "rds_create_global J g bs R = (r, R')" by fastforce
  have "expiry_ok R'"
  proof (cases "r = Inr True")
    case True
    with c have c: "rds_create_global J g bs R = (Inr True, R')" by simp
    note e = rds_create_result [OF R assms(3) c]
    have "ttl_at x R' = ttl_at x R" for x by (simp add: ttl_at_def e(4,7))
    then show ?thesis by (rule expiry_same [OF assms(2)]) (auto simp: e(5) e(1))
  next
    case False
    with rds_create_same [OF c] assms(2) show ?thesis by simp
  qed
  with c show ?thesis by simp
qed

lemma untouched_expiry: "untouched R R' \<Longrightarrow> expiry_ok R \<Longrightarrow> expiry_ok R'"
  by (rule expiry_same) (auto simp: untouched_get ttl_at_def untouched_def)

lemma ttl_expire_both:
  "rk_ttl (expire_both p gid st t ttl K) (gkey p x) =
     (if is_final st \<and> 0 < ttl \<and> exists_key (gkey p gid) K \<and> x = gid then Some (t + ttl)
      else rk_ttl K (gkey p x))"
  by (auto simp: expire_both_def expire_def exists_key_def)

lemma ttl_at_transition:
  "ttl_at x (snd (rds_transition gid f st tt r R)) \<noteq> None \<Longrightarrow> ttl_at x R \<noteq> None \<or> x = gid \<and> is_final st"
  by (auto simp: ttl_at_def rds_transition_def rds_set_global_status_def transition_script_def Let_def
      ttl_expire_both split: option.splits prod.splits if_splits)

lemma expiry_transition:
  assumes "redis_inv R" "expiry_ok R" "sound_write gid f st tt R"
  shows "expiry_ok (snd (rds_transition gid f st tt r R))"
proof -
  have R: "redis_ok R" using assms(1) by (simp add: redis_inv_def)
  obtain ok R' where c: "rds_transition gid f st tt r R = (ok, R')" by fastforce
  note e = transition_rewrites [OF R assms(3) c]
  have "expiry_ok R'"
  proof (cases ok)
    case False
    with e assms(2) show ?thesis by simp
  next
    case True
    with e obtain g where g: "rds_get_global gid R = Some g" and
      w: "rewritten gid (put_status st (rs_clock R) (take_chars mid r)) R R'" by auto
    show ?thesis unfolding expiry_ok_def
    proof (intro allI impI)
      fix x
      assume "ttl_at x R' \<noteq> None"
      with ttl_at_transition [of x gid f st tt r R] c
      consider "x = gid" "is_final st" | "ttl_at x R \<noteq> None" by auto
      then show "\<exists>g. rds_get_global x R' = Some g \<and> is_final (g_status g)"
      proof cases
        case 1
        with g w show ?thesis by (simp add: rewritten_def)
      next
        case 2
        with assms(2) obtain g' where g': "rds_get_global x R = Some g'" "is_final (g_status g')"
          by (auto simp: expiry_ok_def)
        show ?thesis
        proof (cases "x = gid")
          case False
          with g' w show ?thesis by (simp add: rewritten_def)
        next
          case x: True
          have "is_final st"
          proof (cases "status_contested f tt")
            case True
            with rds_transition_effect [OF R True, of gid st r] c \<open>ok\<close> g' x contested_not_final [OF True]
            show ?thesis by auto
          next
            case False
            with assms(3) g' x show ?thesis by (auto simp: sound_write_def)
          qed
          with x g w show ?thesis by (simp add: rewritten_def)
        qed
      qed
    qed
  qed
  with c show ?thesis by simp
qed

section \<open>Histories\<close>

text \<open>
  One operation of any client, a tick of the clock, or a key that expires. Numbers are 64-bit
  integers, and a status is written by somebody who knows the mode of the transaction.
\<close>

inductive redis_step :: "redis_store \<Rightarrow> redis_store \<Rightarrow> bool" where
  create: "row_i64 g \<Longrightarrow> redis_step R (snd (rds_create_global J g bs R))"
| transition: "sound_write gid f st tt R \<Longrightarrow> redis_step R (snd (rds_transition gid f st tt r R))"
| locking: "redis_step R (snd (rds_lock_one_due owner lease R))"
| releasing: "in_i64 i \<Longrightarrow> countable_retries gid l R rds_get_global \<Longrightarrow>
    redis_step R (rds_release_lease gid l i R)"
| scheduling: "redis_step R (rds_schedule_now gid R)"
| retrying: "in_i64 i \<Longrightarrow> redis_step R (rds_schedule_retry gid i R)"
| submitting: "in_i64 at \<Longrightarrow> redis_step R (snd (rds_submit_prepared gid owner at R))"
| branch_status: "redis_step R (rds_set_branch_status gid bid op bst R)"
| branch_result: "redis_step R (snd (rds_set_branch_result J gid bid op bst payload R))"
| registering: "redis_step R (snd (rds_register_branch_with J gid bid ops payload R))"
| creating_token: "redis_step R (rds_create_token h n c R)"
| revoking_token: "redis_step R (snd (rds_revoke_token h R))"
| touching_token: "redis_step R (rds_touch_token h ip R)"
| subscribing: "redis_step R (snd (rds_subscribe topic url remark R))"
| unsubscribing: "redis_step R (snd (rds_unsubscribe topic url R))"
| deleting_topic: "redis_step R (snd (rds_delete_topic topic R))"
| ticking: "rs_clock R \<le> t \<Longrightarrow> in_i64 t \<Longrightarrow> redis_step R (R\<lparr>rs_clock := t\<rparr>)"
| expiring: "ttl_at gid R = Some e \<Longrightarrow> e \<le> rs_clock R \<Longrightarrow>
    redis_step R (R\<lparr>rs_keys := del_key (gkey (rs_prefix R) gid) (rs_keys R)\<rparr>)"

definition redis_empty :: "string \<Rightarrow> int \<Rightarrow> int \<Rightarrow> redis_store" where
  "redis_empty p ttl t =
     \<lparr>rs_prefix = p, rs_final_ttl = ttl, rs_clock = t,
      rs_keys = \<lparr>rk_hash = (\<lambda>_. []), rk_zset = (\<lambda>_. []), rk_set = (\<lambda>_. []), rk_ttl = (\<lambda>_. None)\<rparr>\<rparr>"

definition redis_good :: "redis_store \<Rightarrow> bool" where
  "redis_good R \<longleftrightarrow> redis_inv R \<and> expiry_ok R"

lemma redis_empty_good: "in_i64 t \<Longrightarrow> redis_good (redis_empty p ttl t)"
  by (simp add: redis_good_def redis_inv_def redis_ok_def index_ok_def index_complete_def expiry_ok_def
      redis_empty_def rds_get_global_def hgetall_def global_from_def zscore_def ttl_at_def)

lemma untouched_good: "untouched R R' \<Longrightarrow> redis_good R \<Longrightarrow> redis_good R'"
  using untouched_inv untouched_expiry by (auto simp: redis_good_def)

lemma tick_get:
  "rds_get_global x (R\<lparr>rs_clock := t\<rparr>) = rds_get_global x R" "index_at x (R\<lparr>rs_clock := t\<rparr>) = index_at x R"
  "ttl_at x (R\<lparr>rs_clock := t\<rparr>) = ttl_at x R"
  by (simp_all add: rds_get_global_def index_at_def ttl_at_def)

lemma good_tick: "redis_good R \<Longrightarrow> in_i64 t \<Longrightarrow> redis_good (R\<lparr>rs_clock := t\<rparr>)"
  by (auto simp: redis_good_def redis_inv_def index_complete_def expiry_ok_def tick_get redis_ok_def index_ok_def)

lemma ikey_apart: "ikey p \<noteq> gkey p gid"
  by (simp add: ikey_def gkey_def)

lemma expire_get:
  defines "X \<equiv> \<lambda>gid R. R\<lparr>rs_keys := del_key (gkey (rs_prefix R) gid) (rs_keys R)\<rparr>"
  shows "rds_get_global x (X gid R) = (if x = gid then None else rds_get_global x R)"
    and "index_at x (X gid R) = index_at x R"
    and "ttl_at x (X gid R) = (if x = gid then None else ttl_at x R)"
  by (auto simp: X_def rds_get_global_def hgetall_def global_from_def index_at_def zscore_def ttl_at_def
      del_key_def ikey_apart)

lemma good_expire:
  assumes "redis_good R"
  shows "redis_good (R\<lparr>rs_keys := del_key (gkey (rs_prefix R) gid) (rs_keys R)\<rparr>)"
proof -
  let ?R = "R\<lparr>rs_keys := del_key (gkey (rs_prefix R) gid) (rs_keys R)\<rparr>"
  note e = expire_get [where gid = gid and R = R]
  have "redis_ok ?R"
    using assms e(1,2)
    by (auto simp: redis_good_def redis_inv_def redis_ok_def index_ok_def index_at_def del_key_def ikey_apart
        split: if_splits)
  moreover have "index_complete ?R" "expiry_ok ?R"
    using assms by (auto simp: redis_good_def redis_inv_def index_complete_def expiry_ok_def e)
  ultimately show ?thesis by (simp add: redis_good_def redis_inv_def)
qed

lemma redis_step_good:
  assumes "redis_step R R'" "redis_good R"
  shows "redis_good R'"
proof -
  have i: "redis_inv R" "expiry_ok R" using assms(2) by (simp_all add: redis_good_def)
  show ?thesis
    using assms(1)
  proof cases
    case (create g J bs)
    with inv_create [OF i(1)] expiry_create [OF i] show ?thesis by (simp add: redis_good_def)
  next
    case (transition gid f st tt r)
    with inv_transition [OF i(1)] expiry_transition [OF i] show ?thesis by (simp add: redis_good_def)
  next
    case (locking owner lease)
    with inv_lock [OF i(1)] expiry_lock [OF i] show ?thesis by (simp add: redis_good_def)
  next
    case (releasing i gid l)
    with inv_release [OF i(1)] expiry_schedule(3) [OF i] show ?thesis by (simp add: redis_good_def)
  next
    case (scheduling gid)
    with inv_schedule_now [OF i(1)] expiry_schedule(1) [OF i] show ?thesis by (simp add: redis_good_def)
  next
    case (retrying i gid)
    with inv_schedule_retry [OF i(1)] expiry_schedule(2) [OF i] show ?thesis by (simp add: redis_good_def)
  next
    case (submitting at gid owner)
    with inv_submit [OF i(1)] expiry_submit [OF i] show ?thesis by (simp add: redis_good_def)
  next
    case (ticking t)
    with good_tick [OF assms(2)] show ?thesis by simp
  next
    case (expiring gid e)
    with good_expire [OF assms(2)] show ?thesis by simp
  qed (use assms(2) in \<open>simp_all add: untouched_good [OF untouched_branches(1)]
      untouched_good [OF untouched_branches(2)] untouched_good [OF untouched_branches(3)]
      untouched_good [OF untouched_tokens(1)] untouched_good [OF untouched_tokens(2)]
      untouched_good [OF untouched_tokens(3)] untouched_good [OF untouched_topics(1)]
      untouched_good [OF untouched_topics(2)] untouched_good [OF untouched_topics(3)]\<close>)
qed

lemma redis_history_good:
  "redis_step\<^sup>*\<^sup>* R R' \<Longrightarrow> redis_good R \<Longrightarrow> redis_good R'"
  by (induction rule: rtranclp_induct) (auto intro: redis_step_good)

end
