(* ===== verification/Redis_Leases.thy ===== *)
theory Redis_Leases
  imports Redis_History "HOL-Library.Multiset"
begin

text \<open>
  What the coordinator gets from the Redis store over whole histories: status writes by
  comparison, exclusive leases, no transaction lost from the index, progress of the workers, and
  the starvation that the bounded scan allows.
\<close>

section \<open>What a step keeps\<close>

lemma step_keeps_open:
  assumes "redis_step R R'" "redis_good R" "rds_get_global x R = Some g" "\<not> is_final (g_status g)"
  shows "rds_get_global x R' \<noteq> None"
proof -
  have ok: "redis_ok R" using assms(2) by (simp add: redis_good_def redis_inv_def)
  have rew: "rds_get_global x R' \<noteq> None" if "rewritten y F R R'" for y F
    using that assms(3) by (auto simp: rewritten_def)
  show ?thesis
    using assms(1)
  proof cases
    case (create g0 J bs)
    obtain r R1 where c: "rds_create_global J g0 bs R = (r, R1)" by fastforce
    with create assms(3) rds_create_same [OF c] rds_create_result(5) [OF ok create(2), of J bs R1]
    show ?thesis by (cases "r = Inr True") auto
  next
    case (transition gid f st tt r)
    obtain b R1 where c: "rds_transition gid f st tt r R = (b, R1)" by fastforce
    with transition_rewrites [OF ok transition(2) c] rew transition(1) assms(3) show ?thesis
      by (auto split: if_splits)
  next
    case (locking owner lease)
    obtain r R1 where c: "rds_lock_one_due owner lease R = (r, R1)" by fastforce
    with locking rew assms(3) rds_lock_None [OF ok, of owner lease R1 x] rds_lock_Some [OF ok, of owner lease _ R1]
    show ?thesis by (cases r) auto
  next
    case (releasing i gid l)
    with rew rewritten_release [OF ok releasing(2,3)] show ?thesis by blast
  next
    case (scheduling gid)
    with rew rewritten_schedule_now [OF ok] show ?thesis by blast
  next
    case (retrying i gid)
    with rew rewritten_schedule_retry [OF ok retrying(2)] show ?thesis by blast
  next
    case (submitting at gid owner)
    obtain out R1 where c: "rds_submit_prepared gid owner at R = (out, R1)" by fastforce
    with submitting(1) rds_submit_result [OF ok submitting(2) c] rew assms(3) show ?thesis
      by (auto split: option.splits if_splits)
  next
    case (ticking t)
    with assms(3) show ?thesis by (simp add: tick_get)
  next
    case (expiring gid e)
    with assms have "x \<noteq> gid" by (auto simp: redis_good_def expiry_ok_def)
    with expiring assms(3) show ?thesis by (simp add: expire_get)
  qed (use assms(3) in \<open>simp_all add: untouched_get [OF untouched_branches(1)]
      untouched_get [OF untouched_branches(2)] untouched_get [OF untouched_branches(3)]
      untouched_get [OF untouched_tokens(1)] untouched_get [OF untouched_tokens(2)]
      untouched_get [OF untouched_tokens(3)] untouched_get [OF untouched_topics(1)]
      untouched_get [OF untouched_topics(2)] untouched_get [OF untouched_topics(3)]\<close>)
qed

section \<open>Holding a lease\<close>

definition holding :: "string \<Rightarrow> int \<Rightarrow> redis_store \<Rightarrow> bool" where
  "holding gid L R \<longleftrightarrow> redis_good R \<and>
     (\<exists>g. rds_get_global gid R = Some g \<and> g_lease_until g = L \<and> g_status g \<noteq> GPrepared)"

text \<open>One step of everybody but the holder, who alone releases the lease.\<close>

inductive redis_others :: "string \<Rightarrow> int \<Rightarrow> redis_store \<Rightarrow> redis_store \<Rightarrow> bool" for gid L where
  create: "row_i64 g \<Longrightarrow> redis_others gid L R (snd (rds_create_global J g bs R))"
| transition: "sound_write x f st tt R \<Longrightarrow> st \<noteq> GPrepared \<Longrightarrow>
    redis_others gid L R (snd (rds_transition x f st tt r R))"
| locking: "redis_others gid L R (snd (rds_lock_one_due owner lease R))"
| releasing: "x \<noteq> gid \<or> l \<noteq> L \<Longrightarrow> in_i64 i \<Longrightarrow> countable_retries x l R rds_get_global \<Longrightarrow>
    redis_others gid L R (rds_release_lease x l i R)"
| scheduling: "redis_others gid L R (rds_schedule_now x R)"
| retrying: "in_i64 i \<Longrightarrow> redis_others gid L R (rds_schedule_retry x i R)"
| submitting: "in_i64 at \<Longrightarrow> redis_others gid L R (snd (rds_submit_prepared x owner at R))"
| elsewhere: "redis_step R R' \<Longrightarrow> untouched R R' \<Longrightarrow> redis_others gid L R R'"
| ticking: "rs_clock R \<le> t \<Longrightarrow> in_i64 t \<Longrightarrow> redis_others gid L R (R\<lparr>rs_clock := t\<rparr>)"

lemma redis_others_step: "redis_others gid L R R' \<Longrightarrow> redis_step R R'"
  by (induction rule: redis_others.induct) (auto intro: redis_step.intros)

lemma held_same:
  "holding gid L R \<Longrightarrow> redis_good R' \<Longrightarrow> rds_get_global gid R' = rds_get_global gid R \<Longrightarrow> holding gid L R'"
  by (simp add: holding_def)

lemma held_rewritten:
  assumes "holding gid L R" "redis_good R'" "rewritten x F R R'"
    and "\<And>g. x = gid \<Longrightarrow> rds_get_global gid R = Some g \<Longrightarrow> g_lease_until g = L \<Longrightarrow> g_status g \<noteq> GPrepared \<Longrightarrow>
      g_lease_until (F g) = L \<and> g_status (F g) \<noteq> GPrepared"
  shows "holding gid L R'"
  using assms by (auto simp: holding_def rewritten_def)

lemma held_step:
  assumes "redis_others gid L R R'" "holding gid L R" "rs_clock R < L"
  shows "holding gid L R'"
proof -
  have good: "redis_good R'"
    using redis_step_good [OF redis_others_step [OF assms(1)]] assms(2) by (simp add: holding_def)
  have inv: "redis_inv R" and ok: "redis_ok R"
    using assms(2) by (auto simp: holding_def redis_good_def redis_inv_def)
  obtain g where g: "rds_get_global gid R = Some g" "g_lease_until g = L" "g_status g \<noteq> GPrepared"
    using assms(2) by (auto simp: holding_def)
  show ?thesis
    using assms(1)
  proof cases
    case (create g0 J bs)
    obtain r R1 where c: "rds_create_global J g0 bs R = (r, R1)" by fastforce
    show ?thesis
    proof (cases "r = Inr True")
      case True
      with c have c': "rds_create_global J g0 bs R = (Inr True, R1)" by simp
      from rds_create_result(1,5) [OF ok create(2) c'] g
      have "rds_get_global gid R1 = rds_get_global gid R" by auto
      with create c good assms(2) show ?thesis by (auto intro: held_same)
    next
      case False
      with rds_create_same [OF c] create c assms(2) show ?thesis by simp
    qed
  next
    case (transition x f st tt r)
    obtain ok1 R1 where tr: "rds_transition x f st tt r R = (ok1, R1)" by fastforce
    from transition_rewrites [OF ok transition(2) tr] transition tr assms(2) good show ?thesis
      by (cases ok1) (auto intro!: held_rewritten [of gid L R] simp: put_status_def)
  next
    case (locking owner lease)
    obtain r R1 where l: "rds_lock_one_due owner lease R = (r, R1)" by fastforce
    show ?thesis
    proof (cases r)
      case None
      with l rds_lock_None [OF ok, of owner lease R1 gid] locking good assms(2) show ?thesis
        by (auto intro: held_same)
    next
      case (Some g1)
      with l have l': "rds_lock_one_due owner lease R = (Some g1, R1)" by simp
      have "g_gid g1 \<noteq> gid" using redis.leased_not_locked [OF ok g(1) _ l'] g(2) assms(3) by simp
      with rds_lock_Some [OF ok l'] locking l' good assms(2) show ?thesis
        by (auto intro: held_rewritten)
    qed
  next
    case (releasing x l i)
    show ?thesis unfolding releasing(1)
      by (rule held_rewritten [OF assms(2) _ rewritten_release [OF ok releasing(3,4)]])
        (use good releasing in auto)
  next
    case (scheduling x)
    show ?thesis unfolding scheduling
      by (rule held_rewritten [OF assms(2) _ rewritten_schedule_now [OF ok]]) (use good scheduling in auto)
  next
    case (retrying i x)
    show ?thesis unfolding retrying(1)
      by (rule held_rewritten [OF assms(2) _ rewritten_schedule_retry [OF ok retrying(2)]])
        (use good retrying in auto)
  next
    case (submitting at x owner)
    obtain out R1 where c: "rds_submit_prepared x owner at R = (out, R1)" by fastforce
    have "rds_get_global gid R1 = rds_get_global gid R"
      using rds_submit_result [OF ok submitting(2) c] g
      by (cases "x = gid") (auto simp: rewritten_def split: option.splits if_splits)
    with submitting c good assms(2) show ?thesis by (auto intro: held_same)
  next
    case elsewhere
    with good assms(2) show ?thesis by (auto intro: held_same simp: untouched_get)
  next
    case (ticking t)
    with good assms(2) show ?thesis by (auto intro!: held_same [OF assms(2)] simp: tick_get)
  qed
qed

lemma redis_others_clock: "redis_others gid L R R' \<Longrightarrow> redis_good R \<Longrightarrow> rs_clock R \<le> rs_clock R'"
proof (induction rule: redis_others.induct)
  case (create g R J bs)
  then show ?case by (simp add: rds_create_global_def split: sum.splits prod.splits)
next
  case (elsewhere R R')
  then show ?case by (simp add: untouched_def)
next
  case (submitting at R x owner)
  then show ?case by (auto simp: rds_submit_prepared_def Let_def split: option.splits)
next
  case (locking R owner lease)
  then show ?case by (simp add: rds_lock_one_due_def Let_def split: prod.splits)
next
  case (releasing x l i R)
  then show ?case by (simp add: rds_release_lease_def)
next
  case (scheduling R x)
  then show ?case by (auto simp: rds_schedule_now_def Let_def split: option.splits)
next
  case (retrying i R x)
  then show ?case by (auto simp: rds_schedule_retry_def Let_def)
qed (simp_all add: rds_transition_clock)

lemma held_history:
  assumes "(redis_others gid L)\<^sup>*\<^sup>* R R'" "holding gid L R" "rs_clock R' < L"
  shows "holding gid L R'"
  using assms
proof (induction rule: rtranclp_induct)
  case (step S T)
  have "redis_good S"
    using step.hyps(1) step.prems(1)
    by (induction rule: rtranclp_induct) (auto simp: holding_def intro: redis_step_good redis_others_step)
  with redis_others_clock [OF step.hyps(2)] step.prems(2) have "rs_clock S < L" by simp
  with step held_step show ?case by blast
qed

section \<open>Progress of the scan\<close>

lemma lock_scan_picks:
  assumes "redis_ok R" "pruned R K" "x \<in> set gids" "rds_get_global x R = Some g" "free_at t g"
  shows "fst (lock_scan (rs_prefix R) t owner til gids K) \<noteq> None"
  using assms(2,3)
proof (induction gids arbitrary: K)
  case (Cons gid gids)
  let ?p = "rs_prefix R"
  show ?case
  proof (cases "x = gid")
    case True
    note f = redis_fields [OF assms(1,4)]
    from assms(5) have "schedulable g" "g_lease_until g \<le> t" by (auto simp: free_at_def due_def)
    with True f show ?thesis
      by (simp add: pruned_hget [OF Cons.prems(1)] lua_schedulable_iff rds_schedulable_iff Let_def)
  next
    case False
    with Cons.prems(2) have x: "x \<in> set gids" by simp
    from Cons.IH [OF Cons.prems(1) x] Cons.IH [OF pruned_zrem [OF Cons.prems(1)] x] show ?thesis
      by (auto simp: Let_def split: option.splits)
  qed
qed simp

lemma lock_scan_none:
  assumes "redis_ok R" "pruned R K"
    and "\<And>x. x \<in> set gids \<Longrightarrow> \<exists>s. zscore (ikey (rs_prefix R)) x (rs_keys R) = Some s \<and> s \<le> t"
    and "\<And>x g. x \<in> set gids \<Longrightarrow> rds_get_global x R = Some g \<Longrightarrow> \<not> free_at t g"
  shows "fst (lock_scan (rs_prefix R) t owner til gids K) = None"
  using assms(2-)
proof (induction gids arbitrary: K)
  case (Cons gid gids)
  let ?p = "rs_prefix R"
  have IH: "fst (lock_scan ?p t owner til gids K') = None" if "pruned R K'" for K'
    by (rule Cons.IH [OF that]) (use Cons.prems(2,3) in auto)
  note IH [OF Cons.prems(1)] IH [OF pruned_zrem [OF Cons.prems(1)], of gid]
  moreover have "t < num (hget (gkey ?p gid) ''lease_until'' K)"
    if "hget (gkey ?p gid) ''status'' K = Some st" "lua_schedulable st (hget (gkey ?p gid) ''trans_type'' K)" for st
  proof -
    from that redis_missing(1) [of gid R] obtain g where g: "rds_get_global gid R = Some g"
      by (cases "rds_get_global gid R") (auto simp: pruned_hget [OF Cons.prems(1)])
    note f = redis_fields [OF assms(1) g]
    from that f have "lua_schedulable (global_status_str (g_status g)) (Some (trans_type_str (g_trans_type g)))"
      by (simp add: pruned_hget [OF Cons.prems(1)])
    then have "schedulable g" by (simp only: lua_schedulable_iff rds_schedulable_iff)
    moreover obtain s where "zscore (ikey ?p) gid (rs_keys R) = Some s" "s \<le> t" using Cons.prems(2) by auto
    moreover have "\<not> free_at t g" using Cons.prems(3) [of gid g] g by simp
    ultimately have "t < g_lease_until g"
      using index_entry [OF assms(1) g] by (auto simp: free_at_def due_def)
    with f show ?thesis by (simp add: pruned_hget [OF Cons.prems(1)])
  qed
  ultimately show ?case by (auto split: option.splits)
qed simp

lemma first_members_free:
  assumes "distinct xs" "length (filter (\<lambda>x. \<not> P x) xs) < n" "x \<in> set xs" "P x"
  shows "\<exists>y\<in>set (take n xs). P y"
proof (rule ccontr)
  assume none: "\<not> ?thesis"
  show False
  proof (cases "length xs \<le> n")
    case True
    with none assms(3,4) show False by simp
  next
    case False
    have "filter (\<lambda>x. \<not> P x) (take n xs) = take n xs" using none by (auto simp: filter_id_conv)
    moreover have "length (filter (\<lambda>x. \<not> P x) (take n xs)) \<le> length (filter (\<lambda>x. \<not> P x) xs)"
      by (metis append_take_drop_id filter_append length_append le_add1)
    ultimately show False using False assms(2) by simp
  qed
qed

lemma by_score_perm: "mset (by_score z) = mset z"
  by (simp add: by_score_def)

lemma zrangebyscore_take:
  "zrangebyscore k mx n K = take n (map fst (filter (\<lambda>(m, s). s \<le> mx) (by_score (rk_zset K k))))"
  by (simp add: zrangebyscore_def take_map)

definition due_members :: "redis_store \<Rightarrow> string list" where
  "due_members R =
     map fst (filter (\<lambda>(m, s). s \<le> rs_clock R) (by_score (rk_zset (rs_keys R) (ikey (rs_prefix R)))))"

definition free_member :: "redis_store \<Rightarrow> string \<Rightarrow> bool" where
  "free_member R gid \<longleftrightarrow>
     (case rds_get_global gid R of None \<Rightarrow> False | Some g \<Rightarrow> free_at (rs_clock R) g)"

lemma free_member_iff:
  "free_member R gid \<longleftrightarrow> (\<exists>g. rds_get_global gid R = Some g \<and> free_at (rs_clock R) g)"
  by (auto simp: free_member_def split: option.splits)

text \<open>Leasing finds something exactly when one of the first twenty due members is free.\<close>

lemma rds_lock_None_iff:
  assumes "redis_ok R"
  shows "fst (rds_lock_one_due owner lease R) = None \<longleftrightarrow>
    (\<forall>gid\<in>set (take scan_limit (due_members R)). \<not> free_member R gid)"
proof -
  let ?p = "rs_prefix R" and ?t = "rs_clock R" and ?til = "wrap_i64 (rs_clock R + lease)"
  let ?c = "zrangebyscore (ikey ?p) ?t scan_limit (rs_keys R)"
  have c: "?c = take scan_limit (due_members R)" by (simp add: zrangebyscore_take due_members_def)
  obtain flat K where ls: "lock_scan ?p ?t owner ?til ?c (rs_keys R) = (flat, K)" by fastforce
  have cand: "\<exists>s. zscore (ikey ?p) x (rs_keys R) = Some s \<and> s \<le> ?t" if "x \<in> set ?c" for x
    using candidates [OF assms that] .
  note scan = lock_scan_result [where gids = ?c and t = ?t and owner = owner and til = ?til,
      OF assms pruned_refl [OF assms] cand]
  have res: "fst (rds_lock_one_due owner lease R) = None \<longleftrightarrow> flat = None"
    using ls scan
    by (auto simp: rds_lock_one_due_def Let_def global_from_def hash_hset fold_update_nonempty
        lease_fields_def split: option.splits)
  show ?thesis
  proof
    assume "fst (rds_lock_one_due owner lease R) = None"
    with res have "flat = None" by simp
    show "\<forall>gid\<in>set (take scan_limit (due_members R)). \<not> free_member R gid"
    proof
      fix gid
      assume "gid \<in> set (take scan_limit (due_members R))"
      with lock_scan_picks [OF assms pruned_refl [OF assms], of gid ?c _ ?t owner ?til] ls \<open>flat = None\<close>
      show "\<not> free_member R gid" by (auto simp: c free_member_iff)
    qed
  next
    assume none: "\<forall>gid\<in>set (take scan_limit (due_members R)). \<not> free_member R gid"
    have "fst (lock_scan ?p ?t owner ?til ?c (rs_keys R)) = None"
      by (rule lock_scan_none [OF assms pruned_refl [OF assms] cand])
        (use none in \<open>auto simp: c free_member_iff\<close>)
    with ls res show "fst (rds_lock_one_due owner lease R) = None" by simp
  qed
qed

lemma free_member_due:
  assumes "redis_inv R" "free_member R gid"
  shows "gid \<in> set (due_members R)"
proof -
  from assms(2) obtain g where g: "rds_get_global gid R = Some g" "free_at (rs_clock R) g"
    by (auto simp: free_member_iff)
  then have s: "schedulable g" "g_next_cron_time g \<le> rs_clock R" by (auto simp: free_at_def due_def)
  with assms(1) g obtain sc where sc: "index_at gid R = Some sc" by (auto simp: redis_inv_def index_complete_def)
  with index_entry [of R gid g sc] assms(1) g s have "sc = g_next_cron_time g"
    by (simp add: redis_inv_def index_at_def)
  with sc s have "(gid, sc) \<in> set (rk_zset (rs_keys R) (ikey (rs_prefix R)))" "sc \<le> rs_clock R"
    by (auto simp: index_at_def zscore_def dest: map_of_SomeD)
  then show ?thesis by (force simp: due_members_def)
qed

lemma due_members_distinct: "redis_ok R \<Longrightarrow> distinct (due_members R)"
  unfolding due_members_def redis_ok_def
  by (metis (no_types, lifting) by_score_perm distinct_map_filter mset_eq_imp_distinct_iff mset_map)

end
