(* ===== verification/Backends_Agree.thy ===== *)
theory Backends_Agree
  imports Redis_Leases
begin

text \<open>
  The two backends side by side: run on a SQL store and a Redis store that show the same
  transactions, the same operations give the same answers and leave stores that show the same
  transactions again. Leasing is left out here (both may pick any due transaction; see the
  contract), and so is what the backends document as different: an ended transaction expires on
  Redis.
\<close>

datatype store_op =
    Create global_row "branch_row list"
  | Transition string global_status global_status trans_type string
  | Schedule_now string
  | Schedule_retry string int
  | Release string int int
  | Submit string string int
  | Get string
  | Tick int

datatype store_answer =
    Created_answer "bool res"
  | Transition_answer bool
  | Submit_answer submit_outcome
  | Get_answer "global_row option"
  | No_answer

fun run_sql :: "store_op \<Rightarrow> store \<Rightarrow> store_answer \<times> store" where
  "run_sql (Create g bs) s = (let (r, s) = create_global g bs s in (Created_answer r, s))"
| "run_sql (Transition gid f st tt r) s = (let (ok, s) = transition gid f st tt r s in (Transition_answer ok, s))"
| "run_sql (Schedule_now gid) s = (No_answer, schedule_now gid s)"
| "run_sql (Schedule_retry gid i) s = (No_answer, schedule_retry gid i s)"
| "run_sql (Release gid l i) s = (No_answer, release_lease gid l i s)"
| "run_sql (Submit gid owner at) s = (let (out, s) = submit_prepared gid owner at s in (Submit_answer out, s))"
| "run_sql (Get gid) s = (Get_answer (get_global gid s), s)"
| "run_sql (Tick t) s = (No_answer, s\<lparr>st_clock := t\<rparr>)"

fun run_redis :: "branch_json \<Rightarrow> store_op \<Rightarrow> redis_store \<Rightarrow> store_answer \<times> redis_store" where
  "run_redis J (Create g bs) R = (let (r, R) = rds_create_global J g bs R in (Created_answer r, R))"
| "run_redis J (Transition gid f st tt r) R =
     (let (ok, R) = rds_transition gid f st tt r R in (Transition_answer ok, R))"
| "run_redis J (Schedule_now gid) R = (No_answer, rds_schedule_now gid R)"
| "run_redis J (Schedule_retry gid i) R = (No_answer, rds_schedule_retry gid i R)"
| "run_redis J (Release gid l i) R = (No_answer, rds_release_lease gid l i R)"
| "run_redis J (Submit gid owner at) R =
     (let (out, R) = rds_submit_prepared gid owner at R in (Submit_answer out, R))"
| "run_redis J (Get gid) R = (Get_answer (rds_get_global gid R), R)"
| "run_redis J (Tick t) R = (No_answer, R\<lparr>rs_clock := t\<rparr>)"

text \<open>
  The row a submission hands back: SQL patches the row it read, Redis reads the row it wrote, so
  the two may differ in the interval and the time of the update.
\<close>

fun same_answer :: "store_answer \<Rightarrow> store_answer \<Rightarrow> bool" where
  "same_answer (Submit_answer (Advanced g)) (Submit_answer (Advanced h)) \<longleftrightarrow>
     g\<lparr>g_next_cron_interval := 0, g_update_time := 0\<rparr> = h\<lparr>g_next_cron_interval := 0, g_update_time := 0\<rparr>"
| "same_answer a b \<longleftrightarrow> a = b"

text \<open>
  Numbers are 64-bit, and where Redis does not compare the status the caller's reading is fresh.
\<close>

fun sound_op :: "store_op \<Rightarrow> redis_store \<Rightarrow> bool" where
  "sound_op (Create g bs) R \<longleftrightarrow> row_i64 g"
| "sound_op (Transition gid f st tt r) R \<longleftrightarrow>
     (case rds_get_global gid R of
        None \<Rightarrow> status_contested f tt
      | Some g \<Rightarrow> g_trans_type g = tt \<and> (status_contested f tt \<or> g_status g = f \<and> \<not> is_final f))"
| "sound_op (Schedule_retry gid i) R \<longleftrightarrow> in_i64 i"
| "sound_op (Release gid l i) R \<longleftrightarrow> in_i64 i \<and> countable_retries gid l R rds_get_global"
| "sound_op (Submit gid owner at) R \<longleftrightarrow> in_i64 at"
| "sound_op (Tick t) R \<longleftrightarrow> rs_clock R \<le> t \<and> in_i64 t"
| "sound_op _ R \<longleftrightarrow> True"

definition agree :: "redis_store \<Rightarrow> store \<Rightarrow> bool" where
  "agree R s \<longleftrightarrow> redis_good R \<and> store_ok s \<and> now s = rs_clock R \<and>
     (\<forall>x. get_global x s = rds_get_global x R)"

declare sound_op.simps(2) [simp del]

lemma sound_transition [simp]:
  "sound_op (Transition gid f st tt r) R \<longleftrightarrow>
     (\<forall>g. rds_get_global gid R = Some g \<longrightarrow> g_trans_type g = tt) \<and>
     (status_contested f tt \<or>
      (\<exists>g. rds_get_global gid R = Some g \<and> g_status g = f \<and> \<not> is_final f))"
  by (auto simp: sound_op.simps(2) split: option.splits)

lemma sound_write_op: "sound_op (Transition gid f st tt r) R \<Longrightarrow> sound_write gid f st tt R"
  by (auto simp: sound_write_def)

lemma redis_op_good:
  assumes "sound_op op R" "redis_good R"
  shows "redis_good (snd (run_redis J op R))"
proof -
  have "redis_step R (snd (run_redis J op R)) \<or> snd (run_redis J op R) = R"
  proof (cases op)
    case (Transition gid f st tt r)
    with assms(1) sound_write_op [of gid f st tt r R] show ?thesis
      by (auto simp: split_beta intro: redis_step.intros)
  qed (use assms(1) in \<open>auto simp: split_beta intro: redis_step.intros\<close>)
  with assms(2) redis_step_good show ?thesis by metis
qed

lemma sql_op_ok: "store_ok s \<Longrightarrow> store_ok (snd (run_sql op s))"
  by (cases op) (auto simp: split_beta store_ok_ops submit_prepared_def, simp_all add: store_ok_def)

lemma agreeI:
  assumes "agree R s" "sound_op op R"
    and "now (snd (run_sql op s)) = rs_clock (snd (run_redis J op R))"
    and "\<And>x. get_global x (snd (run_sql op s)) = rds_get_global x (snd (run_redis J op R))"
  shows "agree (snd (run_redis J op R)) (snd (run_sql op s))"
  using assms redis_op_good [OF assms(2)] sql_op_ok by (auto simp: agree_def)

lemma fst_create_sql:
  "fst (create_global g bs s) =
     (case all_ok (global_checks g @ concat (map branch_checks bs)) of
        Inl e \<Rightarrow> Inl e | Inr _ \<Rightarrow> Inr (get_global (g_gid g) s = None))"
  by (auto simp: create_global_def global_checks_def get_global_def row_at_None_iff insert_ignore_def Let_def
      split: sum.splits)

lemma fst_create_redis:
  "fst (rds_create_global J g bs R) =
     (case all_ok (global_checks g @ concat (map branch_checks bs)) of
        Inl e \<Rightarrow> Inl e | Inr _ \<Rightarrow> Inr (rds_get_global (g_gid g) R = None))"
  by (auto simp: rds_create_global_def create_script_def rds_get_global_def hgetall_def global_from_def
      exists_key_def Let_def split: sum.splits prod.splits)

lemma agree_create:
  assumes "agree R s" "row_i64 g"
  shows "fst (create_global g bs s) = fst (rds_create_global J g bs R) \<and>
    now (snd (create_global g bs s)) = rs_clock (snd (rds_create_global J g bs R)) \<and>
    get_global x (snd (create_global g bs s)) = rds_get_global x (snd (rds_create_global J g bs R))"
proof -
  have R: "redis_ok R" and c: "now s = rs_clock R" and same: "get_global y s = rds_get_global y R" for y
    using assms(1) by (auto simp: agree_def redis_good_def redis_inv_def)
  obtain a s' where a: "create_global g bs s = (a, s')" by fastforce
  obtain b R' where b: "rds_create_global J g bs R = (b, R')" by fastforce
  have ab: "a = b" using fst_create_sql [of g bs s] fst_create_redis [of J g bs R] a b same
    by (auto split: sum.splits)
  show ?thesis
  proof (cases "a = Inr True")
    case True
    with a b ab have a': "create_global g bs s = (Inr True, s')"
      and b': "rds_create_global J g bs R = (Inr True, R')" by auto
    from rds_create_result(3,5) [OF R assms(2) b'] get_create_global [OF a'] a' b' same c show ?thesis
      using now_ops(10) [of g bs s] by simp
  next
    case False
    with a ab rds_create_same [OF b] have "R' = R" by simp
    moreover have "s' = s"
    proof (cases a)
      case (Inl e)
      with a create_global_error [of g bs s e s'] show ?thesis by simp
    next
      case (Inr b)
      with False a create_global_existing(1) [of g bs s s'] show ?thesis by (cases b) simp_all
    qed
    ultimately show ?thesis using a b ab same c by simp
  qed
qed

lemma agree_rewritten:
  assumes "agree R s" "rewritten gid F R R'"
    and "\<And>x. get_global x s' = (if x = gid then map_option F (get_global x s) else get_global x s)" "now s' = now s"
  shows "now s' = rs_clock R' \<and> get_global x s' = rds_get_global x R'"
  using assms by (auto simp: agree_def rewritten_def)

lemma agree_transition:
  assumes "agree R s" "sound_op (Transition gid f st tt r) R"
  shows "fst (transition gid f st tt r s) = fst (rds_transition gid f st tt r R) \<and>
    now (snd (transition gid f st tt r s)) = rs_clock (snd (rds_transition gid f st tt r R)) \<and>
    get_global x (snd (transition gid f st tt r s)) = rds_get_global x (snd (rds_transition gid f st tt r R))"
proof -
  have R: "redis_ok R" and k: "keyed g_gid (st_global s)" and c: "now s = rs_clock R"
    and same: "get_global y s = rds_get_global y R" for y
    using assms(1) by (auto simp: agree_def redis_good_def redis_inv_def store_ok_def)
  obtain ok R' where b: "rds_transition gid f st tt r R = (ok, R')" by fastforce
  note w = transition_rewrites [OF R sound_write_op [OF assms(2)] b]
  have ok: "ok \<longleftrightarrow> (\<exists>g. rds_get_global gid R = Some g \<and> g_status g = f)"
  proof (cases "status_contested f tt")
    case True
    from rds_transition_effect [OF R True, of gid st r] b show ?thesis by simp
  next
    case False
    with assms(2) b show ?thesis by (auto simp: rds_transition_def)
  qed
  have a: "fst (transition gid f st tt r s) = ok" using fst_transition [OF k, of gid f st tt r] ok same by simp
  show ?thesis
  proof (cases ok)
    case True
    with ok w obtain g where g: "rds_get_global gid R = Some g" "g_status g = f"
      and wr: "rewritten gid (put_status st (rs_clock R) (take_chars mid r)) R R'" by auto
    with a b c same show ?thesis by (auto simp: store_simps rewritten_def)
  next
    case False
    with w have "R' = R" by simp
    moreover have "get_global y (snd (transition gid f st tt r s)) = get_global y s" for y
      using False ok same by (auto simp: store_simps intro!: option.map_ident_strong)
    ultimately show ?thesis using a b c same by (simp add: store_simps)
  qed
qed

lemma agree_submit:
  assumes "agree R s" "in_i64 at"
  shows "same_answer (Submit_answer (fst (submit_prepared gid owner at s)))
      (Submit_answer (fst (rds_submit_prepared gid owner at R))) \<and>
    now (snd (submit_prepared gid owner at s)) = rs_clock (snd (rds_submit_prepared gid owner at R)) \<and>
    get_global x (snd (submit_prepared gid owner at s)) = rds_get_global x (snd (rds_submit_prepared gid owner at R))"
proof -
  have R: "redis_ok R" and c: "now s = rs_clock R" and same: "get_global y s = rds_get_global y R" for y
    using assms(1) by (auto simp: agree_def redis_good_def redis_inv_def)
  obtain out R' where b: "rds_submit_prepared gid owner at R = (out, R')" by fastforce
  note e = rds_submit_result [OF R assms(2) b]
  show ?thesis
  proof (cases "rds_get_global gid R")
    case None
    with e b same c show ?thesis by (simp add: submit_prepared_def submit_prepared_between_def)
  next
    case (Some g)
    show ?thesis
    proof (cases "g_status g = GPrepared")
      case False
      with Some e b same c show ?thesis by (simp add: submit_prepared_def submit_prepared_between_def)
    next
      case True
      with Some e have o: "out = Advanced (put_submitted owner at (rs_clock R) g)"
        and w: "rewritten gid (put_submitted owner at (rs_clock R)) R R'" by auto
      have sq: "submit_prepared gid owner at s = (Advanced (submitted_row owner at g), submit_update gid owner at s)"
        using True Some same by (simp add: submit_prepared_def submit_prepared_between_def)
      have "get_global y (submit_update gid owner at s) = rds_get_global y R'" for y
        using w same c True Some by (auto simp: store_simps rewritten_def put_submitted_def)
      then show ?thesis using b o sq w c
        by (simp add: submitted_row_def put_submitted_def rewritten_def store_simps)
    qed
  qed
qed

lemma agree_step:
  assumes "agree R s" "sound_op op R"
  shows "agree (snd (run_redis J op R)) (snd (run_sql op s)) \<and>
    same_answer (fst (run_sql op s)) (fst (run_redis J op R))"
proof -
  have R: "redis_ok R" using assms(1) by (auto simp: agree_def redis_good_def redis_inv_def)
  have c: "now s = rs_clock R" using assms(1) by (simp add: agree_def)
  have "now (snd (run_sql op s)) = rs_clock (snd (run_redis J op R)) \<and>
      (\<forall>x. get_global x (snd (run_sql op s)) = rds_get_global x (snd (run_redis J op R))) \<and>
      same_answer (fst (run_sql op s)) (fst (run_redis J op R))"
  proof (cases op)
    case (Create g bs)
    with agree_create [OF assms(1), of g bs J] assms(2) show ?thesis by (simp add: split_beta)
  next
    case (Transition gid f st tt r)
    with agree_transition [OF assms(1), of gid f st tt r] assms(2) show ?thesis by (simp add: split_beta)
  next
    case (Schedule_now gid)
    have "now (schedule_now gid s) = rs_clock (rds_schedule_now gid R) \<and>
        get_global x (schedule_now gid s) = rds_get_global x (rds_schedule_now gid R)" for x
      by (rule agree_rewritten [OF assms(1) rewritten_schedule_now [OF R]]) (simp_all add: store_simps c)
    then show ?thesis by (simp add: Schedule_now)
  next
    case (Schedule_retry gid i)
    with assms(2) have i: "in_i64 i" by simp
    have "now (schedule_retry gid i s) = rs_clock (rds_schedule_retry gid i R) \<and>
        get_global x (schedule_retry gid i s) = rds_get_global x (rds_schedule_retry gid i R)" for x
      by (rule agree_rewritten [OF assms(1) rewritten_schedule_retry [OF R i]]) (simp_all add: store_simps c)
    then show ?thesis by (simp add: Schedule_retry)
  next
    case (Release gid l i)
    with assms(2) have i: "in_i64 i" "countable_retries gid l R rds_get_global" by simp_all
    have "now (release_lease gid l i s) = rs_clock (rds_release_lease gid l i R) \<and>
        get_global x (release_lease gid l i s) = rds_get_global x (rds_release_lease gid l i R)" for x
      by (rule agree_rewritten [OF assms(1) rewritten_release [OF R i]]) (simp_all add: store_simps c cong: if_cong)
    then show ?thesis by (simp add: Release)
  next
    case (Submit gid owner at)
    with agree_submit [OF assms(1), of at gid owner] assms(2) show ?thesis by (simp add: split_beta)
  next
    case (Get gid)
    with assms(1) show ?thesis by (simp add: agree_def)
  next
    case (Tick t)
    with assms(1) show ?thesis by (simp add: agree_def tick_get get_global_def)
  qed
  with agreeI [OF assms] show ?thesis by simp
qed

fun run_all_sql :: "store_op list \<Rightarrow> store \<Rightarrow> store_answer list" where
  "run_all_sql [] s = []"
| "run_all_sql (op # ops) s = fst (run_sql op s) # run_all_sql ops (snd (run_sql op s))"

fun run_all_redis :: "branch_json \<Rightarrow> store_op list \<Rightarrow> redis_store \<Rightarrow> store_answer list" where
  "run_all_redis J [] R = []"
| "run_all_redis J (op # ops) R = fst (run_redis J op R) # run_all_redis J ops (snd (run_redis J op R))"

fun sound_ops :: "branch_json \<Rightarrow> store_op list \<Rightarrow> redis_store \<Rightarrow> bool" where
  "sound_ops J [] R = True"
| "sound_ops J (op # ops) R = (sound_op op R \<and> sound_ops J ops (snd (run_redis J op R)))"

lemma agree_run:
  "agree R s \<Longrightarrow> sound_ops J ops R \<Longrightarrow> list_all2 same_answer (run_all_sql ops s) (run_all_redis J ops R)"
  by (induction ops arbitrary: R s) (auto simp: agree_step)

lemma agree_empty:
  "in_i64 t \<Longrightarrow> agree (redis_empty p ttl t)
     \<lparr>st_backend = be, st_clock = t, st_global = [], st_branch = [], st_topic = [], st_token = []\<rparr>"
  by (simp add: agree_def redis_empty_good store_ok_def keyed_def get_global_def)
    (simp add: redis_empty_def rds_get_global_def hgetall_def global_from_def)

end
