(* ===== verification/Redis_Props.thy ===== *)
theory Redis_Props
  imports Backends_Agree
begin

text \<open>
  The properties of the Redis store that clients may rest on: it answers as the SQL store does,
  statuses are written by comparison where others may write, leases exclude each other, the index
  never loses a transaction, only ended transactions expire, and the bounded scan finds something.
\<close>

section \<open>A store for the examples\<close>

definition no_json :: branch_json where
  "no_json = \<lparr>bj_value = (\<lambda>url payload. url), bj_fields = (\<lambda>v. Some (Some v, None)),
     bj_set_payload = (\<lambda>v payload. v)\<rparr>"

definition bare_redis :: redis_store where
  "bare_redis = redis_empty ''dtmrs:'' 100 7"

definition saga_row :: "string \<Rightarrow> global_row" where
  "saga_row gid = order_row\<lparr>g_gid := gid, g_trans_type := Saga, g_status := GSubmitted, g_next_cron_time := 7\<rparr>"

definition two_sagas :: redis_store where
  "two_sagas = snd (rds_create_global no_json (saga_row ''o-2'') []
     (snd (rds_create_global no_json (saga_row ''o-1'') [] bare_redis)))"

lemma row_i64_saga: "row_i64 (saga_row gid)"
  by (simp add: row_i64_def saga_row_def order_row_def in_i64_def i64_min_def i64_max_def)

lemma bare_reaches_two: "redis_step\<^sup>*\<^sup>* bare_redis two_sagas"
proof -
  have "redis_step bare_redis (snd (rds_create_global no_json (saga_row ''o-1'') [] bare_redis))"
    "redis_step (snd (rds_create_global no_json (saga_row ''o-1'') [] bare_redis)) two_sagas"
    unfolding two_sagas_def by (rule redis_step.create, rule row_i64_saga)+
  then show ?thesis by (meson rtranclp.rtrancl_into_rtrancl r_into_rtranclp)
qed

lemma bare_clock: "in_i64 7"
  by (simp add: in_i64_def i64_min_def i64_max_def)

section \<open>Properties\<close>


definition some_ops :: "store_op list" where
  "some_ops = [Create (saga_row ''o-1'') [], Create (saga_row ''o-1'') [], Tick 9,
     Transition ''o-1'' GSubmitted GAborting Saga ''no'', Transition ''o-1'' GSubmitted GSucceed Saga [],
     Schedule_now ''o-1'', Transition ''o-1'' GAborting GFailed Saga [], Get ''o-1'']"


text \<open>
  In every history of the Redis store a status others may change is written by comparison:
  the script behind it is a compare-and-set on the map of transactions, and answers whether the
  status was the one expected.
\<close>

theorem redis_transition_refines:
  assumes "in_i64 t" "redis_step\<^sup>*\<^sup>* (redis_empty p ttl t) R" "status_contested from_st tt"
    and "rds_transition gid from_st to_st tt reason R = (ok, R')"
  shows "(ok, \<lambda>x. rds_get_global x R') =
    cas_status (rs_clock R) gid from_st to_st (take_chars mid reason) (\<lambda>x. rds_get_global x R)"
  by (rule redis.trans_refines [OF _ assms(3,4)])
    (use redis_history_good [OF assms(2) redis_empty_good [OF assms(1)]] in
      \<open>simp add: redis_good_def redis_inv_def\<close>)

lemma redis_transition_refines_witness:
  "(fst (rds_transition ''o-1'' GSubmitted GAborting Saga ''no'' two_sagas),
    \<lambda>x. rds_get_global x (snd (rds_transition ''o-1'' GSubmitted GAborting Saga ''no'' two_sagas))) =
   cas_status (rs_clock two_sagas) ''o-1'' GSubmitted GAborting (take_chars mid ''no'')
     (\<lambda>x. rds_get_global x two_sagas)"
  by (rule redis_transition_refines [OF bare_clock bare_reaches_two [unfolded bare_redis_def]])
    simp_all

text \<open>
  C17. On Redis, from the moment a worker leases a transaction past prepared until its lease runs
  out, no worker leases it, whatever anybody else does to the store in between.
\<close>

theorem redis_lease_excludes_others:
  assumes "in_i64 t" "redis_step\<^sup>*\<^sup>* (redis_empty p ttl t) R"
    and "rds_lock_one_due owner lease R = (Some g, R1)" "g_status g \<noteq> GPrepared"
    and "(redis_others (g_gid g) (g_lease_until g))\<^sup>*\<^sup>* R1 R2" "rs_clock R2 < g_lease_until g"
    and "rds_lock_one_due owner2 lease2 R2 = (Some g2, R3)"
  shows "g_gid g2 \<noteq> g_gid g"
proof -
  have good: "redis_good R" by (rule redis_history_good [OF assms(2) redis_empty_good [OF assms(1)]])
  then have ok: "redis_ok R" by (simp add: redis_good_def redis_inv_def)
  have "rds_get_global (g_gid g) R1 = Some g"
    using redis.lock_Some [OF ok assms(3)] by (auto simp: fun_eq_iff)
  moreover have "redis_good R1" using redis_step_good [OF redis_step.locking good, of owner lease] assms(3) by simp
  ultimately have "holding (g_gid g) (g_lease_until g) R1" using assms(4) by (simp add: holding_def)
  from held_history [OF assms(5) this assms(6)] show ?thesis
    using redis.leased_not_locked [OF _ _ _ assms(7), of "g_gid g"] assms(6)
    by (auto simp: holding_def redis_good_def redis_inv_def)
qed

lemma redis_lease_excludes_others_witness:
  "g_gid (the (fst (rds_lock_one_due ''w2'' 30
     (rds_schedule_now ''o-1'' (snd (rds_lock_one_due ''w1'' 30 two_sagas)))))) \<noteq>
   g_gid (the (fst (rds_lock_one_due ''w1'' 30 two_sagas)))"
proof (rule redis_lease_excludes_others [OF bare_clock bare_reaches_two [unfolded bare_redis_def]])
  let ?g = "the (fst (rds_lock_one_due ''w1'' 30 two_sagas))" and ?R1 = "snd (rds_lock_one_due ''w1'' 30 two_sagas)"
  let ?R2 = "rds_schedule_now ''o-1'' ?R1"
  have "fst (rds_lock_one_due ''w1'' 30 two_sagas) \<noteq> None" by code_simp
  then show "rds_lock_one_due ''w1'' 30 two_sagas = (Some ?g, ?R1)" by (simp add: prod_eq_iff)
  show "g_status ?g \<noteq> GPrepared" by code_simp
  show "(redis_others (g_gid ?g) (g_lease_until ?g))\<^sup>*\<^sup>* ?R1 ?R2"
    by (rule r_into_rtranclp, rule redis_others.scheduling)
  show "rs_clock ?R2 < g_lease_until ?g" by code_simp
  have "fst (rds_lock_one_due ''w2'' 30 ?R2) \<noteq> None" by code_simp
  then show "rds_lock_one_due ''w2'' 30 ?R2 =
    (Some (the (fst (rds_lock_one_due ''w2'' 30 ?R2))), snd (rds_lock_one_due ''w2'' 30 ?R2))"
    by (simp add: prod_eq_iff)
qed

text \<open>
  C18. In every history of the Redis store the index never loses a transaction: one that a worker
  has to take up has an entry, and the entry is the time it is due.
\<close>

theorem index_never_loses:
  assumes "in_i64 t" "redis_step\<^sup>*\<^sup>* (redis_empty p ttl t) R"
    and "rds_get_global gid R = Some g" "schedulable g"
  shows "index_at gid R = Some (g_next_cron_time g)"
proof -
  have "redis_inv R"
    using redis_history_good [OF assms(2) redis_empty_good [OF assms(1)]] by (simp add: redis_good_def)
  then have ok: "redis_ok R" and "index_at gid R \<noteq> None"
    using assms(3,4) by (auto simp: redis_inv_def index_complete_def)
  with index_entry [OF ok assms(3) _ assms(4)] show ?thesis by (auto simp: index_at_def)
qed

lemma index_never_loses_witness:
  "index_at ''o-1'' two_sagas = Some (g_next_cron_time (the (rds_get_global ''o-1'' two_sagas)))"
proof (rule index_never_loses [OF bare_clock bare_reaches_two [unfolded bare_redis_def]])
  have "rds_get_global ''o-1'' two_sagas \<noteq> None" by code_simp
  then show "rds_get_global ''o-1'' two_sagas = Some (the (rds_get_global ''o-1'' two_sagas))" by simp
  show "schedulable (the (rds_get_global ''o-1'' two_sagas))" by code_simp
qed

text \<open>
  A transaction that was ever in the Redis store and is gone had ended: no step of a history
  takes away one that is still prepared, submitted or aborting.
\<close>

theorem only_ended_expire:
  assumes "in_i64 t" "redis_step\<^sup>*\<^sup>* (redis_empty p ttl t) R" "redis_step R R'"
    and "rds_get_global gid R = Some g" "rds_get_global gid R' = None"
  shows "is_final (g_status g)"
proof -
  have good: "redis_good R" by (rule redis_history_good [OF assms(2) redis_empty_good [OF assms(1)]])
  then show ?thesis using step_keeps_open [OF assms(3) good assms(4)] assms(5) by auto
qed

definition done_saga :: redis_store where
  "done_saga = (snd (rds_transition ''o-1'' GSubmitted GSucceed Saga [] two_sagas))\<lparr>rs_clock := 107\<rparr>"

lemma bare_reaches_done: "redis_step\<^sup>*\<^sup>* bare_redis done_saga"
proof -
  let ?R = "snd (rds_transition ''o-1'' GSubmitted GSucceed Saga [] two_sagas)"
  have "map_option g_trans_type (rds_get_global ''o-1'' two_sagas) = Some Saga" by code_simp
  then have "sound_write ''o-1'' GSubmitted GSucceed Saga two_sagas" by (auto simp: sound_write_def)
  then have "redis_step two_sagas ?R" by (rule redis_step.transition)
  moreover have "rs_clock ?R \<le> 107" by code_simp
  then have "redis_step ?R done_saga" unfolding done_saga_def
    by (rule redis_step.ticking) (simp add: in_i64_def i64_min_def i64_max_def)
  ultimately show ?thesis using bare_reaches_two by (meson rtranclp.rtrancl_into_rtrancl)
qed

lemma only_ended_expire_witness:
  "is_final (g_status (the (rds_get_global ''o-1'' done_saga)))"
proof (rule only_ended_expire [OF bare_clock bare_reaches_done [unfolded bare_redis_def]])
  let ?R = "done_saga\<lparr>rs_keys := del_key (gkey (rs_prefix done_saga) ''o-1'') (rs_keys done_saga)\<rparr>"
  show "redis_step done_saga ?R"
  proof (rule redis_step.expiring)
    show "ttl_at ''o-1'' done_saga = Some 107" by code_simp
    show "107 \<le> rs_clock done_saga" by (simp add: done_saga_def)
  qed
  have "rds_get_global ''o-1'' done_saga \<noteq> None" by code_simp
  then show "rds_get_global ''o-1'' done_saga = Some (the (rds_get_global ''o-1'' done_saga))" by simp
  show "rds_get_global ''o-1'' ?R = None" by (simp add: expire_get)
qed

text \<open>
  On Redis a worker that looks for work finds some when a transaction is due and free, unless
  twenty others that are leased or gone stand before it in the index: the scan looks at the
  first twenty that are due.
\<close>

theorem redis_lock_progress:
  assumes "in_i64 t" "redis_step\<^sup>*\<^sup>* (redis_empty p ttl t) R"
    and "rds_get_global gid R = Some g" "free_at (rs_clock R) g"
    and "length (filter (\<lambda>gid. \<not> free_member R gid) (due_members R)) < scan_limit"
  shows "\<exists>g' R'. rds_lock_one_due owner lease R = (Some g', R')"
proof -
  have inv: "redis_inv R"
    using redis_history_good [OF assms(2) redis_empty_good [OF assms(1)]] by (simp add: redis_good_def)
  then have ok: "redis_ok R" by (simp add: redis_inv_def)
  have free: "free_member R gid" using assms(3,4) by (simp add: free_member_iff)
  have "fst (rds_lock_one_due owner lease R) \<noteq> None"
    using rds_lock_None_iff [OF ok, of owner lease] free
      first_members_free [OF due_members_distinct [OF ok] assms(5) free_member_due [OF inv free]] by auto
  then show ?thesis by (cases "rds_lock_one_due owner lease R") auto
qed

lemma redis_lock_progress_witness:
  "\<exists>g' R'. rds_lock_one_due ''w1'' 30 two_sagas = (Some g', R')"
proof (rule redis_lock_progress [OF bare_clock bare_reaches_two [unfolded bare_redis_def]])
  have "rds_get_global ''o-1'' two_sagas \<noteq> None" by code_simp
  then show "rds_get_global ''o-1'' two_sagas = Some (the (rds_get_global ''o-1'' two_sagas))" by simp
  show "free_at (rs_clock two_sagas) (the (rds_get_global ''o-1'' two_sagas))" by code_simp
  show "length (filter (\<lambda>gid. \<not> free_member two_sagas gid) (due_members two_sagas)) < scan_limit"
    by code_simp
qed

end
