(* ===== verification/Barrier.thy ===== *)
theory Barrier
  imports Core_Types Dialect "HOL-Library.Word"
begin

text \<open>
  The branch barrier of the clients (\<^verbatim>\<open>crates/dtmrs-barrier/src/lib.rs\<close>): a table in the database of
  the business, and a decision per call from which rows can be inserted. It is what makes
  repeated, empty and late calls of a branch harmless. The business runs in the database
  transaction of the decision; a call whose transaction is rolled back leaves no row.
\<close>

datatype barrier_error = Invalid_trans_info string | Field_too_long too_long | Unknown_op string

datatype decision = Execute | Null_compensation | Duplicated

record barrier_row =
  r_trans_type :: string
  r_gid :: string
  r_branch_id :: string
  r_op :: string
  r_barrier_id :: string
  r_reason :: string
  r_create_time :: int

text \<open>The primary key.\<close>

definition r_key :: "barrier_row \<Rightarrow> string \<times> string \<times> string \<times> string" where
  "r_key r = (r_gid r, r_branch_id r, r_op r, r_barrier_id r)"

record branch_barrier =
  bb_trans_type :: string
  bb_gid :: string
  bb_branch_id :: string
  bb_op :: branch_op
  bb_counter :: "32 word"
  bb_table :: string
  bb_be :: backend

definition barrier_new ::
  "backend \<Rightarrow> string \<Rightarrow> string \<Rightarrow> string \<Rightarrow> string \<Rightarrow> barrier_error + branch_barrier" where
  "barrier_new be trans_type gid bid op =
     (if trans_type = [] \<or> gid = [] \<or> bid = [] \<or> op = []
      then Inl (Invalid_trans_info (''trans_type='' @ trans_type @ '' gid='' @ gid
             @ '' branch_id='' @ bid @ '' op='' @ op))
      else case check_len ''gid'' gid id_max of
          Inl e \<Rightarrow> Inl (Field_too_long e)
        | Inr _ \<Rightarrow>
      (case check_len ''branch_id'' bid id_max of
          Inl e \<Rightarrow> Inl (Field_too_long e)
        | Inr _ \<Rightarrow>
      (case check_len ''trans_type'' trans_type id_short_max of
          Inl e \<Rightarrow> Inl (Field_too_long e)
        | Inr _ \<Rightarrow>
      (case parse_branch_op op of
          None \<Rightarrow> Inl (Unknown_op op)
        | Some bop \<Rightarrow> Inr \<lparr>bb_trans_type = trans_type, bb_gid = gid, bb_branch_id = bid, bb_op = bop,
            bb_counter = 0, bb_table = ''barrier'', bb_be = be\<rparr>))))"

definition with_table :: "string \<Rightarrow> branch_barrier \<Rightarrow> branch_barrier" where
  "with_table t b = b\<lparr>bb_table := t\<rparr>"

definition next_barrier_id :: "branch_barrier \<Rightarrow> string \<times> branch_barrier" where
  "next_barrier_id b =
     (let c = bb_counter b + 1 in (pad2 (unat c), b\<lparr>bb_counter := c\<rparr>))"

definition barrier_insert ::
  "branch_barrier \<Rightarrow> int \<Rightarrow> branch_op \<Rightarrow> string \<Rightarrow> barrier_row list \<Rightarrow> nat \<times> barrier_row list" where
  "barrier_insert b t op bid rows =
     insert_ignore r_key
       \<lparr>r_trans_type = bb_trans_type b, r_gid = bb_gid b, r_branch_id = bb_branch_id b,
        r_op = branch_op_str op, r_barrier_id = bid, r_reason = branch_op_str (bb_op b),
        r_create_time = t\<rparr> rows"

text \<open>One call: the decision, the barrier with its counter moved on, and the table.\<close>

definition decide ::
  "branch_barrier \<Rightarrow> int \<Rightarrow> barrier_row list \<Rightarrow> (decision \<times> branch_barrier) \<times> barrier_row list" where
  "decide b t rows =
     (let (bid, b) = next_barrier_id b;
          op = bb_op b;
          (origin_affected, rows) = (case origin_op op of
            Some org \<Rightarrow> barrier_insert b t org bid rows | None \<Rightarrow> (0, rows));
          (current_affected, rows) = barrier_insert b t op bid rows
      in ((if is_compensating op \<and> 0 < origin_affected then Null_compensation
           else if current_affected = 0 then Duplicated
           else Execute, b), rows))"

section \<open>A decision as a test of two keys\<close>

text \<open>The key a call with barrier id \<open>01\<close> puts down for an operation.\<close>

definition key_of :: "string \<Rightarrow> string \<Rightarrow> branch_op \<Rightarrow> string \<times> string \<times> string \<times> string" where
  "key_of gid bid op = (gid, bid, branch_op_str op, pad2 1)"

definition keys :: "barrier_row list \<Rightarrow> (string \<times> string \<times> string \<times> string) set" where
  "keys rows = r_key ` set rows"

lemma keys_Nil [simp]: "keys [] = {}"
  by (simp add: keys_def)

definition first_call :: "string \<Rightarrow> string \<Rightarrow> string \<Rightarrow> branch_op \<Rightarrow> branch_barrier" where
  "first_call tt gid bid op =
     \<lparr>bb_trans_type = tt, bb_gid = gid, bb_branch_id = bid, bb_op = op, bb_counter = 0,
      bb_table = ''barrier'', bb_be = Sqlite\<rparr>"

lemma barrier_insert_key:
  "fst (barrier_insert b t op bid rows) =
     (if (bb_gid b, bb_branch_id b, branch_op_str op, bid) \<in> keys rows then 0 else 1)"
  "keys (snd (barrier_insert b t op bid rows)) =
     insert (bb_gid b, bb_branch_id b, branch_op_str op, bid) (keys rows)"
  by (auto simp: barrier_insert_def insert_ignore_def keys_def r_key_def image_iff)

text \<open>What a fresh barrier decides, and which keys it leaves.\<close>

definition verdict :: "string \<Rightarrow> string \<Rightarrow> branch_op \<Rightarrow> (string \<times> string \<times> string \<times> string) set \<Rightarrow> decision" where
  "verdict gid bid op ks =
     (case origin_op op of
        Some org \<Rightarrow> if key_of gid bid org \<notin> ks then Null_compensation
                    else if key_of gid bid op \<in> ks then Duplicated else Execute
      | None \<Rightarrow> if key_of gid bid op \<in> ks then Duplicated else Execute)"

definition taken :: "string \<Rightarrow> string \<Rightarrow> branch_op \<Rightarrow> (string \<times> string \<times> string \<times> string) set" where
  "taken gid bid op =
     insert (key_of gid bid op) (case origin_op op of Some org \<Rightarrow> {key_of gid bid org} | None \<Rightarrow> {})"

lemma branch_op_str_inj: "branch_op_str a = branch_op_str b \<longleftrightarrow> a = b"
  by (cases a; cases b) simp_all

lemma key_of_eq_iff [simp]:
  "key_of g b p = key_of g' b' p' \<longleftrightarrow> g = g' \<and> b = b' \<and> p = p'"
  by (simp add: key_of_def branch_op_str_inj)

lemma decide_first:
  "fst (fst (decide (first_call tt gid bid op) t rows)) = verdict gid bid op (keys rows) \<and>
   keys (snd (decide (first_call tt gid bid op) t rows)) = taken gid bid op \<union> keys rows"
proof (cases "origin_op op")
  case None
  then show ?thesis
    by (auto simp: decide_def next_barrier_id_def first_call_def is_compensating_def verdict_def
        taken_def key_of_def barrier_insert_key split_beta Let_def)
next
  case (Some org)
  then have "org \<noteq> op" by (simp add: origin_op_neq)
  with Some show ?thesis
    by (auto simp: decide_def next_barrier_id_def first_call_def is_compensating_def verdict_def
        taken_def key_of_def barrier_insert_key split_beta Let_def branch_op_str_inj)
qed

section \<open>Any sequence of calls\<close>

text \<open>
  Requests in the order their transactions commit, each with a barrier of its own; one that does
  not commit leaves nothing behind. The result are the requests whose business took effect.
\<close>

record barrier_request =
  rq_trans_type :: string
  rq_gid :: string
  rq_branch_id :: string
  rq_op :: branch_op
  rq_time :: int
  rq_commit :: bool

definition decide_request :: "barrier_request \<Rightarrow> barrier_row list \<Rightarrow> decision \<times> barrier_row list" where
  "decide_request rq rows =
     (let r = decide (first_call (rq_trans_type rq) (rq_gid rq) (rq_branch_id rq) (rq_op rq))
                (rq_time rq) rows
      in (fst (fst r), snd r))"

primrec serve :: "barrier_request list \<Rightarrow> barrier_row list \<Rightarrow> barrier_request list" where
  "serve [] rows = []"
| "serve (rq # rqs) rows =
     (if rq_commit rq
      then (if fst (decide_request rq rows) = Execute then [rq] else []) @
             serve rqs (snd (decide_request rq rows))
      else serve rqs rows)"

definition ops_of :: "string \<Rightarrow> string \<Rightarrow> barrier_request list \<Rightarrow> branch_op list" where
  "ops_of gid bid rqs = map rq_op (filter (\<lambda>rq. rq_gid rq = gid \<and> rq_branch_id rq = bid \<and> rq_commit rq) rqs)"

lemma ops_of_simps [simp]:
  "ops_of gid bid [] = []"
  "ops_of gid bid (rq # rqs) =
     (if rq_gid rq = gid \<and> rq_branch_id rq = bid \<and> rq_commit rq then rq_op rq # ops_of gid bid rqs
      else ops_of gid bid rqs)"
  "ops_of gid bid (rqs @ rqs') = ops_of gid bid rqs @ ops_of gid bid rqs'"
  by (simp_all add: ops_of_def)

lemma decide_request:
  "fst (decide_request rq rows) = verdict (rq_gid rq) (rq_branch_id rq) (rq_op rq) (keys rows)"
  "keys (snd (decide_request rq rows)) = taken (rq_gid rq) (rq_branch_id rq) (rq_op rq) \<union> keys rows"
  using decide_first by (simp_all add: decide_request_def Let_def)

definition pair_of :: "branch_op \<Rightarrow> branch_op \<Rightarrow> bool" where
  "pair_of fwd bwd \<longleftrightarrow> origin_op bwd = Some fwd"

lemma pair_of_facts:
  assumes "pair_of fwd bwd"
  shows "origin_op bwd = Some fwd" "origin_op fwd = None" "fwd \<noteq> bwd"
  using assms origin_op_forward origin_op_neq by (auto simp: pair_of_def)

text \<open>
  The requests of one action and its compensation, among all requests; no other operation of the
  branch compensates the same action.
\<close>

abbreviation in_pair :: "branch_op \<Rightarrow> branch_op \<Rightarrow> branch_op \<Rightarrow> bool" where
  "in_pair fwd bwd op \<equiv> op = fwd \<or> op = bwd"

definition unmixed :: "branch_op \<Rightarrow> branch_op \<Rightarrow> branch_op list \<Rightarrow> bool" where
  "unmixed fwd bwd ops \<longleftrightarrow> (\<forall>op\<in>set ops. origin_op op = Some fwd \<longrightarrow> op = bwd)"

lemma taken_untouched:
  assumes "pair_of fwd bwd" "in_pair fwd bwd x"
    and "(g, b) \<noteq> (gid, bid) \<or> \<not> in_pair fwd bwd op \<and> origin_op op \<noteq> Some fwd"
  shows "key_of gid bid x \<notin> taken g b op"
  using assms origin_op_forward pair_of_facts [OF assms(1)] by (auto simp: taken_def split: option.splits)

text \<open>A request is none of the pair's, or it leaves nothing, or it is the action or the compensation.\<close>

lemma request_cases:
  assumes "pair_of fwd bwd" "unmixed fwd bwd (ops_of gid bid (rq # rqs))"
  obtains (away) "\<not> rq_commit rq \<or>
      (\<forall>x. in_pair fwd bwd x \<longrightarrow> key_of gid bid x \<notin> taken (rq_gid rq) (rq_branch_id rq) (rq_op rq)) \<and>
      (rq_gid rq = gid \<and> rq_branch_id rq = bid \<longrightarrow> \<not> in_pair fwd bwd (rq_op rq))"
    | (forward) "rq_gid rq = gid" "rq_branch_id rq = bid" "rq_commit rq" "rq_op rq = fwd"
    | (backward) "rq_gid rq = gid" "rq_branch_id rq = bid" "rq_commit rq" "rq_op rq = bwd"
proof (cases "rq_commit rq \<and> rq_gid rq = gid \<and> rq_branch_id rq = bid \<and> in_pair fwd bwd (rq_op rq)")
  case True
  then show ?thesis using forward backward by blast
next
  case False
  have "\<not> in_pair fwd bwd (rq_op rq) \<and> origin_op (rq_op rq) \<noteq> Some fwd"
    if "rq_commit rq" "rq_gid rq = gid" "rq_branch_id rq = bid"
    using False that assms(2) by (auto simp: unmixed_def)
  then show ?thesis
    using False taken_untouched [OF assms(1)] by (intro away) (cases "rq_commit rq", auto)
qed

lemma unmixed_tail: "unmixed fwd bwd (ops_of gid bid (rq # rqs)) \<Longrightarrow> unmixed fwd bwd (ops_of gid bid rqs)"
  by (auto simp: unmixed_def split: if_splits)

lemma serve_settled:
  assumes "pair_of fwd bwd" "unmixed fwd bwd (ops_of gid bid rqs)"
    and "key_of gid bid fwd \<in> keys rows" "key_of gid bid bwd \<in> keys rows"
  shows "filter (in_pair fwd bwd) (ops_of gid bid (serve rqs rows)) = []"
  using assms(2-)
proof (induction rqs arbitrary: rows)
  case (Cons rq rqs)
  note p = pair_of_facts [OF assms(1)]
  have "key_of gid bid fwd \<in> keys (snd (decide_request rq rows))"
    "key_of gid bid bwd \<in> keys (snd (decide_request rq rows))"
    using Cons.prems by (simp_all add: decide_request)
  with Cons.IH [OF unmixed_tail [OF Cons.prems(1)]] Cons.prems
  have "filter (in_pair fwd bwd) (ops_of gid bid (serve rqs (snd (decide_request rq rows)))) = []"
    "filter (in_pair fwd bwd) (ops_of gid bid (serve rqs rows)) = []" by blast+
  with Cons.prems p show ?case
    by (auto simp: decide_request verdict_def filter_empty_conv split: if_splits)
qed simp

lemma serve_forward_done:
  assumes "pair_of fwd bwd" "unmixed fwd bwd (ops_of gid bid rqs)"
    and "key_of gid bid fwd \<in> keys rows" "key_of gid bid bwd \<notin> keys rows"
  shows "filter (in_pair fwd bwd) (ops_of gid bid (serve rqs rows)) =
    (if bwd \<in> set (ops_of gid bid rqs) then [bwd] else [])"
  using assms(2-)
proof (induction rqs arbitrary: rows)
  case (Cons rq rqs)
  note p = pair_of_facts [OF assms(1)]
  note um = unmixed_tail [OF Cons.prems(1)]
  let ?rows = "snd (decide_request rq rows)"
  from assms(1) Cons.prems(1) show ?case
  proof (cases rule: request_cases)
    case away
    then have "rq_commit rq \<Longrightarrow> key_of gid bid fwd \<in> keys ?rows"
      "rq_commit rq \<Longrightarrow> key_of gid bid bwd \<notin> keys ?rows"
      using Cons.prems by (auto simp: decide_request)
    with Cons.IH [OF um] away Cons.prems show ?thesis by auto
  next
    case forward
    with p Cons.prems have "key_of gid bid fwd \<in> keys ?rows" "key_of gid bid bwd \<notin> keys ?rows"
      by (simp_all add: decide_request taken_def)
    moreover from forward p Cons.prems have "fst (decide_request rq rows) = Duplicated"
      by (simp add: decide_request verdict_def)
    ultimately show ?thesis using Cons.IH [OF um, of ?rows] forward p by auto
  next
    case backward
    with p Cons.prems have "key_of gid bid fwd \<in> keys ?rows" "key_of gid bid bwd \<in> keys ?rows"
      by (simp_all add: decide_request taken_def)
    with serve_settled [OF assms(1) um, of ?rows]
    have "filter (in_pair fwd bwd) (ops_of gid bid (serve rqs ?rows)) = []" by blast
    moreover from backward p Cons.prems have "fst (decide_request rq rows) = Execute"
      by (simp add: decide_request verdict_def)
    ultimately show ?thesis using backward by simp
  qed
qed simp

lemma serve_pair:
  assumes "pair_of fwd bwd" "unmixed fwd bwd (ops_of gid bid rqs)"
    and "key_of gid bid fwd \<notin> keys rows" "key_of gid bid bwd \<notin> keys rows"
  shows "filter (in_pair fwd bwd) (ops_of gid bid (serve rqs rows)) =
    (case filter (in_pair fwd bwd) (ops_of gid bid rqs) of
       [] \<Rightarrow> []
     | x # xs \<Rightarrow> if x = bwd then [] else if bwd \<in> set xs then [fwd, bwd] else [fwd])"
  using assms(2-)
proof (induction rqs arbitrary: rows)
  case (Cons rq rqs)
  note p = pair_of_facts [OF assms(1)]
  note um = unmixed_tail [OF Cons.prems(1)]
  let ?rows = "snd (decide_request rq rows)"
  from assms(1) Cons.prems(1) show ?case
  proof (cases rule: request_cases)
    case away
    then have "rq_commit rq \<Longrightarrow> key_of gid bid fwd \<notin> keys ?rows"
      "rq_commit rq \<Longrightarrow> key_of gid bid bwd \<notin> keys ?rows"
      using Cons.prems by (auto simp: decide_request)
    with Cons.IH [OF um] away Cons.prems show ?thesis by auto
  next
    case forward
    with p Cons.prems have "key_of gid bid fwd \<in> keys ?rows" "key_of gid bid bwd \<notin> keys ?rows"
      by (simp_all add: decide_request taken_def)
    from serve_forward_done [OF assms(1) um this]
    have "filter (in_pair fwd bwd) (ops_of gid bid (serve rqs ?rows)) =
        (if bwd \<in> set (ops_of gid bid rqs) then [bwd] else [])" .
    moreover from forward p Cons.prems have "fst (decide_request rq rows) = Execute"
      by (simp add: decide_request verdict_def)
    ultimately show ?thesis using forward p by simp
  next
    case backward
    with p Cons.prems have "key_of gid bid fwd \<in> keys ?rows" "key_of gid bid bwd \<in> keys ?rows"
      by (simp_all add: decide_request taken_def)
    from serve_settled [OF assms(1) um this]
    have "filter (in_pair fwd bwd) (ops_of gid bid (serve rqs ?rows)) = []" .
    moreover from backward p Cons.prems have "fst (decide_request rq rows) = Null_compensation"
      by (simp add: decide_request verdict_def)
    ultimately show ?thesis using backward p by simp
  qed
qed simp

text \<open>An operation that nothing compensates takes effect once if it is requested.\<close>

lemma serve_alone:
  assumes "origin_op op = None" "\<forall>x\<in>set (ops_of gid bid rqs). origin_op x \<noteq> Some op"
  shows "filter (\<lambda>x. x = op) (ops_of gid bid (serve rqs rows)) =
    (if op \<in> set (ops_of gid bid rqs) \<and> key_of gid bid op \<notin> keys rows then [op] else [])"
  using assms(2)
proof (induction rqs arbitrary: rows)
  case (Cons rq rqs)
  have tail: "\<forall>x\<in>set (ops_of gid bid rqs). origin_op x \<noteq> Some op"
    using Cons.prems by (auto split: if_splits)
  let ?rows = "snd (decide_request rq rows)"
  show ?case
  proof (cases "rq_commit rq \<and> rq_gid rq = gid \<and> rq_branch_id rq = bid \<and> rq_op rq = op")
    case True
    then have "key_of gid bid op \<in> keys ?rows" by (simp add: decide_request taken_def)
    with True Cons.IH [OF tail, of ?rows] assms(1) show ?thesis
      by (auto simp: decide_request verdict_def)
  next
    case False
    have "key_of gid bid op \<notin> taken (rq_gid rq) (rq_branch_id rq) (rq_op rq)" if "rq_commit rq"
      using False that Cons.prems by (auto simp: taken_def split: option.splits if_splits)
    with False Cons.IH [OF tail] show ?thesis by (auto simp: decide_request)
  qed
qed simp

lemma serve_asked: "set (ops_of gid bid (serve rqs rows)) \<subseteq> set (ops_of gid bid rqs)"
  by (induction rqs arbitrary: rows) (auto split: if_splits)

text \<open>
  C19. What a branch does, whatever repetitions, losses, reorderings and requests of other
  branches there are: if the first request that commits is the compensation, nothing is ever
  done; otherwise the action is done exactly once, followed by the compensation exactly once if
  it is requested at all.
\<close>

theorem barrier_effects:
  assumes "origin_op bwd = Some fwd"
    and "set (ops_of gid bid rqs) \<subseteq> {fwd, bwd}"
    and "key_of gid bid fwd \<notin> keys rows" "key_of gid bid bwd \<notin> keys rows"
  shows "ops_of gid bid (serve rqs rows) =
    (case ops_of gid bid rqs of
       [] \<Rightarrow> []
     | x # xs \<Rightarrow> if x = bwd then [] else if bwd \<in> set xs then [fwd, bwd] else [fwd])"
proof -
  have all: "filter (in_pair fwd bwd) ops = ops" if "set ops \<subseteq> {fwd, bwd}" for ops
    using that by (auto intro: filter_True)
  have "pair_of fwd bwd" "unmixed fwd bwd (ops_of gid bid rqs)"
    using assms(1,2) origin_op_neq by (auto simp: pair_of_def unmixed_def)
  from serve_pair [OF this assms(3,4)] show ?thesis
    using all [OF assms(2)] all [OF subset_trans [OF serve_asked assms(2)]] by simp
qed

definition request :: "branch_op \<Rightarrow> barrier_request" where
  "request op = \<lparr>rq_trans_type = ''saga'', rq_gid = ''g'', rq_branch_id = ''01'', rq_op = op,
     rq_time = 0, rq_commit = True\<rparr>"

lemma barrier_effects_witness:
  "ops_of ''g'' ''01'' (serve [request Compensate, request Action, request Compensate] []) = [] \<and>
   ops_of ''g'' ''01'' (serve [request Action, request Action, request Compensate, request Compensate] []) =
     [Action, Compensate]"
  using barrier_effects [of Compensate Action "''g''" "''01''"
      "[request Compensate, request Action, request Compensate]" "[]"]
    barrier_effects [of Compensate Action "''g''" "''01''"
      "[request Action, request Action, request Compensate, request Compensate]" "[]"]
  by (simp add: request_def)

text \<open>
  A barrier accepts exactly the complete requests whose fields fit their columns on every
  database, so that no two of them can be cut to the same key.
\<close>

theorem barrier_new_accepts:
  "(\<exists>b. barrier_new be tt gid bid op = Inr b) \<longleftrightarrow>
     tt \<noteq> [] \<and> gid \<noteq> [] \<and> bid \<noteq> [] \<and> chars_count gid \<le> id_max \<and> chars_count bid \<le> id_max \<and>
     chars_count tt \<le> id_short_max \<and> parse_branch_op op \<noteq> None \<and> op \<noteq> []"
  by (auto simp: barrier_new_def check_len_cases split: option.splits)

end
