(* ===== verification/Redis_Barrier.thy ===== *)
theory Redis_Barrier
  imports Barrier
begin

text \<open>
  The barrier for business data in Redis (\<^verbatim>\<open>crates/dtmrs-barrier/src/redis_barrier.rs\<close>): the decision
  and the business are one Lua script, which Redis runs without interruption, so one call is one
  function here. Keys are set with an expiry; the business is a function that may refuse. What
  it does to its own data before it refuses stays done: a script is not rolled back.
\<close>

datatype redis_outcome = Executed | Null_compensated | Duplicate | Refused

datatype redis_error = Bad_op string | Empty_field | Script_error

record redis_barrier =
  rd_trans_type :: string
  rd_gid :: string
  rd_branch_id :: string
  rd_op :: branch_op
  rd_prefix :: string
  rd_ttl :: int
  rd_counter :: "32 word"

definition default_barrier_ttl :: int where
  "default_barrier_ttl = 7 * 24 * 3600"

definition redis_new :: "string \<Rightarrow> string \<Rightarrow> string \<Rightarrow> string \<Rightarrow> redis_error + redis_barrier" where
  "redis_new trans_type gid bid op =
     (case parse_branch_op op of
        None \<Rightarrow> Inl (Bad_op op)
      | Some bop \<Rightarrow>
          if trans_type = [] \<or> gid = [] \<or> bid = [] then Inl Empty_field
          else Inr \<lparr>rd_trans_type = trans_type, rd_gid = gid, rd_branch_id = bid, rd_op = bop,
            rd_prefix = ''dtmrs:bar:'', rd_ttl = default_barrier_ttl, rd_counter = 0\<rparr>)"

definition with_prefix :: "string \<Rightarrow> redis_barrier \<Rightarrow> redis_barrier" where
  "with_prefix p b = b\<lparr>rd_prefix := p\<rparr>"

definition with_ttl :: "int \<Rightarrow> redis_barrier \<Rightarrow> redis_barrier" where
  "with_ttl secs b = b\<lparr>rd_ttl := secs\<rparr>"

definition redis_next_id :: "redis_barrier \<Rightarrow> string \<times> redis_barrier" where
  "redis_next_id b = (let c = rd_counter b + 1 in (pad2 (unat c), b\<lparr>rd_counter := c\<rparr>))"

definition bkey :: "redis_barrier \<Rightarrow> string \<Rightarrow> string \<Rightarrow> string" where
  "bkey b op bid =
     rd_prefix b @ rd_gid b @ ''-'' @ rd_branch_id b @ ''-'' @ op @ ''-'' @ bid"

section \<open>The commands of Redis the scripts use\<close>

text \<open>A key has a value and the second it expires at.\<close>

type_synonym keyspace = "string \<Rightarrow> (string \<times> int) option"

definition redis_get :: "int \<Rightarrow> keyspace \<Rightarrow> string \<Rightarrow> string option" where
  "redis_get t ks k = (case ks k of None \<Rightarrow> None | Some (v, e) \<Rightarrow> if t < e then Some v else None)"

definition redis_set :: "int \<Rightarrow> string \<Rightarrow> string \<Rightarrow> int \<Rightarrow> keyspace \<Rightarrow> keyspace" where
  "redis_set t k v ttl ks = ks(k \<mapsto> (v, t + ttl))"

definition redis_set_nx :: "int \<Rightarrow> string \<Rightarrow> string \<Rightarrow> int \<Rightarrow> keyspace \<Rightarrow> bool \<times> keyspace" where
  "redis_set_nx t k v ttl ks =
     (if redis_get t ks k = None then (True, redis_set t k v ttl ks) else (False, ks))"

section \<open>The operations\<close>

text \<open>
  \<open>busi\<close> gives whether it refuses and the data it leaves. An expiry that is not positive is an
  error of the first SET, before anything is written.
\<close>

definition redis_call ::
  "redis_barrier \<Rightarrow> int \<Rightarrow> ('d \<Rightarrow> bool \<times> 'd) \<Rightarrow> keyspace \<times> 'd \<Rightarrow>
   (redis_error + redis_outcome) \<times> redis_barrier \<times> keyspace \<times> 'd" where
  "redis_call b t busi s =
     (let (ks, d) = s;
          (bid, b) = redis_next_id b;
          cur = bkey b (branch_op_str (rd_op b)) bid;
          org = bkey b (case origin_op (rd_op b) of Some p \<Rightarrow> branch_op_str p | None \<Rightarrow> ''none'') bid;
          has_origin = is_compensating (rd_op b)
      in if rd_ttl b \<le> 0 then (Inl Script_error, b, ks, d)
         else
           (let (origin_got, ks) =
                  (if has_origin then redis_set_nx t org ''origin'' (rd_ttl b) ks else (False, ks));
                (cur_got, ks) = redis_set_nx t cur ''cur'' (rd_ttl b) ks
            in if has_origin \<and> origin_got then (Inr Null_compensated, b, ks, d)
               else if \<not> cur_got then (Inr Duplicate, b, ks, d)
               else (let (refuses, d) = busi d
                     in (Inr (if refuses then Refused else Executed), b, ks, d))))"

text \<open>
  The business of \<open>check_adjust_amount\<close> on integer values. Lua compares in double precision:
  \<open>lua_negative\<close> says whether the sum it computes is below zero.
\<close>

definition adjust_amount ::
  "(int \<Rightarrow> int \<Rightarrow> bool) \<Rightarrow> string \<Rightarrow> int \<Rightarrow> (string \<Rightarrow> int option) \<Rightarrow> bool \<times> (string \<Rightarrow> int option)" where
  "adjust_amount lua_negative key amount d =
     (case d key of
        None \<Rightarrow> (True, d)
      | Some v \<Rightarrow> if lua_negative v amount then (True, d) else (False, d(key \<mapsto> v + amount)))"

definition check_adjust_amount ::
  "(int \<Rightarrow> int \<Rightarrow> bool) \<Rightarrow> redis_barrier \<Rightarrow> int \<Rightarrow> string \<Rightarrow> int \<Rightarrow>
   keyspace \<times> (string \<Rightarrow> int option) \<Rightarrow>
   (redis_error + redis_outcome) \<times> redis_barrier \<times> keyspace \<times> (string \<Rightarrow> int option)" where
  "check_adjust_amount lua_negative b t key amount s =
     redis_call b t (adjust_amount lua_negative key amount) s"

definition query_key :: "redis_barrier \<Rightarrow> string" where
  "query_key b = rd_prefix b @ rd_gid b @ ''-01-action-01''"

definition query_prepared ::
  "redis_barrier \<Rightarrow> int \<Rightarrow> keyspace \<Rightarrow> (redis_error + redis_outcome) \<times> keyspace" where
  "query_prepared b t ks =
     (case redis_get t ks (query_key b) of
        None \<Rightarrow> if rd_ttl b \<le> 0 then (Inl Script_error, ks)
                else (Inr Refused, redis_set t (query_key b) ''rollback'' (rd_ttl b) ks)
      | Some v \<Rightarrow> (Inr (if v = ''rollback'' then Refused else Executed), ks))"

section \<open>Keys without dashes are distinct\<close>

definition dashless :: "string \<Rightarrow> bool" where
  "dashless s \<longleftrightarrow> CHR ''-'' \<notin> set s"

definition first_redis :: "string \<Rightarrow> int \<Rightarrow> string \<Rightarrow> string \<Rightarrow> string \<Rightarrow> branch_op \<Rightarrow> redis_barrier" where
  "first_redis pre ttl tt gid bid op =
     \<lparr>rd_trans_type = tt, rd_gid = gid, rd_branch_id = bid, rd_op = op, rd_prefix = pre,
      rd_ttl = ttl, rd_counter = 0\<rparr>"

definition rkey :: "string \<Rightarrow> string \<Rightarrow> string \<Rightarrow> branch_op \<Rightarrow> string" where
  "rkey pre gid bid op = pre @ gid @ ''-'' @ bid @ ''-'' @ branch_op_str op @ ''-'' @ pad2 1"

lemma dash_split:
  "dashless x \<Longrightarrow> dashless x' \<Longrightarrow> x @ CHR ''-'' # y = x' @ CHR ''-'' # y' \<longleftrightarrow> x = x' \<and> y = y'"
proof (induction x arbitrary: x')
  case Nil
  then show ?case by (cases x') (auto simp: dashless_def)
next
  case (Cons c x)
  then show ?case by (cases x') (auto simp: dashless_def)
qed

lemma dashless_op [simp]: "dashless (branch_op_str op)"
  by (cases op) (simp_all add: dashless_def)

lemma rkey_eq_iff:
  assumes "dashless g" "dashless b" "dashless g'" "dashless b'"
  shows "rkey pre g b p = rkey pre g' b' p' \<longleftrightarrow> g = g' \<and> b = b' \<and> p = p'"
  using assms by (auto simp: rkey_def dash_split branch_op_str_inj)

section \<open>Simulation of the SQL barrier\<close>

text \<open>The decision of a call in terms of which keys are alive, as \<open>verdict\<close> is for rows.\<close>

definition as_decision :: "redis_outcome \<Rightarrow> decision" where
  "as_decision r =
     (case r of Executed \<Rightarrow> Execute | Refused \<Rightarrow> Execute | Null_compensated \<Rightarrow> Null_compensation
      | Duplicate \<Rightarrow> Duplicated)"

definition redis_request ::
  "string \<Rightarrow> int \<Rightarrow> barrier_request \<Rightarrow> keyspace \<Rightarrow> (redis_error + redis_outcome) \<times> keyspace" where
  "redis_request pre ttl rq ks =
     (let r = redis_call (first_redis pre ttl (rq_trans_type rq) (rq_gid rq) (rq_branch_id rq) (rq_op rq))
                (rq_time rq) (\<lambda>d. (False, d)) (ks, ())
      in (fst r, fst (snd (snd r))))"

primrec serve_redis :: "string \<Rightarrow> int \<Rightarrow> barrier_request list \<Rightarrow> keyspace \<Rightarrow> barrier_request list" where
  "serve_redis pre ttl [] ks = []"
| "serve_redis pre ttl (rq # rqs) ks =
     (if fst (redis_request pre ttl rq ks) = Inr Executed then [rq] else []) @
     serve_redis pre ttl rqs (snd (redis_request pre ttl rq ks))"

text \<open>
  The keyspace shows the same requests as the table, and no key expires before \<open>until\<close>.
\<close>

definition shows_same :: "string \<Rightarrow> int \<Rightarrow> (string \<times> string \<times> string \<times> string) set \<Rightarrow> keyspace \<Rightarrow> bool" where
  "shows_same pre until K ks \<longleftrightarrow>
     (\<forall>g b p. dashless g \<longrightarrow> dashless b \<longrightarrow> (ks (rkey pre g b p) \<noteq> None \<longleftrightarrow> key_of g b p \<in> K)) \<and>
     (\<forall>k v e. ks k = Some (v, e) \<longrightarrow> until \<le> e)"

lemma shows_same_get:
  assumes "shows_same pre until K ks" "t < until" "dashless g" "dashless b"
  shows "redis_get t ks (rkey pre g b p) = None \<longleftrightarrow> key_of g b p \<notin> K"
proof -
  from assms(1,3,4) have iff: "ks (rkey pre g b p) \<noteq> None \<longleftrightarrow> key_of g b p \<in> K"
    by (simp add: shows_same_def)
  from assms(1) have "until \<le> e" if "ks (rkey pre g b p) = Some (v, e)" for v e
    using that unfolding shows_same_def by blast
  with iff assms(2) show ?thesis
    by (fastforce simp: redis_get_def split: option.splits)
qed

lemma shows_same_nx:
  assumes "shows_same pre until K ks" "t < until" "dashless g" "dashless b" "until \<le> t + ttl"
    and "K' = insert (key_of g b p) K"
  shows "fst (redis_set_nx t (rkey pre g b p) v ttl ks) \<longleftrightarrow> key_of g b p \<notin> K"
    and "shows_same pre until K' (snd (redis_set_nx t (rkey pre g b p) v ttl ks))"
proof -
  note get = shows_same_get [OF assms(1-4)]
  show "fst (redis_set_nx t (rkey pre g b p) v ttl ks) \<longleftrightarrow> key_of g b p \<notin> K"
    by (simp add: redis_set_nx_def get)
  show "shows_same pre until K' (snd (redis_set_nx t (rkey pre g b p) v ttl ks))"
  proof (cases "key_of g b p \<in> K")
    case True
    with assms(1,6) get [of p] show ?thesis
      by (auto simp: redis_set_nx_def shows_same_def insert_absorb)
  next
    case False
    with get [of p] have "snd (redis_set_nx t (rkey pre g b p) v ttl ks) = ks(rkey pre g b p \<mapsto> (v, t + ttl))"
      by (simp add: redis_set_nx_def redis_set_def)
    moreover have "shows_same pre until K' (ks(rkey pre g b p \<mapsto> (v, t + ttl)))"
      unfolding shows_same_def
    proof (intro conjI allI impI)
      fix g' b' p' assume "dashless g'" "dashless b'"
      with assms(1,3,4,6) show "(ks(rkey pre g b p \<mapsto> (v, t + ttl))) (rkey pre g' b' p') \<noteq> None \<longleftrightarrow>
          key_of g' b' p' \<in> K'"
        by (auto simp: shows_same_def rkey_eq_iff)
    next
      fix k v' e assume "(ks(rkey pre g b p \<mapsto> (v, t + ttl))) k = Some (v', e)"
      with assms(1,5) show "until \<le> e"
        by (auto simp: shows_same_def split: if_splits)
    qed
    ultimately show ?thesis by simp
  qed
qed

lemma redis_request_same:
  assumes "shows_same pre until (keys rows) ks" "rq_time rq < until" "until \<le> rq_time rq + ttl"
    and "dashless (rq_gid rq)" "dashless (rq_branch_id rq)"
  shows "\<exists>r. fst (redis_request pre ttl rq ks) = Inr r \<and> r \<noteq> Refused \<and>
      as_decision r = fst (decide_request rq rows)"
    and "shows_same pre until (keys (snd (decide_request rq rows))) (snd (redis_request pre ttl rq ks))"
proof -
  let ?t = "rq_time rq" and ?g = "rq_gid rq" and ?b = "rq_branch_id rq" and ?op = "rq_op rq"
  let ?key = "rkey pre ?g ?b"
  have ttl: "0 < ttl" using assms(2,3) by simp
  have key: "bkey (first_redis pre ttl (rq_trans_type rq) ?g ?b ?op\<lparr>rd_counter := c\<rparr>) (branch_op_str p) (pad2 (unat (1 :: 32 word))) =
      ?key p" for p c
    by (simp add: bkey_def rkey_def first_redis_def)
  have both: "(\<exists>r. fst (redis_request pre ttl rq ks) = Inr r \<and> r \<noteq> Refused \<and>
      as_decision r = verdict ?g ?b ?op (keys rows)) \<and>
    shows_same pre until (taken ?g ?b ?op \<union> keys rows) (snd (redis_request pre ttl rq ks))"
  proof (cases "origin_op ?op")
    case None
    note nx = shows_same_nx [OF assms(1,2,4,5,3) refl, of ?op "''cur''"]
    from None ttl nx key [of 1 ?op] show ?thesis
      by (auto simp: redis_request_def redis_call_def redis_next_id_def is_compensating_def
          as_decision_def verdict_def taken_def first_redis_def split_beta Let_def)
  next
    case (Some org)
    have neq: "org \<noteq> ?op" using Some by (simp add: origin_op_neq)
    note nx = shows_same_nx [OF assms(1,2,4,5,3) refl, of org "''origin''"]
    note nx2 = shows_same_nx [OF nx(2) assms(2,4,5,3) refl, of ?op "''cur''"]
    have K: "insert (key_of ?g ?b ?op) (insert (key_of ?g ?b org) (keys rows)) =
        taken ?g ?b ?op \<union> keys rows" using Some by (auto simp: taken_def)
    from Some ttl nx(1) nx2 [unfolded K] key [of 1 ?op] key [of 1 org] neq show ?thesis
      by (auto simp: redis_request_def redis_call_def redis_next_id_def is_compensating_def
          as_decision_def verdict_def first_redis_def split_beta Let_def)
  qed
  show "\<exists>r. fst (redis_request pre ttl rq ks) = Inr r \<and> r \<noteq> Refused \<and>
      as_decision r = fst (decide_request rq rows)"
    and "shows_same pre until (keys (snd (decide_request rq rows))) (snd (redis_request pre ttl rq ks))"
    using both by (simp_all add: decide_request)
qed

lemma serve_redis_same:
  assumes "\<forall>rq\<in>set rqs. rq_commit rq \<and> dashless (rq_gid rq) \<and> dashless (rq_branch_id rq) \<and>
      t0 \<le> rq_time rq \<and> rq_time rq < t0 + ttl"
    and "shows_same pre (t0 + ttl) (keys rows) ks"
  shows "serve_redis pre ttl rqs ks = serve rqs rows"
  using assms
proof (induction rqs arbitrary: ks rows)
  case (Cons rq rqs)
  have rq: "rq_commit rq" "rq_time rq < t0 + ttl" "t0 + ttl \<le> rq_time rq + ttl"
    "dashless (rq_gid rq)" "dashless (rq_branch_id rq)" using Cons.prems(1) by auto
  note same = redis_request_same [OF Cons.prems(2) rq(2-)]
  from same(1) obtain r where r: "fst (redis_request pre ttl rq ks) = Inr r" "r \<noteq> Refused"
    "as_decision r = fst (decide_request rq rows)" by blast
  have "serve_redis pre ttl rqs (snd (redis_request pre ttl rq ks)) = serve rqs (snd (decide_request rq rows))"
    by (rule Cons.IH) (use Cons.prems(1) same(2) in auto)
  moreover from r(2) have "r = Executed \<longleftrightarrow> as_decision r = Execute"
    by (cases r) (simp_all add: as_decision_def)
  ultimately show ?case using r rq(1) by simp
qed simp

section \<open>Properties\<close>



text \<open>
  The restriction to names without dashes is needed: the first delivery of a fan-out, branch
  \<open>01-01\<close> of a gid, and branch \<open>01\<close> of the gid with \<open>-01\<close> appended share one Redis key, so the
  second of the two is taken for a repetition and its business is skipped; the SQL barrier keeps
  them apart.
\<close>

theorem dashes_collide:
  "\<exists>a b. rq_gid a = ''order'' \<and> rq_branch_id a = ''01-01'' \<and> rq_gid b = ''order-01'' \<and>
     rq_branch_id b = ''01'' \<and> serve [a, b] [] = [a, b] \<and>
     serve_redis ''dtmrs:bar:'' 60 [a, b] (\<lambda>_. None) = [a]"
proof (intro exI conjI)
  let ?a = "\<lparr>rq_trans_type = ''msg'', rq_gid = ''order'', rq_branch_id = ''01-01'', rq_op = Action,
    rq_time = 0, rq_commit = True\<rparr>"
  let ?b = "\<lparr>rq_trans_type = ''msg'', rq_gid = ''order-01'', rq_branch_id = ''01'', rq_op = Action,
    rq_time = 0, rq_commit = True\<rparr>"
  show "rq_gid ?a = ''order''" "rq_branch_id ?a = ''01-01''" "rq_gid ?b = ''order-01''"
    "rq_branch_id ?b = ''01''" by simp_all
  show "serve [?a, ?b] [] = [?a, ?b]"
    by (simp add: decide_request verdict_def taken_def)
  show "serve_redis ''dtmrs:bar:'' 60 [?a, ?b] (\<lambda>_. None) = [?a]"
    by (simp add: redis_request_def redis_call_def redis_next_id_def first_redis_def bkey_def
        is_compensating_def redis_set_nx_def redis_get_def redis_set_def Let_def)
qed

text \<open>
  Asking back settles the question: when nothing is known of a message, the answer is that it
  was not committed, the answer stays the same as long as the mark lives, and the local
  transaction that comes later is dropped with its business not run.
\<close>

theorem query_settles:
  assumes "redis_get t ks (query_key b) = None" "t \<le> t'" "t' < t + rd_ttl b"
    and "query_prepared b t ks = (r, ks')"
  shows "r = Inr Refused \<and> query_prepared b t' ks' = (Inr Refused, ks') \<and>
    fst (redis_call (first_redis (rd_prefix b) (rd_ttl b) tt (rd_gid b) ''01'' Action) t' busi (ks', d)) =
      Inr Duplicate \<and>
    snd (snd (redis_call (first_redis (rd_prefix b) (rd_ttl b) tt (rd_gid b) ''01'' Action) t' busi (ks', d))) =
      (ks', d)"
proof -
  have ttl: "0 < rd_ttl b" using assms(2,3) by simp
  have "pad2 (Suc 0) = ''01''" by code_simp
  then have key: "bkey (first_redis (rd_prefix b) (rd_ttl b) tt (rd_gid b) ''01'' Action\<lparr>rd_counter := c\<rparr>)
      ''action'' (pad2 (Suc 0)) = query_key b" for c
    by (simp add: bkey_def first_redis_def query_key_def)
  from assms ttl have ks': "r = Inr Refused" "redis_get t' ks' (query_key b) = Some ''rollback''"
    by (auto simp: query_prepared_def redis_set_def redis_get_def)
  with ttl key [of 1] show ?thesis
    by (simp add: query_prepared_def redis_call_def redis_next_id_def is_compensating_def Let_def
        redis_set_nx_def first_redis_def)
qed

lemma query_settles_witness:
  "query_prepared (first_redis ''p:'' 60 ''msg'' ''g'' ''01'' Action) 9
     (snd (query_prepared (first_redis ''p:'' 60 ''msg'' ''g'' ''01'' Action) 5 (\<lambda>_. None))) =
   (Inr Refused, snd (query_prepared (first_redis ''p:'' 60 ''msg'' ''g'' ''01'' Action) 5 (\<lambda>_. None)))"
proof -
  let ?b = "first_redis ''p:'' 60 ''msg'' ''g'' ''01'' Action"
  have "query_prepared ?b 5 (\<lambda>_. None) =
      (fst (query_prepared ?b 5 (\<lambda>_. None)), snd (query_prepared ?b 5 (\<lambda>_. None)))" by simp
  moreover have "redis_get 5 (\<lambda>_. None) (query_key ?b) = None" by (simp add: redis_get_def)
  moreover have "(5 :: int) \<le> 9" "9 < 5 + rd_ttl ?b" by (simp_all add: first_redis_def)
  ultimately show ?thesis by (rule query_settles [THEN conjunct2, THEN conjunct1, rotated 3])
qed

text \<open>
  A refused local transaction reads as committed: its key stays, so asking back afterwards
  answers that the message was committed although its business refused.
\<close>

theorem refused_reads_as_committed:
  assumes "redis_call (first_redis pre ttl tt gid ''01'' Action) t busi (ks, d) = (Inr Refused, b, ks', d')"
    and "t \<le> t'" "t' < t + ttl"
  shows "query_prepared b t' ks' = (Inr Executed, ks')"
proof -
  have "pad2 (Suc 0) = ''01''" by code_simp
  with assms show ?thesis
    by (auto simp: query_prepared_def redis_call_def redis_next_id_def is_compensating_def Let_def
        redis_set_nx_def redis_set_def redis_get_def first_redis_def bkey_def query_key_def split_beta
        split: if_splits)
qed

lemma refused_reads_as_committed_witness:
  "fst (query_prepared (fst (snd (redis_call (first_redis ''p:'' 60 ''msg'' ''g'' ''01'' Action) 5
      (\<lambda>d. (True, d)) (\<lambda>_. None, ())))) 9
     (fst (snd (snd (redis_call (first_redis ''p:'' 60 ''msg'' ''g'' ''01'' Action) 5
      (\<lambda>d. (True, d)) (\<lambda>_. None, ())))))) = Inr Executed"
proof -
  let ?r = "redis_call (first_redis ''p:'' 60 ''msg'' ''g'' ''01'' Action) 5 (\<lambda>d. (True, d)) (\<lambda>_. None, ())"
  have "fst ?r = Inr Refused" by code_simp
  then have "?r = (Inr Refused, fst (snd ?r), fst (snd (snd ?r)), snd (snd (snd ?r)))"
    by (simp add: prod_eq_iff)
  from refused_reads_as_committed [OF this, of 9] show ?thesis by simp
qed

text \<open>
  Stock never goes below zero: an adjustment is applied exactly when it is executed, the
  amounts stay non-negative, and in every other case the stock is as it was; for amounts that
  Lua compares exactly.
\<close>

theorem stock_stays_non_negative:
  assumes "\<forall>v a. \<bar>v\<bar> \<le> 2 ^ 52 \<longrightarrow> \<bar>a\<bar> \<le> 2 ^ 52 \<longrightarrow> lua_negative v a = (v + a < 0)"
    and "\<forall>k v. d k = Some v \<longrightarrow> 0 \<le> v \<and> v \<le> 2 ^ 52" "\<bar>amount\<bar> \<le> 2 ^ 52"
    and "check_adjust_amount lua_negative b t key amount (ks, d) = (r, b', ks', d')"
  shows "(\<forall>k v. d' k = Some v \<longrightarrow> 0 \<le> v) \<and>
    (if r = Inr Executed then \<exists>v. d key = Some v \<and> d' = d(key \<mapsto> v + amount) else d' = d)"
proof -
  have "adjust_amount lua_negative key amount d = (False, d') \<and> r = Inr Executed \<or>
      d' = d \<and> r \<noteq> Inr Executed"
    using assms(4)
    by (auto simp: check_adjust_amount_def redis_call_def adjust_amount_def split_beta Let_def
        split: if_splits option.splits)
  then show ?thesis
    using assms(1-3) by (force simp: adjust_amount_def split: option.splits if_splits)
qed

lemma stock_stays_non_negative_witness:
  "(snd (snd (snd (check_adjust_amount (\<lambda>v a. v + a < 0) (first_redis ''p:'' 60 ''saga'' ''g'' ''01'' Action) 5
      ''stock'' (-3) (\<lambda>_. None, [''stock'' \<mapsto> 5]))))) ''stock'' = Some 2"
proof -
  let ?r = "check_adjust_amount (\<lambda>v a. v + a < 0) (first_redis ''p:'' 60 ''saga'' ''g'' ''01'' Action) 5
      ''stock'' (-3) (\<lambda>_. None, [''stock'' \<mapsto> 5])"
  have run: "?r = (fst ?r, fst (snd ?r), fst (snd (snd ?r)), snd (snd (snd ?r)))" by simp
  have executed: "fst ?r = Inr Executed" by code_simp
  have exact: "\<forall>v a. \<bar>v\<bar> \<le> 2 ^ 52 \<longrightarrow> \<bar>a\<bar> \<le> 2 ^ 52 \<longrightarrow> (v + a < 0) = (v + a < (0 :: int))"
    and range: "\<forall>k v. [''stock'' \<mapsto> 5] k = Some v \<longrightarrow> 0 \<le> v \<and> v \<le> (2 :: int) ^ 52"
    and amount: "\<bar>-3 :: int\<bar> \<le> 2 ^ 52" by auto
  note stock = conjunct2 [OF stock_stays_non_negative [OF exact range amount run]]
  then have "\<exists>v. [''stock'' \<mapsto> 5] ''stock'' = Some v \<and>
      snd (snd (snd ?r)) = [''stock'' \<mapsto> 5](''stock'' \<mapsto> v + (-3))"
    unfolding executed by simp
  then show ?thesis by (elim exE conjE) (simp del: fun_upd_upd)
qed

end
