(* ===== verification/Xa.thy ===== *)
theory Xa
  imports Branch_Id Dialect "HOL-Library.Word"
begin

unbundle bit_operations_syntax

text \<open>
  The XA helper of the clients (\<^verbatim>\<open>crates/dtmrs-xa/src/lib.rs\<close>): the name of a branch in the
  database's two-phase commit and the statements sent with it. The names go into SQL text, so
  what characters they may hold matters. The database is a parameter: \<open>exec\<close> runs a statement
  and answers with success or an SQLSTATE.
\<close>

datatype flavor = Pg | My

datatype 'e xa_error = Two_phase_disabled | Unsupported backend | Bad_xid string | Db_error 'e

definition flavor_from_url :: "string \<Rightarrow> 'e xa_error + flavor" where
  "flavor_from_url url =
     (case from_url url of Postgres \<Rightarrow> Inr Pg | MySql \<Rightarrow> Inr My | be \<Rightarrow> Inl (Unsupported be))"

fun xid_limit :: "flavor \<Rightarrow> nat" where
  "xid_limit Pg = 190"
| "xid_limit My = 64"

fun already_resolved_code :: "flavor \<Rightarrow> string" where
  "already_resolved_code Pg = ''42704''"
| "already_resolved_code My = ''XAE04''"

datatype resolved = Resolved_now | Already_resolved

section \<open>Names\<close>

definition fnv1a :: "string \<Rightarrow> 64 word" where
  "fnv1a s = fold (\<lambda>c h. (h XOR word_of_nat (of_char c)) * 0x100000001b3) s 0xcbf29ce484222325"

definition is_alnum :: "char \<Rightarrow> bool" where
  "is_alnum c \<longleftrightarrow>
     (let n = (of_char c :: nat)
      in 48 \<le> n \<and> n \<le> 57 \<or> 65 \<le> n \<and> n \<le> 90 \<or> 97 \<le> n \<and> n \<le> 122)"

definition xid_char :: "char \<Rightarrow> bool" where
  "xid_char c \<longleftrightarrow> is_alnum c \<or> c = CHR ''_'' \<or> c = CHR ''-''"

text \<open>Every character that is not allowed becomes one underscore; a character is a lead byte.\<close>

definition clean_name :: "string \<Rightarrow> string" where
  "clean_name s = map (\<lambda>c. if xid_char c then c else CHR ''_'') (filter (\<lambda>c. \<not> utf8_cont c) s)"

text \<open>\<open>format!("{:016x}", h)\<close>.\<close>

definition hex16 :: "64 word \<Rightarrow> string" where
  "hex16 h = map (\<lambda>i. hex_digit (unat (drop_bit (4 * (15 - i)) h AND 15))) [0..<16]"

definition xid_for :: "flavor \<Rightarrow> string \<Rightarrow> string \<Rightarrow> string" where
  "xid_for f gid bid =
     (let full = ''dtmrs_'' @ clean_name gid @ ''_'' @ clean_name bid; limit = xid_limit f
      in if length full \<le> limit then full
         else (let digest = hex16 (fnv1a full); keep = limit - length digest - 1
               in take keep full @ ''_'' @ digest))"

definition check_xid :: "flavor \<Rightarrow> string \<Rightarrow> 'e xa_error + unit" where
  "check_xid f x =
     (if x = [] \<or> xid_limit f < length x then Inl (Bad_xid (utf8 [233, 149, 191, 229, 186, 166, 32] @ dec (length x)))
      else if \<not> list_all xid_char x then Inl (Bad_xid x)
      else Inr ())"

lemma hex_digit_ok: "n < 16 \<Longrightarrow> xid_char (hex_digit n)"
proof -
  have "\<forall>n\<in>set [0..<16]. xid_char (hex_digit n)" by code_simp
  then show "n < 16 \<Longrightarrow> xid_char (hex_digit n)" by simp
qed

lemma nibble_less: "unat (w AND 15 :: 64 word) < 16"
proof -
  have "w AND 15 \<le> 15" by (rule word_and_le1)
  then have "unat (w AND 15) \<le> unat (15 :: 64 word)" by (simp only: word_le_nat_alt)
  then show ?thesis by simp
qed

lemma hex16_ok [simp]: "length (hex16 h) = 16" "list_all xid_char (hex16 h)"
  by (simp_all add: hex16_def list_all_iff hex_digit_ok nibble_less)

lemma clean_name_ok [simp]: "list_all xid_char (clean_name s)"
  by (auto simp: clean_name_def list_all_iff xid_char_def)

lemma safe_under [simp]: "xid_char (CHR ''_'')"
  by (simp add: xid_char_def)

lemma dtmrs_prefix_ok: "list_all xid_char ''dtmrs_''"
  by code_simp

lemma safe_take: "list_all P xs \<Longrightarrow> list_all P (take n xs)"
  by (auto simp: list_all_iff dest: in_set_takeD)

lemma xid_for_ok:
  "xid_for f gid bid \<noteq> [] \<and> length (xid_for f gid bid) \<le> xid_limit f \<and> list_all xid_char (xid_for f gid bid)"
proof -
  let ?full = "''dtmrs_'' @ clean_name gid @ ''_'' @ clean_name bid"
  have "list_all xid_char ?full" using dtmrs_prefix_ok by simp
  then have "list_all xid_char (take n ?full @ CHR ''_'' # hex16 h)" for n h
    using safe_take [of xid_char ?full n] by simp
  then show ?thesis
    using dtmrs_prefix_ok by (cases f) (simp_all add: xid_for_def Let_def del: take_append take_Cons_numeral)
qed

section \<open>Statements\<close>

text \<open>\<open>exec sql db\<close>: success, or the SQLSTATE if the error has one.\<close>

type_synonym 'db exec = "string \<Rightarrow> 'db \<Rightarrow> (string option + unit) \<times> 'db"

record xa_branch =
  xb_xid :: string
  xb_flavor :: flavor

definition quoted :: "string \<Rightarrow> string \<Rightarrow> string" where
  "quoted words x = words @ '' '' @ CHR 0x27 # x @ [CHR 0x27]"

text \<open>Statements one after the other; the first error ends them.\<close>

primrec exec_all :: "'db exec \<Rightarrow> string list \<Rightarrow> 'db \<Rightarrow> (string option xa_error + unit) \<times> 'db" where
  "exec_all exec [] db = (Inr (), db)"
| "exec_all exec (sql # sqls) db =
     (case exec sql db of
        (Inl e, db) \<Rightarrow> (Inl (Db_error e), db)
      | (Inr _, db) \<Rightarrow> exec_all exec sqls db)"

fun begin_sql :: "flavor \<Rightarrow> string \<Rightarrow> string" where
  "begin_sql Pg x = ''BEGIN''"
| "begin_sql My x = quoted ''XA START'' x"

definition xa_begin ::
  "flavor \<Rightarrow> 'db exec \<Rightarrow> string \<Rightarrow> string \<Rightarrow> 'db \<Rightarrow> (string option xa_error + xa_branch) \<times> 'db" where
  "xa_begin f exec gid bid db =
     (let x = xid_for f gid bid
      in case check_xid f x of
           Inl e \<Rightarrow> (Inl e, db)
         | Inr _ \<Rightarrow>
             (case exec_all exec [begin_sql f x] db of
                (Inl e, db) \<Rightarrow> (Inl e, db)
              | (Inr _, db) \<Rightarrow> (Inr \<lparr>xb_xid = x, xb_flavor = f\<rparr>, db)))"

fun prepare_sqls :: "flavor \<Rightarrow> string \<Rightarrow> string list" where
  "prepare_sqls Pg x = [quoted ''PREPARE TRANSACTION'' x]"
| "prepare_sqls My x = [quoted ''XA END'' x, quoted ''XA PREPARE'' x]"

definition xa_prepare ::
  "'db exec \<Rightarrow> xa_branch \<Rightarrow> 'db \<Rightarrow> (string option xa_error + string) \<times> 'db" where
  "xa_prepare exec b db =
     (case exec_all exec (prepare_sqls (xb_flavor b) (xb_xid b)) db of
        (Inl e, db) \<Rightarrow> (Inl e, db)
      | (Inr _, db) \<Rightarrow> (Inr (xb_xid b), db))"

fun discard_sqls :: "flavor \<Rightarrow> string \<Rightarrow> string list" where
  "discard_sqls Pg x = [''ROLLBACK'']"
| "discard_sqls My x = [quoted ''XA END'' x, quoted ''XA ROLLBACK'' x]"

definition xa_discard ::
  "'db exec \<Rightarrow> xa_branch \<Rightarrow> 'db \<Rightarrow> (string option xa_error + unit) \<times> 'db" where
  "xa_discard exec b db = exec_all exec (discard_sqls (xb_flavor b) (xb_xid b)) db"

definition resolve ::
  "flavor \<Rightarrow> 'db exec \<Rightarrow> string \<Rightarrow> string \<Rightarrow> 'db \<Rightarrow> (string option xa_error + resolved) \<times> 'db" where
  "resolve f exec xid sql db =
     (case check_xid f xid of
        Inl e \<Rightarrow> (Inl e, db)
      | Inr _ \<Rightarrow>
          (case exec sql db of
             (Inr _, db) \<Rightarrow> (Inr Resolved_now, db)
           | (Inl e, db) \<Rightarrow>
               if e = Some (already_resolved_code f) then (Inr Already_resolved, db)
               else (Inl (Db_error e), db)))"

fun commit_sql :: "flavor \<Rightarrow> string \<Rightarrow> string" where
  "commit_sql Pg x = quoted ''COMMIT PREPARED'' x"
| "commit_sql My x = quoted ''XA COMMIT'' x"

fun rollback_sql :: "flavor \<Rightarrow> string \<Rightarrow> string" where
  "rollback_sql Pg x = quoted ''ROLLBACK PREPARED'' x"
| "rollback_sql My x = quoted ''XA ROLLBACK'' x"

definition commit_prepared ::
  "flavor \<Rightarrow> 'db exec \<Rightarrow> string \<Rightarrow> 'db \<Rightarrow> (string option xa_error + resolved) \<times> 'db" where
  "commit_prepared f exec xid db = resolve f exec xid (commit_sql f xid) db"

definition rollback_prepared ::
  "flavor \<Rightarrow> 'db exec \<Rightarrow> string \<Rightarrow> 'db \<Rightarrow> (string option xa_error + resolved) \<times> 'db" where
  "rollback_prepared f exec xid db = resolve f exec xid (rollback_sql f xid) db"

section \<open>The check at start-up\<close>

text \<open>The runs of digits of a version, an overlong one read as zero.\<close>

fun digit_runs :: "string \<Rightarrow> string \<Rightarrow> string list" where
  "digit_runs run [] = (if run = [] then [] else [run])"
| "digit_runs run (c # cs) =
     (if is_digit c then digit_runs (run @ [c]) cs
      else (if run = [] then [] else [run]) @ digit_runs [] cs)"

definition parse_u32_or_0 :: "string \<Rightarrow> nat" where
  "parse_u32_or_0 s = (case dec_val 0 s of None \<Rightarrow> 0 | Some n \<Rightarrow> if n < 2 ^ 32 then n else 0)"

definition mysql_xa_durable :: "string \<Rightarrow> bool" where
  "mysql_xa_durable version =
     (let nums = map parse_u32_or_0 (take 3 (digit_runs [] version))
      in if nums \<noteq> [] \<and> 8 \<le> hd nums then True
         else (case nums of [maj, mnr, patch] \<Rightarrow> maj = 5 \<and> mnr = 7 \<and> 7 \<le> patch | _ \<Rightarrow> False))"

text \<open>\<open>answer\<close> is what \<open>SHOW max_prepared_transactions\<close> or \<open>SELECT VERSION()\<close> gave.\<close>

definition ensure_enabled :: "flavor \<Rightarrow> 'e + string \<Rightarrow> 'e xa_error + int" where
  "ensure_enabled f answer =
     (case answer of
        Inl e \<Rightarrow> Inl (Db_error e)
      | Inr v \<Rightarrow>
          (case f of
             Pg \<Rightarrow> (let n = (case parse_i64 (trim v) of None \<Rightarrow> 0 | Some n \<Rightarrow> n)
                    in if n \<le> 0 then Inl Two_phase_disabled else Inr n)
           | My \<Rightarrow> if mysql_xa_durable v then Inr 1 else Inl Two_phase_disabled))"

section \<open>Transactions left in doubt\<close>

text \<open>
  A row of \<^verbatim>\<open>pg_prepared_xacts\<close> (name and age, if it can be read) or of \<open>XA RECOVER\<close> (the name in the
  column \<open>data\<close> or else the fourth one; the time of the prepare is not given). \<open>answer\<close> is what the
  database answered.
\<close>

record prepared_row =
  pr_gid :: string
  pr_age :: "int option"
  pr_data :: "string option"
  pr_fourth :: "string option"

record prepared_xact =
  px_xid :: string
  px_age_secs :: int

definition list_prepared :: "flavor \<Rightarrow> 'e + prepared_row list \<Rightarrow> 'e xa_error + prepared_xact list" where
  "list_prepared f answer =
     (case answer of
        Inl e \<Rightarrow> Inl (Db_error e)
      | Inr rows \<Rightarrow> Inr (case f of
            Pg \<Rightarrow> map (\<lambda>r. \<lparr>px_xid = pr_gid r,
                px_age_secs = (case pr_age r of None \<Rightarrow> 0 | Some a \<Rightarrow> a)\<rparr>) rows
          | My \<Rightarrow> List.map_filter (\<lambda>r. map_option (\<lambda>x. \<lparr>px_xid = x, px_age_secs = 0\<rparr>)
                (case pr_data r of None \<Rightarrow> pr_fourth r | Some x \<Rightarrow> Some x)) rows))"

definition needs_barrier_table :: bool where
  "needs_barrier_table = False"

section \<open>Properties\<close>

text \<open>
  Whatever the gid and the branch number are, the name made of them passes the check before
  every statement: it fits the database's limit and holds letters, digits, underscore and dash
  only, so it cannot end the SQL literal it is put in.
\<close>

theorem xid_is_safe:
  "check_xid f (xid_for f gid bid) = Inr () \<and> length (xid_for f gid bid) \<le> xid_limit f \<and>
   CHR 0x27 \<notin> set (xid_for f gid bid)"
proof -
  have "\<not> xid_char (CHR 0x27)" by code_simp
  with xid_for_ok [of f gid bid] show ?thesis
    by (auto simp: check_xid_def list_all_iff)
qed

lemma last_split:
  assumes "x @ c # y = x' @ c # y'" "c \<notin> set y" "c \<notin> set y'"
  shows "x = x' \<and> y = y'"
  using assms by (auto simp: append_eq_append_conv2 append_eq_Cons_conv Cons_eq_append_conv)

lemma clean_name_id: "list_all xid_char s \<Longrightarrow> clean_name s = s"
proof -
  assume "list_all xid_char s"
  moreover have "xid_char c \<Longrightarrow> \<not> utf8_cont c" for c
    by (auto simp: xid_char_def is_alnum_def utf8_cont_def Let_def)
  ultimately show "clean_name s = s"
    by (induction s) (auto simp: clean_name_def)
qed

lemma branch_id_chars: "c \<in> set (branch_id i) \<Longrightarrow> is_digit c"
  by (simp add: branch_id_def pad2_digits)

text \<open>
  Two branches whose gids hold only allowed characters, with branch numbers of the driver's
  form and names short enough not to be cut, never share a name.
\<close>

theorem xid_injective:
  assumes "list_all xid_char gid" "list_all xid_char gid'"
    and "is_canonical_branch_id bid" "is_canonical_branch_id bid'"
    and "length gid + length bid + 7 \<le> xid_limit f" "length gid' + length bid' + 7 \<le> xid_limit f"
    and "xid_for f gid bid = xid_for f gid' bid'"
  shows "gid = gid' \<and> bid = bid'"
proof -
  have digits: "list_all xid_char b \<and> CHR ''_'' \<notin> set b" if "is_canonical_branch_id b" for b
  proof -
    from that obtain i where "b = branch_id i" by (auto simp: canonical_iff)
    moreover have "xid_char c \<and> c \<noteq> CHR ''_''" if "is_digit c" for c
      using that by (auto simp: is_digit_def xid_char_def is_alnum_def Let_def)
    ultimately show ?thesis using branch_id_chars by (auto simp: list_all_iff)
  qed
  note bids = digits [OF assms(3)] digits [OF assms(4)]
  have full: "xid_for f g b = ''dtmrs_'' @ g @ CHR ''_'' # b"
    if "list_all xid_char g" "list_all xid_char b" "length g + length b + 7 \<le> xid_limit f" for g b
    using that by (simp add: xid_for_def clean_name_id)
  have "gid @ CHR ''_'' # bid = gid' @ CHR ''_'' # bid'"
    using assms(7) full [OF assms(1) _ assms(5)] full [OF assms(2) _ assms(6)] bids by simp
  with bids show ?thesis by (intro last_split) auto
qed

lemma xid_injective_witness:
  "xid_for My ''order-1'' ''01'' \<noteq> xid_for My ''order-1'' ''02''"
proof
  assume eq: "xid_for My ''order-1'' ''01'' = xid_for My ''order-1'' ''02''"
  have "list_all xid_char ''order-1''" "is_canonical_branch_id ''01''" "is_canonical_branch_id ''02''"
    by code_simp+
  from xid_injective [OF this(1) this(1) this(2,3) _ _ eq] show False by simp
qed

text \<open>
  Other gids can share a name: a point, and every other character that is not allowed, is
  turned into an underscore, so two transactions whose gids differ only there give their
  branches one name in the database and can decide for each other.
\<close>

theorem xids_collide: "\<exists>gid gid'. gid \<noteq> gid' \<and> xid_for f gid ''01'' = xid_for f gid' ''01''"
proof (intro exI conjI)
  show "''order.1'' \<noteq> ''order_1''" by simp
  have "clean_name ''order.1'' = clean_name ''order_1''" by code_simp
  then show "xid_for f ''order.1'' ''01'' = xid_for f ''order_1'' ''01''" by (simp add: xid_for_def)
qed

end
