(* ===== verification/Auth.thy ===== *)
theory Auth
  imports Sql_Laws "HOL-Library.Word"
begin

unbundle bit_operations_syntax

text \<open>
  Access control (\<^verbatim>\<open>crates/dtmrs-server/src/auth.rs\<close>): a login with sessions for people, a static
  token and managed tokens for services, the guard in front of every route and the management
  of tokens. SHA-256, AES-GCM and the random generator are parameters; instants are seconds.
  A token that is used is noted in the store by a detached task, here the last component of
  what the guard returns.
\<close>

definition session_ttl :: int where "session_ttl = 12 * 3600"
definition cookie_name :: string where "cookie_name = ''dtmrs_session''"
definition token_cache_ttl :: int where "token_cache_ttl = 10"

section \<open>Constant-time comparison\<close>

text \<open>\<open>a.get(i).copied().unwrap_or(d)\<close> on bytes.\<close>

definition byte_or :: "nat \<Rightarrow> string \<Rightarrow> nat \<Rightarrow> nat" where
  "byte_or d s i = (if i < length s then of_char (s ! i) else d)"

definition ct_diff :: "string \<Rightarrow> string \<Rightarrow> nat \<Rightarrow> nat" where
  "ct_diff a b diff =
     fold (\<lambda>i diff. diff OR (byte_or 0 a i XOR byte_or 1 b i)) [0..<max (length a) (length b)] diff"

definition ct_eq :: "string \<Rightarrow> string \<Rightarrow> bool" where
  "ct_eq presented expected \<longleftrightarrow> ct_diff presented expected (length presented XOR length expected) = 0"

section \<open>Hashes\<close>

definition hex :: "nat list \<Rightarrow> string" where
  "hex bs = concat (map (\<lambda>b. [hex_digit (b div 16), hex_digit (b mod 16)]) bs)"

text \<open>\<open>sha\<close> is SHA-256.\<close>

definition hash_token :: "(string \<Rightarrow> nat list) \<Rightarrow> string \<Rightarrow> string" where
  "hash_token sha raw = hex (sha raw)"

section \<open>State\<close>

record auth =
  au_user :: string
  au_password :: string
  au_token :: string
  au_sessions :: "string \<Rightarrow> int option"
  au_managed :: "string list \<times> int"
  au_has_store :: bool

definition auth_from_env :: "(string \<Rightarrow> string option) \<Rightarrow> int \<Rightarrow> auth option" where
  "auth_from_env env t =
     (let or_empty = (\<lambda>k. case env k of None \<Rightarrow> [] | Some v \<Rightarrow> v);
          password = or_empty ''DTMRS_ADMIN_PASSWORD''; token = or_empty ''DTMRS_AUTH_TOKEN''
      in if password = [] \<and> token = [] then None
         else Some \<lparr>au_user = (case env ''DTMRS_ADMIN_USER'' of None \<Rightarrow> ''admin'' | Some u \<Rightarrow> u),
           au_password = password, au_token = token, au_sessions = (\<lambda>_. None),
           au_managed = ([], t - token_cache_ttl * 2), au_has_store = False\<rparr>)"

definition with_store :: "auth \<Rightarrow> auth" where
  "with_store a = a\<lparr>au_has_store := True\<rparr>"

text \<open>Whether a managed token is accepted, the refreshed cache, and the use to note.\<close>

definition managed_ok ::
  "(string \<Rightarrow> nat list) \<Rightarrow> store \<Rightarrow> int \<Rightarrow> string \<Rightarrow> string \<Rightarrow> auth \<Rightarrow> bool \<times> auth \<times> (string \<times> string) option" where
  "managed_ok sha s t presented ip a =
     (if \<not> au_has_store a then (False, a, None)
      else
        (let h = hash_token sha presented;
             a = (if token_cache_ttl \<le> t - snd (au_managed a)
                  then a\<lparr>au_managed := (active_token_hashes s, t)\<rparr> else a);
             hit = h \<in> set (fst (au_managed a))
         in (hit, a, if hit then Some (h, ip) else None)))"

definition invalidate_cache :: "int \<Rightarrow> auth \<Rightarrow> auth" where
  "invalidate_cache t a = a\<lparr>au_managed := (fst (au_managed a), t - token_cache_ttl * 2)\<rparr>"

definition has_login :: "auth \<Rightarrow> bool" where
  "has_login a \<longleftrightarrow> au_password a \<noteq> []"

definition token_ok :: "string \<Rightarrow> auth \<Rightarrow> bool" where
  "token_ok presented a \<longleftrightarrow> au_token a \<noteq> [] \<and> ct_eq presented (au_token a)"

definition bearer :: "string \<Rightarrow> string option" where
  "bearer v =
     map_option trim
       (case strip_prefix ''Bearer '' (trim v) of
          Some r \<Rightarrow> Some r
        | None \<Rightarrow> strip_prefix ''bearer '' (trim v))"

definition matches :: "string \<Rightarrow> string \<Rightarrow> auth \<Rightarrow> bool" where
  "matches user password a \<longleftrightarrow>
     ct_diff password (au_password a)
       (ct_diff user (au_user a)
         ((length user XOR length (au_user a)) OR (length password XOR length (au_password a)))) = 0"

definition issue :: "string \<Rightarrow> int \<Rightarrow> auth \<Rightarrow> auth" where
  "issue token t a =
     a\<lparr>au_sessions :=
        (\<lambda>k. case au_sessions a k of None \<Rightarrow> None | Some e \<Rightarrow> if t < e then Some e else None)
          (token \<mapsto> t + session_ttl)\<rparr>"

definition valid :: "string \<Rightarrow> int \<Rightarrow> auth \<Rightarrow> bool \<times> auth" where
  "valid token t a =
     (case au_sessions a token of
        None \<Rightarrow> (False, a)
      | Some e \<Rightarrow> if t < e then (True, a) else (False, a\<lparr>au_sessions := (au_sessions a)(token := None)\<rparr>))"

definition revoke :: "string \<Rightarrow> auth \<Rightarrow> auth" where
  "revoke token a = a\<lparr>au_sessions := (au_sessions a)(token := None)\<rparr>"

section \<open>Requests\<close>

text \<open>A header that is missing or not text is \<open>None\<close>.\<close>

record request_head =
  hd_path :: string
  hd_authorization :: "string option"
  hd_cookie :: "string option"
  hd_accept :: "string option"
  hd_forwarded_for :: "string option"
  hd_forwarded_proto :: "string option"

definition client_ip :: "request_head \<Rightarrow> string" where
  "client_ip r =
     (case hd_forwarded_for r of None \<Rightarrow> ''-'' | Some v \<Rightarrow> trim (hd (split_on (CHR '','') v)))"

definition cookie_of :: "request_head \<Rightarrow> string option" where
  "cookie_of r =
     (case hd_cookie r of
        None \<Rightarrow> None
      | Some v \<Rightarrow>
          map_option (\<lambda>kv. trim (snd kv))
            (find (\<lambda>kv. trim (fst kv) = cookie_name)
              (List.map_filter (split_once (CHR ''='')) (split_on (CHR '';'') v))))"

definition is_https :: "request_head \<Rightarrow> bool" where
  "is_https r \<longleftrightarrow>
     (case hd_forwarded_proto r of None \<Rightarrow> False | Some v \<Rightarrow> to_ascii_lowercase v = ''https'')"

datatype guard_verdict = Passed | To_login | Unauthorized

definition session_of :: "request_head \<Rightarrow> int \<Rightarrow> auth \<Rightarrow> bool \<times> auth" where
  "session_of r t a = (case cookie_of r of None \<Rightarrow> (False, a) | Some c \<Rightarrow> valid c t a)"

definition guard ::
  "(string \<Rightarrow> nat list) \<Rightarrow> store \<Rightarrow> int \<Rightarrow> request_head \<Rightarrow> auth \<Rightarrow>
   guard_verdict \<times> auth \<times> (string \<times> string) option" where
  "guard sha s t r a =
     (if hd_path r = ''/health'' \<or> hd_path r = ''/login'' \<or> hd_path r = ''/logout'' then (Passed, a, None)
      else
        (let presented = (case hd_authorization r of None \<Rightarrow> None | Some v \<Rightarrow> bearer v);
             (ok, a, note) = (case presented of
               None \<Rightarrow> (False, a, None)
             | Some p \<Rightarrow> if token_ok p a then (True, a, None)
                         else managed_ok sha s t p (client_ip r) a)
         in if ok then (Passed, a, note)
            else (let (ok, a) = session_of r t a
                  in (if ok then Passed
                      else if (case hd_accept r of None \<Rightarrow> False | Some v \<Rightarrow> sublist ''text/html'' v) then To_login
                      else Unauthorized, a, note))))"

text \<open>\<open>login_submit\<close>: the session cookie of a correct login, with \<open>token\<close> the random one.\<close>

definition login_submit ::
  "string \<Rightarrow> int \<Rightarrow> request_head \<Rightarrow> string \<Rightarrow> string \<Rightarrow> auth \<Rightarrow> string option \<times> auth" where
  "login_submit token t r user password a =
     (if \<not> has_login a \<or> \<not> matches user password a then (None, a)
      else (Some (cookie_name @ ''='' @ token @ ''; Path=/; HttpOnly; SameSite=Lax; Max-Age=''
                  @ dec (nat session_ttl) @ (if is_https r then ''; Secure'' else [])),
            issue token t a))"

definition logout :: "request_head \<Rightarrow> auth \<Rightarrow> auth" where
  "logout r a = (case cookie_of r of None \<Rightarrow> a | Some c \<Rightarrow> revoke c a)"

section \<open>Secrets at rest\<close>

text \<open>\<open>char::to_digit(16)\<close> and \<open>u8::from_str_radix\<close> on two bytes: a leading \<open>+\<close> is read.\<close>

definition to_digit16 :: "char \<Rightarrow> nat option" where
  "to_digit16 c =
     (let n = of_char c :: nat
      in if 48 \<le> n \<and> n \<le> 57 then Some (n - 48)
         else if 97 \<le> n \<and> n \<le> 102 then Some (n - 87)
         else if 65 \<le> n \<and> n \<le> 70 then Some (n - 55) else None)"

definition from_hex2 :: "char \<Rightarrow> char \<Rightarrow> nat option" where
  "from_hex2 c d =
     (if c = CHR ''+'' then to_digit16 d
      else (case (to_digit16 c, to_digit16 d) of (Some x, Some y) \<Rightarrow> Some (16 * x + y) | _ \<Rightarrow> None))"

text \<open>
  \<open>unhex\<close>, for text whose characters are single bytes (the slices of the code panic inside a
  longer character; the column holds what \<open>seal_token\<close> wrote).
\<close>

fun unhex :: "string \<Rightarrow> nat list option" where
  "unhex [] = Some []"
| "unhex [c] = None"
| "unhex (c # d # cs) =
     (case (from_hex2 c d, unhex cs) of (Some b, Some bs) \<Rightarrow> Some (b # bs) | _ \<Rightarrow> None)"

text \<open>The key: \<open>DTMRS_TOKEN_KEY\<close>, unless it is missing or empty, through SHA-256.\<close>

definition token_key :: "(string \<Rightarrow> 'key) \<Rightarrow> (string \<Rightarrow> string option) \<Rightarrow> 'key option" where
  "token_key derive env =
     (case env ''DTMRS_TOKEN_KEY'' of
        None \<Rightarrow> None
      | Some raw \<Rightarrow> if raw = [] then None else Some (derive raw))"

definition nonce_len :: nat where "nonce_len = 12"

definition seal_token ::
  "('key \<Rightarrow> nat list \<Rightarrow> nat list \<Rightarrow> nat list option) \<Rightarrow> 'key option \<Rightarrow> nat list \<Rightarrow> string \<Rightarrow> string" where
  "seal_token seal key nonce plain =
     (case key of
        None \<Rightarrow> []
      | Some key \<Rightarrow>
          (case seal key nonce (map of_char plain) of
             None \<Rightarrow> []
           | Some buf \<Rightarrow> hex nonce @ hex buf))"

text \<open>\<open>text\<close> is \<open>String::from_utf8\<close>.\<close>

definition open_token ::
  "('key \<Rightarrow> nat list \<Rightarrow> nat list \<Rightarrow> nat list option) \<Rightarrow> (nat list \<Rightarrow> string option) \<Rightarrow>
   'key option \<Rightarrow> string \<Rightarrow> string option" where
  "open_token open_aead from_utf8 key sealed =
     (if sealed = [] then None
      else (case key of
        None \<Rightarrow> None
      | Some key \<Rightarrow>
          (case unhex sealed of
             None \<Rightarrow> None
           | Some raw \<Rightarrow>
               if length raw \<le> nonce_len then None
               else (case open_aead key (take nonce_len raw) (drop nonce_len raw) of
                       None \<Rightarrow> None
                     | Some plain \<Rightarrow> from_utf8 plain))))"

section \<open>Managing tokens\<close>

record token_view =
  tkv_id :: string
  tkv_name :: string
  tkv_create_time :: int
  tkv_last_used :: int
  tkv_use_count :: int
  tkv_last_ip :: string
  tkv_revoked :: int
  tkv_revealable :: bool

definition token_view_of :: "token_row \<Rightarrow> token_view" where
  "token_view_of k =
     \<lparr>tkv_id = take_chars 12 (k_hash k), tkv_name = k_name k, tkv_create_time = k_create_time k,
      tkv_last_used = k_last_used k, tkv_use_count = k_use_count k, tkv_last_ip = k_last_ip k,
      tkv_revoked = k_revoked k, tkv_revealable = (k_secret k \<noteq> [])\<rparr>"

datatype token_answer =
    Forbidden
  | Tokens "token_view list"
  | Created string string
  | Token_store_error store_error
  | Bad_token_id
  | No_such_token
  | Revoked bool
  | Plain string
  | Gone

definition require_session :: "request_head \<Rightarrow> int \<Rightarrow> auth \<Rightarrow> bool \<times> auth" where
  "require_session r t a = session_of r t a"

definition tokens_list :: "store \<Rightarrow> int \<Rightarrow> request_head \<Rightarrow> auth \<Rightarrow> token_answer \<times> auth" where
  "tokens_list s t r a =
     (let (ok, a) = require_session r t a
      in (if ok then Tokens (map token_view_of (list_tokens s)) else Forbidden, a))"

text \<open>The name of a token given none.\<close>

definition unnamed :: string where
  "unnamed = utf8 [0xE6, 0x9C, 0xAA, 0xE5, 0x91, 0xBD, 0xE5, 0x90, 0x8D]"

text \<open>
  \<open>body\<close> is what serde reads from the request, \<open>raw\<close> the 24 random bytes, \<open>seal\<close> the sealing
  under the configured key.
\<close>

definition tokens_create ::
  "(string \<Rightarrow> nat list) \<Rightarrow> (string \<Rightarrow> string) \<Rightarrow> nat list \<Rightarrow> string option \<Rightarrow> int \<Rightarrow> request_head \<Rightarrow>
   auth \<times> store \<Rightarrow> token_answer \<times> auth \<times> store" where
  "tokens_create sha seal raw body t r w =
     (let (a, s) = w; (ok, a) = require_session r t a
      in if \<not> ok then (Forbidden, a, s)
         else
           (let name = (case body of None \<Rightarrow> [] | Some n \<Rightarrow> n);
                name = (if trim name = [] then unnamed else trim name);
                token = hex raw
            in case create_token (hash_token sha token) name (seal token) s of
                 (Inr _, s) \<Rightarrow> (Created token name, invalidate_cache t a, s)
               | (Inl e, s) \<Rightarrow> (Token_store_error e, a, s)))"

definition find_token :: "string \<Rightarrow> store \<Rightarrow> token_row option" where
  "find_token ident s = find (\<lambda>k. prefix ident (k_hash k)) (list_tokens s)"

definition tokens_revoke ::
  "string option \<Rightarrow> int \<Rightarrow> request_head \<Rightarrow> auth \<times> store \<Rightarrow> token_answer \<times> auth \<times> store" where
  "tokens_revoke body t r w =
     (let (a, s) = w; (ok, a) = require_session r t a
      in if \<not> ok then (Forbidden, a, s)
         else case body of
           None \<Rightarrow> (Bad_token_id, a, s)
         | Some ident \<Rightarrow>
             (case find_token ident s of
                None \<Rightarrow> (No_such_token, a, s)
              | Some k \<Rightarrow>
                  (let (gone, s) = revoke_token (k_hash k) s
                   in (Revoked gone, invalidate_cache t a, s))))"

definition tokens_reveal ::
  "(string \<Rightarrow> string option) \<Rightarrow> string option \<Rightarrow> store \<Rightarrow> int \<Rightarrow> request_head \<Rightarrow> auth \<Rightarrow>
   token_answer \<times> auth" where
  "tokens_reveal unseal body s t r a =
     (let (ok, a) = require_session r t a
      in if \<not> ok then (Forbidden, a)
         else (case body of
           None \<Rightarrow> Bad_token_id
         | Some ident \<Rightarrow>
             (case find_token ident s of
                None \<Rightarrow> No_such_token
              | Some k \<Rightarrow> (case unseal (k_secret k) of Some plain \<Rightarrow> Plain plain | None \<Rightarrow> Gone)), a))"

end
