(* ===== verification/Auth_Laws.thy ===== *)
theory Auth_Laws
  imports Auth
begin

text \<open>
  What access control promises: the comparison decides equality, the guard lets through exactly
  whom it should, tokens are managed by sessions only, a revoked token stops working, and a
  sealed token can be opened again.
\<close>

section \<open>The comparison decides equality\<close>

lemma or_eq_0_iff_nat: "a OR b = 0 \<longleftrightarrow> a = 0 \<and> b = (0 :: nat)"
  by (auto simp: bit_eq_iff bit_simps)

lemma xor_eq_0_iff_nat: "a XOR b = 0 \<longleftrightarrow> a = (b :: nat)"
  by (auto simp: bit_eq_iff bit_simps)

lemma fold_or_eq_0: "fold (\<lambda>i d. d OR f i) is d = 0 \<longleftrightarrow> d = 0 \<and> (\<forall>i\<in>set is. f i = (0 :: nat))"
  by (induction "is" arbitrary: d) (auto simp: or_eq_0_iff_nat)

lemma ct_diff_eq_0:
  assumes "length a = length b"
  shows "ct_diff a b d = 0 \<longleftrightarrow> d = 0 \<and> a = b"
proof -
  have "ct_diff a b d = 0 \<longleftrightarrow> d = 0 \<and> (\<forall>i<length a. byte_or 0 a i XOR byte_or 1 b i = 0)"
    using assms by (simp only: ct_diff_def fold_or_eq_0) (simp add: Ball_def)
  also have "\<dots> \<longleftrightarrow> d = 0 \<and> (\<forall>i<length a. a ! i = b ! i)"
    using assms by (simp only: xor_eq_0_iff_nat) (simp add: byte_or_def)
  finally show ?thesis using assms by (metis list_eq_iff_nth_eq)
qed

lemma ct_diff_start: "ct_diff a b d = 0 \<Longrightarrow> d = 0"
  by (simp add: ct_diff_def fold_or_eq_0)

lemma ct_eq_iff: "ct_eq a b \<longleftrightarrow> a = b"
proof -
  have "length a = length b" if "ct_diff a b (length a XOR length b) = 0"
    using ct_diff_start [OF that] by (simp add: xor_eq_0_iff_nat)
  then show ?thesis
    by (auto simp: ct_eq_def ct_diff_eq_0)
qed

lemma matches_iff: "matches u p a \<longleftrightarrow> u = au_user a \<and> p = au_password a"
proof
  assume "matches u p a"
  then have m: "ct_diff p (au_password a) (ct_diff u (au_user a)
      ((length u XOR length (au_user a)) OR (length p XOR length (au_password a)))) = 0"
    by (simp add: matches_def)
  from ct_diff_start [OF ct_diff_start [OF m]]
  have "length u = length (au_user a)" "length p = length (au_password a)"
    by (auto simp: or_eq_0_iff_nat xor_eq_0_iff_nat)
  with m show "u = au_user a \<and> p = au_password a" by (simp add: ct_diff_eq_0)
qed (simp add: matches_def ct_diff_eq_0)

section \<open>Hexadecimal text\<close>

lemma hex_Nil [simp]: "hex [] = []" by (simp add: hex_def)

lemma hex_Cons [simp]: "hex (b # bs) = hex_digit (b div 16) # hex_digit (b mod 16) # hex bs"
  by (simp add: hex_def)

lemma hex_append: "hex (as @ bs) = hex as @ hex bs"
  by (simp add: hex_def)

lemma of_char_hex_digit: "d < 16 \<Longrightarrow> of_char (hex_digit d) = (if d < 10 then 48 + d else 87 + d :: nat)"
  by (simp add: hex_digit_def)

lemma to_digit16_hex_digit: "d < 16 \<Longrightarrow> to_digit16 (hex_digit d) = Some d"
  by (auto simp: to_digit16_def of_char_hex_digit)

lemma hex_digit_not_plus: "d < 16 \<Longrightarrow> hex_digit d \<noteq> CHR ''+''"
proof
  assume "d < 16" "hex_digit d = CHR ''+''"
  then have "of_char (CHR ''+'') = (if d < 10 then 48 + d else 87 + d :: nat)"
    by (metis of_char_hex_digit)
  then show False by (simp split: if_splits)
qed

lemma from_hex2_digits: "b < 256 \<Longrightarrow> from_hex2 (hex_digit (b div 16)) (hex_digit (b mod 16)) = Some b"
  by (simp add: from_hex2_def hex_digit_not_plus to_digit16_hex_digit)

lemma unhex_hex: "\<forall>b\<in>set bs. b < 256 \<Longrightarrow> unhex (hex bs) = Some bs"
  by (induction bs) (auto simp: from_hex2_digits)

section \<open>Whom the guard lets through\<close>

definition presented :: "request_head \<Rightarrow> string option" where
  "presented r = (case hd_authorization r of None \<Rightarrow> None | Some v \<Rightarrow> bearer v)"

definition public_path :: "string \<Rightarrow> bool" where
  "public_path p \<longleftrightarrow> p = ''/health'' \<or> p = ''/login'' \<or> p = ''/logout''"

definition live_session :: "request_head \<Rightarrow> int \<Rightarrow> auth \<Rightarrow> bool" where
  "live_session r t a \<longleftrightarrow>
     (case cookie_of r of
        None \<Rightarrow> False
      | Some c \<Rightarrow> (case au_sessions a c of None \<Rightarrow> False | Some e \<Rightarrow> t < e))"

text \<open>The hashes in force: those of the last refresh, or the store's when that was ten seconds ago.\<close>

definition hashes_in_force :: "store \<Rightarrow> int \<Rightarrow> auth \<Rightarrow> string list" where
  "hashes_in_force s t a =
     (if token_cache_ttl \<le> t - snd (au_managed a) then active_token_hashes s else fst (au_managed a))"

definition token_in_force :: "(string \<Rightarrow> nat list) \<Rightarrow> store \<Rightarrow> int \<Rightarrow> string \<Rightarrow> auth \<Rightarrow> bool" where
  "token_in_force sha s t p a \<longleftrightarrow>
     au_token a \<noteq> [] \<and> p = au_token a \<or>
     au_has_store a \<and> hash_token sha p \<in> set (hashes_in_force s t a)"

lemma fst_session_of: "fst (session_of r t a) = live_session r t a"
  by (auto simp: session_of_def live_session_def valid_def split: option.splits)

lemma fst_managed_ok:
  "fst (managed_ok sha s t p ip a) \<longleftrightarrow>
     au_has_store a \<and> hash_token sha p \<in> set (hashes_in_force s t a)"
  by (auto simp: managed_ok_def hashes_in_force_def Let_def)

lemma managed_ok_state:
  "fst (snd (managed_ok sha s t p ip a)) =
     (if au_has_store a \<and> token_cache_ttl \<le> t - snd (au_managed a)
      then a\<lparr>au_managed := (active_token_hashes s, t)\<rparr> else a)"
  by (simp add: managed_ok_def Let_def)

lemma live_session_managed [simp]: "live_session r t (a\<lparr>au_managed := m\<rparr>) = live_session r t a"
  by (auto simp: live_session_def split: option.splits)

lemma live_session_after_check [simp]:
  "live_session r t (fst (snd (managed_ok sha s t p ip a))) = live_session r t a"
  by (simp add: managed_ok_state)

lemma guard_cases:
  obtains (public) "public_path (hd_path r)" "guard sha s t r a = (Passed, a, None)"
  | (token) p n where "\<not> public_path (hd_path r)" "presented r = Some p" "token_in_force sha s t p a"
      "guard sha s t r a = (Passed, if token_ok p a then a else fst (snd (managed_ok sha s t p (client_ip r) a)), n)"
  | (rest) a' where "\<not> public_path (hd_path r)"
      "\<And>p. presented r = Some p \<Longrightarrow> \<not> token_in_force sha s t p a"
      "a' = (case presented r of None \<Rightarrow> a | Some p \<Rightarrow> fst (snd (managed_ok sha s t p (client_ip r) a)))"
      "fst (guard sha s t r a) = Passed \<longleftrightarrow> live_session r t a"
      "fst (snd (guard sha s t r a)) = snd (session_of r t a')"
proof -
  show ?thesis
  proof (cases "public_path (hd_path r)")
    case True
    then show ?thesis using public by (auto simp: guard_def public_path_def)
  next
    case priv: False
    show ?thesis
    proof (cases "presented r")
      case None
      then have "guard sha s t r a =
        (if fst (session_of r t a) then Passed
         else if (case hd_accept r of None \<Rightarrow> False | Some v \<Rightarrow> sublist ''text/html'' v) then To_login
         else Unauthorized, snd (session_of r t a), None)"
        using priv by (auto simp: guard_def public_path_def presented_def Let_def split_beta)
      with None priv show ?thesis by (intro rest) (auto simp: fst_session_of)
    next
      case (Some p)
      let ?m = "managed_ok sha s t p (client_ip r) a"
      have g: "guard sha s t r a =
        (if token_ok p a then (Passed, a, None)
         else if fst ?m then (Passed, fst (snd ?m), snd (snd ?m))
         else (if fst (session_of r t (fst (snd ?m))) then Passed
               else if (case hd_accept r of None \<Rightarrow> False | Some v \<Rightarrow> sublist ''text/html'' v) then To_login
               else Unauthorized, snd (session_of r t (fst (snd ?m))), snd (snd ?m)))"
        using priv Some by (auto simp: guard_def public_path_def presented_def Let_def split_beta)
      have t: "token_in_force sha s t p a \<longleftrightarrow> token_ok p a \<or> fst ?m"
        by (auto simp: token_in_force_def token_ok_def ct_eq_iff fst_managed_ok)
      show ?thesis
      proof (cases "token_in_force sha s t p a")
        case True
        with g t have "guard sha s t r a = (Passed, if token_ok p a then a else fst (snd ?m),
            if token_ok p a then None else snd (snd ?m))" by auto
        then show ?thesis by (rule token [OF priv Some True])
      next
        case False
        with g t Some priv show ?thesis by (intro rest) (auto simp: fst_session_of)
      qed
    qed
  qed
qed

lemma guard_passed_iff:
  "fst (guard sha s t r a) = Passed \<longleftrightarrow>
     public_path (hd_path r) \<or> (\<exists>p. presented r = Some p \<and> token_in_force sha s t p a) \<or>
     live_session r t a"
  by (cases rule: guard_cases [of r sha s t a]) auto

section \<open>Histories of one instance\<close>

text \<open>
  What happens to an instance and to the store it shares with the others: requests, logins and
  the management of tokens here, and the same operations on the table of tokens elsewhere (also
  the detached note that a token was used). The first component is the monotonic clock.
\<close>

type_synonym auth_world = "int \<times> auth \<times> store"

inductive auth_step :: "(string \<Rightarrow> nat list) \<Rightarrow> auth_world \<Rightarrow> auth_world \<Rightarrow> bool" for sha where
  asked: "t \<le> t' \<Longrightarrow> auth_step sha (t, a, s) (t', fst (snd (guard sha s t' r a)), s)"
| logged_in: "t \<le> t' \<Longrightarrow> auth_step sha (t, a, s) (t', snd (login_submit token t' r u p a), s)"
| logged_out: "t \<le> t' \<Longrightarrow> auth_step sha (t, a, s) (t', logout r a, s)"
| listed: "t \<le> t' \<Longrightarrow> auth_step sha (t, a, s) (t', snd (tokens_list s t' r a), s)"
| created: "t \<le> t' \<Longrightarrow> auth_step sha (t, a, s) (t', snd (tokens_create sha seal raw body t' r (a, s)))"
| revoked: "t \<le> t' \<Longrightarrow> auth_step sha (t, a, s) (t', snd (tokens_revoke body t' r (a, s)))"
| revealed: "t \<le> t' \<Longrightarrow> auth_step sha (t, a, s) (t', snd (tokens_reveal unseal body s t' r a), s)"
| created_elsewhere: "auth_step sha (t, a, s) (t, a, snd (create_token h n c s))"
| revoked_elsewhere: "auth_step sha (t, a, s) (t, a, snd (revoke_token h s))"
| used: "auth_step sha (t, a, s) (t, a, touch_token h ip s)"
| wall_clock: "auth_step sha (t, a, s) (t, a, s\<lparr>st_clock := c\<rparr>)"

definition dead_hash :: "string \<Rightarrow> store \<Rightarrow> bool" where
  "dead_hash h s \<longleftrightarrow>
     h \<in> k_hash ` set (st_token s) \<and> (\<forall>k\<in>set (st_token s). k_hash k = h \<longrightarrow> k_revoked k \<noteq> 0)"

lemma dead_hash_inactive: "dead_hash h s \<Longrightarrow> h \<notin> set (active_token_hashes s)"
  by (auto simp: dead_hash_def active_token_hashes_def)

lemma dead_hash_create: "dead_hash h s \<Longrightarrow> dead_hash h (snd (create_token h' n c s))"
  by (auto simp: dead_hash_def create_token_def split: sum.splits)

lemma dead_hash_map:
  assumes "dead_hash h s" "st_token s' = map f (st_token s)"
    and "\<And>k. k_hash (f k) = k_hash k" "\<And>k. k_revoked k \<noteq> 0 \<Longrightarrow> k_revoked (f k) \<noteq> 0"
  shows "dead_hash h s'"
  using assms by (auto simp: dead_hash_def image_image)

lemma dead_hash_revoke: "dead_hash h s \<Longrightarrow> dead_hash h (snd (revoke_token h' s))"
  by (rule dead_hash_map [where f = "\<lambda>k. if k_hash k = h' \<and> k_revoked k = 0 then k\<lparr>k_revoked := now s\<rparr> else k"])
    (simp_all add: revoke_token_def update_where_def)

lemma dead_hash_touch: "dead_hash h s \<Longrightarrow> dead_hash h (touch_token h' ip s)"
  by (rule dead_hash_map [where f = "\<lambda>k. if k_hash k = h'
        then k\<lparr>k_last_used := now s, k_use_count := k_use_count k + 1, k_last_ip := ip\<rparr> else k"])
    (simp_all add: touch_token_def update_where_def)

lemma dead_hash_clock: "dead_hash h (s\<lparr>st_clock := c\<rparr>) = dead_hash h s"
  by (simp add: dead_hash_def)

lemma revoking_kills:
  assumes "k \<in> set (st_token s)" "now s \<noteq> 0"
  shows "dead_hash (k_hash k) (snd (revoke_token (k_hash k) s))"
proof -
  let ?f = "\<lambda>r. if k_hash r = k_hash k \<and> k_revoked r = 0 then r\<lparr>k_revoked := now s\<rparr> else r"
  have rows: "st_token (snd (revoke_token (k_hash k) s)) = map ?f (st_token s)"
    by (simp add: revoke_token_def update_where_def)
  have "k_hash k = k_hash (?f k)" by simp
  then have "k_hash k \<in> k_hash ` ?f ` set (st_token s)"
    by (rule rev_image_eqI [OF imageI [OF assms(1)]])
  moreover have "k_revoked (?f r) \<noteq> 0" if "k_hash (?f r) = k_hash k" for r
    using that assms(2) by (cases "k_hash r = k_hash k \<and> k_revoked r = 0") auto
  ultimately show ?thesis unfolding dead_hash_def rows set_map by blast
qed

text \<open>
  An instance that still knows a dead hash learnt it before \<open>t0\<close>, or is about to refresh.
\<close>

definition forgetting :: "string \<Rightarrow> int \<Rightarrow> auth_world \<Rightarrow> bool" where
  "forgetting h t0 w \<longleftrightarrow>
     (case w of (t, a, s) \<Rightarrow> dead_hash h s \<and>
        (h \<notin> set (fst (au_managed a)) \<or> snd (au_managed a) \<le> t0
         \<or> snd (au_managed a) + 2 * token_cache_ttl \<le> t))"

lemma session_of_managed: "au_managed (snd (session_of r t a)) = au_managed a"
  by (auto simp: session_of_def valid_def split: option.splits)

lemma forgetting_managed:
  assumes "forgetting h t0 (t, a, s)" "t \<le> t'" "au_managed a' = au_managed a"
  shows "forgetting h t0 (t', a', s)"
  using assms by (auto simp: forgetting_def)

lemma forgetting_invalidated:
  "dead_hash h s \<Longrightarrow> forgetting h t0 (t, invalidate_cache t a, s)"
  by (simp add: forgetting_def invalidate_cache_def)

lemma forgetting_check:
  assumes "forgetting h t0 (t, a, s)" "t \<le> t'"
  shows "forgetting h t0 (t', fst (snd (managed_ok sha s t' p ip a)), s)"
  using assms dead_hash_inactive [of h s] by (auto simp: forgetting_def managed_ok_state)

lemma forgetting_guard:
  assumes "forgetting h t0 (t, a, s)" "t \<le> t'"
  shows "forgetting h t0 (t', fst (snd (guard sha s t' r a)), s)"
proof (cases rule: guard_cases [of r sha s t' a])
  case public
  with assms show ?thesis by (simp add: forgetting_managed)
next
  case (token p n)
  with assms forgetting_check [OF assms] show ?thesis by (simp add: forgetting_managed)
next
  case (rest a')
  have "forgetting h t0 (t', a', s)"
    using rest(3) assms forgetting_check [OF assms] by (auto simp: forgetting_managed split: option.splits)
  with rest(5) show ?thesis by (auto intro: forgetting_managed simp: session_of_managed)
qed

lemma managed_simps:
  "au_managed (snd (login_submit token t r u p a)) = au_managed a"
  "au_managed (logout r a) = au_managed a"
  "au_managed (snd (tokens_list s t r a)) = au_managed a"
  "au_managed (snd (tokens_reveal unseal body s t r a)) = au_managed a"
  by (auto simp: login_submit_def issue_def logout_def revoke_def tokens_list_def tokens_reveal_def
      require_session_def session_of_managed split_beta Let_def split: option.splits)

lemma forgetting_step:
  assumes "auth_step sha w w'" "forgetting h t0 w"
  shows "forgetting h t0 w'"
  using assms
proof (cases rule: auth_step.cases)
  case (asked t t' a s r)
  with assms forgetting_guard [of h t0 t a s t' sha r] show ?thesis by simp
next
  case (created t t' a s seal raw body r)
  obtain ok a1 where a1: "require_session r t' a = (ok, a1)" by fastforce
  then have m: "au_managed a1 = au_managed a" by (metis require_session_def session_of_managed snd_conv)
  have f: "forgetting h t0 (t, a, s)" using assms created by simp
  let ?name = "case body of None \<Rightarrow> [] | Some n \<Rightarrow> n"
  let ?c = "create_token (hash_token sha (hex raw)) (if trim ?name = [] then unnamed else trim ?name)
    (seal (hex raw)) s"
  have e: "create_token hh nn cc s = (Inl err, s2) \<Longrightarrow> s2 = s" for hh nn cc err s2
    by (auto simp: create_token_def split: sum.splits if_splits)
  have d: "dead_hash h (snd ?c)" using f by (intro dead_hash_create) (simp add: forgetting_def)
  have "forgetting h t0 (t', snd (tokens_create sha seal raw body t' r (a, s)))"
  proof (cases ok)
    case False
    with a1 m created(3) f show ?thesis by (simp add: tokens_create_def forgetting_managed)
  next
    case True
    show ?thesis
    proof (cases ?c)
      case (Pair x s2)
      with True a1 m created(3) f d e show ?thesis
        by (cases x) (auto simp: tokens_create_def Let_def forgetting_invalidated
            intro: forgetting_managed dest!: e)
    qed
  qed
  with created show ?thesis by simp
next
  case (revoked t t' a s body r)
  obtain ok a1 where a1: "require_session r t' a = (ok, a1)" by fastforce
  then have m: "au_managed a1 = au_managed a" by (metis require_session_def session_of_managed snd_conv)
  have f: "forgetting h t0 (t, a, s)" using assms revoked by simp
  then have "dead_hash h s" by (simp add: forgetting_def)
  then have "forgetting h t0 (t', snd (tokens_revoke body t' r (a, s)))"
    using a1 m revoked(3) f
    by (auto simp: tokens_revoke_def Let_def split_beta forgetting_managed forgetting_invalidated
        dead_hash_revoke split: option.splits)
  with revoked show ?thesis by simp
qed (auto simp: forgetting_guard managed_simps forgetting_def dead_hash_create dead_hash_revoke
    dead_hash_touch dead_hash_clock intro: forgetting_managed)

lemma forgetting_history:
  assumes "(auth_step sha)\<^sup>*\<^sup>* w w'" "forgetting h t0 w"
  shows "forgetting h t0 w'"
  using assms by (induction rule: rtranclp_induct) (auto intro: forgetting_step)

text \<open>A dead token is not in force ten seconds later, nor after a refresh.\<close>

lemma dead_token_not_in_force:
  assumes "forgetting (hash_token sha p) t0 (t, a, s)" "t \<le> t'" "t0 + token_cache_ttl \<le> t'"
    and "p \<noteq> au_token a"
  shows "\<not> token_in_force sha s t' p a"
  using assms dead_hash_inactive [of "hash_token sha p" s]
  by (auto simp: forgetting_def token_in_force_def hashes_in_force_def token_cache_ttl_def)

section \<open>Properties\<close>

text \<open>
  The guard lets through exactly: the public paths, requests that carry the static token or a
  managed token whose hash is in force (active in the store at the last refresh, which is less
  than ten seconds old), and requests with a session that has not expired.
\<close>

theorem guard_admits_exactly:
  "fst (guard sha s t r a) = Passed \<longleftrightarrow>
     public_path (hd_path r) \<or> (\<exists>p. presented r = Some p \<and> token_in_force sha s t p a) \<or>
     live_session r t a"
  by (rule guard_passed_iff)


definition sample_auth :: auth where
  "sample_auth = \<lparr>au_user = ''admin'', au_password = ''pw'', au_token = ''static'',
     au_sessions = [''c1'' \<mapsto> 100], au_managed = ([''01''], 5), au_has_store = True\<rparr>"

definition sample_head :: request_head where
  "sample_head = \<lparr>hd_path = ''/api/x'', hd_authorization = Some ''Bearer tok'',
     hd_cookie = Some ''dtmrs_session=c1'', hd_accept = None, hd_forwarded_for = None,
     hd_forwarded_proto = None\<rparr>"

definition sample_tokens :: store where
  "sample_tokens = \<lparr>st_backend = Sqlite, st_clock = 7, st_global = [], st_branch = [], st_topic = [],
     st_token = [\<lparr>k_hash = ''01'', k_name = ''n'', k_create_time = 3, k_last_used = 0, k_use_count = 0,
                  k_last_ip = [], k_revoked = 6, k_secret = []\<rparr>]\<rparr>"


text \<open>
  Tokens are managed by sessions only: without a session that has not expired every
  management request is refused and neither the store nor the set of known tokens changes,
  whatever bearer token the request carries.
\<close>

theorem only_sessions_manage_tokens:
  assumes "\<not> live_session r t a"
  shows "fst (tokens_list s t r a) = Forbidden \<and>
    fst (tokens_reveal unseal body s t r a) = Forbidden \<and>
    (\<exists>a'. tokens_create sha seal raw body t r (a, s) = (Forbidden, a', s) \<and> au_managed a' = au_managed a) \<and>
    (\<exists>a'. tokens_revoke body t r (a, s) = (Forbidden, a', s) \<and> au_managed a' = au_managed a)"
proof -
  obtain a' where "session_of r t a = (False, a')"
    using fst_session_of [of r t a] assms by (metis prod.collapse)
  moreover from this have "au_managed a' = au_managed a" using session_of_managed by (metis snd_conv)
  ultimately show ?thesis
    by (simp add: tokens_list_def tokens_reveal_def tokens_create_def tokens_revoke_def
        require_session_def)
qed

lemma only_sessions_manage_tokens_witness:
  "\<exists>a'. tokens_revoke (Some ''01'') 200 sample_head (sample_auth, sample_tokens) = (Forbidden, a', sample_tokens)"
proof -
  have "\<not> live_session sample_head 200 sample_auth" by code_simp
  from only_sessions_manage_tokens [OF this, of sample_tokens "\<lambda>_. None" "Some ''01''" "\<lambda>_. []" "\<lambda>s. s" "[]"]
  show ?thesis by blast
qed

text \<open>
  What was sealed can be opened with the same key: when the cipher decrypts what it encrypted
  (to bytes, with a tag), a token is read back as it was.
\<close>

theorem sealed_token_opens:
  assumes "\<And>n x. \<forall>b\<in>set x. b < 256 \<Longrightarrow> \<exists>y. seal key n x = Some y \<and> y \<noteq> [] \<and> (\<forall>b\<in>set y. b < 256) \<and> unseal key n y = Some x"
    and "length nonce = nonce_len" "\<forall>b\<in>set nonce. b < 256"
    and "utf (map of_char plain) = Some plain"
  shows "open_token unseal utf (Some key) (seal_token seal (Some key) nonce plain) = Some plain"
proof -
  obtain y where y: "seal key nonce (map of_char plain) = Some y" "y \<noteq> []" "\<forall>b\<in>set y. b < 256"
    "unseal key nonce y = Some (map of_char plain)"
    using assms(1) [of "map of_char plain" nonce] by auto
  have "unhex (hex nonce @ hex y) = Some (nonce @ y)"
    using unhex_hex [of "nonce @ y"] assms(3) y(3) by (simp add: hex_append ball_Un)
  moreover have "hex nonce @ hex y \<noteq> []" using y(2) by (cases y) auto
  ultimately show ?thesis
    using y assms(2,4) by (simp add: seal_token_def open_token_def)
qed

lemma sealed_token_opens_witness:
  "open_token (\<lambda>k n y. Some (butlast y)) (\<lambda>x. Some (map char_of x)) (Some ())
     (seal_token (\<lambda>k n x. Some (x @ [0])) (Some ()) (replicate 12 7) ''ab'') = Some ''ab''"
  by (rule sealed_token_opens) (auto simp: nonce_len_def char_of_def bit_simps)

end
