(* ===== verification/Http.thy ===== *)
theory Http
  imports Api Auth
begin

text \<open>
  The HTTP interface (\<^verbatim>\<open>crates/dtmrs-server/src/http.rs\<close>): requests are turned into calls of the API
  and results into the answers DTM clients expect. What axum and serde do (matching paths,
  reading queries and bodies) ends in a value of \<open>http_request\<close>; missing fields have their
  defaults here. The list of subscribers of a topic travels as a JSON text: \<open>kv_json\<close>.
\<close>

section \<open>Requests\<close>

definition default_trans_type :: string where "default_trans_type = ''saga''"

record submit_req =
  sr_gid :: string
  sr_trans_type :: string
  sr_steps :: "saga_step list"

record prepare_req =
  pr_gid :: string
  pr_trans_type :: string
  pr_actions :: "string list"
  pr_query_prepared :: string
  pr_grace_secs :: "int option"
  pr_payloads :: "string list"
  pr_allow_empty_topic :: bool
  pr_timeout_to_fail :: int

record topic_req =
  tr_topic :: string
  tr_url :: string
  tr_remark :: string

record kv_req =
  kr_cat :: string
  kr_key :: string
  kr_position :: string
  kr_limit :: "nat option"

record register_branch_req =
  rr_gid :: string
  rr_branch_id :: string
  rr_confirm :: string
  rr_cancel :: string
  rr_try :: string
  rr_commit :: string
  rr_rollback :: string
  rr_data :: string

record stuck_req =
  st_min_retries :: "int option"
  st_limit :: "int option"

text \<open>\<open>#[serde(default)]\<close>: what a field reads when it is missing.\<close>

definition submit_req_of :: "string \<Rightarrow> string option \<Rightarrow> saga_step list option \<Rightarrow> submit_req" where
  "submit_req_of gid tt steps =
     \<lparr>sr_gid = gid, sr_trans_type = (case tt of None \<Rightarrow> default_trans_type | Some t \<Rightarrow> t),
      sr_steps = (case steps of None \<Rightarrow> [] | Some s \<Rightarrow> s)\<rparr>"

datatype http_request =
    New_gid_http
  | Prepare_http prepare_req
  | Register_http register_branch_req
  | Submit_http submit_req
  | Abort_http string
  | Retry_http string
  | Query_http string
  | All_http
  | Stuck_http stuck_req
  | Subscribe_http topic_req
  | Unsubscribe_http topic_req
  | Delete_topic_http string
  | Query_kv_http kv_req
  | Scan_kv_http kv_req
  | Health_http
  | Console_http bool

text \<open>Method and path of the routes; the console answers on two.\<close>

fun route_of :: "http_request \<Rightarrow> string \<times> string" where
  "route_of New_gid_http = (''GET'', ''/api/dtmsvr/newGid'')"
| "route_of (Prepare_http _) = (''POST'', ''/api/dtmsvr/prepare'')"
| "route_of (Register_http _) = (''POST'', ''/api/dtmsvr/registerBranch'')"
| "route_of (Submit_http _) = (''POST'', ''/api/dtmsvr/submit'')"
| "route_of (Abort_http _) = (''POST'', ''/api/dtmsvr/abort'')"
| "route_of (Retry_http _) = (''POST'', ''/api/dtmsvr/retry'')"
| "route_of (Query_http _) = (''GET'', ''/api/dtmsvr/query'')"
| "route_of All_http = (''GET'', ''/api/dtmsvr/all'')"
| "route_of (Stuck_http _) = (''GET'', ''/api/dtmsvr/stuck'')"
| "route_of (Subscribe_http _) = (''GET'', ''/api/dtmsvr/subscribe'')"
| "route_of (Unsubscribe_http _) = (''GET'', ''/api/dtmsvr/unsubscribe'')"
| "route_of (Delete_topic_http topic) = (''DELETE'', ''/api/dtmsvr/topic/'' @ topic)"
| "route_of (Query_kv_http _) = (''GET'', ''/api/dtmsvr/queryKV'')"
| "route_of (Scan_kv_http _) = (''GET'', ''/api/dtmsvr/scanKV'')"
| "route_of Health_http = (''GET'', ''/health'')"
| "route_of (Console_http root) = (''GET'', if root then ''/'' else ''/console'')"

section \<open>Answers\<close>

datatype reply_text = Api_text api_msg | Unauthorized_text

record reply =
  dtm_result :: string
  rp_message :: "reply_text option"

definition reply_ok :: reply where
  "reply_ok = \<lparr>dtm_result = ''SUCCESS'', rp_message = None\<rparr>"

definition reply_err :: "reply_text \<Rightarrow> reply" where
  "reply_err m = \<lparr>dtm_result = ''FAILURE'', rp_message = Some m\<rparr>"

record kv_item =
  kv_id :: nat
  kv_cat :: string
  kv_k :: string
  kv_v :: string
  kv_version :: int
  kv_create_time :: int
  kv_update_time :: int

datatype body =
    Reply_body reply
  | Gid_body string
  | Trans_body trans_view
  | Trans_list "trans_view list"
  | Kv_body "kv_item list" "string option"
  | Text_body string
  | Console_page
  | Redirect string
  | Login_needed

type_synonym http_answer = "nat \<times> body"

text \<open>A conflict is answered with 200 and a body that says FAILURE.\<close>

definition http_err :: "api_error \<Rightarrow> http_answer" where
  "http_err e =
     (case e of Bad_request _ \<Rightarrow> 400 | Not_found _ \<Rightarrow> 404 | Conflicting _ \<Rightarrow> 200 | Internal_error _ \<Rightarrow> 500,
      Reply_body (reply_err (Api_text (message e))))"

definition http_result :: "unit api_res \<Rightarrow> http_answer" where
  "http_result r = (case r of Inr _ \<Rightarrow> (200, Reply_body reply_ok) | Inl e \<Rightarrow> http_err e)"

section \<open>Subscriptions as a key-value listing\<close>

text \<open>A list of subscribers (address and remark) as a JSON text, and back.\<close>

record kv_json =
  kj_print :: "(string \<times> string) list \<Rightarrow> string"
  kj_parse :: "string \<Rightarrow> (string \<times> string) list option"

definition kv_add :: "kv_json \<Rightarrow> kv_item list \<Rightarrow> topic_sub \<Rightarrow> kv_item list" where
  "kv_add KJ out s =
     (let entry = (t_url s, t_remark s)
      in if out \<noteq> [] \<and> kv_k (last out) = t_topic s
         then butlast out @ [(last out)\<lparr>
                kv_v := kj_print KJ ((case kj_parse KJ (kv_v (last out)) of None \<Rightarrow> [] | Some v \<Rightarrow> v) @ [entry]),
                kv_create_time := min (kv_create_time (last out)) (t_create_time s),
                kv_update_time := max (kv_update_time (last out)) (t_create_time s)\<rparr>]
         else out @ [\<lparr>kv_id = length out + 1, kv_cat = ''topics'', kv_k = t_topic s,
                kv_v = kj_print KJ [entry], kv_version = 1, kv_create_time = t_create_time s,
                kv_update_time = t_create_time s\<rparr>])"

definition topic_kvs :: "environment \<Rightarrow> kv_json \<Rightarrow> api \<Rightarrow> string \<Rightarrow> kv_item list prog" where
  "topic_kvs env KJ a key =
     (if key \<noteq> [] \<and> topic_len < length key then ret []
      else do {
        subs \<leftarrow> list_topic_subs env a (if key = [] then None else Some key);
        ret (foldl (kv_add KJ) [] subs)
      })"

definition kv_cat_ok :: "string \<Rightarrow> unit api_res" where
  "kv_cat_ok cat = (if cat = ''topics'' then Inr () else Inl (Bad_request (Unknown_category cat)))"

definition query_kv :: "environment \<Rightarrow> kv_json \<Rightarrow> api \<Rightarrow> kv_req \<Rightarrow> http_answer prog" where
  "query_kv env KJ a r =
     (case kv_cat_ok (kr_cat r) of
        Inl e \<Rightarrow> ret (http_err e)
      | Inr _ \<Rightarrow> do {
          kv \<leftarrow> topic_kvs env KJ a (kr_key r);
          ret (200, Kv_body kv None)
        })"

text \<open>
  One page after \<open>position\<close>, and where the next begins. \<open>limit + 1\<close> is a \<open>usize\<close> of the release
  build, which wraps.
\<close>

definition scan_page :: "string \<Rightarrow> nat \<Rightarrow> kv_item list \<Rightarrow> kv_item list \<times> string" where
  "scan_page position limit kvs =
     (let page = take ((limit + 1) mod 2 ^ 64) (filter (\<lambda>kv. position = [] \<or> position < kv_k kv) kvs);
          more = limit < length page;
          page = take limit page
      in (page, if more then (if page = [] then [] else kv_k (last page)) else []))"

definition scan_kv :: "environment \<Rightarrow> kv_json \<Rightarrow> api \<Rightarrow> kv_req \<Rightarrow> http_answer prog" where
  "scan_kv env KJ a r =
     (case kv_cat_ok (kr_cat r) of
        Inl e \<Rightarrow> ret (http_err e)
      | Inr _ \<Rightarrow> do {
          kvs \<leftarrow> topic_kvs env KJ a [];
          let limit = max (case kr_limit r of None \<Rightarrow> 100 | Some n \<Rightarrow> n) 1;
          let (page, next_position) = scan_page (kr_position r) limit kvs;
          ret (200, Kv_body page (Some next_position))
        })"

section \<open>Handlers\<close>

definition answered :: "unit api_res prog \<Rightarrow> http_answer prog" where
  "answered m = do { r \<leftarrow> m; ret (http_result r) }"

definition http_submit :: "environment \<Rightarrow> api \<Rightarrow> submit_req \<Rightarrow> http_answer prog" where
  "http_submit env a r = answered (submit env a (sr_gid r) (sr_trans_type r) (sr_steps r))"

definition http_prepare :: "environment \<Rightarrow> api \<Rightarrow> prepare_req \<Rightarrow> http_answer prog" where
  "http_prepare env a r =
     answered (prepare_with env a (pr_gid r) (pr_trans_type r) (pr_actions r) (pr_query_prepared r)
       (pr_grace_secs r)
       \<lparr>po_payloads = pr_payloads r, po_allow_empty_topic = pr_allow_empty_topic r,
        po_timeout_to_fail = pr_timeout_to_fail r\<rparr>)"

definition http_subscribe :: "environment \<Rightarrow> api \<Rightarrow> topic_req \<Rightarrow> http_answer prog" where
  "http_subscribe env a r = answered (api_subscribe env a (tr_topic r) (tr_url r) (tr_remark r))"

definition http_unsubscribe :: "environment \<Rightarrow> api \<Rightarrow> topic_req \<Rightarrow> http_answer prog" where
  "http_unsubscribe env a r = answered (api_unsubscribe env a (tr_topic r) (tr_url r))"

definition http_delete_topic :: "environment \<Rightarrow> string \<Rightarrow> http_answer prog" where
  "http_delete_topic env topic = answered (api_delete_topic env topic)"

definition http_register_branch :: "environment \<Rightarrow> register_branch_req \<Rightarrow> http_answer prog" where
  "http_register_branch env r =
     answered (api_register_branch env
       \<lparr>rb_gid = rr_gid r, rb_branch_id = rr_branch_id r, rb_confirm = rr_confirm r,
        rb_cancel = rr_cancel r, rb_try = rr_try r, rb_commit = rr_commit r,
        rb_rollback = rr_rollback r, rb_data = rr_data r\<rparr>)"

definition http_abort :: "environment \<Rightarrow> string \<Rightarrow> http_answer prog" where
  "http_abort env gid = answered (api_abort env gid)"

definition http_retry :: "environment \<Rightarrow> string \<Rightarrow> http_answer prog" where
  "http_retry env gid = answered (api_retry env gid)"

definition http_query :: "environment \<Rightarrow> string \<Rightarrow> http_answer prog" where
  "http_query env gid = do {
     r \<leftarrow> api_query env gid;
     ret (case r of Inr v \<Rightarrow> (200, Trans_body v) | Inl e \<Rightarrow> http_err e)
   }"

definition http_stuck :: "environment \<Rightarrow> stuck_req \<Rightarrow> http_answer prog" where
  "http_stuck env r = do {
     r \<leftarrow> api_list_stuck env
           (case st_min_retries r of None \<Rightarrow> default_alert_retry_limit | Some n \<Rightarrow> n)
           (case st_limit r of None \<Rightarrow> 100 | Some n \<Rightarrow> n);
     ret (case r of Inr v \<Rightarrow> (200, Trans_list v) | Inl e \<Rightarrow> http_err e)
   }"

definition http_all :: "environment \<Rightarrow> http_answer prog" where
  "http_all env = do { v \<leftarrow> api_list_recent env 100; ret (200, Trans_list v) }"

text \<open>The router; \<open>gid\<close> is the one \<open>new_gid\<close> would draw.\<close>

fun routes :: "environment \<Rightarrow> kv_json \<Rightarrow> api \<Rightarrow> string \<Rightarrow> http_request \<Rightarrow> http_answer prog" where
  "routes env KJ a gid New_gid_http = ret (200, Gid_body gid)"
| "routes env KJ a gid (Prepare_http r) = http_prepare env a r"
| "routes env KJ a gid (Register_http r) = http_register_branch env r"
| "routes env KJ a gid (Submit_http r) = http_submit env a r"
| "routes env KJ a gid (Abort_http g) = http_abort env g"
| "routes env KJ a gid (Retry_http g) = http_retry env g"
| "routes env KJ a gid (Query_http g) = http_query env g"
| "routes env KJ a gid All_http = http_all env"
| "routes env KJ a gid (Stuck_http r) = http_stuck env r"
| "routes env KJ a gid (Subscribe_http r) = http_subscribe env a r"
| "routes env KJ a gid (Unsubscribe_http r) = http_unsubscribe env a r"
| "routes env KJ a gid (Delete_topic_http t) = http_delete_topic env t"
| "routes env KJ a gid (Query_kv_http r) = query_kv env KJ a r"
| "routes env KJ a gid (Scan_kv_http r) = scan_kv env KJ a r"
| "routes env KJ a gid Health_http = ret (200, Text_body ''ok'')"
| "routes env KJ a gid (Console_http _) = ret (200, Console_page)"

section \<open>Guarded routers\<close>

fun topic_request :: "http_request \<Rightarrow> bool" where
  "topic_request (Subscribe_http _) = True"
| "topic_request (Unsubscribe_http _) = True"
| "topic_request (Delete_topic_http _) = True"
| "topic_request (Query_kv_http _) = True"
| "topic_request (Scan_kv_http _) = True"
| "topic_request _ = False"

definition carries_token :: "string \<Rightarrow> string option \<Rightarrow> bool" where
  "carries_token token authorization \<longleftrightarrow>
     (case authorization of
        None \<Rightarrow> False
      | Some v \<Rightarrow> (case bearer v of None \<Rightarrow> False | Some p \<Rightarrow> ct_eq p token))"

text \<open>The topic routes alone, behind a shared secret; \<open>None\<close> is a request without a route.\<close>

definition topic_router ::
  "environment \<Rightarrow> kv_json \<Rightarrow> api \<Rightarrow> string \<Rightarrow> string option \<Rightarrow> http_request \<Rightarrow> http_answer option prog" where
  "topic_router env KJ a token authorization req =
     (if req = Health_http then ret (Some (200, Text_body ''ok''))
      else if topic_request req then
        (if carries_token token authorization
         then do { r \<leftarrow> routes env KJ a [] req; ret (Some r) }
         else ret (Some (401, Reply_body (reply_err Unauthorized_text))))
      else ret None)"

text \<open>
  The guard in front of every route; \<open>t\<close> is the clock. The use of a managed token is noted by a
  detached task: its hash and address are part of the result.
\<close>

definition router_with_auth ::
  "(string \<Rightarrow> nat list) \<Rightarrow> environment \<Rightarrow> kv_json \<Rightarrow> api \<Rightarrow> string \<Rightarrow> int \<Rightarrow> request_head \<Rightarrow> auth \<Rightarrow>
   http_request \<Rightarrow> (http_answer \<times> auth \<times> (string \<times> string) option) prog" where
  "router_with_auth sha env KJ a gid t head au req = do {
     s \<leftarrow> observe env (\<lambda>s. s);
     let (verdict, au, used) = guard sha s t (head\<lparr>hd_path := snd (route_of req)\<rparr>) au;
     r \<leftarrow> (case verdict of
           Passed \<Rightarrow> routes env KJ a gid req
         | To_login \<Rightarrow> ret (303, Redirect ''/login'')
         | Unauthorized \<Rightarrow> ret (401, Login_needed));
     ret (r, au, used)
   }"

end
