(* ===== verification/Grpc_Server.thy ===== *)
theory Grpc_Server
  imports Http
begin

text \<open>
  The gRPC interface (\<^verbatim>\<open>crates/dtmrs-server/src/grpc/server.rs\<close>, messages of
  \<^verbatim>\<open>crates/dtmrs-server/proto/dtmrs.proto\<close>): the same API behind another protocol, and the check of
  the bearer token around it. A field that is missing on the wire reads as its zero.
\<close>

datatype grpc_status =
    Invalid_argument api_msg
  | Status_not_found api_msg
  | Failed_precondition api_msg
  | Status_internal api_msg
  | Unauthenticated

definition status_of :: "api_error \<Rightarrow> grpc_status" where
  "status_of e =
     (case e of
        Bad_request m \<Rightarrow> Invalid_argument m
      | Not_found m \<Rightarrow> Status_not_found m
      | Conflicting m \<Rightarrow> Failed_precondition m
      | Internal_error m \<Rightarrow> Status_internal (Store_text m))"

record pb_prepare =
  pp_gid :: string
  pp_trans_type :: string
  pp_actions :: "string list"
  pp_query_prepared :: string
  pp_grace_secs :: int
  pp_payloads :: "string list"
  pp_allow_empty_topic :: bool
  pp_timeout_to_fail :: int

record pb_topic =
  pt_topic :: string
  pt_url :: string
  pt_remark :: string

record pb_register_branch =
  pg_gid :: string
  pg_branch_id :: string
  pg_confirm :: string
  pg_cancel :: string
  pg_try :: string
  pg_commit :: string
  pg_rollback :: string
  pg_data :: string

record pb_submit =
  ps_gid :: string
  ps_trans_type :: string
  ps_steps :: "saga_step list"

record pb_branch_view =
  pv_branch_id :: string
  pv_op :: string
  pv_url :: string
  pv_status :: string

record pb_trans_view =
  pv_gid :: string
  pv_trans_type :: string
  pv_trans_status :: string
  pv_rollback_reason :: string
  pv_create_time :: int
  pv_finish_time :: "int option"
  pv_retry_count :: int
  pv_next_cron_time :: int
  pv_branches :: "pb_branch_view list"

datatype grpc_request =
    New_gid_grpc
  | Prepare_grpc pb_prepare
  | Subscribe_grpc pb_topic
  | Unsubscribe_grpc pb_topic
  | Delete_topic_grpc pb_topic
  | Register_grpc pb_register_branch
  | Submit_grpc pb_submit
  | Abort_grpc string
  | Retry_grpc string
  | Query_grpc string

datatype pb_reply = Pb_empty | Pb_gid string | Pb_trans pb_trans_view

type_synonym grpc_answer = "grpc_status + pb_reply"

text \<open>The question mark on a result of the API, and an empty reply.\<close>

definition pb_result :: "unit api_res prog \<Rightarrow> grpc_answer prog" where
  "pb_result m = do {
     r \<leftarrow> m;
     ret (case r of Inl e \<Rightarrow> Inl (status_of e) | Inr _ \<Rightarrow> Inr Pb_empty)
   }"

definition grpc_new_gid :: "string \<Rightarrow> grpc_answer prog" where
  "grpc_new_gid gid = ret (Inr (Pb_gid gid))"

definition grpc_prepare :: "environment \<Rightarrow> api \<Rightarrow> pb_prepare \<Rightarrow> grpc_answer prog" where
  "grpc_prepare env a r =
     pb_result (prepare_with env a (pp_gid r) (pp_trans_type r) (pp_actions r) (pp_query_prepared r)
       (if 0 < pp_grace_secs r then Some (pp_grace_secs r) else None)
       \<lparr>po_payloads = pp_payloads r, po_allow_empty_topic = pp_allow_empty_topic r,
        po_timeout_to_fail = pp_timeout_to_fail r\<rparr>)"

definition grpc_subscribe :: "environment \<Rightarrow> api \<Rightarrow> pb_topic \<Rightarrow> grpc_answer prog" where
  "grpc_subscribe env a r = pb_result (api_subscribe env a (pt_topic r) (pt_url r) (pt_remark r))"

definition grpc_unsubscribe :: "environment \<Rightarrow> api \<Rightarrow> pb_topic \<Rightarrow> grpc_answer prog" where
  "grpc_unsubscribe env a r = pb_result (api_unsubscribe env a (pt_topic r) (pt_url r))"

definition grpc_delete_topic :: "environment \<Rightarrow> pb_topic \<Rightarrow> grpc_answer prog" where
  "grpc_delete_topic env r = pb_result (api_delete_topic env (pt_topic r))"

definition grpc_register_branch :: "environment \<Rightarrow> pb_register_branch \<Rightarrow> grpc_answer prog" where
  "grpc_register_branch env r =
     pb_result (api_register_branch env
       \<lparr>rb_gid = pg_gid r, rb_branch_id = pg_branch_id r, rb_confirm = pg_confirm r,
        rb_cancel = pg_cancel r, rb_try = pg_try r, rb_commit = pg_commit r,
        rb_rollback = pg_rollback r, rb_data = pg_data r\<rparr>)"

definition grpc_submit :: "environment \<Rightarrow> api \<Rightarrow> pb_submit \<Rightarrow> grpc_answer prog" where
  "grpc_submit env a r =
     pb_result (submit env a (ps_gid r)
       (if ps_trans_type r = [] then ''saga'' else ps_trans_type r) (ps_steps r))"

definition grpc_abort :: "environment \<Rightarrow> string \<Rightarrow> grpc_answer prog" where
  "grpc_abort env gid = pb_result (api_abort env gid)"

definition grpc_retry :: "environment \<Rightarrow> string \<Rightarrow> grpc_answer prog" where
  "grpc_retry env gid = pb_result (api_retry env gid)"

definition pb_view_of :: "trans_view \<Rightarrow> pb_trans_view" where
  "pb_view_of v =
     \<lparr>pv_gid = tv_gid v, pv_trans_type = tv_trans_type v, pv_trans_status = tv_status v,
      pv_rollback_reason = tv_rollback_reason v, pv_create_time = tv_create_time v,
      pv_finish_time = tv_finish_time v, pv_retry_count = tv_retry_count v,
      pv_next_cron_time = tv_next_cron_time v,
      pv_branches = map (\<lambda>b. \<lparr>pv_branch_id = bv_branch_id b, pv_op = bv_op b, pv_url = bv_url b,
                                pv_status = bv_status b\<rparr>) (tv_branches v)\<rparr>"

definition grpc_query :: "environment \<Rightarrow> string \<Rightarrow> grpc_answer prog" where
  "grpc_query env gid = do {
     r \<leftarrow> api_query env gid;
     ret (case r of Inl e \<Rightarrow> Inl (status_of e) | Inr v \<Rightarrow> Inr (Pb_trans (pb_view_of v)))
   }"

fun tc_service :: "environment \<Rightarrow> api \<Rightarrow> string \<Rightarrow> grpc_request \<Rightarrow> grpc_answer prog" where
  "tc_service env a gid New_gid_grpc = grpc_new_gid gid"
| "tc_service env a gid (Prepare_grpc r) = grpc_prepare env a r"
| "tc_service env a gid (Subscribe_grpc r) = grpc_subscribe env a r"
| "tc_service env a gid (Unsubscribe_grpc r) = grpc_unsubscribe env a r"
| "tc_service env a gid (Delete_topic_grpc r) = grpc_delete_topic env r"
| "tc_service env a gid (Register_grpc r) = grpc_register_branch env r"
| "tc_service env a gid (Submit_grpc r) = grpc_submit env a r"
| "tc_service env a gid (Abort_grpc g) = grpc_abort env g"
| "tc_service env a gid (Retry_grpc g) = grpc_retry env g"
| "tc_service env a gid (Query_grpc g) = grpc_query env g"

text \<open>
  \<open>AuthedTc::call\<close>: the bearer token of the metadata, static or managed; \<open>ip\<close> is the address of
  the peer.
\<close>

definition grpc_admits ::
  "(string \<Rightarrow> nat list) \<Rightarrow> store \<Rightarrow> int \<Rightarrow> string \<Rightarrow> string option \<Rightarrow> auth \<Rightarrow>
   bool \<times> auth \<times> (string \<times> string) option" where
  "grpc_admits sha s t ip authorization au =
     (case (case authorization of None \<Rightarrow> None | Some v \<Rightarrow> bearer v) of
        None \<Rightarrow> (False, au, None)
      | Some p \<Rightarrow> if token_ok p au then (True, au, None) else managed_ok sha s t p ip au)"

definition authed_tc ::
  "(string \<Rightarrow> nat list) \<Rightarrow> environment \<Rightarrow> api \<Rightarrow> string \<Rightarrow> int \<Rightarrow> string \<Rightarrow> string option \<Rightarrow> auth \<Rightarrow>
   grpc_request \<Rightarrow> (grpc_answer \<times> auth \<times> (string \<times> string) option) prog" where
  "authed_tc sha env a gid t ip authorization au req = do {
     s \<leftarrow> observe env (\<lambda>s. s);
     let (ok, au, used) = grpc_admits sha s t ip authorization au;
     r \<leftarrow> (if ok then tc_service env a gid req else ret (Inl Unauthenticated));
     ret (r, au, used)
   }"

end
