(* ===== verification/Grpc_Client.thy ===== *)
theory Grpc_Client
  imports Registry "HOL-Library.Sublist"
begin

text \<open>
  The caller of gRPC branches (\<^verbatim>\<open>crates/dtmrs-server/src/grpc/client.rs\<close>): the channel cache, the
  extra certificates and one call. What tonic decides (is this a valid address, a valid path, a
  valid header value, does it take the TLS configuration) is the record \<open>tonic\<close>; what the network
  answers is the record \<open>remote\<close>. A channel is what it was configured with.
\<close>

record tonic =
  tn_uri :: "string \<Rightarrow> bool"
  tn_tls :: "string option \<Rightarrow> bool"
  tn_path :: "string \<Rightarrow> bool"
  tn_value :: "string \<Rightarrow> bool"

record channel =
  ch_endpoint :: string
  ch_timeout :: nat
  ch_tls :: bool
  ch_ca :: "string option"

record remote =
  rm_ready :: "channel \<Rightarrow> bool"
  rm_unary :: "channel \<Rightarrow> string \<Rightarrow> (string \<times> string) list \<Rightarrow> string \<Rightarrow> int + string"

record grpc_caller =
  gc_channels :: "string \<rightharpoonup> channel"
  gc_timeout :: nat
  gc_extra_ca :: "string option"

section \<open>Certificates\<close>

definition pem_mark :: string where
  "pem_mark = ''-----BEGIN CERTIFICATE-----''"

definition check_ca_pem :: "string \<Rightarrow> string option" where
  "check_ca_pem pem = (if sublist pem_mark pem then Some pem else None)"

text \<open>\<open>getenv\<close> and \<open>read\<close> are the environment variables and the files of the process.\<close>

definition grpc_new ::
  "(string \<Rightarrow> string option) \<Rightarrow> (string \<Rightarrow> string option) \<Rightarrow> nat \<Rightarrow> grpc_caller" where
  "grpc_new getenv read timeout =
     \<lparr>gc_channels = Map.empty, gc_timeout = timeout,
      gc_extra_ca = (case getenv ''DTMRS_GRPC_CA'' of
                       None \<Rightarrow> None
                     | Some p \<Rightarrow> (case read p of None \<Rightarrow> None | Some pem \<Rightarrow> check_ca_pem pem))\<rparr>"

definition with_ca_pem :: "string \<Rightarrow> grpc_caller \<Rightarrow> grpc_caller" where
  "with_ca_pem pem c = c\<lparr>gc_extra_ca := check_ca_pem pem\<rparr>"

section \<open>A call\<close>

datatype channel_error = Bad_address | Bad_tls

definition get_channel ::
  "tonic \<Rightarrow> grpc_target \<Rightarrow> grpc_caller \<Rightarrow> (channel_error + channel) \<times> grpc_caller" where
  "get_channel T t c =
     (case gc_channels c (gt_endpoint t) of
        Some ch \<Rightarrow> (Inr ch, c)
      | None \<Rightarrow>
          if \<not> tn_uri T (gt_endpoint t) then (Inl Bad_address, c)
          else if gt_tls t \<and> \<not> tn_tls T (gc_extra_ca c) then (Inl Bad_tls, c)
          else
            let ch = \<lparr>ch_endpoint = gt_endpoint t, ch_timeout = gc_timeout c, ch_tls = gt_tls t,
                      ch_ca = (if gt_tls t then gc_extra_ca c else None)\<rparr>
            in (Inr ch, c\<lparr>gc_channels := (gc_channels c)(gt_endpoint t \<mapsto> ch)\<rparr>))"

text \<open>The keys of \<^verbatim>\<open>grpc/mod.rs\<close>, in the order they are sent.\<close>

definition md_gid :: string where "md_gid = ''dtm-gid''"
definition md_trans_type :: string where "md_trans_type = ''dtm-trans_type''"
definition md_branch_id :: string where "md_branch_id = ''dtm-branch_id''"
definition md_op :: string where "md_op = ''dtm-op''"

definition metadata :: "string \<Rightarrow> string \<Rightarrow> string \<Rightarrow> string \<Rightarrow> (string \<times> string) list" where
  "metadata gid trans_type branch_id op =
     [(md_gid, gid), (md_trans_type, trans_type), (md_branch_id, branch_id), (md_op, op)]"

definition grpc_call ::
  "tonic \<Rightarrow> remote \<Rightarrow> grpc_target \<Rightarrow> string \<Rightarrow> string \<Rightarrow> string \<Rightarrow> string \<Rightarrow> grpc_caller \<Rightarrow>
   branch_result \<times> grpc_caller" where
  "grpc_call T R t gid trans_type branch_id op c =
     (case get_channel T t c of
        (Inl _, c) \<Rightarrow> (Unknown, c)
      | (Inr ch, c) \<Rightarrow>
          let md = metadata gid trans_type branch_id op
          in if \<not> tn_path T (gt_path t) then (Unknown, c)
             else if \<not> rm_ready R ch then (Unknown, c)
             else if list_ex (\<lambda>(k, v). \<not> tn_value T v) md then (Unknown, c)
             else (case rm_unary R ch (gt_path t) md [] of
                     Inr _ \<Rightarrow> (Success, c)
                   | Inl code \<Rightarrow> (from_grpc code, c)))"

section \<open>What a cached channel is\<close>

definition channel_ok :: "string option \<Rightarrow> string \<Rightarrow> channel \<Rightarrow> bool" where
  "channel_ok ca e ch \<longleftrightarrow>
     ch_endpoint ch = e \<and> ch_tls ch = prefix ''https://'' e \<and> ch_ca ch = (if ch_tls ch then ca else None)"

definition caller_ok :: "grpc_caller \<Rightarrow> bool" where
  "caller_ok c \<longleftrightarrow> (\<forall>e ch. gc_channels c e = Some ch \<longrightarrow> channel_ok (gc_extra_ca c) e ch)"

lemma caller_ok_new: "caller_ok (grpc_new getenv read timeout)"
  by (simp add: caller_ok_def grpc_new_def)

lemma target_scheme: "parse_target url = Grpc t \<Longrightarrow> gt_tls t = prefix ''https://'' (gt_endpoint t)"
  by (drule parse_target_Grpc) (auto split: if_splits simp: prefix_def)

lemma get_channel_ok:
  assumes "caller_ok c" "gt_tls t = prefix ''https://'' (gt_endpoint t)" "get_channel T t c = (r, c')"
  shows "caller_ok c' \<and> gc_extra_ca c' = gc_extra_ca c \<and>
    (\<forall>ch. r = Inr ch \<longrightarrow> channel_ok (gc_extra_ca c) (gt_endpoint t) ch)"
proof (cases "gc_channels c (gt_endpoint t)")
  case (Some ch)
  with assms show ?thesis by (auto simp: get_channel_def caller_ok_def)
next
  case None
  have "channel_ok (gc_extra_ca c) (gt_endpoint t)
      \<lparr>ch_endpoint = gt_endpoint t, ch_timeout = gc_timeout c, ch_tls = gt_tls t,
       ch_ca = (if gt_tls t then gc_extra_ca c else None)\<rparr>"
    using assms(2) by (simp add: channel_ok_def)
  with None assms(1,3) show ?thesis
    by (auto simp: get_channel_def caller_ok_def Let_def split: if_split_asm simp del: if_split)
qed

lemma snd_grpc_call: "snd (grpc_call T R t gid tt bid op c) = snd (get_channel T t c)"
  by (simp add: grpc_call_def Let_def split: prod.split sum.split)

text \<open>A history of calls: the addresses that parse to gRPC targets, and what the network did.\<close>

fun after_calls ::
  "tonic \<Rightarrow> (remote \<times> string \<times> string \<times> string \<times> string \<times> string) list \<Rightarrow> grpc_caller \<Rightarrow> grpc_caller" where
  "after_calls T [] c = c"
| "after_calls T ((R, url, gid, tt, bid, op) # calls) c =
     after_calls T calls
       (case parse_target url of Grpc t \<Rightarrow> snd (grpc_call T R t gid tt bid op c) | _ \<Rightarrow> c)"

lemma after_calls_ok:
  "caller_ok c \<Longrightarrow> caller_ok (after_calls T calls c) \<and> gc_extra_ca (after_calls T calls c) = gc_extra_ca c"
proof (induction T calls c rule: after_calls.induct)
  case (2 T R url gid tt bid op calls c)
  show ?case
  proof (cases "parse_target url")
    case (Grpc t)
    obtain r c' where "get_channel T t c = (r, c')" by fastforce
    with get_channel_ok [OF 2(2) target_scheme [OF Grpc] this] 2(1) Grpc show ?thesis
      by (simp add: snd_grpc_call)
  qed (use 2 in simp_all)
qed simp

section \<open>Properties\<close>

text \<open>
  C31. A branch written \<open>grpcs://\<close> is only ever called over a channel with TLS and the certificates
  of the caller, and one written \<open>grpc://\<close> over a plain one, to the host that was written, whatever
  was called before and whichever channels were cached on the way.
\<close>

theorem tls_is_never_dropped:
  assumes "parse_target url = Grpc t"
    and "fst (get_channel T t (after_calls T calls (grpc_new getenv read timeout))) = Inr ch"
  shows "ch_tls ch = prefix ''grpcs://'' url \<and> ch_endpoint ch = gt_endpoint t \<and>
    ch_ca ch = (if prefix ''grpcs://'' url then gc_extra_ca (grpc_new getenv read timeout) else None)"
proof -
  let ?c = "after_calls T calls (grpc_new getenv read timeout)"
  have c: "caller_ok ?c" "gc_extra_ca ?c = gc_extra_ca (grpc_new getenv read timeout)"
    using after_calls_ok [OF caller_ok_new] by blast+
  obtain c' where "get_channel T t ?c = (Inr ch, c')"
    using assms(2) by (metis prod.collapse)
  from get_channel_ok [OF c(1) target_scheme [OF assms(1)] this] c(2)
  have "channel_ok (gc_extra_ca (grpc_new getenv read timeout)) (gt_endpoint t) ch" by simp
  with target_scheme [OF assms(1)] parse_target_Grpc [OF assms(1)] show ?thesis
    by (auto simp: channel_ok_def prefix_def split: if_splits)
qed

definition lenient :: tonic where
  "lenient = \<lparr>tn_uri = \<lambda>_. True, tn_tls = \<lambda>_. True, tn_path = \<lambda>_. True, tn_value = \<lambda>_. True\<rparr>"

definition down :: remote where
  "down = \<lparr>rm_ready = \<lambda>_. False, rm_unary = \<lambda>_ _ _ _. Inl 14\<rparr>"

lemma tls_is_never_dropped_witness:
  "prefix ''grpcs://'' ''grpcs://h:9/p.S/M'' \<and>
   (\<exists>ch. fst (get_channel lenient \<lparr>gt_endpoint = ''https://h:9'', gt_path = ''/p.S/M'', gt_tls = True\<rparr>
       (after_calls lenient [(down, ''grpc://h:9/p.S/M'', ''g'', ''saga'', ''01'', ''action'')]
         (grpc_new (\<lambda>_. None) (\<lambda>_. None) 3))) = Inr ch \<and> ch_tls ch)"
proof -
  let ?t = "\<lparr>gt_endpoint = ''https://h:9'', gt_path = ''/p.S/M'', gt_tls = True\<rparr>"
  let ?calls = "[(down, ''grpc://h:9/p.S/M'', ''g'', ''saga'', ''01'', ''action'')]"
  have url: "parse_target ''grpcs://h:9/p.S/M'' = Grpc ?t" by code_simp
  have "\<not> isl (fst (get_channel lenient ?t (after_calls lenient ?calls (grpc_new (\<lambda>_. None) (\<lambda>_. None) 3))))"
    by code_simp
  then obtain ch where ch: "fst (get_channel lenient ?t
      (after_calls lenient ?calls (grpc_new (\<lambda>_. None) (\<lambda>_. None) 3))) = Inr ch"
    by (auto simp: isl_def split: sum.splits) (metis sum.exhaust)
  with tls_is_never_dropped [OF url this] show ?thesis by simp
qed

text \<open>
  What a call returns is what \<open>call_grpc\<close> makes of an answer of the environment: no connection, a
  bad address, path or header is unknown, and only the status of an explicit refusal is a failure.
\<close>

lemma grpc_call_answer:
  "\<exists>answer. fst (grpc_call T R t gid tt bid op c) =
     (case answer of None \<Rightarrow> Unknown | Some code \<Rightarrow> from_grpc code) \<and>
     (answer = Some grpc_aborted \<longrightarrow> (\<exists>ch. rm_unary R ch (gt_path t) (metadata gid tt bid op) [] = Inl grpc_aborted))"
proof -
  obtain r c' where ch: "get_channel T t c = (r, c')" by fastforce
  have ok: "from_grpc grpc_ok = Success" "grpc_ok \<noteq> grpc_aborted" by (simp_all add: verdict_defs)
  show ?thesis
  proof (cases "fst (grpc_call T R t gid tt bid op c) = Unknown")
    case True
    then show ?thesis by (intro exI [of _ None]) simp
  next
    case False
    with ch obtain x where r: "r = Inr x" by (cases r) (auto simp: grpc_call_def)
    show ?thesis
    proof (cases "rm_unary R x (gt_path t) (metadata gid tt bid op) []")
      case (Inl code)
      with False ch r show ?thesis
        by (intro exI [of _ "Some code"]) (auto simp: grpc_call_def Let_def split: if_splits)
    next
      case (Inr b)
      with False ch r ok show ?thesis
        by (intro exI [of _ "Some grpc_ok"]) (auto simp: grpc_call_def Let_def split: if_splits)
    qed
  qed
qed

end
