(* ===== verification/Protocol_Laws.thy ===== *)
theory Protocol_Laws
  imports Grpc_Server Auth_Laws Api_Laws
begin

text \<open>
  The two protocols in front of the API: they accept, refuse and do the same; the same bearer
  tokens open both; the paging of subscriptions misses nothing; the topic routes are open only
  to those who know the secret.
\<close>

section \<open>The same request on both protocols\<close>

text \<open>
  The message a client of the other protocol would send. A field with the zero of proto3 is a
  missing one, so an empty mode or a grace of zero that is written out has no counterpart.
\<close>

fun to_grpc :: "http_request \<Rightarrow> grpc_request option" where
  "to_grpc New_gid_http = Some New_gid_grpc"
| "to_grpc (Prepare_http r) =
     (case (case pr_grace_secs r of None \<Rightarrow> Some 0 | Some n \<Rightarrow> if 0 < n then Some n else None) of
        None \<Rightarrow> None
      | Some n \<Rightarrow> Some (Prepare_grpc
          \<lparr>pp_gid = pr_gid r, pp_trans_type = pr_trans_type r, pp_actions = pr_actions r,
           pp_query_prepared = pr_query_prepared r, pp_grace_secs = n, pp_payloads = pr_payloads r,
           pp_allow_empty_topic = pr_allow_empty_topic r, pp_timeout_to_fail = pr_timeout_to_fail r\<rparr>))"
| "to_grpc (Register_http r) = Some (Register_grpc
     \<lparr>pg_gid = rr_gid r, pg_branch_id = rr_branch_id r, pg_confirm = rr_confirm r,
      pg_cancel = rr_cancel r, pg_try = rr_try r, pg_commit = rr_commit r,
      pg_rollback = rr_rollback r, pg_data = rr_data r\<rparr>)"
| "to_grpc (Submit_http r) =
     (if sr_trans_type r = [] then None
      else Some (Submit_grpc
        \<lparr>ps_gid = sr_gid r, ps_trans_type = sr_trans_type r, ps_steps = sr_steps r\<rparr>))"
| "to_grpc (Abort_http g) = Some (Abort_grpc g)"
| "to_grpc (Retry_http g) = Some (Retry_grpc g)"
| "to_grpc (Query_http g) = Some (Query_grpc g)"
| "to_grpc (Subscribe_http r) =
     Some (Subscribe_grpc \<lparr>pt_topic = tr_topic r, pt_url = tr_url r, pt_remark = tr_remark r\<rparr>)"
| "to_grpc (Unsubscribe_http r) =
     Some (Unsubscribe_grpc \<lparr>pt_topic = tr_topic r, pt_url = tr_url r, pt_remark = tr_remark r\<rparr>)"
| "to_grpc (Delete_topic_http t) = Some (Delete_topic_grpc \<lparr>pt_topic = t, pt_url = [], pt_remark = []\<rparr>)"
| "to_grpc _ = None"

text \<open>Two answers that tell the client the same.\<close>

fun same_verdict :: "http_answer \<Rightarrow> grpc_answer \<Rightarrow> bool" where
  "same_verdict (c, Reply_body r) (Inr Pb_empty) \<longleftrightarrow> c = 200 \<and> r = reply_ok"
| "same_verdict (c, Gid_body g) (Inr (Pb_gid g')) \<longleftrightarrow> c = 200 \<and> g = g'"
| "same_verdict (c, Trans_body v) (Inr (Pb_trans v')) \<longleftrightarrow> c = 200 \<and> v' = pb_view_of v"
| "same_verdict (c, Reply_body r) (Inl (Invalid_argument m)) \<longleftrightarrow> c = 400 \<and> r = reply_err (Api_text m)"
| "same_verdict (c, Reply_body r) (Inl (Status_not_found m)) \<longleftrightarrow> c = 404 \<and> r = reply_err (Api_text m)"
| "same_verdict (c, Reply_body r) (Inl (Failed_precondition m)) \<longleftrightarrow> c = 200 \<and> r = reply_err (Api_text m)"
| "same_verdict (c, Reply_body r) (Inl (Status_internal m)) \<longleftrightarrow> c = 500 \<and> r = reply_err (Api_text m)"
| "same_verdict _ _ \<longleftrightarrow> False"

definition same_run :: "http_answer prog \<Rightarrow> grpc_answer prog \<Rightarrow> bool" where
  "same_run m n \<longleftrightarrow> (\<forall>w. same_verdict (fst (run_state m w)) (fst (run_state n w)) \<and>
     snd (run_state m w) = snd (run_state n w))"

lemma same_err: "same_verdict (http_err e) (Inl (status_of e))"
  by (cases e) (simp_all add: http_err_def status_of_def)

lemma same_answered: "same_run (answered m) (pb_result m)"
  by (auto simp: same_run_def answered_def pb_result_def http_result_def split_beta same_err split: sum.splits)

lemma same_query: "same_run (http_query env g) (grpc_query env g)"
  by (auto simp: same_run_def http_query_def grpc_query_def split_beta same_err split: sum.splits)

section \<open>Paging\<close>

definition kv_entry :: "topic_sub \<Rightarrow> string \<times> string" where
  "kv_entry s = (t_url s, t_remark s)"

text \<open>The items list each topic once, in order, with its subscribers in order.\<close>

definition lists_topics :: "kv_json \<Rightarrow> topic_sub list \<Rightarrow> kv_item list \<Rightarrow> bool" where
  "lists_topics KJ subs kvs \<longleftrightarrow>
     sorted_wrt (<) (map kv_k kvs) \<and> kv_k ` set kvs = t_topic ` set subs \<and>
     (\<forall>kv\<in>set kvs. kj_parse KJ (kv_v kv) =
        Some (map kv_entry (filter (\<lambda>s. t_topic s = kv_k kv) subs)))"

definition kv_json_ok :: "kv_json \<Rightarrow> bool" where
  "kv_json_ok KJ \<longleftrightarrow> (\<forall>es. kj_parse KJ (kj_print KJ es) = Some es)"

lemma kv_add_cases:
  assumes "kv_json_ok KJ" "lists_topics KJ subs out" "\<forall>x\<in>set subs. t_topic x \<le> t_topic s"
  shows "lists_topics KJ (subs @ [s]) (kv_add KJ out s)"
proof (cases "out \<noteq> [] \<and> kv_k (last out) = t_topic s")
  case True
  then obtain us l where out: "out = us @ [l]" "kv_k l = t_topic s"
    by (cases out rule: rev_cases) auto
  have ns: "filter (\<lambda>x. t_topic x = kv_k kv) [s] = []" if "kv \<in> set us" for kv
    using that assms(2) out by (auto simp: lists_topics_def sorted_wrt_append)
  show ?thesis
    using assms(1,2) out ns
    by (auto simp: lists_topics_def kv_add_def Let_def kv_json_ok_def kv_entry_def sorted_wrt_append)
next
  case False
  have new: "kv_k kv < t_topic s" if kv: "kv \<in> set out" for kv
  proof -
    obtain us l where out: "out = us @ [l]" using kv by (cases out rule: rev_cases) auto
    have "kv_k l \<in> t_topic ` set subs" using assms(2) out by (auto simp: lists_topics_def)
    then have "kv_k l < t_topic s" using assms(3) False out by (auto simp: less_le)
    moreover have "kv_k kv \<le> kv_k l"
      using assms(2) kv out by (auto simp: lists_topics_def sorted_wrt_append less_imp_le)
    ultimately show ?thesis by simp
  qed
  then have none: "filter (\<lambda>x. t_topic x = t_topic s) subs = []"
    using assms(2) by (force simp: lists_topics_def filter_empty_conv)
  have below: "t_topic x < t_topic s" if "x \<in> set subs" for x
  proof -
    from that assms(2) obtain kv where "kv \<in> set out" "kv_k kv = t_topic x"
      by (auto simp: lists_topics_def image_iff) (metis imageE imageI)
    with new show ?thesis by metis
  qed
  have ns: "t_topic s \<noteq> kv_k kv" if "kv \<in> set out" for kv using new [OF that] by auto
  show ?thesis
    using assms(1,2) False new none below ns
    by (auto simp: lists_topics_def kv_add_def Let_def kv_json_ok_def kv_entry_def sorted_wrt_append)
qed

lemma foldl_kv_add:
  "kv_json_ok KJ \<Longrightarrow> sorted (map t_topic subs) \<Longrightarrow> lists_topics KJ subs (foldl (kv_add KJ) [] subs)"
proof (induction subs rule: rev_induct)
  case Nil
  then show ?case by (simp add: lists_topics_def)
next
  case (snoc s subs)
  then show ?case using kv_add_cases [of KJ subs] by (auto simp: sorted_append)
qed

text \<open>The items after a position that is one of the names.\<close>

lemma after_position:
  assumes "sorted_wrt (<) (map kv_k (us @ kv # vs))"
  shows "filter (\<lambda>x. kv_k kv < kv_k x) (us @ kv # vs) = vs"
  using assms by (auto simp: sorted_wrt_append filter_empty_conv filter_id_conv dest: less_asym less_trans)

lemma scan_page_rest:
  assumes "sorted_wrt (<) (map kv_k kvs)" "\<forall>kv\<in>set kvs. kv_k kv \<noteq> []"
    and "filter (\<lambda>kv. position = [] \<or> position < kv_k kv) kvs = rest" "suffix rest kvs"
    and "0 < limit" "limit + 1 < 2 ^ 64" "scan_page position limit kvs = (page, nextp)"
  shows "page = take limit rest"
    and "nextp = [] \<longleftrightarrow> length rest \<le> limit"
    and "nextp \<noteq> [] \<Longrightarrow>
      filter (\<lambda>kv. nextp = [] \<or> nextp < kv_k kv) kvs = drop limit rest"
proof -
  have pg: "page = take limit rest" and nx: "nextp =
      (if limit < length rest then kv_k (last (take limit rest)) else [])"
    using assms(3,5-7) by (auto simp: scan_page_def Let_def min_def split: if_splits)
  show "page = take limit rest" by (rule pg)
  have sub: "set rest \<subseteq> set kvs" using assms(3) by auto
  have ne: "kv_k (last (take limit rest)) \<noteq> []" if "limit < length rest"
  proof -
    from that assms(5) have "take limit rest \<noteq> []" by auto
    then have "last (take limit rest) \<in> set rest" by (meson in_set_takeD last_in_set)
    with sub assms(2) show ?thesis by auto
  qed
  then show "nextp = [] \<longleftrightarrow> length rest \<le> limit" by (auto simp: nx)
  assume "nextp \<noteq> []"
  then have len: "limit < length rest" by (auto simp: nx split: if_splits)
  obtain us where us: "kvs = us @ rest" using assms(4) by (auto simp: suffix_def)
  let ?kv = "last (take limit rest)"
  have "take limit rest = butlast (take limit rest) @ [?kv]"
    using len assms(5) by (intro append_butlast_last_id [symmetric]) auto
  then have split: "rest = butlast (take limit rest) @ ?kv # drop limit rest"
    by (metis append.assoc append_Cons append_Nil append_take_drop_id)
  then have all: "kvs = (us @ butlast (take limit rest)) @ ?kv # drop limit rest"
    using us by simp
  from after_position [of "us @ butlast (take limit rest)" ?kv "drop limit rest"]
  have "filter (\<lambda>x. kv_k ?kv < kv_k x) kvs = drop limit rest"
    using assms(1) unfolding all [symmetric] by simp
  with len ne show "filter (\<lambda>kv. nextp = [] \<or> nextp < kv_k kv) kvs = drop limit rest"
    by (simp add: nx)
qed

section \<open>A client that follows the pages\<close>

fun scan_client ::
  "nat \<Rightarrow> environment \<Rightarrow> kv_json \<Rightarrow> api \<Rightarrow> nat option \<Rightarrow> string \<Rightarrow> kv_item list option prog" where
  "scan_client 0 env KJ a limit position = ret None"
| "scan_client (Suc n) env KJ a limit position = do {
     r \<leftarrow> routes env KJ a [] (Scan_kv_http
           \<lparr>kr_cat = ''topics'', kr_key = [], kr_position = position, kr_limit = limit\<rparr>);
     case r of
       (_, Kv_body page (Some nextp)) \<Rightarrow>
         if nextp = [] then ret (Some page)
         else do {
           more \<leftarrow> scan_client n env KJ a limit nextp;
           ret (map_option (append page) more)
         }
     | _ \<Rightarrow> ret None
   }"

definition nobody_else :: "environment \<Rightarrow> bool" where
  "nobody_else env \<longleftrightarrow> (\<forall>n s. e_others env n s = s)"

definition all_subs :: "api \<Rightarrow> store \<Rightarrow> topic_sub list" where
  "all_subs a s = sort_key t_topic
     (static_subs a None @ filter (\<lambda>x. \<not> is_static a (t_topic x) (t_url x)) (list_subscriptions None s))"

lemma run_topic_kvs:
  assumes "nobody_else env"
  shows "run_state (topic_kvs env KJ a []) w =
    (foldl (kv_add KJ) [] (all_subs a (w_store w)), w\<lparr>w_step := Suc (w_step w)\<rparr>)"
  using assms by (cases w)
    (simp add: topic_kvs_def list_topic_subs_def all_subs_def observe_def access_def nobody_else_def)

definition page_limit :: "nat option \<Rightarrow> nat" where
  "page_limit l = max (case l of None \<Rightarrow> 100 | Some n \<Rightarrow> n) 1"

lemma run_scan:
  assumes "nobody_else env"
  shows "run_state (routes env KJ a [] (Scan_kv_http
      \<lparr>kr_cat = ''topics'', kr_key = [], kr_position = position, kr_limit = limit\<rparr>)) w =
    ((200, Kv_body (fst (scan_page position (page_limit limit) (foldl (kv_add KJ) [] (all_subs a (w_store w)))))
        (Some (snd (scan_page position (page_limit limit) (foldl (kv_add KJ) [] (all_subs a (w_store w))))))),
     w\<lparr>w_step := Suc (w_step w)\<rparr>)"
  by (simp add: scan_kv_def kv_cat_ok_def run_topic_kvs [OF assms] Let_def page_limit_def split_beta)

lemma scan_client_rest:
  assumes "nobody_else env" "page_limit limit + 1 < 2 ^ 64"
    and "foldl (kv_add KJ) [] (all_subs a (w_store w)) = kvs"
    and "sorted_wrt (<) (map kv_k kvs)" "\<forall>kv\<in>set kvs. kv_k kv \<noteq> []"
    and "filter (\<lambda>kv. position = [] \<or> position < kv_k kv) kvs = rest" "suffix rest kvs"
    and "length rest < n"
  shows "fst (run_state (scan_client n env KJ a limit position) w) = Some rest"
  using assms(3,6-8)
proof (induction n arbitrary: position rest w)
  case (Suc n)
  let ?l = "page_limit limit" and ?w = "w\<lparr>w_step := Suc (w_step w)\<rparr>"
  have pos: "0 < ?l" by (simp add: page_limit_def)
  obtain page nextp where pg: "scan_page position ?l kvs = (page, nextp)" by fastforce
  note r = scan_page_rest [OF assms(4,5) Suc.prems(2,3) pos assms(2) pg]
  show ?case
  proof (cases "nextp = []")
    case True
    with r pg show ?thesis by (simp add: run_scan [OF assms(1)] Suc.prems(1) del: routes.simps)
  next
    case False
    with r have len: "?l < length rest" by simp
    have "suffix (drop ?l rest) kvs" using Suc.prems(3) suffix_drop suffix_order.trans by blast
    then have "fst (run_state (scan_client n env KJ a limit nextp) ?w) = Some (drop ?l rest)"
      by (intro Suc.IH) (use Suc.prems r(3) [OF False] len pos in auto)
    with False r pg show ?thesis
      by (simp add: run_scan [OF assms(1)] Suc.prems(1) split_beta del: routes.simps)
  qed
qed simp

section \<open>A codec for the examples\<close>

fun enc_str :: "string \<Rightarrow> string" where
  "enc_str [] = ''.''"
| "enc_str (c # cs) = CHR ''x'' # c # enc_str cs"

fun dec_strs :: "string \<Rightarrow> string \<Rightarrow> string list" where
  "dec_strs acc (CHR ''x'' # c # r) = dec_strs (acc @ [c]) r"
| "dec_strs acc (_ # r) = acc # dec_strs [] r"
| "dec_strs acc [] = []"

fun pair_up :: "string list \<Rightarrow> (string \<times> string) list" where
  "pair_up (a # b # r) = (a, b) # pair_up r"
| "pair_up _ = []"

definition demo_kv :: kv_json where
  "demo_kv = \<lparr>kj_print = (\<lambda>es. concat (map (\<lambda>(u, r). enc_str u @ enc_str r) es)),
     kj_parse = (\<lambda>v. Some (pair_up (dec_strs [] v)))\<rparr>"

lemma dec_enc: "dec_strs acc (enc_str u @ r) = (acc @ u) # dec_strs [] r"
  by (induction u arbitrary: acc) simp_all

lemma demo_kv_ok: "kv_json_ok demo_kv"
proof -
  have "pair_up (dec_strs [] (concat (map (\<lambda>(u, r). enc_str u @ enc_str r) es))) = es" for es
    by (induction es) (auto simp: dec_enc)
  then show ?thesis by (simp add: kv_json_ok_def demo_kv_def)
qed

definition shop_subs :: store where
  "shop_subs = (one_txn 5 Tcc GPrepared)\<lparr>st_topic := map (\<lambda>(t, u).
     \<lparr>t_topic = t, t_url = u, t_remark = [], t_create_time = 5\<rparr>)
     [(''paid'', ''http://mail''), (''cancelled'', ''http://stock''), (''paid'', ''http://stock'')]\<rparr>"

section \<open>Properties\<close>



text \<open>
  What is written out on one protocol and missing on the other is not the same: an empty mode is
  refused by HTTP and read as saga by gRPC, and a grace of zero asks back at once on HTTP.
\<close>

lemma protocols_differ_on_written_zeros:
  "g \<noteq> [] \<Longrightarrow> run_state (routes env KJ a gid (Submit_http \<lparr>sr_gid = g, sr_trans_type = [], sr_steps = steps\<rparr>)) w =
     ((400, Reply_body (reply_err (Api_text Unknown_trans_type))), w)"
  "tc_service env a gid (Submit_grpc \<lparr>ps_gid = g, ps_trans_type = [], ps_steps = steps\<rparr>) =
     pb_result (submit env a g ''saga'' steps)"
  by (simp_all add: http_submit_def grpc_submit_def answered_def submit_def parse_trans_type_def
      http_result_def http_err_def)

text \<open>The last page size there is makes the release build answer that there is nothing.\<close>

lemma largest_page_is_empty: "scan_page position (2 ^ 64 - 1) kvs = ([], [])"
  by (simp add: scan_page_def)

text \<open>
  Following the pages of scanKV to the end, while nobody changes the subscriptions, lists every
  topic exactly once, in order, each with its subscribers in order, whatever the size of a page
  (below the largest \<open>usize\<close>, and for topics that have a name).
\<close>

theorem scan_lists_every_topic_once:
  assumes "nobody_else env" "kv_json_ok KJ" "page_limit limit + 1 < 2 ^ 64"
    and "\<forall>s\<in>set (all_subs a (w_store w)). t_topic s \<noteq> []"
    and "length (all_subs a (w_store w)) < n"
  shows "\<exists>kvs. fst (run_state (scan_client n env KJ a limit []) w) = Some kvs \<and>
    lists_topics KJ (all_subs a (w_store w)) kvs"
proof -
  let ?subs = "all_subs a (w_store w)"
  let ?kvs = "foldl (kv_add KJ) [] ?subs"
  have l: "lists_topics KJ ?subs ?kvs"
    by (rule foldl_kv_add [OF assms(2)]) (simp add: all_subs_def)
  then have ks: "kv_k ` set ?kvs = t_topic ` set ?subs" "sorted_wrt (<) (map kv_k ?kvs)"
    by (simp_all add: lists_topics_def)
  then have "distinct (map kv_k ?kvs)" by (metis strict_sorted_iff)
  then have "length ?kvs = card (kv_k ` set ?kvs)" by (metis distinct_card length_map set_map)
  also have "\<dots> \<le> length ?subs" by (metis ks(1) card_image_le List.finite_set card_length order_trans)
  finally have len: "length ?kvs < n" using assms(5) by simp
  have "kv_k kv \<noteq> []" if "kv \<in> set ?kvs" for kv
    using that assms(4) ks(1) by (metis (no_types, lifting) imageE imageI)
  then have "fst (run_state (scan_client n env KJ a limit []) w) = Some ?kvs"
    by (intro scan_client_rest [OF assms(1,3) refl ks(2)]) (use len in auto)
  with l show ?thesis by blast
qed

lemma scan_lists_every_topic_once_witness:
  "\<exists>kvs. fst (run_state (scan_client 4 quiet demo_kv (api_new (demo_json [] []) 35) (Some 1) [])
       (world_of shop_subs)) = Some kvs \<and>
     lists_topics demo_kv (all_subs (api_new (demo_json [] []) 35) (w_store (world_of shop_subs))) kvs"
proof (rule scan_lists_every_topic_once [OF _ demo_kv_ok])
  show "nobody_else quiet" by (simp add: nobody_else_def quiet_def)
  show "page_limit (Some 1) + 1 < 2 ^ 64" by (simp add: page_limit_def)
  show "\<forall>s\<in>set (all_subs (api_new (demo_json [] []) 35) (w_store (world_of shop_subs))). t_topic s \<noteq> []"
    by code_simp
  show "length (all_subs (api_new (demo_json [] []) 35) (w_store (world_of shop_subs))) < 4"
    by code_simp
qed

text \<open>
  The topic routes of an embedded coordinator are open only to those who know the secret: a
  request without it is refused and changes nothing, and nothing but these routes is served.
\<close>

theorem topic_api_guarded:
  "snd (run_state (topic_router env KJ a token h req) w) = w \<and>
     fst (run_state (topic_router env KJ a token h req) w) \<in>
       {Some (200, Text_body ''ok''), Some (401, Reply_body (reply_err Unauthorized_text)), None} \<or>
   topic_request req \<and> (\<exists>v. h = Some v \<and> bearer v = Some token)"
  by (auto simp: topic_router_def carries_token_def ct_eq_iff split: option.splits)

text \<open>
  The same tokens open both protocols: a request without a session passes the guard of HTTP
  exactly when gRPC admits its bearer token, the health check aside.
\<close>

theorem same_tokens_on_both_protocols:
  "fst (guard sha s t (r\<lparr>hd_path := snd (route_of req), hd_cookie := None\<rparr>) a) = Passed \<longleftrightarrow>
     req = Health_http \<or> fst (grpc_admits sha s t ip (hd_authorization r) a)"
proof -
  have "public_path (snd (route_of req)) \<longleftrightarrow> req = Health_http"
    by (cases req) (simp_all add: public_path_def)
  then show ?thesis
    by (auto simp: guard_def grpc_admits_def managed_ok_def public_path_def session_of_def cookie_of_def
        Let_def split: option.splits)
qed

end
