(* ===== verification/Embedded.thy ===== *)
theory Embedded
  imports Http
begin

text \<open>
  The coordinator inside another process (\<^verbatim>\<open>crates/dtmrs-server/src/embedded.rs\<close>): a builder with
  handlers, workflows and static subscriptions, and the facade over API and store with its
  builders for sagas, TCC and XA transactions and messages. The code of the host (the try of a
  branch, a local transaction) is a program that is an argument. Starting and stopping the
  worker tasks and the listener is the runtime's.
\<close>

type_synonym handler = "nat \<Rightarrow> branch_call \<Rightarrow> branch_result"

datatype embedded_error =
    Bad_static_topic string string
  | Static_branches_missing "string list"
  | Open_failed
  | Branches_missing "string list"
  | Workflow_missing string
  | Not_opened string
  | No_saga_step
  | No_secret
  | Bind_failed
  | Wait_timed_out string
  | Api_failed api_error
  | Store_failed store_error

type_synonym 'a emb_res = "embedded_error + 'a"

text \<open>The question mark on a result of the API or of the store.\<close>

definition try_api :: "'a api_res \<Rightarrow> 'a emb_res" where
  "try_api r = (case r of Inl e \<Rightarrow> Inl (Api_failed e) | Inr x \<Rightarrow> Inr x)"

definition try_store :: "'a res \<Rightarrow> unit emb_res" where
  "try_store r = (case r of Inl e \<Rightarrow> Inl (Store_failed e) | Inr _ \<Rightarrow> Inr ())"

section \<open>The builder\<close>

record embedded_builder =
  eb_db :: string
  eb_owner :: string
  eb_registry :: "handler registry"
  eb_workflows :: wf_registry
  eb_tick_ms :: int
  eb_topics :: "(string \<times> string) list"
  eb_alert :: "alert_config option"

definition builder :: "string \<Rightarrow> nat \<Rightarrow> embedded_builder" where
  "builder db process_id =
     \<lparr>eb_db = db, eb_owner = ''embedded-'' @ dec process_id, eb_registry = registry_new,
      eb_workflows = registry_new, eb_tick_ms = 200, eb_topics = [], eb_alert = None\<rparr>"

definition alert_limit :: "int \<Rightarrow> int" where
  "alert_limit n = (if 0 < n then n else default_alert_retry_limit)"

definition alert_webhook :: "string \<Rightarrow> int \<Rightarrow> embedded_builder \<Rightarrow> embedded_builder" where
  "alert_webhook url limit b =
     b\<lparr>eb_alert := Some \<lparr>ac_sink = Webhook url, ac_retry_limit = alert_limit limit\<rparr>\<rparr>"

definition on_alert :: "int \<Rightarrow> embedded_builder \<Rightarrow> embedded_builder" where
  "on_alert limit b =
     b\<lparr>eb_alert := Some \<lparr>ac_sink = Callback, ac_retry_limit = alert_limit limit\<rparr>\<rparr>"

definition eb_subscribe :: "string \<Rightarrow> string \<Rightarrow> embedded_builder \<Rightarrow> embedded_builder" where
  "eb_subscribe topic url b = b\<lparr>eb_topics := eb_topics b @ [(topic, url)]\<rparr>"

definition eb_handler :: "string \<Rightarrow> handler \<Rightarrow> embedded_builder \<Rightarrow> embedded_builder" where
  "eb_handler name f b = b\<lparr>eb_registry := register name f (eb_registry b)\<rparr>"

definition set_owner :: "string \<Rightarrow> embedded_builder \<Rightarrow> embedded_builder" where
  "set_owner ow b = b\<lparr>eb_owner := ow\<rparr>"

definition set_tick :: "int \<Rightarrow> embedded_builder \<Rightarrow> embedded_builder" where
  "set_tick ms b = b\<lparr>eb_tick_ms := ms\<rparr>"

definition eb_workflow ::
  "string \<Rightarrow> (string \<Rightarrow> string \<Rightarrow> wf_body) \<Rightarrow> embedded_builder \<Rightarrow> embedded_builder" where
  "eb_workflow name f b = b\<lparr>eb_workflows := register name f (eb_workflows b)\<rparr>"

record embedded =
  em_api :: api
  em_registry :: "handler registry"
  em_workflows :: wf_registry
  em_driver :: driver

text \<open>
  \<open>start\<close>: \<open>opens\<close> says whether the store can be opened, \<open>js\<close> and \<open>dflt\<close> are what the process
  brings for API and driver.
\<close>

definition start :: "json \<Rightarrow> int \<Rightarrow> (string \<Rightarrow> bool) \<Rightarrow> embedded_builder \<Rightarrow> embedded emb_res" where
  "start js dflt opens b =
     (case find (\<lambda>(t, u). t = [] \<or> u = [] \<or> prefix msg_topic_prefix u) (eb_topics b) of
        Some (t, u) \<Rightarrow> Inl (Bad_static_topic t u)
      | None \<Rightarrow>
          (case check_all (eb_registry b) (map snd (eb_topics b)) of
             Inl missing \<Rightarrow> Inl (Static_branches_missing missing)
           | Inr _ \<Rightarrow>
               if \<not> opens (eb_db b) then Inl Open_failed
               else Inr
                 \<lparr>em_api = with_static_topics (eb_topics b) (api_new js dflt),
                  em_registry = eb_registry b, em_workflows = eb_workflows b,
                  em_driver = (with_config js dflt (eb_owner b) driver_config_default)
                    \<lparr>dr_alert := eb_alert b, dr_workflows := eb_workflows b\<rparr>\<rparr>))"

section \<open>The facade\<close>

definition check_local :: "embedded \<Rightarrow> string list \<Rightarrow> unit emb_res" where
  "check_local em targets =
     (case check_all (em_registry em) targets of
        Inl missing \<Rightarrow> Inl (Branches_missing missing)
      | Inr _ \<Rightarrow> Inr ())"

definition submit_workflow ::
  "environment \<Rightarrow> embedded \<Rightarrow> string \<Rightarrow> string \<Rightarrow> string \<Rightarrow> unit emb_res prog" where
  "submit_workflow env em gid name input =
     (if em_workflows em name = None then ret (Inl (Workflow_missing name))
      else do {
        t \<leftarrow> observe env st_clock;
        let g = (tcc_rows t gid)\<lparr>g_trans_type := Workflow, g_status := GSubmitted,
                   g_payload := encode_payload (ap_json (em_api em)) name input\<rparr>;
        r \<leftarrow> access env (create_global g []);
        ret (try_store r)
      })"

definition begin_two_phase ::
  "environment \<Rightarrow> embedded \<Rightarrow> string \<Rightarrow> string \<Rightarrow> int \<Rightarrow> unit emb_res prog" where
  "begin_two_phase env em gid tt timeout_secs = do {
     r \<leftarrow> prepare_with env (em_api em) gid tt [] [] None
           (prepare_opts_default\<lparr>po_timeout_to_fail := timeout_secs\<rparr>);
     ret (try_api r)
   }"

text \<open>A transaction in progress: its gid and the index of the next branch.\<close>

record two_phase =
  tp_gid :: string
  tp_next :: nat

definition tcc_with_timeout ::
  "environment \<Rightarrow> embedded \<Rightarrow> string \<Rightarrow> int \<Rightarrow> two_phase emb_res prog" where
  "tcc_with_timeout env em gid timeout_secs = do {
     r \<leftarrow> begin_two_phase env em gid ''tcc'' timeout_secs;
     ret (case r of Inl e \<Rightarrow> Inl e | Inr _ \<Rightarrow> Inr \<lparr>tp_gid = gid, tp_next = 0\<rparr>)
   }"

definition tcc :: "environment \<Rightarrow> embedded \<Rightarrow> string \<Rightarrow> two_phase emb_res prog" where
  "tcc env em gid = tcc_with_timeout env em gid 0"

definition xa_with_timeout ::
  "environment \<Rightarrow> embedded \<Rightarrow> string \<Rightarrow> int \<Rightarrow> two_phase emb_res prog" where
  "xa_with_timeout env em gid timeout_secs = do {
     r \<leftarrow> begin_two_phase env em gid ''xa'' timeout_secs;
     ret (case r of Inl e \<Rightarrow> Inl e | Inr _ \<Rightarrow> Inr \<lparr>tp_gid = gid, tp_next = 0\<rparr>)
   }"

definition xa :: "environment \<Rightarrow> embedded \<Rightarrow> string \<Rightarrow> two_phase emb_res prog" where
  "xa env em gid = xa_with_timeout env em gid 0"

definition register_default :: register_request where
  "register_default =
     \<lparr>rb_gid = [], rb_branch_id = [], rb_confirm = [], rb_cancel = [], rb_try = [], rb_commit = [],
      rb_rollback = [], rb_data = []\<rparr>"

definition register_tcc_branch_with ::
  "environment \<Rightarrow> embedded \<Rightarrow> string \<Rightarrow> string \<Rightarrow> string \<Rightarrow> string \<Rightarrow> string \<Rightarrow> unit emb_res prog" where
  "register_tcc_branch_with env em gid bid confirm cancel payload =
     (case check_local em [confirm, cancel] of
        Inl e \<Rightarrow> ret (Inl e)
      | Inr _ \<Rightarrow> do {
          r \<leftarrow> api_register_branch env (register_default\<lparr>rb_gid := gid, rb_branch_id := bid,
                 rb_confirm := confirm, rb_cancel := cancel, rb_data := payload\<rparr>);
          ret (try_api r)
        })"

definition register_tcc_branch ::
  "environment \<Rightarrow> embedded \<Rightarrow> string \<Rightarrow> string \<Rightarrow> string \<Rightarrow> string \<Rightarrow> unit emb_res prog" where
  "register_tcc_branch env em gid bid confirm cancel =
     register_tcc_branch_with env em gid bid confirm cancel []"

definition register_xa_branch ::
  "environment \<Rightarrow> embedded \<Rightarrow> string \<Rightarrow> string \<Rightarrow> string \<Rightarrow> string \<Rightarrow> unit emb_res prog" where
  "register_xa_branch env em gid bid commit rollback =
     (case check_local em [commit, rollback] of
        Inl e \<Rightarrow> ret (Inl e)
      | Inr _ \<Rightarrow> do {
          r \<leftarrow> api_register_branch env (register_default\<lparr>rb_gid := gid, rb_branch_id := bid,
                 rb_commit := commit, rb_rollback := rollback\<rparr>);
          ret (try_api r)
        })"

definition em_submit :: "environment \<Rightarrow> embedded \<Rightarrow> string \<Rightarrow> unit emb_res prog" where
  "em_submit env em gid = do {
     row \<leftarrow> observe env (get_global gid);
     case row of
       None \<Rightarrow> ret (Inl (Not_opened gid))
     | Some g \<Rightarrow> do {
         r \<leftarrow> submit env (em_api em) gid (trans_type_str (g_trans_type g)) [];
         ret (try_api r)
       }
   }"

definition em_abort :: "environment \<Rightarrow> string \<Rightarrow> unit emb_res prog" where
  "em_abort env gid = do { r \<leftarrow> api_abort env gid; ret (try_api r) }"

definition em_status :: "environment \<Rightarrow> string \<Rightarrow> global_status option prog" where
  "em_status env gid = observe env (\<lambda>s. map_option g_status (get_global gid s))"

text \<open>
  The loop of \<open>wait_final\<close>: \<open>clock k\<close> is the instant read in turn \<open>k\<close>. \<open>None\<close> is the fuel used up.
\<close>

fun wait_final ::
  "nat \<Rightarrow> environment \<Rightarrow> (nat \<Rightarrow> int) \<Rightarrow> int \<Rightarrow> nat \<Rightarrow> string \<Rightarrow> global_status emb_res option prog" where
  "wait_final 0 env clock deadline k gid = ret None"
| "wait_final (Suc n) env clock deadline k gid = do {
     st \<leftarrow> em_status env gid;
     if (case st of Some s \<Rightarrow> is_final s | None \<Rightarrow> False) then ret (Some (Inr (the st)))
     else if deadline \<le> clock k then ret (Some (Inl (Wait_timed_out gid)))
     else wait_final n env clock deadline (Suc k) gid
   }"

definition em_subscribe ::
  "environment \<Rightarrow> embedded \<Rightarrow> string \<Rightarrow> string \<Rightarrow> string \<Rightarrow> unit emb_res prog" where
  "em_subscribe env em topic url remark =
     (case check_local em [url] of
        Inl e \<Rightarrow> ret (Inl e)
      | Inr _ \<Rightarrow> do { r \<leftarrow> api_subscribe env (em_api em) topic url remark; ret (try_api r) })"

definition em_unsubscribe ::
  "environment \<Rightarrow> embedded \<Rightarrow> string \<Rightarrow> string \<Rightarrow> unit emb_res prog" where
  "em_unsubscribe env em topic url = do {
     r \<leftarrow> api_unsubscribe env (em_api em) topic url;
     ret (try_api r)
   }"

definition subscriptions ::
  "environment \<Rightarrow> embedded \<Rightarrow> string option \<Rightarrow> topic_sub list emb_res prog" where
  "subscriptions env em topic = do { v \<leftarrow> list_topic_subs env (em_api em) topic; ret (Inr v) }"

definition stuck ::
  "environment \<Rightarrow> int \<Rightarrow> int \<Rightarrow> trans_view list emb_res prog" where
  "stuck env min_retries limit = do { r \<leftarrow> api_list_stuck env min_retries limit; ret (try_api r) }"

text \<open>The counter of empty topics is the number of events of its kind.\<close>

definition empty_topic_count :: "world \<Rightarrow> nat" where
  "empty_topic_count w =
     length (filter (\<lambda>e. case e of Empty_topic_passed _ \<Rightarrow> True | _ \<Rightarrow> False) (w_trace w))"

text \<open>\<open>serve_topic_api\<close>: the service it starts, when the address can be bound.\<close>

definition serve_topic_api ::
  "bool \<Rightarrow> embedded \<Rightarrow> kv_json \<Rightarrow> string \<Rightarrow>
   (environment \<Rightarrow> string option \<Rightarrow> http_request \<Rightarrow> http_answer option prog) emb_res" where
  "serve_topic_api bound em KJ token =
     (if token = [] then Inl No_secret
      else if \<not> bound then Inl Bind_failed
      else Inr (\<lambda>env h req. topic_router env KJ (em_api em) token h req))"

section \<open>Sagas\<close>

record saga_builder =
  sb_gid :: string
  sb_steps :: "saga_step list"

definition saga :: "string \<Rightarrow> saga_builder" where
  "saga gid = \<lparr>sb_gid = gid, sb_steps = []\<rparr>"

definition sb_step :: "string \<Rightarrow> string \<Rightarrow> saga_builder \<Rightarrow> saga_builder" where
  "sb_step action compensate b = b\<lparr>sb_steps := sb_steps b @ [saga_step_new action compensate]\<rparr>"

definition sb_step_with :: "string \<Rightarrow> string \<Rightarrow> string \<Rightarrow> saga_builder \<Rightarrow> saga_builder" where
  "sb_step_with action compensate payload b =
     b\<lparr>sb_steps := sb_steps b @ [saga_step_with_payload action compensate payload]\<rparr>"

definition sb_submit :: "environment \<Rightarrow> embedded \<Rightarrow> saga_builder \<Rightarrow> unit emb_res prog" where
  "sb_submit env em b =
     (if sb_steps b = [] then ret (Inl No_saga_step)
      else case check_all (em_registry em)
                  (concat (map (\<lambda>s. [s_action s, s_compensate s]) (sb_steps b))) of
          Inl missing \<Rightarrow> ret (Inl (Branches_missing missing))
        | Inr _ \<Rightarrow> do {
            t \<leftarrow> observe env st_clock;
            let (g, branches) = saga_rows (ap_json (em_api em)) t (sb_gid b) (sb_steps b);
            r \<leftarrow> access env (create_global g branches);
            ret (try_store r)
          })"

section \<open>TCC and XA\<close>

text \<open>The handle is threaded: its next index moves when a registration succeeded.\<close>

definition tcc_register_with ::
  "environment \<Rightarrow> embedded \<Rightarrow> string \<Rightarrow> string \<Rightarrow> string \<Rightarrow> two_phase \<Rightarrow> (string emb_res \<times> two_phase) prog" where
  "tcc_register_with env em confirm cancel payload h = do {
     let bid = branch_id (tp_next h);
     r \<leftarrow> register_tcc_branch_with env em (tp_gid h) bid confirm cancel payload;
     ret (case r of
            Inl e \<Rightarrow> (Inl e, h)
          | Inr _ \<Rightarrow> (Inr bid, h\<lparr>tp_next := tp_next h + 1\<rparr>))
   }"

definition tcc_register ::
  "environment \<Rightarrow> embedded \<Rightarrow> string \<Rightarrow> string \<Rightarrow> two_phase \<Rightarrow> (string emb_res \<times> two_phase) prog" where
  "tcc_register env em confirm cancel h = tcc_register_with env em confirm cancel [] h"

definition try_branch_with ::
  "environment \<Rightarrow> embedded \<Rightarrow> string \<Rightarrow> string \<Rightarrow> string \<Rightarrow> (string \<Rightarrow> branch_result prog) \<Rightarrow> two_phase \<Rightarrow>
   (branch_result emb_res \<times> two_phase) prog" where
  "try_branch_with env em confirm cancel payload try_fn h = do {
     (r, h) \<leftarrow> tcc_register_with env em confirm cancel payload h;
     case r of
       Inl e \<Rightarrow> ret (Inl e, h)
     | Inr bid \<Rightarrow> do { res \<leftarrow> try_fn bid; ret (Inr res, h) }
   }"

definition try_branch ::
  "environment \<Rightarrow> embedded \<Rightarrow> string \<Rightarrow> string \<Rightarrow> (string \<Rightarrow> branch_result prog) \<Rightarrow> two_phase \<Rightarrow>
   (branch_result emb_res \<times> two_phase) prog" where
  "try_branch env em confirm cancel try_fn h = try_branch_with env em confirm cancel [] try_fn h"

definition xa_register ::
  "environment \<Rightarrow> embedded \<Rightarrow> string \<Rightarrow> string \<Rightarrow> two_phase \<Rightarrow> (string emb_res \<times> two_phase) prog" where
  "xa_register env em commit rollback h = do {
     let bid = branch_id (tp_next h);
     r \<leftarrow> register_xa_branch env em (tp_gid h) bid commit rollback;
     ret (case r of
            Inl e \<Rightarrow> (Inl e, h)
          | Inr _ \<Rightarrow> (Inr bid, h\<lparr>tp_next := tp_next h + 1\<rparr>))
   }"

definition prepare_branch ::
  "environment \<Rightarrow> embedded \<Rightarrow> string \<Rightarrow> string \<Rightarrow> (string \<Rightarrow> branch_result prog) \<Rightarrow> two_phase \<Rightarrow>
   (branch_result emb_res \<times> two_phase) prog" where
  "prepare_branch env em commit rollback prepare_fn h = do {
     (r, h) \<leftarrow> xa_register env em commit rollback h;
     case r of
       Inl e \<Rightarrow> ret (Inl e, h)
     | Inr bid \<Rightarrow> do { res \<leftarrow> prepare_fn bid; ret (Inr res, h) }
   }"

definition tp_submit :: "environment \<Rightarrow> embedded \<Rightarrow> two_phase \<Rightarrow> unit emb_res prog" where
  "tp_submit env em h = em_submit env em (tp_gid h)"

definition tp_abort :: "environment \<Rightarrow> two_phase \<Rightarrow> unit emb_res prog" where
  "tp_abort env h = em_abort env (tp_gid h)"

section \<open>Messages\<close>

record msg_builder =
  ms_gid :: string
  ms_actions :: "string list"
  ms_payloads :: "string list"
  ms_query_prepared :: string
  ms_grace_secs :: "int option"
  ms_allow_empty_topic :: bool

definition msg :: "string \<Rightarrow> msg_builder" where
  "msg gid =
     \<lparr>ms_gid = gid, ms_actions = [], ms_payloads = [], ms_query_prepared = [], ms_grace_secs = None,
      ms_allow_empty_topic = False\<rparr>"

definition action_with :: "string \<Rightarrow> string \<Rightarrow> msg_builder \<Rightarrow> msg_builder" where
  "action_with target payload b =
     b\<lparr>ms_actions := ms_actions b @ [target], ms_payloads := ms_payloads b @ [payload]\<rparr>"

definition ms_topic :: "string \<Rightarrow> string \<Rightarrow> msg_builder \<Rightarrow> msg_builder" where
  "ms_topic topic payload = action_with (msg_topic_prefix @ topic) payload"

definition allow_empty_topic :: "msg_builder \<Rightarrow> msg_builder" where
  "allow_empty_topic b = b\<lparr>ms_allow_empty_topic := True\<rparr>"

definition ms_action :: "string \<Rightarrow> msg_builder \<Rightarrow> msg_builder" where
  "ms_action target = action_with target []"

definition set_query_prepared :: "string \<Rightarrow> msg_builder \<Rightarrow> msg_builder" where
  "set_query_prepared target b = b\<lparr>ms_query_prepared := target\<rparr>"

definition set_grace_secs :: "int \<Rightarrow> msg_builder \<Rightarrow> msg_builder" where
  "set_grace_secs n b = b\<lparr>ms_grace_secs := Some n\<rparr>"

definition ms_prepare :: "environment \<Rightarrow> embedded \<Rightarrow> msg_builder \<Rightarrow> unit emb_res prog" where
  "ms_prepare env em b =
     (case check_local em (ms_actions b @ [ms_query_prepared b]) of
        Inl e \<Rightarrow> ret (Inl e)
      | Inr _ \<Rightarrow> do {
          r \<leftarrow> prepare_with env (em_api em) (ms_gid b) ''msg'' (ms_actions b) (ms_query_prepared b)
                 (ms_grace_secs b)
                 (prepare_opts_default
                   \<lparr>po_payloads := (if list_all (\<lambda>p. p = []) (ms_payloads b) then [] else ms_payloads b),
                    po_allow_empty_topic := ms_allow_empty_topic b\<rparr>);
          ret (try_api r)
        })"

definition do_and_submit ::
  "environment \<Rightarrow> embedded \<Rightarrow> branch_result prog \<Rightarrow> msg_builder \<Rightarrow> branch_result emb_res prog" where
  "do_and_submit env em local_tx b = do {
     p \<leftarrow> ms_prepare env em b;
     case p of
       Inl e \<Rightarrow> ret (Inl e)
     | Inr _ \<Rightarrow> do {
         r \<leftarrow> local_tx;
         done \<leftarrow> (case r of
             Success \<Rightarrow> em_submit env em (ms_gid b)
           | Failure \<Rightarrow> em_abort env (ms_gid b)
           | _ \<Rightarrow> ret (Inr ()));
         ret (case done of Inl e \<Rightarrow> Inl e | Inr _ \<Rightarrow> Inr r)
       }
   }"

end
