(* ===== verification/Embedded_Laws.thy ===== *)
theory Embedded_Laws
  imports Embedded Api_Laws
begin

text \<open>
  What the embedded coordinator promises its host: no branch is accepted that it could not call,
  the try of a branch and a local transaction run only when the coordinator already knows of
  them, the outcome of a message follows its local transaction, and waiting ends.
\<close>

section \<open>Local branches\<close>

definition runnable :: "embedded \<Rightarrow> string list \<Rightarrow> bool" where
  "runnable em targets \<longleftrightarrow> (\<forall>n. ''local://'' @ n \<in> set targets \<longrightarrow> em_registry em n \<noteq> None)"

lemma check_local_iff: "(\<exists>u. check_local em targets = Inr u) \<longleftrightarrow> runnable em targets"
  using check_all_ok_iff [of "em_registry em" targets]
  by (auto simp: check_local_def runnable_def split: sum.splits)

lemma check_local_Inl: "check_local em targets = Inl e \<Longrightarrow> \<not> runnable em targets"
  using check_local_iff [of em targets] by auto

lemma check_all_Inl: "check_all (em_registry em) targets = Inl e \<Longrightarrow> \<not> runnable em targets"
  using check_all_ok_iff [of "em_registry em" targets] by (auto simp: runnable_def)

lemma check_all_Inr: "check_all (em_registry em) targets = Inr u \<Longrightarrow> runnable em targets"
  using check_all_ok_iff [of "em_registry em" targets] by (auto simp: runnable_def)

text \<open>An operation that is given targets, and refuses before it does anything when one is missing.\<close>

definition refuses_unknown :: "embedded \<Rightarrow> string list \<Rightarrow> 'a emb_res prog \<Rightarrow> bool" where
  "refuses_unknown em targets m \<longleftrightarrow>
     (\<not> runnable em targets \<longrightarrow> (\<forall>w. isl (fst (run_state m w)) \<and> snd (run_state m w) = w))"

lemma refuses_register_tcc:
  "refuses_unknown em [confirm, cancel] (register_tcc_branch_with env em gid bid confirm cancel payload)"
  using check_local_iff [of em "[confirm, cancel]"]
  by (auto simp: refuses_unknown_def register_tcc_branch_with_def split: sum.splits)

lemma refuses_register_xa:
  "refuses_unknown em [commit, rollback] (register_xa_branch env em gid bid commit rollback)"
  using check_local_iff [of em "[commit, rollback]"]
  by (auto simp: refuses_unknown_def register_xa_branch_def split: sum.splits)

lemma refuses_subscribe: "refuses_unknown em [url] (em_subscribe env em topic url remark)"
  using check_local_iff [of em "[url]"]
  by (auto simp: refuses_unknown_def em_subscribe_def split: sum.splits)

lemma refuses_prepare:
  "refuses_unknown em (ms_actions b @ [ms_query_prepared b]) (ms_prepare env em b)"
  using check_local_iff [of em "ms_actions b @ [ms_query_prepared b]"]
  by (auto simp: refuses_unknown_def ms_prepare_def split: sum.splits)

lemma refuses_saga:
  "refuses_unknown em (concat (map (\<lambda>s. [s_action s, s_compensate s]) (sb_steps b))) (sb_submit env em b)"
  using check_all_ok_iff [of "em_registry em" "concat (map (\<lambda>s. [s_action s, s_compensate s]) (sb_steps b))"]
  by (auto simp: refuses_unknown_def runnable_def sb_submit_def split: sum.splits)

section \<open>Registration before the try\<close>

lemma tcc_register_success:
  assumes "run_state (tcc_register_with env em confirm cancel payload h) w = ((Inr bid, h'), w1)"
  shows "bid = branch_id (tp_next h)" "h' = h\<lparr>tp_next := tp_next h + 1\<rparr>" "runnable em [confirm, cancel]"
    and "\<exists>b. branch_at (tp_gid h) bid Confirm (w_store w1) = Some b \<and> b_url b = confirm"
    and "\<exists>b. branch_at (tp_gid h) bid Cancel (w_store w1) = Some b \<and> b_url b = cancel"
proof -
  let ?r = "register_default\<lparr>rb_gid := tp_gid h, rb_branch_id := branch_id (tp_next h),
    rb_confirm := confirm, rb_cancel := cancel, rb_data := payload\<rparr>"
  from assms show bid: "bid = branch_id (tp_next h)" and "h' = h\<lparr>tp_next := tp_next h + 1\<rparr>"
    by (auto simp: tcc_register_with_def Let_def split_beta split: sum.splits)
  from assms obtain u where ok: "check_local em [confirm, cancel] = Inr u"
    by (auto simp: tcc_register_with_def register_tcc_branch_with_def Let_def split_beta split: sum.splits)
  then show "runnable em [confirm, cancel]" using check_local_iff by blast
  have "run_state (api_register_branch env ?r) w = (Inr (), w1)"
    using assms ok
    by (cases "run_state (api_register_branch env ?r) w")
      (auto simp: tcc_register_with_def register_tcc_branch_with_def try_api_def Let_def split_beta split: sum.splits)
  from register_branch_success [OF this]
  show "\<exists>b. branch_at (tp_gid h) bid Confirm (w_store w1) = Some b \<and> b_url b = confirm"
    and "\<exists>b. branch_at (tp_gid h) bid Cancel (w_store w1) = Some b \<and> b_url b = cancel"
    by (simp_all add: stored_branch_def register_default_def bid)
qed

lemma tcc_register_failure:
  "run_state (tcc_register_with env em confirm cancel payload h) w = ((Inl e, h'), w1) \<Longrightarrow> h' = h"
  by (auto simp: tcc_register_with_def Let_def split_beta split: sum.splits)

section \<open>Messages\<close>

lemma create_global_there:
  assumes "create_global g bs s = (Inr b, s')" shows "get_global (g_gid g) s' \<noteq> None"
proof (cases b)
  case True
  with assms get_create_global [of g bs s s'] show ?thesis by simp
next
  case False
  with assms create_global_existing [of g bs s s'] show ?thesis by auto
qed

definition stored_if_ok :: "string \<Rightarrow> 'a res \<Rightarrow> world \<Rightarrow> bool" where
  "stored_if_ok gid r w \<longleftrightarrow> isl r \<or> get_global gid (w_store w) \<noteq> None"

lemma triple_any: "triple (\<lambda>_. True) m (\<lambda>_ _. True)"
  by (simp add: triple_def)

lemma create_stores:
  assumes "g_gid g = gid"
  shows "triple (\<lambda>_. True) (access env (create_global g bs)) (stored_if_ok gid)"
proof (rule tripleI)
  fix w :: world
  let ?s = "e_others env (w_step w) (w_store w)"
  obtain r s' where c: "create_global g bs ?s = (r, s')" by fastforce
  with create_global_there [of g bs ?s] assms
  show "stored_if_ok gid (fst (run_state (access env (create_global g bs)) w))
      (snd (run_state (access env (create_global g bs)) w))"
    by (cases r) (simp_all add: stored_if_ok_def)
qed

lemma prepare_msg_stores:
  "triple (\<lambda>_. True) (prepare_msg env a gid actions qp grace opts)
     (\<lambda>r w. isl r \<or> get_global gid (w_store w) \<noteq> None)"
proof -
  have last: "triple (stored_if_ok gid r) (ret (case r of Inl e \<Rightarrow> Inl (Internal_error e) | Inr _ \<Rightarrow> Inr ()))
      (\<lambda>r w. isl r \<or> get_global gid (w_store w) \<noteq> None)" for r :: "bool res"
    by (rule triple_return) (auto simp: stored_if_ok_def split: sum.splits)
  have gid: "g_gid (fst (msg_rows_expanded js t gid br qp n)) = gid" for js t br n
    by (simp add: msg_rows_expanded_def msg_global_def global_init_def)
  have body: "triple (\<lambda>_. True) (State_Monad.bind (access env (create_global
        (fst (msg_rows_expanded js t gid br qp n)) (snd (msg_rows_expanded js t gid br qp n))))
      (\<lambda>r. ret (case r of Inl e \<Rightarrow> Inl (Internal_error e) | Inr _ \<Rightarrow> Inr ())))
    (\<lambda>r w. isl r \<or> get_global gid (w_store w) \<noteq> None)" for js t br n
    by (rule triple_bind [OF create_stores [OF gid] last])
  have err: "triple (\<lambda>_. True) (ret (Inl e)) (\<lambda>r w. isl r \<or> get_global gid (w_store w) \<noteq> None)" for e
    by (rule triple_return) simp
  have found: "triple (\<lambda>_. True)
      (case x of Inl e \<Rightarrow> ret (Inl (Bad_request (Expansion e)))
       | Inr ex \<Rightarrow> State_Monad.bind (note_empty (me_empty_topics ex)) (\<lambda>_.
           State_Monad.bind (observe env st_clock) (\<lambda>t.
           State_Monad.bind (access env (create_global
               (fst (msg_rows_expanded (ap_json a) t gid (me_branches ex) qp n))
               (snd (msg_rows_expanded (ap_json a) t gid (me_branches ex) qp n))))
             (\<lambda>r. ret (case r of Inl e \<Rightarrow> Inl (Internal_error e) | Inr _ \<Rightarrow> Inr ())))))
      (\<lambda>r w. isl r \<or> get_global gid (w_store w) \<noteq> None)" for x n
  proof (cases x)
    case (Inl e)
    then show ?thesis by (simp only: sum.case err)
  next
    case (Inr ex)
    show ?thesis unfolding Inr sum.case
      by (rule triple_bind [OF triple_any], rule triple_bind [OF triple_any], rule body)
  qed
  show ?thesis
    unfolding prepare_msg_def Let_def split_beta
    by (cases "actions = []"; cases "qp = []") (simp_all only: if_True if_False err refl not_False_eq_True,
        rule triple_bind [OF triple_any], rule found)
qed

lemma prepared_is_there:
  assumes "run_state (prepare_with env a gid ''msg'' actions qp grace opts) w = (Inr (), w1)"
  shows "get_global gid (w_store w1) \<noteq> None"
proof -
  have msg: "parse_trans_type ''msg'' = Some Msg" by code_simp
  with assms have "run_state (prepare_msg env a gid actions qp grace opts) w = (Inr (), w1)"
    by (auto simp: prepare_with_def split: if_splits)
  with tripleD [OF prepare_msg_stores [of env a gid actions qp grace opts], of w] show ?thesis by simp
qed

section \<open>Properties\<close>

text \<open>
  No branch is accepted that the process could not call: submitting a saga, registering a TCC
  or XA branch, preparing a message and subscribing refuse an address \<open>local://\<close> without a
  handler, before anything is stored.
\<close>

theorem unknown_branches_are_refused:
  "refuses_unknown em (concat (map (\<lambda>s. [s_action s, s_compensate s]) (sb_steps sb))) (sb_submit env em sb) \<and>
   refuses_unknown em [confirm, cancel] (register_tcc_branch_with env em gid bid confirm cancel payload) \<and>
   refuses_unknown em [commit, rollback] (register_xa_branch env em gid bid commit rollback) \<and>
   refuses_unknown em (ms_actions mb @ [ms_query_prepared mb]) (ms_prepare env em mb) \<and>
   refuses_unknown em [url] (em_subscribe env em topic url remark)"
  by (intro conjI refuses_saga refuses_register_tcc refuses_register_xa refuses_prepare refuses_subscribe)

text \<open>
  The try of a TCC branch runs only when the branch is registered: it runs, with the next
  number, in a world whose store holds confirm and cancel of the branch, or it does not run, the
  caller gets the error and the number is not used up.
\<close>

theorem try_runs_only_when_registered:
  "case run_state (tcc_register_with env em confirm cancel payload h) w of
     ((Inl e, h'), w1) \<Rightarrow>
       run_state (try_branch_with env em confirm cancel payload try_fn h) w = ((Inl e, h), w1)
   | ((Inr bid, h'), w1) \<Rightarrow>
       bid = branch_id (tp_next h) \<and> runnable em [confirm, cancel] \<and>
       (\<exists>b. branch_at (tp_gid h) bid Confirm (w_store w1) = Some b \<and> b_url b = confirm) \<and>
       (\<exists>b. branch_at (tp_gid h) bid Cancel (w_store w1) = Some b \<and> b_url b = cancel) \<and>
       run_state (try_branch_with env em confirm cancel payload try_fn h) w =
         ((Inr (fst (run_state (try_fn bid) w1)), h\<lparr>tp_next := tp_next h + 1\<rparr>),
          snd (run_state (try_fn bid) w1))"
proof -
  obtain reg h' w1 where run: "run_state (tcc_register_with env em confirm cancel payload h) w = ((reg, h'), w1)"
    by (metis surj_pair)
  show ?thesis
  proof (cases reg)
    case (Inl e)
    with run tcc_register_failure [of env em confirm cancel payload h w e h' w1] show ?thesis
      by (simp add: try_branch_with_def)
  next
    case (Inr bid)
    with run have "run_state (tcc_register_with env em confirm cancel payload h) w = ((Inr bid, h'), w1)"
      by simp
    with tcc_register_success [OF this] show ?thesis
      by (simp add: try_branch_with_def split_beta)
  qed
qed


text \<open>
  Waiting for the end of a transaction ends: once the clock reaches the deadline it answers,
  and a status it answers is final.
\<close>

theorem wait_final_ends:
  assumes "deadline \<le> clock (k + n)"
  shows "\<exists>x. fst (run_state (wait_final (Suc n) env clock deadline k gid) w) = Some x \<and>
    (\<forall>s. x = Inr s \<longrightarrow> is_final s)"
  using assms
proof (induction n arbitrary: k w)
  case 0
  then show ?case by (auto simp: em_status_def split: option.splits)
next
  case (Suc n)
  let ?w = "snd (run_state (em_status env gid) w)"
  from Suc.IH [of "Suc k" ?w] Suc.prems show ?case
    by (subst wait_final.simps) (auto simp: split_beta split: option.splits simp del: wait_final.simps)
qed

lemma wait_final_ends_witness:
  "\<exists>x. fst (run_state (wait_final 4 quiet (\<lambda>k. 20 * int k) 50 0 ''g'') (world_of (one_txn 5 Tcc GPrepared))) =
      Some x \<and> (\<forall>s. x = Inr s \<longrightarrow> is_final s)"
  using wait_final_ends [of 50 "\<lambda>k. 20 * int k" 0 3 quiet "''g''" "world_of (one_txn 5 Tcc GPrepared)"]
  by (simp add: eval_nat_numeral del: wait_final.simps)

end
