(* ===== verification/Two_Phase_Run.thy ===== *)
theory Two_Phase_Run
  imports Saga_Run
begin

text \<open>
  A TCC or XA transaction from its registered branches to its end: with nobody interfering and
  branches that succeed, the round confirms (commits) the branches in order when the transaction
  is submitted, and cancels (rolls back) them in reverse when it is aborting.
\<close>

section \<open>The branch table\<close>

definition paired :: "branch_op \<Rightarrow> branch_op \<Rightarrow> bool" where
  "paired fwd bwd \<longleftrightarrow> fwd = Confirm \<and> bwd = Cancel \<or> fwd = Commit \<and> bwd = Rollback"

text \<open>The branches \<open>0\<close> to \<open>n - 1\<close> are registered with both operations, and no others.\<close>

definition branches_ready :: "string \<Rightarrow> branch_op \<Rightarrow> branch_op \<Rightarrow> nat \<Rightarrow> store \<Rightarrow> bool" where
  "branches_ready gid fwd bwd n s \<longleftrightarrow>
     store_ok s \<and> n \<le> max_branch_index + 1 \<and>
     (\<forall>b\<in>set (list_branches gid s). \<exists>i<n. b_branch_id b = branch_id i) \<and>
     (\<forall>i<n. branch_at gid (branch_id i) fwd s \<noteq> None \<and> branch_at gid (branch_id i) bwd s \<noteq> None)"

lemma branches_ready_numbered:
  assumes "branches_ready gid fwd bwd n s" shows "well_numbered gid s"
  unfolding well_numbered_def
proof (intro ballI impI)
  fix b assume "b \<in> set (st_branch s)" "b_gid b = gid"
  then have "b \<in> set (list_branches gid s)" by (simp add: set_list_branches)
  with assms obtain i where "i < n" "b_branch_id b = branch_id i" by (auto simp: branches_ready_def)
  with assms show "is_canonical_branch_id (b_branch_id b)"
    by (auto simp: branches_ready_def canonical_iff intro!: exI [of _ i])
qed

lemma branches_ready_states:
  assumes "branches_ready gid fwd bwd n s" "paired fwd bwd"
  shows "split_by_op (list_branches gid s) n fwd bwd =
    (map (status_at gid fwd s) [0..<n], map (status_at gid bwd s) [0..<n])"
proof -
  have fill: "fill (slot n {op}) (list_branches gid s) (replicate n BPrepared) = map (status_at gid op s) [0..<n]"
    if "op = fwd \<or> op = bwd" for op
  proof (rule nth_equalityI)
    fix i assume "i < length (fill (slot n {op}) (list_branches gid s) (replicate n BPrepared))"
    then have i: "i < n" by simp
    with assms(1) that obtain b where b: "branch_at gid (branch_id i) op s = Some b"
      by (auto simp: branches_ready_def)
    have "fill (slot n {op}) (list_branches gid s) (replicate n BPrepared) ! i = b_status b"
      using assms(1) i branches_ready_numbered [OF assms(1)]
      by (intro fill_list_branches [OF _ _ b]) (auto simp: branches_ready_def)
    with b i show "fill (slot n {op}) (list_branches gid s) (replicate n BPrepared) ! i =
        map (status_at gid op s) [0..<n] ! i" by (simp add: status_at_def)
  qed simp
  have "fwd \<noteq> bwd" using assms(2) by (auto simp: paired_def)
  then show ?thesis by (simp add: split_by_op_fill fill)
qed

lemma branches_ready_bound:
  assumes "branches_ready gid fwd bwd n s" shows "index_bound (list_branches gid s) = n"
proof (rule antisym)
  have b: "n \<le> max_branch_index + 1" using assms by (simp add: branches_ready_def)
  show "index_bound (list_branches gid s) \<le> n"
    using assms b by (intro index_bound_le) (force simp: branches_ready_def index_of_branch_id)
  show "n \<le> index_bound (list_branches gid s)"
  proof (cases n)
    case (Suc m)
    with assms obtain r where "branch_at gid (branch_id m) fwd s = Some r" by (auto simp: branches_ready_def)
    from branch_at_in [OF this] index_bound_gt [of r "list_branches gid s" m] Suc b show ?thesis
      by (simp add: index_of_branch_id)
  qed simp
qed

lemma branches_ready_set_status:
  assumes "branches_ready gid fwd bwd n s"
  shows "branches_ready gid fwd bwd n (set_branch_status gid bid op st s)"
  using assms
  by (auto simp: branches_ready_def store_ok_set_branch_status branch_at_set_status list_branches_set_status)

lemma branches_ready_transition:
  assumes "branches_ready gid fwd bwd n s"
  shows "branches_ready gid fwd bwd n (snd (transition x f t tt r s))"
  using assms by (auto simp: branches_ready_def store_ok_transition list_branches_def branch_at_global_ops)

section \<open>What comes next\<close>

text \<open>The order of the calls, their operation and the end, by the status the round starts from.\<close>

definition calls_of :: "global_status \<Rightarrow> nat \<Rightarrow> nat list" where
  "calls_of st n = (if st = GSubmitted then [0..<n] else rev [0..<n])"

definition op_of :: "global_status \<Rightarrow> branch_op \<Rightarrow> branch_op \<Rightarrow> branch_op" where
  "op_of st fwd bwd = (if st = GSubmitted then fwd else bwd)"

definition end_of :: "global_status \<Rightarrow> global_status" where
  "end_of st = (if st = GSubmitted then GSucceed else GFailed)"

lemma length_calls_of [simp]: "length (calls_of st n) = n"
  by (simp add: calls_of_def)

lemma nth_calls_of: "k < n \<Longrightarrow> calls_of st n ! k = (if st = GSubmitted then k else n - Suc k)"
  by (simp add: calls_of_def rev_nth)

definition decided :: "global_status \<Rightarrow> bool" where
  "decided st \<longleftrightarrow> st = GSubmitted \<or> st = GAborting"

text \<open>The first \<open>k\<close> calls are done.\<close>

definition still_open :: "global_status \<Rightarrow> nat \<Rightarrow> nat \<Rightarrow> nat \<Rightarrow> bool" where
  "still_open st n k i \<longleftrightarrow> (if st = GSubmitted then k \<le> i else i < n - k)"

lemma advance_decided:
  assumes "paired fwd bwd" "decided st" "k \<le> n"
    and "\<forall>i<n. pending ((if st = GSubmitted then xs else ys) ! i) \<longleftrightarrow> still_open st n k i"
    and "length xs = n" "length ys = n"
  shows "(if fwd = Commit then xa_advance else tcc_advance) st xs ys =
    (if k < n then Call (calls_of st n ! k) (op_of st fwd bwd) else Finish (end_of st))"
proof (cases "st = GSubmitted")
  case True
  have "scan_up pending 0 xs = (if k < n then Some k else None)"
  proof (cases "k < n")
    case True
    with assms(4,5) \<open>st = GSubmitted\<close> show ?thesis by (auto simp: scan_up0_Some_iff still_open_def)
  next
    case False
    with assms(4,5) \<open>st = GSubmitted\<close> show ?thesis
      by (auto simp: scan_up_None_iff still_open_def in_set_conv_nth)
  qed
  with True assms(1) show ?thesis
    by (auto simp: paired_def op_of_def end_of_def nth_calls_of)
next
  case False
  have "scan_down pending ys (length ys) = (if k < n then Some (n - Suc k) else None)"
  proof (cases "k < n")
    case True
    with assms(4,6) False show ?thesis by (auto simp: scan_down_Some_iff still_open_def)
  next
    case nk: False
    with assms(3,4,6) False show ?thesis by (auto simp: scan_down_None_iff still_open_def)
  qed
  with False assms(1,2) show ?thesis
    by (auto simp: paired_def decided_def op_of_def end_of_def nth_calls_of)
qed

section \<open>The loop\<close>

definition tp_at ::
  "global_row \<Rightarrow> branch_op \<Rightarrow> branch_op \<Rightarrow> nat \<Rightarrow> nat \<Rightarrow> world \<Rightarrow> bool" where
  "tp_at g fwd bwd n k w \<longleftrightarrow>
     branches_ready (g_gid g) fwd bwd n (w_store w) \<and>
     (\<forall>i<n. status_at (g_gid g) (op_of (g_status g) fwd bwd) (w_store w) i =
        (if still_open (g_status g) n k i then BPrepared else BSucceed)) \<and>
     (\<exists>r. get_global (g_gid g) (w_store w) = Some r \<and> g_status r = g_status g)"

lemma tp_at_advance:
  assumes "tp_at g fwd bwd n k w" "paired fwd bwd" "decided (g_status g)" "k \<le> n"
  shows "(if fwd = Commit then xa_advance else tcc_advance) (g_status g)
      (fst (split_by_op (list_branches (g_gid g) (w_store w)) n fwd bwd))
      (snd (split_by_op (list_branches (g_gid g) (w_store w)) n fwd bwd)) =
    (if k < n then Call (calls_of (g_status g) n ! k) (op_of (g_status g) fwd bwd)
     else Finish (end_of (g_status g)))"
  using assms
  by (intro advance_decided)
    (auto simp: tp_at_def branches_ready_states op_of_def pending_def split: if_splits)

lemma two_phase_turn:
  assumes "answers_by env ans" "e_others env = (\<lambda>n s. s)" "paired fwd bwd" "decided (g_status g)"
    and "tp_at g fwd bwd n k w" "k < n"
  defines "i \<equiv> calls_of (g_status g) n ! k" and "op \<equiv> op_of (g_status g) fwd bwd"
  assumes "ans (branch_id i) op = Success"
  shows "\<exists>w'. run_state (two_phase_loop (Suc fuel) env d g n fwd bwd) w =
      run_state (two_phase_loop fuel env d g n fwd bwd) w' \<and>
    tp_at g fwd bwd n (Suc k) w' \<and> called (w_trace w') = called (w_trace w) @ [(branch_id i, op)]"
proof -
  let ?rows = "list_branches (g_gid g) (w_store w)"
  have i: "i < n" using assms(6) by (simp add: i_def nth_calls_of)
  have adv: "(if fwd = Commit then xa_advance else tcc_advance) (g_status g)
      (fst (split_by_op ?rows n fwd bwd)) (snd (split_by_op ?rows n fwd bwd)) = Call i op"
    using tp_at_advance [OF assms(5,3,4)] assms(6) by (simp add: i_def op_def)
  obtain b where b: "branch_at (g_gid g) (branch_id i) op (w_store w) = Some b"
    using assms(5) i
    by (cases "g_status g = GSubmitted") (auto simp: tp_at_def branches_ready_def op_def op_of_def)
  from branch_at_in [OF b] obtain r where "find_branch ?rows (branch_id i) op = Some r"
    by (cases "find_branch ?rows (branch_id i) op") (auto simp: find_branch_def find_None_iff)
  then have url: "url_of ?rows (branch_id i) op = Some (b_url r)" by (simp add: url_of_def)
  let ?w = "w\<lparr>w_step := Suc (w_step w)\<rparr>"
  from run_call_branch [OF assms(1), of g "branch_id i" op "b_url r"
      "payload_of ?rows (branch_id i) op" ?w]
  obtain c where c: "run_state (call_branch env g (branch_id i) op (b_url r)
      (payload_of ?rows (branch_id i) op)) ?w =
      (Success, ?w\<lparr>w_step := Suc (w_step ?w), w_trace := w_trace ?w @ [Called c Success]\<rparr>)"
    "c_branch_id c = branch_id i" "c_op c = op"
    by (auto simp: assms(9))
  let ?s = "set_branch_status (g_gid g) (branch_id i) op BSucceed (w_store w)"
  let ?w' = "w\<lparr>w_store := ?s, w_step := Suc (Suc (Suc (w_step w))),
    w_trace := w_trace w @ [Called c Success]\<rparr>"
  have "run_state (two_phase_loop (Suc fuel) env d g n fwd bwd) w =
      run_state (two_phase_loop fuel env d g n fwd bwd) ?w'"
    using adv by (simp add: assms(2) two_phase_call_def Let_def url c(1), simp add: world_order)
  moreover have "tp_at g fwd bwd n (Suc k) ?w'"
  proof -
    have "status_at (g_gid g) op ?s j = (if j = i then BSucceed else status_at (g_gid g) op (w_store w) j)"
      if "j < n" for j
      using that b by (auto simp: status_at_def branch_at_set_status branch_id_inj)
    moreover have "still_open (g_status g) n (Suc k) j \<longleftrightarrow> still_open (g_status g) n k j \<and> j \<noteq> i" if "j < n" for j
      using that assms(6) by (auto simp: still_open_def i_def nth_calls_of)
    moreover have "\<exists>r. get_global (g_gid g) ?s = Some r \<and> g_status r = g_status g"
      using assms(5) by (simp add: tp_at_def store_simps)
    ultimately show ?thesis
      using assms(5) branches_ready_set_status by (auto simp: tp_at_def op_def)
  qed
  ultimately show ?thesis using c(2,3) by (intro exI [of _ ?w']) simp
qed

lemma two_phase_calls:
  assumes "answers_by env ans" "e_others env = (\<lambda>n s. s)" "paired fwd bwd" "decided (g_status g)"
    and "\<forall>i<n. ans (branch_id i) (op_of (g_status g) fwd bwd) = Success"
    and "tp_at g fwd bwd n k w" "k \<le> n"
  shows "\<exists>w'. run_state (two_phase_loop ((n - k) + fuel) env d g n fwd bwd) w =
      run_state (two_phase_loop fuel env d g n fwd bwd) w' \<and>
    tp_at g fwd bwd n n w' \<and>
    called (w_trace w') = called (w_trace w) @
      map (\<lambda>i. (branch_id i, op_of (g_status g) fwd bwd)) (drop k (calls_of (g_status g) n))"
  using assms(6,7)
proof (induction "n - k" arbitrary: k w)
  case 0
  then show ?case by auto
next
  case (Suc m)
  then have k: "k < n" by simp
  then have i: "calls_of (g_status g) n ! k < n" by (simp add: nth_calls_of)
  have "ans (branch_id (calls_of (g_status g) n ! k)) (op_of (g_status g) fwd bwd) = Success"
    using assms(5) i by blast
  from two_phase_turn [OF assms(1-4) Suc.prems(1) k this, of "(n - Suc k) + fuel" d]
  obtain w' where w': "run_state (two_phase_loop ((n - k) + fuel) env d g n fwd bwd) w =
      run_state (two_phase_loop ((n - Suc k) + fuel) env d g n fwd bwd) w'"
    "tp_at g fwd bwd n (Suc k) w'"
    "called (w_trace w') = called (w_trace w) @
       [(branch_id (calls_of (g_status g) n ! k), op_of (g_status g) fwd bwd)]"
    using k by (auto simp: Suc_diff_Suc)
  have "m = n - Suc k" using Suc.hyps(2) by simp
  from Suc.hyps(1) [OF this w'(2)] k w' show ?case
    by (auto simp: Cons_nth_drop_Suc [symmetric])
qed

lemma two_phase_run:
  assumes "answers_by env ans" "e_others env = (\<lambda>n s. s)" "paired fwd bwd" "decided (g_status g)"
    and "\<forall>i<n. ans (branch_id i) (op_of (g_status g) fwd bwd) = Success"
    and "tp_at g fwd bwd n 0 w" "0 < n" "n + 1 \<le> fuel"
  shows "\<exists>w' r. run_state (drive_two_phase fuel env d g fwd bwd) w = (Done, w') \<and>
    called (w_trace w') = called (w_trace w) @
      map (\<lambda>i. (branch_id i, op_of (g_status g) fwd bwd)) (calls_of (g_status g) n) \<and>
    get_global (g_gid g) (w_store w') = Some r \<and> g_status r = end_of (g_status g)"
proof -
  let ?w0 = "w\<lparr>w_step := Suc (w_step w)\<rparr>"
  have "tp_at g fwd bwd n 0 ?w0" using assms(6) by (simp add: tp_at_def)
  from two_phase_calls [OF assms(1-5) this le0, of "Suc (fuel - (n + 1))" d]
  obtain w1 where w1: "run_state (two_phase_loop (n + Suc (fuel - (n + 1))) env d g n fwd bwd) ?w0 =
      run_state (two_phase_loop (Suc (fuel - (n + 1))) env d g n fwd bwd) w1"
    "tp_at g fwd bwd n n w1"
    "called (w_trace w1) = called (w_trace w) @
       map (\<lambda>i. (branch_id i, op_of (g_status g) fwd bwd)) (calls_of (g_status g) n)" by auto
  have fuel: "n + Suc (fuel - (n + 1)) = fuel" using assms(8) by simp
  have bound: "index_bound (list_branches (g_gid g) (w_store w)) = n"
    using assms(6) branches_ready_bound by (auto simp: tp_at_def)
  have start: "run_state (drive_two_phase fuel env d g fwd bwd) w =
      run_state (two_phase_loop fuel env d g n fwd bwd) ?w0"
    using assms(2,7) bound by (simp add: drive_two_phase_def)
  let ?t = "transition (g_gid g) (g_status g) (end_of (g_status g)) (g_trans_type g) [] (w_store w1)"
  from w1(2) obtain r where r: "get_global (g_gid g) (w_store w1) = Some r" "g_status r = g_status g"
    and ok: "keyed g_gid (st_global (w_store w1))"
    by (auto simp: tp_at_def branches_ready_def store_ok_def)
  have t: "fst ?t" using fst_transition [OF ok] r by simp
  have ne: "g_status g \<noteq> end_of (g_status g)" using assms(4) by (auto simp: decided_def end_of_def)
  have "run_state (two_phase_loop (Suc (fuel - (n + 1))) env d g n fwd bwd) w1 =
      (Done, w1\<lparr>w_store := snd ?t, w_step := Suc (Suc (w_step w1)),
         w_trace := w_trace w1 @ [Status (g_status g) (end_of (g_status g)) True]\<rparr>)"
    using tp_at_advance [OF w1(2) assms(3,4)] assms(2) t ne
    by (simp add: drv_transition_def)
  moreover have "\<exists>q. get_global (g_gid g) (snd ?t) = Some q \<and> g_status q = end_of (g_status g)"
    using r by (simp add: store_simps)
  ultimately show ?thesis using start w1(1,3) fuel by auto
qed

end
