(* ===== verification/Tcc_Client.thy ===== *)
theory Tcc_Client
  imports Two_Phase_Run Embedded_Laws
begin

text \<open>
  A TCC transaction through the whole program: a host opens it, registers and tries its branches
  one after the other and submits when all tries succeeded, or aborts at the first that did not;
  a worker leases it and drives it to its end.
\<close>

section \<open>The host\<close>

text \<open>The use the documentation shows; \<open>tr\<close> is what the tries answer.\<close>

fun try_all ::
  "environment \<Rightarrow> embedded \<Rightarrow> (string \<Rightarrow> branch_result) \<Rightarrow> (string \<times> string \<times> string) list \<Rightarrow> two_phase \<Rightarrow>
   (bool \<times> two_phase) emb_res prog" where
  "try_all env em tr [] h = ret (Inr (True, h))"
| "try_all env em tr ((confirm, cancel, payload) # bs) h = do {
     (r, h) \<leftarrow> try_branch_with env em confirm cancel payload (\<lambda>bid. ret (tr bid)) h;
     case r of
       Inl e \<Rightarrow> ret (Inl e)
     | Inr res \<Rightarrow> if res = Success then try_all env em tr bs h else ret (Inr (False, h))
   }"

definition tcc_host ::
  "environment \<Rightarrow> embedded \<Rightarrow> string \<Rightarrow> (string \<Rightarrow> branch_result) \<Rightarrow> (string \<times> string \<times> string) list \<Rightarrow>
   unit emb_res prog" where
  "tcc_host env em gid tr bs = do {
     r \<leftarrow> tcc env em gid;
     case r of
       Inl e \<Rightarrow> ret (Inl e)
     | Inr h \<Rightarrow> do {
         r \<leftarrow> try_all env em tr bs h;
         case r of
           Inl e \<Rightarrow> ret (Inl e)
         | Inr (ok, h) \<Rightarrow> if ok then tp_submit env em h else tp_abort env h
       }
   }"

text \<open>How many tries succeed before the first that does not, and how many are run.\<close>

fun succeeded :: "(string \<Rightarrow> branch_result) \<Rightarrow> nat \<Rightarrow> nat \<Rightarrow> nat" where
  "succeeded tr k 0 = 0"
| "succeeded tr k (Suc m) = (if tr (branch_id k) = Success then Suc (succeeded tr (Suc k) m) else 0)"

lemma succeeded_le: "succeeded tr k m \<le> m"
  by (induction tr k m rule: succeeded.induct) auto

section \<open>Registering\<close>

definition phase_one :: "string \<Rightarrow> nat \<Rightarrow> store \<Rightarrow> bool" where
  "phase_one gid n s \<longleftrightarrow>
     branches_ready gid Confirm Cancel n s \<and>
     (\<forall>b\<in>set (list_branches gid s). b_status b = BPrepared) \<and>
     (\<exists>r. get_global gid s = Some r \<and> g_status r = GPrepared \<and> g_trans_type r = Tcc)"

definition new_branch :: "string \<Rightarrow> string \<Rightarrow> string \<Rightarrow> int \<Rightarrow> branch_op \<Rightarrow> string \<Rightarrow> branch_row" where
  "new_branch gid bid p t op url =
     \<lparr>b_gid = gid, b_branch_id = bid, b_op = op, b_url = url, b_payload = p, b_status = BPrepared,
      b_create_time = t, b_update_time = t, b_finish_time = None\<rparr>"

lemma b_key_new_branch [simp]: "b_key (new_branch gid bid p t op url) = (gid, bid, op)"
  by (simp add: b_key_def new_branch_def)

lemma insert_new:
  "row_at b_key (gid, bid, op) rows = None \<Longrightarrow>
   insert_branch t \<lparr>b_gid = gid, b_branch_id = bid, b_op = op, b_url = url, b_payload = p,
     b_status = BPrepared, b_create_time = t, b_update_time = t, b_finish_time = None\<rparr> rows =
   rows @ [new_branch gid bid p t op url]"
  using b_key_new_branch [of gid bid p t op url]
  by (simp add: insert_branch_def insert_ignore_def row_at_None_iff new_branch_def)

lemma register_two_fresh:
  assumes "a \<noteq> b" "row_at b_key (gid, bid, a) rows = None" "row_at b_key (gid, bid, b) rows = None"
  shows "register_ops gid bid p t [(a, u), (b, v)] rows =
    Inr (rows @ [new_branch gid bid p t a u, new_branch gid bid p t b v])"
proof -
  have "row_at b_key (gid, bid, b) (rows @ [new_branch gid bid p t a u]) = None"
    using assms by (simp add: row_at_append row_at_Cons)
  then show ?thesis
    using assms by (simp add: insert_new Let_def row_at_append row_at_Cons) (simp add: new_branch_def)
qed

lemma phase_one_register:
  assumes "phase_one gid n s" "n \<le> max_branch_index"
    and "register_branch_with gid (branch_id n) [(Confirm, u), (Cancel, v)] p s = (Inr Registered, s')"
  shows "phase_one gid (Suc n) s'"
proof -
  from assms(1) have ready: "branches_ready gid Confirm Cancel n s" by (simp add: phase_one_def)
  let ?a = "new_branch gid (branch_id n) p (now s) Confirm u" and ?b = "new_branch gid (branch_id n) p (now s) Cancel v"
  have fresh: "row_at b_key (gid, branch_id n, op) (st_branch s) = None" for op
  proof (cases "row_at b_key (gid, branch_id n, op) (st_branch s)")
    case (Some r)
    then have "r \<in> set (list_branches gid s)" "b_branch_id r = branch_id n"
      by (auto simp: set_list_branches b_key_def dest!: row_at_SomeD)
    with ready show ?thesis by (auto simp: branches_ready_def branch_id_inj)
  qed
  with assms(3) have s': "s' = s\<lparr>st_branch := st_branch s @ [?a, ?b]\<rparr>"
    by (auto simp: register_branch_with_def register_two_fresh simp del: register_ops.simps split: sum.splits)
  have rows: "set (list_branches gid s') = set (list_branches gid s) \<union> {?a, ?b}"
    by (auto simp: s' set_list_branches new_branch_def)
  have old: "branch_at gid (branch_id i) op s' = branch_at gid (branch_id i) op s" if "i < n" for i op
    using that by (auto simp: s' branch_at_def row_at_append row_at_Cons branch_id_inj split: option.splits)
  have new: "branch_at gid (branch_id n) op s' \<noteq> None" if "op = Confirm \<or> op = Cancel" for op
    using that fresh by (auto simp: s' branch_at_def row_at_append row_at_Cons)
  have "store_ok s'" using store_ok_register [of s gid "branch_id n"] ready assms(3)
    by (metis branches_ready_def snd_conv)
  moreover have "\<exists>i<Suc n. b_branch_id b = branch_id i" if "b \<in> set (list_branches gid s')" for b
    using that ready unfolding rows by (force simp: branches_ready_def new_branch_def less_Suc_eq)
  ultimately have "branches_ready gid Confirm Cancel (Suc n) s'"
    using ready assms(2) old new by (auto simp: branches_ready_def less_Suc_eq)
  moreover have "get_global gid s' = get_global gid s" by (simp add: s' get_global_def)
  moreover have "b_status b = BPrepared" if "b \<in> set (list_branches gid s')" for b
    using that assms(1) unfolding rows by (auto simp: phase_one_def new_branch_def)
  ultimately show ?thesis using assms(1) by (auto simp: phase_one_def)
qed

lemma phase_one_tcc_register:
  assumes "e_others env = (\<lambda>n s. s)" "phase_one (tp_gid h) (tp_next h) (w_store w)"
    and "run_state (tcc_register_with env em confirm cancel payload h) w = ((Inr bid, h'), w1)"
  shows "phase_one (tp_gid h) (Suc (tp_next h)) (w_store w1)"
proof -
  let ?bid = "branch_id (tp_next h)"
  let ?r = "register_default\<lparr>rb_gid := tp_gid h, rb_branch_id := ?bid,
    rb_confirm := confirm, rb_cancel := cancel, rb_data := payload\<rparr>"
  from assms(3) have run: "run_state (api_register_branch env ?r) w = (Inr (), w1)"
    by (cases "run_state (api_register_branch env ?r) w")
      (auto simp: tcc_register_with_def register_tcc_branch_with_def try_api_def Let_def split_beta split: sum.splits)
  then have can: "is_canonical_branch_id ?bid" and ne: "tp_gid h \<noteq> []"
    by (auto simp: api_register_branch_def register_default_def split: if_splits)
  then have n: "tp_next h \<le> max_branch_index" by (auto simp: canonical_iff branch_id_inj)
  from assms(2) obtain g where g: "get_global (tp_gid h) (w_store w) = Some g" "g_status g = GPrepared" "g_trans_type g = Tcc"
    by (auto simp: phase_one_def)
  from run g assms(1) can ne have "confirm \<noteq> []" "cancel \<noteq> []"
    by (auto simp: api_register_branch_def register_default_def register_ops_of_def split: if_splits)
  with run g assms(1) can ne
  have "register_branch_with (tp_gid h) ?bid [(Confirm, confirm), (Cancel, cancel)] payload (w_store w) =
      (Inr Registered, w_store w1)"
    by (auto simp: api_register_branch_def register_default_def register_ops_of_def branch_id_nonempty
        prod_eq_iff split: if_splits sum.splits register_outcome.splits)
  from phase_one_register [OF assms(2) n this] show ?thesis .
qed

lemma try_all_phase_one:
  assumes "e_others env = (\<lambda>n s. s)" "phase_one (tp_gid h) (tp_next h) (w_store w)"
    and "run_state (try_all env em tr bs h) w = (Inr (ok, h'), w1)"
  shows "tp_gid h' = tp_gid h \<and>
    ok = (succeeded tr (tp_next h) (length bs) = length bs) \<and>
    tp_next h' = tp_next h + min (Suc (succeeded tr (tp_next h) (length bs))) (length bs) \<and>
    phase_one (tp_gid h') (tp_next h') (w_store w1)"
  using assms(2,3)
proof (induction bs arbitrary: h w)
  case Nil
  then show ?case by auto
next
  case (Cons b bs)
  obtain confirm cancel payload where b: "b = (confirm, cancel, payload)" by (cases b)
  obtain reg h1 w2 where run: "run_state (tcc_register_with env em confirm cancel payload h) w = ((reg, h1), w2)"
    by (metis surj_pair)
  from Cons.prems(2) run b obtain bid where reg: "reg = Inr bid"
    by (auto simp: try_branch_with_def split: sum.splits)
  note e = tcc_register_success [OF run [unfolded reg]]
  have p: "phase_one (tp_gid h) (Suc (tp_next h)) (w_store w2)"
    by (rule phase_one_tcc_register [OF assms(1) Cons.prems(1) run [unfolded reg]])
  show ?case
  proof (cases "tr (branch_id (tp_next h)) = Success")
    case True
    with Cons.prems(2) run b reg e(1) have "run_state (try_all env em tr bs h1) w2 = (Inr (ok, h'), w1)"
      by (simp add: try_branch_with_def)
    with Cons.IH [of h1 w2] e(2) p True show ?thesis by auto
  next
    case False
    with Cons.prems(2) run b reg e(1) have "ok = False" "h' = h1" "w1 = w2"
      by (auto simp: try_branch_with_def)
    with False e(2) p show ?thesis by auto
  qed
qed

section \<open>Opening and deciding\<close>

lemma tcc_opens:
  assumes "e_others env = (\<lambda>n s. s)" "store_ok (w_store w)" "get_global gid (w_store w) = None"
    and "list_branches gid (w_store w) = []" "run_state (tcc env em gid) w = (Inr h, w1)"
  shows "h = \<lparr>tp_gid = gid, tp_next = 0\<rparr>" and "phase_one gid 0 (w_store w1)"
proof -
  show "h = \<lparr>tp_gid = gid, tp_next = 0\<rparr>"
    using assms(5) by (auto simp: tcc_def tcc_with_timeout_def split_beta split: sum.splits)
  have tt: "parse_trans_type ''tcc'' = Some Tcc" by code_simp
  let ?g = "(tcc_rows_with_timeout (ap_timeout_default (em_api em)) (now (w_store w)) gid 0)\<lparr>g_trans_type := Tcc\<rparr>"
  obtain r s' where c: "create_global ?g [] (w_store w) = (r, s')" by fastforce
  from assms(1,5) tt c have "r \<in> range Inr" and w1: "w_store w1 = s'"
    by (auto simp: tcc_def tcc_with_timeout_def begin_two_phase_def prepare_with_def prepare_opts_default_def
        try_api_def split_beta Let_def split: sum.splits if_splits)
  moreover have gid: "g_gid ?g = gid" by (simp add: tcc_rows_with_timeout_def global_init_def Let_def)
  moreover have "r \<noteq> Inr False" using create_global_existing(2) [of ?g "[]" "w_store w" s'] c assms(3) gid by auto
  ultimately have "r = Inr True" by auto
  with c have c: "create_global ?g [] (w_store w) = (Inr True, s')" by simp
  from create_global_True(2) [OF c] have br: "st_branch s' = st_branch (w_store w)" by simp
  have "store_ok s'" using store_ok_create_global [OF assms(2)] c by (metis snd_conv)
  moreover have "get_global gid s' = Some (fresh_row (now (w_store w)) ?g)"
    using get_create_global [OF c, of gid] gid by simp
  ultimately show "phase_one gid 0 (w_store w1)"
    using assms(4) br
    by (simp add: phase_one_def branches_ready_def w1 list_branches_def fresh_row_def tcc_rows_with_timeout_def
        global_init_def Let_def)
qed

text \<open>The second phase: the decision is taken, and nothing has been called yet.\<close>

definition phase_two :: "string \<Rightarrow> nat \<Rightarrow> global_status \<Rightarrow> store \<Rightarrow> bool" where
  "phase_two gid n st s \<longleftrightarrow>
     branches_ready gid Confirm Cancel n s \<and>
     (\<forall>b\<in>set (list_branches gid s). b_status b = BPrepared) \<and>
     (\<exists>r. get_global gid s = Some r \<and> g_status r = st \<and> g_trans_type r = Tcc)"

lemma branches_ready_same:
  "branches_ready gid f b n s \<Longrightarrow> st_branch s' = st_branch s \<Longrightarrow> store_ok s' \<Longrightarrow> branches_ready gid f b n s'"
  by (simp add: branches_ready_def list_branches_def branch_at_def)

lemma decided_by_submit:
  assumes "e_others env = (\<lambda>n s. s)" "phase_one gid n (w_store w)" "tp_gid h = gid"
    and "run_state (tp_submit env em h) w = (Inr (), w1)"
  shows "phase_two gid n GSubmitted (w_store w1)"
proof -
  from assms(2) obtain r where r: "get_global gid (w_store w) = Some r" "g_status r = GPrepared" "g_trans_type r = Tcc"
    by (auto simp: phase_one_def)
  have tt: "parse_trans_type (trans_type_str Tcc) = Some Tcc" by (rule tt.parse_as_str)
  have "\<exists>ow nct. w_store w1 = submit_update gid ow nct (w_store w)"
    using assms(1,3,4) r tt
    by (auto simp: tp_submit_def em_submit_def submit_def submit_existing_def claim_and_submit_def
        drive_detached_def try_api_def split_beta Let_def split: if_splits sum.splits option.splits)
      blast+
  then obtain ow nct where w1: "w_store w1 = submit_update gid ow nct (w_store w)" by blast
  have "store_ok (w_store w1)" using assms(2) w1
    by (simp add: phase_one_def branches_ready_def store_ok_submit_update)
  then have "branches_ready gid Confirm Cancel n (w_store w1)"
    using assms(2) w1 by (auto simp: phase_one_def intro: branches_ready_same)
  then show ?thesis
    using assms(2) r w1 by (auto simp: phase_one_def phase_two_def list_branches_def store_simps)
qed

lemma decided_by_abort:
  assumes "e_others env = (\<lambda>n s. s)" "phase_one gid n (w_store w)" "tp_gid h = gid"
    and "run_state (tp_abort env h) w = (Inr (), w1)"
  shows "phase_two gid n GAborting (w_store w1)"
proof -
  from assms(2) obtain r where r: "get_global gid (w_store w) = Some r" "g_status r = GPrepared" "g_trans_type r = Tcc"
    and ok: "store_ok (w_store w)"
    by (auto simp: phase_one_def branches_ready_def)
  let ?s = "snd (transition gid GPrepared GAborting Tcc abort_text (w_store w))"
  have "fst (transition gid GPrepared GAborting Tcc abort_text (w_store w))"
    using fst_transition [of "w_store w" gid] ok r by (simp add: store_ok_def)
  with assms(1,3,4) r have w1: "w_store w1 = schedule_now gid ?s"
    by (auto simp: tp_abort_def em_abort_def api_abort_def eval_nat_numeral try_api_def)
  have "store_ok (w_store w1)" using ok w1 by (simp add: store_ok_schedule store_ok_transition)
  then have "branches_ready gid Confirm Cancel n (w_store w1)"
    using assms(2) w1 by (auto simp: phase_one_def intro: branches_ready_same)
  then show ?thesis
    using assms(2) r w1 by (auto simp: phase_one_def phase_two_def list_branches_def store_simps)
qed

lemma phase_two_leased:
  assumes "phase_two gid n st s" "lock_one_due owner lease s = (Some g, s2)" "g_gid g = gid"
  shows "g_status g = st" "g_trans_type g = Tcc" "tp_at g Confirm Cancel n 0 (world_of s2)"
proof -
  have ok: "store_ok s" using assms(1) by (simp add: phase_two_def branches_ready_def)
  from lock_one_due_Some [of s owner lease g s2] ok assms(2,3) obtain g0
    where g0: "get_global gid s = Some g0" "g = take_lease owner (now s) lease g0" and s2: "get_global gid s2 = Some g"
    by (auto simp: store_ok_def fun_eq_iff)
  then show st: "g_status g = st" and "g_trans_type g = Tcc"
    using assms(1) by (auto simp: phase_two_def take_lease_def)
  have b: "st_branch s2 = st_branch s" using assms(2) branch_table_unchanged(5) [of owner lease s] by simp
  have ok2: "store_ok s2" using store_ok_lock [OF ok, of owner lease] assms(2) by simp
  have ready: "branches_ready gid Confirm Cancel n s2"
    using assms(1) b ok2 by (auto simp: phase_two_def intro: branches_ready_same)
  have "status_at gid op s2 i = BPrepared" if "i < n" "op = Confirm \<or> op = Cancel" for i op
  proof -
    from ready that obtain r where r: "branch_at gid (branch_id i) op s2 = Some r" by (auto simp: branches_ready_def)
    from branch_at_in [OF r] assms(1) b have "b_status r = BPrepared"
      by (simp add: phase_two_def list_branches_def)
    with r show ?thesis by (simp add: status_at_def)
  qed
  moreover have "still_open st n 0 i" if "i < n" for i using that by (simp add: still_open_def)
  ultimately show "tp_at g Confirm Cancel n 0 (world_of s2)"
    using ready s2 assms(3) st by (auto simp: tp_at_def op_of_def world_of_def)
qed

section \<open>Properties\<close>


definition demo_host :: embedded where
  "demo_host =
     \<lparr>em_api = api_new (demo_json two_steps []) 3600, em_registry = registry_new,
      em_workflows = registry_new, em_driver = demo_driver two_steps []\<rparr>"

definition three_branches :: "(string \<times> string \<times> string) list" where
  "three_branches =
     [(''http://a/yes'', ''http://a/no'', []), (''grpc://b/S/Yes'', ''grpc://b/S/No'', ''{}''),
      (''http://c/yes'', ''http://c/no'', [])]"

definition second_refuses :: "string \<Rightarrow> branch_result" where
  "second_refuses bid = (if bid = branch_id 1 then Failure else Success)"

definition hosted :: "unit emb_res \<times> world" where
  "hosted = run_state (tcc_host (answering (\<lambda>_ _. Success)) demo_host ''g'' second_refuses three_branches)
     (world_of (empty_store 5))"

lemma hosted_facts:
  "fst hosted = Inr ()"
  "lock_one_due ''w'' 30 (w_store (snd hosted)) =
     (Some (the (fst (lock_one_due ''w'' 30 (w_store (snd hosted))))),
      snd (lock_one_due ''w'' 30 (w_store (snd hosted))))"
  "g_gid (the (fst (lock_one_due ''w'' 30 (w_store (snd hosted))))) = ''g''"
  "succeeded second_refuses 0 (length three_branches) = 1"
  by code_simp+


end
