(* ===== verification/Ffi_Host.thy ===== *)
theory Ffi_Host
  imports Workflow Embedded
begin

text \<open>
  What crosses the C interface (\<^verbatim>\<open>crates/dtmrs-ffi/src/lib.rs\<close>): result codes, strings the host
  passes, buffers it provides, and the callbacks that run a branch. A callback is a function of
  the host: \<open>None\<close> is that it did not come back.
\<close>

section \<open>Codes\<close>

definition dtmrs_ok :: int where "dtmrs_ok = 0"
definition dtmrs_err :: int where "dtmrs_err = - 1"
definition dtmrs_success :: int where "dtmrs_success = 0"
definition dtmrs_failure :: int where "dtmrs_failure = 1"
definition dtmrs_ongoing :: int where "dtmrs_ongoing = 2"
definition dtmrs_unknown :: int where "dtmrs_unknown = 3"

lemmas ffi_codes = dtmrs_ok_def dtmrs_err_def dtmrs_success_def dtmrs_failure_def dtmrs_ongoing_def
  dtmrs_unknown_def

definition to_branch_result :: "int \<Rightarrow> branch_result" where
  "to_branch_result code =
     (if code = dtmrs_success then Success
      else if code = dtmrs_failure then Failure
      else if code = dtmrs_ongoing then Ongoing
      else Unknown)"

lemma to_branch_result_iff:
  "to_branch_result code = Failure \<longleftrightarrow> code = 1" "to_branch_result code = Success \<longleftrightarrow> code = 0"
  by (auto simp: to_branch_result_def ffi_codes)

section \<open>Strings and buffers\<close>

datatype c_str = Null_str | Not_utf8 | C_str string

datatype ffi_error =
    Null_pointer string
  | Bad_utf8 string
  | Started string
  | Not_started
  | Bad_buffer
  | Buffer_too_small nat
  | No_such_task nat
  | Bad_json string
  | Negative_timeout
  | Payload_count nat nat
  | No_such_gid
  | Nul_in string
  | Workflow_stopped wf_error
  | Workflow_error wf_error
  | Failed_embedded embedded_error

definition cstr :: "c_str \<Rightarrow> string \<Rightarrow> ffi_error + string" where
  "cstr p what =
     (case p of
        Null_str \<Rightarrow> Inl (Null_pointer what)
      | Not_utf8 \<Rightarrow> Inl (Bad_utf8 what)
      | C_str s \<Rightarrow> Inr s)"

text \<open>An argument that may be left out: a null pointer reads as the empty string.\<close>

definition cstr_opt :: "c_str \<Rightarrow> string \<Rightarrow> ffi_error + string" where
  "cstr_opt p what = (if p = Null_str then Inr [] else cstr p what)"

text \<open>A buffer of the host is null or has a size; what is written is followed by a zero byte.\<close>

definition write_out :: "string \<Rightarrow> nat option \<Rightarrow> ffi_error + string" where
  "write_out s out =
     (case out of
        None \<Rightarrow> Inl Bad_buffer
      | Some n \<Rightarrow>
          if n = 0 then Inl Bad_buffer
          else if n < length s + 1 then Inl (Buffer_too_small (length s + 1))
          else Inr s)"

text \<open>\<open>CString::new\<close>: a text with a zero byte has no C string.\<close>

definition nul :: char where "nul = CHR 0x00"

definition c_string :: "string \<Rightarrow> string option" where
  "c_string s = (if nul \<in> set s then None else Some s)"

definition c_string_or_empty :: "string \<Rightarrow> string" where
  "c_string_or_empty s = (case c_string s of None \<Rightarrow> [] | Some t \<Rightarrow> t)"

section \<open>Callbacks\<close>

datatype host_fn =
    Plain "nat \<Rightarrow> string \<Rightarrow> string \<Rightarrow> string \<Rightarrow> int option"
  | Ex "nat \<Rightarrow> string \<Rightarrow> string \<Rightarrow> string \<Rightarrow> string \<Rightarrow> int option"

definition returned :: "int option \<Rightarrow> branch_result" where
  "returned r = (case r of None \<Rightarrow> Unknown | Some code \<Rightarrow> to_branch_result code)"

definition call_host :: "host_fn \<Rightarrow> nat \<Rightarrow> branch_call \<Rightarrow> branch_result" where
  "call_host hf n c =
     (let gid = c_string_or_empty (c_gid c); bid = c_string_or_empty (c_branch_id c);
          op = c_string_or_empty (branch_op_str (c_op c))
      in case hf of
           Plain f \<Rightarrow> returned (f n gid bid op)
         | Ex f \<Rightarrow>
             (case c_string (c_payload c) of
                None \<Rightarrow> Unknown
              | Some p \<Rightarrow> returned (f n gid bid op p)))"

lemma call_host_Failure:
  "call_host hf n c = Failure \<Longrightarrow>
    (\<exists>f gid bid op. hf = Plain f \<and> f n gid bid op = Some 1) \<or>
    (\<exists>f gid bid op. hf = Ex f \<and> f n gid bid op (c_payload c) = Some 1)"
  by (auto simp: call_host_def returned_def to_branch_result_iff c_string_def Let_def
      split: host_fn.splits option.splits if_splits)

end
