(* ===== verification/Ffi_Pull.thy ===== *)
theory Ffi_Pull
  imports Ffi_Host
begin

text \<open>
  Branches the host pulls (\<open>PullQueue\<close> of \<^verbatim>\<open>crates/dtmrs-ffi/src/lib.rs\<close>): a dispatch of the
  coordinator takes a number, puts the sending end of a channel into \<open>waiting\<close>, queues the task
  and waits for the answer or for the time to run out; the host takes tasks and replies by
  number from any thread. The parts of the code between two locks are the steps of a relation,
  so the dispatches, the host and their timers interleave in every order.
\<close>

section \<open>The queue\<close>

record pull_task =
  tk_task_id :: nat
  tk_name :: string
  tk_gid :: string
  tk_branch_id :: string
  tk_op :: string
  tk_payload :: string

record pull_queue =
  pq_tasks :: "pull_task list"
  pq_waiting :: "nat set"
  pq_next_id :: nat

definition pull_queue_new :: pull_queue where
  "pull_queue_new = \<lparr>pq_tasks = [], pq_waiting = {}, pq_next_id = 1\<rparr>"

definition task_of :: "nat \<Rightarrow> string \<Rightarrow> branch_call \<Rightarrow> pull_task" where
  "task_of tid name c =
     \<lparr>tk_task_id = tid, tk_name = name, tk_gid = c_gid c, tk_branch_id = c_branch_id c,
      tk_op = branch_op_str (c_op c), tk_payload = c_payload c\<rparr>"

text \<open>\<open>fetch_add\<close> on 64 bits.\<close>

definition next_number :: "pull_queue \<Rightarrow> nat \<times> pull_queue" where
  "next_number q = (pq_next_id q, q\<lparr>pq_next_id := (pq_next_id q + 1) mod 2 ^ 64\<rparr>)"

definition start_waiting :: "nat \<Rightarrow> pull_queue \<Rightarrow> pull_queue" where
  "start_waiting tid q = q\<lparr>pq_waiting := insert tid (pq_waiting q)\<rparr>"

definition send_task :: "pull_task \<Rightarrow> pull_queue \<Rightarrow> pull_queue" where
  "send_task t q = q\<lparr>pq_tasks := pq_tasks q @ [t]\<rparr>"

definition stop_waiting :: "nat \<Rightarrow> pull_queue \<Rightarrow> pull_queue" where
  "stop_waiting tid q = q\<lparr>pq_waiting := pq_waiting q - {tid}\<rparr>"

definition take_task :: "pull_queue \<Rightarrow> pull_task option \<times> pull_queue" where
  "take_task q =
     (case pq_tasks q of [] \<Rightarrow> (None, q) | t # ts \<Rightarrow> (Some t, q\<lparr>pq_tasks := ts\<rparr>))"

text \<open>\<open>reply_inner\<close>: whoever removes the sender may answer.\<close>

definition reply_inner :: "nat \<Rightarrow> pull_queue \<Rightarrow> (ffi_error + unit) \<times> pull_queue" where
  "reply_inner tid q =
     (if tid \<in> pq_waiting q then (Inr (), stop_waiting tid q) else (Inl (No_such_task tid), q))"

text \<open>
  \<open>dtmrs_next_task\<close>: the task as JSON in the buffer and 1, 0 when there is none; a task that does
  not fit is answered with unknown by the library itself.
\<close>

definition next_task ::
  "(pull_task \<Rightarrow> string) \<Rightarrow> nat option \<Rightarrow> pull_queue \<Rightarrow>
   ((int \<times> string option) \<times> (nat \<times> int) option) \<times> pull_queue" where
  "next_task js out q =
     (case take_task q of
        (None, q) \<Rightarrow> (((0, None), None), q)
      | (Some t, q) \<Rightarrow>
          (case write_out (js t) out of
             Inl _ \<Rightarrow>
               (case reply_inner (tk_task_id t) q of
                  (Inl _, q) \<Rightarrow> (((dtmrs_err, None), None), q)
                | (Inr _, q) \<Rightarrow> (((dtmrs_err, None), Some (tk_task_id t, dtmrs_unknown)), q))
           | Inr text \<Rightarrow> (((1, Some text), None), q)))"

section \<open>Dispatches and the host, step by step\<close>

datatype dispatch = Numbered | Inserted | Awaiting | Given_up | Returned branch_result

text \<open>
  \<open>ps_mail\<close> holds what was sent on a channel, \<open>ps_sending\<close> the replies between removing a sender
  and sending on it. \<open>ps_asked\<close>, \<open>ps_taken\<close> and \<open>ps_accepted\<close> are the history: the dispatches, the
  tasks handed out, and the replies that were told to be accepted.
\<close>

record pull_state =
  ps_queue :: pull_queue
  ps_phase :: "nat \<Rightarrow> dispatch option"
  ps_mail :: "nat \<Rightarrow> branch_result option"
  ps_sending :: "(nat \<times> int) list"
  ps_asked :: "nat \<Rightarrow> (string \<times> branch_call) option"
  ps_taken :: "pull_task list"
  ps_accepted :: "(nat \<times> int) list"

definition pull_start :: pull_state where
  "pull_start =
     \<lparr>ps_queue = pull_queue_new, ps_phase = \<lambda>_. None, ps_mail = \<lambda>_. None, ps_sending = [],
      ps_asked = \<lambda>_. None, ps_taken = [], ps_accepted = []\<rparr>"

abbreviation on_queue :: "(pull_queue \<Rightarrow> pull_queue) \<Rightarrow> pull_state \<Rightarrow> pull_state" where
  "on_queue f s \<equiv> s\<lparr>ps_queue := f (ps_queue s)\<rparr>"

abbreviation set_phase :: "nat \<Rightarrow> dispatch \<Rightarrow> pull_state \<Rightarrow> pull_state" where
  "set_phase tid d s \<equiv> s\<lparr>ps_phase := (ps_phase s)(tid \<mapsto> d)\<rparr>"

inductive pull_step :: "pull_state \<Rightarrow> pull_state \<Rightarrow> bool" where
  number: "next_number (ps_queue s) = (tid, q) \<Longrightarrow> pq_next_id (ps_queue s) + 1 < 2 ^ 64 \<Longrightarrow>
    pull_step s (s\<lparr>ps_queue := q, ps_phase := (ps_phase s)(tid \<mapsto> Numbered),
      ps_asked := (ps_asked s)(tid \<mapsto> (name, c))\<rparr>)"
| waits: "ps_phase s tid = Some Numbered \<Longrightarrow>
    pull_step s (set_phase tid Inserted (on_queue (start_waiting tid) s))"
| queues: "ps_phase s tid = Some Inserted \<Longrightarrow> ps_asked s tid = Some (name, c) \<Longrightarrow>
    pull_step s (set_phase tid Awaiting (on_queue (send_task (task_of tid name c)) s))"
| receives: "ps_phase s tid = Some Awaiting \<Longrightarrow> ps_mail s tid = Some r \<Longrightarrow>
    pull_step s (set_phase tid (Returned r) s)"
| times_out: "ps_phase s tid = Some Awaiting \<Longrightarrow> ps_mail s tid = None \<Longrightarrow>
    pull_step s (set_phase tid Given_up s)"
| cleans_up: "ps_phase s tid = Some Given_up \<Longrightarrow>
    pull_step s (set_phase tid (Returned Unknown) (on_queue (stop_waiting tid) s))"
| takes: "take_task (ps_queue s) = (Some t, q) \<Longrightarrow>
    pull_step s (s\<lparr>ps_queue := q, ps_taken := ps_taken s @ [t]\<rparr>)"
| loses: "take_task (ps_queue s) = (Some t, q) \<Longrightarrow> pull_step s (s\<lparr>ps_queue := q\<rparr>)"
| replies: "reply_inner tid (ps_queue s) = (Inr (), q) \<Longrightarrow>
    pull_step s (s\<lparr>ps_queue := q, ps_sending := (tid, code) # ps_sending s,
      ps_accepted := ps_accepted s @ [(tid, code)]\<rparr>)"
| sends: "(tid, code) \<in> set (ps_sending s) \<Longrightarrow>
    pull_step s (s\<lparr>ps_sending := remove1 (tid, code) (ps_sending s),
      ps_mail := (ps_mail s)(tid \<mapsto> to_branch_result code)\<rparr>)"

inductive_cases pull_stepE: "pull_step s s'"

lemmas queue_defs = next_number_def start_waiting_def send_task_def stop_waiting_def take_task_def
  reply_inner_def

text \<open>A call of \<open>dtmrs_next_task\<close> is steps of the relation: nothing, or taking, or losing and replying.\<close>

lemma next_task_steps:
  assumes "next_task js out (ps_queue s) = (r, q)"
  shows "\<exists>s'. pull_step\<^sup>*\<^sup>* s s' \<and> ps_queue s' = q \<and>
    ps_taken s' = ps_taken s @ (if fst (fst r) = 1 then [hd (pq_tasks (ps_queue s))] else [])"
proof (cases "take_task (ps_queue s)")
  case (Pair t q1)
  show ?thesis
  proof (cases t)
    case None
    with Pair assms have "fst (fst r) = 0" "q = ps_queue s"
      by (auto simp: next_task_def take_task_def split: list.splits)
    then show ?thesis by auto
  next
    case (Some x)
    then have x: "x = hd (pq_tasks (ps_queue s))" using Pair by (auto simp: take_task_def split: list.splits)
    show ?thesis
    proof (cases "write_out (js x) out")
      case (Inr b)
      with takes [of s x q1] Pair Some assms x show ?thesis
        by (intro exI [of _ "s\<lparr>ps_queue := q1, ps_taken := ps_taken s @ [x]\<rparr>"]) (auto simp: next_task_def)
    next
      case (Inl e)
      from loses [of s x q1] Pair Some have l: "pull_step s (s\<lparr>ps_queue := q1\<rparr>)" by simp
      obtain y q2 where y: "reply_inner (tk_task_id x) q1 = (y, q2)" by fastforce
      show ?thesis
      proof (cases y)
        case (Inl e')
        with y have "q2 = q1" by (auto simp: reply_inner_def split: if_splits)
        with Inl \<open>write_out _ _ = Inl e\<close> l Pair Some assms y show ?thesis
          by (intro exI [of _ "s\<lparr>ps_queue := q1\<rparr>"]) (auto simp: next_task_def dtmrs_err_def)
      next
        case (Inr u)
        with y replies [of "tk_task_id x" "s\<lparr>ps_queue := q1\<rparr>" q2 dtmrs_unknown]
        have "pull_step (s\<lparr>ps_queue := q1\<rparr>) (s\<lparr>ps_queue := q2, ps_sending := (tk_task_id x, dtmrs_unknown) # ps_sending s,
            ps_accepted := ps_accepted s @ [(tk_task_id x, dtmrs_unknown)]\<rparr>)" by simp
        with l have "pull_step\<^sup>*\<^sup>* s (s\<lparr>ps_queue := q2, ps_sending := (tk_task_id x, dtmrs_unknown) # ps_sending s,
            ps_accepted := ps_accepted s @ [(tk_task_id x, dtmrs_unknown)]\<rparr>)" by simp
        with Inr \<open>write_out _ _ = Inl e\<close> Pair Some assms y show ?thesis
          by (intro exI [of _ "s\<lparr>ps_queue := q2, ps_sending := (tk_task_id x, dtmrs_unknown) # ps_sending s,
            ps_accepted := ps_accepted s @ [(tk_task_id x, dtmrs_unknown)]\<rparr>"])
            (auto simp: next_task_def dtmrs_err_def)
      qed
    qed
  qed
qed

section \<open>The invariant\<close>

text \<open>Who a task is with: its number is queued or handed out, once.\<close>

definition queue_inv :: "pull_state \<Rightarrow> bool" where
  "queue_inv s \<longleftrightarrow>
     distinct (map tk_task_id (ps_taken s @ pq_tasks (ps_queue s))) \<and>
     (\<forall>t\<in>set (ps_taken s) \<union> set (pq_tasks (ps_queue s)).
        (\<exists>name c. ps_asked s (tk_task_id t) = Some (name, c) \<and> t = task_of (tk_task_id t) name c) \<and>
        ps_phase s (tk_task_id t) \<notin> {None, Some Numbered, Some Inserted}) \<and>
     (\<forall>tid. ps_phase s tid \<noteq> None \<longrightarrow> tid < pq_next_id (ps_queue s))"

text \<open>
  Who may answer a dispatch: whoever takes its number out of \<open>waiting\<close>, once. The state of one
  number, by its phase, what is in its channel, and whether it is waited for.
\<close>

definition number_ok :: "dispatch option \<Rightarrow> branch_result option \<Rightarrow> bool \<Rightarrow> int set \<Rightarrow> int set \<Rightarrow> bool" where
  "number_ok d mail waiting accepted sending \<longleftrightarrow>
     (waiting \<longrightarrow> accepted = {} \<and> d \<in> {Some Inserted, Some Awaiting, Some Given_up}) \<and>
     (accepted \<noteq> {} \<longrightarrow> d \<notin> {None, Some Numbered}) \<and>
     (sending \<noteq> {} \<longrightarrow> mail = None) \<and> sending \<subseteq> accepted \<and>
     (\<forall>r. mail = Some r \<longrightarrow> r \<in> to_branch_result ` accepted) \<and>
     (\<forall>r. d = Some (Returned r) \<longrightarrow> r = Unknown \<or> mail = Some r)"

definition codes :: "nat \<Rightarrow> (nat \<times> int) list \<Rightarrow> int set" where
  "codes tid xs = {code. (tid, code) \<in> set xs}"

definition answer_inv :: "pull_state \<Rightarrow> bool" where
  "answer_inv s \<longleftrightarrow>
     distinct (map fst (ps_accepted s)) \<and> distinct (map fst (ps_sending s)) \<and>
     (\<forall>tid. number_ok (ps_phase s tid) (ps_mail s tid) (tid \<in> pq_waiting (ps_queue s))
        (codes tid (ps_accepted s)) (codes tid (ps_sending s)))"

lemma codes_simps [simp]:
  "codes tid [] = {}" "codes tid (xs @ ys) = codes tid xs \<union> codes tid ys"
  "codes tid ((t, c) # xs) = (if t = tid then insert c (codes tid xs) else codes tid xs)"
  by (auto simp: codes_def)

lemma codes_empty: "codes tid xs = {} \<longleftrightarrow> tid \<notin> fst ` set xs"
  by (force simp: codes_def)

lemma codes_remove1:
  assumes "distinct (map fst xs)" "(t, c) \<in> set xs"
  shows "codes tid (remove1 (t, c) xs) = (if tid = t then {} else codes tid xs)"
proof -
  have "set (remove1 (t, c) xs) = set xs - {(t, c)}" using assms(1) by (simp add: distinct_map)
  then show ?thesis using assms by (auto simp: codes_def dest: eq_key_imp_eq_value)
qed

lemma distinct_remove1_keys: "distinct (map fst xs) \<Longrightarrow> distinct (map fst (remove1 x xs))"
  by (auto simp: distinct_map distinct_remove1 intro: inj_on_diff)

lemma step_queue:
  assumes "pull_step s s'" "queue_inv s" shows "queue_inv s'"
  using assms
proof cases
  case (number tid q name c)
  then have "tid = pq_next_id (ps_queue s)" "q = (ps_queue s)\<lparr>pq_next_id := tid + 1\<rparr>"
    by (auto simp: next_number_def)
  moreover have "ps_phase s tid = None" using calculation assms(2) by (force simp: queue_inv_def)
  ultimately show ?thesis using number(1) assms(2) by (force simp: queue_inv_def)
next
  case (queues tid name c)
  have "tid \<notin> tk_task_id ` (set (ps_taken s) \<union> set (pq_tasks (ps_queue s)))"
    using queues(2) assms(2) by (auto simp: queue_inv_def)
  with queues assms(2) show ?thesis
    by (auto simp: queue_inv_def send_task_def task_of_def)
qed (auto simp: queue_inv_def start_waiting_def stop_waiting_def take_task_def reply_inner_def
    split: list.splits if_splits)

lemma step_answer:
  assumes "pull_step s s'" "queue_inv s" "answer_inv s" shows "answer_inv s'"
proof -
  have ok: "number_ok (ps_phase s tid) (ps_mail s tid) (tid \<in> pq_waiting (ps_queue s))
      (codes tid (ps_accepted s)) (codes tid (ps_sending s))" for tid
    using assms(3) by (simp add: answer_inv_def)
  have d: "distinct (map fst (ps_accepted s))" "distinct (map fst (ps_sending s))"
    using assms(3) by (simp_all add: answer_inv_def)
  show ?thesis
    using assms(1)
  proof cases
    case (number tid q name c)
    then have "tid = pq_next_id (ps_queue s)" "pq_waiting q = pq_waiting (ps_queue s)"
      by (auto simp: next_number_def)
    moreover have "ps_phase s tid = None" using calculation(1) assms(2) by (force simp: queue_inv_def)
    ultimately show ?thesis using number(1) ok d ok [of tid] by (auto simp: answer_inv_def number_ok_def)
  next
    case (waits tid)
    with ok [of tid] ok d show ?thesis by (auto simp: answer_inv_def start_waiting_def number_ok_def)
  next
    case (queues tid name c)
    with ok [of tid] ok d show ?thesis by (auto simp: answer_inv_def send_task_def number_ok_def)
  next
    case (receives tid r)
    then have "tid \<notin> pq_waiting (ps_queue s)" using ok [of tid] by (auto simp: number_ok_def)
    with receives ok [of tid] ok d show ?thesis by (auto simp: answer_inv_def number_ok_def)
  next
    case (times_out tid)
    with ok [of tid] ok d show ?thesis by (auto simp: answer_inv_def number_ok_def)
  next
    case (cleans_up tid)
    with ok [of tid] ok d show ?thesis by (auto simp: answer_inv_def number_ok_def stop_waiting_def)
  next
    case (takes t q)
    with ok d show ?thesis by (auto simp: answer_inv_def take_task_def split: list.splits)
  next
    case (loses t q)
    with ok d show ?thesis by (auto simp: answer_inv_def take_task_def split: list.splits)
  next
    case (replies tid q code)
    then have w: "tid \<in> pq_waiting (ps_queue s)" "q = stop_waiting tid (ps_queue s)"
      by (auto simp: reply_inner_def split: if_splits)
    with ok [of tid] have e: "codes tid (ps_accepted s) = {}" "codes tid (ps_sending s) = {}"
      "ps_phase s tid \<in> {Some Inserted, Some Awaiting, Some Given_up}" "ps_mail s tid = None"
      by (auto simp: number_ok_def)
    then have "number_ok (ps_phase s tid) (ps_mail s tid) False {code} {code}"
      by (auto simp: number_ok_def)
    moreover have "tid \<notin> fst ` set (ps_accepted s)" "tid \<notin> fst ` set (ps_sending s)"
      using e(1,2) by (simp_all add: codes_empty)
    ultimately show ?thesis
      using replies(1) w(2) e(1,2) ok d by (simp add: answer_inv_def stop_waiting_def)
  next
    case (sends tid code)
    then have "code \<in> codes tid (ps_sending s)" by (simp add: codes_def)
    with ok [of tid] have "number_ok (ps_phase s tid) (Some (to_branch_result code)) (tid \<in> pq_waiting (ps_queue s))
        (codes tid (ps_accepted s)) {}"
      by (auto simp: number_ok_def)
    with sends ok d show ?thesis
      by (simp add: answer_inv_def codes_remove1 distinct_remove1_keys)
  qed
qed

lemma pull_reach_inv: "pull_step\<^sup>*\<^sup>* pull_start s \<Longrightarrow> queue_inv s \<and> answer_inv s"
proof (induction rule: rtranclp_induct)
  case base
  show ?case by (simp add: pull_start_def pull_queue_new_def queue_inv_def answer_inv_def number_ok_def)
next
  case (step s s')
  then show ?case using step_queue step_answer by blast
qed

section \<open>Properties\<close>

text \<open>
  C29. Branches the host pulls, whatever the order in which dispatches, timers and threads of the
  host get their turn: a dispatch that returns anything but unknown returns what the host replied
  to its number; a number is handed out once, with the branch it was given to, and answered once;
  nothing that has returned is still waited for.
\<close>

theorem pulled_answers_are_the_hosts:
  assumes "pull_step\<^sup>*\<^sup>* pull_start s"
  shows "(\<forall>tid r. ps_phase s tid = Some (Returned r) \<and> r \<noteq> Unknown \<longrightarrow>
      (\<exists>code. (tid, code) \<in> set (ps_accepted s) \<and> to_branch_result code = r)) \<and>
    (\<forall>t\<in>set (ps_taken s). \<exists>name c. ps_asked s (tk_task_id t) = Some (name, c) \<and> t = task_of (tk_task_id t) name c) \<and>
    distinct (map tk_task_id (ps_taken s)) \<and> distinct (map fst (ps_accepted s)) \<and>
    (\<forall>tid r. ps_phase s tid = Some (Returned r) \<longrightarrow> tid \<notin> pq_waiting (ps_queue s))"
proof -
  from pull_reach_inv [OF assms] have q: "queue_inv s" and a: "answer_inv s" by blast+
  have ok: "number_ok (ps_phase s tid) (ps_mail s tid) (tid \<in> pq_waiting (ps_queue s))
      (codes tid (ps_accepted s)) (codes tid (ps_sending s))" for tid
    using a by (simp add: answer_inv_def)
  have "\<exists>code. (tid, code) \<in> set (ps_accepted s) \<and> to_branch_result code = r"
    if "ps_phase s tid = Some (Returned r)" "r \<noteq> Unknown" for tid r
    using ok [of tid] that by (auto simp: number_ok_def codes_def)
  moreover have "tid \<notin> pq_waiting (ps_queue s)" if "ps_phase s tid = Some (Returned r)" for tid r
    using ok [of tid] that by (auto simp: number_ok_def)
  ultimately show ?thesis using q a by (auto simp: queue_inv_def answer_inv_def)
qed

definition pay_call :: branch_call where
  "pay_call = \<lparr>c_gid = ''g'', c_trans_type = Tcc, c_branch_id = ''01'', c_op = Confirm,
     c_url = ''local://pay'', c_payload = ''{}''\<rparr>"

text \<open>One dispatch on its way: numbered; then waited for and queued.\<close>

definition numbered_once :: pull_state where
  "numbered_once = \<lparr>ps_queue = \<lparr>pq_tasks = [], pq_waiting = {}, pq_next_id = 2\<rparr>,
     ps_phase = [1 \<mapsto> Numbered], ps_mail = \<lambda>_. None, ps_sending = [],
     ps_asked = [1 \<mapsto> (''pay'', pay_call)], ps_taken = [], ps_accepted = []\<rparr>"

definition asked_once :: pull_state where
  "asked_once = numbered_once\<lparr>ps_queue := \<lparr>pq_tasks = [task_of 1 ''pay'' pay_call], pq_waiting = {1}, pq_next_id = 2\<rparr>,
     ps_phase := [1 \<mapsto> Awaiting]\<rparr>"

lemma asked_once_reached: "pull_step\<^sup>*\<^sup>* pull_start asked_once"
proof -
  have n: "next_number (ps_queue pull_start) = (1, \<lparr>pq_tasks = [], pq_waiting = {}, pq_next_id = 2\<rparr>)"
    "pq_next_id (ps_queue pull_start) + 1 < 2 ^ 64"
    by (simp_all add: next_number_def pull_start_def pull_queue_new_def)
  have "pull_step pull_start numbered_once"
    using number [OF n, of "''pay''" pay_call] by (simp add: numbered_once_def pull_start_def)
  moreover have "pull_step numbered_once (set_phase 1 Inserted (on_queue (start_waiting 1) numbered_once))"
    by (rule waits) (simp add: numbered_once_def)
  moreover have "pull_step (set_phase 1 Inserted (on_queue (start_waiting 1) numbered_once)) asked_once"
    using queues [of "set_phase 1 Inserted (on_queue (start_waiting 1) numbered_once)" 1 "''pay''" pay_call]
    by (simp add: asked_once_def numbered_once_def send_task_def start_waiting_def)
  ultimately show ?thesis by simp
qed

text \<open>The host takes the task, refuses, and the dispatch returns the refusal.\<close>

definition refused_once :: pull_state where
  "refused_once = asked_once\<lparr>ps_queue := \<lparr>pq_tasks = [], pq_waiting = {}, pq_next_id = 2\<rparr>,
     ps_phase := [1 \<mapsto> Returned Failure], ps_mail := [1 \<mapsto> Failure],
     ps_taken := [task_of 1 ''pay'' pay_call], ps_accepted := [(1, 1)]\<rparr>"

lemma refused_once_reached: "pull_step\<^sup>*\<^sup>* pull_start refused_once"
proof -
  let ?q = "\<lparr>pq_tasks = [], pq_waiting = {}, pq_next_id = 2\<rparr>"
  let ?s1 = "asked_once\<lparr>ps_queue := ?q\<lparr>pq_waiting := {1}\<rparr>, ps_taken := [task_of 1 ''pay'' pay_call]\<rparr>"
  let ?s2 = "?s1\<lparr>ps_queue := ?q, ps_sending := [(1, 1)], ps_accepted := [(1, 1)]\<rparr>"
  let ?s3 = "?s2\<lparr>ps_sending := [], ps_mail := [1 \<mapsto> Failure]\<rparr>"
  note d = asked_once_def numbered_once_def refused_once_def to_branch_result_iff
  have "pull_step asked_once ?s1"
    using takes [of asked_once "task_of 1 ''pay'' pay_call" "?q\<lparr>pq_waiting := {1}\<rparr>"]
    by (simp add: d take_task_def)
  moreover have "pull_step ?s1 ?s2"
    using replies [of 1 ?s1 ?q 1] by (simp add: d reply_inner_def stop_waiting_def)
  moreover have "pull_step ?s2 ?s3"
    using sends [of 1 1 ?s2] by (simp add: d to_branch_result_def ffi_codes)
  moreover have "pull_step ?s3 refused_once"
    using receives [of ?s3 1 Failure] by (simp add: d)
  ultimately show ?thesis using asked_once_reached by simp
qed

lemma pulled_answers_are_the_hosts_witness:
  "\<exists>s code. pull_step\<^sup>*\<^sup>* pull_start s \<and> ps_phase s 1 = Some (Returned Failure) \<and>
     (1, code) \<in> set (ps_accepted s) \<and> to_branch_result code = Failure"
proof -
  have "ps_phase refused_once 1 = Some (Returned Failure)" by (simp add: refused_once_def)
  with pulled_answers_are_the_hosts [OF refused_once_reached] refused_once_reached
  show ?thesis by blast
qed

text \<open>
  Nothing takes a task out of the queue when its dispatch gives up: the host is handed a branch
  whose result nobody waits for, and its reply is refused.
\<close>

lemma late_host_gets_dead_tasks:
  "\<exists>s. pull_step\<^sup>*\<^sup>* pull_start s \<and> ps_phase s 1 = Some (Returned Unknown) \<and>
     ps_taken s = [task_of 1 ''pay'' pay_call] \<and> isl (fst (reply_inner 1 (ps_queue s)))"
proof -
  let ?q = "\<lparr>pq_tasks = [task_of 1 ''pay'' pay_call], pq_waiting = {}, pq_next_id = 2\<rparr>"
  let ?s1 = "set_phase 1 Given_up asked_once"
  let ?s2 = "set_phase 1 (Returned Unknown) (on_queue (stop_waiting 1) ?s1)"
  let ?s3 = "?s2\<lparr>ps_queue := ?q\<lparr>pq_tasks := []\<rparr>, ps_taken := [task_of 1 ''pay'' pay_call]\<rparr>"
  note d = asked_once_def numbered_once_def stop_waiting_def take_task_def
  have "pull_step asked_once ?s1" by (rule times_out) (simp_all add: d)
  moreover have "pull_step ?s1 ?s2" by (rule cleans_up) simp
  moreover have "pull_step ?s2 ?s3"
    using takes [of ?s2 "task_of 1 ''pay'' pay_call" "?q\<lparr>pq_tasks := []\<rparr>"] by (simp add: d)
  ultimately have "pull_step\<^sup>*\<^sup>* pull_start ?s3" using asked_once_reached by simp
  then show ?thesis by (intro exI [of _ ?s3]) (simp add: reply_inner_def)
qed

end
