(* ===== verification/Ffi_Workflow.thy ===== *)
theory Ffi_Workflow
  imports Ffi_Host
begin

text \<open>
  Workflows written in the language of the host (\<^verbatim>\<open>dtmrs_wf_branch\<close> and \<^verbatim>\<open>run_host_workflow\<close> of
  \<^verbatim>\<open>crates/dtmrs-ffi/src/lib.rs\<close>). The function of the host is what it can do: return a code, or
  call \<open>dtmrs_wf_branch\<close> and go on with what it got, in any way, errors ignored or not. What the
  body of a branch leaves in its buffer is given as the text read from it.
\<close>

section \<open>Texts\<close>

definition wf_host_failure_text :: string where
  "wf_host_failure_text =
     utf8 [119, 111, 114, 107, 102, 108, 111, 119, 32, 229, 135, 189, 230, 149, 176, 232, 191,
     148, 229, 155, 158, 32, 70, 65, 73, 76, 85, 82, 69]"

definition wf_nul_text :: string where
  "wf_nul_text =
     utf8 [103, 105, 100, 32, 47, 32, 105, 110, 112, 117, 116, 32, 229, 144, 171, 32, 78, 85, 76,
     239, 188, 140, 67, 32, 229, 155, 158, 232, 176, 131, 228, 188, 160, 228, 184, 141, 228, 186,
     134]"

definition wf_host_code_text :: "int \<Rightarrow> string" where
  "wf_host_code_text c =
     utf8 [119, 111, 114, 107, 102, 108, 111, 119, 32, 229, 135, 189, 230, 149, 176, 232, 191,
     148, 229, 155, 158, 32] @ dec_int c"

definition buffer_text :: "ffi_error \<Rightarrow> string" where
  "buffer_text e =
     (case e of
        Buffer_too_small n \<Rightarrow>
          utf8 [232, 190, 147, 229, 135, 186, 231, 188, 147, 229, 134, 178, 229, 140, 186, 229,
          164, 170, 229, 176, 143, 239, 188, 154, 233, 156, 128, 232, 166, 129, 32] @ dec n @
          utf8 [32, 229, 173, 151, 232, 138, 130]
      | _ \<Rightarrow> utf8 [232, 190, 147, 229, 135, 186, 231, 188, 147, 229, 134, 178, 229, 140, 186, 230, 151, 160, 230, 149, 136])"

definition wf_out_text :: "string \<Rightarrow> ffi_error \<Rightarrow> string" where
  "wf_out_text bid e =
     utf8 [229, 136, 134, 230, 148, 175, 32] @ bid @ utf8 [32, 231, 154, 132, 231, 187, 147, 230,
     158, 156, 229, 134, 153, 228, 184, 141, 232, 191, 155, 32, 111, 117, 116, 58, 32] @
     buffer_text e"

section \<open>A branch\<close>

type_synonym host_body = "nat \<Rightarrow> string \<Rightarrow> string \<Rightarrow> int \<times> string"

datatype host_wf =
    Host_return int
  | Host_branch c_str c_str "host_body option" "nat option" "ffi_error + string option \<Rightarrow> host_wf"

record dtmrs_wf =
  wf_ctx :: wf_ctx
  wf_err :: "wf_error option"

definition wf_out_cap :: nat where "wf_out_cap = 1024 * 4 + 1"

definition host_branch :: "host_body \<Rightarrow> string \<Rightarrow> string \<Rightarrow> nat \<Rightarrow> branch_result \<times> string" where
  "host_branch f gid bid n =
     (let (code, text) = f n gid bid
      in (to_branch_result code, take (wf_out_cap - 1) (takeWhile (\<lambda>c. c \<noteq> nul) text)))"

text \<open>What is checked before anything is done, in the order of the code.\<close>

definition checked_args ::
  "string \<Rightarrow> c_str \<Rightarrow> c_str \<Rightarrow> host_body option \<Rightarrow> ffi_error + (string \<times> string option \<times> host_body)" where
  "checked_args gid name compensate f =
     (case cstr name ''name'' of
        Inl e \<Rightarrow> Inl e
      | Inr name \<Rightarrow>
          (case cstr_opt compensate ''compensate'' of
             Inl e \<Rightarrow> Inl e
           | Inr c \<Rightarrow>
               (case f of
                  None \<Rightarrow> Inl (Null_pointer ''f'')
                | Some f \<Rightarrow>
                    if c_string gid = None then Inl (Nul_in ''gid'')
                    else Inr (name, (if c = [] then None else Some c), f))))"

text \<open>What the host gets for the result of a branch, or why the workflow has to stop.\<close>

definition hand_out :: "string \<Rightarrow> nat option \<Rightarrow> wf_error + string \<Rightarrow> wf_error + string option" where
  "hand_out bid out r =
     (case r of
        Inl e \<Rightarrow> Inl e
      | Inr data \<Rightarrow>
          if out = None then Inr None
          else (case write_out data out of
                  Inl e \<Rightarrow> Inl (Wf_retry (wf_out_text bid e))
                | Inr s \<Rightarrow> Inr (Some s)))"

definition wf_branch ::
  "environment \<Rightarrow> c_str \<Rightarrow> c_str \<Rightarrow> host_body option \<Rightarrow> nat option \<Rightarrow> dtmrs_wf \<Rightarrow>
   ((ffi_error + string option) \<times> dtmrs_wf) prog" where
  "wf_branch env name compensate f out h =
     (case wf_err h of
        Some e \<Rightarrow> ret (Inl (Workflow_stopped e), h)
      | None \<Rightarrow>
          (case checked_args (x_gid (wf_ctx h)) name compensate f of
             Inl e \<Rightarrow> ret (Inl e, h)
           | Inr (name, c, f) \<Rightarrow> do {
               let bid = branch_id (x_seq (wf_ctx h));
               r \<leftarrow> run_with env (wf_ctx h) name c (host_branch f (x_gid (wf_ctx h)) bid);
               let ctx = (wf_ctx h)\<lparr>x_seq := Suc (x_seq (wf_ctx h))\<rparr>;
               ret (case hand_out bid out r of
                      Inl e \<Rightarrow> (Inl (Workflow_error e), \<lparr>wf_ctx = ctx, wf_err = Some e\<rparr>)
                    | Inr x \<Rightarrow> (Inr x, \<lparr>wf_ctx = ctx, wf_err = None\<rparr>))
             }))"

section \<open>A run\<close>

primrec run_host :: "host_wf \<Rightarrow> environment \<Rightarrow> dtmrs_wf \<Rightarrow> (int \<times> dtmrs_wf) prog" where
  "run_host (Host_return code) env h = ret (code, h)"
| "run_host (Host_branch name compensate f out k) env h =
     State_Monad.bind (wf_branch env name compensate f out h)
       (\<lambda>(r, h). run_host (k r) env h)"

definition host_verdict :: "int \<Rightarrow> wf_error + unit" where
  "host_verdict code =
     (if code = dtmrs_success then Inr ()
      else if code = dtmrs_failure then Inl (Wf_rollback wf_host_failure_text)
      else Inl (Wf_retry (wf_host_code_text code)))"

definition run_host_workflow ::
  "environment \<Rightarrow> (string \<Rightarrow> string \<Rightarrow> host_wf) \<Rightarrow> wf_ctx \<Rightarrow> (wf_error + unit) prog" where
  "run_host_workflow env f ctx =
     (if c_string (x_gid ctx) = None \<or> c_string (x_input ctx) = None then ret (Inl (Wf_retry wf_nul_text))
      else do {
        (code, h) \<leftarrow> run_host (f (x_gid ctx) (x_input ctx)) env \<lparr>wf_ctx = ctx, wf_err = None\<rparr>;
        ret (case wf_err h of Some e \<Rightarrow> Inl e | None \<Rightarrow> host_verdict code)
      })"

section \<open>The workflow it is\<close>

text \<open>
  The same function as a workflow of the coordinator: the first error of a branch is its end,
  whatever the host does with it.
\<close>

primrec body_of :: "string \<Rightarrow> host_wf \<Rightarrow> nat \<Rightarrow> wf_body" where
  "body_of gid (Host_return code) = (\<lambda>k. Wf_return (host_verdict code))"
| "body_of gid (Host_branch name compensate f out cont) = (\<lambda>k.
     case checked_args gid name compensate f of
       Inl e \<Rightarrow> body_of gid (cont (Inl e)) k
     | Inr (name, c, f) \<Rightarrow>
         Wf_branch name c (host_branch f gid (branch_id k)) (\<lambda>r.
           case hand_out (branch_id k) out r of
             Inl e \<Rightarrow> Wf_return (Inl e)
           | Inr x \<Rightarrow> body_of gid (cont (Inr x)) (Suc k)))"

definition host_body_of :: "(string \<Rightarrow> string \<Rightarrow> host_wf) \<Rightarrow> string \<Rightarrow> string \<Rightarrow> wf_body" where
  "host_body_of f gid input =
     (if c_string gid = None \<or> c_string input = None then Wf_return (Inl (Wf_retry wf_nul_text))
      else body_of gid (f gid input) 0)"

text \<open>After an error nothing is executed any more.\<close>

lemma run_stopped:
  assumes "wf_err h = Some e"
  shows "\<exists>code. run_state (run_host hw env h) w = ((code, h), w)"
proof (induction hw)
  case (Host_branch name compensate f out k)
  then show ?case using assms by (auto simp: wf_branch_def)
qed simp

lemma run_host_body:
  assumes "wf_err h = None"
  shows "run_state (do { (code, h) \<leftarrow> run_host hw env h;
             ret (case wf_err h of Some e \<Rightarrow> Inl e | None \<Rightarrow> host_verdict code) }) w =
    run_state (run_wf (body_of (x_gid (wf_ctx h)) hw (x_seq (wf_ctx h))) env (wf_ctx h)) w"
  using assms
proof (induction hw arbitrary: h w)
  case (Host_return code)
  then show ?case by simp
next
  case (Host_branch name compensate f out k)
  let ?gid = "x_gid (wf_ctx h)" and ?bid = "branch_id (x_seq (wf_ctx h))"
  show ?case
  proof (cases "checked_args ?gid name compensate f")
    case (Inl e)
    with Host_branch.IH [OF rangeI, of h "Inl e" w] Host_branch.prems show ?thesis
      by (simp add: wf_branch_def split_beta)
  next
    case (Inr args)
    then obtain nm c g where args: "args = (nm, c, g)" by (cases args)
    let ?ctx = "(wf_ctx h)\<lparr>x_seq := Suc (x_seq (wf_ctx h))\<rparr>"
    obtain r w1 where r: "run_state (run_with env (wf_ctx h) nm c (host_branch g ?gid ?bid)) w = (r, w1)"
      by fastforce
    note args = \<open>checked_args _ _ _ _ = Inr args\<close> args
    show ?thesis
    proof (cases "hand_out ?bid out r")
      case (Inl e)
      let ?h = "\<lparr>wf_ctx = ?ctx, wf_err = Some e\<rparr>"
      have b: "run_state (wf_branch env name compensate f out h) w = ((Inl (Workflow_error e), ?h), w1)"
        using Inl args r Host_branch.prems by (simp add: wf_branch_def Let_def)
      obtain code where "run_state (run_host (k (Inl (Workflow_error e))) env ?h) w1 = ((code, ?h), w1)"
        using run_stopped [of ?h e "k (Inl (Workflow_error e))" env w1] by auto
      with b Inl args r show ?thesis by simp
    next
      case (Inr x)
      let ?h = "\<lparr>wf_ctx = ?ctx, wf_err = None\<rparr>"
      have b: "run_state (wf_branch env name compensate f out h) w = ((Inr x, ?h), w1)"
        using Inr args r Host_branch.prems by (simp add: wf_branch_def Let_def)
      from Host_branch.IH [OF rangeI, of ?h "Inr x" w1] b Inr args r show ?thesis by simp
    qed
  qed
qed

section \<open>Properties\<close>


text \<open>
  An error in the arguments is not remembered: the host that ignores it goes on, and what it
  returns counts.
\<close>

lemma bad_arguments_do_not_stop:
  "run_state (run_host_workflow env (\<lambda>gid input. Host_branch Null_str c f out (\<lambda>_. Host_return 0))
      (wf_ctx_new ''g'' [] [])) w = (Inr (), w)"
  by (simp add: run_host_workflow_def wf_branch_def checked_args_def cstr_def wf_ctx_new_def c_string_def
      host_verdict_def ffi_codes nul_def)

end
