(* ===== verification/Ffi.thy ===== *)
theory Ffi
  imports Ffi_Workflow Ffi_Pull
begin

text \<open>
  The exported functions of the C interface (\<^verbatim>\<open>crates/dtmrs-ffi/src/lib.rs\<close>) over the embedded
  coordinator. A handle of the host is null or points to a \<open>dtmrs_tc\<close>. A result \<open>Inl e\<close> is the code
  \<open>DTMRS_ERR\<close> with the last error \<open>e\<close>, a result \<open>Inr\<close> the code (or the text written to the buffer
  and \<open>DTMRS_OK\<close>). The runtime, its threads and the release of memory are not modelled.
\<close>

section \<open>The handle\<close>

record dtmrs_tc =
  h_pending :: "(string \<times> host_fn) list option"
  h_pending_pull :: "string list option"
  h_pending_wf :: "(string \<times> (string \<Rightarrow> string \<Rightarrow> host_wf)) list option"
  h_pending_topics :: "(string \<times> string) list option"
  h_pending_alert :: "(string \<times> int) option"
  h_db :: string
  h_tc :: "embedded option"

definition ffi_open :: "c_str \<Rightarrow> ffi_error + dtmrs_tc" where
  "ffi_open url =
     (case cstr url ''db_url'' of
        Inl e \<Rightarrow> Inl e
      | Inr db \<Rightarrow> Inr
          \<lparr>h_pending = Some [], h_pending_pull = Some [], h_pending_wf = Some [],
           h_pending_topics = Some [], h_pending_alert = None, h_db = db, h_tc = None\<rparr>)"

text \<open>
  The functions of this section and of the next work on the handle they are given; each begins with
  the check \<open>on_handle\<close> that there is one.
\<close>

definition on_handle ::
  "(dtmrs_tc \<Rightarrow> (ffi_error + int) \<times> dtmrs_tc) \<Rightarrow> dtmrs_tc option \<Rightarrow> (ffi_error + int) \<times> dtmrs_tc option" where
  "on_handle f tc =
     (case tc of
        None \<Rightarrow> (Inl (Null_pointer ''tc''), None)
      | Some h \<Rightarrow> (case f h of (r, h) \<Rightarrow> (r, Some h)))"

text \<open>Several arguments are read before any error is looked at: the last bad one is reported.\<close>

definition both :: "ffi_error + 'a \<Rightarrow> ffi_error + 'b \<Rightarrow> ffi_error + ('a \<times> 'b)" where
  "both a b =
     (case b of
        Inl e \<Rightarrow> Inl e
      | Inr y \<Rightarrow> (case a of Inl e \<Rightarrow> Inl e | Inr x \<Rightarrow> Inr (x, y)))"

definition push_handler ::
  "string \<Rightarrow> host_fn \<Rightarrow> dtmrs_tc \<Rightarrow> (ffi_error + int) \<times> dtmrs_tc" where
  "push_handler name f h =
     (case h_pending h of
        Some v \<Rightarrow> (Inr dtmrs_ok, h\<lparr>h_pending := Some (v @ [(name, f)])\<rparr>)
      | None \<Rightarrow> (Inl (Started ''handler''), h))"

text \<open>
  \<open>dtmrs_register\<close> and \<open>dtmrs_register_ex\<close> differ in the callback only; a null pointer is no
  function.
\<close>

definition ffi_register ::
  "c_str \<Rightarrow> host_fn option \<Rightarrow> dtmrs_tc \<Rightarrow> (ffi_error + int) \<times> dtmrs_tc" where
  "ffi_register name f h =
     (case cstr name ''name'' of
        Inl e \<Rightarrow> (Inl e, h)
      | Inr n \<Rightarrow>
          (case f of
             None \<Rightarrow> (Inl (Null_pointer ''handler''), h)
           | Some f \<Rightarrow> push_handler n f h))"

definition ffi_register_pull :: "c_str \<Rightarrow> dtmrs_tc \<Rightarrow> (ffi_error + int) \<times> dtmrs_tc" where
  "ffi_register_pull name h =
     (case cstr name ''name'' of
        Inl e \<Rightarrow> (Inl e, h)
      | Inr n \<Rightarrow>
          (case h_pending_pull h of
             Some v \<Rightarrow> (Inr dtmrs_ok, h\<lparr>h_pending_pull := Some (v @ [n])\<rparr>)
           | None \<Rightarrow> (Inl (Started ''branch''), h)))"

definition ffi_register_workflow ::
  "c_str \<Rightarrow> (string \<Rightarrow> string \<Rightarrow> host_wf) option \<Rightarrow> dtmrs_tc \<Rightarrow> (ffi_error + int) \<times> dtmrs_tc" where
  "ffi_register_workflow name f h =
     (case cstr name ''name'' of
        Inl e \<Rightarrow> (Inl e, h)
      | Inr n \<Rightarrow>
          (case f of
             None \<Rightarrow> (Inl (Null_pointer ''workflow''), h)
           | Some f \<Rightarrow>
               (case h_pending_wf h of
                  Some v \<Rightarrow> (Inr dtmrs_ok, h\<lparr>h_pending_wf := Some (v @ [(n, f)])\<rparr>)
                | None \<Rightarrow> (Inl (Started ''workflow''), h))))"

definition ffi_topic_static :: "c_str \<Rightarrow> c_str \<Rightarrow> dtmrs_tc \<Rightarrow> (ffi_error + int) \<times> dtmrs_tc" where
  "ffi_topic_static topic url h =
     (case both (cstr topic ''topic'') (cstr url ''url'') of
        Inl e \<Rightarrow> (Inl e, h)
      | Inr p \<Rightarrow>
          (case h_pending_topics h of
             Some v \<Rightarrow> (Inr dtmrs_ok, h\<lparr>h_pending_topics := Some (v @ [p])\<rparr>)
           | None \<Rightarrow> (Inl (Started ''topic''), h)))"

definition ffi_alert_webhook :: "c_str \<Rightarrow> int \<Rightarrow> dtmrs_tc \<Rightarrow> (ffi_error + int) \<times> dtmrs_tc" where
  "ffi_alert_webhook url limit h =
     (case cstr url ''url'' of
        Inl e \<Rightarrow> (Inl e, h)
      | Inr u \<Rightarrow>
          if h_tc h \<noteq> None then (Inl (Started ''alert''), h)
          else (Inr dtmrs_ok, h\<lparr>h_pending_alert := Some (u, limit)\<rparr>))"

section \<open>Starting\<close>

definition taken_out :: "'a list option \<Rightarrow> 'a list" where
  "taken_out x = (case x of None \<Rightarrow> [] | Some v \<Rightarrow> v)"

text \<open>
  The builder a start is made with. \<open>pulled\<close> is what a dispatch to the pull queue under a name
  returns (\<open>Ffi_Pull\<close>).
\<close>

definition start_builder :: "nat \<Rightarrow> (string \<Rightarrow> handler) \<Rightarrow> dtmrs_tc \<Rightarrow> embedded_builder" where
  "start_builder pid pulled h =
     (let b = set_tick 50 (builder (h_db h) pid);
          b = fold (\<lambda>(t, u). eb_subscribe t u) (taken_out (h_pending_topics h)) b;
          b = (case h_pending_alert h of None \<Rightarrow> b | Some (url, limit) \<Rightarrow> alert_webhook url limit b);
          b = fold (\<lambda>(n, f). eb_workflow n (host_body_of f)) (taken_out (h_pending_wf h)) b;
          b = fold (\<lambda>n. eb_handler n (pulled n)) (taken_out (h_pending_pull h)) b
      in fold (\<lambda>(n, f). eb_handler n (call_host f)) (taken_out (h_pending h)) b)"

definition ffi_start ::
  "json \<Rightarrow> int \<Rightarrow> (string \<Rightarrow> bool) \<Rightarrow> nat \<Rightarrow> (string \<Rightarrow> handler) \<Rightarrow> dtmrs_tc \<Rightarrow>
   (ffi_error + int) \<times> dtmrs_tc" where
  "ffi_start js dflt opens pid pulled h =
     (if h_pending h = None then (Inl (Started ''start''), h)
      else
        let h' = h\<lparr>h_pending := None, h_pending_pull := None, h_pending_wf := None,
                   h_pending_topics := None, h_pending_alert := None\<rparr>
        in case start js dflt opens (start_builder pid pulled h) of
             Inl e \<Rightarrow> (Inl (Failed_embedded e), h')
           | Inr em \<Rightarrow> (Inr dtmrs_ok, h'\<lparr>h_tc := Some em\<rparr>))"

section \<open>Transactions\<close>

definition started :: "dtmrs_tc option \<Rightarrow> ffi_error + embedded" where
  "started tc =
     (case tc of
        None \<Rightarrow> Inl (Null_pointer ''tc'')
      | Some h \<Rightarrow> (case h_tc h of None \<Rightarrow> Inl Not_started | Some em \<Rightarrow> Inr em))"

definition given :: "ffi_error + 'a \<Rightarrow> ('a \<Rightarrow> (ffi_error + 'b) prog) \<Rightarrow> (ffi_error + 'b) prog" where
  "given x f = (case x of Inl e \<Rightarrow> ret (Inl e) | Inr a \<Rightarrow> f a)"

text \<open>\<open>run\<close>: block on an operation and report its error.\<close>

definition ffi_run :: "'a emb_res prog \<Rightarrow> (ffi_error + int) prog" where
  "ffi_run m = do {
     r \<leftarrow> m;
     ret (case r of Inl e \<Rightarrow> Inl (Failed_embedded e) | Inr _ \<Rightarrow> Inr dtmrs_ok)
   }"

definition ffi_submit_saga ::
  "environment \<Rightarrow> dtmrs_tc option \<Rightarrow> c_str \<Rightarrow> c_str \<Rightarrow> (ffi_error + int) prog" where
  "ffi_submit_saga env tc gid steps_json =
     given (started tc) (\<lambda>em.
     given (both (cstr gid ''gid'') (cstr steps_json ''steps_json'')) (\<lambda>(gid, js).
       case js_steps (ap_json (em_api em)) js of
         None \<Rightarrow> ret (Inl (Bad_json ''steps_json''))
       | Some steps \<Rightarrow>
           ffi_run (sb_submit env em
             (fold (\<lambda>s. sb_step_with (s_action s) (s_compensate s) (s_payload s)) steps (saga gid)))))"

definition ffi_tcc_begin :: "environment \<Rightarrow> dtmrs_tc option \<Rightarrow> c_str \<Rightarrow> (ffi_error + int) prog" where
  "ffi_tcc_begin env tc gid =
     given (started tc) (\<lambda>em. given (cstr gid ''gid'') (\<lambda>gid. ffi_run (tcc env em gid)))"

definition ffi_tcc_register ::
  "environment \<Rightarrow> dtmrs_tc option \<Rightarrow> c_str \<Rightarrow> c_str \<Rightarrow> c_str \<Rightarrow> c_str \<Rightarrow> (ffi_error + int) prog" where
  "ffi_tcc_register env tc gid bid confirm cancel =
     given (started tc) (\<lambda>em.
     given (both (both (both (cstr gid ''gid'') (cstr bid ''branch_id'')) (cstr confirm ''confirm''))
              (cstr cancel ''cancel'')) (\<lambda>(((gid, bid), c), x).
       ffi_run (register_tcc_branch env em gid bid c x)))"

definition ffi_tcc_register_ex ::
  "environment \<Rightarrow> dtmrs_tc option \<Rightarrow> c_str \<Rightarrow> c_str \<Rightarrow> c_str \<Rightarrow> c_str \<Rightarrow> c_str \<Rightarrow> (ffi_error + int) prog" where
  "ffi_tcc_register_ex env tc gid bid confirm cancel payload =
     given (started tc) (\<lambda>em.
     given (both (both (both (cstr gid ''gid'') (cstr bid ''branch_id'')) (cstr confirm ''confirm''))
              (cstr cancel ''cancel'')) (\<lambda>(((gid, bid), c), x).
     given (cstr_opt payload ''payload'') (\<lambda>p.
       ffi_run (register_tcc_branch_with env em gid bid c x p))))"

definition begin_ex ::
  "environment \<Rightarrow> dtmrs_tc option \<Rightarrow> c_str \<Rightarrow> int \<Rightarrow> bool \<Rightarrow> (ffi_error + int) prog" where
  "begin_ex env tc gid timeout_secs is_xa =
     given (started tc) (\<lambda>em.
     given (cstr gid ''gid'') (\<lambda>gid.
       if timeout_secs < 0 then ret (Inl Negative_timeout)
       else if is_xa then ffi_run (xa_with_timeout env em gid timeout_secs)
       else ffi_run (tcc_with_timeout env em gid timeout_secs)))"

definition ffi_tcc_begin_ex ::
  "environment \<Rightarrow> dtmrs_tc option \<Rightarrow> c_str \<Rightarrow> int \<Rightarrow> (ffi_error + int) prog" where
  "ffi_tcc_begin_ex env tc gid timeout_secs = begin_ex env tc gid timeout_secs False"

definition ffi_xa_begin_ex ::
  "environment \<Rightarrow> dtmrs_tc option \<Rightarrow> c_str \<Rightarrow> int \<Rightarrow> (ffi_error + int) prog" where
  "ffi_xa_begin_ex env tc gid timeout_secs = begin_ex env tc gid timeout_secs True"

definition ffi_xa_begin :: "environment \<Rightarrow> dtmrs_tc option \<Rightarrow> c_str \<Rightarrow> (ffi_error + int) prog" where
  "ffi_xa_begin env tc gid =
     given (started tc) (\<lambda>em. given (cstr gid ''gid'') (\<lambda>gid. ffi_run (xa env em gid)))"

definition ffi_xa_register ::
  "environment \<Rightarrow> dtmrs_tc option \<Rightarrow> c_str \<Rightarrow> c_str \<Rightarrow> c_str \<Rightarrow> c_str \<Rightarrow> (ffi_error + int) prog" where
  "ffi_xa_register env tc gid bid commit rollback =
     given (started tc) (\<lambda>em.
     given (both (both (both (cstr gid ''gid'') (cstr bid ''branch_id'')) (cstr commit ''commit''))
              (cstr rollback ''rollback'')) (\<lambda>(((gid, bid), c), r).
       ffi_run (register_xa_branch env em gid bid c r)))"

definition ffi_submit :: "environment \<Rightarrow> dtmrs_tc option \<Rightarrow> c_str \<Rightarrow> (ffi_error + int) prog" where
  "ffi_submit env tc gid =
     given (started tc) (\<lambda>em. given (cstr gid ''gid'') (\<lambda>gid. ffi_run (em_submit env em gid)))"

definition ffi_abort :: "environment \<Rightarrow> dtmrs_tc option \<Rightarrow> c_str \<Rightarrow> (ffi_error + int) prog" where
  "ffi_abort env tc gid =
     given (started tc) (\<lambda>em. given (cstr gid ''gid'') (\<lambda>gid. ffi_run (em_abort env gid)))"

section \<open>Messages and topics\<close>

text \<open>\<open>strings\<close> parses a JSON array of strings.\<close>

definition with_grace :: "int \<Rightarrow> msg_builder \<Rightarrow> msg_builder" where
  "with_grace grace_secs b = (if 0 \<le> grace_secs then set_grace_secs grace_secs b else b)"

definition ffi_msg_prepare ::
  "(string \<Rightarrow> string list option) \<Rightarrow> environment \<Rightarrow> dtmrs_tc option \<Rightarrow> c_str \<Rightarrow> c_str \<Rightarrow> c_str \<Rightarrow> int \<Rightarrow>
   (ffi_error + int) prog" where
  "ffi_msg_prepare strings env tc gid actions_json query_prepared grace_secs =
     given (started tc) (\<lambda>em.
     given (both (both (cstr gid ''gid'') (cstr actions_json ''actions_json''))
              (cstr query_prepared ''query_prepared'')) (\<lambda>((gid, js), q).
       case strings js of
         None \<Rightarrow> ret (Inl (Bad_json ''actions_json''))
       | Some actions \<Rightarrow>
           ffi_run (ms_prepare env em
             (with_grace grace_secs (fold ms_action actions (set_query_prepared q (msg gid)))))))"

definition allow_empty_topic_flag :: int where "allow_empty_topic_flag = 1"

text \<open>The payloads, as many as actions; a null pointer is none for every action.\<close>

definition payloads_of ::
  "(string \<Rightarrow> string list option) \<Rightarrow> string list \<Rightarrow> c_str \<Rightarrow> ffi_error + string list" where
  "payloads_of strings actions payloads_json =
     (if payloads_json = Null_str then Inr (replicate (length actions) [])
      else case cstr payloads_json ''payloads_json'' of
          Inl e \<Rightarrow> Inl e
        | Inr pj \<Rightarrow>
            (case strings pj of
               None \<Rightarrow> Inl (Bad_json ''payloads_json'')
             | Some ps \<Rightarrow> Inr ps))"

definition ffi_msg_prepare_ex ::
  "(string \<Rightarrow> string list option) \<Rightarrow> environment \<Rightarrow> dtmrs_tc option \<Rightarrow> c_str \<Rightarrow> c_str \<Rightarrow> c_str \<Rightarrow> c_str \<Rightarrow>
   int \<Rightarrow> int \<Rightarrow> (ffi_error + int) prog" where
  "ffi_msg_prepare_ex strings env tc gid actions_json payloads_json query_prepared grace_secs flags =
     given (started tc) (\<lambda>em.
     given (both (both (cstr gid ''gid'') (cstr actions_json ''actions_json''))
              (cstr query_prepared ''query_prepared'')) (\<lambda>((gid, js), q).
       case strings js of
         None \<Rightarrow> ret (Inl (Bad_json ''actions_json''))
       | Some actions \<Rightarrow>
           given (payloads_of strings actions payloads_json) (\<lambda>payloads.
             if length payloads \<noteq> length actions
             then ret (Inl (Payload_count (length payloads) (length actions)))
             else
               let b = fold (\<lambda>(a, p). action_with a p) (zip actions payloads) (set_query_prepared q (msg gid));
                   b = with_grace grace_secs b;
                   b = (if and flags allow_empty_topic_flag \<noteq> 0 then allow_empty_topic b else b)
               in ffi_run (ms_prepare env em b))))"

definition ffi_subscribe ::
  "environment \<Rightarrow> dtmrs_tc option \<Rightarrow> c_str \<Rightarrow> c_str \<Rightarrow> c_str \<Rightarrow> (ffi_error + int) prog" where
  "ffi_subscribe env tc topic url remark =
     given (started tc) (\<lambda>em.
     given (both (cstr topic ''topic'') (cstr url ''url'')) (\<lambda>(t, u).
     given (cstr_opt remark ''remark'') (\<lambda>r. ffi_run (em_subscribe env em t u r))))"

definition ffi_unsubscribe ::
  "environment \<Rightarrow> dtmrs_tc option \<Rightarrow> c_str \<Rightarrow> c_str \<Rightarrow> (ffi_error + int) prog" where
  "ffi_unsubscribe env tc topic url =
     given (started tc) (\<lambda>em.
     given (both (cstr topic ''topic'') (cstr url ''url'')) (\<lambda>(t, u).
       ffi_run (em_unsubscribe env em t u)))"

text \<open>\<open>bound\<close> is the port an address gives, when it can be bound.\<close>

definition ffi_serve_topic_api ::
  "(string \<Rightarrow> int option) \<Rightarrow> kv_json \<Rightarrow> dtmrs_tc option \<Rightarrow> c_str \<Rightarrow> c_str \<Rightarrow> ffi_error + int" where
  "ffi_serve_topic_api bound KJ tc addr token =
     (case started tc of
        Inl e \<Rightarrow> Inl e
      | Inr em \<Rightarrow>
          (case both (cstr addr ''addr'') (cstr token ''token'') of
             Inl e \<Rightarrow> Inl e
           | Inr (a, t) \<Rightarrow>
               (case serve_topic_api (bound a \<noteq> None) em KJ t of
                  Inl e \<Rightarrow> Inl (Failed_embedded e)
                | Inr _ \<Rightarrow> Inr (the (bound a)))))"

section \<open>Workflows and queries\<close>

definition ffi_submit_workflow ::
  "environment \<Rightarrow> dtmrs_tc option \<Rightarrow> c_str \<Rightarrow> c_str \<Rightarrow> c_str \<Rightarrow> (ffi_error + int) prog" where
  "ffi_submit_workflow env tc gid name input =
     given (started tc) (\<lambda>em.
     given (both (both (cstr gid ''gid'') (cstr name ''name'')) (cstr input ''input''))
       (\<lambda>((gid, name), input). ffi_run (submit_workflow env em gid name input)))"

text \<open>\<open>views\<close> prints a list of transactions as JSON.\<close>

definition ffi_stuck ::
  "(trans_view list \<Rightarrow> string option) \<Rightarrow> environment \<Rightarrow> dtmrs_tc option \<Rightarrow> int \<Rightarrow> nat option \<Rightarrow>
   (ffi_error + string) prog" where
  "ffi_stuck views env tc min_retries out =
     given (started tc) (\<lambda>em. do {
       r \<leftarrow> stuck env min_retries 100;
       ret (case r of
              Inl e \<Rightarrow> Inl (Failed_embedded e)
            | Inr v \<Rightarrow> write_out (case views v of None \<Rightarrow> ''[]'' | Some js \<Rightarrow> js) out)
     })"

definition ffi_empty_topic_count :: "dtmrs_tc option \<Rightarrow> world \<Rightarrow> nat" where
  "ffi_empty_topic_count tc w =
     (case tc of
        None \<Rightarrow> 0
      | Some h \<Rightarrow> (case h_tc h of None \<Rightarrow> 0 | Some em \<Rightarrow> empty_topic_count w))"

definition ffi_status ::
  "environment \<Rightarrow> dtmrs_tc option \<Rightarrow> c_str \<Rightarrow> nat option \<Rightarrow> (ffi_error + string) prog" where
  "ffi_status env tc gid out =
     given (started tc) (\<lambda>em.
     given (cstr gid ''gid'') (\<lambda>gid. do {
       s \<leftarrow> em_status env gid;
       ret (case s of
              None \<Rightarrow> Inl No_such_gid
            | Some s \<Rightarrow> write_out (global_status_str s) out)
     }))"

text \<open>\<open>t\<close> is the instant of the call, \<open>clock k\<close> the one read in turn \<open>k\<close>, in milliseconds.\<close>

definition ffi_wait_final ::
  "nat \<Rightarrow> environment \<Rightarrow> (nat \<Rightarrow> int) \<Rightarrow> int \<Rightarrow> dtmrs_tc option \<Rightarrow> c_str \<Rightarrow> int \<Rightarrow> nat option \<Rightarrow>
   (ffi_error + string option) prog" where
  "ffi_wait_final fuel env clock t tc gid timeout_ms out =
     given (started tc) (\<lambda>em.
     given (cstr gid ''gid'') (\<lambda>gid. do {
       r \<leftarrow> wait_final fuel env clock (t + max timeout_ms 0) 0 gid;
       ret (case r of
              None \<Rightarrow> Inr None
            | Some (Inl e) \<Rightarrow> Inl (Failed_embedded e)
            | Some (Inr s) \<Rightarrow> (case write_out (global_status_str s) out of Inl e \<Rightarrow> Inl e | Inr x \<Rightarrow> Inr (Some x)))
     }))"

end
