(* ===== verification/Ffi_Laws.thy ===== *)
theory Ffi_Laws
  imports Ffi Embedded_Laws
begin

text \<open>
  What the C interface promises its host: what runs is what was registered before the first start,
  and a call that reports an error has changed nothing.
\<close>

section \<open>The life of a handle\<close>

datatype handle_call =
    Call_register c_str "host_fn option"
  | Call_pull c_str
  | Call_workflow c_str "(string \<Rightarrow> string \<Rightarrow> host_wf) option"
  | Call_topic c_str c_str
  | Call_alert c_str int
  | Call_start

text \<open>What a process brings to a start, besides the handle.\<close>

record host_process =
  hp_json :: json
  hp_timeout :: int
  hp_opens :: "string \<Rightarrow> bool"
  hp_pid :: nat
  hp_pulled :: "string \<Rightarrow> handler"

fun handle_step :: "host_process \<Rightarrow> handle_call \<Rightarrow> dtmrs_tc \<Rightarrow> (ffi_error + int) \<times> dtmrs_tc" where
  "handle_step P (Call_register name f) h = ffi_register name f h"
| "handle_step P (Call_pull name) h = ffi_register_pull name h"
| "handle_step P (Call_workflow name f) h = ffi_register_workflow name f h"
| "handle_step P (Call_topic topic url) h = ffi_topic_static topic url h"
| "handle_step P (Call_alert url limit) h = ffi_alert_webhook url limit h"
| "handle_step P Call_start h =
     ffi_start (hp_json P) (hp_timeout P) (hp_opens P) (hp_pid P) (hp_pulled P) h"

definition handle_run :: "host_process \<Rightarrow> handle_call list \<Rightarrow> dtmrs_tc \<Rightarrow> dtmrs_tc" where
  "handle_run P calls h = fold (\<lambda>c h. snd (handle_step P c h)) calls h"

lemma handle_run_simps [simp]:
  "handle_run P [] h = h"
  "handle_run P (c # cs) h = handle_run P cs (snd (handle_step P c h))"
  "handle_run P (cs @ ds) h = handle_run P ds (handle_run P cs h)"
  by (simp_all add: handle_run_def)

lemmas handle_defs = ffi_register_def push_handler_def ffi_register_pull_def ffi_register_workflow_def
  ffi_topic_static_def ffi_alert_webhook_def

lemma handle_step_keeps:
  assumes "c \<noteq> Call_start"
  shows "h_tc (snd (handle_step P c h)) = h_tc h"
    and "h_pending (snd (handle_step P c h)) = None \<longleftrightarrow> h_pending h = None"
  using assms by (cases c; simp add: handle_defs split: sum.splits option.splits)+

lemma handle_step_started:
  "h_pending h = None \<Longrightarrow> h_tc (snd (handle_step P c h)) = h_tc h \<and> h_pending (snd (handle_step P c h)) = None"
  using handle_step_keeps [of c P h] by (cases "c = Call_start") (auto simp: ffi_start_def)

lemma handle_run_started: "h_pending h = None \<Longrightarrow> h_tc (handle_run P cs h) = h_tc h"
  by (induction cs arbitrary: h) (simp_all add: handle_step_started)

lemma handle_run_before:
  "Call_start \<notin> set cs \<Longrightarrow> h_tc (handle_run P cs h) = h_tc h \<and> (h_pending (handle_run P cs h) = None \<longleftrightarrow> h_pending h = None)"
  by (induction cs arbitrary: h) (auto simp: handle_step_keeps)

lemma start_takes: "h_pending (snd (handle_step P Call_start h)) = None"
  by (simp add: ffi_start_def Let_def split: sum.splits)

section \<open>What is registered\<close>

text \<open>The last callback of a name, else the pull queue, among the calls that were accepted.\<close>

fun callbacks_of :: "handle_call list \<Rightarrow> (string \<times> host_fn) list" where
  "callbacks_of [] = []"
| "callbacks_of (Call_register (C_str n) (Some f) # cs) = (n, f) # callbacks_of cs"
| "callbacks_of (_ # cs) = callbacks_of cs"

fun pulled_of :: "handle_call list \<Rightarrow> string list" where
  "pulled_of [] = []"
| "pulled_of (Call_pull (C_str n) # cs) = n # pulled_of cs"
| "pulled_of (_ # cs) = pulled_of cs"

definition handler_of :: "host_process \<Rightarrow> handle_call list \<Rightarrow> string \<Rightarrow> handler option" where
  "handler_of P cs name =
     (case map_of (rev (callbacks_of cs)) name of
        Some f \<Rightarrow> Some (call_host f)
      | None \<Rightarrow> if name \<in> set (pulled_of cs) then Some (hp_pulled P name) else None)"

lemma collected:
  assumes "Call_start \<notin> set cs" "h_pending h = Some v" "h_pending_pull h = Some u"
  shows "h_pending (handle_run P cs h) = Some (v @ callbacks_of cs) \<and>
    h_pending_pull (handle_run P cs h) = Some (u @ pulled_of cs)"
  using assms
proof (induction cs arbitrary: h v u)
  case (Cons c cs)
  have "h_pending (snd (handle_step P c h)) = Some (v @ callbacks_of [c])"
    "h_pending_pull (snd (handle_step P c h)) = Some (u @ pulled_of [c])"
    using Cons.prems
    by (cases c; auto simp: handle_defs cstr_def both_def split: c_str.splits sum.splits option.splits)+
  moreover have "callbacks_of (c # cs) = callbacks_of [c] @ callbacks_of cs"
    by (cases "c # cs" rule: callbacks_of.cases) simp_all
  moreover have "pulled_of (c # cs) = pulled_of [c] @ pulled_of cs"
    by (cases "c # cs" rule: pulled_of.cases) simp_all
  ultimately show ?case using Cons by simp
qed simp

lemma eb_fields [simp]:
  "eb_registry (eb_subscribe t u b) = eb_registry b"
  "eb_registry (alert_webhook url limit b) = eb_registry b"
  "eb_registry (eb_workflow n f b) = eb_registry b"
  "eb_registry (set_tick ms b) = eb_registry b"
  "eb_registry (builder db pid) = registry_new"
  "eb_registry (eb_handler n g b) = register n g (eb_registry b)"
  by (simp_all add: eb_subscribe_def alert_webhook_def eb_workflow_def set_tick_def builder_def eb_handler_def)

lemma fold_keeps_registry:
  "(\<And>x b. eb_registry (f x b) = eb_registry b) \<Longrightarrow> eb_registry (fold f xs b) = eb_registry b"
  by (induction xs arbitrary: b) simp_all

lemma fold_handlers:
  "eb_registry (fold (\<lambda>(n, f). eb_handler n (g f)) xs b) name =
    (case map_of (rev xs) name of Some f \<Rightarrow> Some (g f) | None \<Rightarrow> eb_registry b name)"
  by (induction xs arbitrary: b)
    (auto simp: register_def map_add_def split: option.splits)

lemma fold_pulled:
  "eb_registry (fold (\<lambda>n. eb_handler n (p n)) xs b) name =
    (if name \<in> set xs then Some (p name) else eb_registry b name)"
  by (induction xs arbitrary: b) (auto simp: register_def)

lemma start_registry:
  "eb_registry (start_builder pid pulled h) name =
    (case map_of (rev (taken_out (h_pending h))) name of
       Some f \<Rightarrow> Some (call_host f)
     | None \<Rightarrow> if name \<in> set (taken_out (h_pending_pull h)) then Some (pulled name) else None)"
  by (simp add: start_builder_def Let_def fold_handlers fold_pulled fold_keeps_registry registry_new_def
      split: option.splits prod.splits)

lemma started_registry: "start js dflt opens b = Inr em \<Longrightarrow> em_registry em = eb_registry b"
  by (auto simp: start_def split: option.splits sum.splits if_splits)

section \<open>Errors\<close>

text \<open>An operation that, alone on a store in order, has changed nothing when it reports an error.\<close>

definition tidy :: "('e + 'a) prog \<Rightarrow> bool" where
  "tidy m \<longleftrightarrow> (\<forall>w. store_ok (w_store w) \<longrightarrow> isl (fst (run_state m w)) \<longrightarrow> w_store (snd (run_state m w)) = w_store w)"

named_theorems tidy_intro \<open>operations that change nothing when they fail\<close>

lemma tidy_return [tidy_intro]: "tidy (ret x)"
  by (simp add: tidy_def)

lemma tidy_given [tidy_intro]: "(\<And>a. tidy (f a)) \<Longrightarrow> tidy (given x f)"
  by (simp add: given_def tidy_return split: sum.splits)

lemma tidy_run [tidy_intro]: "tidy m \<Longrightarrow> tidy (ffi_run m)"
  by (auto simp: tidy_def ffi_run_def split_beta split: sum.splits)

lemma tidy_clean: "clean m \<Longrightarrow> tidy m"
  by (simp add: tidy_def clean_def)

lemma tidy_map [tidy_intro]:
  "tidy m \<Longrightarrow> (\<And>r. isl (g r) \<Longrightarrow> isl r) \<Longrightarrow> tidy (do { r \<leftarrow> m; ret (g r) })"
  by (simp add: tidy_def split_beta)

lemma tidy_observe [tidy_intro]:
  "e_others env = (\<lambda>n s. s) \<Longrightarrow> (\<And>x. tidy (f x)) \<Longrightarrow> tidy (State_Monad.bind (observe env g) f)"
  by (simp add: tidy_def)

lemma isl_try [simp]: "isl (try_api r) \<longleftrightarrow> isl r" "isl (try_store q) \<longleftrightarrow> isl q"
  by (simp_all add: try_api_def try_store_def split: sum.splits)

lemma tidy_create [tidy_intro]:
  "e_others env = (\<lambda>n s. s) \<Longrightarrow> tidy (access env (create_global g bs))"
  using create_global_Inl [of g bs] by (auto simp: tidy_def isl_def split_beta)

lemma tidy_api [tidy_intro]:
  assumes "e_others env = (\<lambda>n s. s)"
  shows "tidy (submit env a gid tt steps)" "tidy (prepare_with env a gid tt actions qp grace opts)"
    "tidy (api_register_branch env r)" "tidy (api_abort env gid)" "tidy (api_subscribe env a t u remark)"
    "tidy (api_unsubscribe env a t u)"
proof -
  show "tidy (api_abort env gid)"
    using clean_abort_rounds [OF assms, of _ 5 gid] by (simp add: tidy_def api_abort_def store_ok_def)
qed (intro tidy_clean clean_submit clean_prepare clean_register clean_subscribe clean_unsubscribe assms)+

lemma tidy_two_phase [tidy_intro]:
  assumes "e_others env = (\<lambda>n s. s)"
  shows "tidy (tcc_with_timeout env em gid t)" "tidy (xa_with_timeout env em gid t)"
    "tidy (tcc env em gid)" "tidy (xa env em gid)"
  unfolding tcc_def xa_def tcc_with_timeout_def xa_with_timeout_def begin_two_phase_def
  by (intro tidy_intro assms; simp split: sum.splits)+

lemma tidy_register [tidy_intro]:
  assumes "e_others env = (\<lambda>n s. s)"
  shows "tidy (register_tcc_branch env em gid bid c x)" "tidy (register_tcc_branch_with env em gid bid c x p)"
    "tidy (register_xa_branch env em gid bid c x)"
  unfolding register_tcc_branch_def register_tcc_branch_with_def register_xa_branch_def
  by (auto split: sum.splits intro!: tidy_intro assms)

lemma tidy_embedded [tidy_intro]:
  assumes "e_others env = (\<lambda>n s. s)"
  shows "tidy (em_submit env em gid)" "tidy (em_abort env gid)" "tidy (em_subscribe env em t u r)"
    "tidy (em_unsubscribe env em t u)" "tidy (submit_workflow env em gid name input)"
    "tidy (sb_submit env em sb)" "tidy (ms_prepare env em mb)"
  unfolding em_submit_def em_abort_def em_subscribe_def em_unsubscribe_def submit_workflow_def sb_submit_def
    ms_prepare_def Let_def
  by (auto split: sum.splits option.splits prod.splits intro!: tidy_intro assms)

section \<open>Properties\<close>

text \<open>
  C30. What a handle runs is decided by its first start: it runs the branches registered before it,
  the last callback of a name, else the pull queue, and nothing that is called afterwards, another
  start included, changes it. When the first start failed, none succeeds.
\<close>

theorem first_start_decides:
  fixes calls :: "handle_call list"
  assumes "ffi_open url = Inr h0"
  defines "before \<equiv> takeWhile (\<lambda>c. c \<noteq> Call_start) calls"
  shows "h_tc (handle_run P calls h0) =
      (if Call_start \<in> set calls then h_tc (handle_run P (before @ [Call_start]) h0) else None) \<and>
    (\<forall>em. h_tc (handle_run P calls h0) = Some em \<longrightarrow>
       (\<forall>name. em_registry em name = handler_of P before name))"
proof -
  from assms(1) have h0: "h_tc h0 = None" "h_pending h0 = Some []" "h_pending_pull h0 = Some []"
    by (auto simp: ffi_open_def split: sum.splits)
  have b: "Call_start \<notin> set before" by (auto simp: before_def dest: set_takeWhileD)
  show ?thesis
  proof (cases "Call_start \<in> set calls")
    case True
    let ?h = "handle_run P before h0"
    from split_list_first [OF True] obtain ys zs where ys: "calls = ys @ Call_start # zs" "Call_start \<notin> set ys"
      by blast
    then have "takeWhile (\<lambda>c. c \<noteq> Call_start) (ys @ Call_start # zs) = ys"
      by (subst takeWhile_append2) auto
    with ys have calls: "calls = before @ Call_start # zs" by (simp add: before_def)
    have one: "h_tc (handle_run P calls h0) = h_tc (snd (handle_step P Call_start ?h))"
      using handle_run_started [OF start_takes] by (simp add: calls)
    have p: "h_pending ?h = Some (callbacks_of before)" "h_pending_pull ?h = Some (pulled_of before)" "h_tc ?h = None"
      using collected [OF b h0(2,3), of P] handle_run_before [OF b, of P h0] h0(1) by simp_all
    have "em_registry em name = handler_of P before name" if "h_tc (snd (handle_step P Call_start ?h)) = Some em" for em name
    proof -
      from that p(1,3) have "start (hp_json P) (hp_timeout P) (hp_opens P) (start_builder (hp_pid P) (hp_pulled P) ?h) = Inr em"
        by (auto simp: ffi_start_def Let_def split: sum.splits)
      from started_registry [OF this] show ?thesis
        by (simp add: start_registry p(1,2) taken_out_def handler_of_def)
    qed
    with True one show ?thesis by simp
  next
    case False
    with handle_run_before [OF False, of P h0] h0(1) show ?thesis by simp
  qed
qed

definition pay_fn :: host_fn where
  "pay_fn = Plain (\<lambda>n gid bid op. Some 0)"

definition demo_process :: host_process where
  "demo_process = \<lparr>hp_json = demo_json [] [], hp_timeout = 35, hp_opens = \<lambda>_. True, hp_pid = 7,
     hp_pulled = \<lambda>name n c. Unknown\<rparr>"

definition demo_calls :: "handle_call list" where
  "demo_calls = [Call_register (C_str ''pay'') (Some pay_fn), Call_pull (C_str ''ship''), Call_register Null_str (Some pay_fn),
     Call_start, Call_register (C_str ''late'') (Some pay_fn), Call_start]"

lemma first_start_decides_witness:
  "\<exists>em. h_tc (handle_run demo_process demo_calls (projr (ffi_open (C_str ''sqlite:a'')))) = Some em \<and>
     em_registry em ''pay'' = Some (call_host pay_fn) \<and> em_registry em ''ship'' = Some (\<lambda>n c. Unknown) \<and>
     em_registry em ''late'' = None"
proof -
  let ?h = "handle_run demo_process demo_calls (projr (ffi_open (C_str ''sqlite:a'')))"
  have o: "ffi_open (C_str ''sqlite:a'') = Inr (projr (ffi_open (C_str ''sqlite:a'')))"
    by (simp add: ffi_open_def cstr_def)
  have "(case h_tc ?h of None \<Rightarrow> False | Some _ \<Rightarrow> True)" by code_simp
  then obtain em where em: "h_tc ?h = Some em" by (auto split: option.splits)
  with first_start_decides [OF o, of demo_process demo_calls]
  have "em_registry em name = handler_of demo_process (takeWhile (\<lambda>c. c \<noteq> Call_start) demo_calls) name" for name
    by blast
  with em show ?thesis
    by (simp add: handler_of_def demo_calls_def demo_process_def)
qed

text \<open>
  A call of the C interface that returns \<open>DTMRS_ERR\<close>, for a bad pointer, bad text, a refusal of
  the API or an error of the store, has left every table as it was, whatever the transaction mode.
\<close>

theorem ffi_errors_change_nothing:
  assumes "e_others env = (\<lambda>n s. s)" "store_ok (w_store w)"
    and "m \<in> {ffi_submit_saga env tc gid js, ffi_tcc_begin env tc gid, ffi_tcc_begin_ex env tc gid secs,
      ffi_tcc_register env tc gid bid x y, ffi_tcc_register_ex env tc gid bid x y payload,
      ffi_xa_begin env tc gid, ffi_xa_begin_ex env tc gid secs, ffi_xa_register env tc gid bid x y,
      ffi_msg_prepare strings env tc gid js q grace, ffi_msg_prepare_ex strings env tc gid js payload q grace flags,
      ffi_submit env tc gid, ffi_abort env tc gid, ffi_subscribe env tc topic url remark,
      ffi_unsubscribe env tc topic url, ffi_submit_workflow env tc gid name input}"
    and "run_state m w = (Inl e, w')"
  shows "w_store w' = w_store w"
proof -
  note defs = ffi_submit_saga_def ffi_tcc_begin_def ffi_tcc_begin_ex_def ffi_tcc_register_def
    ffi_tcc_register_ex_def ffi_xa_begin_def ffi_xa_begin_ex_def begin_ex_def ffi_xa_register_def
    ffi_msg_prepare_def ffi_msg_prepare_ex_def ffi_submit_def ffi_abort_def ffi_subscribe_def
    ffi_unsubscribe_def ffi_submit_workflow_def
  have "tidy m"
    using assms(3) unfolding defs Let_def
    by (auto split: option.splits prod.splits intro!: tidy_intro assms(1))
  with assms(2,4) show ?thesis unfolding tidy_def by (metis fst_conv snd_conv sum.disc(1))
qed

lemma ffi_errors_change_nothing_witness:
  "w_store (snd (run_state (ffi_abort quiet (Some (handle_run demo_process demo_calls (projr (ffi_open (C_str ''sqlite:a'')))))
      (C_str ''g'')) (world_of (one_txn 5 Xa GSubmitted)))) = one_txn 5 Xa GSubmitted"
proof -
  let ?tc = "Some (handle_run demo_process demo_calls (projr (ffi_open (C_str ''sqlite:a''))))"
  let ?m = "ffi_abort quiet ?tc (C_str ''g'')"
  have "run_state ?m (world_of (one_txn 5 Xa GSubmitted)) =
    (Inl (Failed_embedded (Api_failed (Conflicting (Already_submitted Xa)))),
     snd (run_state ?m (world_of (one_txn 5 Xa GSubmitted))))" by code_simp
  from ffi_errors_change_nothing [where env = quiet and tc = ?tc and gid = "C_str ''g''", OF _ _ _ this]
  show ?thesis by simp
qed

end
