(* ===== verification/Schema.thy ===== *)
theory Schema
  imports Sql_Laws
begin

text \<open>
  Opening a SQL store (\<^verbatim>\<open>crates/dtmrs-store/src/lib.rs\<close>: \<open>open\<close>, \<open>migrate\<close>, \<open>add_missing_columns\<close>): the
  address and the pool, the tables with the type of every column, and the columns older versions
  did not have. A database is its catalogue of tables; a statement is given by its parts, white
  space aside.
\<close>

section \<open>Connecting\<close>

fun contains :: "string \<Rightarrow> string \<Rightarrow> bool" where
  "contains pat [] = (pat = [])"
| "contains pat (c # cs) = (prefix pat (c # cs) \<or> contains pat cs)"

text \<open>sqlite opens read-only unless the address says otherwise.\<close>

definition open_url :: "string \<Rightarrow> string" where
  "open_url url =
     (if prefix ''sqlite'' url \<and> \<not> contains ''mode='' url \<and> \<not> contains '':memory:'' url
      then url @ (if CHR ''?'' \<in> set url then ''&mode=rwc'' else ''?mode=rwc'')
      else url)"

definition parse_u32 :: "string \<Rightarrow> nat option" where
  "parse_u32 s =
     (case parse_usize s of
        None \<Rightarrow> None
      | Some n \<Rightarrow> if n < 2 ^ 32 then Some n else None)"

definition pool_size :: "(string \<Rightarrow> string option) \<Rightarrow> string \<Rightarrow> nat" where
  "pool_size getenv url =
     (if contains '':memory:'' url then 1
      else case Option.bind (getenv ''DTMRS_DB_POOL'') parse_u32 of
             None \<Rightarrow> 32
           | Some n \<Rightarrow> if 0 < n then n else 32)"

definition is_file_sqlite :: "string \<Rightarrow> bool" where
  "is_file_sqlite url \<longleftrightarrow> from_url url = Sqlite \<and> \<not> contains '':memory:'' url"

definition pragmas :: "string \<Rightarrow> string list" where
  "pragmas url =
     (if is_file_sqlite url
      then [''PRAGMA journal_mode=WAL'', ''PRAGMA synchronous=NORMAL'', ''PRAGMA busy_timeout=5000'']
      else [])"

section \<open>The tables\<close>

type_synonym column = "string \<times> string \<times> string"

record table_def =
  td_name :: string
  td_columns :: "column list"
  td_key :: "string list"
  td_inline :: string

definition not_null :: string where "not_null = ''NOT NULL''"
definition default_0 :: string where "default_0 = ''NOT NULL DEFAULT 0''"
definition default_empty :: string where "default_empty = ''NOT NULL DEFAULT '' @ [CHR 0x27, CHR 0x27]"

definition cron_index :: string where "cron_index = ''idx_status_cron''"

definition trans_global_table :: "backend \<Rightarrow> table_def" where
  "trans_global_table be =
     \<lparr>td_name = ''trans_global'',
      td_columns =
        [(''gid'', id_text be, not_null),
         (''trans_type'', id_short be, not_null),
         (''status'', id_short be, not_null),
         (''payload'', text_type be big, not_null),
         (''next_cron_time'', ''BIGINT'', default_0),
         (''next_cron_interval'', ''BIGINT'', default_0),
         (''owner'', id_text be, not_null),
         (''lease_until'', ''BIGINT'', default_0),
         (''rollback_reason'', text_type be mid, not_null),
         (''query_prepared'', text_type be mid, not_null),
         (''timeout_to_fail'', ''BIGINT'', default_0),
         (''retry_count'', ''BIGINT'', default_0),
         (''create_time'', ''BIGINT'', not_null),
         (''update_time'', ''BIGINT'', not_null),
         (''finish_time'', ''BIGINT'', [])],
      td_key = [''gid''],
      td_inline = inline_index be cron_index ''status, next_cron_time''\<rparr>"

definition trans_branch_op_table :: "backend \<Rightarrow> table_def" where
  "trans_branch_op_table be =
     \<lparr>td_name = ''trans_branch_op'',
      td_columns =
        [(''gid'', id_text be, not_null),
         (''branch_id'', id_text be, not_null),
         (''op'', id_short be, not_null),
         (''url'', text_type be mid, not_null),
         (''payload'', text_type be mid, not_null),
         (''status'', id_short be, not_null),
         (''create_time'', ''BIGINT'', not_null),
         (''update_time'', ''BIGINT'', not_null),
         (''finish_time'', ''BIGINT'', [])],
      td_key = [''gid'', ''branch_id'', ''op''],
      td_inline = []\<rparr>"

definition auth_token_table :: "backend \<Rightarrow> table_def" where
  "auth_token_table be =
     \<lparr>td_name = ''auth_token'',
      td_columns =
        [(''token_hash'', id_text be, not_null),
         (''name'', id_short be, not_null),
         (''create_time'', ''BIGINT'', not_null),
         (''last_used'', ''BIGINT'', default_0),
         (''use_count'', ''BIGINT'', default_0),
         (''last_ip'', id_short be, default_empty),
         (''revoked'', ''BIGINT'', default_0),
         (''secret'', text_type be mid, default_empty)],
      td_key = [''token_hash''],
      td_inline = []\<rparr>"

definition topic_sub_table :: "backend \<Rightarrow> table_def" where
  "topic_sub_table be =
     \<lparr>td_name = ''topic_sub'',
      td_columns =
        [(''topic'', id_text be, not_null),
         (''url'', text_type be sub_url_len, not_null),
         (''remark'', text_type be mid, not_null),
         (''create_time'', ''BIGINT'', not_null)],
      td_key = [''topic'', ''url''],
      td_inline = []\<rparr>"

section \<open>Migration\<close>

text \<open>
  The catalogue of a database: the columns of each table, and the indexes. \<open>ddl_text\<close> is what a
  database says when a column is there already, and when a table is not.
\<close>

record catalog =
  ca_table :: "string \<Rightarrow> column list option"
  ca_index :: "string list"

record ddl_text =
  dt_duplicate :: "string \<Rightarrow> string \<Rightarrow> string"
  dt_missing :: "string \<Rightarrow> string"

definition create_if_absent :: "table_def \<Rightarrow> catalog \<Rightarrow> catalog" where
  "create_if_absent d c =
     (case ca_table c (td_name d) of
        Some _ \<Rightarrow> c
      | None \<Rightarrow> c\<lparr>ca_table := (ca_table c)(td_name d \<mapsto> td_columns d)\<rparr>)"

definition add_index :: "backend \<Rightarrow> catalog \<Rightarrow> catalog" where
  "add_index be c =
     (case create_index be cron_index ''trans_global'' ''status, next_cron_time'' of
        None \<Rightarrow> c
      | Some sql \<Rightarrow> c\<lparr>ca_index := (if sql \<in> set (ca_index c) then ca_index c else ca_index c @ [sql])\<rparr>)"

definition alter_add :: "ddl_text \<Rightarrow> string \<Rightarrow> column \<Rightarrow> catalog \<Rightarrow> (string + unit) \<times> catalog" where
  "alter_add dt table col c =
     (case ca_table c table of
        None \<Rightarrow> (Inl (dt_missing dt table), c)
      | Some cols \<Rightarrow>
          if fst col \<in> fst ` set cols then (Inl (dt_duplicate dt table (fst col)), c)
          else (Inr (), c\<lparr>ca_table := (ca_table c)(table \<mapsto> cols @ [col])\<rparr>))"

definition already :: "string \<Rightarrow> bool" where
  "already e =
     (let m = to_ascii_lowercase e in contains ''duplicate column'' m \<or> contains ''already exists'' m)"

definition additions :: "backend \<Rightarrow> (string \<times> column) list" where
  "additions be =
     [(''auth_token'', ''secret'', text_type be mid, default_empty),
      (''trans_global'', ''lease_until'', ''BIGINT'', default_0),
      (''trans_global'', ''timeout_to_fail'', ''BIGINT'', default_0),
      (''trans_global'', ''retry_count'', ''BIGINT'', default_0)]"

fun add_columns :: "ddl_text \<Rightarrow> (string \<times> column) list \<Rightarrow> catalog \<Rightarrow> (string + unit) \<times> catalog" where
  "add_columns dt [] c = (Inr (), c)"
| "add_columns dt ((table, col) # as) c =
     (case alter_add dt table col c of
        (Inl e, c) \<Rightarrow> if already e then add_columns dt as c else (Inl e, c)
      | (Inr _, c) \<Rightarrow> add_columns dt as c)"

definition add_missing_columns :: "ddl_text \<Rightarrow> backend \<Rightarrow> catalog \<Rightarrow> (string + unit) \<times> catalog" where
  "add_missing_columns dt be c = add_columns dt (additions be) c"

definition migrate :: "ddl_text \<Rightarrow> backend \<Rightarrow> catalog \<Rightarrow> (string + unit) \<times> catalog" where
  "migrate dt be c =
     (let c = add_index be (create_if_absent (trans_global_table be) c);
          c = create_if_absent (trans_branch_op_table be) c;
          c = create_if_absent (auth_token_table be) c;
          c = create_if_absent (topic_sub_table be) c
      in add_missing_columns dt be c)"

text \<open>
  Instances that start together race for the tables; the loser tries again, three times in all.
  \<open>attempt n\<close> is what the database does to the n-th.
\<close>

fun retrying :: "nat \<Rightarrow> (nat \<Rightarrow> 'c \<Rightarrow> (string + unit) \<times> 'c) \<Rightarrow> nat \<Rightarrow> string \<Rightarrow> 'c \<Rightarrow> (string + unit) \<times> 'c" where
  "retrying 0 attempt n e c = (Inl e, c)"
| "retrying (Suc k) attempt n e0 c =
     (case attempt n c of
        (Inr u, c) \<Rightarrow> (Inr u, c)
      | (Inl e, c) \<Rightarrow> retrying k attempt (Suc n) e c)"

definition migrate_racy :: "(nat \<Rightarrow> 'c \<Rightarrow> (string + unit) \<times> 'c) \<Rightarrow> 'c \<Rightarrow> (string + unit) \<times> 'c" where
  "migrate_racy attempt c = retrying 3 attempt 0 [] c"

text \<open>
  \<open>open\<close>: \<open>connect\<close> gives the database behind an address and a pool of a size, each connection
  prepared with the pragmas; \<open>attempt\<close> is what it does to a migration.
\<close>

definition sql_open ::
  "(string \<Rightarrow> string option) \<Rightarrow> (string \<Rightarrow> nat \<Rightarrow> string list \<Rightarrow> string + catalog) \<Rightarrow>
   (backend \<Rightarrow> nat \<Rightarrow> catalog \<Rightarrow> (string + unit) \<times> catalog) \<Rightarrow> string \<Rightarrow> string + (backend \<times> catalog)" where
  "sql_open getenv connect attempt url =
     (let url = open_url url; be = from_url url
      in case connect url (pool_size getenv url) (pragmas url) of
           Inl e \<Rightarrow> Inl e
         | Inr c \<Rightarrow>
             (case migrate_racy (attempt be) c of
                (Inl e, c) \<Rightarrow> Inl e
              | (Inr _, c) \<Rightarrow> Inr (be, c)))"

section \<open>What a column holds\<close>

text \<open>
  The number of characters a column takes: a \<open>VARCHAR\<close> its length, every other type of text any.
  What does not fit is cut off without a word by \<open>INSERT IGNORE\<close> of MySQL.
\<close>

definition capacity :: "string \<Rightarrow> nat option" where
  "capacity ty =
     (case strip_prefix ''VARCHAR('' ty of
        None \<Rightarrow> None
      | Some r \<Rightarrow> dec_val 0 (takeWhile is_digit r))"

definition fits :: "string \<Rightarrow> string \<Rightarrow> bool" where
  "fits ty s \<longleftrightarrow> (case capacity ty of None \<Rightarrow> True | Some n \<Rightarrow> chars_count s \<le> n)"

lemma takeWhile_dec: "takeWhile is_digit (dec n @ '')'') = dec n"
  using dec_digits by (subst takeWhile_append2) (auto simp: is_digit_def)

lemma capacity_text_type: "capacity (text_type be n) = (if be = MySql then Some n else None)"
  using takeWhile_dec [of n]
  by (simp add: capacity_def text_type_def strip_prefix_def dec_val_dec del: dec.simps)

lemma fits_text_type [simp]: "fits (text_type be n) s \<longleftrightarrow> (be = MySql \<longrightarrow> chars_count s \<le> n)"
  by (simp add: fits_def capacity_text_type)

lemma dec_widths: "dec 128 = ''128''" "dec 45 = ''45''"
  by code_simp+

lemma id_types: "id_text be = text_type be id_max" "id_short be = text_type be id_short_max"
  by (simp_all add: id_text_def id_short_def text_type_def id_max_def id_short_max_def dec_widths)

definition column_type :: "table_def \<Rightarrow> string \<Rightarrow> string" where
  "column_type d col = (case map_of (td_columns d) col of None \<Rightarrow> [] | Some (ty, _) \<Rightarrow> ty)"

text \<open>The texts of a row by column, as the statements bind them.\<close>

definition global_cells :: "global_row \<Rightarrow> (string \<times> string) list" where
  "global_cells g =
     [(''gid'', g_gid g), (''trans_type'', trans_type_str (g_trans_type g)),
      (''status'', global_status_str (g_status g)), (''payload'', g_payload g),
      (''owner'', g_owner g), (''rollback_reason'', g_rollback_reason g),
      (''query_prepared'', g_query_prepared g)]"

definition branch_cells :: "branch_row \<Rightarrow> (string \<times> string) list" where
  "branch_cells b =
     [(''gid'', b_gid b), (''branch_id'', b_branch_id b), (''op'', branch_op_str (b_op b)),
      (''url'', b_url b), (''payload'', b_payload b), (''status'', branch_status_str (b_status b))]"

definition token_cells :: "token_row \<Rightarrow> (string \<times> string) list" where
  "token_cells k =
     [(''token_hash'', k_hash k), (''name'', k_name k), (''last_ip'', k_last_ip k),
      (''secret'', k_secret k)]"

definition topic_cells :: "topic_sub \<Rightarrow> (string \<times> string) list" where
  "topic_cells t = [(''topic'', t_topic t), (''url'', t_url t), (''remark'', t_remark t)]"

definition row_fits :: "table_def \<Rightarrow> (string \<times> string) list \<Rightarrow> bool" where
  "row_fits d cells \<longleftrightarrow> (\<forall>(col, s)\<in>set cells. fits (column_type d col) s)"

definition typed :: "store \<Rightarrow> bool" where
  "typed s \<longleftrightarrow>
     (\<forall>g\<in>set (st_global s). row_fits (trans_global_table (st_backend s)) (global_cells g)) \<and>
     (\<forall>b\<in>set (st_branch s). row_fits (trans_branch_op_table (st_backend s)) (branch_cells b)) \<and>
     (\<forall>k\<in>set (st_token s). row_fits (auth_token_table (st_backend s)) (token_cells k)) \<and>
     (\<forall>t\<in>set (st_topic s). row_fits (topic_sub_table (st_backend s)) (topic_cells t))"

text \<open>The same on the rows, for MySQL; the other databases take any text.\<close>

lemma trans_type_str_fits: "chars_count (trans_type_str tt) \<le> id_short_max"
  by (cases tt) (simp_all add: chars_count_def utf8_cont_def id_short_max_def)

lemma global_status_str_fits: "chars_count (global_status_str gs) \<le> id_short_max"
  by (cases gs) (simp_all add: chars_count_def utf8_cont_def id_short_max_def)

lemma branch_op_str_fits: "chars_count (branch_op_str op) \<le> id_short_max"
  by (cases op) (simp_all add: chars_count_def utf8_cont_def id_short_max_def)

lemma branch_status_str_fits: "chars_count (branch_status_str bs) \<le> id_short_max"
  by (cases bs) (simp_all add: chars_count_def utf8_cont_def id_short_max_def)

lemmas wire_texts_fit = trans_type_str_fits global_status_str_fits branch_op_str_fits branch_status_str_fits

lemma global_fits:
  "row_fits (trans_global_table be) (global_cells g) \<longleftrightarrow>
   (be = MySql \<longrightarrow> chars_count (g_gid g) \<le> id_max \<and> chars_count (g_payload g) \<le> big \<and>
      chars_count (g_owner g) \<le> id_max \<and> chars_count (g_rollback_reason g) \<le> mid \<and>
      chars_count (g_query_prepared g) \<le> mid)"
  by (auto simp: row_fits_def global_cells_def column_type_def trans_global_table_def id_types
      wire_texts_fit)

lemma branch_fits:
  "row_fits (trans_branch_op_table be) (branch_cells b) \<longleftrightarrow>
   (be = MySql \<longrightarrow> chars_count (b_gid b) \<le> id_max \<and> chars_count (b_branch_id b) \<le> id_max \<and>
      chars_count (b_url b) \<le> mid \<and> chars_count (b_payload b) \<le> mid)"
  by (auto simp: row_fits_def branch_cells_def column_type_def trans_branch_op_table_def id_types
      wire_texts_fit)

lemma token_fits:
  "row_fits (auth_token_table be) (token_cells k) \<longleftrightarrow>
   (be = MySql \<longrightarrow> chars_count (k_hash k) \<le> id_max \<and> chars_count (k_name k) \<le> id_short_max \<and>
      chars_count (k_last_ip k) \<le> id_short_max \<and> chars_count (k_secret k) \<le> mid)"
  by (auto simp: row_fits_def token_cells_def column_type_def auth_token_table_def id_types)

lemma topic_fits:
  "row_fits (topic_sub_table be) (topic_cells t) \<longleftrightarrow>
   (be = MySql \<longrightarrow> chars_count (t_topic t) \<le> topic_len \<and> chars_count (t_url t) \<le> sub_url_len \<and>
      chars_count (t_remark t) \<le> mid)"
  by (auto simp: row_fits_def topic_cells_def column_type_def topic_sub_table_def id_types
      topic_len_def id_max_def)

lemmas row_fits_rows = global_fits branch_fits token_fits topic_fits

end
