(* ===== verification/Schema_Laws.thy ===== *)
theory Schema_Laws
  imports Schema
begin

text \<open>
  What the schema is good for: an old database gets every column the statements use, and no
  operation of the store writes a text that its column would cut off.
\<close>

section \<open>Old databases\<close>

definition columns_of :: "string \<Rightarrow> catalog \<Rightarrow> string set" where
  "columns_of t c = (case ca_table c t of None \<Rightarrow> {} | Some cols \<Rightarrow> fst ` set cols)"

definition definitions_of :: "backend \<Rightarrow> table_def list" where
  "definitions_of be =
     [trans_global_table be, trans_branch_op_table be, auth_token_table be, topic_sub_table be]"

text \<open>A table of an older version lacks some of the columns that were added since, and no others.\<close>

definition old_table :: "backend \<Rightarrow> catalog \<Rightarrow> table_def \<Rightarrow> bool" where
  "old_table be c d \<longleftrightarrow>
     (case ca_table c (td_name d) of
        None \<Rightarrow> True
      | Some cols \<Rightarrow>
          fst ` set (td_columns d) - (\<lambda>(_, col). fst col) ` {a \<in> set (additions be). fst a = td_name d}
            \<subseteq> fst ` set cols)"

lemma alter_add_there:
  assumes "ca_table c t \<noteq> None" "alter_add dt t col c = (r, c')"
  shows "(r = Inr () \<or> r = Inl (dt_duplicate dt t (fst col))) \<and>
    (\<forall>x. columns_of x c' = columns_of x c \<union> (if x = t then {fst col} else {})) \<and>
    (\<forall>x. ca_table c x \<noteq> None \<longrightarrow> ca_table c' x \<noteq> None)"
proof -
  obtain cols where cols: "ca_table c t = Some cols" using assms(1) by blast
  show ?thesis
  proof (cases "fst col \<in> fst ` set cols")
    case True
    with assms(2) cols have "r = Inl (dt_duplicate dt t (fst col))" "c' = c"
      by (simp_all add: alter_add_def)
    with True cols show ?thesis by (auto simp: columns_of_def)
  next
    case False
    with assms(2) cols have "r = Inr ()" "c' = c\<lparr>ca_table := (ca_table c)(t \<mapsto> cols @ [col])\<rparr>"
      by (simp_all add: alter_add_def)
    with cols show ?thesis by (simp add: columns_of_def)
  qed
qed

lemma add_columns_all:
  assumes "\<And>t col. already (dt_duplicate dt t col)"
    and "\<forall>(t, col)\<in>set as. ca_table c t \<noteq> None" "add_columns dt as c = (r, c')"
  shows "r = Inr () \<and>
    (\<forall>x. columns_of x c' = columns_of x c \<union> (\<lambda>(_, col). fst col) ` {a \<in> set as. fst a = x}) \<and>
    (\<forall>x. ca_table c x \<noteq> None \<longrightarrow> ca_table c' x \<noteq> None)"
  using assms(2,3)
proof (induction as arbitrary: c)
  case (Cons a as)
  obtain t col where a: "a = (t, col)" by (cases a)
  obtain q c1 where q: "alter_add dt t col c = (q, c1)" by fastforce
  from Cons.prems(1) a have "ca_table c t \<noteq> None" by simp
  note there = alter_add_there [OF this q]
  from there Cons.prems(2) a q assms(1) have "add_columns dt as c1 = (r, c')"
    by (auto split: if_splits)
  moreover have "\<forall>(t, col)\<in>set as. ca_table c1 t \<noteq> None" using there Cons.prems(1) by fastforce
  ultimately have "r = Inr () \<and>
      (\<forall>x. columns_of x c' = columns_of x c1 \<union> (\<lambda>(_, col). fst col) ` {a \<in> set as. fst a = x}) \<and>
      (\<forall>x. ca_table c1 x \<noteq> None \<longrightarrow> ca_table c' x \<noteq> None)"
    by (rule Cons.IH [rotated])
  with there show ?case by (auto simp: a)
qed simp

lemma create_if_absent_table:
  "ca_table (create_if_absent d c) x =
     (if x = td_name d \<and> ca_table c x = None then Some (td_columns d) else ca_table c x)"
  by (auto simp: create_if_absent_def split: option.splits)

lemma add_index_table [simp]: "ca_table (add_index be c) = ca_table c"
  by (simp add: add_index_def split: option.splits)

definition created :: "backend \<Rightarrow> catalog \<Rightarrow> catalog" where
  "created be c =
     create_if_absent (topic_sub_table be) (create_if_absent (auth_token_table be)
       (create_if_absent (trans_branch_op_table be)
         (add_index be (create_if_absent (trans_global_table be) c))))"

lemma table_names [simp]:
  "td_name (trans_global_table be) = ''trans_global''" "td_name (auth_token_table be) = ''auth_token''"
  "td_name (trans_branch_op_table be) = ''trans_branch_op''" "td_name (topic_sub_table be) = ''topic_sub''"
  by (simp_all add: trans_global_table_def auth_token_table_def trans_branch_op_table_def
      topic_sub_table_def)

lemma created_table:
  assumes "d \<in> set (definitions_of be)"
  shows "ca_table (created be c) (td_name d) =
    (case ca_table c (td_name d) of None \<Rightarrow> Some (td_columns d) | Some cols \<Rightarrow> Some cols)"
  using assms by (auto simp: definitions_of_def created_def create_if_absent_table split: option.splits)

lemma migrate_created: "migrate dt be c = add_columns dt (additions be) (created be c)"
  by (simp add: migrate_def created_def add_missing_columns_def Let_def)

text \<open>
  C35. Starting on the database of an older version, whatever columns of the tables it does not
  have yet, succeeds and leaves every table with every column the statements of this version use;
  no column that was there is lost. The only thing asked of the database is that it says so when a
  column is there already.
\<close>

theorem old_databases_are_completed:
  assumes says: "\<And>t col. already (dt_duplicate dt t col)"
    and old: "\<forall>d\<in>set (definitions_of be). old_table be c d"
    and d: "d \<in> set (definitions_of be)"
  shows "fst (migrate dt be c) = Inr () \<and>
    fst ` set (td_columns d) \<union> columns_of (td_name d) c
      \<subseteq> columns_of (td_name d) (snd (migrate dt be c))"
proof
  obtain r c' where m: "add_columns dt (additions be) (created be c) = (r, c')" by fastforce
  have tables: "\<forall>(t, col)\<in>set (additions be). ca_table (created be c) t \<noteq> None"
    using created_table [of "trans_global_table be" be c] created_table [of "auth_token_table be" be c]
    by (auto simp: additions_def definitions_of_def split: option.splits)
  note all = add_columns_all [OF says tables m]
  then show "fst (migrate dt be c) = Inr ()" by (simp add: migrate_created m)
  have "fst ` set (td_columns d) - (\<lambda>(_, col). fst col) ` {a \<in> set (additions be). fst a = td_name d}
      \<subseteq> columns_of (td_name d) (created be c)"
    and "columns_of (td_name d) c \<subseteq> columns_of (td_name d) (created be c)"
    using bspec [OF old d] created_table [OF d, of c]
    by (auto simp: old_table_def columns_of_def split: option.splits)
  with all show "fst ` set (td_columns d) \<union> columns_of (td_name d) c
      \<subseteq> columns_of (td_name d) (snd (migrate dt be c))"
    by (auto simp: migrate_created m)
qed

definition mysql_says :: ddl_text where
  "mysql_says =
     \<lparr>dt_duplicate = \<lambda>t col. ''Duplicate column name '' @ col, dt_missing = \<lambda>t. ''No such table '' @ t\<rparr>"

definition version_0_10 :: catalog where
  "version_0_10 =
     \<lparr>ca_table = [''trans_global'' \<mapsto>
        filter (\<lambda>c. fst c \<notin> {''lease_until'', ''timeout_to_fail'', ''retry_count''})
          (td_columns (trans_global_table MySql))],
      ca_index = []\<rparr>"

lemma contains_start: "contains p (p @ x)"
proof (cases "p @ x")
  case (Cons a as)
  then have "prefix p (a # as)" by (metis prefixI)
  with Cons show ?thesis by simp
qed simp

lemma lower_duplicate: "to_ascii_lowercase ''Duplicate column name '' = ''duplicate column name ''"
  by code_simp

lemma mysql_says_already: "already (dt_duplicate mysql_says t col)"
proof -
  have "to_ascii_lowercase (''Duplicate column name '' @ col) =
      ''duplicate column'' @ '' name '' @ to_ascii_lowercase col"
    using lower_duplicate by (simp add: to_ascii_lowercase_def)
  then show ?thesis by (simp only: already_def mysql_says_def Let_def ddl_text.simps contains_start simp_thms)
qed

lemma old_databases_are_completed_witness:
  "''lease_until'' \<notin> columns_of ''trans_global'' version_0_10 \<and>
   ''lease_until'' \<in> columns_of ''trans_global'' (snd (migrate mysql_says MySql version_0_10))"
proof -
  have "\<forall>d\<in>set (definitions_of MySql). old_table MySql version_0_10 d"
    by code_simp
  from old_databases_are_completed [OF mysql_says_already this, of "trans_global_table MySql"]
  show ?thesis
    by (auto simp: definitions_of_def columns_of_def version_0_10_def trans_global_table_def)
qed

section \<open>Every text fits its column\<close>

text \<open>
  Everything any program does to the tables, one operation at a time. What the store does not
  check is asked of its callers: names of workers, hashes, and of tokens the name and the address.
\<close>

inductive sql_step :: "store \<Rightarrow> store \<Rightarrow> bool" where
  creating: "chars_count (g_owner g) \<le> id_max \<Longrightarrow> \<forall>b\<in>set bs. b_gid b = g_gid g \<Longrightarrow>
    sql_step s (snd (create_global g bs s))"
| writing: "sql_step s (set_global_status x st tt r s)"
| moving: "sql_step s (snd (transition x from_st to_st tt r s))"
| branching: "sql_step s (set_branch_status x bid op bst s)"
| storing: "sql_step s (snd (set_branch_result x bid op bst p s))"
| registering: "sql_step s (snd (register_branch_with x bid ops p s))"
| locking: "chars_count owner \<le> id_max \<Longrightarrow> sql_step s (snd (lock_one_due owner lease s))"
| releasing: "sql_step s (release_lease x l i s)"
| scheduling: "sql_step s (schedule_now x s)"
| retrying: "sql_step s (schedule_retry x i s)"
| submitting: "chars_count owner \<le> id_max \<Longrightarrow> sql_step s (submit_update x owner t s)"
| subscribing: "sql_step s (snd (subscribe tp u rm s))"
| unsubscribing: "sql_step s (snd (unsubscribe tp u s))"
| deleting: "sql_step s (snd (delete_topic tp s))"
| issuing: "chars_count h \<le> id_max \<Longrightarrow> chars_count n \<le> id_short_max \<Longrightarrow>
    sql_step s (snd (create_token h n c s))"
| revoking: "sql_step s (snd (revoke_token h s))"
| touching: "chars_count ip \<le> id_short_max \<Longrightarrow> sql_step s (touch_token h ip s)"
| ticking: "0 \<le> d \<Longrightarrow> sql_step s (s\<lparr>st_clock := now s + d\<rparr>)"

lemma all_update_where:
  "\<forall>r\<in>set rs. Q r \<Longrightarrow> (\<And>r. Q r \<Longrightarrow> Q (f r)) \<Longrightarrow> \<forall>r\<in>set (snd (update_where P f rs)). Q r"
  by (auto simp: set_update_where)

lemma all_insert_ignore: "\<forall>r\<in>set rs. Q r \<Longrightarrow> Q x \<Longrightarrow> \<forall>r\<in>set (snd (insert_ignore k x rs)). Q r"
  using set_insert_ignore [of k x rs] by blast

lemma all_delete_where: "\<forall>r\<in>set rs. Q r \<Longrightarrow> \<forall>r\<in>set (snd (delete_where P rs)). Q r"
  by (simp add: delete_where_def)

text \<open>The bounds of MySQL, row by row.\<close>

definition global_short :: "global_row \<Rightarrow> bool" where
  "global_short g \<longleftrightarrow>
     chars_count (g_gid g) \<le> id_max \<and> chars_count (g_payload g) \<le> big \<and>
     chars_count (g_owner g) \<le> id_max \<and> chars_count (g_rollback_reason g) \<le> mid \<and>
     chars_count (g_query_prepared g) \<le> mid"

definition branch_short :: "branch_row \<Rightarrow> bool" where
  "branch_short b \<longleftrightarrow>
     chars_count (b_gid b) \<le> id_max \<and> chars_count (b_branch_id b) \<le> id_max \<and>
     chars_count (b_url b) \<le> mid \<and> chars_count (b_payload b) \<le> mid"

definition token_short :: "token_row \<Rightarrow> bool" where
  "token_short k \<longleftrightarrow>
     chars_count (k_hash k) \<le> id_max \<and> chars_count (k_name k) \<le> id_short_max \<and>
     chars_count (k_last_ip k) \<le> id_short_max \<and> chars_count (k_secret k) \<le> mid"

definition topic_short :: "topic_sub \<Rightarrow> bool" where
  "topic_short t \<longleftrightarrow>
     chars_count (t_topic t) \<le> topic_len \<and> chars_count (t_url t) \<le> sub_url_len \<and>
     chars_count (t_remark t) \<le> mid"

definition short :: "store \<Rightarrow> bool" where
  "short s \<longleftrightarrow>
     (\<forall>g\<in>set (st_global s). global_short g) \<and> (\<forall>b\<in>set (st_branch s). branch_short b) \<and>
     (\<forall>k\<in>set (st_token s). token_short k) \<and> (\<forall>t\<in>set (st_topic s). topic_short t)"

lemmas short_defs = global_short_def branch_short_def token_short_def topic_short_def

lemma typed_short: "typed s \<longleftrightarrow> (st_backend s = MySql \<longrightarrow> short s)"
  by (auto simp: typed_def short_def row_fits_rows short_defs)

lemma shortI:
  assumes "short s"
    and "\<forall>g\<in>set (st_global s). global_short g \<Longrightarrow> \<forall>g\<in>set (st_global s'). global_short g"
    and "\<forall>b\<in>set (st_branch s). branch_short b \<Longrightarrow> \<forall>b\<in>set (st_branch s'). branch_short b"
    and "\<forall>k\<in>set (st_token s). token_short k \<Longrightarrow> \<forall>k\<in>set (st_token s'). token_short k"
    and "\<forall>t\<in>set (st_topic s). topic_short t \<Longrightarrow> \<forall>t\<in>set (st_topic s'). topic_short t"
  shows "short s'"
  using assms by (simp add: short_def)

lemma chars_count_Nil [simp]: "chars_count [] = 0"
  by (simp add: chars_count_def)

lemma put_status_short:
  "global_short g \<Longrightarrow> chars_count r \<le> mid \<Longrightarrow> global_short (put_status st t r g)"
  by (simp add: global_short_def put_status_def)

lemma short_insert:
  "\<forall>b\<in>set rows. branch_short b \<Longrightarrow> branch_short b \<Longrightarrow> \<forall>b\<in>set (insert_branch t b rows). branch_short b"
proof -
  assume rows: "\<forall>b\<in>set rows. branch_short b" and b: "branch_short b"
  from b have "branch_short (b\<lparr>b_create_time := t, b_update_time := t, b_finish_time := None\<rparr>)"
    by (simp add: branch_short_def)
  with rows show ?thesis unfolding insert_branch_def by (rule all_insert_ignore)
qed

lemma short_inserts:
  assumes "\<forall>b\<in>set rows. branch_short b" "\<forall>b\<in>set bs. branch_short b"
  shows "\<forall>b\<in>set (fold (insert_branch t) bs rows). branch_short b"
  using assms
proof (induction bs arbitrary: rows)
  case (Cons b bs)
  then have "\<forall>b\<in>set (insert_branch t b rows). branch_short b" by (intro short_insert) auto
  from Cons.IH [OF this] Cons.prems(2) show ?case by simp
qed simp

lemma short_register_ops:
  assumes "register_ops gid bid p t ops rows = Inr rows'" "\<forall>b\<in>set rows. branch_short b"
    and ids: "chars_count gid \<le> id_max" "chars_count bid \<le> id_max" "chars_count p \<le> mid"
    and "\<forall>(op, url)\<in>set ops. chars_count url \<le> mid"
  shows "\<forall>b\<in>set rows'. branch_short b"
  using assms(1,2,6)
proof (induction ops arbitrary: rows)
  case (Cons a ops)
  obtain op url where a: "a = (op, url)" by (cases a)
  let ?b = "\<lparr>b_gid = gid, b_branch_id = bid, b_op = op, b_url = url, b_payload = p,
    b_status = BPrepared, b_create_time = t, b_update_time = t, b_finish_time = None\<rparr>"
  have "branch_short ?b" using ids Cons.prems(3) by (simp add: branch_short_def a)
  with Cons.prems(2) have "\<forall>r\<in>set (insert_branch t ?b rows). branch_short r"
    by (rule short_insert)
  moreover have "register_ops gid bid p t ops (insert_branch t ?b rows) = Inr rows'"
    using Cons.prems(1) by (simp add: a Let_def split: option.splits if_splits)
  moreover have "\<forall>(op, url)\<in>set ops. chars_count url \<le> mid" using Cons.prems(3) by simp
  ultimately show ?case by (intro Cons.IH)
qed simp

lemma short_rows:
  assumes "short s" "\<And>g. global_short g \<Longrightarrow> global_short (f g)"
  shows "short (s\<lparr>st_global := snd (update_where P f (st_global s))\<rparr>)"
  using assms all_update_where [of "st_global s" global_short f P] by (simp add: short_def)

lemma short_branch_rows:
  assumes "short s" "\<And>b. branch_short b \<Longrightarrow> branch_short (f b)"
  shows "short (s\<lparr>st_branch := snd (update_where P f (st_branch s))\<rparr>)"
  using assms all_update_where [of "st_branch s" branch_short f P] by (simp add: short_def)

lemma short_token_rows:
  assumes "short s" "\<And>k. token_short k \<Longrightarrow> token_short (f k)"
  shows "short (s\<lparr>st_token := snd (update_where P f (st_token s))\<rparr>)"
  using assms all_update_where [of "st_token s" token_short f P] by (simp add: short_def)

lemma short_topics:
  assumes "short s" "\<forall>t\<in>set rows. topic_short t"
  shows "short (s\<lparr>st_topic := rows\<rparr>)"
  using assms by (simp add: short_def)

lemma topics_short: "short s \<Longrightarrow> \<forall>t\<in>set (st_topic s). topic_short t"
  by (simp add: short_def)

lemma short_sets: "global_short g \<Longrightarrow> global_short (apply_sets be (release_sets i t) g g)"
  by (simp add: release_sets_def global_short_def)

lemma short_step: "sql_step s s' \<Longrightarrow> short s \<Longrightarrow> short s'"
proof (induction rule: sql_step.induct)
  case (creating g bs s)
  then show ?case
  proof (cases "fst (create_global g bs s) = Inr True")
    case True
    obtain s' where c: "create_global g bs s = (Inr True, s')"
      using True by (cases "create_global g bs s") simp
    then have ok: "chars_count (g_gid g) \<le> id_max" "chars_count (g_payload g) \<le> big"
      "chars_count (g_query_prepared g) \<le> mid"
      and bs: "\<forall>b\<in>set bs. chars_count (b_branch_id b) \<le> id_max \<and> chars_count (b_url b) \<le> mid \<and>
        chars_count (b_payload b) \<le> mid"
      by (auto simp: create_global_def all_ok_Inr len_ok_iff branch_checks_def split: sum.splits)
    have "\<forall>b\<in>set (fold (insert_branch (now s)) bs (st_branch s)). branch_short b"
      using creating bs ok(1) by (intro short_inserts) (auto simp: short_def branch_short_def)
    moreover have "global_short (fresh_row (now s) g)"
      using ok creating(1) by (simp add: global_short_def fresh_row_def)
    ultimately show ?thesis using creating(3) create_global_True(2) [OF c] c by (simp add: short_def)
  next
    case False
    then have "snd (create_global g bs s) = s"
      using create_global_existing(1) [of g bs s] create_global_error [of g bs s]
      by (cases "create_global g bs s"; cases "fst (create_global g bs s)") auto
    with creating show ?thesis by simp
  qed
next
  case (registering s x bid ops p)
  then show ?case
    by (auto simp: register_branch_with_def all_ok_Inr len_ok_iff short_def split: sum.splits
        dest!: short_register_ops)
next
  case (locking owner lease s)
  then show ?case
    by (auto simp: lock_one_due_def Let_def split_beta split: option.splits
        intro!: short_rows simp: global_short_def take_lease_def)
next
  case (storing s x bid op bst p)
  then show ?case
    by (auto simp: set_branch_result_def len_ok_iff branch_short_def put_branch_status_def
        split: sum.splits intro!: short_branch_rows)
next
  case (subscribing s tp u rm)
  then show ?case
  proof (cases "chars_count tp \<le> topic_len \<and> chars_count u \<le> sub_url_len \<and> chars_count rm \<le> mid")
    case True
    then have "topic_short \<lparr>t_topic = tp, t_url = u, t_remark = rm, t_create_time = now s\<rparr>"
      by (simp add: topic_short_def)
    from all_insert_ignore [OF topics_short [OF subscribing] this, of t_key] subscribing
    show ?thesis by (auto simp: subscribe_def split_beta split: sum.splits intro!: short_topics)
  next
    case False
    then have "snd (subscribe tp u rm s) = s"
      by (auto simp: subscribe_def all_ok_Inr len_ok_iff split: sum.splits)
    with subscribing show ?thesis by simp
  qed
next
  case (issuing h n s c)
  then show ?case
    by (auto simp: create_token_def all_ok_Inr len_ok_iff short_def token_short_def split: sum.splits)
next
  case (releasing s x l i)
  then show ?case by (auto simp: release_lease_def Let_def intro!: short_rows short_sets)
next
  case (writing s x st tt r)
  then show ?case
    by (auto simp: set_global_status_def Let_def split_beta intro!: short_rows put_status_short chars_count_take_chars)
next
  case (moving s x from_st to_st tt r)
  then show ?case
    by (auto simp: transition_def Let_def split_beta intro!: short_rows put_status_short chars_count_take_chars)
next
  case (submitting owner s x t)
  then show ?case by (auto simp: submit_update_def global_short_def intro!: short_rows)
next
  case (touching ip s h)
  then show ?case by (auto simp: touch_token_def token_short_def intro!: short_token_rows)
next
  case (ticking d s)
  then show ?case by (simp add: short_def)
next
  case (unsubscribing s tp u)
  then show ?case
    unfolding unsubscribe_def split_beta Let_def snd_conv
    by (intro short_topics all_delete_where topics_short)
next
  case (deleting s tp)
  then show ?case
    unfolding delete_topic_def split_beta Let_def snd_conv
    by (intro short_topics all_delete_where topics_short)
next
  case (branching s x bid op bst)
  show ?case unfolding set_branch_status_def
    by (rule short_branch_rows [OF branching]) (simp add: put_branch_status_def branch_short_def)
next
  case (scheduling s x)
  then show ?case by (auto simp: schedule_now_def global_short_def intro!: short_rows)
next
  case (retrying s x i)
  then show ?case by (auto simp: schedule_retry_def Let_def global_short_def intro!: short_rows)
next
  case (revoking s h)
  show ?case unfolding revoke_token_def split_beta snd_conv Let_def
    by (rule short_token_rows [OF revoking]) (simp add: token_short_def)
qed

lemma backend_step: "sql_step s s' \<Longrightarrow> st_backend s' = st_backend s"
  by (induction rule: sql_step.induct)
    (auto simp: create_global_def set_global_status_def transition_def set_branch_status_def
      set_branch_result_def register_branch_with_def lock_one_due_def release_lease_def
      schedule_now_def schedule_retry_def submit_update_def subscribe_def unsubscribe_def
      delete_topic_def create_token_def revoke_token_def touch_token_def Let_def split_beta
      split: sum.splits option.splits)

lemma keyed_step: "sql_step s s' \<Longrightarrow> store_ok s \<Longrightarrow> store_ok s'"
proof (induction rule: sql_step.induct)
  case (ticking d s)
  then show ?case by (simp add: store_ok_def)
qed (auto intro: store_ok_ops store_ok_submit_update)

definition empty_store :: "backend \<Rightarrow> int \<Rightarrow> store" where
  "empty_store be t =
     \<lparr>st_backend = be, st_clock = t, st_global = [], st_branch = [], st_topic = [], st_token = []\<rparr>"



end
