(* ===== verification/Store_Dispatch.thy ===== *)
theory Store_Dispatch
  imports Schema Redis_History
begin

text \<open>
  The store the server holds (\<^verbatim>\<open>crates/dtmrs-store/src/lib.rs\<close>: \<open>Inner\<close>, \<open>Store\<close>, \<open>dispatch!\<close>): one of the two
  backends, chosen by the address, with every operation handed on to it.
\<close>

section \<open>Choosing a backend\<close>

datatype any_store = Sql_inner store | Redis_inner redis_store

definition is_redis_url :: "string \<Rightarrow> bool" where
  "is_redis_url url \<longleftrightarrow>
     (let u = to_ascii_lowercase (trim url)
      in prefix ''redis://'' u \<or> prefix ''rediss://'' u \<or> prefix ''redis+unix:'' u)"

datatype open_error = Sql_open string | Redis_open prefix_error

definition any_open ::
  "(string \<Rightarrow> string + store) \<Rightarrow> (string \<Rightarrow> prefix_error + redis_store) \<Rightarrow> string \<Rightarrow> open_error + any_store" where
  "any_open open_sql open_redis url =
     (if is_redis_url url
      then (case open_redis url of Inl e \<Rightarrow> Inl (Redis_open e) | Inr R \<Rightarrow> Inr (Redis_inner R))
      else (case open_sql url of Inl e \<Rightarrow> Inl (Sql_open e) | Inr s \<Rightarrow> Inr (Sql_inner s)))"

fun is_redis :: "any_store \<Rightarrow> bool" where
  "is_redis (Sql_inner s) = False"
| "is_redis (Redis_inner R) = True"

fun any_backend :: "any_store \<Rightarrow> backend option" where
  "any_backend (Sql_inner s) = Some (st_backend s)"
| "any_backend (Redis_inner R) = None"

fun as_redis :: "any_store \<Rightarrow> redis_store option" where
  "as_redis (Sql_inner s) = None"
| "as_redis (Redis_inner R) = Some R"

section \<open>Handing on\<close>

text \<open>An operation of each backend as one of the store: with an answer, and without.\<close>

definition hand_on :: "(store \<Rightarrow> 'a \<times> store) \<Rightarrow> (redis_store \<Rightarrow> 'a \<times> redis_store) \<Rightarrow> any_store \<Rightarrow> 'a \<times> any_store" where
  "hand_on f g S =
     (case S of
        Sql_inner s \<Rightarrow> (case f s of (a, s) \<Rightarrow> (a, Sql_inner s))
      | Redis_inner R \<Rightarrow> (case g R of (a, R) \<Rightarrow> (a, Redis_inner R)))"

definition hand_on_write :: "(store \<Rightarrow> store) \<Rightarrow> (redis_store \<Rightarrow> redis_store) \<Rightarrow> any_store \<Rightarrow> any_store" where
  "hand_on_write f g S =
     (case S of Sql_inner s \<Rightarrow> Sql_inner (f s) | Redis_inner R \<Rightarrow> Redis_inner (g R))"

definition hand_on_read :: "(store \<Rightarrow> 'a) \<Rightarrow> (redis_store \<Rightarrow> 'a) \<Rightarrow> any_store \<Rightarrow> 'a" where
  "hand_on_read f g S = (case S of Sql_inner s \<Rightarrow> f s | Redis_inner R \<Rightarrow> g R)"

lemmas hand_on_defs = hand_on_def hand_on_write_def hand_on_read_def

definition any_create_global :: "branch_json \<Rightarrow> global_row \<Rightarrow> branch_row list \<Rightarrow> any_store \<Rightarrow> bool res \<times> any_store" where
  "any_create_global J g bs = hand_on (create_global g bs) (rds_create_global J g bs)"

definition any_get_global :: "string \<Rightarrow> any_store \<Rightarrow> global_row option" where
  "any_get_global gid = hand_on_read (get_global gid) (rds_get_global gid)"

definition any_list_branches :: "branch_json \<Rightarrow> string \<Rightarrow> any_store \<Rightarrow> branch_row list" where
  "any_list_branches J gid = hand_on_read (list_branches gid) (rds_list_branches J gid)"

definition any_lock_one_due :: "string \<Rightarrow> int \<Rightarrow> any_store \<Rightarrow> global_row option \<times> any_store" where
  "any_lock_one_due owner lease = hand_on (lock_one_due owner lease) (rds_lock_one_due owner lease)"

definition any_set_global_status :: "string \<Rightarrow> global_status \<Rightarrow> trans_type \<Rightarrow> string \<Rightarrow> any_store \<Rightarrow> any_store" where
  "any_set_global_status gid st tt r =
     hand_on_write (set_global_status gid st tt r) (rds_set_global_status gid st tt r)"

definition any_transition ::
  "string \<Rightarrow> global_status \<Rightarrow> global_status \<Rightarrow> trans_type \<Rightarrow> string \<Rightarrow> any_store \<Rightarrow> bool \<times> any_store" where
  "any_transition gid f t tt r = hand_on (transition gid f t tt r) (rds_transition gid f t tt r)"

definition any_submit_prepared :: "string \<Rightarrow> string \<Rightarrow> int \<Rightarrow> any_store \<Rightarrow> submit_outcome \<times> any_store" where
  "any_submit_prepared gid owner at = hand_on (submit_prepared gid owner at) (rds_submit_prepared gid owner at)"

definition any_set_branch_result ::
  "branch_json \<Rightarrow> string \<Rightarrow> string \<Rightarrow> branch_op \<Rightarrow> branch_status \<Rightarrow> string \<Rightarrow> any_store \<Rightarrow> unit res \<times> any_store" where
  "any_set_branch_result J gid bid op st p =
     hand_on (set_branch_result gid bid op st p) (rds_set_branch_result J gid bid op st p)"

definition any_set_branch_status :: "string \<Rightarrow> string \<Rightarrow> branch_op \<Rightarrow> branch_status \<Rightarrow> any_store \<Rightarrow> any_store" where
  "any_set_branch_status gid bid op st =
     hand_on_write (set_branch_status gid bid op st) (rds_set_branch_status gid bid op st)"

definition any_schedule_retry :: "string \<Rightarrow> int \<Rightarrow> any_store \<Rightarrow> any_store" where
  "any_schedule_retry gid i = hand_on_write (schedule_retry gid i) (rds_schedule_retry gid i)"

definition any_release_lease :: "string \<Rightarrow> int \<Rightarrow> int \<Rightarrow> any_store \<Rightarrow> any_store" where
  "any_release_lease gid l i = hand_on_write (release_lease gid l i) (rds_release_lease gid l i)"

definition any_schedule_now :: "string \<Rightarrow> any_store \<Rightarrow> any_store" where
  "any_schedule_now gid = hand_on_write (schedule_now gid) (rds_schedule_now gid)"

definition any_register_branch_with ::
  "branch_json \<Rightarrow> string \<Rightarrow> string \<Rightarrow> (branch_op \<times> string) list \<Rightarrow> string \<Rightarrow> any_store \<Rightarrow>
   register_outcome res \<times> any_store" where
  "any_register_branch_with J gid bid ops p =
     hand_on (register_branch_with gid bid ops p) (rds_register_branch_with J gid bid ops p)"

definition any_register_branch ::
  "branch_json \<Rightarrow> string \<Rightarrow> string \<Rightarrow> (branch_op \<times> string) list \<Rightarrow> any_store \<Rightarrow>
   register_outcome res \<times> any_store" where
  "any_register_branch J gid bid ops = hand_on (register_branch gid bid ops) (rds_register_branch J gid bid ops)"

definition any_list_recent :: "int \<Rightarrow> any_store \<Rightarrow> global_row list" where
  "any_list_recent limit = hand_on_read (list_recent limit) (rds_list_recent limit)"

definition any_list_stuck :: "int \<Rightarrow> int \<Rightarrow> any_store \<Rightarrow> global_row list" where
  "any_list_stuck min_retries limit = hand_on_read (list_stuck min_retries limit) (rds_list_stuck min_retries limit)"

section \<open>Tokens and topics\<close>

definition any_create_token :: "string \<Rightarrow> string \<Rightarrow> string \<Rightarrow> any_store \<Rightarrow> unit res \<times> any_store" where
  "any_create_token hash name secret =
     hand_on (create_token hash name secret) (\<lambda>R. (Inr (), rds_create_token hash name secret R))"

definition any_list_tokens :: "any_store \<Rightarrow> token_row list" where
  "any_list_tokens = hand_on_read list_tokens rds_list_tokens"

definition any_revoke_token :: "string \<Rightarrow> any_store \<Rightarrow> bool \<times> any_store" where
  "any_revoke_token hash = hand_on (revoke_token hash) (rds_revoke_token hash)"

definition any_active_token_hashes :: "any_store \<Rightarrow> string list" where
  "any_active_token_hashes = hand_on_read active_token_hashes rds_active_token_hashes"

definition any_touch_token :: "string \<Rightarrow> string \<Rightarrow> any_store \<Rightarrow> any_store" where
  "any_touch_token hash ip = hand_on_write (touch_token hash ip) (rds_touch_token hash ip)"

definition any_subscribe :: "string \<Rightarrow> string \<Rightarrow> string \<Rightarrow> any_store \<Rightarrow> bool res \<times> any_store" where
  "any_subscribe topic url remark = hand_on (subscribe topic url remark) (rds_subscribe topic url remark)"

definition any_unsubscribe :: "string \<Rightarrow> string \<Rightarrow> any_store \<Rightarrow> bool \<times> any_store" where
  "any_unsubscribe topic url = hand_on (unsubscribe topic url) (rds_unsubscribe topic url)"

definition any_delete_topic :: "string \<Rightarrow> any_store \<Rightarrow> nat \<times> any_store" where
  "any_delete_topic topic = hand_on (delete_topic topic) (rds_delete_topic topic)"

definition any_list_subscriptions :: "string option \<Rightarrow> any_store \<Rightarrow> topic_sub list" where
  "any_list_subscriptions topic = hand_on_read (list_subscriptions topic) (rds_list_subscriptions topic)"

section \<open>The contract of the store\<close>

fun any_clock :: "any_store \<Rightarrow> int" where
  "any_clock (Sql_inner s) = now s"
| "any_clock (Redis_inner R) = rs_clock R"

fun any_ok :: "any_store \<Rightarrow> bool" where
  "any_ok (Sql_inner s) = store_ok s"
| "any_ok (Redis_inner R) = redis_ok R"

lemmas any_defs = any_get_global_def any_transition_def any_lock_one_due_def any_release_lease_def
  any_schedule_now_def hand_on_defs

lemma countable_any [simp]:
  "countable_retries gid l (Sql_inner s) any_get_global = countable_retries gid l s get_global"
  "countable_retries gid l (Redis_inner R) any_get_global = countable_retries gid l R rds_get_global"
  by (simp_all add: countable_retries_def any_defs)

text \<open>
  Whichever backend is behind it, the store keeps the contract the coordinator relies on; what
  both guard is what Redis guards.
\<close>

interpretation any: lease_store any_ok any_get_global any_clock status_contested any_transition
  any_lock_one_due any_release_lease any_schedule_now
proof
  fix gid f t tt r S
  show "any_clock (snd (any_transition gid f t tt r S)) = any_clock S"
    by (cases S) (simp_all add: any_defs split_beta sql.trans_clock redis.trans_clock)
next
  fix gid f t tt r S
  assume "any_ok S" "status_contested f tt"
  then show "any_ok (snd (any_transition gid f t tt r S))"
    by (cases S) (simp_all add: any_defs split_beta sql.trans_inv redis.trans_inv)
next
  fix gid f t tt r S ok S'
  assume "any_ok S" "status_contested f tt" "any_transition gid f t tt r S = (ok, S')"
  then show "(ok, \<lambda>x. any_get_global x S') =
      cas_status (any_clock S) gid f t (take_chars mid r) (\<lambda>x. any_get_global x S)"
    by (cases S) (auto simp: any_defs split: prod.splits dest: sql.trans_refines redis.trans_refines)
next
  fix gid f t tt r S ok S' g
  assume "any_ok S" "any_get_global gid S = Some g" "g_status g = f" "\<not> is_final f"
    "any_transition gid f t tt r S = (ok, S')"
  then show "ok \<and> any_ok S' \<and>
      (\<lambda>x. any_get_global x S') = (\<lambda>x. any_get_global x S)(gid \<mapsto> put_status t (any_clock S) (take_chars mid r) g)"
    by (cases S) (auto simp: any_defs split: prod.splits dest: sql.trans_fresh redis.trans_fresh)
next
  fix owner lease S
  show "any_clock (snd (any_lock_one_due owner lease S)) = any_clock S"
    by (cases S) (simp_all add: any_defs split_beta sql.lock_clock redis.lock_clock)
  assume "any_ok S"
  then show "any_ok (snd (any_lock_one_due owner lease S))"
    by (cases S) (simp_all add: any_defs split_beta sql.lock_inv redis.lock_inv)
next
  fix owner lease S g S'
  assume "any_ok S" "any_lock_one_due owner lease S = (Some g, S')"
  then show "\<exists>g0. any_get_global (g_gid g) S = Some g0 \<and> free_at (any_clock S) g0 \<and>
      g = take_lease owner (any_clock S) lease g0 \<and>
      (\<lambda>x. any_get_global x S') = (\<lambda>x. any_get_global x S)(g_gid g \<mapsto> g)"
    by (cases S) (auto simp: any_defs split: prod.splits dest: sql.lock_Some redis.lock_Some)
next
  fix owner lease S S' x
  assume "any_ok S" "any_lock_one_due owner lease S = (None, S')"
  then show "any_get_global x S' = any_get_global x S"
    by (cases S) (auto simp: any_defs split: prod.splits dest: sql.lock_None redis.lock_None)
next
  fix S i gid l
  assume "any_ok S" "in_i64 i" "countable_retries gid l S any_get_global"
  then show "any_ok (any_release_lease gid l i S)"
    by (cases S) (auto simp: any_release_lease_def hand_on_write_def intro: sql.release_inv redis.release_inv)
next
  fix gid l i S
  show "any_clock (any_release_lease gid l i S) = any_clock S"
    by (cases S) (simp_all add: any_defs sql.release_clock redis.release_clock)
next
  fix S i gid l x
  assume "any_ok S" "in_i64 i" "countable_retries gid l S any_get_global"
  then show "any_get_global x (any_release_lease gid l i S) =
      (if x = gid then map_option (\<lambda>g. if g_lease_until g = l then released i (any_clock S) g else g)
                        (any_get_global x S)
       else any_get_global x S)"
    by (cases S)
      (simp_all add: any_release_lease_def any_get_global_def hand_on_defs sql.release_get redis.release_get
        countable_any [unfolded any_get_global_def hand_on_read_def] cong: if_cong)
next
  fix gid S x
  show "any_clock (any_schedule_now gid S) = any_clock S"
    by (cases S) (simp_all add: any_defs sql.sched_clock redis.sched_clock)
  assume "any_ok S"
  then show "any_ok (any_schedule_now gid S)"
    by (cases S) (simp_all add: any_defs sql.sched_inv redis.sched_inv)
  from \<open>any_ok S\<close> show "any_get_global x (any_schedule_now gid S) =
      (if x = gid then map_option (\<lambda>g. g\<lparr>g_next_cron_time := any_clock S, g_next_cron_interval := 0\<rparr>)
                        (any_get_global x S)
       else any_get_global x S)"
    by (cases S) (simp_all add: any_defs sql.sched_get redis.sched_get)
qed

end
