(* ===== verification/Topics_Agree.thy ===== *)
theory Topics_Agree
  imports Store_Dispatch Schema_Laws "HOL-Library.Multiset"
begin

text \<open>
  Subscriptions on the two backends: rows of a table here, one hash per topic and an index of the
  topics there. Behind the store they answer alike, the order of listings included, on which the
  numbers of a fan-out rest.
\<close>

section \<open>What is asked of the store\<close>

datatype topic_op =
    Sub string string string
  | Unsub string string
  | Drop_topic string
  | List_subs "string option"
  | Later int

datatype topic_answer =
    Sub_answer "bool res"
  | Unsub_answer bool
  | Drop_answer nat
  | List_answer "topic_sub list"
  | Silent

fun any_tick :: "int \<Rightarrow> any_store \<Rightarrow> any_store" where
  "any_tick t (Sql_inner s) = Sql_inner (s\<lparr>st_clock := t\<rparr>)"
| "any_tick t (Redis_inner R) = Redis_inner (R\<lparr>rs_clock := t\<rparr>)"

fun run_topic :: "topic_op \<Rightarrow> any_store \<Rightarrow> topic_answer \<times> any_store" where
  "run_topic (Sub t u r) S = apfst Sub_answer (any_subscribe t u r S)"
| "run_topic (Unsub t u) S = apfst Unsub_answer (any_unsubscribe t u S)"
| "run_topic (Drop_topic t) S = apfst Drop_answer (any_delete_topic t S)"
| "run_topic (List_subs t) S = (List_answer (any_list_subscriptions t S), S)"
| "run_topic (Later t) S = (Silent, any_tick t S)"

fun run_topics :: "topic_op list \<Rightarrow> any_store \<Rightarrow> topic_answer list" where
  "run_topics [] S = []"
| "run_topics (op # ops) S = (case run_topic op S of (a, S) \<Rightarrow> a # run_topics ops S)"

fun seconds_ok :: "topic_op \<Rightarrow> bool" where
  "seconds_ok (Later t) = in_i64 t"
| "seconds_ok _ = True"

section \<open>How they correspond\<close>

abbreviation topic_hash :: "redis_store \<Rightarrow> string \<Rightarrow> (string \<times> string) list" where
  "topic_hash R t \<equiv> rk_hash (rs_keys R) (topic_key (rs_prefix R) t)"

abbreviation topic_index :: "redis_store \<Rightarrow> string list" where
  "topic_index R \<equiv> rk_set (rs_keys R) (topics_idx (rs_prefix R))"

definition rows_of :: "string \<Rightarrow> store \<Rightarrow> topic_sub list" where
  "rows_of t s = filter (\<lambda>r. t_topic r = t) (st_topic s)"

definition same_topics :: "store \<Rightarrow> redis_store \<Rightarrow> bool" where
  "same_topics s R \<longleftrightarrow>
     now s = rs_clock R \<and> in_i64 (rs_clock R) \<and> keyed t_key (st_topic s) \<and>
     (\<forall>t. distinct (map fst (topic_hash R t)) \<and> set (rows_of t s) = sub_from t ` set (topic_hash R t)) \<and>
     distinct (topic_index R) \<and> set (topic_index R) = {t. topic_hash R t \<noteq> []}"

lemma sub_from_simps [simp]: "t_topic (sub_from t e) = t" "t_url (sub_from t e) = fst e"
  by (auto simp: sub_from_def split: prod.splits option.splits)

lemma unit_sep_dec: "unit_sep \<notin> set (dec_int i)"
proof
  assume "unit_sep \<in> set (dec_int i)"
  then have "unit_sep = CHR ''-'' \<or> is_digit unit_sep"
    using dec_digits [of unit_sep] by (auto simp: dec_int_def split: if_splits)
  then show False by (simp add: unit_sep_def is_digit_def)
qed

lemma sub_from_written:
  "in_i64 ct \<Longrightarrow> sub_from t (u, dec_int ct @ unit_sep # r) =
     \<lparr>t_topic = t, t_url = u, t_remark = r, t_create_time = ct\<rparr>"
proof -
  assume "in_i64 ct"
  moreover have "split_once unit_sep (dec_int ct @ unit_sep # r) = Some (dec_int ct, r)"
    using unit_sep_dec by (simp add: split_once_Some_iff)
  ultimately show ?thesis by (simp add: sub_from_def)
qed

lemma update_absent: "u \<notin> fst ` set h \<Longrightarrow> AList.update u v h = h @ [(u, v)]"
  by (induction h) auto

lemma present_iff:
  assumes "same_topics s R"
  shows "(t, u) \<in> t_key ` set (st_topic s) \<longleftrightarrow> u \<in> fst ` set (topic_hash R t)"
proof -
  have rows: "set (rows_of t s) = sub_from t ` set (topic_hash R t)"
    using assms by (simp add: same_topics_def)
  have "(t, u) \<in> t_key ` set (st_topic s) \<longleftrightarrow> u \<in> t_url ` set (rows_of t s)"
    by (force simp: t_key_def rows_of_def)
  also have "\<dots> \<longleftrightarrow> u \<in> fst ` set (topic_hash R t)"
    unfolding rows by (force simp: image_image)
  finally show ?thesis .
qed

lemma same_subscribe:
  assumes same: "same_topics s R"
    and a: "subscribe t u r s = (x, s')" "rds_subscribe t u r R = (y, R')"
  shows "x = y \<and> same_topics s' R'"
proof (cases "all_ok [len_ok ''topic'' t topic_len, len_ok ''url'' u sub_url_len, len_ok ''remark'' r mid]")
  case (Inl e)
  with a same show ?thesis by (auto simp: subscribe_def rds_subscribe_def)
next
  case (Inr ok)
  let ?new = "\<lparr>t_topic = t, t_url = u, t_remark = r, t_create_time = now s\<rparr>"
  have clock: "now s = rs_clock R" "in_i64 (rs_clock R)" using same by (simp_all add: same_topics_def)
  have key: "t_key ?new = (t, u)" by (simp add: t_key_def)
  show ?thesis
  proof (cases "u \<in> fst ` set (topic_hash R t)")
    case True
    then have "hget (topic_key (rs_prefix R) t) u (rs_keys R) \<noteq> None"
      by (simp add: hget_def map_of_eq_None_iff)
    then obtain v where "hget (topic_key (rs_prefix R) t) u (rs_keys R) = Some v" by blast
    moreover have "List.insert t (topic_index R) = topic_index R"
    proof -
      have "topic_hash R t \<noteq> []" using True by auto
      with same have "t \<in> set (topic_index R)" by (simp add: same_topics_def)
      then show ?thesis by (simp add: List.insert_def)
    qed
    ultimately have "y = Inr False" "R' = R"
      using a(2) Inr by (simp_all add: rds_subscribe_def Let_def hsetnx_def sadd_def)
    moreover have "x = Inr False" "s' = s"
      using a(1) Inr True present_iff [OF same, of t u] key
      by (simp_all add: subscribe_def insert_ignore_def)
    ultimately show ?thesis using same by simp
  next
    case False
    then have "hget (topic_key (rs_prefix R) t) u (rs_keys R) = None"
      by (simp add: hget_def map_of_eq_None_iff)
    then have R': "y = Inr True" "rs_clock R' = rs_clock R" "rs_prefix R' = rs_prefix R"
      and hash: "\<And>q. topic_hash R' q = (if q = t then topic_hash R t @ [(u, dec_int (rs_clock R) @ unit_sep # r)]
        else topic_hash R q)"
      and idx: "topic_index R' = List.insert t (topic_index R)"
      using a(2) Inr False
      by (auto simp: rds_subscribe_def Let_def hsetnx_def sadd_def hset_def update_absent keys_apart)
    have s': "x = Inr True" "s' = s\<lparr>st_topic := st_topic s @ [?new]\<rparr>"
      using a(1) Inr False present_iff [OF same, of t u] key
      by (simp_all add: subscribe_def insert_ignore_def)
    have "set (rows_of q s') = sub_from q ` set (topic_hash R' q)" for q
      using same clock
      by (simp add: same_topics_def s'(2) rows_of_def hash sub_from_written)
    moreover have "keyed t_key (st_topic s')"
      using same False present_iff [OF same, of t u] key by (auto simp: same_topics_def s'(2) keyed_def)
    moreover have "distinct (map fst (topic_hash R' q))" for q
      using same False by (auto simp: same_topics_def hash)
    moreover have "set (topic_index R') = {q. topic_hash R' q \<noteq> []}" "distinct (topic_index R')"
      using same by (auto simp: same_topics_def idx hash)
    ultimately show ?thesis
      using R' s'(1) clock by (simp add: same_topics_def) (simp add: s'(2))
  qed
qed

lemma same_unsubscribe:
  assumes same: "same_topics s R"
    and a: "unsubscribe t u s = (x, s')" "rds_unsubscribe t u R = (y, R')"
  shows "x = y \<and> same_topics s' R'"
proof -
  let ?h = "AList.delete u (topic_hash R t)"
  have s': "s' = s\<lparr>st_topic := filter (\<lambda>r. \<not> (t_topic r = t \<and> t_url r = u)) (st_topic s)\<rparr>"
    and x: "x \<longleftrightarrow> (t, u) \<in> t_key ` set (st_topic s)"
    using a(1) by (auto simp: unsubscribe_def delete_where_def t_key_def image_iff filter_empty_conv)
  have y: "y \<longleftrightarrow> u \<in> fst ` set (topic_hash R t)"
    using a(2) by (auto simp: rds_unsubscribe_def hdel_def hget_def Let_def map_of_eq_None_iff)
  have R': "rs_clock R' = rs_clock R" "rs_prefix R' = rs_prefix R"
    and hash: "\<And>q. topic_hash R' q = (if q = t then ?h else topic_hash R q)"
    and idx: "topic_index R' = (if ?h = [] then removeAll t (topic_index R) else topic_index R)"
    using a(2) by (auto simp: rds_unsubscribe_def hdel_def Let_def srem_def hgetall_def keys_apart)
  have "set (rows_of q s') = sub_from q ` set (topic_hash R' q)" for q
  proof (cases "q = t")
    case True
    have "set (rows_of t s') = {r \<in> set (rows_of t s). t_url r \<noteq> u}"
      by (auto simp: rows_of_def s')
    also have "\<dots> = {r \<in> sub_from t ` set (topic_hash R t). t_url r \<noteq> u}"
      using same by (simp add: same_topics_def)
    also have "\<dots> = sub_from t ` set ?h" by (auto simp: AList.delete_eq)
    finally show ?thesis using True by (simp add: hash)
  next
    case False
    then have "rows_of q s' = rows_of q s" by (auto simp: rows_of_def s' intro!: filter_cong)
    with False same show ?thesis by (simp add: same_topics_def hash)
  qed
  moreover have "distinct (map fst (topic_hash R' q))" for q
    using same by (auto simp: same_topics_def hash AList.distinct_delete)
  moreover have "set (topic_index R') = {q. topic_hash R' q \<noteq> []}" "distinct (topic_index R')"
    using same by (auto simp: same_topics_def idx hash distinct_removeAll)
  moreover have "keyed t_key (st_topic s')"
    using same by (auto simp: same_topics_def s' keyed_def distinct_map_filter)
  ultimately show ?thesis
    using same x y R' present_iff [OF same, of t u] by (simp add: same_topics_def s')
qed

lemma length_rows:
  assumes "same_topics s R" shows "length (rows_of t s) = length (topic_hash R t)"
proof -
  have d: "distinct (map fst (topic_hash R t))" and k: "keyed t_key (st_topic s)"
    and rows: "set (rows_of t s) = sub_from t ` set (topic_hash R t)"
    using assms by (simp_all add: same_topics_def)
  have "inj_on (sub_from t) (set (topic_hash R t))"
    using d by (intro inj_onI) (metis eq_key_imp_eq_value prod.collapse sub_from_simps(2))
  then have "card (set (rows_of t s)) = length (topic_hash R t)"
    using d rows distinct_card [of "topic_hash R t"] by (simp add: card_image distinct_map)
  moreover have "distinct (rows_of t s)" using k by (simp add: rows_of_def keyed_def distinct_map)
  ultimately show ?thesis by (simp add: distinct_card)
qed

lemma same_delete:
  assumes same: "same_topics s R"
    and a: "delete_topic t s = (x, s')" "rds_delete_topic t R = (y, R')"
  shows "x = y \<and> same_topics s' R'"
proof -
  have s': "s' = s\<lparr>st_topic := filter (\<lambda>r. t_topic r \<noteq> t) (st_topic s)\<rparr>" and x: "x = length (rows_of t s)"
    using a(1) by (auto simp: delete_topic_def delete_where_def rows_of_def)
  have y: "y = length (topic_hash R t)"
    and R': "rs_clock R' = rs_clock R" "rs_prefix R' = rs_prefix R"
    and hash: "\<And>q. topic_hash R' q = (if q = t then [] else topic_hash R q)"
    and idx: "topic_index R' = removeAll t (topic_index R)"
    using a(2) by (auto simp: rds_delete_topic_def Let_def srem_def hgetall_def del_key_def keys_apart
        topic_key_def topics_idx_def)
  have rows: "rows_of q s' = (if q = t then [] else rows_of q s)" for q
    by (auto simp: rows_of_def s' intro!: filter_cong)
  have "set (rows_of q s') = sub_from q ` set (topic_hash R' q)" "distinct (map fst (topic_hash R' q))" for q
    using same by (auto simp: same_topics_def hash rows)
  moreover have "set (topic_index R') = {q. topic_hash R' q \<noteq> []}" "distinct (topic_index R')"
    using same by (auto simp: same_topics_def idx hash distinct_removeAll)
  moreover have "keyed t_key (st_topic s')"
    using same by (auto simp: same_topics_def s' keyed_def distinct_map_filter)
  ultimately show ?thesis
    using same x y R' length_rows [OF same, of t] by (simp add: same_topics_def s')
qed

section \<open>Listings\<close>

lemma sort_key_same:
  assumes "distinct xs" "distinct ys" "set xs = set ys" "inj_on f (set xs)"
  shows "sort_key f xs = sort_key f ys"
proof -
  have "mset xs = mset (sort_key f ys)" using assms by (simp add: set_eq_iff_mset_eq_distinct)
  then show ?thesis using assms(4) by (intro sort_key_inj_key_eq) auto
qed

abbreviation listed :: "redis_store \<Rightarrow> string \<Rightarrow> topic_sub list" where
  "listed R t \<equiv> sort_key (\<lambda>r. (t_create_time r, t_url r)) (map (sub_from t) (topic_hash R t))"

lemma distinct_subs:
  assumes "same_topics s R" shows "distinct (map (sub_from t) (topic_hash R t))"
proof -
  have "distinct (map t_url (map (sub_from t) (topic_hash R t)))"
    using assms by (simp add: same_topics_def comp_def)
  then show ?thesis unfolding distinct_map [of t_url] by simp
qed

lemma distinct_rows: "same_topics s R \<Longrightarrow> distinct (st_topic s)"
  by (simp add: same_topics_def keyed_def distinct_map)

lemma inj_row_key:
  assumes "same_topics s R"
  shows "inj_on (\<lambda>r. (t_topic r, t_create_time r, t_url r)) (set (st_topic s))"
  using assms by (auto simp: same_topics_def keyed_def distinct_map t_key_def inj_on_def)

lemma rows_listed:
  assumes "same_topics s R"
  shows "sort_key (\<lambda>r. (t_create_time r, t_url r)) (rows_of t s) = listed R t"
proof (rule sort_key_same)
  show "distinct (rows_of t s)" using distinct_rows [OF assms] by (simp add: rows_of_def)
  show "distinct (map (sub_from t) (topic_hash R t))" by (rule distinct_subs [OF assms])
  show "set (rows_of t s) = set (map (sub_from t) (topic_hash R t))"
    using assms by (simp add: same_topics_def)
  show "inj_on (\<lambda>r. (t_create_time r, t_url r)) (set (rows_of t s))"
    using inj_row_key [OF assms] by (auto simp: rows_of_def inj_on_def)
qed

lemma listed_topic: "r \<in> set (listed R t) \<Longrightarrow> t_topic r = t"
  by auto

lemma sorted_concat:
  assumes "sorted ts" "distinct ts" "\<And>t. sorted (map f (g t))" "\<And>t r. r \<in> set (g t) \<Longrightarrow> fst (f r) = t"
  shows "sorted (map f (concat (map g ts)))"
  using assms(1,2)
proof (induction ts)
  case (Cons t ts)
  have "f x \<le> f y" if "x \<in> set (g t)" "u \<in> set ts" "y \<in> set (g u)" for x y u
  proof -
    have "t < u" using Cons.prems that(2) by (metis distinct.simps(2) order_le_less sorted_simps(2))
    with that assms(4) show ?thesis by (auto simp: less_eq_prod_def)
  qed
  with Cons assms(3) show ?case by (auto simp: sorted_append)
qed simp

lemma distinct_groups:
  assumes "distinct ts" "\<And>t. distinct (g t)" "\<And>t r. r \<in> set (g t) \<Longrightarrow> f r = t"
  shows "distinct (concat (map g ts))"
  using assms(1)
proof (induction ts)
  case (Cons t ts)
  have "x \<notin> set (g u)" if "u \<in> set ts" "x \<in> set (g t)" for x u
    using assms(3) [of x t] assms(3) [of x u] that Cons.prems by auto
  then have "set (g t) \<inter> set (concat (map g ts)) = {}" by auto
  with Cons assms(2) show ?case by simp
qed simp

lemma same_listing:
  assumes same: "same_topics s R"
  shows "list_subscriptions t s = rds_list_subscriptions t R"
proof (cases t)
  case (Some t')
  with rows_listed [OF same, of t'] show ?thesis
    by (simp add: list_subscriptions_def rds_list_subscriptions_def hgetall_def rows_of_def)
next
  case None
  let ?f = "\<lambda>r. (t_topic r, t_create_time r, t_url r)" and ?ts = "sort (topic_index R)"
  let ?all = "concat (map (listed R) ?ts)"
  have idx: "distinct (topic_index R)" "set (topic_index R) = {t. topic_hash R t \<noteq> []}"
    and rows: "set (rows_of q s) = sub_from q ` set (topic_hash R q)" for q
    using same by (simp_all add: same_topics_def)
  have set_all: "set ?all = set (st_topic s)"
  proof -
    have "set ?all = (\<Union>q\<in>{q. topic_hash R q \<noteq> []}. sub_from q ` set (topic_hash R q))"
      using idx(2) by simp
    also have "\<dots> = (\<Union>q. sub_from q ` set (topic_hash R q))" by (auto, metis empty_iff imageI list.set(1))
    also have "\<dots> = (\<Union>q. set (rows_of q s))" by (simp add: rows)
    finally have "set ?all = (\<Union>q. set (rows_of q s))" .
    then show ?thesis by (auto simp: rows_of_def)
  qed
  have all: "distinct ?all"
  proof (rule distinct_groups [where f = t_topic])
    show "distinct ?ts" using idx(1) by simp
    show "distinct (listed R q)" for q using distinct_subs [OF same, of q] by simp
  qed (rule listed_topic)
  have "mset (st_topic s) = mset ?all"
    by (rule set_eq_iff_mset_eq_distinct [THEN iffD1, OF distinct_rows [OF same] all set_all [symmetric]])
  moreover have "sorted (map ?f ?all)"
  proof (rule sorted_concat)
    fix q
    have "sorted (map (\<lambda>r. (t_create_time r, t_url r)) (listed R q))" by simp
    then have "sorted (map (Pair q) (map (\<lambda>r. (t_create_time r, t_url r)) (listed R q)))"
      by (simp add: sorted_map sorted_wrt_map)
    moreover have "map ?f (listed R q) = map (Pair q) (map (\<lambda>r. (t_create_time r, t_url r)) (listed R q))"
      unfolding map_map by (rule map_cong [OF refl]) (simp only: comp_apply listed_topic)
    ultimately show "sorted (map ?f (listed R q))" by (simp only:)
  qed (use idx in auto)
  ultimately have "sort_key ?f (st_topic s) = ?all"
    using inj_row_key [OF same] by (intro sort_key_inj_key_eq)
  then show ?thesis using None
    by (simp add: list_subscriptions_def rds_list_subscriptions_def hgetall_def smembers_def Let_def)
qed

section \<open>Side by side\<close>

lemma same_step:
  assumes "same_topics s R" "seconds_ok op"
    and "run_topic op (Sql_inner s) = (a, S)" "run_topic op (Redis_inner R) = (b, T)"
  shows "a = b \<and> (\<exists>s' R'. S = Sql_inner s' \<and> T = Redis_inner R' \<and> same_topics s' R')"
  using assms
proof (cases op)
  case (Sub t u r)
  with assms same_subscribe [OF assms(1), of t u r] show ?thesis
    by (auto simp: any_subscribe_def hand_on_def split: prod.splits)
next
  case (Unsub t u)
  with assms same_unsubscribe [OF assms(1), of t u] show ?thesis
    by (auto simp: any_unsubscribe_def hand_on_def split: prod.splits)
next
  case (Drop_topic t)
  with assms same_delete [OF assms(1), of t] show ?thesis
    by (auto simp: any_delete_topic_def hand_on_def split: prod.splits)
next
  case (List_subs t)
  with assms same_listing [OF assms(1), of t] show ?thesis
    by (auto simp: any_list_subscriptions_def hand_on_read_def)
next
  case (Later t)
  with assms show ?thesis by (auto simp: same_topics_def rows_of_def)
qed

lemma same_run:
  "same_topics s R \<Longrightarrow> \<forall>op\<in>set ops. seconds_ok op \<Longrightarrow>
   run_topics ops (Sql_inner s) = run_topics ops (Redis_inner R)"
proof (induction ops arbitrary: s R)
  case (Cons op ops)
  obtain a S where a: "run_topic op (Sql_inner s) = (a, S)" by fastforce
  obtain b T where b: "run_topic op (Redis_inner R) = (b, T)" by fastforce
  from same_step [OF Cons.prems(1) _ a b] Cons.prems(2) obtain s' R' where
    "a = b" "S = Sql_inner s'" "T = Redis_inner R'" "same_topics s' R'" by auto
  with a b Cons show ?case by simp
qed simp

lemma same_empty: "in_i64 t \<Longrightarrow> same_topics (empty_store be t) (redis_empty p ttl t)"
  by (simp add: same_topics_def empty_store_def redis_empty_def keyed_def rows_of_def)


definition two_listeners :: "topic_op list" where
  "two_listeners =
     [Sub ''paid'' ''http://b'' ''mail'', Later 8, Sub ''paid'' ''http://a'' [], Sub ''paid'' ''http://b'' ''again'',
      List_subs None, Unsub ''paid'' ''http://b'', List_subs (Some ''paid''), Drop_topic ''paid'', List_subs None]"


end
