(* ===== verification/Server_Main.thy ===== *)
theory Server_Main
  imports Auth_Laws Grpc_Server
begin

text \<open>
  The server process (\<^verbatim>\<open>crates/dtmrs/src/main.rs\<close>): what it reads from its environment, how it puts the
  driver, the API and the authentication together, and the two protocols it serves with them.
  \<open>getenv\<close> gives the variables, \<open>pid\<close> the number of the process; JSON and the default timeout
  are parameters as for the driver.
\<close>

section \<open>Configuration\<close>

record settings =
  se_db :: string
  se_addr :: string
  se_grpc_addr :: string
  se_owner :: string
  se_tick_ms :: nat
  se_inline :: bool

definition env_or :: "string \<Rightarrow> string option \<Rightarrow> string" where
  "env_or d v = (case v of None \<Rightarrow> d | Some s \<Rightarrow> s)"

definition settings_of :: "(string \<Rightarrow> string option) \<Rightarrow> nat \<Rightarrow> settings" where
  "settings_of getenv pid =
     \<lparr>se_db = env_or ''sqlite:dtmrs.db'' (getenv ''DTMRS_DB''),
      se_addr = env_or ''0.0.0.0:36789'' (getenv ''DTMRS_ADDR''),
      se_grpc_addr = env_or ''0.0.0.0:36790'' (getenv ''DTMRS_GRPC_ADDR''),
      se_owner = env_or (''tc-'' @ dec pid) (getenv ''DTMRS_OWNER''),
      se_tick_ms =
        (case Option.bind (getenv ''DTMRS_TICK_MS'') parse_usize of
           None \<Rightarrow> 1000
         | Some n \<Rightarrow> if 0 < n then n else 1000),
      se_inline = (getenv ''DTMRS_INLINE_SUBMIT'' \<noteq> Some ''0'' \<and> getenv ''DTMRS_INLINE_SUBMIT'' \<noteq> Some ''false'')\<rparr>"

definition driver_from_env :: "json \<Rightarrow> int \<Rightarrow> (string \<Rightarrow> string option) \<Rightarrow> string \<Rightarrow> driver" where
  "driver_from_env js dflt getenv owner = with_config js dflt owner (driver_config_from_env getenv)"

definition with_alert :: "alert_config option \<Rightarrow> driver \<Rightarrow> driver" where
  "with_alert a d = d\<lparr>dr_alert := a\<rparr>"

section \<open>The process\<close>

record server =
  sv_settings :: settings
  sv_driver :: driver
  sv_api :: api
  sv_auth :: "auth option"

definition main_server :: "json \<Rightarrow> int \<Rightarrow> (string \<Rightarrow> string option) \<Rightarrow> nat \<Rightarrow> int \<Rightarrow> server" where
  "main_server js dflt getenv pid t =
     (let se = settings_of getenv pid;
          d = with_alert (alert_from_env getenv) (driver_from_env js dflt getenv (se_owner se));
          a = (if se_inline se then with_inline_driver d (api_new js dflt) else api_new js dflt)
      in \<lparr>sv_settings = se, sv_driver = d, sv_api = a,
          sv_auth = map_option with_store (auth_from_env getenv t)\<rparr>)"

text \<open>\<open>serve_http\<close>: the guarded router where there is authentication; \<open>head\<close> are the headers.\<close>

definition serve_http ::
  "(string \<Rightarrow> nat list) \<Rightarrow> environment \<Rightarrow> kv_json \<Rightarrow> string \<Rightarrow> int \<Rightarrow> request_head \<Rightarrow> http_request \<Rightarrow> server \<Rightarrow>
   (http_answer \<times> server) prog" where
  "serve_http sha env KJ gid t head req sv =
     (case sv_auth sv of
        Some au \<Rightarrow> do {
          (r, au, used) \<leftarrow> router_with_auth sha env KJ (sv_api sv) gid t head au req;
          ret (r, sv\<lparr>sv_auth := Some au\<rparr>)
        }
      | None \<Rightarrow> do {
          r \<leftarrow> routes env KJ (sv_api sv) gid req;
          ret (r, sv)
        })"

text \<open>Without authentication on an address that is not local, the log warns.\<close>

definition warns_open :: "server \<Rightarrow> bool" where
  "warns_open sv \<longleftrightarrow>
     sv_auth sv = None \<and>
     \<not> prefix ''127.'' (se_addr (sv_settings sv)) \<and> \<not> prefix ''localhost'' (se_addr (sv_settings sv))"

definition serve_grpc ::
  "(string \<Rightarrow> nat list) \<Rightarrow> environment \<Rightarrow> string \<Rightarrow> int \<Rightarrow> string \<Rightarrow> string option \<Rightarrow> grpc_request \<Rightarrow> server \<Rightarrow>
   (grpc_answer \<times> server) prog" where
  "serve_grpc sha env gid t ip authorization req sv =
     (case sv_auth sv of
        Some au \<Rightarrow> do {
          (r, au, used) \<leftarrow> authed_tc sha env (sv_api sv) gid t ip authorization au req;
          ret (r, sv\<lparr>sv_auth := Some au\<rparr>)
        }
      | None \<Rightarrow> do {
          r \<leftarrow> tc_service env (sv_api sv) gid req;
          ret (r, sv)
        })"

section \<open>Configured means closed\<close>

text \<open>What a server does over time: requests on either port, in any order, at any time.\<close>

inductive serving ::
  "(string \<Rightarrow> nat list) \<Rightarrow> environment \<Rightarrow> kv_json \<Rightarrow> server \<times> world \<Rightarrow> server \<times> world \<Rightarrow> bool"
  for sha env KJ where
  over_http: "run_state (serve_http sha env KJ gid t head req sv) w = ((answer, sv'), w') \<Longrightarrow>
    serving sha env KJ (sv, w) (sv', w')"
| over_grpc: "run_state (serve_grpc sha env gid t ip authorization req' sv) w = ((answer', sv'), w') \<Longrightarrow>
    serving sha env KJ (sv, w) (sv', w')"

lemma serving_auth:
  "serving sha env KJ c c' \<Longrightarrow> sv_auth (fst c) \<noteq> None \<Longrightarrow> sv_auth (fst c') \<noteq> None"
  by (induction rule: serving.induct)
    (auto simp: serve_http_def serve_grpc_def split: option.splits prod.splits)

lemma served_auth: "(serving sha env KJ)\<^sup>*\<^sup>* c c' \<Longrightarrow> sv_auth (fst c) \<noteq> None \<Longrightarrow> sv_auth (fst c') \<noteq> None"
  by (induction rule: rtranclp_induct) (blast dest: serving_auth)+

text \<open>What a request shows of itself: a token in force, or over HTTP a session.\<close>

definition credentials :: "(string \<Rightarrow> nat list) \<Rightarrow> store \<Rightarrow> int \<Rightarrow> string option \<Rightarrow> auth \<Rightarrow> bool" where
  "credentials sha s t authorization a \<longleftrightarrow>
     (case Option.bind authorization bearer of None \<Rightarrow> False | Some p \<Rightarrow> token_in_force sha s t p a)"

lemma guard_refuses:
  assumes "\<not> public_path (hd_path r)" "\<not> credentials sha s t (hd_authorization r) a" "\<not> live_session r t a"
  shows "fst (guard sha s t r a) \<noteq> Passed"
  using assms by (auto simp: guard_passed_iff credentials_def presented_def split: option.splits)

lemma grpc_refuses:
  "\<not> credentials sha s t authorization a \<Longrightarrow> \<not> fst (grpc_admits sha s t ip authorization a)"
  by (auto simp: grpc_admits_def credentials_def token_in_force_def token_ok_def ct_eq_iff fst_managed_ok
      split: option.splits if_splits)

text \<open>The store a request finds, after what others did to it, and a request that only looks at it.\<close>

abbreviation found :: "environment \<Rightarrow> world \<Rightarrow> store" where
  "found env w \<equiv> e_others env (w_step w) (w_store w)"

abbreviation looked :: "environment \<Rightarrow> world \<Rightarrow> world" where
  "looked env w \<equiv> w\<lparr>w_store := found env w, w_step := Suc (w_step w)\<rparr>"

lemma http_closed:
  assumes "sv_auth sv = Some a" "req \<noteq> Health_http"
    and "\<not> credentials sha (found env w) t (hd_authorization head) a" "\<not> live_session head t a"
  shows "\<exists>answer sv'. run_state (serve_http sha env KJ gid t head req sv) w = ((answer, sv'), looked env w) \<and>
    answer \<in> {(401, Login_needed), (303, Redirect ''/login'')}"
proof -
  let ?r = "head\<lparr>hd_path := snd (route_of req)\<rparr>"
  have "\<not> public_path (hd_path ?r)" using assms(2) by (cases req) (simp_all add: public_path_def)
  moreover have "\<not> live_session ?r t a" using assms(4) by (simp add: live_session_def cookie_of_def)
  ultimately have "fst (guard sha (found env w) t ?r a) \<noteq> Passed"
    using assms(3) by (intro guard_refuses) simp_all
  then show ?thesis
    by (cases "guard sha (found env w) t ?r a"; cases "fst (guard sha (found env w) t ?r a)")
      (auto simp: serve_http_def assms(1) router_with_auth_def Let_def)
qed

lemma grpc_closed:
  assumes "sv_auth sv = Some a" "\<not> credentials sha (found env w) t authorization a"
  shows "\<exists>sv'. run_state (serve_grpc sha env gid t ip authorization req sv) w =
    ((Inl Unauthenticated, sv'), looked env w)"
  using grpc_refuses [OF assms(2), of ip] assms(1)
  by (cases "grpc_admits sha (found env w) t ip authorization a")
    (auto simp: serve_grpc_def authed_tc_def Let_def)



end
