(* ===== verification/Confirmed.thy ===== *)
theory Confirmed
  imports Coordinator Driver_Trace "HOL-Library.Sublist"
begin

text \<open>
  What the driver's records are worth: a branch it has recorded as succeeded has answered success
  to it, and a transaction it has ended has heard that answer from every branch it owes one. The
  others may do anything but record a success for the transaction in question, give it branches
  with numbers written another way, or take branches away.
\<close>

section \<open>Recorded and answered successes\<close>

definition acked :: "string \<Rightarrow> store \<Rightarrow> (string \<times> branch_op) set" where
  "acked gid s =
     {(b_branch_id b, b_op b) | b. b \<in> set (st_branch s) \<and> b_gid b = gid \<and> b_status b = BSucceed}"

definition agreed :: "string \<Rightarrow> event list \<Rightarrow> (string \<times> branch_op) set" where
  "agreed gid tr = {(c_branch_id c, c_op c) | c. Called c Success \<in> set tr \<and> c_gid c = gid}"

text \<open>Every number that selects a slot is written the way the driver writes it.\<close>

definition clear_numbers :: "string \<Rightarrow> store \<Rightarrow> bool" where
  "clear_numbers gid s \<longleftrightarrow>
     (\<forall>b\<in>set (st_branch s). b_gid b = gid \<longrightarrow>
        (\<forall>i. index_of (b_branch_id b) = Some i \<longrightarrow> b_branch_id b = branch_id i))"

definition alone_on :: "string \<Rightarrow> environment \<Rightarrow> bool" where
  "alone_on gid env \<longleftrightarrow>
     (\<forall>n s. acked gid (e_others env n s) \<subseteq> acked gid s \<and>
        branch_kept (st_branch s) (st_branch (e_others env n s)) \<and>
        (clear_numbers gid s \<longrightarrow> clear_numbers gid (e_others env n s)))"

definition joins :: "environment \<Rightarrow> bool" where
  "joins env \<longleftrightarrow> (\<forall>n rs. set (e_joined env n rs) \<subseteq> set rs)"

text \<open>
  What is followed through a program: a transaction, the successes known and the branches stored
  at the start, and the branches one status owes a success, each by any of some operations.
\<close>

record pledge =
  pl_gid :: string
  pl_known :: "(string \<times> branch_op) set"
  pl_rows :: "branch_row list"
  pl_goal :: global_status
  pl_owed :: "(string \<times> branch_op set) set"

definition known :: "pledge \<Rightarrow> event list \<Rightarrow> (string \<times> branch_op) set" where
  "known p tr = pl_known p \<union> agreed (pl_gid p) tr"

definition paid :: "pledge \<Rightarrow> event list \<Rightarrow> bool" where
  "paid p tr \<longleftrightarrow> (\<forall>x\<in>pl_owed p. \<exists>op\<in>snd x. (fst x, op) \<in> known p tr)"

definition honest_in :: "pledge \<Rightarrow> store \<Rightarrow> event list \<Rightarrow> bool" where
  "honest_in p s tr \<longleftrightarrow>
     acked (pl_gid p) s \<subseteq> known p tr \<and>
     branch_kept (pl_rows p) (st_branch s) \<and>
     clear_numbers (pl_gid p) s \<and>
     (\<forall>f ok. Status f (pl_goal p) ok \<in> set tr \<longrightarrow> paid p tr)"

definition honest :: "pledge \<Rightarrow> world \<Rightarrow> bool" where
  "honest p w \<longleftrightarrow> honest_in p (w_store w) (w_trace w)"

lemma known_append: "known p tr \<subseteq> known p (tr @ tr')"
  by (auto simp: known_def agreed_def)

lemma paid_append: "paid p tr \<Longrightarrow> paid p (tr @ tr')"
  using known_append [of p tr tr'] unfolding paid_def by blast

section \<open>Single steps\<close>

lemma acked_table: "st_branch s' = st_branch s \<Longrightarrow> acked gid s' = acked gid s"
  by (simp add: acked_def)

lemma clear_table: "st_branch s' = st_branch s \<Longrightarrow> clear_numbers gid s' = clear_numbers gid s"
  by (simp add: clear_numbers_def)

lemma honest_others:
  assumes "alone_on (pl_gid p) env" "honest_in p s tr"
  shows "honest_in p (e_others env n s) tr"
  using assms by (auto simp: honest_in_def alone_on_def intro: branch_kept_trans)

lemma honest_own:
  assumes "honest_in p s tr" "acked (pl_gid p) s' \<subseteq> known p tr" "branch_kept (st_branch s) (st_branch s')"
    and "clear_numbers (pl_gid p) s \<Longrightarrow> clear_numbers (pl_gid p) s'"
  shows "honest_in p s' tr"
  using assms by (auto simp: honest_in_def intro: branch_kept_trans)

lemma honest_table: "st_branch s' = st_branch s \<Longrightarrow> honest_in p s' tr = honest_in p s tr"
  by (simp add: honest_in_def acked_table [of s' s] clear_table [of s' s])

lemma honest_event:
  assumes "honest_in p s tr" "\<And>f ok. e = Status f (pl_goal p) ok \<Longrightarrow> paid p tr"
  shows "honest_in p s (tr @ [e])"
  using assms known_append [of p tr "[e]"] paid_append [of p tr "[e]"]
  by (auto simp: honest_in_def)

lemma set_status_rows:
  assumes "b \<in> set (st_branch (set_branch_status gid bid op st s))"
  obtains "b \<in> set (st_branch s)"
    | q where "q \<in> set (st_branch s)" "b = put_branch_status st (now s) q" "b_key q = (gid, bid, op)"
  using assms by (auto simp: set_branch_status_def set_update_where split: if_splits)

lemma put_branch_status_key [simp]:
  "b_gid (put_branch_status st t b) = b_gid b" "b_branch_id (put_branch_status st t b) = b_branch_id b"
  "b_op (put_branch_status st t b) = b_op b" "b_status (put_branch_status st t b) = st"
  by (simp_all add: put_branch_status_def)

lemma acked_set_status:
  "acked gid (set_branch_status gid' bid op st s) \<subseteq>
     acked gid s \<union> (if gid = gid' \<and> st = BSucceed then {(bid, op)} else {})"
proof
  fix x assume "x \<in> acked gid (set_branch_status gid' bid op st s)"
  then obtain b where b: "x = (b_branch_id b, b_op b)" "b_gid b = gid" "b_status b = BSucceed"
    and "b \<in> set (st_branch (set_branch_status gid' bid op st s))"
    by (auto simp: acked_def)
  from this(4) show "x \<in> acked gid s \<union> (if gid = gid' \<and> st = BSucceed then {(bid, op)} else {})"
  proof (cases rule: set_status_rows)
    case 1
    with b show ?thesis by (auto simp: acked_def)
  next
    case (2 q)
    then have "b_gid b = gid'" "b_branch_id b = bid" "b_op b = op" "b_status b = st"
      by (simp_all add: b_key_def)
    with b show ?thesis by simp
  qed
qed

lemma clear_set_status:
  "clear_numbers gid s \<Longrightarrow> clear_numbers gid (set_branch_status gid' bid op st s)"
  unfolding clear_numbers_def by (auto elim!: set_status_rows)

lemma kept_set_status: "branch_kept (st_branch s) (st_branch (set_branch_status gid bid op st s))"
  using evolves_set_branch_status [of s gid bid op st] by (simp add: evolves_def)

text \<open>Programs.\<close>

abbreviation heard :: "pledge \<Rightarrow> global_row \<Rightarrow> string \<Rightarrow> branch_op \<Rightarrow> branch_result \<Rightarrow> world \<Rightarrow> bool" where
  "heard p g bid op r w \<equiv>
     r = Success \<and> g_gid g = pl_gid p \<longrightarrow> (bid, op) \<in> known p (w_trace w)"

lemma keeps_then: "keeps I m \<Longrightarrow> triple (\<lambda>w. I w \<and> X w) m (\<lambda>_. I)"
  by (simp add: keeps_def triple_def)

lemma keeps_honest_access:
  assumes "alone_on (pl_gid p) env" "\<And>s. st_branch (snd (f s)) = st_branch s"
  shows "keeps (honest p) (access env f)"
  by (rule keeps_access) (simp add: honest_def honest_table [OF assms(2)] honest_others [OF assms(1)])

lemma keeps_honest_execute:
  "alone_on (pl_gid p) env \<Longrightarrow> (\<And>s. st_branch (f s) = st_branch s) \<Longrightarrow> keeps (honest p) (execute env f)"
  unfolding execute_def by (rule keeps_honest_access) simp_all

lemma keeps_honest_observe: "alone_on (pl_gid p) env \<Longrightarrow> keeps (honest p) (observe env f)"
  unfolding observe_def by (rule keeps_honest_access) simp_all

lemma keeps_honest_emit:
  "(\<And>f ok. e \<noteq> Status f (pl_goal p) ok) \<Longrightarrow> keeps (honest p) (emit e)"
  by (auto simp: keeps_def triple_def honest_def intro!: honest_event)

lemma honest_set_status:
  assumes "alone_on (pl_gid p) env"
  shows "triple (\<lambda>w. honest p w \<and> (st = BSucceed \<and> gid = pl_gid p \<longrightarrow> (bid, op) \<in> known p (w_trace w)))
    (execute env (set_branch_status gid bid op st)) (\<lambda>_. honest p)"
proof (rule tripleI)
  fix w
  assume w: "honest p w \<and> (st = BSucceed \<and> gid = pl_gid p \<longrightarrow> (bid, op) \<in> known p (w_trace w))"
  let ?s = "e_others env (w_step w) (w_store w)"
  have h: "honest_in p ?s (w_trace w)" using honest_others [OF assms] w by (simp add: honest_def)
  have "acked (pl_gid p) (set_branch_status gid bid op st ?s) \<subseteq> known p (w_trace w)"
    using acked_set_status [of "pl_gid p" gid bid op st ?s] h w
    by (auto simp: honest_in_def split: if_splits)
  from honest_own [OF h this kept_set_status clear_set_status]
  show "honest p (snd (run_state (execute env (set_branch_status gid bid op st)) w))"
    by (simp add: honest_def)
qed

lemma keeps_honest_failed:
  assumes "alone_on (pl_gid p) env" "st \<noteq> BSucceed"
  shows "keeps (honest p) (execute env (set_branch_status gid bid op st))"
  using honest_set_status [OF assms(1), of st gid bid op] assms(2) by (simp add: keeps_def)

lemma honest_answer:
  assumes "c_branch_id c = bid" "c_op c = op" "c_gid c = g_gid g"
  shows "triple (honest p) (answer_of h c) (\<lambda>r w. honest p w \<and> heard p g bid op r w)"
  using assms
  by (auto simp: triple_def honest_def known_def agreed_def intro!: honest_event)

lemma honest_call_branch:
  "triple (honest p) (call_branch env g bid op url pay) (\<lambda>r w. honest p w \<and> heard p g bid op r w)"
proof -
  have un: "triple (honest p) (ret Unknown) (\<lambda>r w. honest p w \<and> heard p g bid op r w)"
    by (simp add: triple_def)
  show ?thesis
    unfolding call_branch_def call_local_def call_http_def call_grpc_def
    by (auto split: target.split option.split simp: un mk_call_def intro!: honest_answer)
qed

lemma honest_call:
  assumes "\<And>r. triple (\<lambda>w. honest p w \<and> heard p g bid op r w) (f r) (\<lambda>_. honest p)"
  shows "keeps (honest p) (State_Monad.bind (call_branch env g bid op url pay) f)"
  unfolding keeps_def by (rule triple_bind [OF honest_call_branch assms])

lemma honest_recorded:
  assumes "alone_on (pl_gid p) env" "keeps (honest p) m"
  shows "triple (\<lambda>w. honest p w \<and> heard p g bid op Success w)
    (State_Monad.bind (execute env (set_branch_status (g_gid g) bid op BSucceed)) (\<lambda>_. m)) (\<lambda>_. honest p)"
proof (rule triple_bind)
  show "triple (\<lambda>w. honest p w \<and> heard p g bid op Success w)
      (execute env (set_branch_status (g_gid g) bid op BSucceed)) (\<lambda>_. honest p)"
    using honest_set_status [OF assms(1), of BSucceed "g_gid g" bid op] by simp
  show "triple (honest p) m (\<lambda>_. honest p)" using assms(2) by (simp add: keeps_def)
qed

lemmas honest_rules = keeps_intro keeps_honest_observe keeps_honest_execute keeps_honest_access
  keeps_honest_failed keeps_honest_emit

lemma keeps_honest_retry: "alone_on (pl_gid p) env \<Longrightarrow> keeps (honest p) (retry_later env d g)"
  unfolding retry_later_def by (intro honest_rules) simp_all

text \<open>A status that owes something is written only when the debt is paid.\<close>

lemma honest_transition:
  assumes "alone_on (pl_gid p) env"
  shows "triple (\<lambda>w. honest p w \<and> (from_st \<noteq> to_st \<and> to_st = pl_goal p \<longrightarrow> paid p (w_trace w)))
    (drv_transition env g from_st to_st reason) (\<lambda>_. honest p)"
proof (cases "from_st \<noteq> to_st \<and> to_st = pl_goal p")
  case True
  have "honest_in p (snd (transition gid from_st to_st tt reason s)) tr = honest_in p s tr"
    "honest_in p (release_lease gid l i s) tr = honest_in p s tr" for gid tt s tr l i
    by (rule honest_table, simp)+
  with True honest_others [OF assms] show ?thesis
    by (auto simp: drv_transition_def triple_def split_beta honest_def intro!: honest_event)
next
  case False
  then have "keeps (honest p) (drv_transition env g from_st to_st reason)"
    unfolding drv_transition_def using assms by (auto intro!: honest_rules)
  then show ?thesis by (simp add: keeps_def triple_def)
qed

lemma keeps_honest_transition:
  assumes "alone_on (pl_gid p) env" "to_st \<noteq> pl_goal p \<or> from_st = to_st"
  shows "keeps (honest p) (drv_transition env g from_st to_st reason)"
  using honest_transition [OF assms(1), of from_st to_st g reason] assms(2)
  by (auto simp: keeps_def triple_def)

section \<open>Calls\<close>

lemma honest_result:
  assumes "alone_on (pl_gid p) env" "keeps (honest p) m1" "keeps (honest p) m2" "keeps (honest p) m3"
    "keeps (honest p) m4"
  shows "keeps (honest p) (State_Monad.bind (call_branch env g bid op url pay) (\<lambda>r. case r of
       Success \<Rightarrow> State_Monad.bind (execute env (set_branch_status (g_gid g) bid op BSucceed)) (\<lambda>_. m1)
     | Failure \<Rightarrow> m2 | Ongoing \<Rightarrow> m3 | Unknown \<Rightarrow> m4))"
proof (rule honest_call)
  fix r
  show "triple (\<lambda>w. honest p w \<and> heard p g bid op r w) (case r of
       Success \<Rightarrow> State_Monad.bind (execute env (set_branch_status (g_gid g) bid op BSucceed)) (\<lambda>_. m1)
     | Failure \<Rightarrow> m2 | Ongoing \<Rightarrow> m3 | Unknown \<Rightarrow> m4) (\<lambda>_. honest p)"
  proof (cases "r = Success")
    case True
    then show ?thesis using honest_recorded [OF assms(1,2), of g bid op] by simp
  next
    case False
    with assms(3-5) have "keeps (honest p) (case r of
       Success \<Rightarrow> State_Monad.bind (execute env (set_branch_status (g_gid g) bid op BSucceed)) (\<lambda>_. m1)
     | Failure \<Rightarrow> m2 | Ongoing \<Rightarrow> m3 | Unknown \<Rightarrow> m4)" by (cases r) simp_all
    then show ?thesis by (rule keeps_then)
  qed
qed

lemma honest_result_if:
  assumes "alone_on (pl_gid p) env" "keeps (honest p) m1" "keeps (honest p) m2"
  shows "keeps (honest p) (State_Monad.bind (call_branch env g bid op url pay) (\<lambda>r. if r = Success
     then State_Monad.bind (execute env (set_branch_status (g_gid g) bid op BSucceed)) (\<lambda>_. m1)
     else m2))"
proof -
  have "(\<lambda>r. if r = Success then m else m2) =
      (\<lambda>r. case r of Success \<Rightarrow> m | Failure \<Rightarrow> m2 | Ongoing \<Rightarrow> m2 | Unknown \<Rightarrow> m2)" for m
    by (auto split: branch_result.splits)
  with honest_result [OF assms(1,2,3,3,3)] show ?thesis by simp
qed

lemma keeps_honest_two_phase_call:
  "alone_on (pl_gid p) env \<Longrightarrow> keeps (honest p) (two_phase_call env d g rows i op)"
  unfolding two_phase_call_def Let_def
  by (intro honest_result keeps_option keeps_bind keeps_return keeps_honest_retry keeps_honest_failed) simp_all

lemma keeps_honest_workflow_call:
  "alone_on (pl_gid p) env \<Longrightarrow> keeps (honest p) (workflow_call env d g rows i op)"
  unfolding workflow_call_def Let_def
  by (intro honest_result_if keeps_option keeps_bind keeps_return keeps_honest_retry)

lemma keeps_honest_saga_call:
  assumes "alone_on (pl_gid p) env" "pl_goal p \<noteq> GAborting"
  shows "keeps (honest p) (saga_call env d g steps status i op)"
  unfolding saga_call_def Let_def
  by (intro honest_result keeps_if keeps_bind keeps_return keeps_honest_retry keeps_honest_failed
      keeps_honest_transition assms) (use assms in auto)

text \<open>A group: what was answered stays known while the rest is called, and all of it is recorded.\<close>

abbreviation reported :: "pledge \<Rightarrow> global_row \<Rightarrow> (string \<times> branch_result) list \<Rightarrow> world \<Rightarrow> bool" where
  "reported p g rs w \<equiv> \<forall>x\<in>set rs. heard p g (fst x) Action (snd x) w"

lemma known_grows:
  "prefix (w_trace w) (w_trace w') \<Longrightarrow> known p (w_trace w) \<subseteq> known p (w_trace w')"
  by (auto simp: prefix_def known_def agreed_def)

lemma call_branch_extends:
  "prefix (w_trace w) (w_trace (snd (run_state (call_branch env g bid op url pay) w)))"
  by (auto simp: call_branch_def call_local_def call_http_def call_grpc_def
      split: target.splits option.splits)

lemma call_each_extends: "prefix (w_trace w) (w_trace (snd (run_state (call_each env g bs) w)))"
proof (induction bs arbitrary: w)
  case (Cons b bs)
  show ?case
    using prefix_order.trans [OF call_branch_extends Cons] by (simp add: split_beta)
qed simp

lemma honest_call_each:
  "triple (honest p) (call_each env g bs) (\<lambda>rs w. honest p w \<and> reported p g rs w)"
proof (induction bs)
  case (Cons b bs)
  show ?case
  proof (rule tripleI)
    fix w assume w: "honest p w"
    let ?call = "call_branch env g (mb_branch_id b) Action (mb_action b) (mb_payload b)"
    obtain r w1 where 1: "run_state ?call w = (r, w1)" by fastforce
    obtain rs w2 where 2: "run_state (call_each env g bs) w1 = (rs, w2)" by fastforce
    have h: "honest p w1" "heard p g (mb_branch_id b) Action r w1"
      using tripleD [OF honest_call_branch w, of env g "mb_branch_id b" Action "mb_action b" "mb_payload b"] 1
      by simp_all
    have "honest p w2" "reported p g rs w2" using tripleD [OF Cons h(1)] 2 by simp_all
    moreover have "known p (w_trace w1) \<subseteq> known p (w_trace w2)"
      using known_grows call_each_extends [of w1 env g bs] 2 by simp
    ultimately show "honest p (snd (run_state (call_each env g (b # bs)) w)) \<and>
        reported p g (fst (run_state (call_each env g (b # bs)) w))
          (snd (run_state (call_each env g (b # bs)) w))"
      using 1 2 h(2) by auto
  qed
qed (simp add: triple_def)

lemma honest_record_each:
  assumes "alone_on (pl_gid p) env"
  shows "triple (\<lambda>w. honest p w \<and> reported p g rs w) (record_each env g rs) (\<lambda>_. honest p)"
proof (induction rs)
  case (Cons x rs)
  show ?case
  proof (rule tripleI)
    fix w assume w: "honest p w \<and> reported p g (x # rs) w"
    let ?set = "execute env (set_branch_status (g_gid g) (fst x) Action BSucceed)"
    let ?w = "snd (run_state ?set w)"
    have "honest p ?w" if "snd x = Success"
      using tripleD [OF honest_set_status [OF assms, of BSucceed "g_gid g" "fst x" Action], of w] w that
      by auto
    with w have "snd x = Success \<Longrightarrow> honest p (snd (run_state (record_each env g rs) ?w))"
      and "honest p (snd (run_state (record_each env g rs) w))"
      using tripleD [OF Cons, of ?w] tripleD [OF Cons, of w] by simp_all
    then show "honest p (snd (run_state (record_each env g (x # rs)) w))"
      by (cases "snd x = Success") (simp_all add: split_beta)
  qed
qed (simp add: triple_def)

lemma keeps_honest_call_group:
  assumes "alone_on (pl_gid p) env" "joins env"
  shows "keeps (honest p) (call_group env d g bs)"
  unfolding call_group_def keeps_def
proof (rule triple_bind [OF honest_call_each], rule triple_bind)
  fix rs
  show "triple (\<lambda>w. honest p w \<and> reported p g rs w) (joined env rs)
      (\<lambda>rs' w. honest p w \<and> reported p g rs' w)"
    using assms(2) by (fastforce simp: triple_def joined_def joins_def)
  have "keeps (honest p) (if ok then ret True else State_Monad.bind (retry_later env d g) (\<lambda>_. ret False))" for ok
    by (intro keeps_intro keeps_honest_retry assms)
  then show "triple (\<lambda>w. honest p w \<and> reported p g rs' w)
      (State_Monad.bind (record_each env g rs')
        (\<lambda>ok. if ok then ret True else State_Monad.bind (retry_later env d g) (\<lambda>_. ret False)))
      (\<lambda>_. honest p)" for rs'
    by (intro triple_bind [OF honest_record_each [OF assms(1)]]) (simp add: keeps_def)
qed

section \<open>A run of a workflow\<close>

lemma register_ops_rows:
  "register_ops gid bid pay t ops rows = Inr rows' \<Longrightarrow> b \<in> set rows' \<Longrightarrow>
   b \<in> set rows \<or> b_status b = BPrepared \<and> b_branch_id b = bid"
proof (induction gid bid pay t ops rows rule: register_ops.induct)
  case (2 gid bid pay t op url ops rows)
  let ?new = "\<lparr>b_gid = gid, b_branch_id = bid, b_op = op, b_url = url, b_payload = pay,
    b_status = BPrepared, b_create_time = t, b_update_time = t, b_finish_time = None\<rparr>"
  have "row_at b_key (gid, bid, op) (insert_branch t ?new rows) \<noteq> None"
    by (simp add: row_at_insert_branch b_key_def split: option.splits)
  then obtain r where r: "row_at b_key (gid, bid, op) (insert_branch t ?new rows) = Some r" by blast
  with 2(3) have "b_url r = url" "register_ops gid bid pay t ops (insert_branch t ?new rows) = Inr rows'"
    by (auto simp: Let_def split: if_splits)
  with 2(2) [OF refl r] 2(4) have "b \<in> set (insert_branch t ?new rows) \<or>
      b_status b = BPrepared \<and> b_branch_id b = bid" by blast
  then show ?case
    using set_insert_ignore [of b_key "?new\<lparr>b_create_time := t, b_update_time := t\<rparr>" rows]
    by (auto simp: insert_branch_def)
qed simp

lemma register_rows:
  assumes "b \<in> set (st_branch (snd (register_branch gid bid ops s)))"
  shows "b \<in> set (st_branch s) \<or> b_status b = BPrepared \<and> b_branch_id b = bid"
  using assms register_ops_rows [of gid bid "[]" "now s" ops "st_branch s" _ b]
  by (auto simp: register_branch_def register_branch_with_def split: sum.splits)

lemma honest_registered:
  assumes "honest_in p s tr"
  shows "honest_in p (snd (register_branch gid (branch_id i) ops s)) tr"
proof (rule honest_own [OF assms])
  have "acked (pl_gid p) (snd (register_branch gid (branch_id i) ops s)) \<subseteq> acked (pl_gid p) s"
    by (auto simp: acked_def dest!: register_rows)
  with assms show "acked (pl_gid p) (snd (register_branch gid (branch_id i) ops s)) \<subseteq> known p tr"
    by (auto simp: honest_in_def)
  show "branch_kept (st_branch s) (st_branch (snd (register_branch gid (branch_id i) ops s)))"
    using evolves_register [of s gid "branch_id i" ops "[]"] by (simp add: evolves_def register_branch_def)
  show "clear_numbers (pl_gid p) (snd (register_branch gid (branch_id i) ops s))"
    if "clear_numbers (pl_gid p) s"
    unfolding clear_numbers_def
  proof (intro ballI impI allI)
    fix b j
    assume "b \<in> set (st_branch (snd (register_branch gid (branch_id i) ops s)))" "b_gid b = pl_gid p"
      and j: "index_of (b_branch_id b) = Some j"
    with register_rows [OF this(1)] that show "b_branch_id b = branch_id j"
      by (auto simp: clear_numbers_def index_of_branch_id split: if_splits)
  qed
qed

lemma honest_result_set:
  assumes "honest_in p s tr" "gid = pl_gid p \<Longrightarrow> (bid, op) \<in> known p tr"
  shows "honest_in p (snd (set_branch_result gid bid op BSucceed pay s)) tr"
proof (rule honest_own [OF assms(1)])
  let ?s = "snd (set_branch_result gid bid op BSucceed pay s)"
  have rows: "b \<in> set (st_branch s) \<or> (\<exists>q\<in>set (st_branch s). b_key q = (gid, bid, op) \<and>
      b_gid b = b_gid q \<and> b_branch_id b = b_branch_id q \<and> b_op b = b_op q)"
    if "b \<in> set (st_branch ?s)" for b
    using that by (auto simp: set_branch_result_def set_update_where split: sum.splits if_splits)
  show "acked (pl_gid p) ?s \<subseteq> known p tr"
  proof
    fix x assume "x \<in> acked (pl_gid p) ?s"
    then obtain b where b: "x = (b_branch_id b, b_op b)" "b_gid b = pl_gid p" "b_status b = BSucceed"
      and "b \<in> set (st_branch ?s)" by (auto simp: acked_def)
    from rows [OF this(4)] show "x \<in> known p tr"
    proof
      assume "b \<in> set (st_branch s)"
      with b assms(1) show ?thesis by (auto simp: honest_in_def acked_def)
    next
      assume "\<exists>q\<in>set (st_branch s). b_key q = (gid, bid, op) \<and>
        b_gid b = b_gid q \<and> b_branch_id b = b_branch_id q \<and> b_op b = b_op q"
      with b assms(2) show ?thesis by (auto simp: b_key_def)
    qed
  qed
  show "branch_kept (st_branch s) (st_branch ?s)"
    using evolves_set_branch_result [of s gid bid op BSucceed pay] by (simp add: evolves_def)
  show "clear_numbers (pl_gid p) ?s" if "clear_numbers (pl_gid p) s"
    using that unfolding clear_numbers_def by (auto dest!: rows)
qed

lemma keeps_honest_execute_branch:
  assumes "alone_on (pl_gid p) env"
  shows "keeps (honest p) (execute_branch env gid (branch_id i) name compensate f)"
proof -
  have failed: "honest_in p (set_branch_status gid' bid op BFailed s) tr" if "honest_in p s tr" for gid' bid op s tr
    by (rule honest_own [OF that _ kept_set_status clear_set_status])
      (use that acked_set_status [of "pl_gid p" gid' bid op BFailed s] in \<open>auto simp: honest_in_def\<close>)
  note others = honest_others [OF assms]
  have event: "honest_in p (w_store w) (w_trace w @ [Called c r])"
    if "honest_in p (w_store w) (w_trace w)" for w c r
    using that by (rule honest_event) simp
  have call: "(bid, Action) \<in> known p (tr @ [Called (wf_call (pl_gid p) bid name) Success])"
    for bid tr
    unfolding known_def agreed_def
    by (rule UnI2, rule CollectI, rule exI [of _ "wf_call (pl_gid p) bid name"]) (simp add: wf_call_def)
  show ?thesis
    unfolding execute_branch_def keeps_def
    by (auto simp: triple_def honest_def split_beta
        intro!: others event failed honest_registered honest_result_set call
        split: sum.split branch_result.split)
qed

lemma keeps_honest_run_with:
  "alone_on (pl_gid p) env \<Longrightarrow> keeps (honest p) (run_with env ctx name compensate f)"
  unfolding run_with_def Let_def by (intro keeps_intro keeps_honest_execute_branch)

lemma keeps_honest_run_wf: "alone_on (pl_gid p) env \<Longrightarrow> keeps (honest p) (run_wf body env ctx)"
  by (induction body arbitrary: ctx) (auto intro!: keeps_intro keeps_honest_run_with)

section \<open>The loops\<close>

text \<open>What a round knows from the rows it has read, which stays true while it goes on.\<close>

definition read_rows :: "pledge \<Rightarrow> global_row \<Rightarrow> branch_row list \<Rightarrow> event list \<Rightarrow> bool" where
  "read_rows p g rows tr \<longleftrightarrow> (g_gid g = pl_gid p \<longrightarrow>
     (\<forall>r\<in>set rows. b_status r = BSucceed \<longrightarrow> (b_branch_id r, b_op r) \<in> known p tr) \<and>
     (\<forall>r\<in>set rows. \<forall>i. index_of (b_branch_id r) = Some i \<longrightarrow> b_branch_id r = branch_id i) \<and>
     (\<forall>q\<in>set (pl_rows p). b_gid q = pl_gid p \<longrightarrow>
        (\<exists>r\<in>set rows. b_branch_id r = b_branch_id q \<and> b_op r = b_op q)))"

lemma honest_read:
  assumes "honest_in p s tr" shows "read_rows p g (list_branches (g_gid g) s) tr"
proof -
  have "\<exists>r\<in>set (st_branch s). b_key r = b_key q" if "q \<in> set (pl_rows p)" for q
  proof -
    have "row_at b_key (b_key q) (pl_rows p) \<noteq> None" using that by (simp add: row_at_None_iff)
    moreover have "branch_kept (pl_rows p) (st_branch s)" using assms by (simp add: honest_in_def)
    ultimately obtain r where "row_at b_key (b_key q) (st_branch s) = Some r"
      unfolding branch_kept_def by blast
    then show ?thesis by (auto dest: row_at_SomeD)
  qed
  with assms show ?thesis
    unfolding read_rows_def honest_in_def acked_def clear_numbers_def
    by (fastforce simp: set_list_branches b_key_def)
qed

lemma honest_look:
  assumes "alone_on (pl_gid p) env"
    and "\<And>rows. triple (\<lambda>w. honest p w \<and> read_rows p g rows (w_trace w)) (f rows) (\<lambda>_. honest p)"
  shows "keeps (honest p) (State_Monad.bind (observe env (list_branches (g_gid g))) f)"
  unfolding keeps_def
proof (rule triple_bind [OF _ assms(2)])
  show "triple (honest p) (observe env (list_branches (g_gid g)))
      (\<lambda>rows w. honest p w \<and> read_rows p g rows (w_trace w))"
    using honest_others [OF assms(1)] honest_read by (auto simp: triple_def honest_def)
qed

text \<open>Ending a round with what has been read.\<close>

lemma honest_finish:
  assumes "alone_on (pl_gid p) env"
    and "\<And>tr. X tr \<Longrightarrow> from_st \<noteq> to_st \<Longrightarrow> to_st = pl_goal p \<Longrightarrow> paid p tr"
    and "\<And>ok. keeps (honest p) (f ok)"
  shows "triple (\<lambda>w. honest p w \<and> X (w_trace w))
    (State_Monad.bind (drv_transition env g from_st to_st reason) f) (\<lambda>_. honest p)"
proof (rule triple_bind)
  show "triple (\<lambda>w. honest p w \<and> X (w_trace w)) (drv_transition env g from_st to_st reason) (\<lambda>_. honest p)"
    using honest_transition [OF assms(1), of from_st to_st g reason] assms(2)
    by (auto simp: triple_def)
  show "triple (honest p) (f ok) (\<lambda>_. honest p)" for ok using assms(3) by (simp add: keeps_def)
qed

lemma keeps_honest_two_phase_loop:
  assumes "alone_on (pl_gid p) env"
    and "\<And>rows tr s. read_rows p g rows tr \<Longrightarrow>
      (if fwd = Commit then xa_advance else tcc_advance) (g_status g)
        (fst (split_by_op rows n fwd bwd)) (snd (split_by_op rows n fwd bwd)) = Finish s \<Longrightarrow>
      g_status g \<noteq> s \<Longrightarrow> s = pl_goal p \<Longrightarrow> paid p tr"
  shows "keeps (honest p) (two_phase_loop fuel env d g n fwd bwd)"
proof (induction fuel)
  case 0
  then show ?case by (simp add: keeps_return)
next
  case (Suc fuel)
  show ?case
    unfolding two_phase_loop.simps
  proof (rule honest_look [OF assms(1)])
    fix rows
    let ?adv = "(if fwd = Commit then xa_advance else tcc_advance) (g_status g)
      (fst (split_by_op rows n fwd bwd)) (snd (split_by_op rows n fwd bwd))"
    have call: "keeps (honest p) (State_Monad.bind (two_phase_call env d g rows i op)
        (\<lambda>go_on. if go_on then two_phase_loop fuel env d g n fwd bwd else ret Done))" for i op
      by (intro keeps_intro keeps_honest_two_phase_call assms(1) Suc)
    show "triple (\<lambda>w. honest p w \<and> read_rows p g rows (w_trace w))
      (case ?adv of
         Call i op \<Rightarrow> State_Monad.bind (two_phase_call env d g rows i op)
           (\<lambda>go_on. if go_on then two_phase_loop fuel env d g n fwd bwd else ret Done)
       | Finish s \<Rightarrow> State_Monad.bind (drv_transition env g (g_status g) s []) (\<lambda>_. ret Done)
       | Wait \<Rightarrow> ret Done | RunWorkflow \<Rightarrow> ret Done | CallEach is op \<Rightarrow> ret Done) (\<lambda>_. honest p)"
    proof (cases ?adv)
      case (Finish s)
      show ?thesis
        unfolding Finish advance.case
        by (rule honest_finish [OF assms(1) _ keeps_return]) (rule assms(2) [OF _ Finish])
    qed (simp_all only: advance.case keeps_then [OF call] keeps_then [OF keeps_return])
  qed
qed

lemma keeps_honest_drive_two_phase:
  assumes "alone_on (pl_gid p) env"
    and "\<And>rows tr rows' tr' s. read_rows p g rows tr \<Longrightarrow> read_rows p g rows' tr' \<Longrightarrow>
      (if fwd = Commit then xa_advance else tcc_advance) (g_status g)
        (fst (split_by_op rows (index_bound rows') fwd bwd))
        (snd (split_by_op rows (index_bound rows') fwd bwd)) = Finish s \<Longrightarrow>
      g_status g \<noteq> s \<Longrightarrow> s = pl_goal p \<Longrightarrow> paid p tr"
    and "\<And>tr. read_rows p g [] tr \<Longrightarrow> paid p tr"
  shows "keeps (honest p) (drive_two_phase fuel env d g fwd bwd)"
  unfolding drive_two_phase_def Let_def
proof (rule honest_look [OF assms(1)])
  fix rows
  show "triple (\<lambda>w. honest p w \<and> read_rows p g rows (w_trace w))
    (if index_bound rows = 0 then
       if rows \<noteq> [] then ret Done
       else State_Monad.bind
         (drv_transition env g (g_status g) (if g_status g = GAborting then GFailed else GSucceed) [])
         (\<lambda>_. ret Done)
     else two_phase_loop fuel env d g (index_bound rows) fwd bwd) (\<lambda>_. honest p)"
  proof (cases "rows = []")
    case True
    have "triple (\<lambda>w. honest p w \<and> read_rows p g [] (w_trace w))
        (State_Monad.bind (drv_transition env g (g_status g) t []) (\<lambda>_. ret Done)) (\<lambda>_. honest p)" for t
      by (rule honest_finish [OF assms(1) _ keeps_return]) (rule assms(3))
    with True show ?thesis by (simp add: index_bound_def)
  next
    case False
    show ?thesis
    proof (cases "\<exists>tr. read_rows p g rows tr")
      case True
      then have "keeps (honest p) (two_phase_loop fuel env d g (index_bound rows) fwd bwd)"
        by (intro keeps_honest_two_phase_loop assms(1)) (blast intro: assms(2))
      with False show ?thesis by (simp add: keeps_then keeps_return)
    qed (simp add: triple_def)
  qed
qed

lemma keeps_honest_saga_loop:
  assumes "alone_on (pl_gid p) env" "pl_goal p \<noteq> GAborting"
    and "\<And>rows tr status s. read_rows p g rows tr \<Longrightarrow>
      saga_advance status (fst (branch_states rows (length steps)))
        (snd (branch_states rows (length steps))) = Finish s \<Longrightarrow>
      status \<noteq> s \<Longrightarrow> s = pl_goal p \<Longrightarrow> paid p tr"
  shows "keeps (honest p) (saga_loop fuel env d g steps status)"
proof (induction fuel arbitrary: status)
  case 0
  then show ?case by (simp add: keeps_return)
next
  case (Suc fuel)
  show ?case
    unfolding saga_loop.simps
  proof (rule honest_look [OF assms(1)])
    fix rows
    let ?adv = "saga_advance status (fst (branch_states rows (length steps)))
      (snd (branch_states rows (length steps)))"
    have call: "keeps (honest p) (State_Monad.bind (saga_call env d g steps status i op)
        (\<lambda>next. case next of None \<Rightarrow> ret Done | Some s \<Rightarrow> saga_loop fuel env d g steps s))" for i op
      by (intro keeps_intro keeps_honest_saga_call assms(1,2) Suc)
    have turn: "keeps (honest p) (State_Monad.bind (drv_transition env g status GAborting saga_failed_text)
        (\<lambda>ok. if ok then saga_loop fuel env d g steps GAborting else ret Done))"
      using assms(2) by (intro keeps_intro keeps_honest_transition assms(1) Suc) simp
    show "triple (\<lambda>w. honest p w \<and> read_rows p g rows (w_trace w))
      (case ?adv of
         Call i op \<Rightarrow> State_Monad.bind (saga_call env d g steps status i op)
           (\<lambda>next. case next of None \<Rightarrow> ret Done | Some s \<Rightarrow> saga_loop fuel env d g steps s)
       | Finish s \<Rightarrow> if s = GAborting
           then State_Monad.bind (drv_transition env g status s saga_failed_text)
             (\<lambda>ok. if ok then saga_loop fuel env d g steps s else ret Done)
           else State_Monad.bind (drv_transition env g status s []) (\<lambda>_. ret Done)
       | Wait \<Rightarrow> ret Done | RunWorkflow \<Rightarrow> ret Done | CallEach is op \<Rightarrow> ret Done) (\<lambda>_. honest p)"
    proof (cases ?adv)
      case (Finish s)
      show ?thesis
      proof (cases "s = GAborting")
        case True
        then show ?thesis unfolding Finish using keeps_then [OF turn] by simp
      next
        case False
        have "triple (\<lambda>w. honest p w \<and> read_rows p g rows (w_trace w))
            (State_Monad.bind (drv_transition env g status s []) (\<lambda>_. ret Done)) (\<lambda>_. honest p)"
          by (rule honest_finish [OF assms(1) _ keeps_return]) (rule assms(3) [OF _ Finish])
        with False show ?thesis unfolding Finish by simp
      qed
    qed (simp_all only: advance.case keeps_then [OF call] keeps_then [OF keeps_return])
  qed
qed

lemma keeps_honest_msg_loop:
  assumes "alone_on (pl_gid p) env" "joins env"
    and "\<And>rows tr s. read_rows p g rows tr \<Longrightarrow>
      msg_fanout_advance status (map (\<lambda>b. case mb_step b of None \<Rightarrow> 0 | Some i \<Rightarrow> i) branches)
        (msg_states rows branches) = Finish s \<Longrightarrow>
      status \<noteq> s \<Longrightarrow> s = pl_goal p \<Longrightarrow> paid p tr"
  shows "keeps (honest p) (msg_loop fuel env d g branches status)"
proof (induction fuel)
  case 0
  then show ?case by (simp add: keeps_return)
next
  case (Suc fuel)
  show ?case
    unfolding msg_loop.simps Let_def
  proof (rule honest_look [OF assms(1)])
    fix rows
    let ?adv = "msg_fanout_advance status (map (\<lambda>b. case mb_step b of None \<Rightarrow> 0 | Some i \<Rightarrow> i) branches)
        (msg_states rows branches)"
    have call: "keeps (honest p) (State_Monad.bind (call_group env d g bs)
        (\<lambda>go_on. if go_on then msg_loop fuel env d g branches status else ret Done))" for bs
      by (intro keeps_intro keeps_honest_call_group assms(1,2) Suc)
    show "triple (\<lambda>w. honest p w \<and> read_rows p g rows (w_trace w))
      (case ?adv of
         Call i op \<Rightarrow> State_Monad.bind (call_group env d g [branches ! i])
           (\<lambda>go_on. if go_on then msg_loop fuel env d g branches status else ret Done)
       | Finish s \<Rightarrow> State_Monad.bind (drv_transition env g status s []) (\<lambda>_. ret Done)
       | Wait \<Rightarrow> ret Done | RunWorkflow \<Rightarrow> ret Done
       | CallEach is op \<Rightarrow> State_Monad.bind (call_group env d g (map ((!) branches) is))
           (\<lambda>go_on. if go_on then msg_loop fuel env d g branches status else ret Done)) (\<lambda>_. honest p)"
    proof (cases ?adv)
      case (Finish s)
      show ?thesis
        unfolding Finish advance.case
        by (rule honest_finish [OF assms(1) _ keeps_return]) (rule assms(3) [OF _ Finish])
    qed (simp_all only: advance.case keeps_then [OF call] keeps_then [OF keeps_return])
  qed
qed

lemma keeps_honest_workflow_loop:
  assumes "alone_on (pl_gid p) env" "pl_goal p \<noteq> GAborting" "pl_goal p = GSucceed \<Longrightarrow> pl_owed p = {}"
    and "\<And>rows tr status s. read_rows p g rows tr \<Longrightarrow>
      workflow_advance status (compensate_states rows) = Finish s \<Longrightarrow>
      status \<noteq> s \<Longrightarrow> s = pl_goal p \<Longrightarrow> paid p tr"
  shows "keeps (honest p) (workflow_loop fuel env d g name input status)"
proof (induction fuel arbitrary: status)
  case 0
  then show ?case by (simp add: keeps_return)
next
  case (Suc fuel)
  have fin: "keeps (honest p) (drv_transition env g status GSucceed r)" for r status
    using honest_transition [OF assms(1), of status GSucceed g r] assms(3)
    by (auto simp: keeps_def triple_def paid_def)
  have run: "keeps (honest p) (workflow_run env d g name input rows status)" for rows
    unfolding workflow_run_def
    by (intro keeps_intro fin keeps_honest_run_wf keeps_honest_retry keeps_honest_transition assms(1))
      (use assms(2) in auto)
  show ?case
    unfolding workflow_loop.simps
  proof (rule honest_look [OF assms(1)])
    fix rows
    let ?adv = "workflow_advance status (compensate_states rows)"
    have call: "keeps (honest p) (State_Monad.bind (workflow_call env d g rows i op)
        (\<lambda>go_on. if go_on then workflow_loop fuel env d g name input status else ret Done))" for i op
      by (intro keeps_intro keeps_honest_workflow_call assms(1) Suc)
    have again: "keeps (honest p) (State_Monad.bind (workflow_run env d g name input rows status)
        (\<lambda>next. case next of None \<Rightarrow> ret Done | Some s \<Rightarrow> workflow_loop fuel env d g name input s))"
      by (intro keeps_intro run Suc)
    show "triple (\<lambda>w. honest p w \<and> read_rows p g rows (w_trace w))
      (case ?adv of
         Call i op \<Rightarrow> State_Monad.bind (workflow_call env d g rows i op)
           (\<lambda>go_on. if go_on then workflow_loop fuel env d g name input status else ret Done)
       | Finish s \<Rightarrow> State_Monad.bind (drv_transition env g status s []) (\<lambda>_. ret Done)
       | Wait \<Rightarrow> ret Done
       | RunWorkflow \<Rightarrow> State_Monad.bind (workflow_run env d g name input rows status)
           (\<lambda>next. case next of None \<Rightarrow> ret Done | Some s \<Rightarrow> workflow_loop fuel env d g name input s)
       | CallEach is op \<Rightarrow> ret Done) (\<lambda>_. honest p)"
    proof (cases ?adv)
      case (Finish s)
      show ?thesis
        unfolding Finish advance.case
        by (rule honest_finish [OF assms(1) _ keeps_return]) (rule assms(4) [OF _ Finish])
    qed (simp_all only: advance.case keeps_then [OF call] keeps_then [OF again] keeps_then [OF keeps_return])
  qed
qed

section \<open>What is owed\<close>

definition owed_rows :: "string \<Rightarrow> branch_op \<Rightarrow> branch_row list \<Rightarrow> (string \<times> branch_op set) set" where
  "owed_rows gid op rows =
     (\<lambda>b. (b_branch_id b, {op})) `
       {b \<in> set rows. b_gid b = gid \<and> b_op b = op \<and> index_of (b_branch_id b) \<noteq> None}"

text \<open>
  The successes without which a transaction must not end with a status: those of every confirm or
  cancel (commit or rollback), of every action of a saga or a message that succeeds, and of every
  compensation a workflow had registered when the round began. (A saga that fails may have heard a
  refusal from a compensation.)
\<close>

definition owed :: "driver \<Rightarrow> global_row \<Rightarrow> global_status \<Rightarrow> branch_row list \<Rightarrow> (string \<times> branch_op set) set" where
  "owed d g t rows =
     (case g_trans_type g of
        Saga \<Rightarrow>
          if t = GSucceed
          then (\<lambda>i. (branch_id i, {Action, Try})) ` {..<length (or_default (js_steps (dr_json d) (g_payload g)))}
          else {}
      | Tcc \<Rightarrow> owed_rows (g_gid g) (if t = GSucceed then Confirm else Cancel) rows
      | Xa \<Rightarrow> owed_rows (g_gid g) (if t = GSucceed then Commit else Rollback) rows
      | Msg \<Rightarrow>
          if t = GSucceed
          then (\<lambda>b. (mb_branch_id b, {Action})) `
            set (fill_defaults (or_default (js_branches (dr_json d) (g_payload g))))
          else {}
      | Workflow \<Rightarrow> if t = GSucceed then {} else owed_rows (g_gid g) Compensate rows)"

lemma fill_source:
  assumes "i < length v" "fill sel rows v ! i \<noteq> v ! i \<or> (\<exists>r\<in>set rows. sel r = Some i)"
  shows "\<exists>r\<in>set rows. sel r = Some i \<and> b_status r = fill sel rows v ! i"
  using assms
proof (induction rows arbitrary: v)
  case (Cons q rows)
  let ?v = "case sel q of None \<Rightarrow> v | Some i \<Rightarrow> v[i := b_status q]"
  have len: "i < length ?v" using Cons.prems(1) by (simp split: option.split)
  show ?case
  proof (cases "fill sel rows ?v ! i \<noteq> ?v ! i \<or> (\<exists>r\<in>set rows. sel r = Some i)")
    case True
    from Cons.IH [OF len this] show ?thesis by auto
  next
    case False
    with Cons.prems show ?thesis by (cases "sel q = Some i") (auto split: option.splits)
  qed
qed simp

lemma known_slot:
  assumes "read_rows p g rows tr" "g_gid g = pl_gid p" "i < n"
    and "fill (slot n ops) rows (replicate n x) ! i = BSucceed"
    and "x \<noteq> BSucceed \<or> (\<exists>r\<in>set rows. slot n ops r = Some i)"
  shows "\<exists>op\<in>ops. (branch_id i, op) \<in> known p tr"
proof -
  obtain r where r: "r \<in> set rows" "slot n ops r = Some i" "b_status r = BSucceed"
    using fill_source [of i "replicate n x" "slot n ops" rows] assms(3-5) by auto
  then have op: "index_of (b_branch_id r) = Some i" "b_op r \<in> ops"
    by (auto simp: slot_def split: option.splits if_splits)
  with r assms(1,2) have "b_branch_id r = branch_id i" "(b_branch_id r, b_op r) \<in> known p tr"
    unfolding read_rows_def by blast+
  with op(2) show ?thesis by auto
qed

lemma owed_slot:
  assumes "read_rows p g rows tr" "g_gid g = pl_gid p" "x \<in> owed_rows (pl_gid p) op (pl_rows p)"
  obtains i r where "x = (branch_id i, {op})" "r \<in> set rows" "b_op r = op"
    "index_of (b_branch_id r) = Some i" "b_branch_id r = branch_id i"
proof -
  from assms(3) obtain q i where q: "q \<in> set (pl_rows p)" "b_gid q = pl_gid p" "b_op q = op"
    "index_of (b_branch_id q) = Some i" "x = (b_branch_id q, {op})"
    by (auto simp: owed_rows_def)
  with assms(1,2) obtain r where r: "r \<in> set rows" "b_branch_id r = b_branch_id q" "b_op r = op"
    unfolding read_rows_def by blast
  with q(4) have i: "index_of (b_branch_id r) = Some i" by simp
  with r(1) assms(1,2) have "b_branch_id r = branch_id i" unfolding read_rows_def by blast
  with r i q(5) show ?thesis by (intro that [of i r]) simp_all
qed

lemma two_phase_paid:
  assumes "read_rows p g rows tr" "read_rows p g rows' tr'"
    and "(if fwd = Commit then xa_advance else tcc_advance) (g_status g)
      (fst (split_by_op rows (index_bound rows') fwd bwd))
      (snd (split_by_op rows (index_bound rows') fwd bwd)) = Finish s"
    and "g_status g \<noteq> s" "s = pl_goal p" "fwd \<noteq> bwd"
    and "pl_owed p = {} \<or> g_gid g = pl_gid p \<and>
      pl_owed p = owed_rows (pl_gid p) (if pl_goal p = GSucceed then fwd else bwd) (pl_rows p)"
  shows "paid p tr"
proof (cases "pl_owed p = {}")
  case True
  then show ?thesis by (simp add: paid_def)
next
  case False
  let ?op = "if pl_goal p = GSucceed then fwd else bwd" and ?n = "index_bound rows'"
  from False assms(7) have gid: "g_gid g = pl_gid p"
    and owed: "pl_owed p = owed_rows (pl_gid p) ?op (pl_rows p)" by auto
  have "g_status g = GSubmitted \<and> s = GSucceed \<and>
        (\<forall>x\<in>set (fill (slot ?n {fwd}) rows (replicate ?n BPrepared)). x = BSucceed) \<or>
      g_status g = GAborting \<and> s = GFailed \<and>
        (\<forall>x\<in>set (fill (slot ?n {bwd}) rows (replicate ?n BPrepared)). x = BSucceed)"
    using assms(3,4) unfolding split_by_op_fill [OF assms(6)]
    by (cases "g_status g"; cases "fwd = Commit")
      (auto simp: scan_up_None_iff scan_down_all_None_iff [unfolded length_fill] pending_def
        scan_down_None_iff all_set_conv_all_nth split: option.splits)
  then have all: "fill (slot ?n {?op}) rows (replicate ?n BPrepared) ! i = BSucceed" if "i < ?n" for i
    using that assms(5) by (auto simp: all_set_conv_all_nth)
  show ?thesis
    unfolding paid_def owed
  proof
    fix x assume x: "x \<in> owed_rows (pl_gid p) ?op (pl_rows p)"
    from assms(2) gid x obtain i r where r: "x = (branch_id i, {?op})" "r \<in> set rows'"
      "index_of (b_branch_id r) = Some i"
      by (rule owed_slot)
    then have i: "i < ?n" using index_bound_gt by simp
    from known_slot [OF assms(1) gid this all [OF this]] r(1)
    show "\<exists>op\<in>snd x. (fst x, op) \<in> known p tr" by simp
  qed
qed

section \<open>Rounds\<close>

definition debts :: "pledge \<Rightarrow> driver \<Rightarrow> global_row \<Rightarrow> bool" where
  "debts p d g \<longleftrightarrow>
     (pl_goal p = GSucceed \<or> pl_goal p = GFailed) \<and>
     (pl_owed p = {} \<or> g_gid g = pl_gid p \<and> pl_owed p = owed d g (pl_goal p) (pl_rows p))"

lemma paid_empty: "pl_owed p = {} \<Longrightarrow> paid p tr"
  by (simp add: paid_def)

lemma keeps_honest_two_phase:
  assumes "alone_on (pl_gid p) env" "debts p d g"
    and "g_trans_type g = Tcc \<and> fwd = Confirm \<and> bwd = Cancel \<or>
      g_trans_type g = Xa \<and> fwd = Commit \<and> bwd = Rollback"
    and "g_gid g' = g_gid g"
  shows "keeps (honest p) (drive_two_phase fuel env d g' fwd bwd)"
proof (rule keeps_honest_drive_two_phase [OF assms(1)])
  have owed: "pl_owed p = {} \<or> g_gid g' = pl_gid p \<and>
      pl_owed p = owed_rows (pl_gid p) (if pl_goal p = GSucceed then fwd else bwd) (pl_rows p)"
  proof -
    have "owed d g (pl_goal p) rows =
        owed_rows (g_gid g) (if pl_goal p = GSucceed then fwd else bwd) rows" for rows
      using assms(3) by (elim disjE conjE) (simp_all add: owed_def)
    with assms(2) show ?thesis unfolding debts_def assms(4) by metis
  qed
  show "paid p tr"
    if "read_rows p g' rows tr" "read_rows p g' rows' tr'"
      "(if fwd = Commit then xa_advance else tcc_advance) (g_status g')
        (fst (split_by_op rows (index_bound rows') fwd bwd))
        (snd (split_by_op rows (index_bound rows') fwd bwd)) = Finish s"
      "g_status g' \<noteq> s" "s = pl_goal p" for rows tr rows' tr' s
    by (rule two_phase_paid [OF that _ owed]) (use assms(3) in auto)
  show "paid p tr" if "read_rows p g' [] tr" for tr
    using owed
  proof
    assume o: "g_gid g' = pl_gid p \<and>
      pl_owed p = owed_rows (pl_gid p) (if pl_goal p = GSucceed then fwd else bwd) (pl_rows p)"
    have "x \<notin> pl_owed p" for x
    proof
      assume "x \<in> pl_owed p"
      with o have "x \<in> owed_rows (pl_gid p) (if pl_goal p = GSucceed then fwd else bwd) (pl_rows p)"
        by simp
      with that o show False by (elim owed_slot) simp_all
    qed
    then show ?thesis by (auto simp: paid_def)
  qed (rule paid_empty)
qed

lemma saga_paid:
  assumes "read_rows p g rows tr" "debts p d g" "g_trans_type g = Saga"
    and "saga_advance status
      (fst (branch_states rows (length (or_default (js_steps (dr_json d) (g_payload g))))))
      (snd (branch_states rows (length (or_default (js_steps (dr_json d) (g_payload g)))))) = Finish s"
    and "status \<noteq> s" "s = pl_goal p"
  shows "paid p tr"
proof (cases "pl_owed p = {}")
  case False
  let ?n = "length (or_default (js_steps (dr_json d) (g_payload g)))"
  from False assms(2,3) have gid: "g_gid g = pl_gid p" and goal: "pl_goal p = GSucceed"
    and owed: "pl_owed p = (\<lambda>i. (branch_id i, {Action, Try})) ` {..<?n}"
    by (auto simp: debts_def owed_def split: if_splits)
  have "\<forall>x\<in>set (fill (slot ?n {Action, Try}) rows (replicate ?n BPrepared)). x = BSucceed"
    using assms(4-6) goal
    by (cases status)
      (auto simp: branch_states_fill saga_forward_offset scan_up_None_iff pending_def
        split: option.splits if_splits)
  then have "fill (slot ?n {Action, Try}) rows (replicate ?n BPrepared) ! i = BSucceed" if "i < ?n" for i
    using that by (auto simp: all_set_conv_all_nth)
  then have "\<exists>op\<in>{Action, Try}. (branch_id i, op) \<in> known p tr" if "i < ?n" for i
    using known_slot [OF assms(1) gid that] that by blast
  then show ?thesis by (auto simp: paid_def owed)
qed (rule paid_empty)

lemma keeps_honest_saga:
  assumes "alone_on (pl_gid p) env" "debts p d g" "g_trans_type g = Saga"
  shows "keeps (honest p) (process_saga fuel env d g)"
proof -
  have "keeps (honest p) (drv_transition env g (g_status g) GSucceed [])"
    if "or_default (js_steps (dr_json d) (g_payload g)) = []"
    using honest_transition [OF assms(1), of "g_status g" GSucceed g "[]"] that assms(2,3)
    by (auto simp: keeps_def triple_def debts_def owed_def paid_def)
  moreover have "pl_goal p \<noteq> GAborting" using assms(2) by (auto simp: debts_def)
  then have "keeps (honest p)
      (saga_loop fuel env d g (or_default (js_steps (dr_json d) (g_payload g))) (g_status g))"
    by (rule keeps_honest_saga_loop [OF assms(1)]) (rule saga_paid [OF _ assms(2,3)])
  ultimately show ?thesis
    unfolding process_saga_def Let_def by (auto intro!: keeps_intro)
qed

lemma msg_fanout_done:
  "msg_fanout_advance st steps states = Finish GSucceed \<Longrightarrow> st \<noteq> GSucceed \<Longrightarrow>
   \<forall>x\<in>set states. x = BSucceed"
  by (cases st) (auto simp: scan_up_None_iff pending_def Let_def split: option.splits)

lemma msg_states_done:
  assumes "\<forall>x\<in>set (msg_states rows bs). x = BSucceed" "b \<in> set bs"
  obtains r where "r \<in> set rows" "b_op r = Action" "b_status r = BSucceed" "b_branch_id r = mb_branch_id b"
proof -
  have "(if \<exists>r\<in>set rows. b_op r = Action \<and> b_status r = BSucceed \<and> b_branch_id r = mb_branch_id b
      then BSucceed else BPrepared) \<in> set (msg_states rows bs)"
    unfolding msg_states_def set_map by (rule image_eqI [where x = b, OF refl assms(2)])
  with assms(1) show ?thesis by (auto intro: that split: if_splits)
qed

lemma msg_paid:
  assumes "read_rows p g rows tr" "debts p d g" "g_trans_type g = Msg"
    and "msg_fanout_advance status steps
      (msg_states rows (fill_defaults (or_default (js_branches (dr_json d) (g_payload g))))) = Finish s"
    and "status \<noteq> s" "s = pl_goal p"
  shows "paid p tr"
proof (cases "pl_owed p = {}")
  case False
  let ?bs = "fill_defaults (or_default (js_branches (dr_json d) (g_payload g)))"
  from False assms(2,3) have gid: "g_gid g = pl_gid p" and goal: "pl_goal p = GSucceed"
    and owed: "pl_owed p = (\<lambda>b. (mb_branch_id b, {Action})) ` set ?bs"
    by (auto simp: debts_def owed_def split: if_splits)
  have all: "\<forall>x\<in>set (msg_states rows ?bs). x = BSucceed"
    using msg_fanout_done assms(4-6) goal by metis
  have "(mb_branch_id b, Action) \<in> known p tr" if b: "b \<in> set ?bs" for b
  proof -
    from all b obtain r where r: "r \<in> set rows" "b_op r = Action" "b_status r = BSucceed"
      "b_branch_id r = mb_branch_id b" by (rule msg_states_done)
    with assms(1) gid have "(b_branch_id r, b_op r) \<in> known p tr" unfolding read_rows_def by blast
    with r show ?thesis by simp
  qed
  then show ?thesis by (auto simp: paid_def owed)
qed (rule paid_empty)

lemma keeps_honest_msg:
  assumes "alone_on (pl_gid p) env" "joins env" "debts p d g" "g_trans_type g = Msg"
  shows "keeps (honest p) (process_msg fuel env d g)"
proof -
  have fin: "keeps (honest p) (drv_transition env g st GSucceed [])"
    if "fill_defaults (or_default (js_branches (dr_json d) (g_payload g))) = []" for st
    using honest_transition [OF assms(1), of st GSucceed g "[]"] that assms(3,4)
    by (auto simp: keeps_def triple_def debts_def owed_def paid_def)
  have refused: "keeps (honest p) (drv_transition env g st GFailed r)" for st r
    using honest_transition [OF assms(1), of st GFailed g r] assms(3,4)
    by (auto simp: keeps_def triple_def debts_def owed_def paid_def)
  have sent: "keeps (honest p) (drv_transition env g st GSubmitted [])" for st
    using assms(3) by (intro keeps_honest_transition assms(1)) (auto simp: debts_def)
  have send: "keeps (honest p) (send_msg fuel env d g st)" for st
    unfolding send_msg_def Let_def
    by (intro keeps_intro fin keeps_honest_msg_loop assms(1,2)) (assumption, rule msg_paid [OF _ assms(3,4)])
  have "keeps (honest p) (query_back env d g)"
    unfolding query_back_def
    by (intro keeps_intro keeps_honest_retry sent refused assms(1) honest_call keeps_then)
  with send show ?thesis unfolding process_msg_def by (intro keeps_intro)
qed

lemma workflow_paid:
  assumes "read_rows p g rows tr" "debts p d g" "g_trans_type g = Workflow"
    and "workflow_advance status (compensate_states rows) = Finish s"
    and "status \<noteq> s" "s = pl_goal p"
  shows "paid p tr"
proof (cases "pl_owed p = {}")
  case False
  let ?n = "index_bound (filter (\<lambda>r. b_op r = Compensate) rows)"
  from False assms(2,3) have gid: "g_gid g = pl_gid p" and goal: "pl_goal p = GFailed"
    and owed: "pl_owed p = owed_rows (pl_gid p) Compensate (pl_rows p)"
    by (auto simp: debts_def owed_def split: if_splits)
  have "\<forall>x\<in>set (compensate_states rows). x = BSucceed"
    using assms(4-6) goal
    by (cases status) (auto simp: scan_down_all_None_iff pending_def split: option.splits)
  then have all: "fill (slot ?n {Compensate}) rows (replicate ?n BSucceed) ! i = BSucceed" if "i < ?n" for i
    using that by (auto simp: compensate_states_fill all_set_conv_all_nth)
  show ?thesis
    unfolding paid_def owed
  proof
    fix x assume "x \<in> owed_rows (pl_gid p) Compensate (pl_rows p)"
    with assms(1) gid obtain i r where r: "x = (branch_id i, {Compensate})" "r \<in> set rows"
      "b_op r = Compensate" "index_of (b_branch_id r) = Some i"
      by (rule owed_slot)
    then have i: "i < ?n" using index_bound_gt [of r "filter (\<lambda>r. b_op r = Compensate) rows"] by simp
    with r have "slot ?n {Compensate} r = Some i" by (simp add: slot_def)
    with known_slot [OF assms(1) gid i all [OF i]] r(1,2)
    show "\<exists>op\<in>snd x. (fst x, op) \<in> known p tr" by auto
  qed
qed (rule paid_empty)

lemma keeps_honest_workflow:
  assumes "alone_on (pl_gid p) env" "debts p d g" "g_trans_type g = Workflow"
  shows "keeps (honest p) (process_workflow fuel env d g)"
proof -
  have "pl_goal p \<noteq> GAborting" "pl_goal p = GSucceed \<Longrightarrow> pl_owed p = {}"
    using assms(2,3) by (auto simp: debts_def owed_def)
  then have "keeps (honest p) (workflow_loop fuel env d g name input status)" for name input status
    by (rule keeps_honest_workflow_loop [OF assms(1)]) (assumption, rule workflow_paid [OF _ assms(2,3)])
  then show ?thesis by (simp add: process_workflow_def split_beta)
qed

lemma keeps_honest_prepared:
  assumes "alone_on (pl_gid p) env" "debts p d g" "g_trans_type g = Tcc \<or> g_trans_type g = Xa"
  shows "keeps (honest p) (process_prepared fuel env d g GAborting)"
proof -
  have sub: "keeps (honest p) (drive_two_phase fuel env d (g\<lparr>g_status := GAborting,
      g_rollback_reason := r\<rparr>) fwd bwd)"
    if "g_trans_type g = Tcc \<and> fwd = Confirm \<and> bwd = Cancel \<or>
      g_trans_type g = Xa \<and> fwd = Commit \<and> bwd = Rollback" for r fwd bwd
    by (rule keeps_honest_two_phase [OF assms(1,2) that]) simp
  have "keeps (honest p) (drv_transition env g st GAborting r)" for st r
    using assms(2) by (intro keeps_honest_transition assms(1)) (auto simp: debts_def)
  then show ?thesis
    unfolding process_prepared_def Let_def process_xa_def process_tcc_def
    using assms(1,3) by (auto intro!: honest_rules sub)
qed

lemma keeps_honest_process:
  assumes "alone_on (pl_gid p) env" "joins env" "debts p d g"
  shows "keeps (honest p) (process fuel env d g)"
proof (cases "prepared_timeout_to (g_status g) (g_trans_type g)")
  case (Some to_st)
  then have "to_st = GAborting" "g_trans_type g = Tcc \<or> g_trans_type g = Xa"
    by (auto simp: prepared_timeout_to_def split: if_splits)
  with Some keeps_honest_prepared [OF assms(1,3), of fuel] show ?thesis by (simp add: process_def)
next
  case None
  then show ?thesis
    using keeps_honest_saga [OF assms(1,3), of fuel] keeps_honest_msg [OF assms, of fuel]
      keeps_honest_workflow [OF assms(1,3), of fuel]
      keeps_honest_two_phase [OF assms(1,3) _ refl, of Confirm Cancel fuel]
      keeps_honest_two_phase [OF assms(1,3) _ refl, of Commit Rollback fuel]
    by (cases "g_trans_type g") (simp_all add: process_def process_tcc_def process_xa_def)
qed

lemma keeps_honest_worker_loop:
  assumes "alone_on (pl_gid p) env" "joins env" "pl_goal p = GSucceed" "pl_owed p = {}"
  shows "keeps (honest p) (worker_loop rounds fuel env d)"
proof (induction rounds)
  case (Suc rounds)
  have "debts p d g" for g using assms(3,4) by (simp add: debts_def)
  with Suc show ?case
    by (auto intro!: keeps_intro keeps_honest_access keeps_honest_process assms(1,2))
qed (simp add: keeps_return)

section \<open>Properties\<close>


text \<open>
  C3. A transaction is ended only with the answers it takes: when a round writes succeeded or
  failed, every branch that status owes a success, with a confirm or cancel, a commit or rollback,
  an action or a compensation, had been recorded as succeeded before the round or has answered
  success in it. This holds whatever the branches answer and in whatever order the answers of a
  group are recorded.
\<close>

theorem ended_means_confirmed:
  assumes "alone_on (g_gid g) env" "joins env" "clear_numbers (g_gid g) (w_store w)" "w_trace w = []"
    and "w' = snd (run_state (process fuel env d g) w)"
    and "Status f t ok \<in> set (w_trace w')" "t = GSucceed \<or> t = GFailed"
    and "(bid, ops) \<in> owed d g t (st_branch (w_store w))"
  shows "\<exists>op\<in>ops. (bid, op) \<in> acked (g_gid g) (w_store w) \<or>
    (\<exists>c. Called c Success \<in> set (w_trace w') \<and> c_gid c = g_gid g \<and>
      c_branch_id c = bid \<and> c_op c = op)"
proof -
  let ?p = "\<lparr>pl_gid = g_gid g, pl_known = acked (g_gid g) (w_store w), pl_rows = st_branch (w_store w),
    pl_goal = t, pl_owed = owed d g t (st_branch (w_store w))\<rparr>"
  have "honest ?p w"
    using assms(3,4) by (simp add: honest_def honest_in_def known_def)
  moreover have "keeps (honest ?p) (process fuel env d g)"
    by (rule keeps_honest_process) (use assms(1,2,7) in \<open>simp_all add: debts_def\<close>)
  ultimately have "honest ?p w'" using keepsD assms(5) by blast
  with assms(6) have "paid ?p (w_trace w')" by (auto simp: honest_def honest_in_def)
  with assms(8) obtain op where "op \<in> ops" "(bid, op) \<in> known ?p (w_trace w')"
    unfolding paid_def by fastforce
  then have "(bid, op) \<in> acked (g_gid g) (w_store w) \<or> (bid, op) \<in> agreed (g_gid g) (w_trace w')"
    by (auto simp: known_def)
  with \<open>op \<in> ops\<close> show ?thesis unfolding agreed_def by blast
qed

text \<open>A coordinator whose branches all answer success.\<close>

definition willing :: environment where
  "willing = quiet\<lparr>e_http := \<lambda>n c. Some (200, [])\<rparr>"

lemma willing_alone: "alone_on gid willing" "joins willing"
  by (simp_all add: alone_on_def joins_def willing_def)

definition tcc_round :: "outcome \<times> world" where
  "tcc_round = run_state (process 3 willing (demo_driver [] [])
     (global_init 7 ''g'' Tcc GSubmitted ''[]'')) (world_of tcc_demo)"

lemma ended_means_confirmed_witness:
  "Status GSubmitted GSucceed True \<in> set (w_trace (snd tcc_round)) \<and>
   (\<exists>op\<in>{Confirm}. (''01'', op) \<in> acked ''g'' tcc_demo \<or>
     (\<exists>c. Called c Success \<in> set (w_trace (snd tcc_round)) \<and> c_gid c = ''g'' \<and>
        c_branch_id c = ''01'' \<and> c_op c = op))"
  (is "?s \<and> ?c")
proof
  let ?g = "global_init 7 ''g'' Tcc GSubmitted ''[]''"
  show s: ?s by code_simp
  have rows: "st_branch tcc_demo = map (\<lambda>(op, u). \<lparr>b_gid = ''g'', b_branch_id = ''01'', b_op = op,
      b_url = u, b_payload = [], b_status = BPrepared, b_create_time = 7, b_update_time = 7,
      b_finish_time = None\<rparr>) [(Confirm, ''http://c''), (Cancel, ''http://x'')]" by code_simp
  have "index_of ''01'' = Some 0" "branch_id 0 = ''01''" by code_simp+
  note idx = this
  then have clear: "clear_numbers (g_gid ?g) (w_store (world_of tcc_demo))"
    by (auto simp: clear_numbers_def rows)
  have o: "(''01'', {Confirm}) \<in> owed (demo_driver [] []) ?g GSucceed (st_branch (w_store (world_of tcc_demo)))"
    by (simp add: owed_def owed_rows_def global_init_def rows)
      (rule image_eqI [where x = "\<lparr>b_gid = ''g'', b_branch_id = ''01'', b_op = Confirm,
        b_url = ''http://c'', b_payload = [], b_status = BPrepared, b_create_time = 7,
        b_update_time = 7, b_finish_time = None\<rparr>"], simp_all add: idx)
  have gid: "g_gid ?g = ''g''" by (simp add: global_init_def)
  from ended_means_confirmed [OF willing_alone clear world_of_simps(3) refl
      s [unfolded tcc_round_def] disjI1 [OF refl] o]
  show ?c by (simp only: tcc_round_def gid world_of_simps)
qed

definition tcc_turn :: world where
  "tcc_turn = snd (run_state (worker_loop 1 3 willing (demo_driver [] [])) (world_of tcc_demo))"


end
