(* ===== verification/Gid.thy ===== *)
theory Gid
  imports Api Driver "HOL-Library.Word"
begin

text \<open>
  The numbers the API hands out (\<open>new_gid\<close>, \<^verbatim>\<open>crates/dtmrs-server/src/api.rs\<close>): the seconds of the
  clock and a counter of the process. Within a process they differ; two instances can draw the
  same one, and then the second client is told that its transaction was accepted although nothing
  of it is stored.
\<close>

section \<open>Drawing numbers\<close>

text \<open>\<open>SEQ\<close> is one counter of the process; \<open>fetch_add\<close> returns the old value and wraps.\<close>

definition new_gid :: "int \<Rightarrow> 64 word \<Rightarrow> string \<times> 64 word" where
  "new_gid t seq = (dec_int t @ ''-'' @ dec (unat seq), seq + 1)"

text \<open>The numbers drawn one after the other, at the given times.\<close>

fun draws :: "int list \<Rightarrow> 64 word \<Rightarrow> string list" where
  "draws [] seq = []"
| "draws (t # ts) seq = (case new_gid t seq of (gid, seq') \<Rightarrow> gid # draws ts seq')"

lemma new_gid_counter:
  assumes "fst (new_gid t m) = fst (new_gid u n)" shows "m = n"
proof -
  have suffix: "takeWhile (\<lambda>c. c \<noteq> CHR ''-'') (rev (fst (new_gid t m))) = rev (dec (unat m))" for t m
  proof -
    have "\<forall>c\<in>set (rev (dec (unat m))). c \<noteq> CHR ''-''"
      using dec_digits [of "CHR ''-''" "unat m"] by (auto simp: is_digit_def)
    then have "takeWhile (\<lambda>c. c \<noteq> CHR ''-'') (rev (dec (unat m)) @ CHR ''-'' # rev (dec_int t)) =
        rev (dec (unat m))"
      by (subst takeWhile_append2) auto
    then show ?thesis by (simp add: new_gid_def)
  qed
  from assms suffix [of t m] suffix [of u n] have "dec (unat m) = dec (unat n)"
    by (metis rev_rev_ident)
  then have "unat m = unat n" by (rule dec_inj)
  then show ?thesis by (simp add: word_unat_eq_iff)
qed

lemma draws_counters:
  assumes "gid \<in> set (draws ts seq)"
  shows "\<exists>k<length ts. \<exists>t. gid = fst (new_gid t (seq + of_nat k))"
  using assms
proof (induction ts arbitrary: seq)
  case (Cons t ts)
  show ?case
  proof (cases "gid = fst (new_gid t seq)")
    case True
    then show ?thesis by (intro exI [of _ 0]) auto
  next
    case False
    with Cons.prems have "gid \<in> set (draws ts (seq + 1))" by (simp add: new_gid_def)
    from Cons.IH [OF this] obtain k t' where "k < length ts" "gid = fst (new_gid t' (seq + 1 + of_nat k))"
      by blast
    then show ?thesis by (intro exI [of _ "Suc k"]) (auto simp: algebra_simps)
  qed
qed simp

theorem drawn_gids_differ:
  assumes "length ts \<le> 2 ^ 64" shows "distinct (draws ts seq)"
  using assms
proof (induction ts arbitrary: seq)
  case (Cons t ts)
  have "fst (new_gid t seq) \<notin> set (draws ts (seq + 1))"
  proof
    assume "fst (new_gid t seq) \<in> set (draws ts (seq + 1))"
    from draws_counters [OF this] obtain k t' where k: "k < length ts"
      and "fst (new_gid t seq) = fst (new_gid t' (seq + 1 + of_nat k))" by blast
    from new_gid_counter [OF this(2)] have "of_nat (Suc k) = (0 :: 64 word)"
      by (simp add: algebra_simps)
    then have "2 ^ 64 dvd Suc k"
      by (simp only: of_nat_eq_0_iff word_of_nat_eq_0_iff) simp
    with k Cons.prems show False by (auto dest: dvd_imp_le)
  qed
  with Cons show ?case by (simp add: new_gid_def)
qed simp

section \<open>One number for two\<close>

lemma instances_draw_alike: "new_gid t seq = new_gid t seq' \<longleftrightarrow> seq = seq'"
  using new_gid_counter [of t seq t seq'] by auto

text \<open>A saga submitted under a number that is taken is accepted, and its steps are nowhere.\<close>

lemma create_taken:
  assumes "get_global (g_gid g) s \<noteq> None"
  shows "snd (create_global g bs s) = s" "fst (create_global g bs s) \<noteq> Inr True"
proof -
  obtain r s' where c: "create_global g bs s = (r, s')" by fastforce
  have "s' = s \<and> r \<noteq> Inr True"
  proof (cases r)
    case (Inl e)
    with c create_global_error [of g bs s e s'] show ?thesis by simp
  next
    case (Inr b)
    with c assms create_global_existing [of g bs s s'] create_global_True(1) [of g bs s s']
    show ?thesis by (cases b) auto
  qed
  with c show "snd (create_global g bs s) = s" "fst (create_global g bs s) \<noteq> Inr True" by simp_all
qed

lemma saga_under_a_taken_gid:
  assumes "e_others env = (\<lambda>n s. s)" "get_global gid (w_store w) \<noteq> None"
  shows "st_branch (w_store (snd (run_state (submit_saga env a gid steps) w))) = st_branch (w_store w)"
proof -
  have gid: "g_gid (fst (saga_rows (ap_json a) t gid steps)) = gid" for t
    by (simp add: saga_rows_def global_init_def split_beta Let_def)
  have taken: "snd (create_global g bs (w_store w)) = w_store w"
    "fst (create_global g bs (w_store w)) \<noteq> Inr True" if "g_gid g = gid" for g bs
    using create_taken [of g "w_store w" bs] assms(2) that by simp_all
  note upd = submit_update_def
  show ?thesis
    using taken [of "fst (saga_rows (ap_json a) (st_clock (w_store w)) gid steps)"
        "snd (saga_rows (ap_json a) (st_clock (w_store w)) gid steps)"]
      taken [of "(fst (saga_rows (ap_json a) (st_clock (w_store w)) gid steps))\<lparr>g_owner := x,
          g_next_cron_time := y, g_lease_until := z\<rparr>"
        "snd (saga_rows (ap_json a) (st_clock (w_store w)) gid steps)" for x y z]
    by (auto simp: submit_saga_def claim_for_inline_def claim_and_submit_def drive_detached_def
        Let_def split_beta assms(1) gid split: sum.splits option.splits submit_outcome.splits)
qed

text \<open>
  Two instances that have handed out equally many numbers draw the same one in the same second:
  both sagas are accepted, and only the first one's branches are stored.
\<close>

definition two_clients :: "unit api_res \<times> world" where
  "two_clients =
     (let a = api_new (demo_json [] []) 35;
          w1 = snd (run_state (submit quiet a (fst (new_gid 7 0)) ''saga''
            [saga_step_new ''http://a'' ''http://a2'']) (world_of (empty_store 7)))
      in run_state (submit quiet a (fst (new_gid 7 0)) ''saga''
           [saga_step_new ''http://b'' ''http://b2'']) w1)"

lemma second_saga_is_lost:
  "fst two_clients = Inr () \<and>
   map b_url (st_branch (w_store (snd two_clients))) = [''http://a'', ''http://a2'']"
  by code_simp

end
