(* ===== verification/Retries.thy ===== *)
theory Retries
  imports Two_Phase_Run Round_Ends Driver_Trace
begin

text \<open>
  What the retries are for: however the branches of a transaction fail at first, once they answer
  success again a worker brings it to its end, and no later than the longest wait after that. Time
  passes between the turns of the worker. The locale \<open>retried\<close> says what a mode's round must do
  for this: end the transaction, or put it off for at most the longest wait because a branch
  failed.
\<close>

section \<open>Branches that have recovered\<close>

text \<open>From step \<open>n\<close> on every call is answered with success, whatever way it is made.\<close>

definition answers_from :: "nat \<Rightarrow> environment \<Rightarrow> bool" where
  "answers_from n env \<longleftrightarrow>
     (\<forall>k\<ge>n. (\<forall>c. \<exists>code body. e_http env k c = Some (code, body) \<and> from_http code body = Success) \<and>
        (\<forall>t c. \<exists>code. e_grpc env k t c = Some code \<and> from_grpc code = Success) \<and>
        (\<forall>name. \<exists>h. e_local env name = Some h \<and> (\<forall>c. h k c = Success)))"

lemma answers_from_later: "answers_from n env \<Longrightarrow> n \<le> m \<Longrightarrow> answers_from m env"
  by (auto simp: answers_from_def)

lemma recovered_call:
  assumes "answers_from (w_step w) env"
  shows "fst (run_state (call_branch env g bid op url p) w) = Success"
proof -
  have http: "\<exists>code body. e_http env (w_step w) c = Some (code, body) \<and> from_http code body = Success"
    and grpc: "\<exists>code. e_grpc env (w_step w) t c = Some code \<and> from_grpc code = Success"
    and loc: "\<exists>h. e_local env name = Some h \<and> (\<forall>c. h (w_step w) c = Success)" for c t name
    using assms by (auto simp: answers_from_def)
  show ?thesis
  proof (cases "parse_target url")
    case (Local name)
    with loc [of name] show ?thesis by (auto simp: call_branch_def call_local_def registry_get_def)
  next
    case (Http u)
    obtain code body where "e_http env (w_step w) (mk_call g bid op u (branch_payload p)) = Some (code, body)"
      "from_http code body = Success" using http by blast
    with Http show ?thesis by (simp add: call_branch_def call_http_def)
  next
    case (Grpc t)
    obtain code where "e_grpc env (w_step w) t (mk_call g bid op url []) = Some code"
      "from_grpc code = Success" using grpc by blast
    with Grpc show ?thesis by (simp add: call_branch_def call_grpc_def)
  qed
qed

section \<open>One round\<close>

lemma call_branch_steps [simp]: "w_step w \<le> w_step (snd (run_state (call_branch env g bid op url p) w))"
  by (auto simp: call_branch_def call_local_def call_http_def call_grpc_def
      split: target.splits option.splits)

lemma retry_later_effect:
  assumes "e_others env = (\<lambda>n s. s)"
  shows "w_store (snd (run_state (retry_later env d g) w)) = release_lease (g_gid g) (g_lease_until g)
      (next_interval_with (g_next_cron_interval g) (dr_retry d)) (w_store w)"
    "w_step w < w_step (snd (run_state (retry_later env d g) w))"
  using assms by (auto simp: retry_later_def split_beta split: option.splits)

section \<open>Waits\<close>

definition waits :: "int \<Rightarrow> int \<Rightarrow> global_row \<Rightarrow> bool" where
  "waits t bound r \<longleftrightarrow> g_next_cron_time r \<le> t + bound \<and> g_lease_until r \<le> t + bound"

text \<open>A worker whose waits are at most \<open>bound\<close>.\<close>

definition waits_at_most :: "int \<Rightarrow> driver \<Rightarrow> bool" where
  "waits_at_most bound d \<longleftrightarrow>
     policy_ok (dr_retry d) \<and> rp_max (dr_retry d) \<le> bound \<and> 0 \<le> dr_lease d \<and> dr_lease d \<le> bound"

lemma wrap_le: "- 9223372036854775808 \<le> x \<Longrightarrow> wrap_i64 x \<le> x"
  unfolding wrap_i64_def using zmod_le_nonneg_dividend [of "x + 9223372036854775808" 18446744073709551616]
  by simp

lemma next_interval_bounds:
  assumes "policy_ok p"
  shows "next_interval_with cur p \<le> rp_max p" "- 9223372036854775808 \<le> next_interval_with cur p"
  using assms wrap_i64_range [of "cur * 2"]
  by (auto simp: next_interval_with_def policy_ok_def in_i64_def i64_min_def)

lemma waits_released:
  assumes "waits_at_most bound d" "0 \<le> t" "g_next_cron_time g = g_lease_until g"
  shows "waits t bound (released (next_interval_with cur (dr_retry d)) t g)"
proof -
  have "wrap_i64 (t + next_interval_with cur (dr_retry d)) \<le> t + next_interval_with cur (dr_retry d)"
    using next_interval_bounds(2) [of "dr_retry d" cur] assms(1,2) by (intro wrap_le) (simp add: waits_at_most_def)
  with next_interval_bounds(1) [of "dr_retry d" cur] assms show ?thesis
    by (auto simp: waits_def released_def waits_at_most_def)
qed

lemma waits_leased:
  assumes "waits_at_most bound d" "0 \<le> t"
  shows "waits t bound (take_lease owner t (dr_lease d) g)"
  using assms wrap_le [of "t + dr_lease d"] by (simp add: waits_def take_lease_def waits_at_most_def)

section \<open>Turns of a worker\<close>

abbreviation turn :: "nat \<Rightarrow> environment \<Rightarrow> driver \<Rightarrow> world \<Rightarrow> world" where
  "turn fuel env d w \<equiv> snd (run_state (worker_loop 1 fuel env d) w)"

lemma now_lock [simp]: "now (snd (lock_one_due owner l s)) = now s"
  by (auto simp: lock_one_due_def Let_def split_beta split: option.splits)

text \<open>A turn without work.\<close>

lemma idle_turn:
  assumes "e_others env = (\<lambda>n s. s)" "store_ok (w_store w)"
    and "fst (lock_one_due (dr_owner d) (dr_lease d) (w_store w)) = None"
  shows "turn fuel env d w = w\<lparr>w_step := Suc (w_step w)\<rparr>"
    and "\<forall>x g. get_global x (w_store w) = Some g \<longrightarrow> \<not> free_at (now (w_store w)) g"
proof -
  obtain s' where l: "lock_one_due (dr_owner d) (dr_lease d) (w_store w) = (None, s')"
    using assms(3) by (metis prod.collapse)
  have k: "keyed g_gid (st_global (w_store w))" using assms(2) by (simp add: store_ok_def)
  from lock_one_due_None [OF k l] l show "turn fuel env d w = w\<lparr>w_step := Suc (w_step w)\<rparr>"
    and "\<forall>x g. get_global x (w_store w) = Some g \<longrightarrow> \<not> free_at (now (w_store w)) g"
    by (auto simp: assms(1) get_global_def dest: row_at_SomeD)
qed

text \<open>Time passes between the turns.\<close>

definition pass :: "int \<Rightarrow> world \<Rightarrow> world" where
  "pass dt w = w\<lparr>w_store := (w_store w)\<lparr>st_clock := st_clock (w_store w) + dt\<rparr>\<rparr>"

fun turns :: "nat \<Rightarrow> environment \<Rightarrow> driver \<Rightarrow> int list \<Rightarrow> world \<Rightarrow> world" where
  "turns fuel env d [] w = w"
| "turns fuel env d (dt # dts) w = turns fuel env d dts (turn fuel env d (pass dt w))"

lemma turns_append: "turns fuel env d (dts @ dts') w = turns fuel env d dts' (turns fuel env d dts w)"
  by (induction dts arbitrary: w) simp_all

lemma pass_simps [simp]:
  "w_step (pass dt w) = w_step w" "now (w_store (pass dt w)) = now (w_store w) + dt"
  "get_global x (w_store (pass dt w)) = get_global x (w_store w)"
  by (simp_all add: pass_def get_global_def)

section \<open>The contract of a round\<close>

text \<open>How a round leaves a transaction: over, or going on after a wait because a branch failed.\<close>

definition leaves ::
  "(store \<Rightarrow> bool) \<Rightarrow> (global_row \<Rightarrow> bool) \<Rightarrow> (global_row \<Rightarrow> bool) \<Rightarrow> string \<Rightarrow> int \<Rightarrow> environment \<Rightarrow>
   world \<Rightarrow> world \<Rightarrow> bool" where
  "leaves ready going over gid bound env w w' \<longleftrightarrow>
     ready (w_store w') \<and> now (w_store w') = now (w_store w) \<and> w_step w < w_step w' \<and>
     (\<forall>x. x \<noteq> gid \<longrightarrow> get_global x (w_store w') = get_global x (w_store w)) \<and>
     (\<exists>r. get_global gid (w_store w') = Some r \<and>
        (over r \<or> going r \<and> waits (now (w_store w)) bound r \<and> \<not> answers_from (w_step w) env))"

text \<open>Nothing else can be taken up, and the transaction is over or waits no longer than the bound.\<close>

definition on_course ::
  "(store \<Rightarrow> bool) \<Rightarrow> (global_row \<Rightarrow> bool) \<Rightarrow> (global_row \<Rightarrow> bool) \<Rightarrow> string \<Rightarrow> int \<Rightarrow> store \<Rightarrow> bool" where
  "on_course ready going over gid bound s \<longleftrightarrow>
     ready s \<and> 0 \<le> now s \<and>
     (\<forall>x q. get_global x s = Some q \<and> schedulable q \<longrightarrow> x = gid) \<and>
     (\<exists>r. get_global gid s = Some r \<and> (over r \<or> going r \<and> waits (now s) bound r))"

definition is_over :: "(global_row \<Rightarrow> bool) \<Rightarrow> string \<Rightarrow> store \<Rightarrow> bool" where
  "is_over over gid s \<longleftrightarrow> (\<exists>r. get_global gid s = Some r \<and> over r)"

locale retried =
  fixes gid :: string and env :: environment and d :: driver and fuel :: nat and bound :: int
    and ready :: "store \<Rightarrow> bool" and going over :: "global_row \<Rightarrow> bool"
  assumes quiet: "ready s \<Longrightarrow> e_others env = (\<lambda>n s. s)"
    and worker: "ready s \<Longrightarrow> waits_at_most bound d"
    and table: "ready s \<Longrightarrow> store_ok s"
    and lock: "ready s \<Longrightarrow> ready (snd (lock_one_due owner l s))"
    and clock: "ready s \<Longrightarrow> ready (s\<lparr>st_clock := t\<rparr>)"
    and going_free: "ready s \<Longrightarrow> going r \<Longrightarrow> schedulable r"
    and over_bound: "ready s \<Longrightarrow> over r \<Longrightarrow> \<not> schedulable r"
    and leased: "going r \<Longrightarrow> going (take_lease owner t l r)"
    and round: "ready (w_store w) \<Longrightarrow> get_global gid (w_store w) = Some g \<Longrightarrow> going g \<Longrightarrow>
      g_next_cron_time g = g_lease_until g \<Longrightarrow> 0 \<le> now (w_store w) \<Longrightarrow>
      leaves ready going over gid bound env w (snd (run_state (process fuel env d g) w))"
begin

abbreviation course :: "store \<Rightarrow> bool" where
  "course \<equiv> on_course ready going over gid bound"

lemma worker_turn:
  assumes "course (w_store w)"
  shows "course (w_store (turn fuel env d w)) \<and>
    now (w_store (turn fuel env d w)) = now (w_store w) \<and> w_step w < w_step (turn fuel env d w) \<and>
    (if fst (lock_one_due (dr_owner d) (dr_lease d) (w_store w)) = None
     then w_store (turn fuel env d w) = w_store w
     else answers_from (w_step w) env \<longrightarrow> is_over over gid (w_store (turn fuel env d w)))"
proof (cases "fst (lock_one_due (dr_owner d) (dr_lease d) (w_store w))")
  case None
  have "e_others env = (\<lambda>n s. s)" "store_ok (w_store w)"
    using assms quiet table by (auto simp: on_course_def)
  from idle_turn(1) [OF this None] None assms show ?thesis by simp
next
  case (Some g)
  let ?s = "w_store w" and ?l = "lock_one_due (dr_owner d) (dr_lease d) (w_store w)"
  let ?w = "w\<lparr>w_store := snd ?l, w_step := Suc (w_step w)\<rparr>"
  have ready: "ready ?s" and pos: "0 \<le> now ?s"
    and only: "\<And>x q. get_global x ?s = Some q \<Longrightarrow> schedulable q \<Longrightarrow> x = gid"
    using assms by (auto simp: on_course_def)
  have "keyed g_gid (st_global ?s)" using table [OF ready] by (simp add: store_ok_def)
  from lock_one_due_Some [OF this, of "dr_owner d" "dr_lease d" g "snd ?l"] Some
  obtain r where r: "get_global (g_gid g) ?s = Some r" "free_at (now ?s) r"
    and g: "g = take_lease (dr_owner d) (now ?s) (dr_lease d) r"
    and upd: "(\<lambda>x. get_global x (snd ?l)) = (\<lambda>x. get_global x ?s)(g_gid g \<mapsto> g)"
    by (metis prod.collapse)
  have gid: "g_gid g = gid" using only r by (simp add: free_at_def)
  have going: "going g"
    using assms r gid over_bound [OF ready] leased by (auto simp: on_course_def g free_at_def)
  have cron: "g_next_cron_time g = g_lease_until g" by (simp add: g)
  have get: "get_global x (w_store ?w) = (if x = gid then Some g else get_global x ?s)" for x
    using fun_cong [OF upd, of x] gid by simp
  have "leaves ready going over gid bound env ?w (snd (run_state (process fuel env d g) ?w))"
    by (rule round) (use lock [OF ready] get going cron pos in simp_all)
  moreover have "turn fuel env d w = snd (run_state (process fuel env d g) ?w)"
    using Some quiet [OF ready] by (simp add: split_beta)
  ultimately have out: "leaves ready going over gid bound env ?w (turn fuel env d w)" by simp
  have others: "x \<noteq> gid \<Longrightarrow> get_global x (w_store (turn fuel env d w)) = get_global x ?s" for x
    using out get by (simp add: leaves_def)
  have "get_global x (w_store (turn fuel env d w)) = Some p \<Longrightarrow> schedulable p \<Longrightarrow> x = gid" for x p
    using others [of x] only [of x p] by (cases "x = gid") simp_all
  moreover have "answers_from (w_step w) env \<Longrightarrow> is_over over gid (w_store (turn fuel env d w))"
    using out answers_from_later [of "w_step w" env "Suc (w_step w)"]
    by (auto simp: leaves_def is_over_def)
  moreover have "now (w_store (turn fuel env d w)) = now ?s" "w_step w < w_step (turn fuel env d w)"
    "ready (w_store (turn fuel env d w))"
    using out by (simp_all add: leaves_def)
  moreover obtain q where "get_global gid (w_store (turn fuel env d w)) = Some q"
    "over q \<or> going q \<and> waits (now ?s) bound q"
    using out by (auto simp: leaves_def)
  ultimately show ?thesis
    using Some pos unfolding on_course_def by (simp del: worker_loop.simps)
qed

lemma course_pass: "0 \<le> dt \<Longrightarrow> course (w_store w) \<Longrightarrow> course (w_store (pass dt w))"
  using clock by (auto simp: on_course_def waits_def pass_def get_global_def)

lemma over_turn:
  assumes "course (w_store w)" "is_over over gid (w_store w)"
  shows "is_over over gid (w_store (turn fuel env d w))"
proof -
  let ?l = "lock_one_due (dr_owner d) (dr_lease d) (w_store w)"
  have ready: "ready (w_store w)" using assms(1) by (simp add: on_course_def)
  have "fst ?l = None"
  proof (rule ccontr)
    assume "fst ?l \<noteq> None"
    then obtain g where "?l = (Some g, snd ?l)" by (metis not_None_eq prod.collapse)
    moreover have "keyed g_gid (st_global (w_store w))" using table [OF ready] by (simp add: store_ok_def)
    ultimately obtain r where "get_global (g_gid g) (w_store w) = Some r" "free_at (now (w_store w)) r"
      using lock_one_due_Some by blast
    moreover from this assms(1) have "g_gid g = gid" by (auto simp: on_course_def free_at_def)
    ultimately show False
      using assms(2) over_bound [OF ready, of r] by (auto simp: is_over_def free_at_def)
  qed
  with worker_turn [OF assms(1)] assms(2) show ?thesis by simp
qed

lemma turns_course:
  assumes "course (w_store w)" "\<forall>dt\<in>set dts. 0 \<le> dt"
  shows "course (w_store (turns fuel env d dts w)) \<and>
    w_step w + length dts \<le> w_step (turns fuel env d dts w) \<and>
    (is_over over gid (w_store w) \<longrightarrow> is_over over gid (w_store (turns fuel env d dts w)))"
  using assms
proof (induction dts arbitrary: w)
  case (Cons dt dts)
  have c: "course (w_store (pass dt w))" using Cons.prems by (intro course_pass) simp_all
  note t = worker_turn [OF c]
  have "is_over over gid (w_store (turn fuel env d (pass dt w)))" if "is_over over gid (w_store w)"
    by (rule over_turn [OF c]) (use that in \<open>simp add: is_over_def\<close>)
  with Cons.IH [of "turn fuel env d (pass dt w)"] t Cons.prems(2) show ?case by fastforce
qed simp

lemma turns_finish:
  assumes "course (w_store w)" "\<forall>dt\<in>set dts. 0 \<le> dt" "answers_from (w_step w) env" "dts \<noteq> []"
    and "get_global gid (w_store w) = Some r" "going r" "waits (now (w_store w)) (sum_list dts) r"
  shows "is_over over gid (w_store (turns fuel env d dts w))"
  using assms
proof (induction dts arbitrary: w)
  case (Cons dt dts)
  let ?w = "pass dt w" and ?w' = "turn fuel env d (pass dt w)"
  have c: "course (w_store ?w)" using Cons.prems by (intro course_pass) simp_all
  note t = worker_turn [OF c]
  have later: "answers_from (w_step ?w') env"
    using Cons.prems(3) t answers_from_later [of "w_step w" env "w_step ?w'"] by simp
  have nonneg: "\<forall>dt\<in>set dts. 0 \<le> dt" using Cons.prems(2) by simp
  have ready: "ready (w_store ?w)" using c by (simp add: on_course_def)
  show ?case
  proof (cases "fst (lock_one_due (dr_owner d) (dr_lease d) (w_store ?w)) = None")
    case False
    with t Cons.prems(3) have "is_over over gid (w_store ?w')" by (auto split: if_splits)
    with turns_course [OF conjunct1 [OF t] nonneg] show ?thesis by simp
  next
    case True
    from idle_turn(2) [OF quiet [OF ready] table [OF ready] True] Cons.prems(5)
    have "\<not> free_at (now (w_store ?w)) r" by simp
    with going_free [OF ready Cons.prems(6)] have late: "\<not> due (now (w_store w) + dt) r"
      by (simp add: free_at_def)
    have "dts \<noteq> []" using late Cons.prems(7) by (auto simp: waits_def due_def)
    moreover have "get_global gid (w_store ?w') = Some r" "now (w_store ?w') = now (w_store w) + dt"
      using t True Cons.prems(5) by simp_all
    moreover have "waits (now (w_store w) + dt) (sum_list dts) r"
      using Cons.prems(7) by (simp add: waits_def add.assoc)
    ultimately have "is_over over gid (w_store (turns fuel env d dts ?w'))"
      using Cons.IH [OF conjunct1 [OF t] nonneg later] Cons.prems(6) by simp
    then show ?thesis by simp
  qed
qed simp

lemma driven_home:
  assumes "course (w_store w)" "answers_from N env" "N \<le> w_step w + length early" "late \<noteq> []"
    and "bound \<le> sum_list late" "\<forall>dt\<in>set (early @ late). 0 \<le> dt"
  shows "is_over over gid (w_store (turns fuel env d (early @ late) w))"
proof -
  let ?w = "turns fuel env d early w"
  have c: "course (w_store ?w)" and step: "N \<le> w_step ?w"
    using turns_course [OF assms(1), of early] assms(3,6) by auto
  from c obtain r where r: "get_global gid (w_store ?w) = Some r"
    and st: "over r \<or> going r \<and> waits (now (w_store ?w)) bound r"
    by (auto simp: on_course_def)
  have late: "\<forall>dt\<in>set late. 0 \<le> dt" using assms(6) by simp
  from st have "is_over over gid (w_store (turns fuel env d late ?w))"
  proof
    assume "over r"
    with r turns_course [OF c late] show ?thesis by (auto simp: is_over_def)
  next
    assume w: "going r \<and> waits (now (w_store ?w)) bound r"
    then have "waits (now (w_store ?w)) (sum_list late) r" using assms(5) by (auto simp: waits_def)
    with w turns_finish [OF c late answers_from_later [OF assms(2) step] assms(4) r] show ?thesis
      by simp
  qed
  then show ?thesis by (simp add: turns_append)
qed

end

end
