(* ===== verification/Driven.thy ===== *)
theory Driven
  imports Retries
begin

text \<open>
  TCC and XA transactions, and sagas, meet the contract of \<open>Retries\<close>: they are driven home.
\<close>

section \<open>A round on a TCC or XA transaction\<close>

lemma advance_decided_cases:
  assumes "paired fwd bwd" "decided st"
  obtains (call) i where "advance_of fwd st xs ys = Call i (op_of st fwd bwd)"
      "i < length (if st = GSubmitted then xs else ys)" "(if st = GSubmitted then xs else ys) ! i \<noteq> BSucceed"
    | (finish) "advance_of fwd st xs ys = Finish (end_of st)"
proof (cases "st = GSubmitted")
  case True
  show ?thesis
  proof (cases "scan_up pending 0 xs")
    case None
    with True assms(1) show ?thesis by (intro finish) (auto simp: paired_def end_of_def)
  next
    case (Some i)
    note bounds = this [unfolded scan_up0_Some_iff pending_def]
    with True Some assms(1) show ?thesis
      by (intro call [of i]) (auto simp: paired_def op_of_def)
  qed
next
  case False
  with assms(2) have st: "st = GAborting" by (simp add: decided_def)
  show ?thesis
  proof (cases "scan_down pending ys (length ys)")
    case None
    with st assms(1) show ?thesis by (intro finish) (auto simp: paired_def end_of_def)
  next
    case (Some i)
    note bounds = this [unfolded scan_down_Some_iff pending_def]
    with st Some assms(1) show ?thesis
      by (intro call [of i]) (auto simp: paired_def op_of_def)
  qed
qed

text \<open>How a round leaves the transaction: ended, or released for a retry because a branch failed.\<close>

definition round_outcome ::
  "environment \<Rightarrow> driver \<Rightarrow> global_row \<Rightarrow> branch_op \<Rightarrow> branch_op \<Rightarrow> nat \<Rightarrow> world \<Rightarrow> world \<Rightarrow> bool" where
  "round_outcome env d g fwd bwd n w w' \<longleftrightarrow>
     branches_ready (g_gid g) fwd bwd n (w_store w') \<and> now (w_store w') = now (w_store w) \<and>
     w_step w < w_step w' \<and>
     (\<forall>x. x \<noteq> g_gid g \<longrightarrow> get_global x (w_store w') = get_global x (w_store w)) \<and>
     (\<exists>r. get_global (g_gid g) (w_store w') = Some r \<and> g_trans_type r = g_trans_type g \<and>
        (g_status r = end_of (g_status g) \<or>
         \<not> answers_from (w_step w) env \<and>
         r = released (next_interval_with (g_next_cron_interval g) (dr_retry d)) (now (w_store w)) g))"

lemma round_outcome_later:
  assumes "round_outcome env d g fwd bwd n w1 w'" "now (w_store w1) = now (w_store w)"
    and "w_step w \<le> w_step w1" "\<forall>x. x \<noteq> g_gid g \<longrightarrow> get_global x (w_store w1) = get_global x (w_store w)"
  shows "round_outcome env d g fwd bwd n w w'"
  using assms answers_from_later [of "w_step w" env "w_step w1"] unfolding round_outcome_def by auto

lemma branches_ready_release:
  assumes "branches_ready gid fwd bwd n s"
  shows "branches_ready gid fwd bwd n (release_lease x l i s)"
  using assms by (auto simp: branches_ready_def store_ok_schedule list_branches_def branch_at_def)

lemma round_released:
  assumes "e_others env = (\<lambda>n s. s)" "branches_ready (g_gid g) fwd bwd n (w_store w1)"
    and "get_global (g_gid g) (w_store w1) = Some g" "now (w_store w1) = now (w_store w)"
    and "w_step w \<le> w_step w1" "\<not> answers_from (w_step w) env"
    and "\<forall>x. x \<noteq> g_gid g \<longrightarrow> get_global x (w_store w1) = get_global x (w_store w)"
  shows "round_outcome env d g fwd bwd n w (snd (run_state (retry_later env d g) w1))"
  using assms retry_later_effect [OF assms(1), where d = d and g = g and w = w1]
  by (auto simp: round_outcome_def branches_ready_release store_simps)

lemma two_phase_loop_outcome:
  assumes "e_others env = (\<lambda>n s. s)" "paired fwd bwd" "decided (g_status g)"
    and "branches_ready (g_gid g) fwd bwd n (w_store w)" "get_global (g_gid g) (w_store w) = Some g"
    and "open_slots (g_gid g) n (op_of (g_status g) fwd bwd) (w_store w) < fuel"
  shows "round_outcome env d g fwd bwd n w (snd (run_state (two_phase_loop fuel env d g n fwd bwd) w))"
  using assms(4-6)
proof (induction fuel arbitrary: w)
  case 0
  then show ?case by simp
next
  case (Suc fuel)
  let ?gid = "g_gid g" and ?st = "g_status g" and ?w = "w\<lparr>w_step := Suc (w_step w)\<rparr>"
  let ?rows = "list_branches ?gid (w_store w)" and ?op = "op_of ?st fwd bwd"
  have split: "split_by_op ?rows n fwd bwd =
      (map (status_at ?gid fwd (w_store w)) [0..<n], map (status_at ?gid bwd (w_store w)) [0..<n])"
    by (rule branches_ready_states [OF Suc.prems(1) assms(2)])
  show ?case
    using assms(2,3)
  proof (cases rule: advance_decided_cases [where xs = "map (status_at ?gid fwd (w_store w)) [0..<n]"
      and ys = "map (status_at ?gid bwd (w_store w)) [0..<n]"])
    case finish
    let ?t = "transition ?gid ?st (end_of ?st) (g_trans_type g) [] (w_store w)"
    have ne: "?st \<noteq> end_of ?st" using assms(3) by (auto simp: decided_def end_of_def)
    have "keyed g_gid (st_global (w_store w))"
      using Suc.prems(1) by (simp add: branches_ready_def store_ok_def)
    then have t: "fst ?t" using fst_transition Suc.prems(2) by auto
    have "snd (run_state (two_phase_loop (Suc fuel) env d g n fwd bwd) w) =
        w\<lparr>w_store := snd ?t, w_step := Suc (Suc (w_step w)),
          w_trace := w_trace w @ [Status ?st (end_of ?st) True]\<rparr>"
      using finish ne t by (simp add: assms(1) split drv_transition_def)
    then show ?thesis
      using Suc.prems(1,2) by (auto simp: round_outcome_def store_simps branches_ready_transition)
  next
    case (call i)
    then have i: "i < n" and open_i: "status_at ?gid ?op (w_store w) i \<noteq> BSucceed"
      by (cases "?st = GSubmitted"; simp add: op_of_def)+
    from Suc.prems(1) i obtain b where b: "branch_at ?gid (branch_id i) ?op (w_store w) = Some b"
      by (cases "?st = GSubmitted") (auto simp: branches_ready_def op_of_def)
    from branch_at_in [OF b] obtain q where "find_branch ?rows (branch_id i) ?op = Some q"
      by (cases "find_branch ?rows (branch_id i) ?op") (auto simp: find_branch_def find_None_iff)
    then have url: "url_of ?rows (branch_id i) ?op = Some (b_url q)" by (simp add: url_of_def)
    let ?call = "call_branch env g (branch_id i) ?op (b_url q) (payload_of ?rows (branch_id i) ?op)"
    obtain r w1 where c: "run_state ?call ?w = (r, w1)" by fastforce
    have w1: "w_store w1 = w_store w" "w_step w < w_step w1"
      using store_call_branch [of env g "branch_id i" ?op "b_url q" "payload_of ?rows (branch_id i) ?op" ?w]
        call_branch_steps [of ?w env g "branch_id i" ?op "b_url q" "payload_of ?rows (branch_id i) ?op"] c
      by simp_all
    have failed: "\<not> answers_from (w_step w) env" if "r \<noteq> Success"
    proof
      assume "answers_from (w_step w) env"
      then have "answers_from (w_step ?w) env" by (rule answers_from_later) simp
      from recovered_call [OF this, of g "branch_id i" ?op "b_url q"
          "payload_of ?rows (branch_id i) ?op"] c that show False by simp
    qed
    let ?set = "\<lambda>v. w1\<lparr>w_store := set_branch_status ?gid (branch_id i) ?op v (w_store w), w_step := Suc (w_step w1)\<rparr>"
    have set: "branches_ready ?gid fwd bwd n (w_store (?set v))" "now (w_store (?set v)) = now (w_store w)"
      "get_global x (w_store (?set v)) = get_global x (w_store w)" for v x
      using Suc.prems(1) by (simp_all add: branches_ready_set_status store_simps)
    show ?thesis
    proof (cases "r = Success")
      case True
      have nxt: "snd (run_state (two_phase_loop (Suc fuel) env d g n fwd bwd) w) =
          snd (run_state (two_phase_loop fuel env d g n fwd bwd) (?set BSucceed))"
        using call c True by (simp add: assms(1) split two_phase_call_def Let_def url w1(1))
      have "slot_status ?gid ?op (w_store w) i \<noteq> BSucceed"
        using b open_i by (simp add: slot_status_def status_at_def)
      with b i have "open_slots ?gid n ?op (w_store (?set BSucceed)) < open_slots ?gid n ?op (w_store w)"
        using open_slots_set [of ?gid i ?op "w_store w" n] by simp
      with Suc.IH [of "?set BSucceed"] set [where v = BSucceed] Suc.prems(2,3)
      have "round_outcome env d g fwd bwd n (?set BSucceed)
          (snd (run_state (two_phase_loop fuel env d g n fwd bwd) (?set BSucceed)))" by simp
      then show ?thesis
        unfolding nxt by (rule round_outcome_later) (use set w1(2) in simp_all)
    next
      case False
      have "snd (run_state (two_phase_loop (Suc fuel) env d g n fwd bwd) w) =
          snd (run_state (retry_later env d g) (if r = Failure then ?set BFailed else w1))"
        using call c False
        by (cases r) (simp_all add: assms(1) split two_phase_call_def Let_def url w1(1) split_beta)
      moreover have "round_outcome env d g fwd bwd n w
          (snd (run_state (retry_later env d g) (if r = Failure then ?set BFailed else w1)))"
        by (rule round_released [OF assms(1)])
          (use set [where v = BFailed] w1 failed [OF False] Suc.prems(1,2) in auto)
      ultimately show ?thesis by simp
    qed
  qed
qed

lemma drive_two_phase_outcome:
  assumes "e_others env = (\<lambda>n s. s)" "paired fwd bwd" "decided (g_status g)"
    and "branches_ready (g_gid g) fwd bwd n (w_store w)" "get_global (g_gid g) (w_store w) = Some g"
    and "0 < n" "n < fuel"
  shows "round_outcome env d g fwd bwd n w (snd (run_state (drive_two_phase fuel env d g fwd bwd) w))"
proof -
  let ?w = "w\<lparr>w_step := Suc (w_step w)\<rparr>"
  have "open_slots (g_gid g) n (op_of (g_status g) fwd bwd) (w_store ?w) < fuel"
    using open_slots_le [of "g_gid g" n "op_of (g_status g) fwd bwd" "w_store ?w"] assms(7) by simp
  with two_phase_loop_outcome [OF assms(1-3), of n ?w fuel d] assms(4,5)
  have "round_outcome env d g fwd bwd n ?w (snd (run_state (two_phase_loop fuel env d g n fwd bwd) ?w))"
    by simp
  moreover have "snd (run_state (drive_two_phase fuel env d g fwd bwd) w) =
      snd (run_state (two_phase_loop fuel env d g n fwd bwd) ?w)"
    using assms(1,6) branches_ready_bound [OF assms(4)] by (simp add: drive_two_phase_def Let_def)
  ultimately show ?thesis using round_outcome_later [of env d g fwd bwd n ?w _ w] by simp
qed

lemma decided_schedulable: "decided st \<Longrightarrow> g_status g = st \<Longrightarrow> schedulable g"
  "decided st \<Longrightarrow> g_status g = end_of st \<Longrightarrow> \<not> schedulable g"
  by (auto simp: decided_def schedulable_def end_of_def)

definition mode_of :: "trans_type \<Rightarrow> branch_op \<Rightarrow> branch_op \<Rightarrow> bool" where
  "mode_of tt fwd bwd \<longleftrightarrow>
     tt = Tcc \<and> fwd = Confirm \<and> bwd = Cancel \<or> tt = Xa \<and> fwd = Commit \<and> bwd = Rollback"

lemma mode_paired: "mode_of tt fwd bwd \<Longrightarrow> paired fwd bwd"
  by (auto simp: mode_of_def paired_def)

lemma process_mode:
  assumes "mode_of (g_trans_type g) fwd bwd" "decided (g_status g)"
  shows "process fuel env d g = drive_two_phase fuel env d g fwd bwd"
  using assms by (auto simp: process_def mode_of_def decided_def prepared_timeout_to_def
      process_tcc_def process_xa_def)

lemma branches_ready_lock:
  assumes "branches_ready gid fwd bwd n s"
  shows "branches_ready gid fwd bwd n (snd (lock_one_due owner l s))"
  using assms by (auto simp: branches_ready_def store_ok_lock list_branches_def branch_at_def)

lemma branches_ready_clock:
  "branches_ready gid fwd bwd n (s\<lparr>st_clock := t\<rparr>) = branches_ready gid fwd bwd n s"
  by (simp add: branches_ready_def store_ok_def list_branches_def branch_at_def)

lemma branches_ready_ok: "branches_ready gid fwd bwd n s \<Longrightarrow> store_ok s"
  by (simp add: branches_ready_def)

section \<open>TCC and XA meet the contract\<close>

definition two_phase_setting ::
  "environment \<Rightarrow> driver \<Rightarrow> nat \<Rightarrow> int \<Rightarrow> trans_type \<Rightarrow> branch_op \<Rightarrow> branch_op \<Rightarrow> nat \<Rightarrow> global_status \<Rightarrow>
   string \<Rightarrow> store \<Rightarrow> bool" where
  "two_phase_setting env d fuel bound tt fwd bwd n st gid s \<longleftrightarrow>
     e_others env = (\<lambda>n s. s) \<and> waits_at_most bound d \<and> mode_of tt fwd bwd \<and> decided st \<and>
     0 < n \<and> n < fuel \<and> branches_ready gid fwd bwd n s"

definition in_status :: "trans_type \<Rightarrow> global_status \<Rightarrow> global_row \<Rightarrow> bool" where
  "in_status tt st r \<longleftrightarrow> g_trans_type r = tt \<and> g_status r = st"

interpretation two_phase_home: retried gid env d fuel bound
  "two_phase_setting env d fuel bound tt fwd bwd n st gid" "in_status tt st" "in_status tt (end_of st)"
  for gid env d fuel bound tt fwd bwd n st
proof
  fix w :: world and g
  assume a: "two_phase_setting env d fuel bound tt fwd bwd n st gid (w_store w)"
    "get_global gid (w_store w) = Some g" "in_status tt st g" "g_next_cron_time g = g_lease_until g"
    "0 \<le> now (w_store w)"
  then have g: "g_gid g = gid" "g_trans_type g = tt" "g_status g = st"
    using get_global_gid by (auto simp: in_status_def)
  have "round_outcome env d g fwd bwd n w (snd (run_state (process fuel env d g) w))"
  proof -
    have "paired fwd bwd" using a(1) mode_paired by (auto simp: two_phase_setting_def)
    then show ?thesis
      using a(1,2) g process_mode [of g fwd bwd] drive_two_phase_outcome [of env fwd bwd g n w fuel d]
      by (simp add: two_phase_setting_def)
  qed
  moreover have "waits (now (w_store w)) bound
      (released (next_interval_with (g_next_cron_interval g) (dr_retry d)) (now (w_store w)) g)"
    using a(1,4,5) by (intro waits_released) (simp_all add: two_phase_setting_def)
  ultimately show "leaves (two_phase_setting env d fuel bound tt fwd bwd n st gid) (in_status tt st)
      (in_status tt (end_of st)) gid bound env w (snd (run_state (process fuel env d g) w))"
    using a(1) g by (auto simp: leaves_def round_outcome_def in_status_def two_phase_setting_def)
qed (auto simp: two_phase_setting_def in_status_def decided_schedulable branches_ready_lock
    branches_ready_clock branches_ready_ok)

section \<open>A round on a saga\<close>

text \<open>The row of the saga while a round runs: only its status may have turned.\<close>

definition kept_row :: "global_row \<Rightarrow> global_status \<Rightarrow> global_row \<Rightarrow> bool" where
  "kept_row g st r \<longleftrightarrow> (st = GSubmitted \<or> st = GAborting) \<and> g_status r = st \<and>
     g_trans_type r = g_trans_type g \<and> g_payload r = g_payload g \<and>
     g_lease_until r = g_lease_until g \<and> g_next_cron_time r = g_next_cron_time g"

definition saga_going :: "global_row \<Rightarrow> global_row \<Rightarrow> bool" where
  "saga_going g r \<longleftrightarrow> g_trans_type r = g_trans_type g \<and> g_payload r = g_payload g \<and>
     (g_status r = GSubmitted \<or> g_status r = GAborting)"

definition saga_over :: "global_row \<Rightarrow> bool" where
  "saga_over r \<longleftrightarrow> g_status r = GSucceed \<or> g_status r = GFailed"

abbreviation saga_leaves ::
  "nat \<Rightarrow> int \<Rightarrow> environment \<Rightarrow> global_row \<Rightarrow> world \<Rightarrow> world \<Rightarrow> bool" where
  "saga_leaves n bound env g \<equiv>
     leaves (saga_ready (g_gid g) n) (saga_going g) saga_over (g_gid g) bound env"

lemma leaves_later:
  assumes "leaves ready going over gid bound env w1 w'" "now (w_store w1) = now (w_store w)"
    and "w_step w \<le> w_step w1" "\<forall>x. x \<noteq> gid \<longrightarrow> get_global x (w_store w1) = get_global x (w_store w)"
  shows "leaves ready going over gid bound env w w'"
  using assms answers_from_later [of "w_step w" env "w_step w1"] unfolding leaves_def by auto

lemma saga_ready_release:
  "saga_ready gid n s \<Longrightarrow> saga_ready gid n (release_lease x l i s)"
  by (auto simp: saga_ready_def well_numbered_def store_ok_schedule list_branches_def branch_at_def)

lemma saga_put_off:
  assumes "e_others env = (\<lambda>n s. s)" "waits_at_most bound d" "g_next_cron_time g = g_lease_until g"
    and "saga_ready (g_gid g) n (w_store v)" "get_global (g_gid g) (w_store v) = Some r" "kept_row g st r"
    and "now (w_store v) = now (w_store w)" "0 \<le> now (w_store w)" "w_step w \<le> w_step v"
    and "\<forall>x. x \<noteq> g_gid g \<longrightarrow> get_global x (w_store v) = get_global x (w_store w)"
    and "\<not> answers_from (w_step w) env"
  shows "saga_leaves n bound env g w (snd (run_state (retry_later env d g) v))"
proof -
  let ?r = "released (next_interval_with (g_next_cron_interval g) (dr_retry d)) (now (w_store w)) r"
  have "g_lease_until r = g_lease_until g" "g_next_cron_time r = g_lease_until r"
    using assms(3,6) by (auto simp: kept_row_def)
  then have "waits (now (w_store w)) bound ?r" "saga_going g ?r"
    using waits_released [OF assms(2,8), of r] assms(6) by (auto simp: kept_row_def saga_going_def released_def)
  with \<open>g_lease_until r = g_lease_until g\<close> show ?thesis
    using assms(4,5,7,9-11) retry_later_effect [OF assms(1), where d = d and g = g and w = v]
    by (auto simp: leaves_def saga_ready_release store_simps)
qed

text \<open>One call: what it does, for each answer.\<close>

lemma saga_transition:
  assumes "e_others env = (\<lambda>n s. s)" "saga_ready (g_gid g) n (w_store w)"
    and "get_global (g_gid g) (w_store w) = Some r" "g_status r = f" "f \<noteq> t"
  obtains w' where "run_state (drv_transition env g f t reason) w = (True, w')"
    "w_store w' = snd (transition (g_gid g) f t (g_trans_type g) reason (w_store w))" "w_step w < w_step w'"
proof -
  have "keyed g_gid (st_global (w_store w))" using assms(2) by (simp add: saga_ready_def store_ok_def)
  then have "fst (transition (g_gid g) f t (g_trans_type g) reason (w_store w))"
    using fst_transition assms(3,4) by auto
  with assms(1,5) show ?thesis
    by (intro that [of "w\<lparr>w_store := snd (transition (g_gid g) f t (g_trans_type g) reason (w_store w)),
      w_step := Suc (w_step w), w_trace := w_trace w @ [Status f t True]\<rparr>"]) (simp_all add: drv_transition_def)
qed

lemma kept_row_turned:
  "kept_row g GSubmitted r \<Longrightarrow> kept_row g GAborting (put_status GAborting t reason r)"
  by (simp add: kept_row_def)

text \<open>A call goes on with less work left, or the round puts the saga off.\<close>

lemma saga_call_outcome:
  assumes "e_others env = (\<lambda>n s. s)" "waits_at_most bound d" "g_next_cron_time g = g_lease_until g"
    and "saga_ready (g_gid g) n (w_store w)" "i < n"
    and "op = Action \<and> status = GSubmitted \<or> op = Compensate \<and> status = GAborting"
    and "status_at (g_gid g) op (w_store w) i = BPrepared"
    and "get_global (g_gid g) (w_store w) = Some r" "kept_row g status r" "0 \<le> now (w_store w)"
    and "run_state (saga_call env d g steps status i op) w = (res, w')"
  shows "(case res of
       None \<Rightarrow> saga_leaves n bound env g w w'
     | Some s \<Rightarrow> now (w_store w') = now (w_store w) \<and> w_step w \<le> w_step w' \<and>
         (\<forall>x. x \<noteq> g_gid g \<longrightarrow> get_global x (w_store w') = get_global x (w_store w)) \<and>
         (\<exists>q. get_global (g_gid g) (w_store w') = Some q \<and> kept_row g s q))"
proof -
  let ?gid = "g_gid g" and ?bid = "branch_id i"
  let ?url = "if op = Action then s_action (steps ! i) else s_compensate (steps ! i)"
  obtain a w1 where c: "run_state (call_branch env g ?bid op ?url (s_payload (steps ! i))) w = (a, w1)"
    by fastforce
  have w1: "w_store w1 = w_store w" "w_step w \<le> w_step w1"
    using store_call_branch [of env g ?bid op ?url "s_payload (steps ! i)" w]
      call_branch_steps [of w env g ?bid op ?url "s_payload (steps ! i)"] c by simp_all
  have failed: "\<not> answers_from (w_step w) env" if "a \<noteq> Success"
    using recovered_call [of w env g ?bid op ?url "s_payload (steps ! i)"] c that by auto
  let ?set = "\<lambda>v. w1\<lparr>w_store := set_branch_status ?gid ?bid op v (w_store w), w_step := Suc (w_step w1)\<rparr>"
  have set: "saga_ready ?gid n (w_store (?set v))" "now (w_store (?set v)) = now (w_store w)"
    "get_global x (w_store (?set v)) = get_global x (w_store w)" for v x
    using saga_ready_set_status(1) [OF assms(4)] by (simp_all add: store_simps)
  note off = saga_put_off [OF assms(1-3) _ _ assms(9)]
  show ?thesis
  proof (cases a)
    case Success
    with c w1 assms(11) have "res = Some status" "w' = ?set BSucceed"
      by (auto simp: saga_call_def Let_def assms(1))
    with set w1 assms(8,9) show ?thesis by auto
  next
    case Failure
    show ?thesis
    proof (cases "op = Action")
      case True
      with assms(6) have sub: "status = GSubmitted" by auto
      have here: "get_global ?gid (w_store (?set BFailed)) = Some r" "g_status r = GSubmitted"
        using set assms(8,9) sub by (simp_all add: kept_row_def)
      obtain w2 where t: "run_state (drv_transition env g GSubmitted GAborting (saga_failure_text ?bid)) (?set BFailed) = (True, w2)"
        and w2: "w_store w2 = snd (transition ?gid GSubmitted GAborting (g_trans_type g) (saga_failure_text ?bid) (w_store (?set BFailed)))"
        and step: "w_step (?set BFailed) < w_step w2"
        by (rule saga_transition [OF assms(1) set(1) here, of GAborting "saga_failure_text ?bid"]) auto
      have "res = Some GAborting" "w' = w2"
        using Failure True sub c w1 assms(11) t by (auto simp: saga_call_def Let_def assms(1))
      moreover have "get_global ?gid (w_store w2) = Some (put_status GAborting (now (w_store w))
          (take_chars mid (saga_failure_text ?bid)) r)"
        unfolding w2 get_transition here(1) using here(2) set(2) [of BFailed] by simp
      moreover have "kept_row g GAborting (put_status GAborting (now (w_store w))
          (take_chars mid (saga_failure_text ?bid)) r)"
        using assms(9) sub kept_row_turned by simp
      moreover have "now (w_store w2) = now (w_store w)" "w_step w \<le> w_step w2"
        using w2 step w1 set(2) [of BFailed] by (simp_all add: store_simps)
      moreover have "x \<noteq> ?gid \<Longrightarrow> get_global x (w_store w2) = get_global x (w_store w)" for x
        unfolding w2 get_transition using set(3) [of x BFailed] by simp
      ultimately show ?thesis by simp
    next
      case False
      with Failure c w1 assms(11) have "res = None" "w' = snd (run_state (retry_later env d g) (?set BFailed))"
        by (auto simp: saga_call_def Let_def assms(1) split_beta)
      with off [where v = "?set BFailed" and w = w] set w1 failed Failure assms(8,10) show ?thesis by simp
    qed
  next
    case Ongoing
    with c w1 assms(11) have "res = None" "w' = snd (run_state (retry_later env d g) w1)"
      by (auto simp: saga_call_def Let_def assms(1) split_beta)
    with off [where v = w1 and w = w] w1 failed Ongoing assms(4,8,10) show ?thesis by simp
  next
    case Unknown
    with c w1 assms(11) have "res = None" "w' = snd (run_state (retry_later env d g) w1)"
      by (auto simp: saga_call_def Let_def assms(1) split_beta)
    with off [where v = w1 and w = w] w1 failed Unknown assms(4,8,10) show ?thesis by simp
  qed
qed

lemma saga_advance_ends:
  assumes "saga_advance st acts comps = Finish s" "st = GSubmitted \<or> st = GAborting"
  shows "s = GAborting \<and> st = GSubmitted \<or> s \<noteq> GAborting \<and> s \<noteq> st \<and> (s = GSucceed \<or> s = GFailed)"
  using assms by (auto simp: saga_forward_offset split: option.splits if_splits)

lemma saga_loop_outcome:
  assumes "e_others env = (\<lambda>n s. s)" "waits_at_most bound d" "g_next_cron_time g = g_lease_until g"
    and "saga_ready (g_gid g) (length steps) (w_store w)"
    and "get_global (g_gid g) (w_store w) = Some r" "kept_row g status r" "0 \<le> now (w_store w)"
    and "saga_work (g_gid g) (length steps) status (w_store w) < fuel"
  shows "saga_leaves (length steps) bound env g w (snd (run_state (saga_loop fuel env d g steps status) w))"
  using assms(4-8)
proof (induction fuel arbitrary: w status r)
  case 0
  then show ?case by simp
next
  case (Suc fuel)
  let ?n = "length steps" and ?gid = "g_gid g" and ?w = "w\<lparr>w_step := Suc (w_step w)\<rparr>"
  let ?acts = "map (status_at ?gid Action (w_store w)) [0..<?n]"
  let ?comps = "map (status_at ?gid Compensate (w_store w)) [0..<?n]"
  note states = saga_ready_states [OF Suc.prems(1)]
  have st: "status = GSubmitted \<or> status = GAborting" "g_status r = status"
    using Suc.prems(3) by (auto simp: kept_row_def)
  have again: "saga_leaves ?n bound env g w (snd (run_state (saga_loop fuel env d g steps s) w'))"
    if "saga_ready ?gid ?n (w_store w')" "get_global ?gid (w_store w') = Some q" "kept_row g s q"
      "now (w_store w') = now (w_store w)" "w_step w \<le> w_step w'"
      "\<forall>x. x \<noteq> ?gid \<longrightarrow> get_global x (w_store w') = get_global x (w_store w)"
      "saga_work ?gid ?n s (w_store w') < saga_work ?gid ?n status (w_store w)" for s w' q
    using Suc.IH [OF that(1-3)] leaves_later [OF _ that(4-6)] that(4,7) Suc.prems(4,5) by simp
  show ?case
  proof (cases "saga_advance status ?acts ?comps")
    case (Finish s)
    have ready: "saga_ready ?gid ?n (w_store ?w)" and here: "get_global ?gid (w_store ?w) = Some r"
      using Suc.prems by simp_all
    from saga_advance_ends [OF Finish st(1)] show ?thesis
    proof
      assume turn: "s = GAborting \<and> status = GSubmitted"
      obtain w2 where t: "run_state (drv_transition env g status GAborting saga_failed_text) ?w = (True, w2)"
        and w2: "w_store w2 = snd (transition ?gid status GAborting (g_trans_type g) saga_failed_text (w_store ?w))"
        and step: "w_step ?w < w_step w2"
        by (rule saga_transition [OF assms(1) ready here st(2), of GAborting saga_failed_text])
          (use turn in auto)
      have "get_global ?gid (w_store w2) = Some (put_status GAborting (now (w_store w)) (take_chars mid saga_failed_text) r)"
        unfolding w2 get_transition here using st(2) by simp
      moreover have "kept_row g GAborting (put_status GAborting (now (w_store w)) (take_chars mid saga_failed_text) r)"
        using Suc.prems(3) turn kept_row_turned by simp
      ultimately have "saga_leaves ?n bound env g w (snd (run_state (saga_loop fuel env d g steps GAborting) w2))"
        using step w2 turn saga_ready_transition(1) [OF ready] saga_work_transition [OF ready] saga_work_turn
        by (intro again) (simp_all add: get_transition store_simps)
      with turn Finish states t show ?thesis by (simp add: assms(1) del: saga_advance.simps)
    next
      assume over: "s \<noteq> GAborting \<and> s \<noteq> status \<and> (s = GSucceed \<or> s = GFailed)"
      obtain w2 where t: "run_state (drv_transition env g status s []) ?w = (True, w2)"
        and w2: "w_store w2 = snd (transition ?gid status s (g_trans_type g) [] (w_store ?w))"
        and step: "w_step ?w < w_step w2"
        by (rule saga_transition [OF assms(1) ready here st(2), of s "[]"]) (use over in auto)
      have "get_global ?gid (w_store w2) = Some (put_status s (now (w_store w)) (take_chars mid []) r)"
        unfolding w2 get_transition here using st(2) by simp
      moreover have "saga_ready ?gid ?n (w_store w2)"
        unfolding w2 by (rule saga_ready_transition(1) [OF ready])
      moreover have "now (w_store w2) = now (w_store w)" by (simp add: w2 store_simps)
      moreover have "x \<noteq> ?gid \<Longrightarrow> get_global x (w_store w2) = get_global x (w_store w)" for x
        unfolding w2 get_transition by simp
      ultimately have "saga_leaves ?n bound env g w w2"
        using over step by (auto simp: leaves_def saga_over_def)
      with over Finish states t show ?thesis by (simp add: assms(1) split_beta del: saga_advance.simps)
    qed
  next
    case (Call i op)
    from saga_advance_decides_call [OF this]
    have op: "op = Action \<and> status = GSubmitted \<or> op = Compensate \<and> status = GAborting"
      and i: "i < ?n" "status_at ?gid op (w_store ?w) i = BPrepared" by auto
    have ready: "saga_ready ?gid ?n (w_store ?w)" and here: "get_global ?gid (w_store ?w) = Some r"
      and pos: "0 \<le> now (w_store ?w)"
      using Suc.prems by simp_all
    obtain res w2 where c: "run_state (saga_call env d g steps status i op) ?w = (res, w2)" by fastforce
    note out = saga_call_outcome [OF assms(1-3) ready i(1) op i(2) here Suc.prems(3) pos c]
    show ?thesis
    proof (cases res)
      case None
      with out have "saga_leaves ?n bound env g ?w w2" by simp
      from leaves_later [OF this] have "saga_leaves ?n bound env g w w2" by simp
      with None Call states c show ?thesis by (simp add: assms(1) del: saga_advance.simps)
    next
      case (Some s)
      with c have c': "run_state (saga_call env d g steps status i op) ?w = (Some s, w2)" by simp
      from saga_call_progress [OF assms(1) ready i(1) op i(2) c'] out Some
      have "saga_leaves ?n bound env g w (snd (run_state (saga_loop fuel env d g steps s) w2))"
        by (auto intro!: again)
      with Some Call states c show ?thesis by (simp add: assms(1) del: saga_advance.simps)
    qed
  qed (use st(1) in \<open>auto simp: saga_forward_offset split: option.splits if_splits\<close>)
qed

definition saga_setting ::
  "environment \<Rightarrow> driver \<Rightarrow> nat \<Rightarrow> int \<Rightarrow> saga_step list \<Rightarrow> string \<Rightarrow> store \<Rightarrow> bool" where
  "saga_setting env d fuel bound steps gid s \<longleftrightarrow>
     e_others env = (\<lambda>n s. s) \<and> waits_at_most bound d \<and> steps \<noteq> [] \<and> 2 * length steps + 1 < fuel \<and>
     saga_ready gid (length steps) s"

definition saga_open :: "driver \<Rightarrow> saga_step list \<Rightarrow> global_row \<Rightarrow> bool" where
  "saga_open d steps r \<longleftrightarrow> g_trans_type r = Saga \<and> js_steps (dr_json d) (g_payload r) = Some steps \<and>
     (g_status r = GSubmitted \<or> g_status r = GAborting)"

lemma saga_ready_clock: "saga_ready gid n (s\<lparr>st_clock := t\<rparr>) = saga_ready gid n s"
  by (simp add: saga_ready_def store_ok_def well_numbered_def list_branches_def branch_at_def)

lemma saga_ready_lock: "saga_ready gid n s \<Longrightarrow> saga_ready gid n (snd (lock_one_due owner l s))"
  by (auto simp: saga_ready_def store_ok_lock well_numbered_def list_branches_def branch_at_def)

lemma saga_ready_ok: "saga_ready gid n s \<Longrightarrow> store_ok s"
  by (simp add: saga_ready_def)

interpretation saga_home: retried gid env d fuel bound "saga_setting env d fuel bound steps gid"
  "saga_open d steps" saga_over
  for gid env d fuel bound steps
proof
  fix w :: world and g
  assume a: "saga_setting env d fuel bound steps gid (w_store w)"
    "get_global gid (w_store w) = Some g" "saga_open d steps g" "g_next_cron_time g = g_lease_until g"
    "0 \<le> now (w_store w)"
  have gid: "g_gid g = gid" using a(2) by (rule get_global_gid)
  have run: "process fuel env d g = saga_loop fuel env d g steps (g_status g)"
    using a(1,3) by (auto simp: saga_open_def saga_setting_def process_def prepared_timeout_to_def
        process_saga_def or_default_def)
  have "saga_leaves (length steps) bound env g w (snd (run_state (process fuel env d g) w))"
    unfolding run
  proof (rule saga_loop_outcome)
    show "kept_row g (g_status g) g" using a(3) by (auto simp: kept_row_def saga_open_def)
    show "saga_work (g_gid g) (length steps) (g_status g) (w_store w) < fuel"
      using saga_work_le [of "g_gid g" "length steps" "g_status g" "w_store w"] a(1)
      by (simp add: saga_setting_def)
  qed (use a gid in \<open>simp_all add: saga_setting_def\<close>)
  then show "leaves (saga_setting env d fuel bound steps gid) (saga_open d steps) saga_over gid bound env w
      (snd (run_state (process fuel env d g) w))"
    using a(1,3) gid by (auto simp: leaves_def saga_setting_def saga_open_def saga_going_def)
qed (auto simp: saga_setting_def saga_open_def saga_over_def saga_ready_clock saga_ready_lock saga_ready_ok
    schedulable_def take_lease_def)

section \<open>Properties\<close>



text \<open>Branches that cannot be reached in the first ten steps.\<close>

definition flaky :: environment where
  "flaky = \<lparr>e_others = \<lambda>n s. s, e_http = \<lambda>n c. if n < 10 then None else Some (200, []),
     e_grpc = \<lambda>n t c. if n < 10 then None else Some 0,
     e_local = \<lambda>name. Some (\<lambda>n c. if n < 10 then Unknown else Success), e_joined = \<lambda>n rs. rs\<rparr>"

lemma flaky_recovers: "answers_from 10 flaky"
  by (simp add: answers_from_def flaky_def from_http_def from_grpc_def grpc_ok_def sublist_code)

lemma flaky_quiet: "e_others flaky = (\<lambda>n s. s)"
  by (simp add: flaky_def)

lemma demo_waits: "waits_at_most 300 (demo_driver steps branches)"
  by (simp add: waits_at_most_def demo_driver_def with_config_def driver_config_default_def
      retry_policy_default_def policy_ok_def)

lemma tcc_demo_ready: "branches_ready ''g'' Confirm Cancel 1 tcc_demo" "st_clock tcc_demo = 7"
  "get_global x tcc_demo = (if x = ''g'' then Some (global_init 7 ''g'' Tcc GSubmitted ''[]'') else None)"
proof -
  let ?row = "\<lambda>op u. \<lparr>b_gid = ''g'', b_branch_id = ''01'', b_op = op, b_url = u, b_payload = [],
      b_status = BPrepared, b_create_time = 7, b_update_time = 7, b_finish_time = None\<rparr>"
  have rows: "st_branch tcc_demo = [?row Confirm ''http://c'', ?row Cancel ''http://x'']" by code_simp
  have glob: "st_global tcc_demo = [global_init 7 ''g'' Tcc GSubmitted ''[]'']" by code_simp
  have id: "branch_id 0 = ''01''" by code_simp
  have "store_ok tcc_demo"
    unfolding tcc_demo_def by (rule store_ok_register) simp
  moreover have "\<forall>b\<in>set (list_branches ''g'' tcc_demo). b_branch_id b = branch_id 0"
    by (auto simp: set_list_branches rows id)
  moreover have "branch_at ''g'' (branch_id 0) Confirm tcc_demo \<noteq> None"
    "branch_at ''g'' (branch_id 0) Cancel tcc_demo \<noteq> None"
    by (simp_all add: branch_at_def rows id row_at_Cons b_key_def)
  ultimately show "branches_ready ''g'' Confirm Cancel 1 tcc_demo"
    by (simp add: branches_ready_def max_branch_index_def)
  show "st_clock tcc_demo = 7" by code_simp
  show "get_global x tcc_demo = (if x = ''g'' then Some (global_init 7 ''g'' Tcc GSubmitted ''[]'') else None)"
    by (simp add: get_global_def glob row_at_Cons global_init_def)
qed


lemma saga_start_row:
  "get_global x saga_start = (if x = ''g'' then Some (the (get_global ''g'' saga_start)) else None)"
  "g_trans_type (the (get_global ''g'' saga_start)) = Saga"
  "g_status (the (get_global ''g'' saga_start)) = GSubmitted"
  "js_steps (dr_json (demo_driver two_steps [])) (g_payload (the (get_global ''g'' saga_start))) = Some two_steps"
  "st_clock saga_start = 5" "waits 5 300 (the (get_global ''g'' saga_start))"
proof -
  have glob: "st_global saga_start = [the (get_global ''g'' saga_start)]"
    and gid: "g_gid (the (get_global ''g'' saga_start)) = ''g''" by code_simp+
  show "get_global x saga_start = (if x = ''g'' then Some (the (get_global ''g'' saga_start)) else None)"
    by (subst get_global_def, subst glob) (simp add: row_at_Cons gid)
  show "js_steps (dr_json (demo_driver two_steps [])) (g_payload (the (get_global ''g'' saga_start))) = Some two_steps"
    by (simp add: demo_driver_def with_config_def demo_json_def)
  show "g_trans_type (the (get_global ''g'' saga_start)) = Saga"
    "g_status (the (get_global ''g'' saga_start)) = GSubmitted"
    "st_clock saga_start = 5" "waits 5 300 (the (get_global ''g'' saga_start))" by code_simp+
qed


end
