(* ===== verification/Worker_Stop.thy ===== *)
theory Worker_Stop
  imports Driver
begin

text \<open>
  Stopping a worker (\<^verbatim>\<open>crates/dtmrs-server/src/driver.rs\<close>: \<open>worker_loop\<close> with its flag). The flag is
  looked at before each turn only, so a round that has begun is finished: a stopped worker has made
  some whole turns, and what holds after any number of turns holds when it has stopped.
\<close>

text \<open>\<open>stop k\<close>: the flag, as it stands at step \<open>k\<close>. The result says whether the worker has stopped.\<close>

primrec worker_until :: "(nat \<Rightarrow> bool) \<Rightarrow> nat \<Rightarrow> nat \<Rightarrow> environment \<Rightarrow> driver \<Rightarrow> bool prog" where
  "worker_until stop 0 fuel env d = ret False"
| "worker_until stop (Suc rounds) fuel env d = do {
     k \<leftarrow> State (\<lambda>w. (w_step w, w));
     if stop k then ret True
     else do {
       due_row \<leftarrow> access env (lock_one_due (dr_owner d) (dr_lease d));
       case due_row of
         None \<Rightarrow> worker_until stop rounds fuel env d
       | Some g \<Rightarrow> do { process fuel env d g; worker_until stop rounds fuel env d }
     }
   }"

theorem stopped_between_turns:
  "\<exists>k\<le>rounds. snd (run_state (worker_until stop rounds fuel env d) w) =
     snd (run_state (worker_loop k fuel env d) w)"
proof (induction rounds arbitrary: w)
  case (Suc rounds)
  show ?case
  proof (cases "stop (w_step w)")
    case True
    then show ?thesis by (intro exI [of _ 0]) simp
  next
    case False
    let ?l = "run_state (access env (lock_one_due (dr_owner d) (dr_lease d))) w"
    define w1 where "w1 = (case fst ?l of None \<Rightarrow> snd ?l | Some g \<Rightarrow> snd (run_state (process fuel env d g) (snd ?l)))"
    from Suc obtain k where "k \<le> rounds"
      "snd (run_state (worker_until stop rounds fuel env d) w1) = snd (run_state (worker_loop k fuel env d) w1)"
      by blast
    with False show ?thesis
      by (intro exI [of _ "Suc k"]) (auto simp: w1_def split_beta split: option.splits)
  qed
qed simp

end
