(* ===== verification/Barrier_Schema.thy ===== *)
theory Barrier_Schema
  imports Barrier Schema
begin

text \<open>
  The table of the barrier (\<^verbatim>\<open>crates/dtmrs-barrier/src/lib.rs\<close>: \<open>migrate\<close>) and that every row a
  barrier writes fits it on every backend: on MySQL \<open>INSERT IGNORE\<close> cuts what is too long without
  a word, and two transactions could be cut to one key.
\<close>

definition barrier_table :: "backend \<Rightarrow> table_def" where
  "barrier_table be =
     \<lparr>td_name = ''barrier'',
      td_columns =
        [(''trans_type'', id_short be, not_null),
         (''gid'', id_text be, not_null),
         (''branch_id'', id_text be, not_null),
         (''op'', id_short be, not_null),
         (''barrier_id'', id_short be, not_null),
         (''reason'', id_short be, not_null),
         (''create_time'', ''BIGINT'', not_null)],
      td_key = [''gid'', ''branch_id'', ''op'', ''barrier_id''],
      td_inline = []\<rparr>"

definition barrier_migrate :: "backend \<Rightarrow> catalog \<Rightarrow> catalog" where
  "barrier_migrate be c = create_if_absent (barrier_table be) c"

lemma barrier_migrate_idempotent: "barrier_migrate be (barrier_migrate be c) = barrier_migrate be c"
  by (simp add: barrier_migrate_def create_if_absent_def split: option.split)

definition barrier_cells :: "barrier_row \<Rightarrow> (string \<times> string) list" where
  "barrier_cells r =
     [(''trans_type'', r_trans_type r), (''gid'', r_gid r), (''branch_id'', r_branch_id r),
      (''op'', r_op r), (''barrier_id'', r_barrier_id r), (''reason'', r_reason r)]"

definition barrier_short :: "barrier_row \<Rightarrow> bool" where
  "barrier_short r \<longleftrightarrow>
     chars_count (r_trans_type r) \<le> id_short_max \<and> chars_count (r_gid r) \<le> id_max \<and>
     chars_count (r_branch_id r) \<le> id_max \<and> chars_count (r_op r) \<le> id_short_max \<and>
     chars_count (r_barrier_id r) \<le> id_short_max \<and> chars_count (r_reason r) \<le> id_short_max"

lemma barrier_fits: "barrier_short r \<Longrightarrow> row_fits (barrier_table be) (barrier_cells r)"
  by (auto simp: row_fits_def barrier_cells_def column_type_def barrier_table_def id_types barrier_short_def)

lemma length_dec: "n < 10 ^ Suc k \<Longrightarrow> length (dec n) \<le> Suc k"
proof (induction k arbitrary: n)
  case 0
  then show ?case by (subst dec.simps) simp
next
  case (Suc k)
  then have "n div 10 < 10 ^ Suc k" by (simp add: less_mult_imp_div_less)
  from Suc.IH [OF this] show ?case by (subst dec.simps) simp
qed

lemma barrier_id_short: "chars_count (pad2 (unat (c :: 32 word))) \<le> id_short_max"
proof -
  have "unat c < 2 ^ 32" using unsigned_less [of c] by simp
  then have "unat c < 10 ^ Suc 9" by simp
  then have "length (dec (unat c)) \<le> 10" using length_dec [of "unat c" 9] by simp
  then have "length (pad2 (unat c)) \<le> 12" by (simp add: pad2_def)
  moreover have "chars_count s \<le> length s" for s by (simp add: chars_count_def)
  ultimately show ?thesis using le_trans by (fastforce simp: id_short_max_def)
qed

text \<open>What \<open>barrier_new\<close> lets through, and every call keeps.\<close>

definition barrier_ok :: "branch_barrier \<Rightarrow> bool" where
  "barrier_ok b \<longleftrightarrow>
     chars_count (bb_trans_type b) \<le> id_short_max \<and> chars_count (bb_gid b) \<le> id_max \<and>
     chars_count (bb_branch_id b) \<le> id_max"

lemma barrier_new_ok: "barrier_new be tt gid bid op = Inr b \<Longrightarrow> barrier_ok b"
  by (auto simp: barrier_new_def barrier_ok_def check_len_cases split: if_splits option.splits)

lemma barrier_insert_short:
  assumes "barrier_ok b" "chars_count bid \<le> id_short_max" "\<forall>r\<in>set rows. barrier_short r"
  shows "\<forall>r\<in>set (snd (barrier_insert b t op bid rows)). barrier_short r"
  using assms set_insert_ignore
  by (fastforce simp: barrier_insert_def barrier_ok_def barrier_short_def branch_op_str_fits)

lemma decide_short:
  assumes "barrier_ok b" "\<forall>r\<in>set rows. barrier_short r"
  shows "barrier_ok (snd (fst (decide b t rows)))" "\<forall>r\<in>set (snd (decide b t rows)). barrier_short r"
proof -
  obtain bid b' where n: "next_barrier_id b = (bid, b')" by fastforce
  then have b': "barrier_ok b'" "chars_count bid \<le> id_short_max"
    using assms(1) barrier_id_short by (auto simp: next_barrier_id_def barrier_ok_def Let_def)
  show "barrier_ok (snd (fst (decide b t rows)))"
    using n b' by (simp add: decide_def split_beta Let_def split: option.split)
  show "\<forall>r\<in>set (snd (decide b t rows)). barrier_short r"
  proof (cases "origin_op (bb_op b')")
    case None
    with n barrier_insert_short [OF b' assms(2), of t "bb_op b'"] show ?thesis
      by (simp add: decide_def split_beta Let_def)
  next
    case (Some org)
    with n barrier_insert_short [OF b' barrier_insert_short [OF b' assms(2), of t org], of t "bb_op b'"]
    show ?thesis by (simp add: decide_def split_beta Let_def)
  qed
qed

text \<open>Calls of one barrier at given times.\<close>

fun decide_all :: "branch_barrier \<Rightarrow> int list \<Rightarrow> barrier_row list \<Rightarrow> barrier_row list" where
  "decide_all b [] rows = rows"
| "decide_all b (t # ts) rows =
     (let r = decide b t rows in decide_all (snd (fst r)) ts (snd r))"

text \<open>
  However often a barrier is called, every row it writes fits the columns of its table on every
  backend, so that no key is cut.
\<close>

theorem barrier_rows_fit:
  assumes "barrier_new be tt gid bid op = Inr b" "r \<in> set (decide_all b ts [])"
  shows "row_fits (barrier_table be) (barrier_cells r)"
proof -
  have "\<forall>r\<in>set (decide_all b ts rows). barrier_short r"
    if "barrier_ok b" "\<forall>r\<in>set rows. barrier_short r" for b rows
    using that by (induction b ts rows rule: decide_all.induct) (simp_all add: Let_def decide_short)
  from this [OF barrier_new_ok [OF assms(1)], of "[]"] assms(2) show ?thesis
    by (intro barrier_fits) simp
qed

end
