(* ===== verification/Txn_History.thy ===== *)
theory Txn_History
  imports Confirmed
begin

text \<open>
  The history of one transaction over all the rounds it takes, by any workers with any
  configurations: whoever leases it runs a round, and in between and during the rounds everybody
  else does to the store what they like, except that only the worker that holds the lease records
  answers for the transaction and ends it. What an ended transaction means is stated over this
  history: the calls made from its creation on. A round that stops early, at the end of one turn
  of its loop, is one with little fuel. Workers that die elsewhere in a round are in \<open>Crash\<close>.
\<close>

section \<open>The rest of the world\<close>

definition status_of :: "string \<Rightarrow> store \<Rightarrow> global_status option" where
  "status_of gid s = map_option g_status (get_global gid s)"

text \<open>The answers on record.\<close>

definition on_record :: "string \<Rightarrow> store \<Rightarrow> (string \<times> branch_op \<times> branch_status) set" where
  "on_record gid s =
     {(b_branch_id b, b_op b, b_status b) | b.
        b \<in> set (st_branch s) \<and> b_gid b = gid \<and> b_status b \<noteq> BPrepared}"

definition elsewhere :: "string \<Rightarrow> store \<Rightarrow> store \<Rightarrow> bool" where
  "elsewhere gid s s' \<longleftrightarrow>
     evolves s s' \<and> on_record gid s' \<subseteq> on_record gid s \<and>
     (clear_numbers gid s \<longrightarrow> clear_numbers gid s') \<and>
     (\<forall>t. is_final t \<longrightarrow> status_of gid s' = Some t \<longrightarrow> status_of gid s = Some t)"

definition apart :: "string \<Rightarrow> environment \<Rightarrow> bool" where
  "apart gid env \<longleftrightarrow> (\<forall>n s. elsewhere gid s (e_others env n s))"

lemma elsewhere_refl [simp]: "elsewhere gid s s"
  by (simp add: elsewhere_def)

lemma acked_on_record: "acked gid s = {(i, op). (i, op, BSucceed) \<in> on_record gid s}"
  by (auto simp: acked_def on_record_def)

lemma elsewhere_facts:
  assumes "elsewhere gid s s'"
  shows "evolves s s'" "acked gid s' \<subseteq> acked gid s" "branch_kept (st_branch s) (st_branch s')"
    "clear_numbers gid s \<Longrightarrow> clear_numbers gid s'" "store_ok s \<Longrightarrow> store_ok s'"
  using assms by (auto simp: elsewhere_def acked_on_record evolves_def)

lemma apart_facts:
  assumes "apart gid env" shows "alone_on gid env" "rely env"
proof -
  have e: "elsewhere gid s (e_others env n s)" for s n using assms by (simp add: apart_def)
  show "alone_on gid env"
    unfolding alone_on_def using elsewhere_facts(2-4) [OF e] by blast
  show "rely env" unfolding rely_def using elsewhere_facts(1) [OF e] by blast
qed

lemma status_of_ops [simp]:
  "status_of gid (release_lease x l i s) = status_of gid s"
  "status_of gid (set_branch_status x bid op st s) = status_of gid s"
proof -
  have "g_status (released j t g) = g_status g" for j t g by (simp add: released_def)
  then show "status_of gid (release_lease x l i s) = status_of gid s"
    by (cases "get_global x s"; cases "gid = x") (simp_all add: status_of_def get_release_lease)
  show "status_of gid (set_branch_status x bid op st s) = status_of gid s"
    by (simp add: status_of_def get_branch_ops)
qed

lemma status_of_transition:
  "status_of x (snd (transition gid f t tt r s)) =
     (if x = gid \<and> status_of x s = Some f then Some t else status_of x s)"
proof -
  have "g_status (put_status t c m g) = t" for c m g by (simp add: put_status_def)
  then show ?thesis
    by (cases "get_global x s"; cases "x = gid") (simp_all add: status_of_def get_transition)
qed

section \<open>An end is written\<close>

text \<open>If the transaction has ended, the round has written so.\<close>

definition written :: "string \<Rightarrow> global_status \<Rightarrow> world \<Rightarrow> bool" where
  "written gid t w \<longleftrightarrow>
     (status_of gid (w_store w) = Some t \<longrightarrow> (\<exists>f ok. Status f t ok \<in> set (w_trace w)))"

lemma written_others:
  assumes "apart gid env" "is_final t" "written gid t w"
  shows "written gid t (w\<lparr>w_store := e_others env n (w_store w)\<rparr>)"
proof -
  have "status_of gid (e_others env n (w_store w)) = Some t \<longrightarrow> status_of gid (w_store w) = Some t"
    using assms(1,2) unfolding apart_def elsewhere_def by blast
  with assms(3) show ?thesis by (simp add: written_def)
qed

lemma written_round:
  assumes "apart gid env" "is_final t"
  shows "round_inv (written gid t) env g UNIV"
proof -
  have acc: "keeps (written gid t) (access env f)"
    if "\<And>s. status_of gid (snd (f s)) = status_of gid s" for f :: "store \<Rightarrow> 'x \<times> store"
  proof (rule keeps_access)
    fix w assume "written gid t w"
    from written_others [OF assms this, of "w_step w"] that
    show "written gid t (w\<lparr>w_store := snd (f (e_others env (w_step w) (w_store w))), w_step := Suc (w_step w)\<rparr>)"
      by (simp add: written_def)
  qed
  show ?thesis
    by unfold_locales
      (auto simp: observe_def execute_def intro!: acc, auto simp: keeps_def triple_def written_def)
qed

lemma keeps_written_transition:
  assumes "apart gid env" "is_final t"
  shows "keeps (written gid t) (drv_transition env g from_st to_st r)"
proof -
  have step: "written gid t (w\<lparr>w_store := snd (transition x from_st to_st tt r (e_others env n (w_store w))),
      w_step := m, w_trace := w_trace w @ [Status from_st to_st ok]\<rparr>)"
    if "written gid t w" for w x tt n m ok
  proof -
    from written_others [OF assms that, of n]
    have "status_of gid (e_others env n (w_store w)) = Some t \<longrightarrow> (\<exists>f ok. Status f t ok \<in> set (w_trace w))"
      by (simp add: written_def)
    moreover have "status_of gid (snd (transition x from_st to_st tt r s)) = Some t \<Longrightarrow>
        t = to_st \<or> status_of gid s = Some t" for s
      by (simp add: status_of_transition split: if_splits)
    ultimately show ?thesis by (auto simp: written_def)
  qed
  have rel: "keeps (written gid t) (execute env (release_lease x l i))" for x l i
    using round_inv.rel [OF written_round [OF assms], of "g\<lparr>g_gid := x\<rparr>" l i] by simp
  show ?thesis
  proof (cases "from_st = to_st")
    case False
    show ?thesis
      unfolding keeps_def
    proof (rule tripleI)
      fix w assume w: "written gid t w"
      define s where "s = e_others env (w_step w) (w_store w)"
      define ok where "ok = fst (transition (g_gid g) from_st to_st (g_trans_type g) r s)"
      define w1 where "w1 = w\<lparr>w_store := snd (transition (g_gid g) from_st to_st (g_trans_type g) r s),
        w_step := Suc (w_step w), w_trace := w_trace w @ [Status from_st to_st ok]\<rparr>"
      have "written gid t w1" unfolding w1_def s_def by (rule step [OF w])
      moreover have "snd (run_state (drv_transition env g from_st to_st r) w) =
          (if ok then w1 else snd (run_state (execute env (release_lease (g_gid g) (g_lease_until g) 0)) w1))"
        using False by (simp add: drv_transition_def split_beta w1_def ok_def s_def)
      ultimately show "written gid t (snd (run_state (drv_transition env g from_st to_st r) w))"
        using keepsD [OF rel] by simp
    qed
  qed (simp add: drv_transition_def keeps_return)
qed

lemmas written_rules = keeps_intro keeps_written_transition
  round_inv.keeps_call_branch [OF written_round] round_inv.keeps_retry_later [OF written_round]
  round_inv.keeps_two_phase_call [OF written_round] round_inv.bst [OF written_round]
  round_inv.obs [OF written_round] round_inv.clk [OF written_round] round_inv.rel [OF written_round]

lemma keeps_written_saga:
  assumes "apart gid env" "is_final t"
  shows "keeps (written gid t) (process_saga fuel env d g)"
proof -
  have "keeps (written gid t) (saga_loop fuel env d g steps status)" for steps status
  proof (induction fuel arbitrary: status)
    case (Suc fuel)
    show ?case
      unfolding saga_loop.simps saga_call_def Let_def
      by (intro written_rules Suc assms UNIV_I)
  qed (simp add: keeps_return)
  then show ?thesis unfolding process_saga_def Let_def by (intro written_rules assms)
qed

lemma keeps_written_two_phase:
  assumes "apart gid env" "is_final t"
  shows "keeps (written gid t) (drive_two_phase fuel env d g fwd bwd)"
proof -
  have "keeps (written gid t) (two_phase_loop fuel env d g n fwd bwd)" for n
  proof (induction fuel)
    case (Suc fuel)
    show ?case unfolding two_phase_loop.simps by (intro written_rules Suc assms UNIV_I)
  qed (simp add: keeps_return)
  then show ?thesis unfolding drive_two_phase_def Let_def by (intro written_rules assms)
qed

lemma keeps_written_process:
  assumes "apart gid env" "is_final t" "g_trans_type g = Saga \<or> g_trans_type g = Tcc \<or> g_trans_type g = Xa"
  shows "keeps (written gid t) (process fuel env d g)"
  using assms(3)
  by (auto simp: process_def process_prepared_def process_tcc_def process_xa_def Let_def
      split: option.split
      intro!: written_rules keeps_written_saga keeps_written_two_phase assms(1,2))

section \<open>Histories without death\<close>

text \<open>
  \<open>lived js gid s0 s C\<close>: from \<open>s0\<close> the store got to \<open>s\<close>, and the rounds on the transaction made the
  calls and status writes in \<open>C\<close>, in this order. Payloads are read as \<open>js\<close> says. \<open>refused\<close> is an
  action of a saga that was refused and recorded so, and no more.
\<close>

inductive lived :: "json \<Rightarrow> string \<Rightarrow> store \<Rightarrow> store \<Rightarrow> event list \<Rightarrow> bool" for js gid s0 where
  created: "lived js gid s0 s0 []"
| others: "lived js gid s0 s C \<Longrightarrow> elsewhere gid s s' \<Longrightarrow> lived js gid s0 s' C"
| round: "lived js gid s0 s C \<Longrightarrow> apart gid env \<Longrightarrow> joins env \<Longrightarrow> dr_json d = js \<Longrightarrow>
    lock_one_due (dr_owner d) (dr_lease d) s = (Some g, s') \<Longrightarrow> g_gid g = gid \<Longrightarrow>
    w = snd (run_state (process fuel env d g) \<lparr>w_store = s', w_step = n, w_trace = []\<rparr>) \<Longrightarrow>
    lived js gid s0 (w_store w) (C @ w_trace w)"
| refused: "lived js gid s0 s C \<Longrightarrow> get_global gid s = Some g \<Longrightarrow> g_trans_type g = Saga \<Longrightarrow>
    c_gid c = gid \<Longrightarrow> c_op c = Action \<Longrightarrow>
    lived js gid s0 (set_branch_status gid (c_branch_id c) Action BFailed s) (C @ [Called c Failure])"

lemma agreed_append: "agreed gid (C @ D) = agreed gid C \<union> agreed gid D"
  by (auto simp: agreed_def)

lemma locked_row:
  assumes "lock_one_due owner lease s = (Some g, s')" "store_ok s"
  shows "get_global (g_gid g) s' = Some g" "\<not> is_final (g_status g)" "evolves s s'" "store_ok s'"
    "st_branch s' = st_branch s"
proof -
  show "get_global (g_gid g) s' = Some g" "\<not> is_final (g_status g)"
    using assms sql.lock_Some [of s owner lease g s'] by (auto simp: fun_eq_iff free_at_def schedulable_def)
  show "evolves s s'" "st_branch s' = st_branch s"
    using assms evolves_lock [of s owner lease] branch_table_unchanged(5) [of owner lease s] by simp_all
  with assms(2) show "store_ok s'" using evolves_ok by blast
qed

text \<open>One round, as a step of the store.\<close>

lemma round_evolves:
  assumes "apart gid env" "lock_one_due owner lease s = (Some g, s')" "store_ok s"
    and "w = snd (run_state (process fuel env d g) \<lparr>w_store = s', w_step = n, w_trace = []\<rparr>)"
  shows "evolves s' (w_store w)"
proof -
  note l = locked_row [OF assms(2,3)]
  have "life s' g \<lparr>w_store = s', w_step = n, w_trace = []\<rparr>" using l by (simp add: txn_inv_def)
  from keepsD [OF process_respects_life_cycle [OF apart_facts(2) [OF assms(1)] l(2)] this, of fuel d]
  show ?thesis unfolding assms(4) by (simp add: txn_inv_def)
qed

lemma lived_evolves:
  assumes "lived js gid s0 s C" "store_ok s0" shows "evolves s0 s \<and> store_ok s"
  using assms(1)
proof induction
  case (others s C s')
  then show ?case using elsewhere_facts(1,5) evolves_trans by blast
next
  case (round s C env d g s' w fuel n)
  then have ok: "store_ok s" and e: "evolves s0 s" by simp_all
  note l = locked_row [OF round.hyps(5) ok]
  from e l(3) round_evolves [OF round.hyps(2,5) ok round.hyps(7)]
  have "evolves s0 (w_store w)" by (meson evolves_trans)
  with assms(2) show ?case using evolves_ok by blast
next
  case (refused s C g c)
  then have "evolves s0 (set_branch_status gid (c_branch_id c) Action BFailed s)"
    using evolves_set_branch_status evolves_trans by blast
  with assms(2) show ?case using evolves_ok by blast
qed (simp add: assms(2))

text \<open>What the store says of the transaction, measured against the calls made.\<close>

definition settled_account ::
  "driver \<Rightarrow> global_row \<Rightarrow> branch_row list \<Rightarrow> store \<Rightarrow> event list \<Rightarrow> bool" where
  "settled_account d g rows s C \<longleftrightarrow>
     acked (g_gid g) s \<subseteq> agreed (g_gid g) C \<and> clear_numbers (g_gid g) s \<and>
     (\<forall>t. is_final t \<longrightarrow> status_of (g_gid g) s = Some t \<longrightarrow>
        (\<forall>x\<in>owed d g t rows. \<exists>op\<in>snd x. (fst x, op) \<in> agreed (g_gid g) C))"

lemma owed_cong:
  "dr_json d = dr_json d' \<Longrightarrow> row_evolves g h \<Longrightarrow> owed d h t rows = owed d' g t rows"
  by (simp add: owed_def row_evolves_def split: trans_type.split)

text \<open>The histories spoken of: a saga, TCC or XA transaction no branch of which has answered yet.\<close>

definition fresh_txn :: "string \<Rightarrow> global_row \<Rightarrow> store \<Rightarrow> bool" where
  "fresh_txn gid g0 s0 \<longleftrightarrow>
     store_ok s0 \<and> get_global gid s0 = Some g0 \<and> \<not> is_final (g_status g0) \<and>
     (g_trans_type g0 = Saga \<or> g_trans_type g0 = Tcc \<or> g_trans_type g0 = Xa) \<and>
     on_record gid s0 = {} \<and> clear_numbers gid s0"

lemma fresh_txn_gid: "fresh_txn gid g0 s0 \<Longrightarrow> g_gid g0 = gid"
  unfolding fresh_txn_def using get_global_gid by blast

lemma fresh_txn_row:
  assumes "fresh_txn gid g0 s0" "evolves s0 s"
  obtains g where "get_global gid s = Some g" "row_evolves g0 g"
  using assms unfolding fresh_txn_def by (metis evolves_status)

lemma round_account:
  assumes "apart gid env" "joins env" "dr_json d = dr_json d0"
    and "lock_one_due (dr_owner d) (dr_lease d) s = (Some g, s')" "g_gid g = gid"
    and "w = snd (run_state (process fuel env d g) \<lparr>w_store = s', w_step = n, w_trace = []\<rparr>)"
    and "store_ok s" "row_evolves g0 g" "branch_kept (st_branch s0) (st_branch s)"
    and "g_trans_type g = Saga \<or> g_trans_type g = Tcc \<or> g_trans_type g = Xa"
    and "settled_account d0 g0 (st_branch s0) s C"
  shows "settled_account d0 g0 (st_branch s0) (w_store w) (C @ w_trace w)"
proof -
  let ?w = "\<lparr>w_store = s', w_step = n, w_trace = []\<rparr>"
  note l = locked_row [OF assms(4,7)]
  have gid: "g_gid g0 = gid" using assms(5,8) by (simp add: row_evolves_def)
  define p where "p = (\<lambda>t. \<lparr>pl_gid = gid, pl_known = agreed gid C, pl_rows = st_branch s0, pl_goal = t,
    pl_owed = owed d g t (st_branch s0)\<rparr>)"
  have "honest (p t) ?w" for t
    using assms(9,11) l(5) gid
    by (auto simp: p_def honest_def honest_in_def known_def settled_account_def acked_table [of s' s]
        clear_table [of s' s])
  moreover have "keeps (honest (p t)) (process fuel env d g)" if "is_final t" for t
    by (rule keeps_honest_process)
      (use that assms(1,2,5) apart_facts in \<open>cases t; simp add: p_def debts_def\<close>)+
  ultimately have h: "honest (p t) w" if "is_final t" for t using that keepsD assms(6) by blast
  have known: "known (p t) (w_trace w) = agreed gid (C @ w_trace w)" for t
    by (simp add: p_def known_def agreed_append)
  have acct: "acked gid (w_store w) \<subseteq> agreed gid (C @ w_trace w)" "clear_numbers gid (w_store w)"
    using h [of GFailed] known [of GFailed] by (simp_all add: p_def honest_def honest_in_def)
  have "\<exists>op\<in>snd x. (fst x, op) \<in> agreed gid (C @ w_trace w)"
    if t: "is_final t" "status_of gid (w_store w) = Some t" and x: "x \<in> owed d0 g0 t (st_branch s0)" for t x
  proof -
    have "written gid t ?w"
      using l(1,2) t(1) assms(5) by (auto simp: written_def status_of_def)
    from keepsD [OF keeps_written_process [OF assms(1) t(1) assms(10)] this, of fuel d]
    obtain f ok where "Status f t ok \<in> set (w_trace w)" unfolding assms(6) [symmetric] written_def
      using t(2) by blast
    with h [OF t(1)] have "paid (p t) (w_trace w)" by (auto simp: p_def honest_def honest_in_def)
    with x owed_cong [OF assms(3,8)] known show ?thesis by (auto simp: p_def paid_def)
  qed
  with acct show ?thesis unfolding settled_account_def gid by blast
qed

lemma lived_account:
  assumes "lived (dr_json d0) gid s0 s C" "fresh_txn gid g0 s0"
  shows "settled_account d0 g0 (st_branch s0) s C"
  using assms(1)
proof induction
  case created
  have "acked gid s0 = {}" using assms(2) by (simp add: fresh_txn_def acked_on_record)
  with assms(2) fresh_txn_gid [OF assms(2)] show ?case
    by (auto simp: settled_account_def fresh_txn_def status_of_def)
next
  case (others s C s')
  note gid = fresh_txn_gid [OF assms(2)]
  from others.hyps(2) have "status_of gid s' = Some t \<Longrightarrow> is_final t \<Longrightarrow> status_of gid s = Some t" for t
    by (simp add: elsewhere_def)
  with others.IH elsewhere_facts(2,4) [OF others.hyps(2)] show ?case
    unfolding settled_account_def gid by blast
next
  case (round s C env d g s' w fuel n)
  have e: "evolves s0 s" "store_ok s"
    using lived_evolves [OF round.hyps(1)] assms(2) by (simp_all add: fresh_txn_def)
  note l = locked_row [OF round.hyps(5) e(2)]
  have "evolves s0 s'" using e(1) l(3) by (rule evolves_trans)
  with assms(2) obtain h where "get_global gid s' = Some h" "row_evolves g0 h" by (rule fresh_txn_row)
  with l(1) round.hyps(6) have g: "row_evolves g0 g" by simp
  then have "g_trans_type g = g_trans_type g0" by (simp add: row_evolves_def)
  moreover have "branch_kept (st_branch s0) (st_branch s)" using e(1) by (simp add: evolves_def)
  ultimately show ?case
    using round_account [OF round.hyps(2-7) e(2) g _ _ round.IH] assms(2)
    by (simp add: fresh_txn_def)
next
  case (refused s C g c)
  note gid = fresh_txn_gid [OF assms(2)]
  have "agreed gid C \<subseteq> agreed gid (C @ [Called c Failure])" by (simp add: agreed_append)
  moreover have "acked gid (set_branch_status gid (c_branch_id c) Action BFailed s) \<subseteq> acked gid s"
    using acked_set_status [of gid gid "c_branch_id c" Action BFailed s] by simp
  ultimately show ?case
    using refused.IH clear_set_status [of gid s gid "c_branch_id c" Action BFailed]
    unfolding settled_account_def gid status_of_ops by blast
qed

end
