(* ===== verification/Txn_Direction.thy ===== *)
theory Txn_Direction
  imports Txn_History
begin

text \<open>
  A transaction goes one way: over its whole history a TCC or XA transaction is either confirmed
  or cancelled, and a saga that ends as succeeded has not called a compensation.
\<close>

section \<open>Two phases\<close>

definition was_called :: "string \<Rightarrow> branch_op \<Rightarrow> event list \<Rightarrow> bool" where
  "was_called gid op C \<longleftrightarrow> (\<exists>c r. Called c r \<in> set C \<and> c_gid c = gid \<and> c_op c = op)"

lemma was_called_append [simp]: "was_called gid op (C @ D) \<longleftrightarrow> was_called gid op C \<or> was_called gid op D"
  by (auto simp: was_called_def)

lemma was_called_Nil [simp]: "\<not> was_called gid op []"
  by (simp add: was_called_def)

lemma was_called_code [code]:
  "was_called gid op C \<longleftrightarrow>
     list_ex (\<lambda>e. case e of Called c r \<Rightarrow> c_gid c = gid \<and> c_op c = op | _ \<Rightarrow> False) C"
  by (induction C) (auto simp: was_called_def split: event.split)

definition turned_back :: "string \<Rightarrow> store \<Rightarrow> bool" where
  "turned_back gid s \<longleftrightarrow> status_of gid s = Some GAborting \<or> status_of gid s = Some GFailed"

definition gone_ahead :: "string \<Rightarrow> store \<Rightarrow> bool" where
  "gone_ahead gid s \<longleftrightarrow> status_of gid s = Some GSubmitted \<or> status_of gid s = Some GSucceed"

definition one_way :: "branch_op \<Rightarrow> branch_op \<Rightarrow> string \<Rightarrow> store \<Rightarrow> event list \<Rightarrow> bool" where
  "one_way fwd bwd gid s C \<longleftrightarrow>
     (\<forall>op. was_called gid op C \<longrightarrow> op = fwd \<and> gone_ahead gid s \<or> op = bwd \<and> turned_back gid s)"

definition two_phase_mode :: "trans_type \<Rightarrow> branch_op \<Rightarrow> branch_op \<Rightarrow> bool" where
  "two_phase_mode tt fwd bwd \<longleftrightarrow>
     tt = Tcc \<and> fwd = Confirm \<and> bwd = Cancel \<or> tt = Xa \<and> fwd = Commit \<and> bwd = Rollback"

lemma two_phase_direction_stays:
  assumes "evolves s s'" "get_global gid s = Some g" "g_trans_type g = Tcc \<or> g_trans_type g = Xa"
  shows "turned_back gid s \<Longrightarrow> turned_back gid s'" "gone_ahead gid s \<Longrightarrow> gone_ahead gid s'"
proof -
  obtain g' where g': "get_global gid s' = Some g'" "reach (g_trans_type g) (g_status g) (g_status g')"
    using assms(1,2) by (auto simp: row_evolves_def elim: evolves_status)
  with assms(2,3) show "turned_back gid s \<Longrightarrow> turned_back gid s'" "gone_ahead gid s \<Longrightarrow> gone_ahead gid s'"
    by (auto simp: turned_back_def gone_ahead_def status_of_def reach_def)
qed

text \<open>A round that starts prepared calls nothing before it has turned the transaction to rollback.\<close>

definition silent :: "world \<Rightarrow> bool" where
  "silent w \<longleftrightarrow> (\<forall>c r. Called c r \<notin> set (w_trace w))"

abbreviation backed :: "store \<Rightarrow> global_row \<Rightarrow> world \<Rightarrow> bool" where
  "backed s0 g w \<equiv> turned_back (g_gid g) (w_store w) \<and> life s0 g w"

lemma backed_drive:
  assumes "rely env" "g_trans_type g = Tcc \<or> g_trans_type g = Xa" "g_status g' = GAborting"
    and "g_gid g' = g_gid g" "g_trans_type g' = g_trans_type g"
  shows "keeps (backed s0 g) (drive_two_phase fuel env d g' fwd bwd)"
  unfolding keeps_def
proof (rule tripleI)
  fix w assume w: "backed s0 g w"
  let ?w = "snd (run_state (drive_two_phase fuel env d g' fwd bwd) w)"
  have k: "keeps (life s1 g') (drive_two_phase fuel env d g' fwd bwd)" for s1
    by (rule keeps_drive_two_phase [OF assms(1)]) (simp add: assms(3))
  have "life s0 g' w" "life (w_store w) g' w" using w assms(4,5) by (simp_all add: txn_inv_def)
  from keepsD [OF k this(1)] keepsD [OF k this(2)] have l: "life s0 g' ?w" "evolves (w_store w) (w_store ?w)"
    by (simp_all add: txn_inv_def)
  obtain h where "get_global (g_gid g) (w_store w) = Some h" "g_trans_type h = g_trans_type g"
    using w by (auto simp: txn_inv_def)
  with two_phase_direction_stays(1) [OF l(2) this(1)] assms(2) w have "turned_back (g_gid g) (w_store ?w)"
    by simp
  with l(1) assms(4,5) show "backed s0 g ?w" by (simp add: txn_inv_def)
qed

lemma prepared_turns:
  assumes "rely env"
  shows "triple (\<lambda>w. silent w \<and> life s0 g w) (drv_transition env g GPrepared GAborting r)
    (\<lambda>ok w. life s0 g w \<and> (if ok then turned_back (g_gid g) (w_store w) else silent w))"
proof (rule tripleI)
  fix w assume w: "silent w \<and> life s0 g w"
  let ?t = "run_state (drv_transition env g GPrepared GAborting r) w"
  let ?s = "e_others env (w_step w) (w_store w)"
  have "life s0 g (snd ?t)"
    using keepsD [OF life_transition [OF assms]] w by (simp add: reach_def)
  moreover have "silent (snd ?t)"
    using w by (auto simp: drv_transition_def silent_def split_beta)
  moreover have "turned_back (g_gid g) (w_store (snd ?t))" if "fst ?t"
  proof -
    have ok: "fst (transition (g_gid g) GPrepared GAborting (g_trans_type g) r ?s)"
      using that by (simp add: drv_transition_def split_beta split: if_splits)
    have "store_ok ?s" using w assms evolves_ok unfolding txn_inv_def rely_def by blast
    with ok have "status_of (g_gid g) ?s = Some GPrepared"
      by (auto simp: fst_transition store_ok_def status_of_def)
    with ok show ?thesis
      by (simp add: drv_transition_def split_beta turned_back_def status_of_transition)
  qed
  ultimately show "life s0 g (snd ?t) \<and>
      (if fst ?t then turned_back (g_gid g) (w_store (snd ?t)) else silent (snd ?t))" by simp
qed

lemma triple_option:
  "triple P m Q \<Longrightarrow> (\<And>y. triple P (f y) Q) \<Longrightarrow>
   triple P (case x of None \<Rightarrow> m | Some y \<Rightarrow> f y) Q"
  by (cases x) simp_all

lemma prepared_round:
  assumes "rely env" "two_phase_mode (g_trans_type g) fwd bwd" "g_status g = GPrepared"
  shows "triple (\<lambda>w. silent w \<and> life s0 g w) (process fuel env d g)
    (\<lambda>_ w. silent w \<or> turned_back (g_gid g) (w_store w))"
proof -
  have prep: "process fuel env d g = process_prepared fuel env d g GAborting"
    and mode: "g_trans_type g = Tcc \<or> g_trans_type g = Xa"
    using assms(2,3) by (auto simp: process_def prepared_timeout_to_def two_phase_mode_def)
  have obs: "triple (\<lambda>w. silent w \<and> life s0 g w) (observe env st_clock) (\<lambda>_ w. silent w \<and> life s0 g w)"
    using keepsD [OF round_inv.clk [OF life_round_inv [OF assms(1)]], of s0 g]
    by (auto simp: triple_def silent_def)
  have early: "triple (\<lambda>w. silent w \<and> life s0 g w)
      (State_Monad.bind (execute env (release_lease (g_gid g) (g_lease_until g) i)) (\<lambda>_. ret Done))
      (\<lambda>_ w. silent w \<or> turned_back (g_gid g) (w_store w))" for i
    by (auto simp: triple_def silent_def)
  have drive: "triple (\<lambda>w. life s0 g w \<and> turned_back (g_gid g) (w_store w))
      (drive_two_phase fuel env d (g\<lparr>g_status := GAborting, g_rollback_reason := r\<rparr>) f b)
      (\<lambda>_ w. silent w \<or> turned_back (g_gid g) (w_store w))" for r f b
  proof -
    have "keeps (backed s0 g) (drive_two_phase fuel env d (g\<lparr>g_status := GAborting, g_rollback_reason := r\<rparr>) f b)"
      by (rule backed_drive [OF assms(1) mode]) simp_all
    then show ?thesis by (simp add: keeps_def triple_def)
  qed
  have late: "triple (\<lambda>w. silent w \<and> life s0 g w)
      (State_Monad.bind (drv_transition env g (g_status g) GAborting r)
        (\<lambda>ok. if \<not> ok then ret Done else
          (let g2 = g\<lparr>g_status := GAborting, g_rollback_reason := r\<rparr>
           in if g_trans_type g2 = Xa then process_xa fuel env d g2 else process_tcc fuel env d g2)))
      (\<lambda>_ w. silent w \<or> turned_back (g_gid g) (w_store w))" for r
    unfolding assms(3)
  proof (rule triple_bind [OF prepared_turns [OF assms(1)]])
    fix ok
    show "triple (\<lambda>w. life s0 g w \<and> (if ok then turned_back (g_gid g) (w_store w) else silent w))
      (if \<not> ok then ret Done else
        (let g2 = g\<lparr>g_status := GAborting, g_rollback_reason := r\<rparr>
         in if g_trans_type g2 = Xa then process_xa fuel env d g2 else process_tcc fuel env d g2))
      (\<lambda>_ w. silent w \<or> turned_back (g_gid g) (w_store w))"
    proof (cases ok)
      case True
      have "triple (\<lambda>w. life s0 g w \<and> turned_back (g_gid g) (w_store w))
          (if c then drive_two_phase fuel env d (g\<lparr>g_status := GAborting, g_rollback_reason := r\<rparr>) Commit Rollback
           else drive_two_phase fuel env d (g\<lparr>g_status := GAborting, g_rollback_reason := r\<rparr>) Confirm Cancel)
          (\<lambda>_ w. silent w \<or> turned_back (g_gid g) (w_store w))" for c
        using drive [of r] by (cases c) simp_all
      with True show ?thesis by (simp only: process_xa_def process_tcc_def Let_def simp_thms if_True if_False)
    next
      case False
      then show ?thesis by (simp add: triple_def)
    qed
  qed
  show ?thesis
    unfolding prep process_prepared_def Let_def
    by (rule triple_bind [OF obs]) (rule triple_option [OF early late [unfolded Let_def]])
qed

lemma round_one_way:
  assumes "apart gid env" "lock_one_due (dr_owner d) (dr_lease d) s = (Some g, s')" "g_gid g = gid"
    and "w = snd (run_state (process fuel env d g) \<lparr>w_store = s', w_step = n, w_trace = []\<rparr>)"
    and "store_ok s" "two_phase_mode (g_trans_type g) fwd bwd" "one_way fwd bwd gid s C"
  shows "one_way fwd bwd gid (w_store w) (C @ w_trace w)"
proof -
  let ?w = "\<lparr>w_store = s', w_step = n, w_trace = []\<rparr>"
  note l = locked_row [OF assms(2,5)]
  have mode: "g_trans_type g = Tcc \<or> g_trans_type g = Xa" using assms(6) by (auto simp: two_phase_mode_def)
  have pair: "g_trans_type g = Tcc \<and> fwd = Confirm \<and> bwd = Cancel \<or>
      g_trans_type g = Xa \<and> fwd = Commit \<and> bwd = Rollback"
    using assms(6) by (simp add: two_phase_mode_def)
  note row = l(1) [unfolded assms(3)]
  have e: "evolves s' (w_store w)" by (rule round_evolves [OF assms(1,2,5,4)])
  note stays = two_phase_direction_stays [OF e row mode]
  obtain h where h: "get_global gid s = Some h" and "g_status h = g_status g"
    using assms(2,5) sql.lock_Some [of s "dr_owner d" "dr_lease d" g s'] assms(3)
    by (auto simp: take_lease_def)
  then have same: "turned_back gid s = turned_back gid s'" "gone_ahead gid s = gone_ahead gid s'"
    using row by (simp_all add: turned_back_def gone_ahead_def status_of_def)
  have old: "op = fwd \<and> gone_ahead gid (w_store w) \<or> op = bwd \<and> turned_back gid (w_store w)"
    if "was_called gid op C" for op
    using that assms(7) stays same by (auto simp: one_way_def)
  have new: "op = fwd \<and> gone_ahead gid (w_store w) \<or> op = bwd \<and> turned_back gid (w_store w)"
    if "was_called gid op (w_trace w)" for op
  proof (cases "g_status g = GPrepared")
    case True
    have tr: "trace_in {bwd} {GAborting, GFailed} w"
      using keepsD [OF process_prepared_direction [OF pair True], of ?w fuel env d] assms(4)
      by (simp add: trace_in_def)
    with that have "op = bwd" by (auto simp: was_called_def trace_in_def event_in_def)
    moreover have "silent ?w \<and> life s' g ?w" using l by (simp add: silent_def txn_inv_def)
    from tripleD [OF prepared_round [OF apart_facts(2) [OF assms(1)] assms(6) True] this, of fuel d]
    have "silent w \<or> turned_back gid (w_store w)" unfolding assms(3,4) .
    with that have "turned_back gid (w_store w)" by (auto simp: was_called_def silent_def)
    ultimately show ?thesis by simp
  next
    case False
    have "trace_in (direction_ops fwd bwd (g_status g)) (direction_end (g_status g)) w"
      using keepsD [OF process_two_phase_direction [OF pair False], of ?w fuel env d] assms(4)
      by (simp add: trace_in_def)
    with that have "op \<in> direction_ops fwd bwd (g_status g)"
      by (auto simp: was_called_def trace_in_def event_in_def)
    then have "op = fwd \<and> gone_ahead gid s' \<or> op = bwd \<and> turned_back gid s'"
      using row by (auto simp: direction_ops_def gone_ahead_def turned_back_def status_of_def split: if_splits)
    with stays show ?thesis by blast
  qed
  from old new show ?thesis unfolding one_way_def by auto
qed

lemma lived_one_way:
  assumes "lived js gid s0 s C" "fresh_txn gid g0 s0" "two_phase_mode (g_trans_type g0) fwd bwd"
  shows "one_way fwd bwd gid s C"
  using assms(1)
proof induction
  case created
  then show ?case by (simp add: one_way_def)
next
  case (others s C s')
  have "evolves s0 s" using lived_evolves [OF others.hyps(1)] assms(2) by (simp add: fresh_txn_def)
  with assms(2) obtain h where h: "get_global gid s = Some h" "row_evolves g0 h" by (rule fresh_txn_row)
  then have "g_trans_type h = Tcc \<or> g_trans_type h = Xa"
    using assms(3) by (auto simp: row_evolves_def two_phase_mode_def)
  with two_phase_direction_stays [OF elsewhere_facts(1) [OF others.hyps(2)] h(1)] others.IH
  show ?case by (auto simp: one_way_def)
next
  case (round s C env d g s' w fuel n)
  have e: "evolves s0 s" "store_ok s"
    using lived_evolves [OF round.hyps(1)] assms(2) by (simp_all add: fresh_txn_def)
  note l = locked_row [OF round.hyps(5) e(2)]
  have "evolves s0 s'" using e(1) l(3) by (rule evolves_trans)
  with assms(2) obtain h where "get_global gid s' = Some h" "row_evolves g0 h" by (rule fresh_txn_row)
  with l(1) round.hyps(6) have "g_trans_type g = g_trans_type g0" by (simp add: row_evolves_def)
  with assms(3) have "two_phase_mode (g_trans_type g) fwd bwd" by simp
  from round_one_way [OF round.hyps(2,5-7) e(2) this round.IH] show ?case .
next
  case (refused s C g c)
  have "evolves s0 s" using lived_evolves [OF refused.hyps(1)] assms(2) by (simp add: fresh_txn_def)
  with assms(2) obtain h where "get_global gid s = Some h" "row_evolves g0 h" by (rule fresh_txn_row)
  with refused.hyps(2,3) assms(3) show ?case by (auto simp: row_evolves_def two_phase_mode_def)
qed

end
