(* ===== verification/Crash_Turns.thy ===== *)
theory Crash_Turns
  imports Confirmed
begin

text \<open>
  A worker that dies in a call. The loops of a round are a turn repeated; a run that has made some
  turns is followed into the next one, up to the call whose answer the worker does not live to hear.
  What it leaves is what a worker leaves that hears nothing, but for the lease.
\<close>

section \<open>Loops as turns\<close>

text \<open>A turn ends the round or says with what status the next one works.\<close>

primrec turns :: "nat \<Rightarrow> ('s \<Rightarrow> 's option prog) \<Rightarrow> 's \<Rightarrow> outcome prog" where
  "turns 0 T s = ret Out_of_fuel"
| "turns (Suc n) T s = do { r \<leftarrow> T s; case r of None \<Rightarrow> ret Done | Some s' \<Rightarrow> turns n T s' }"

definition saga_turn ::
  "environment \<Rightarrow> driver \<Rightarrow> global_row \<Rightarrow> saga_step list \<Rightarrow> global_status \<Rightarrow> global_status option prog" where
  "saga_turn env d g steps st = do {
     rows \<leftarrow> observe env (list_branches (g_gid g));
     case saga_advance st (fst (branch_states rows (length steps))) (snd (branch_states rows (length steps))) of
       Finish s \<Rightarrow>
         if s = GAborting then do {
           ok \<leftarrow> drv_transition env g st s saga_failed_text;
           ret (if ok then Some s else None)
         }
         else do { drv_transition env g st s []; ret None }
     | Wait \<Rightarrow> ret None
     | RunWorkflow \<Rightarrow> ret None
     | CallEach is op \<Rightarrow> ret None
     | Call i op \<Rightarrow> saga_call env d g steps st i op
   }"

definition two_phase_turn ::
  "environment \<Rightarrow> driver \<Rightarrow> global_row \<Rightarrow> nat \<Rightarrow> branch_op \<Rightarrow> branch_op \<Rightarrow> unit \<Rightarrow> unit option prog" where
  "two_phase_turn env d g n fwd bwd u = do {
     rows \<leftarrow> observe env (list_branches (g_gid g));
     case (if fwd = Commit then xa_advance else tcc_advance) (g_status g)
            (fst (split_by_op rows n fwd bwd)) (snd (split_by_op rows n fwd bwd)) of
       Finish s \<Rightarrow> do { drv_transition env g (g_status g) s []; ret None }
     | Wait \<Rightarrow> ret None
     | RunWorkflow \<Rightarrow> ret None
     | CallEach is op \<Rightarrow> ret None
     | Call i op \<Rightarrow> do {
         go_on \<leftarrow> two_phase_call env d g rows i op;
         ret (if go_on then Some () else None)
       }
   }"

lemma run_turns:
  "run_state (turns (Suc n) T s) w =
     (case run_state (T s) w of
        (None, w1) \<Rightarrow> (Done, w1)
      | (Some s', w1) \<Rightarrow> run_state (turns n T s') w1)"
  by (auto simp: split_beta split: option.split)

lemma saga_loop_turns: "run_state (saga_loop n env d g steps st) w = run_state (turns n (saga_turn env d g steps) st) w"
proof (induction n arbitrary: st w)
  case (Suc n)
  define T where "T = saga_turn env d g steps"
  have IH: "run_state (saga_loop n env d g steps st) w = run_state (turns n T st) w" for st w
    unfolding T_def by (rule Suc)
  have t: "run_state (T st) w = run_state (saga_turn env d g steps st) w" by (simp add: T_def)
  show ?case
    unfolding T_def [symmetric] run_turns
    unfolding t
    by (simp add: saga_turn_def split_beta IH split: advance.split option.split)
qed simp

lemma two_phase_loop_turns:
  "run_state (two_phase_loop n env d g k fwd bwd) w = run_state (turns n (two_phase_turn env d g k fwd bwd) ()) w"
proof (induction n arbitrary: w)
  case (Suc n)
  define T where "T = two_phase_turn env d g k fwd bwd"
  have IH: "run_state (two_phase_loop n env d g k fwd bwd) w = run_state (turns n T ()) w" for w
    unfolding T_def by (rule Suc)
  have t: "run_state (T ()) w = run_state (two_phase_turn env d g k fwd bwd ()) w" by (simp add: T_def)
  define A where "A = (if fwd = Commit then xa_advance else tcc_advance)"
  show ?case
    unfolding T_def [symmetric] run_turns
    unfolding t two_phase_turn_def two_phase_loop.simps A_def [symmetric]
    by (simp add: split_beta IH split: advance.split option.split)
qed simp

section \<open>Hearing nothing from some step on\<close>

text \<open>The others stop there too: what they do after a worker has died is no matter of its round.\<close>

definition cut_off :: "nat \<Rightarrow> environment \<Rightarrow> environment" where
  "cut_off j env = env\<lparr>
     e_others := (\<lambda>n s. if n \<le> j then e_others env n s else s),
     e_http := (\<lambda>n c. if n \<le> j then e_http env n c else None),
     e_grpc := (\<lambda>n t c. if n \<le> j then e_grpc env n t c else None),
     e_local := (\<lambda>name. map_option (\<lambda>h n c. if n \<le> j then h n c else Unknown) (e_local env name))\<rparr>"

lemma cut_off_others [simp]: "e_others (cut_off j env) n s = (if n \<le> j then e_others env n s else s)"
  by (simp add: cut_off_def)

lemma cut_off_joined [simp]: "e_joined (cut_off j env) = e_joined env"
  by (simp add: cut_off_def)

text \<open>A call makes one step and one event, or cannot be made.\<close>

lemma call_shape:
  obtains "run_state (call_branch env g bid op u p) w = (Unknown, w)"
    and "\<And>j. run_state (call_branch (cut_off j env) g bid op u p) w = (Unknown, w)"
  | c r where "run_state (call_branch env g bid op u p) w =
        (r, w\<lparr>w_step := Suc (w_step w), w_trace := w_trace w @ [Called c r]\<rparr>)"
    and "c_gid c = g_gid g"
    and "\<And>j. run_state (call_branch (cut_off j env) g bid op u p) w =
        (let r = (if w_step w \<le> j then r else Unknown)
         in (r, w\<lparr>w_step := Suc (w_step w), w_trace := w_trace w @ [Called c r]\<rparr>))"
proof -
  have "run_state (call_branch env g bid op u p) w = (Unknown, w) \<and>
      (\<forall>j. run_state (call_branch (cut_off j env) g bid op u p) w = (Unknown, w)) \<or>
    (\<exists>c r. run_state (call_branch env g bid op u p) w =
        (r, w\<lparr>w_step := Suc (w_step w), w_trace := w_trace w @ [Called c r]\<rparr>) \<and>
      c_gid c = g_gid g \<and> (\<forall>j. run_state (call_branch (cut_off j env) g bid op u p) w =
        (let r = (if w_step w \<le> j then r else Unknown)
         in (r, w\<lparr>w_step := Suc (w_step w), w_trace := w_trace w @ [Called c r]\<rparr>))))"
    by (auto simp: call_branch_def call_local_def call_http_def call_grpc_def cut_off_def registry_get_def Let_def mk_call_def
        split: target.split option.split)
  then show thesis using that by blast
qed

text \<open>A turn that goes on is the same turn if its answers are heard.\<close>

definition alike :: "nat \<Rightarrow> ('s \<Rightarrow> 's option prog) \<Rightarrow> ('s \<Rightarrow> 's option prog) \<Rightarrow> bool" where
  "alike j T T' \<longleftrightarrow>
     (\<forall>s s1 w w1. run_state (T s) w = (Some s1, w1) \<longrightarrow>
        w_step w \<le> w_step w1 \<and> (w_step w1 \<le> Suc j \<longrightarrow> run_state (T' s) w = (Some s1, w1)))"

lemma drv_transition_goes_on:
  assumes "run_state (drv_transition env g f t r) w = (True, w1)"
  shows "w_step w \<le> w_step w1"
    and "w_step w1 \<le> Suc j \<Longrightarrow> run_state (drv_transition (cut_off j env) g f t r) w = (True, w1)"
  using assms by (auto simp: drv_transition_def split_beta split: if_splits)

lemma saga_call_goes_on:
  assumes "run_state (saga_call env d g steps st i op) w = (Some s1, w1)"
  shows "w_step w \<le> w_step w1 \<and>
    (w_step w1 \<le> Suc j \<longrightarrow> run_state (saga_call (cut_off j env) d' g steps st i op) w = (Some s1, w1))"
proof (cases rule: call_shape [of env g "branch_id i" op
      "if op = Action then s_action (steps ! i) else s_compensate (steps ! i)" "s_payload (steps ! i)" w])
  case 1
  with assms show ?thesis by (simp add: saga_call_def Let_def split_beta)
next
  case (2 c r)
  show ?thesis
  proof (cases r)
    case Success
    with assms 2 show ?thesis by (auto simp: saga_call_def Let_def split_beta)
  next
    case Failure
    let ?w = "w\<lparr>w_step := Suc (w_step w), w_trace := w_trace w @ [Called c Failure]\<rparr>"
    let ?rec = "\<lambda>e. run_state (execute e (set_branch_status (g_gid g) (branch_id i) op BFailed)) ?w"
    from assms 2(1) Failure have op: "op = Action"
      and t: "run_state (drv_transition env g st GAborting (saga_failure_text (branch_id i))) (snd (?rec env)) = (True, w1)"
      and s1: "s1 = GAborting"
      by (auto simp: saga_call_def Let_def split_beta prod_eq_iff split: if_splits)
    note go = drv_transition_goes_on [OF t]
    have "w_step w \<le> w_step w1" "Suc (w_step w) \<le> w_step w1" using go(1) by simp_all
    moreover have "run_state (saga_call (cut_off j env) d' g steps st i op) w = (Some s1, w1)"
      if "w_step w1 \<le> Suc j"
    proof -
      from that go(1) have "w_step w \<le> j" "Suc (w_step w) \<le> j" by simp_all
      with 2(3) [of j] Failure op s1 go(2) [OF that] show ?thesis
        by (simp add: saga_call_def Let_def split_beta)
    qed
    ultimately show ?thesis by simp
  qed (use assms 2(1) in \<open>simp_all add: saga_call_def Let_def split_beta\<close>)
qed

lemma saga_turn_alike: "alike j (saga_turn env d g steps) (saga_turn (cut_off j env) d' g steps)"
  unfolding alike_def
proof (intro allI impI)
  fix st s1 w w1
  assume run: "run_state (saga_turn env d g steps st) w = (Some s1, w1)"
  let ?s = "e_others env (w_step w) (w_store w)"
  let ?w = "w\<lparr>w_store := ?s, w_step := Suc (w_step w)\<rparr>"
  let ?rows = "list_branches (g_gid g) ?s"
  let ?adv = "saga_advance st (fst (branch_states ?rows (length steps))) (snd (branch_states ?rows (length steps)))"
  show "w_step w \<le> w_step w1 \<and>
    (w_step w1 \<le> Suc j \<longrightarrow> run_state (saga_turn (cut_off j env) d' g steps st) w = (Some s1, w1))"
  proof (cases ?adv)
    case (Call i op)
    with run have "run_state (saga_call env d g steps st i op) ?w = (Some s1, w1)" by (simp add: saga_turn_def)
    from saga_call_goes_on [OF this, of j d'] Call show ?thesis by (auto simp: saga_turn_def)
  next
    case (Finish t)
    with run have t: "t = GAborting" "s1 = t"
      and "run_state (drv_transition env g st t saga_failed_text) ?w = (True, w1)"
      by (auto simp: saga_turn_def split_beta prod_eq_iff split: if_splits)
    from drv_transition_goes_on [OF this(3)] Finish t show ?thesis by (auto simp: saga_turn_def)
  qed (use run in \<open>simp_all add: saga_turn_def\<close>)
qed

lemma two_phase_turn_alike:
  "alike j (two_phase_turn env d g n fwd bwd) (two_phase_turn (cut_off j env) d' g n fwd bwd)"
  unfolding alike_def
proof (intro allI impI)
  fix u s1 w w1
  assume run: "run_state (two_phase_turn env d g n fwd bwd u) w = (Some s1, w1)"
  define A where "A = (if fwd = Commit then xa_advance else tcc_advance)"
  let ?s = "e_others env (w_step w) (w_store w)"
  let ?w = "w\<lparr>w_store := ?s, w_step := Suc (w_step w)\<rparr>"
  define rows where "rows = list_branches (g_gid g) ?s"
  note fold = two_phase_turn_def A_def [symmetric] rows_def [symmetric]
  show "w_step w \<le> w_step w1 \<and>
    (w_step w1 \<le> Suc j \<longrightarrow> run_state (two_phase_turn (cut_off j env) d' g n fwd bwd u) w = (Some s1, w1))"
  proof (cases "A (g_status g) (fst (split_by_op rows n fwd bwd)) (snd (split_by_op rows n fwd bwd))")
    case (Call i op)
    with run have call: "run_state (two_phase_call env d g rows i op) ?w = (True, w1)"
      by (auto simp: fold split_beta prod_eq_iff split: if_splits)
    then obtain url where url: "url_of rows (branch_id i) op = Some url"
      by (auto simp: two_phase_call_def Let_def split_beta split: option.splits)
    have "w_step ?w \<le> w_step w1 \<and> (w_step w1 \<le> Suc j \<longrightarrow>
        run_state (two_phase_call (cut_off j env) d' g rows i op) ?w = (True, w1))"
    proof (cases rule: call_shape [of env g "branch_id i" op url "payload_of rows (branch_id i) op" ?w])
      case 1
      with call url show ?thesis by (simp add: two_phase_call_def Let_def split_beta)
    next
      case (2 c r)
      then show ?thesis
        using call url by (cases r) (auto simp: two_phase_call_def Let_def split_beta)
    qed
    with Call show ?thesis by (auto simp: fold)
  qed (use run in \<open>simp_all add: fold split_beta\<close>)
qed

lemma turns_split:
  assumes "run_state (turns n T s) w = (Out_of_fuel, w')" "alike j T T'" "w_step w' \<le> Suc j"
  shows "w_step w \<le> w_step w' \<and>
    (\<exists>s'. \<forall>k. run_state (turns (n + k) T s) w = run_state (turns k T s') w' \<and>
      run_state (turns (n + k) T' s) w = run_state (turns k T' s') w')"
  using assms(1)
proof (induction n arbitrary: s w)
  case 0
  then show ?case by auto
next
  case (Suc n)
  then obtain s1 w1 where t: "run_state (T s) w = (Some s1, w1)"
    and rest: "run_state (turns n T s1) w1 = (Out_of_fuel, w')"
    by (cases "run_state (T s) w"; cases "fst (run_state (T s) w)") (auto simp: run_turns simp del: turns.simps(2))
  from Suc.IH [OF rest] obtain s' where s': "w_step w1 \<le> w_step w'"
    "\<And>k. run_state (turns (n + k) T s1) w1 = run_state (turns k T s') w' \<and>
      run_state (turns (n + k) T' s1) w1 = run_state (turns k T' s') w'" by blast
  from assms(2) t have a: "w_step w \<le> w_step w1" "w_step w1 \<le> Suc j \<longrightarrow> run_state (T' s) w = (Some s1, w1)"
    unfolding alike_def by blast+
  with s'(1) assms(3) have t': "run_state (T' s) w = (Some s1, w1)" by simp
  have "run_state (turns (Suc n + k) T s) w = run_state (turns k T s') w'"
    "run_state (turns (Suc n + k) T' s) w = run_state (turns k T' s') w'" for k
    using t t' s'(2) [of k] by (simp_all add: run_turns del: turns.simps(2))
  with a(1) s'(1) show ?case by (intro conjI exI [of _ s'] allI) simp_all
qed

section \<open>The call that is not heard\<close>

text \<open>The first thing a turn does that can be seen is this call.\<close>

definition calls_first :: "'a prog \<Rightarrow> world \<Rightarrow> branch_call \<Rightarrow> bool" where
  "calls_first m w c \<longleftrightarrow> (\<exists>r rest. w_trace (snd (run_state m w)) = w_trace w @ Called c r # rest)"

text \<open>\<open>T'\<close> makes the same call, hears nothing and gives the lease back.\<close>

definition unheard :: "environment \<Rightarrow> global_row \<Rightarrow> nat \<Rightarrow> ('s \<Rightarrow> 's option prog) \<Rightarrow> ('s \<Rightarrow> 's option prog) \<Rightarrow> bool" where
  "unheard env g j T T' \<longleftrightarrow>
     (\<forall>s w c. w_step w = j \<longrightarrow> calls_first (T s) w c \<longrightarrow>
        (\<exists>i w2. run_state (T' s) w = (None, w2) \<and>
           w_store w2 = release_lease (g_gid g) (g_lease_until g) i (e_others env j (w_store w)) \<and>
           w_trace w2 = w_trace w @ [Called c Unknown]) \<and> c_gid c = g_gid g)"

lemma appends:
  "\<exists>ev. w_trace (snd (run_state (drv_transition env g f t r) w)) = w_trace w @ ev \<and> (\<forall>c r. Called c r \<notin> set ev)"
  "\<exists>ev. w_trace (snd (run_state (retry_later env d g) w)) = w_trace w @ ev \<and> (\<forall>c r. Called c r \<notin> set ev)"
  by (auto simp: drv_transition_def retry_later_def split_beta split: option.split)

lemma no_call:
  "\<not> calls_first (drv_transition env g f t r) w c" "\<not> calls_first (retry_later env d g) w c"
proof -
  have quiet: "\<not> calls_first m w c"
    if "\<exists>ev. w_trace (snd (run_state m w)) = w_trace w @ ev \<and> (\<forall>c r. Called c r \<notin> set ev)" for m :: "'x prog"
  proof
    assume "calls_first m w c"
    then obtain a rest where "w_trace (snd (run_state m w)) = w_trace w @ Called c a # rest"
      unfolding calls_first_def by blast
    moreover from that obtain ev where "w_trace (snd (run_state m w)) = w_trace w @ ev" "\<forall>c r. Called c r \<notin> set ev"
      by blast
    ultimately have "\<forall>c r. Called c r \<notin> set (Called c a # rest)" by simp
    then have "Called c a \<notin> set (Called c a # rest)" by blast
    then show False by simp
  qed
  show "\<not> calls_first (drv_transition env g f t r) w c" "\<not> calls_first (retry_later env d g) w c"
    by (rule quiet, rule appends)+
qed

lemma silent_retry:
  "run_state (retry_later (cut_off j env) (d\<lparr>dr_alert := None\<rparr>) g) w =
     ((), w\<lparr>w_store := release_lease (g_gid g) (g_lease_until g) (next_interval_with (g_next_cron_interval g) (dr_retry d))
        (e_others (cut_off j env) (w_step w) (w_store w)), w_step := Suc (w_step w)\<rparr>)"
  by (simp add: retry_later_def)

lemma saga_call_traces:
  assumes "run_state (call_branch env g (branch_id i) op
      (if op = Action then s_action (steps ! i) else s_compensate (steps ! i)) (s_payload (steps ! i))) w = (r, w1)"
  shows "\<exists>ev. w_trace (snd (run_state (saga_call env d g steps st i op) w)) = w_trace w1 @ ev"
proof -
  let ?w = "w1\<lparr>w_store := set_branch_status (g_gid g) (branch_id i) op BFailed (e_others env (w_step w1) (w_store w1)),
    w_step := Suc (w_step w1)\<rparr>"
  obtain ev where "w_trace (snd (run_state (drv_transition env g st GAborting (saga_failure_text (branch_id i))) ?w)) =
      w_trace ?w @ ev" using appends(1) by blast
  moreover obtain ev' where "w_trace (snd (run_state (retry_later env d g) ?w)) = w_trace ?w @ ev'"
    using appends(2) by blast
  moreover obtain ev'' where "w_trace (snd (run_state (retry_later env d g) w1)) = w_trace w1 @ ev''"
    using appends(2) by blast
  ultimately show ?thesis
    using assms by (cases r) (auto simp: saga_call_def Let_def split_beta)
qed

lemma saga_turn_unheard:
  "unheard env g j (saga_turn env d g steps) (saga_turn (cut_off j env) (d\<lparr>dr_alert := None\<rparr>) g steps)"
  unfolding unheard_def
proof (intro allI impI)
  fix st w c
  assume j: "w_step w = j" and call: "calls_first (saga_turn env d g steps st) w c"
  let ?s = "e_others env (w_step w) (w_store w)"
  let ?w = "w\<lparr>w_store := ?s, w_step := Suc (w_step w)\<rparr>"
  let ?rows = "list_branches (g_gid g) ?s"
  let ?adv = "saga_advance st (fst (branch_states ?rows (length steps))) (snd (branch_states ?rows (length steps)))"
  let ?d = "d\<lparr>dr_alert := None\<rparr>"
  have no: "\<not> calls_first (drv_transition env g f t r) ?w c" for f t r by (rule no_call)
  from call have "\<exists>i op. ?adv = Call i op"
    using no by (cases ?adv) (auto simp: saga_turn_def calls_first_def split_beta split: if_splits)
  then obtain i op where adv: "?adv = Call i op" by blast
  from call adv have first: "calls_first (saga_call env d g steps st i op) ?w c"
    by (simp add: saga_turn_def calls_first_def)
  let ?u = "if op = Action then s_action (steps ! i) else s_compensate (steps ! i)"
  show "(\<exists>i w2. run_state (saga_turn (cut_off j env) ?d g steps st) w = (None, w2) \<and>
      w_store w2 = release_lease (g_gid g) (g_lease_until g) i (e_others env j (w_store w)) \<and>
      w_trace w2 = w_trace w @ [Called c Unknown]) \<and> c_gid c = g_gid g"
  proof (cases rule: call_shape [of env g "branch_id i" op ?u "s_payload (steps ! i)" ?w])
    case 1
    with first have "calls_first (retry_later env d g) ?w c"
      by (simp add: saga_call_def Let_def calls_first_def split_beta)
    with no_call(2) show ?thesis by blast
  next
    case (2 c' r)
    obtain ev where "w_trace (snd (run_state (saga_call env d g steps st i op) ?w)) = w_trace w @ Called c' r # ev"
      using saga_call_traces [OF 2(1), of d st] by auto
    with first have "c' = c" by (auto simp: calls_first_def)
    with 2(3) [of j] 2(2) j adv show ?thesis
      by (intro conjI exI [of _ "next_interval_with (g_next_cron_interval g) (dr_retry d)"])
        (simp_all add: saga_turn_def saga_call_def Let_def split_beta silent_retry)
  qed
qed

lemma two_phase_turn_unheard:
  "unheard env g j (two_phase_turn env d g n fwd bwd) (two_phase_turn (cut_off j env) (d\<lparr>dr_alert := None\<rparr>) g n fwd bwd)"
  unfolding unheard_def
proof (intro allI impI)
  fix u w c
  assume j: "w_step w = j" and call: "calls_first (two_phase_turn env d g n fwd bwd u) w c"
  define A where "A = (if fwd = Commit then xa_advance else tcc_advance)"
  let ?s = "e_others env (w_step w) (w_store w)"
  let ?w = "w\<lparr>w_store := ?s, w_step := Suc (w_step w)\<rparr>"
  define rows where "rows = list_branches (g_gid g) ?s"
  note fold = two_phase_turn_def A_def [symmetric] rows_def [symmetric]
  let ?adv = "A (g_status g) (fst (split_by_op rows n fwd bwd)) (snd (split_by_op rows n fwd bwd))"
  let ?d = "d\<lparr>dr_alert := None\<rparr>"
  have no: "\<not> calls_first (drv_transition env g f t r) ?w c" for f t r by (rule no_call)
  from call have "\<exists>i op. ?adv = Call i op"
    using no by (cases ?adv) (auto simp: fold calls_first_def split_beta)
  then obtain i op where adv: "?adv = Call i op" by blast
  from call adv have first: "calls_first (two_phase_call env d g rows i op) ?w c"
    by (simp add: fold calls_first_def split_beta)
  have "\<exists>url. url_of rows (branch_id i) op = Some url"
    using first no_call(2) [of env d g ?w c]
    by (cases "url_of rows (branch_id i) op") (auto simp: two_phase_call_def Let_def calls_first_def split_beta)
  then obtain url where url: "url_of rows (branch_id i) op = Some url" by blast
  show "(\<exists>i w2. run_state (two_phase_turn (cut_off j env) ?d g n fwd bwd u) w = (None, w2) \<and>
      w_store w2 = release_lease (g_gid g) (g_lease_until g) i (e_others env j (w_store w)) \<and>
      w_trace w2 = w_trace w @ [Called c Unknown]) \<and> c_gid c = g_gid g"
  proof (cases rule: call_shape [of env g "branch_id i" op url "payload_of rows (branch_id i) op" ?w])
    case 1
    with first url have "calls_first (retry_later env d g) ?w c"
      by (simp add: two_phase_call_def Let_def calls_first_def split_beta)
    with no_call(2) show ?thesis by blast
  next
    case (2 c' r)
    let ?w1 = "?w\<lparr>w_step := Suc (w_step ?w), w_trace := w_trace w @ [Called c' r]\<rparr>"
    let ?w2 = "?w1\<lparr>w_store := set_branch_status (g_gid g) (branch_id i) op BFailed (e_others env (w_step ?w1) (w_store ?w1)),
      w_step := Suc (w_step ?w1)\<rparr>"
    have "\<exists>ev. w_trace (snd (run_state (two_phase_call env d g rows i op) ?w)) = w_trace w @ Called c' r # ev"
      using 2(1) url appends(2) [of env d g ?w1] appends(2) [of env d g ?w2]
      by (cases r) (auto simp: two_phase_call_def Let_def split_beta)
    with first have "c' = c" by (auto simp: calls_first_def)
    moreover have "list_branches (g_gid g) (e_others env j (w_store w)) = rows" using j by (simp add: rows_def)
    ultimately show ?thesis
      using 2(3) [of j] 2(2) j adv url
      by (intro conjI exI [of _ "next_interval_with (g_next_cron_interval g) (dr_retry d)"])
        (simp_all add: two_phase_turn_def A_def [symmetric] two_phase_call_def Let_def split_beta silent_retry)
  qed
qed

lemma turns_unheard:
  assumes "run_state (turns n T s) w = (Out_of_fuel, w')"
    and "\<exists>r rest. w_trace (snd (run_state (turns (Suc n) T s) w)) = w_trace w' @ Called c r # rest"
    and "alike (w_step w') T T'" "unheard env g (w_step w') T T'"
  shows "w_step w \<le> w_step w' \<and> c_gid c = g_gid g \<and>
    (\<exists>i w2. run_state (turns (Suc n) T' s) w = (Done, w2) \<and>
       w_store w2 = release_lease (g_gid g) (g_lease_until g) i (e_others env (w_step w') (w_store w')) \<and>
       w_trace w2 = w_trace w' @ [Called c Unknown])"
proof -
  from turns_split [OF assms(1,3)] obtain s' where step: "w_step w \<le> w_step w'"
    and s': "\<And>k. run_state (turns (n + k) T s) w = run_state (turns k T s') w'"
      "\<And>k. run_state (turns (n + k) T' s) w = run_state (turns k T' s') w'" by auto
  have "calls_first (T s') w' c"
    using assms(2) s'(1) [of 1]
    by (cases "fst (run_state (T s') w')") (auto simp: calls_first_def split_beta)
  with assms(4) obtain i w2 where t: "run_state (T' s') w' = (None, w2)"
    "w_store w2 = release_lease (g_gid g) (g_lease_until g) i (e_others env (w_step w') (w_store w'))"
    "w_trace w2 = w_trace w' @ [Called c Unknown]" and "c_gid c = g_gid g"
    unfolding unheard_def by blast
  from t(1) s'(2) [of 1] have "run_state (turns (Suc n) T' s) w = (Done, w2)" by simp
  with t(2,3) step \<open>c_gid c = g_gid g\<close> show ?thesis by blast
qed

section \<open>A round that dies in a call\<close>

text \<open>After \<open>fuel\<close> turns the round is at \<open>w\<close>, and the next one begins with the call \<open>c\<close>.\<close>

definition dies_calling ::
  "nat \<Rightarrow> environment \<Rightarrow> driver \<Rightarrow> global_row \<Rightarrow> world \<Rightarrow> world \<Rightarrow> branch_call \<Rightarrow> bool" where
  "dies_calling fuel env d g w0 w c \<longleftrightarrow>
     run_state (process fuel env d g) w0 = (Out_of_fuel, w) \<and>
     (\<exists>r rest. w_trace (snd (run_state (process (Suc fuel) env d g) w0)) = w_trace w @ Called c r # rest)"

abbreviation silent_end :: "environment \<Rightarrow> global_row \<Rightarrow> world \<Rightarrow> branch_call \<Rightarrow> outcome \<times> world \<Rightarrow> bool" where
  "silent_end env g w c x \<equiv> c_gid c = g_gid g \<and>
     (\<exists>i w2. x = (Done, w2) \<and>
       w_store w2 = release_lease (g_gid g) (g_lease_until g) i (e_others env (w_step w) (w_store w)) \<and>
       w_trace w2 = w_trace w @ [Called c Unknown])"

lemma saga_unheard:
  assumes "run_state (process_saga fuel env d g) w0 = (Out_of_fuel, w)"
    and "\<exists>r rest. w_trace (snd (run_state (process_saga (Suc fuel) env d g) w0)) = w_trace w @ Called c r # rest"
  shows "silent_end env g w c
    (run_state (process_saga (Suc fuel) (cut_off (w_step w) env) (d\<lparr>dr_alert := None\<rparr>) g) w0)"
proof -
  let ?steps = "or_default (js_steps (dr_json d) (g_payload g))"
  have ne: "?steps \<noteq> []" using assms(1) by (auto simp: process_saga_def Let_def split_beta split: if_splits)
  then have p: "run_state (process_saga k e d' g) w0 = run_state (turns k (saga_turn e d' g ?steps) (g_status g)) w0"
    if "dr_json d' = dr_json d" for k e d'
    using that by (simp only: process_saga_def Let_def if_False saga_loop_turns)
  from turns_unheard [OF assms [unfolded p [OF refl]] saga_turn_alike saga_turn_unheard]
  show ?thesis by (subst p) simp_all
qed

lemma drive_unheard:
  assumes "run_state (drive_two_phase fuel env d g fwd bwd) w0 = (Out_of_fuel, w)"
    and "\<exists>r rest. w_trace (snd (run_state (drive_two_phase (Suc fuel) env d g fwd bwd) w0)) = w_trace w @ Called c r # rest"
  shows "w_step w0 \<le> w_step w \<and> silent_end env g w c
    (run_state (drive_two_phase (Suc fuel) (cut_off (w_step w) env) (d\<lparr>dr_alert := None\<rparr>) g fwd bwd) w0)"
proof -
  let ?s = "e_others env (w_step w0) (w_store w0)"
  let ?w = "w0\<lparr>w_store := ?s, w_step := Suc (w_step w0)\<rparr>"
  let ?n = "index_bound (list_branches (g_gid g) ?s)"
  have n: "?n \<noteq> 0"
    using assms(1) by (auto simp: drive_two_phase_def Let_def split_beta split: if_splits)
  have p: "run_state (drive_two_phase k env d g fwd bwd) w0 = run_state (turns k (two_phase_turn env d g ?n fwd bwd) ()) ?w" for k
    using n by (simp add: drive_two_phase_def Let_def two_phase_loop_turns)
  from turns_unheard [OF assms [unfolded p] two_phase_turn_alike two_phase_turn_unheard]
  have t: "w_step ?w \<le> w_step w" "silent_end env g w c
    (run_state (turns (Suc fuel) (two_phase_turn (cut_off (w_step w) env) (d\<lparr>dr_alert := None\<rparr>) g ?n fwd bwd) ()) ?w)"
    by blast+
  have "run_state (drive_two_phase (Suc fuel) (cut_off (w_step w) env) (d\<lparr>dr_alert := None\<rparr>) g fwd bwd) w0 =
      run_state (turns (Suc fuel) (two_phase_turn (cut_off (w_step w) env) (d\<lparr>dr_alert := None\<rparr>) g ?n fwd bwd) ()) ?w"
    using n t(1) by (simp add: drive_two_phase_def Let_def two_phase_loop_turns del: two_phase_loop.simps turns.simps)
  with t show ?thesis by simp
qed

lemma prepared_unheard:
  assumes "run_state (process_prepared fuel env d g GAborting) w0 = (Out_of_fuel, w)" "g_status g = GPrepared"
    and "\<exists>r rest. w_trace (snd (run_state (process_prepared (Suc fuel) env d g GAborting) w0)) = w_trace w @ Called c r # rest"
  shows "silent_end env g w c
    (run_state (process_prepared (Suc fuel) (cut_off (w_step w) env) (d\<lparr>dr_alert := None\<rparr>) g GAborting) w0)"
proof -
  define dl where "dl = prepared_deadline (g_create_time g) (g_timeout_to_fail g) (dr_timeout_default d)"
  let ?s = "e_others env (w_step w0) (w_store w0)"
  let ?w = "w0\<lparr>w_store := ?s, w_step := Suc (w_step w0)\<rparr>"
  obtain t where dl: "dl = Some t" "t \<le> st_clock ?s"
    using assms(1) by (auto simp: process_prepared_def dl_def [symmetric] Let_def split_beta split: option.splits if_splits)
  define reason where "reason = timeout_text (t - g_create_time g)"
  define g2 where "g2 = g\<lparr>g_status := GAborting, g_rollback_reason := reason\<rparr>"
  define f where "f = (if g_trans_type g = Xa then Commit else Confirm)"
  define b where "b = (if g_trans_type g = Xa then Rollback else Cancel)"
  let ?tr = "\<lambda>e. run_state (drv_transition e g GPrepared GAborting reason) ?w"
  have p: "run_state (process_prepared k e d' g GAborting) w0 =
      (if fst (?tr e) then run_state (drive_two_phase k e d' g2 f b) (snd (?tr e)) else (Done, snd (?tr e)))"
    if "dr_timeout_default d' = dr_timeout_default d" "e_others e (w_step w0) = e_others env (w_step w0)" for k e d'
    using that dl assms(2)
    by (simp add: process_prepared_def dl_def reason_def g2_def f_def b_def process_xa_def process_tcc_def
        Let_def split_beta)
  note q = p [of d env, OF refl refl]
  have ok: "fst (?tr env)" using assms(1) unfolding q by (auto split: if_splits)
  then obtain w1 where w1: "?tr env = (True, w1)" by (cases "?tr env") auto
  have "run_state (drive_two_phase fuel env d g2 f b) w1 = (Out_of_fuel, w)"
    "\<exists>r rest. w_trace (snd (run_state (drive_two_phase (Suc fuel) env d g2 f b) w1)) = w_trace w @ Called c r # rest"
    using assms(1,3) unfolding q w1 by simp_all
  from drive_unheard [OF this] have t: "w_step w1 \<le> w_step w" "silent_end env g2 w c
    (run_state (drive_two_phase (Suc fuel) (cut_off (w_step w) env) (d\<lparr>dr_alert := None\<rparr>) g2 f b) w1)"
    by blast+
  note go = drv_transition_goes_on [OF w1]
  have "w_step ?w \<le> w_step w1" "?tr (cut_off (w_step w) env) = (True, w1)"
    using go t(1) by simp_all
  then have "run_state (process_prepared (Suc fuel) (cut_off (w_step w) env) (d\<lparr>dr_alert := None\<rparr>) g GAborting) w0 =
      run_state (drive_two_phase (Suc fuel) (cut_off (w_step w) env) (d\<lparr>dr_alert := None\<rparr>) g2 f b) w1"
    using t(1) by (subst p) (simp_all add: fun_eq_iff)
  with t(2) show ?thesis by (simp add: g2_def)
qed

text \<open>What it leaves, but for the lease, is left by a whole round that does not hear the answer.\<close>

theorem death_is_silence:
  assumes "dies_calling fuel env d g w0 w c" "g_trans_type g = Saga \<or> g_trans_type g = Tcc \<or> g_trans_type g = Xa"
  shows "silent_end env g w c
    (run_state (process (Suc fuel) (cut_off (w_step w) env) (d\<lparr>dr_alert := None\<rparr>) g) w0)"
proof (cases "g_status g = GPrepared \<and> g_trans_type g \<noteq> Saga")
  case True
  then have p: "process k e d' g = process_prepared k e d' g GAborting" for k e d'
    using assms(2) by (auto simp: process_def prepared_timeout_to_def)
  show ?thesis
    unfolding p by (rule prepared_unheard) (use assms(1) True in \<open>simp_all add: dies_calling_def p\<close>)
next
  case False
  then have np: "prepared_timeout_to (g_status g) (g_trans_type g) = None"
    using assms(2) by (auto simp: prepared_timeout_to_def)
  from assms(2) show ?thesis
  proof (elim disjE)
    assume "g_trans_type g = Saga"
    then have p: "process k e d' g = process_saga k e d' g" for k e d' using np by (simp add: process_def)
    show ?thesis unfolding p by (rule saga_unheard) (use assms(1) in \<open>simp_all add: dies_calling_def p\<close>)
  next
    assume "g_trans_type g = Tcc"
    then have p: "process k e d' g = drive_two_phase k e d' g Confirm Cancel" for k e d'
      using np by (simp add: process_def process_tcc_def)
    show ?thesis unfolding p
      using drive_unheard [of fuel env d g Confirm Cancel w0 w c] assms(1) by (simp add: dies_calling_def p)
  next
    assume "g_trans_type g = Xa"
    then have p: "process k e d' g = drive_two_phase k e d' g Commit Rollback" for k e d'
      using np by (simp add: process_def process_xa_def)
    show ?thesis unfolding p
      using drive_unheard [of fuel env d g Commit Rollback w0 w c] assms(1) by (simp add: dies_calling_def p)
  qed
qed

end
