(* ===== verification/Crash.thy ===== *)
theory Crash
  imports Txn_Direction Crash_Turns
begin

text \<open>
  The history of a transaction with workers that die. A worker can die between two turns of its
  loop (a round with little fuel), in a call, so that nobody hears the answer, or when it has
  recorded the refusal of an action and has not turned its saga yet; its lease stays until it
  expires or, seen from the transaction, others change it. What the transaction may have come to is
  still what it may come to without deaths, so what holds of \<open>lived\<close> histories holds of all.
\<close>

section \<open>Histories\<close>

inductive history :: "json \<Rightarrow> string \<Rightarrow> store \<Rightarrow> store \<Rightarrow> event list \<Rightarrow> bool" for js gid s0 where
  created: "history js gid s0 s0 []"
| others: "history js gid s0 s C \<Longrightarrow> elsewhere gid s s' \<Longrightarrow> history js gid s0 s' C"
| round: "history js gid s0 s C \<Longrightarrow> apart gid env \<Longrightarrow> joins env \<Longrightarrow> dr_json d = js \<Longrightarrow>
    lock_one_due (dr_owner d) (dr_lease d) s = (Some g, s') \<Longrightarrow> g_gid g = gid \<Longrightarrow>
    w = snd (run_state (process fuel env d g) \<lparr>w_store = s', w_step = n, w_trace = []\<rparr>) \<Longrightarrow>
    history js gid s0 (w_store w) (C @ w_trace w)"
| died_calling: "history js gid s0 s C \<Longrightarrow> apart gid env \<Longrightarrow> joins env \<Longrightarrow> dr_json d = js \<Longrightarrow>
    lock_one_due (dr_owner d) (dr_lease d) s = (Some g, s') \<Longrightarrow> g_gid g = gid \<Longrightarrow>
    dies_calling fuel env d g \<lparr>w_store = s', w_step = n, w_trace = []\<rparr> w c \<Longrightarrow>
    history js gid s0 (e_others env (w_step w) (w_store w)) (C @ w_trace w @ [Called c Unknown])"
| died_turning: "history js gid s0 s C \<Longrightarrow> apart gid env \<Longrightarrow> joins env \<Longrightarrow> dr_json d = js \<Longrightarrow>
    lock_one_due (dr_owner d) (dr_lease d) s = (Some g, s') \<Longrightarrow> g_gid g = gid \<Longrightarrow> g_trans_type g = Saga \<Longrightarrow>
    dies_calling fuel env d g \<lparr>w_store = s', w_step = n, w_trace = []\<rparr> w c \<Longrightarrow> c_op c = Action \<Longrightarrow>
    history js gid s0
      (set_branch_status gid (c_branch_id c) Action BFailed
        (e_others env (w_step w + 2) (e_others env (w_step w) (w_store w))))
      (C @ w_trace w @ [Called c Failure])"

section \<open>Deaths add nothing\<close>

text \<open>A lease that was not given back is a change others may make.\<close>

lemma kept_lease:
  assumes "store_ok s" shows "elsewhere gid (release_lease x l i s) s"
proof -
  let ?s = "release_lease x l i s"
  have "row_evolves (released i t g) g" for t g by (simp add: row_evolves_def released_def)
  then have "\<exists>g'. get_global y s = Some g' \<and> row_evolves g g'" if "get_global y ?s = Some g" for y g
    using that by (auto simp: get_release_lease split: if_splits)
  moreover have "st_branch ?s = st_branch s" "now ?s = now s" by (simp_all add: store_simps release_lease_def Let_def)
  ultimately have "evolves ?s s" using assms by (simp add: evolves_def branch_kept_def)
  moreover have "on_record gid s = on_record gid ?s" "clear_numbers gid s = clear_numbers gid ?s"
    by (simp_all add: on_record_def clear_numbers_def)
  ultimately show ?thesis by (simp add: elsewhere_def)
qed

lemma cut_off_apart:
  assumes "apart gid env" "joins env" shows "apart gid (cut_off j env)" "joins (cut_off j env)"
  using assms by (simp_all add: apart_def joins_def)

lemma history_lived:
  assumes "history js gid s0 s C" "fresh_txn gid g0 s0" shows "lived js gid s0 s C"
  using assms(1)
proof induction
  case created
  show ?case by (rule lived.created)
next
  case (others s C s')
  from lived.others [OF others.IH others.hyps(2)] show ?case .
next
  case (round s C env d g s' w fuel n)
  from lived.round [OF round.IH round.hyps(2-)] show ?case .
next
  case (died_calling s C env d g s' fuel n w c)
  have e: "evolves s0 s" "store_ok s"
    using lived_evolves [OF died_calling.IH] assms(2) by (simp_all add: fresh_txn_def)
  note l = locked_row [OF died_calling.hyps(5) e(2)]
  have "evolves s0 s'" using e(1) l(3) by (rule evolves_trans)
  with assms(2) obtain h where "get_global gid s' = Some h" "row_evolves g0 h" by (rule fresh_txn_row)
  with l(1) died_calling.hyps(6) have "g_trans_type g = g_trans_type g0" by (simp add: row_evolves_def)
  with assms(2) have mode: "g_trans_type g = Saga \<or> g_trans_type g = Tcc \<or> g_trans_type g = Xa"
    by (simp add: fresh_txn_def)
  let ?env = "cut_off (w_step w) env" and ?d = "d\<lparr>dr_alert := None\<rparr>"
  let ?s = "e_others env (w_step w) (w_store w)"
  from death_is_silence [OF died_calling.hyps(7) mode] obtain i w2 where
    w2: "run_state (process (Suc fuel) ?env ?d g) \<lparr>w_store = s', w_step = n, w_trace = []\<rparr> = (Done, w2)"
      "w_store w2 = release_lease (g_gid g) (g_lease_until g) i ?s" "w_trace w2 = w_trace w @ [Called c Unknown]"
    by blast
  then have run: "w2 = snd (run_state (process (Suc fuel) ?env ?d g) \<lparr>w_store = s', w_step = n, w_trace = []\<rparr>)"
    by simp
  have "lived js gid s0 (w_store w2) (C @ w_trace w2)"
    by (rule lived.round [OF died_calling.IH cut_off_apart [OF died_calling.hyps(2,3)] _ _ died_calling.hyps(6) run])
      (use died_calling.hyps(4,5) in simp_all)
  moreover have "elsewhere gid (w_store w2) ?s"
  proof -
    have w: "w = snd (run_state (process fuel env d g) \<lparr>w_store = s', w_step = n, w_trace = []\<rparr>)"
      using died_calling.hyps(7) by (simp add: dies_calling_def)
    have "store_ok (w_store w)"
      using lived_evolves [OF lived.round [OF died_calling.IH died_calling.hyps(2-6) w]] assms(2)
      by (simp add: fresh_txn_def)
    moreover have "elsewhere gid (w_store w) ?s" using died_calling.hyps(2) by (simp add: apart_def)
    ultimately have "store_ok ?s" using elsewhere_facts(5) by blast
    then show ?thesis unfolding w2(2) by (rule kept_lease)
  qed
  ultimately show ?case using lived.others w2(3) by metis
next
  case (died_turning s C env d g s' fuel n w c)
  have w: "w = snd (run_state (process fuel env d g) \<lparr>w_store = s', w_step = n, w_trace = []\<rparr>)"
    using died_turning.hyps(8) by (simp add: dies_calling_def)
  let ?s = "e_others env (w_step w + 2) (e_others env (w_step w) (w_store w))"
  have "lived js gid s0 (w_store w) (C @ w_trace w)"
    by (rule lived.round [OF died_turning.IH died_turning.hyps(2-6) w])
  then have ls: "lived js gid s0 ?s (C @ w_trace w)"
    using lived.others died_turning.hyps(2) by (metis apart_def)
  have e: "evolves s0 s" "store_ok s"
    using lived_evolves [OF died_turning.IH] assms(2) by (simp_all add: fresh_txn_def)
  note l = locked_row [OF died_turning.hyps(5) e(2)]
  have "evolves s0 s'" using e(1) l(3) by (rule evolves_trans)
  with assms(2) obtain h where "get_global gid s' = Some h" "row_evolves g0 h" by (rule fresh_txn_row)
  with l(1) died_turning.hyps(6,7) have "g_trans_type g0 = Saga" by (simp add: row_evolves_def)
  moreover obtain k where "get_global gid ?s = Some k" "row_evolves g0 k"
    using lived_evolves [OF ls] assms(2) by (metis fresh_txn_def fresh_txn_row)
  ultimately have k: "get_global gid ?s = Some k" "g_trans_type k = Saga" by (simp_all add: row_evolves_def)
  have "c_gid c = gid"
    using death_is_silence [OF died_turning.hyps(8)] died_turning.hyps(6,7) by simp
  from lived.refused [OF ls k this died_turning.hyps(9)] show ?case by simp
qed

section \<open>What holds of a history\<close>

lemma history_evolves:
  assumes "history js gid s0 s C" "fresh_txn gid g0 s0" shows "evolves s0 s \<and> store_ok s"
  using lived_evolves [OF history_lived [OF assms]] assms(2) by (simp add: fresh_txn_def)

lemma history_account:
  "history (dr_json d0) gid s0 s C \<Longrightarrow> fresh_txn gid g0 s0 \<Longrightarrow> settled_account d0 g0 (st_branch s0) s C"
  using lived_account history_lived by blast

lemma history_one_way:
  "history js gid s0 s C \<Longrightarrow> fresh_txn gid g0 s0 \<Longrightarrow> two_phase_mode (g_trans_type g0) fwd bwd \<Longrightarrow>
   one_way fwd bwd gid s C"
  using lived_one_way history_lived by blast

end
