(* ===== verification/Effects.thy ===== *)
theory Effects
  imports Crash Barrier
begin

text \<open>
  The coordinator and the barriers of its branches together: what a transaction has done to the
  business once it has ended. The services sit behind the barrier. Of them it is assumed that they
  answer success only to a call whose barrier transaction they have committed, and that requests
  come from calls of the coordinator (tries from the host); calls may be lost, repeated, reordered
  and delivered late.
\<close>

section \<open>Calls and requests\<close>

text \<open>\<open>rqs\<close> are the requests at the barrier, in the order their database transactions commit.\<close>

definition delivered :: "branch_op set \<Rightarrow> string \<Rightarrow> event list \<Rightarrow> barrier_request list \<Rightarrow> bool" where
  "delivered host gid C rqs \<longleftrightarrow>
     (\<forall>c. Called c Success \<in> set C \<longrightarrow> c_gid c = gid \<longrightarrow>
        c_op c \<in> set (ops_of gid (c_branch_id c) rqs)) \<and>
     (\<forall>bid. \<forall>op\<in>set (ops_of gid bid rqs). op \<in> host \<or> was_called gid op C)"

text \<open>The business done for a branch.\<close>

definition effects :: "string \<Rightarrow> string \<Rightarrow> barrier_request list \<Rightarrow> branch_op list" where
  "effects gid bid rqs = ops_of gid bid (serve rqs [])"

lemma agreed_requested:
  "delivered host gid C rqs \<Longrightarrow> (bid, op) \<in> agreed gid C \<Longrightarrow> op \<in> set (ops_of gid bid rqs)"
  by (auto simp: delivered_def agreed_def)

lemma effects_asked:
  assumes "delivered host gid C rqs" "op \<in> set (effects gid bid rqs)"
  shows "op \<in> host \<or> was_called gid op C"
  using assms serve_asked [of gid bid rqs "[]"] by (auto simp: effects_def delivered_def)

lemma effects_alone:
  assumes "op \<in> set (ops_of gid bid rqs)" "origin_op op = None" "\<And>x. origin_op x \<noteq> Some op"
  shows "filter (\<lambda>x. x = op) (effects gid bid rqs) = [op]"
  using serve_alone [of op gid bid rqs "[]"] assms by (simp add: effects_def)

lemma effects_undone:
  assumes "pair_of fwd bwd" "unmixed fwd bwd (ops_of gid bid rqs)" "bwd \<in> set (ops_of gid bid rqs)"
  shows "filter (in_pair fwd bwd) (effects gid bid rqs) = [] \<or>
    filter (in_pair fwd bwd) (effects gid bid rqs) = [fwd, bwd]"
proof (cases "filter (in_pair fwd bwd) (ops_of gid bid rqs)")
  case Nil
  with assms(3) show ?thesis by (auto simp: filter_empty_conv)
next
  case (Cons x xs)
  have "bwd \<in> set (filter (in_pair fwd bwd) (ops_of gid bid rqs))" using assms(3) by simp
  with Cons serve_pair [OF assms(1,2), of "[]"] show ?thesis by (auto simp: effects_def)
qed

section \<open>TCC\<close>

definition registered :: "string \<Rightarrow> string \<Rightarrow> branch_op set \<Rightarrow> store \<Rightarrow> bool" where
  "registered gid bid ops s \<longleftrightarrow> (\<forall>op\<in>ops. \<exists>b\<in>set (st_branch s). b_key b = (gid, bid, op))"

lemma ended_two_phase_answered:
  assumes "history js gid s0 s C" "fresh_txn gid g0 s0"
    and "two_phase_mode (g_trans_type g0) fwd bwd" "registered gid bid {fwd, bwd} s0" "index_of bid \<noteq> None"
    and "status_of gid s = Some t" "is_final t"
  shows "(bid, if t = GSucceed then fwd else bwd) \<in> agreed gid C"
proof -
  let ?op = "if t = GSucceed then fwd else bwd"
  let ?d = "(demo_driver [] [])\<lparr>dr_json := js\<rparr>"
  have "?op \<in> {fwd, bwd}" by simp
  then obtain b where b: "b \<in> set (st_branch s0)" "b_key b = (gid, bid, ?op)"
    using assms(4) unfolding registered_def by blast
  then have "(bid, {?op}) \<in> owed_rows gid ?op (st_branch s0)"
    using assms(5) unfolding owed_rows_def
    by (intro image_eqI [of _ _ b]) (auto simp: b_key_def)
  moreover have "owed ?d g0 t (st_branch s0) = owed_rows gid ?op (st_branch s0)"
    using assms(3) fresh_txn_gid [OF assms(2)] by (auto simp: owed_def two_phase_mode_def)
  ultimately show ?thesis
    using history_account [of ?d, OF _ assms(2)] assms(1,6,7) fresh_txn_gid [OF assms(2)]
    unfolding settled_account_def by fastforce
qed

lemma ended_two_phase_called:
  assumes "history js gid s0 s C" "fresh_txn gid g0 s0" "two_phase_mode (g_trans_type g0) fwd bwd"
    and "status_of gid s = Some t" "is_final t" "was_called gid op C"
  shows "op = (if t = GSucceed then fwd else bwd)"
  using history_one_way [OF assms(1-3)] assms(4-6)
  by (auto simp: one_way_def turned_back_def gone_ahead_def split: if_splits)

text \<open>
  C5. A TCC transaction that has ended has done for each of its branches either all of it or
  nothing: if it succeeded, the confirm took effect exactly once and no cancel did; if it failed,
  no confirm took effect, and the try was undone by exactly one cancel or never took effect. This
  holds over all rounds of all workers, also of those that died in the middle, whatever calls and
  tries were lost, repeated, reordered or came late, for branches behind the barrier.
\<close>

theorem tcc_effects:
  assumes "history js gid s0 s C" "fresh_txn gid g0 s0" "g_trans_type g0 = Tcc"
    and "registered gid bid {Confirm, Cancel} s0" "index_of bid \<noteq> None"
    and "delivered {Try} gid C rqs" "status_of gid s = Some t" "is_final t"
  shows "if t = GSucceed
    then filter (\<lambda>op. op = Confirm) (effects gid bid rqs) = [Confirm] \<and> Cancel \<notin> set (effects gid bid rqs)
    else Confirm \<notin> set (effects gid bid rqs) \<and>
      (filter (in_pair Try Cancel) (effects gid bid rqs) = [] \<or>
       filter (in_pair Try Cancel) (effects gid bid rqs) = [Try, Cancel])"
proof -
  have mode: "two_phase_mode (g_trans_type g0) Confirm Cancel" using assms(3) by (simp add: two_phase_mode_def)
  note said = agreed_requested [OF assms(6) ended_two_phase_answered [OF assms(1,2) mode assms(4,5,7,8)]]
  note way = ended_two_phase_called [OF assms(1,2) mode assms(7,8)]
  have quiet: "op \<notin> set (effects gid bid rqs)" if "op \<noteq> (if t = GSucceed then Confirm else Cancel)" "op \<noteq> Try" for op
    using effects_asked [OF assms(6), of op bid] way [of op] that by auto
  show ?thesis
  proof (cases "t = GSucceed")
    case True
    have "origin_op x \<noteq> Some Confirm" for x by (cases x) simp_all
    with effects_alone [of Confirm gid bid rqs] said True quiet [of Cancel] show ?thesis by simp
  next
    case False
    have "unmixed Try Cancel (ops_of gid bid rqs)"
    proof -
      have "origin_op x = Some Try \<Longrightarrow> x = Cancel" for x by (cases x) simp_all
      then show ?thesis by (simp add: unmixed_def)
    qed
    with effects_undone [of Try Cancel gid bid rqs] said False quiet [of Confirm] show ?thesis
      by (simp add: pair_of_def)
  qed
qed


text \<open>A try that came too late, and a confirm that was sent twice.\<close>

definition at_barrier :: "string \<Rightarrow> (string \<times> branch_op) list \<Rightarrow> barrier_request list" where
  "at_barrier gid ops = map (\<lambda>(bid, op). \<lparr>rq_trans_type = [], rq_gid = gid, rq_branch_id = bid,
     rq_op = op, rq_time = 0, rq_commit = True\<rparr>) ops"

lemma ops_at_barrier: "ops_of gid bid (at_barrier gid ops) = map snd (filter (\<lambda>x. fst x = bid) ops)"
  by (induction ops) (auto simp: at_barrier_def)

lemma delivered_at_barrier:
  assumes "\<And>c. Called c Success \<in> set C \<Longrightarrow> c_gid c = gid \<Longrightarrow> (c_branch_id c, c_op c) \<in> set ops"
    and "\<And>bid op. (bid, op) \<in> set ops \<Longrightarrow> op \<in> host \<or> was_called gid op C"
  shows "delivered host gid C (at_barrier gid ops)"
proof -
  have "op \<in> set (ops_of gid bid (at_barrier gid ops)) \<longleftrightarrow> (bid, op) \<in> set ops" for bid op
    by (auto simp: ops_at_barrier image_iff)
  with assms show ?thesis by (auto simp: delivered_def)
qed

text \<open>
  One worker confirms the branch and dies before it hears the answer; when its lease has expired,
  another one confirms the branch again and ends the transaction.
\<close>

abbreviation tcc_driver :: driver where
  "tcc_driver \<equiv> demo_driver [] []"

abbreviation tcc_lease :: "store \<Rightarrow> global_row option \<times> store" where
  "tcc_lease \<equiv> lock_one_due (dr_owner tcc_driver) (dr_lease tcc_driver)"

abbreviation tcc_round :: "nat \<Rightarrow> store \<Rightarrow> outcome \<times> world" where
  "tcc_round fuel s \<equiv> run_state (process fuel willing tcc_driver (the (fst (tcc_lease s))))
     \<lparr>w_store = snd (tcc_lease s), w_step = 0, w_trace = []\<rparr>"

definition tcc_dead :: world where
  "tcc_dead = snd (tcc_round 0 tcc_demo)"

definition tcc_later :: store where
  "tcc_later = (w_store tcc_dead)\<lparr>st_clock := 1000\<rparr>"

definition tcc_ended :: world where
  "tcc_ended = snd (tcc_round 3 tcc_later)"

definition tcc_confirm :: branch_call where
  "tcc_confirm = \<lparr>c_gid = ''g'', c_trans_type = Tcc, c_branch_id = ''01'', c_op = Confirm,
     c_url = ''http://c'', c_payload = ''{}''\<rparr>"

lemma tcc_demo_rows:
  "st_branch tcc_demo = map (\<lambda>(op, u). \<lparr>b_gid = ''g'', b_branch_id = ''01'', b_op = op,
      b_url = u, b_payload = [], b_status = BPrepared, b_create_time = 7, b_update_time = 7,
      b_finish_time = None\<rparr>) [(Confirm, ''http://c''), (Cancel, ''http://x'')]"
  "st_global tcc_demo = [global_init 7 ''g'' Tcc GSubmitted ''[]'']" "index_of ''01'' = Some 0"
  "branch_id 0 = ''01''"
  by code_simp+

lemma tcc_demo_fresh: "fresh_txn ''g'' (global_init 7 ''g'' Tcc GSubmitted ''[]'') tcc_demo"
proof -
  have "store_ok tcc_demo" unfolding tcc_demo_def by (rule store_ok_register) simp
  moreover have "on_record ''g'' tcc_demo = {}" by (auto simp: on_record_def tcc_demo_rows)
  moreover have "clear_numbers ''g'' tcc_demo"
    by (auto simp: clear_numbers_def tcc_demo_rows(1,3,4))
  ultimately show ?thesis
    by (simp add: fresh_txn_def get_global_def tcc_demo_rows(2) row_at_Cons global_init_def)
qed

lemma willing_apart: "apart gid willing"
  by (simp add: apart_def willing_def)

lemma tcc_leases:
  "tcc_lease tcc_demo = (Some (the (fst (tcc_lease tcc_demo))), snd (tcc_lease tcc_demo))"
  "tcc_lease tcc_later = (Some (the (fst (tcc_lease tcc_later))), snd (tcc_lease tcc_later))"
  "g_gid (the (fst (tcc_lease tcc_demo))) = ''g''" "g_gid (the (fst (tcc_lease tcc_later))) = ''g''"
proof -
  have "fst (tcc_lease tcc_demo) = Some (the (fst (tcc_lease tcc_demo)))"
    "fst (tcc_lease tcc_later) = Some (the (fst (tcc_lease tcc_later)))" by code_simp+
  then show "tcc_lease tcc_demo = (Some (the (fst (tcc_lease tcc_demo))), snd (tcc_lease tcc_demo))"
    "tcc_lease tcc_later = (Some (the (fst (tcc_lease tcc_later))), snd (tcc_lease tcc_later))"
    by (metis prod.collapse)+
  show "g_gid (the (fst (tcc_lease tcc_demo))) = ''g''" "g_gid (the (fst (tcc_lease tcc_later))) = ''g''"
    by code_simp+
qed

lemma tcc_dies:
  "dies_calling 0 willing tcc_driver (the (fst (tcc_lease tcc_demo)))
     \<lparr>w_store = snd (tcc_lease tcc_demo), w_step = 0, w_trace = []\<rparr> tcc_dead tcc_confirm"
proof -
  have "fst (tcc_round 0 tcc_demo) = Out_of_fuel" by code_simp
  then have "tcc_round 0 tcc_demo = (Out_of_fuel, tcc_dead)" by (simp add: tcc_dead_def prod_eq_iff)
  moreover have "w_trace (snd (tcc_round (Suc 0) tcc_demo)) = [Called tcc_confirm Success]"
    "w_trace tcc_dead = []" by code_simp+
  ultimately show ?thesis unfolding dies_calling_def by simp
qed

lemma willing_others: "e_others willing n s = s"
  by (simp add: willing_def)

lemma elsewhere_clock:
  assumes "now s \<le> t" shows "elsewhere gid s (s\<lparr>st_clock := t\<rparr>)"
proof -
  have "evolves s (s\<lparr>st_clock := t\<rparr>)"
    using assms by (auto simp: evolves_def branch_kept_def get_global_def store_ok_def)
  then show ?thesis
    by (simp add: elsewhere_def on_record_def clear_numbers_def status_of_def get_global_def)
qed

lemma tcc_history:
  "history (demo_json [] []) ''g'' tcc_demo (w_store tcc_ended) (Called tcc_confirm Unknown # w_trace tcc_ended)"
proof -
  have js: "dr_json tcc_driver = demo_json [] []" by (simp add: demo_driver_def with_config_def)
  have tr: "w_trace tcc_dead = []" by code_simp
  have "history (demo_json [] []) ''g'' tcc_demo (w_store tcc_dead) [Called tcc_confirm Unknown]"
    using history.died_calling [OF history.created willing_apart willing_alone(2) js tcc_leases(1,3) tcc_dies]
    by (simp add: tr willing_others)
  moreover have "elsewhere ''g'' (w_store tcc_dead) tcc_later"
    unfolding tcc_later_def by (rule elsewhere_clock) code_simp
  ultimately have "history (demo_json [] []) ''g'' tcc_demo tcc_later [Called tcc_confirm Unknown]"
    by (rule history.others)
  from history.round [OF this willing_apart willing_alone(2) js tcc_leases(2,4) tcc_ended_def]
  show ?thesis by simp
qed

lemma tcc_effects_witness:
  "filter (\<lambda>op. op = Confirm) (effects ''g'' ''01'' (at_barrier ''g'' [(''01'', Try), (''01'', Confirm), (''01'', Confirm)])) = [Confirm] \<and>
   Cancel \<notin> set (effects ''g'' ''01'' (at_barrier ''g'' [(''01'', Try), (''01'', Confirm), (''01'', Confirm)]))"
proof -
  let ?C = "Called tcc_confirm Unknown # w_trace tcc_ended"
  have tr: "w_trace tcc_ended = [Called tcc_confirm Success, Status GSubmitted GSucceed True]" by code_simp
  have "delivered {Try} ''g'' ?C (at_barrier ''g'' [(''01'', Try), (''01'', Confirm), (''01'', Confirm)])"
    by (rule delivered_at_barrier) (auto simp: tr was_called_def tcc_confirm_def)
  moreover have "status_of ''g'' (w_store tcc_ended) = Some GSucceed" by code_simp
  moreover have "registered ''g'' ''01'' {Confirm, Cancel} tcc_demo"
    by (simp add: registered_def tcc_demo_rows(1) b_key_def)
  moreover have "g_trans_type (global_init 7 ''g'' Tcc GSubmitted ''[]'') = Tcc" by (simp add: global_init_def)
  ultimately show ?thesis
    using tcc_effects [OF tcc_history tcc_demo_fresh, of "''01''"] tcc_demo_rows(3) by simp
qed

end
