(* ===== verification/Saga_Effects.thy ===== *)
theory Saga_Effects
  imports Effects Saga_Run
begin

text \<open>
  What a saga has done to the business once it has ended, over its whole history: all of it if it
  succeeded; if it failed, nothing that has not been undone, unless a compensation was refused.
\<close>

section \<open>Answers on record\<close>

definition answered :: "string \<Rightarrow> event list \<Rightarrow> (string \<times> branch_op \<times> branch_status) set" where
  "answered gid C =
     {(c_branch_id c, c_op c, BSucceed) | c. Called c Success \<in> set C \<and> c_gid c = gid} \<union>
     {(c_branch_id c, c_op c, BFailed) | c. Called c Failure \<in> set C \<and> c_gid c = gid}"

lemma answeredI:
  "Called c Success \<in> set C \<Longrightarrow> (c_branch_id c, c_op c, BSucceed) \<in> answered (c_gid c) C"
  "Called c Failure \<in> set C \<Longrightarrow> (c_branch_id c, c_op c, BFailed) \<in> answered (c_gid c) C"
  by (auto simp: answered_def)

lemma answered_append: "answered gid C \<subseteq> answered gid (C @ D)"
  by (auto simp: answered_def)

definition undo_ops :: "branch_op set" where
  "undo_ops = {Compensate, Cancel, Rollback}"

definition all_undone :: "string \<Rightarrow> nat \<Rightarrow> event list \<Rightarrow> bool" where
  "all_undone gid n C \<longleftrightarrow> (\<forall>i<n. \<exists>op\<in>undo_ops. \<exists>st. (branch_id i, op, st) \<in> answered gid C)"

lemma all_undone_append: "all_undone gid n C \<Longrightarrow> all_undone gid n (C @ D)"
  using answered_append unfolding all_undone_def by blast

text \<open>
  The invariant of a saga with \<open>n\<close> steps: what is on record was answered, compensations are called
  only once it is turned back, and failing takes an answer to every compensation. \<open>st\<close> is the
  status a round works with.
\<close>

definition saga_sound :: "string \<Rightarrow> nat \<Rightarrow> global_status \<Rightarrow> store \<Rightarrow> event list \<Rightarrow> bool" where
  "saga_sound gid n st s C \<longleftrightarrow>
     store_ok s \<and> clear_numbers gid s \<and> on_record gid s \<subseteq> answered gid C \<and>
     (\<forall>op. was_called gid op C \<longrightarrow> op = Action \<or> op = Compensate \<and> turned_back gid s) \<and>
     (status_of gid s = Some GFailed \<longrightarrow> all_undone gid n C) \<and>
     (st = GAborting \<longrightarrow> turned_back gid s)"

lemma turned_back_elsewhere:
  assumes "elsewhere gid s s'" "turned_back gid s" shows "turned_back gid s'"
proof -
  from assms(2) obtain g where g: "get_global gid s = Some g" "g_status g = GAborting \<or> g_status g = GFailed"
    by (auto simp: turned_back_def status_of_def)
  from elsewhere_facts(1) [OF assms(1)] g(1) obtain g' where g': "get_global gid s' = Some g'"
    "reach (g_trans_type g) (g_status g) (g_status g')"
    by (auto simp: row_evolves_def elim: evolves_status)
  moreover have "g_status g' \<noteq> GSucceed"
  proof
    assume "g_status g' = GSucceed"
    with g' have "is_final GSucceed" "status_of gid s' = Some GSucceed" by (simp_all add: status_of_def)
    with assms(1) have "status_of gid s = Some GSucceed" unfolding elsewhere_def by blast
    with g show False by (auto simp: status_of_def)
  qed
  ultimately show ?thesis using g(2) by (auto simp: turned_back_def status_of_def reach_def)
qed

lemma saga_sound_others:
  assumes "elsewhere gid s s'" "saga_sound gid n st s C" shows "saga_sound gid n st s' C"
proof -
  have "is_final GFailed" by simp
  with assms(1) have "status_of gid s' = Some GFailed \<Longrightarrow> status_of gid s = Some GFailed"
    unfolding elsewhere_def by blast
  moreover have "on_record gid s' \<subseteq> on_record gid s" using assms(1) by (simp add: elsewhere_def)
  ultimately show ?thesis
    using assms(2) turned_back_elsewhere [OF assms(1)] elsewhere_facts(4,5) [OF assms(1)]
    unfolding saga_sound_def by blast
qed

lemma saga_sound_event:
  assumes "saga_sound gid n st s C" "\<And>c r. e \<noteq> Called c r" shows "saga_sound gid n st s (C @ [e])"
proof -
  have "was_called gid op (C @ [e]) = was_called gid op C" for op
    using assms(2) by (auto simp: was_called_def)
  with assms(1) all_undone_append [of gid n C "[e]"] answered_append [of gid C "[e]"] show ?thesis
    unfolding saga_sound_def by (simp only:) blast
qed

lemma saga_sound_called:
  assumes "saga_sound gid n st s C" "c_op c = Action \<or> c_op c = Compensate \<and> st = GAborting"
  shows "saga_sound gid n st s (C @ [Called c r])"
proof -
  have "was_called gid op [Called c r] \<Longrightarrow> op = c_op c" for op by (simp add: was_called_def)
  with assms all_undone_append [of gid n C "[Called c r]"] answered_append [of gid C "[Called c r]"]
  show ?thesis unfolding saga_sound_def by (simp only: was_called_append) blast
qed

lemma saga_sound_store:
  assumes "saga_sound gid n st s C" "store_ok s'" "st_branch s' = st_branch s" "status_of gid s' = status_of gid s"
  shows "saga_sound gid n st s' C"
  using assms
  by (simp add: saga_sound_def clear_table [of s' s] on_record_def turned_back_def)

lemma on_record_set_status:
  "on_record gid (set_branch_status gid bid op st s) \<subseteq> insert (bid, op, st) (on_record gid s)"
proof
  fix x assume "x \<in> on_record gid (set_branch_status gid bid op st s)"
  then obtain b where b: "x = (b_branch_id b, b_op b, b_status b)" "b_gid b = gid" "b_status b \<noteq> BPrepared"
    and "b \<in> set (st_branch (set_branch_status gid bid op st s))"
    by (auto simp: on_record_def)
  from this(4) show "x \<in> insert (bid, op, st) (on_record gid s)"
  proof (cases rule: set_status_rows)
    case 1
    with b show ?thesis by (auto simp: on_record_def)
  next
    case (2 q)
    with b show ?thesis by (auto simp: b_key_def)
  qed
qed

lemma saga_sound_record:
  assumes "saga_sound gid n st s C" "(bid, op, bst) \<in> answered gid C"
  shows "saga_sound gid n st (set_branch_status gid bid op bst s) C"
proof -
  have "on_record gid (set_branch_status gid bid op bst s) \<subseteq> answered gid C"
    using on_record_set_status [of gid bid op bst s] assms by (auto simp: saga_sound_def)
  with assms(1) store_ok_set_branch_status [of s gid bid op bst] clear_set_status [of gid s gid bid op bst]
  show ?thesis by (simp add: saga_sound_def turned_back_def)
qed

text \<open>Ending, turning, and leaving it to somebody else.\<close>

lemma saga_sound_transition:
  assumes "saga_sound gid n st s C" "st = GSubmitted \<and> t \<in> {GSucceed, GAborting} \<or>
      st = GAborting \<and> t = GFailed \<and> all_undone gid n C"
  shows "saga_sound gid n GSubmitted (snd (transition gid st t tt r s)) C"
    and "fst (transition gid st t tt r s) \<Longrightarrow> t = GAborting \<Longrightarrow>
      turned_back gid (snd (transition gid st t tt r s))"
proof -
  let ?s = "snd (transition gid st t tt r s)"
  have st: "status_of gid ?s = (if status_of gid s = Some st then Some t else status_of gid s)"
    by (simp add: status_of_transition)
  have br: "st_branch ?s = st_branch s" by simp
  have "store_ok ?s" using assms(1) by (simp add: saga_sound_def store_ok_transition)
  moreover have "turned_back gid s \<Longrightarrow> turned_back gid ?s"
    using st assms(2) by (auto simp: turned_back_def split: if_splits)
  moreover have "on_record gid ?s = on_record gid s" "clear_numbers gid ?s = clear_numbers gid s"
    using br by (simp_all add: on_record_def clear_numbers_def)
  moreover have "status_of gid ?s = Some GFailed \<Longrightarrow> all_undone gid n C"
    using st assms by (auto simp: saga_sound_def split: if_splits)
  ultimately show "saga_sound gid n GSubmitted ?s C" using assms(1) by (auto simp: saga_sound_def)
  assume "fst (transition gid st t tt r s)" "t = GAborting"
  then have "status_of gid s = Some st"
    using assms(1) by (auto simp: fst_transition store_ok_def saga_sound_def status_of_def)
  with st \<open>t = GAborting\<close> show "turned_back gid ?s" by (simp add: turned_back_def)
qed

section \<open>A round\<close>

text \<open>\<open>C0\<close> are the calls of the rounds before.\<close>

abbreviation sound :: "string \<Rightarrow> nat \<Rightarrow> event list \<Rightarrow> global_status \<Rightarrow> world \<Rightarrow> bool" where
  "sound gid n C0 st w \<equiv> saga_sound gid n st (w_store w) (C0 @ w_trace w)"

lemma sound_any: "sound gid n C0 st w \<Longrightarrow> sound gid n C0 GSubmitted w"
  by (simp add: saga_sound_def)

lemma keeps_sound_any: "keeps (sound gid n C0 st) m \<Longrightarrow> triple (sound gid n C0 st) m (\<lambda>_. sound gid n C0 GSubmitted)"
  unfolding keeps_def by (erule triple_conseq) (assumption, rule sound_any)

lemma saga_sound_env:
  "apart gid env \<Longrightarrow> sound gid n C0 st w \<Longrightarrow>
   saga_sound gid n st (e_others env k (w_store w)) (C0 @ w_trace w)"
  by (rule saga_sound_others [of gid "w_store w"]) (simp_all add: apart_def)

lemma keeps_sound_access:
  assumes "apart gid env"
    and "\<And>s C. saga_sound gid n st s C \<Longrightarrow> saga_sound gid n st (snd (f s)) C"
  shows "keeps (sound gid n C0 st) (access env f)"
  by (rule keeps_access) (simp add: assms(2) saga_sound_env [OF assms(1)])

lemma keeps_sound_observe: "apart gid env \<Longrightarrow> keeps (sound gid n C0 st) (observe env f)"
  unfolding observe_def by (rule keeps_sound_access) simp_all

lemma keeps_sound_release:
  assumes "apart gid env" shows "keeps (sound gid n C0 st) (execute env (release_lease x l i))"
  unfolding execute_def
proof (rule keeps_sound_access [OF assms])
  fix s C assume s: "saga_sound gid n st s C"
  then have "store_ok (release_lease x l i s)"
    using evolves_ok [OF evolves_release] by (simp add: saga_sound_def)
  from saga_sound_store [OF s this] show "saga_sound gid n st (snd ((), release_lease x l i s)) C" by simp
qed

lemma keeps_sound_emit: "(\<And>c r. e \<noteq> Called c r) \<Longrightarrow> keeps (sound gid n C0 st) (emit e)"
  using saga_sound_event by (fastforce simp: keeps_def triple_def)

lemma keeps_sound_retry: "apart gid env \<Longrightarrow> keeps (sound gid n C0 st) (retry_later env d g)"
  unfolding retry_later_def
  by (intro keeps_intro keeps_sound_release keeps_sound_observe keeps_sound_emit) simp_all

lemma sound_record:
  assumes "apart gid env"
  shows "triple (\<lambda>w. sound gid n C0 st w \<and> (bid, op, bst) \<in> answered gid (C0 @ w_trace w))
    (execute env (set_branch_status gid bid op bst)) (\<lambda>_. sound gid n C0 st)"
  by (rule tripleI) (simp add: saga_sound_record saga_sound_env [OF assms])

text \<open>A status write that the rules allow.\<close>

lemma sound_status_write:
  assumes "apart gid env" "g_gid g = gid" "st = GSubmitted \<and> t \<in> {GSucceed, GAborting} \<or> st = GAborting \<and> t = GFailed"
  shows "triple (\<lambda>w. sound gid n C0 st w \<and> (t = GFailed \<longrightarrow> all_undone gid n (C0 @ w_trace w)))
    (drv_transition env g st t r)
    (\<lambda>ok w. sound gid n C0 (if ok \<and> t = GAborting then GAborting else GSubmitted) w)"
proof (rule tripleI)
  fix w assume w: "sound gid n C0 st w \<and> (t = GFailed \<longrightarrow> all_undone gid n (C0 @ w_trace w))"
  define s where "s = e_others env (w_step w) (w_store w)"
  define s' where "s' = snd (transition gid st t (g_trans_type g) r s)"
  define ok where "ok = fst (transition gid st t (g_trans_type g) r s)"
  define w1 where "w1 = w\<lparr>w_store := s', w_step := Suc (w_step w), w_trace := w_trace w @ [Status st t ok]\<rparr>"
  have e: "saga_sound gid n st s (C0 @ w_trace w)"
    unfolding s_def using w by (intro saga_sound_env [OF assms(1)]) simp
  have "st = GSubmitted \<and> t \<in> {GSucceed, GAborting} \<or> st = GAborting \<and> t = GFailed \<and> all_undone gid n (C0 @ w_trace w)"
    using w assms(3) by blast
  note s = saga_sound_transition [OF e this, of "g_trans_type g" r, folded s'_def ok_def]
  have w1: "sound gid n C0 GSubmitted w1"
    using saga_sound_event [OF s(1), of "Status st t ok"] by (simp add: w1_def)
  have ne: "st \<noteq> t" using assms(3) by auto
  show "sound gid n C0 (if fst (run_state (drv_transition env g st t r) w) \<and> t = GAborting
      then GAborting else GSubmitted) (snd (run_state (drv_transition env g st t r) w))"
  proof (cases ok)
    case True
    then have "run_state (drv_transition env g st t r) w = (True, w1)"
      using ne assms(2) by (simp add: drv_transition_def split_beta w1_def ok_def s'_def s_def)
    moreover have "sound gid n C0 GAborting w1" if "t = GAborting"
      using w1 s(2) True that by (simp add: saga_sound_def w1_def)
    ultimately show ?thesis using w1 by auto
  next
    case False
    then have "run_state (drv_transition env g st t r) w =
        (False, snd (run_state (execute env (release_lease gid (g_lease_until g) 0)) w1))"
      using ne assms(2) by (simp add: drv_transition_def split_beta w1_def ok_def s'_def s_def)
    with keepsD [OF keeps_sound_release [OF assms(1)] w1] show ?thesis by simp
  qed
qed

text \<open>A call of an action, or of a compensation once the saga is turned back.\<close>

abbreviation said :: "string \<Rightarrow> event list \<Rightarrow> string \<Rightarrow> branch_op \<Rightarrow> branch_result \<Rightarrow> world \<Rightarrow> bool" where
  "said gid C0 bid op r w \<equiv>
     (r = Success \<longrightarrow> (bid, op, BSucceed) \<in> answered gid (C0 @ w_trace w)) \<and>
     (r = Failure \<longrightarrow> (bid, op, BFailed) \<in> answered gid (C0 @ w_trace w))"

lemma sound_call:
  assumes "g_gid g = gid" "op = Action \<or> op = Compensate \<and> st = GAborting"
  shows "triple (sound gid n C0 st) (call_branch env g bid op url p)
    (\<lambda>r w. sound gid n C0 st w \<and> said gid C0 bid op r w)"
proof -
  have ans: "triple (sound gid n C0 st) (answer_of h (mk_call g bid op u q))
      (\<lambda>r w. sound gid n C0 st w \<and> said gid C0 bid op r w)" for h u q
  proof (rule tripleI)
    fix w assume w: "sound gid n C0 st w"
    let ?c = "mk_call g bid op u q" let ?r = "h (w_step w) ?c"
    have c: "c_gid ?c = gid" "c_branch_id ?c = bid" "c_op ?c = op" using assms(1) by (simp_all add: mk_call_def)
    have "?r = Success \<Longrightarrow> (bid, op, BSucceed) \<in> answered gid (C0 @ w_trace w @ [Called ?c ?r])"
      "?r = Failure \<Longrightarrow> (bid, op, BFailed) \<in> answered gid (C0 @ w_trace w @ [Called ?c ?r])"
      using answeredI [of ?c "C0 @ w_trace w @ [Called ?c ?r]", unfolded c] by simp_all
    with saga_sound_called [OF w, of ?c ?r] assms(2) c(3)
    show "sound gid n C0 st (snd (run_state (answer_of h ?c) w)) \<and>
        said gid C0 bid op (fst (run_state (answer_of h ?c) w)) (snd (run_state (answer_of h ?c) w))"
      by simp
  qed
  have un: "triple (sound gid n C0 st) (ret Unknown) (\<lambda>r w. sound gid n C0 st w \<and> said gid C0 bid op r w)"
    by (rule triple_return) simp
  show ?thesis
    unfolding call_branch_def call_local_def call_http_def call_grpc_def
    by (auto split: target.split option.split intro: ans un)
qed

lemma saga_call_sound:
  assumes "apart gid env" "g_gid g = gid" "op = Action \<and> st = GSubmitted \<or> op = Compensate \<and> st = GAborting"
  shows "triple (sound gid n C0 st) (saga_call env d g steps st i op)
    (\<lambda>r w. case r of None \<Rightarrow> sound gid n C0 GSubmitted w
      | Some s \<Rightarrow> sound gid n C0 s w \<and> (s = GSubmitted \<or> s = GAborting))"
  (is "triple _ _ ?Q")
  unfolding saga_call_def Let_def
proof (rule triple_bind [OF sound_call [OF assms(2)]])
  show "op = Action \<or> op = Compensate \<and> st = GAborting" using assms(3) by blast
  fix r
  have stop: "triple (sound gid n C0 st) (State_Monad.bind (retry_later env d g) (\<lambda>_. ret None)) ?Q"
    by (rule triple_bind [OF keeps_sound_any [OF keeps_sound_retry [OF assms(1)]]]) (rule triple_return, simp)
  note kept = sound_record [OF assms(1)]
  have recorded: "triple (\<lambda>w. sound gid n C0 st w \<and> said gid C0 (branch_id i) op r w)
      (State_Monad.bind (execute env (set_branch_status (g_gid g) (branch_id i) op bst)) (\<lambda>_. m)) ?Q"
    if "triple (sound gid n C0 st) m ?Q" "r = Success \<and> bst = BSucceed \<or> r = Failure \<and> bst = BFailed" for m bst
  proof (rule triple_bind [OF _ that(1)])
    show "triple (\<lambda>w. sound gid n C0 st w \<and> said gid C0 (branch_id i) op r w)
        (execute env (set_branch_status (g_gid g) (branch_id i) op bst)) (\<lambda>_. sound gid n C0 st)"
      unfolding assms(2) by (rule triple_conseq [OF kept]) (use that(2) in auto)
  qed
  have go_on: "triple (sound gid n C0 st) (ret (Some st)) ?Q"
    using assms(3) by (intro triple_return) auto
  have turn: "triple (sound gid n C0 st)
      (State_Monad.bind (drv_transition env g st GAborting t) (\<lambda>ok. ret (if ok then Some GAborting else None))) ?Q"
    if "op = Action" for t
  proof (rule triple_bind)
    have "st = GSubmitted" using that assms(3) by simp
    then show "triple (sound gid n C0 st) (drv_transition env g st GAborting t)
        (\<lambda>ok. sound gid n C0 (if ok \<and> GAborting = GAborting then GAborting else GSubmitted))"
      by (intro triple_conseq [OF sound_status_write [OF assms(1,2)]]) auto
    show "triple (sound gid n C0 (if ok \<and> GAborting = GAborting then GAborting else GSubmitted))
        (ret (if ok then Some GAborting else None)) ?Q" for ok
      by (cases ok) (simp_all add: triple_def)
  qed
  have stop': "triple (\<lambda>w. sound gid n C0 st w \<and> said gid C0 (branch_id i) op r w)
      (State_Monad.bind (retry_later env d g) (\<lambda>_. ret None)) ?Q"
    by (rule triple_conseq [OF stop]) simp_all
  show "triple (\<lambda>w. sound gid n C0 st w \<and> said gid C0 (branch_id i) op r w)
    (case r of
       Success \<Rightarrow> State_Monad.bind (execute env (set_branch_status (g_gid g) (branch_id i) op BSucceed)) (\<lambda>_. ret (Some st))
     | Failure \<Rightarrow> State_Monad.bind (execute env (set_branch_status (g_gid g) (branch_id i) op BFailed)) (\<lambda>_.
         if op = Action then State_Monad.bind (drv_transition env g st GAborting (saga_failure_text (branch_id i)))
             (\<lambda>ok. ret (if ok then Some GAborting else None))
         else State_Monad.bind (retry_later env d g) (\<lambda>_. ret None))
     | Ongoing \<Rightarrow> State_Monad.bind (retry_later env d g) (\<lambda>_. ret None)
     | Unknown \<Rightarrow> State_Monad.bind (retry_later env d g) (\<lambda>_. ret None)) ?Q"
  proof (cases r)
    case Success
    show ?thesis unfolding Success branch_result.case
      by (rule recorded [OF go_on, unfolded Success]) simp
  next
    case Failure
    show ?thesis unfolding Failure branch_result.case
      by (rule recorded [unfolded Failure]) (auto intro: turn stop)
  qed (use stop' in simp_all)
qed

text \<open>If every compensation is off the list, every one has been answered.\<close>

lemma undone_when_finished:
  assumes "saga_sound gid n st s C"
    and "saga_advance GAborting acts (snd (branch_states (list_branches gid s) n)) = Finish t"
  shows "t = GFailed \<and> all_undone gid n C"
proof -
  let ?rows = "list_branches gid s"
  let ?v = "fill (slot n undo_ops) ?rows (replicate n BPrepared)"
  have v: "snd (branch_states ?rows n) = ?v"
    by (simp add: branch_states_fill undo_ops_def)
  with assms(2) have t: "t = GFailed" and none: "\<forall>c\<in>set ?v. c \<noteq> BPrepared"
    using scan_down_all_None_iff [of "\<lambda>st. st = BPrepared" ?v] by (auto split: option.splits)
  have "\<exists>op\<in>undo_ops. \<exists>st. (branch_id i, op, st) \<in> answered gid C" if i: "i < n" for i
  proof -
    have "?v ! i \<in> set ?v" using i by (intro nth_mem) simp
    with none have ne: "?v ! i \<noteq> BPrepared" by blast
    with i obtain r where r: "r \<in> set ?rows" "slot n undo_ops r = Some i" "b_status r = ?v ! i"
      using fill_source [of i "replicate n BPrepared" "slot n undo_ops" ?rows] by auto
    then have op: "index_of (b_branch_id r) = Some i" "b_op r \<in> undo_ops"
      by (auto simp: slot_def split: option.splits if_splits)
    have row: "r \<in> set (st_branch s)" "b_gid r = gid" using r(1) by (simp_all add: set_list_branches)
    with op(1) assms(1) have "b_branch_id r = branch_id i"
      unfolding saga_sound_def clear_numbers_def by blast
    moreover have "(b_branch_id r, b_op r, b_status r) \<in> on_record gid s"
      using row ne r(3) by (auto simp: on_record_def)
    ultimately show ?thesis using op(2) assms(1) unfolding saga_sound_def by auto
  qed
  with t show ?thesis by (simp add: all_undone_def)
qed

lemma saga_loop_sound:
  assumes "apart gid env" "g_gid g = gid" "st = GSubmitted \<or> st = GAborting"
  shows "triple (sound gid (length steps) C0 st) (saga_loop fuel env d g steps st)
    (\<lambda>_. sound gid (length steps) C0 GSubmitted)"
  using assms(3)
proof (induction fuel arbitrary: st)
  case 0
  then show ?case using sound_any by (auto intro!: triple_return)
next
  case (Suc fuel)
  let ?n = "length steps"
  show ?case
    unfolding saga_loop.simps
  proof (rule triple_bind)
    show "triple (sound gid ?n C0 st) (observe env (list_branches (g_gid g)))
        (\<lambda>rows w. sound gid ?n C0 st w \<and> rows = list_branches gid (w_store w))"
      using keepsD [OF keeps_sound_observe [OF assms(1)]] assms(2) by (auto simp: triple_def)
    fix rows
    let ?adv = "saga_advance st (fst (branch_states rows ?n)) (snd (branch_states rows ?n))"
    let ?P = "\<lambda>w. sound gid ?n C0 st w \<and> rows = list_branches gid (w_store w)"
    have over: "triple ?P (ret x) (\<lambda>_. sound gid ?n C0 GSubmitted)" for x :: outcome
      by (rule triple_return) (use sound_any in blast)
    have wr: "triple ?P (State_Monad.bind (drv_transition env g st t r) f) (\<lambda>_. sound gid ?n C0 GSubmitted)"
      if t: "?adv = Finish t"
        and f: "\<And>ok. triple (sound gid ?n C0 (if ok \<and> t = GAborting then GAborting else GSubmitted)) (f ok)
          (\<lambda>_. sound gid ?n C0 GSubmitted)"
      for t r f
    proof (rule triple_bind [OF _ f])
      have cases: "st = GSubmitted \<and> t \<in> {GSucceed, GAborting} \<or> st = GAborting \<and> t = GFailed"
        using t Suc.prems by (auto simp: saga_forward_offset split: option.splits if_splits)
      have "?P w \<Longrightarrow> t = GFailed \<Longrightarrow> all_undone gid ?n (C0 @ w_trace w)" for w
        using undone_when_finished [of gid ?n st "w_store w"] t cases by auto
      then show "triple ?P (drv_transition env g st t r)
          (\<lambda>ok. sound gid ?n C0 (if ok \<and> t = GAborting then GAborting else GSubmitted))"
        by (intro triple_conseq [OF sound_status_write [OF assms(1,2) cases]]) auto
    qed
    show "triple ?P
      (case ?adv of
         Call i op \<Rightarrow> State_Monad.bind (saga_call env d g steps st i op)
           (\<lambda>next. case next of None \<Rightarrow> ret Done | Some s \<Rightarrow> saga_loop fuel env d g steps s)
       | Finish s \<Rightarrow> if s = GAborting
           then State_Monad.bind (drv_transition env g st s saga_failed_text)
             (\<lambda>ok. if ok then saga_loop fuel env d g steps s else ret Done)
           else State_Monad.bind (drv_transition env g st s []) (\<lambda>_. ret Done)
       | Wait \<Rightarrow> ret Done | RunWorkflow \<Rightarrow> ret Done | CallEach is op \<Rightarrow> ret Done)
      (\<lambda>_. sound gid ?n C0 GSubmitted)"
    proof (cases ?adv)
      case (Call i op)
      then have "op = Action \<and> st = GSubmitted \<or> op = Compensate \<and> st = GAborting"
        by (rule saga_advance_call)
      note call = saga_call_sound [OF assms(1,2) this, of ?n C0 d steps i]
      have pre: "triple ?P (saga_call env d g steps st i op)
          (\<lambda>r w. case r of None \<Rightarrow> sound gid ?n C0 GSubmitted w
            | Some s \<Rightarrow> sound gid ?n C0 s w \<and> (s = GSubmitted \<or> s = GAborting))"
        by (rule triple_conseq [OF call]) simp_all
      have "triple ?P (State_Monad.bind (saga_call env d g steps st i op)
           (\<lambda>next. case next of None \<Rightarrow> ret Done | Some s \<Rightarrow> saga_loop fuel env d g steps s))
        (\<lambda>_. sound gid ?n C0 GSubmitted)"
      proof (rule triple_bind [OF pre])
        fix r
        show "triple (\<lambda>w. case r of None \<Rightarrow> sound gid ?n C0 GSubmitted w
            | Some s \<Rightarrow> sound gid ?n C0 s w \<and> (s = GSubmitted \<or> s = GAborting))
          (case r of None \<Rightarrow> ret Done | Some s \<Rightarrow> saga_loop fuel env d g steps s)
          (\<lambda>_. sound gid ?n C0 GSubmitted)"
          using Suc.IH by (cases r) (auto simp: triple_def)
      qed
      with Call show ?thesis by simp
    next
      case (Finish s)
      have end_it: "triple ?P (State_Monad.bind (drv_transition env g st s []) (\<lambda>_. ret Done))
          (\<lambda>_. sound gid ?n C0 GSubmitted)" if "s \<noteq> GAborting"
        by (rule wr [OF Finish]) (use that in \<open>simp add: triple_return\<close>)
      have turn: "triple ?P (State_Monad.bind (drv_transition env g st s saga_failed_text)
             (\<lambda>ok. if ok then saga_loop fuel env d g steps s else ret Done))
          (\<lambda>_. sound gid ?n C0 GSubmitted)" if "s = GAborting"
      proof (rule wr [OF Finish])
        fix ok
        show "triple (sound gid ?n C0 (if ok \<and> s = GAborting then GAborting else GSubmitted))
            (if ok then saga_loop fuel env d g steps s else ret Done) (\<lambda>_. sound gid ?n C0 GSubmitted)"
          using Suc.IH [of GAborting] that by (cases ok) (simp_all add: triple_return)
      qed
      show ?thesis
        unfolding Finish advance.case
      proof (cases "s = GAborting")
        case True
        show "triple ?P (if s = GAborting then State_Monad.bind (drv_transition env g st s saga_failed_text)
             (\<lambda>ok. if ok then saga_loop fuel env d g steps s else ret Done)
           else State_Monad.bind (drv_transition env g st s []) (\<lambda>_. ret Done)) (\<lambda>_. sound gid ?n C0 GSubmitted)"
          unfolding if_P [OF True] by (rule turn [OF True])
      next
        case False
        show "triple ?P (if s = GAborting then State_Monad.bind (drv_transition env g st s saga_failed_text)
             (\<lambda>ok. if ok then saga_loop fuel env d g steps s else ret Done)
           else State_Monad.bind (drv_transition env g st s []) (\<lambda>_. ret Done)) (\<lambda>_. sound gid ?n C0 GSubmitted)"
          unfolding if_not_P [OF False] by (rule end_it [OF False])
      qed
    qed (simp_all only: advance.case over)
  qed
qed

lemma process_saga_sound:
  assumes "apart gid env" "g_gid g = gid" "g_trans_type g = Saga" "\<not> is_final (g_status g)"
    and "js_steps (dr_json d) (g_payload g) = Some steps" "steps \<noteq> []"
  shows "triple (sound gid (length steps) C0 (g_status g)) (process fuel env d g)
    (\<lambda>_. sound gid (length steps) C0 GSubmitted)"
proof -
  have p: "process fuel env d g = saga_loop fuel env d g steps (g_status g)"
    using assms(3,5,6)
    by (simp add: process_def prepared_timeout_to_def process_saga_def or_default_def)
  show ?thesis
  proof (cases "g_status g = GPrepared")
    case True
    have "triple (sound gid (length steps) C0 GPrepared) (saga_loop fuel env d g steps GPrepared)
        (\<lambda>_. sound gid (length steps) C0 GSubmitted)"
    proof (cases fuel)
      case 0
      then show ?thesis by (auto intro!: triple_return elim: sound_any)
    next
      case (Suc k)
      show ?thesis
        unfolding Suc saga_loop.simps saga_advance.simps advance.case
        by (rule triple_bind [OF keeps_sound_any [OF keeps_sound_observe [OF assms(1)]]])
          (rule triple_return)
    qed
    with True p show ?thesis by simp
  next
    case False
    with assms(4) have "g_status g = GSubmitted \<or> g_status g = GAborting" by (cases "g_status g") simp_all
    from saga_loop_sound [OF assms(1,2) this] p show ?thesis by simp
  qed
qed

section \<open>The whole history\<close>

lemma locked_status:
  assumes "lock_one_due owner lease s = (Some g, s')" "store_ok s" "g_gid g = gid"
  shows "status_of gid s' = status_of gid s" "status_of gid s' = Some (g_status g)"
proof -
  show "status_of gid s' = Some (g_status g)"
    using locked_row(1) [OF assms(1,2)] assms(3) by (simp add: status_of_def)
  moreover obtain g0 where "get_global gid s = Some g0" "g_status g = g_status g0"
    using assms sql.lock_Some [of s owner lease g s'] by (auto simp: take_lease_def)
  ultimately show "status_of gid s' = status_of gid s" by (simp add: status_of_def)
qed

lemma lived_saga_sound:
  assumes "lived js gid s0 s C" "fresh_txn gid g0 s0" "g_trans_type g0 = Saga"
    and "js_steps js (g_payload g0) = Some steps" "steps \<noteq> []"
  shows "saga_sound gid (length steps) GSubmitted s C"
  using assms(1)
proof induction
  case created
  then show ?case using assms(2) by (auto simp: saga_sound_def fresh_txn_def status_of_def)
next
  case (others s C s')
  from saga_sound_others [OF others.hyps(2) others.IH] show ?case .
next
  case (round s C env d g s' w fuel k)
  have e: "evolves s0 s" "store_ok s"
    using lived_evolves [OF round.hyps(1)] assms(2) by (simp_all add: fresh_txn_def)
  note l = locked_row [OF round.hyps(5) e(2)]
  note st = locked_status [OF round.hyps(5) e(2) round.hyps(6)]
  have "evolves s0 s'" using e(1) l(3) by (rule evolves_trans)
  with assms(2) obtain h where "get_global gid s' = Some h" "row_evolves g0 h" by (rule fresh_txn_row)
  with l(1) round.hyps(6) have g: "g_trans_type g = Saga" "g_payload g = g_payload g0"
    using assms(3) by (auto simp: row_evolves_def)
  let ?w = "\<lparr>w_store = s', w_step = k, w_trace = []\<rparr>"
  have "saga_sound gid (length steps) GSubmitted s' C"
    by (rule saga_sound_store [OF round.IH l(4,5) st(1)])
  then have "sound gid (length steps) C (g_status g) ?w"
    using st(2) by (simp add: saga_sound_def turned_back_def)
  from tripleD [OF process_saga_sound [OF round.hyps(2,6) g(1) l(2), of d steps] this, of fuel]
  have "sound gid (length steps) C GSubmitted (snd (run_state (process fuel env d g) ?w))"
    using round.hyps(4) g(2) assms(4,5) by simp
  then show ?case unfolding round.hyps(7) .
next
  case (refused s C g c)
  have "op = Action \<or> op = Compensate \<and> GSubmitted = GAborting" if "op = c_op c" for op
    using that refused.hyps(5) by simp
  then have "saga_sound gid (length steps) GSubmitted s (C @ [Called c Failure])"
    by (intro saga_sound_called refused.IH) simp
  moreover have "(c_branch_id c, Action, BFailed) \<in> answered gid (C @ [Called c Failure])"
    using answeredI(2) [of c "C @ [Called c Failure]"] refused.hyps(4,5) by simp
  ultimately show ?case by (rule saga_sound_record)
qed

lemma history_saga_sound:
  assumes "history js gid s0 s C" "fresh_txn gid g0 s0" "g_trans_type g0 = Saga"
    and "js_steps js (g_payload g0) = Some steps" "steps \<noteq> []"
  shows "saga_sound gid (length steps) GSubmitted s C"
  using lived_saga_sound [OF history_lived [OF assms(1,2)] assms(2-5)] .

lemma saga_calls:
  "saga_sound gid n st s C \<Longrightarrow> was_called gid op C \<Longrightarrow> op = Action \<or> op = Compensate \<and> turned_back gid s"
  by (simp add: saga_sound_def)

lemma agreed_called: "(bid, op) \<in> agreed gid C \<Longrightarrow> was_called gid op C"
  by (auto simp: agreed_def was_called_def)

lemma saga_succeeded_answered:
  assumes "history js gid s0 s C" "fresh_txn gid g0 s0" "g_trans_type g0 = Saga"
    and "js_steps js (g_payload g0) = Some steps" "steps \<noteq> []"
    and "i < length steps" "status_of gid s = Some GSucceed"
  shows "(branch_id i, Action) \<in> agreed gid C"
proof -
  let ?d = "(demo_driver [] [])\<lparr>dr_json := js\<rparr>"
  have "(branch_id i, {Action, Try}) \<in> owed ?d g0 GSucceed (st_branch s0)"
    using assms(3,4,6) by (simp add: owed_def or_default_def)
  then obtain op where "op \<in> {Action, Try}" "(branch_id i, op) \<in> agreed gid C"
    using history_account [of ?d, OF _ assms(2)] assms(1,7) fresh_txn_gid [OF assms(2)]
    unfolding settled_account_def by fastforce
  moreover from this(2) have "op \<noteq> Try"
    using saga_calls [OF history_saga_sound [OF assms(1-5)]] agreed_called by blast
  ultimately show ?thesis by auto
qed

lemma saga_failed_answered:
  assumes "saga_sound gid n st s C" "i < n" "status_of gid s = Some GFailed"
    and "\<forall>c. c_gid c = gid \<longrightarrow> c_op c = Compensate \<longrightarrow> Called c Failure \<notin> set C"
  shows "(branch_id i, Compensate) \<in> agreed gid C"
proof -
  have "all_undone gid n C" using assms(1,3) by (simp add: saga_sound_def)
  with assms(2) obtain op st' where op: "op \<in> undo_ops" "(branch_id i, op, st') \<in> answered gid C"
    unfolding all_undone_def by blast
  then have "was_called gid op C" by (auto simp: answered_def was_called_def)
  with saga_calls [OF assms(1)] op(1) have "op = Compensate" by (auto simp: undo_ops_def)
  with op(2) assms(4) show ?thesis by (auto simp: answered_def agreed_def)
qed

text \<open>
  C4. A saga that has ended has done all of its business or none: if it succeeded, every action
  took effect exactly once and nothing was compensated; if it failed, every action that took effect
  was undone by exactly one compensation, unless a branch refused to compensate. This holds over
  all rounds of all workers, also of those that died in the middle, whatever calls were lost,
  repeated, reordered or came late, for branches behind the barrier.
\<close>

theorem saga_effects:
  assumes "history js gid s0 s C" "fresh_txn gid g0 s0" "g_trans_type g0 = Saga"
    and "js_steps js (g_payload g0) = Some steps" "i < length steps"
    and "delivered {} gid C rqs" "status_of gid s = Some t" "is_final t"
    and "\<forall>c. c_gid c = gid \<longrightarrow> c_op c = Compensate \<longrightarrow> Called c Failure \<notin> set C"
  shows "if t = GSucceed then effects gid (branch_id i) rqs = [Action]
    else effects gid (branch_id i) rqs = [] \<or> effects gid (branch_id i) rqs = [Action, Compensate]"
proof -
  let ?ops = "ops_of gid (branch_id i) rqs" and ?done = "effects gid (branch_id i) rqs"
  have ne: "steps \<noteq> []" using assms(5) by auto
  note sound = history_saga_sound [OF assms(1-4) ne]
  have asked: "op = Action \<or> op = Compensate \<and> turned_back gid s" if "op \<in> set ?ops" for op
    using that assms(6) saga_calls [OF sound] by (auto simp: delivered_def)
  have sub: "set ?done \<subseteq> set ?ops" unfolding effects_def by (rule serve_asked)
  show ?thesis
  proof (cases "t = GSucceed")
    case True
    with assms(7) have "status_of gid s = Some GSucceed" by simp
    from agreed_requested [OF assms(6) saga_succeeded_answered [OF assms(1-4) ne assms(5) this]]
    have "Action \<in> set ?ops" .
    moreover have only: "op = Action" if "op \<in> set ?ops" for op
      using asked [OF that] assms(7) True by (auto simp: turned_back_def)
    then have "\<forall>x\<in>set ?ops. origin_op x \<noteq> Some Action" by (metis option.distinct(1) origin_op.simps(4))
    ultimately have "filter (\<lambda>x. x = Action) ?done = [Action]"
      using serve_alone [of Action gid "branch_id i" rqs "[]"] by (simp add: effects_def)
    moreover have "filter (\<lambda>x. x = Action) ?done = ?done" using sub only by (intro filter_True) blast
    ultimately show ?thesis using True by simp
  next
    case False
    with assms(7,8) have "status_of gid s = Some GFailed" by (cases t) simp_all
    from agreed_requested [OF assms(6) saga_failed_answered [OF sound assms(5) this assms(9)]]
    have "Compensate \<in> set ?ops" .
    moreover have "unmixed Action Compensate ?ops"
    proof -
      have "origin_op Action \<noteq> Some Action" by simp
      then show ?thesis unfolding unmixed_def using asked by metis
    qed
    ultimately have "filter (in_pair Action Compensate) ?done = [] \<or>
        filter (in_pair Action Compensate) ?done = [Action, Compensate]"
      by (intro effects_undone) (simp_all add: pair_of_def)
    moreover have "filter (in_pair Action Compensate) ?done = ?done"
      using sub asked by (intro filter_True) blast
    ultimately show ?thesis using False by simp
  qed
qed

text \<open>The second action is refused; its request arrives after its compensation.\<close>

definition second_refused :: environment where
  "second_refused = answering (\<lambda>b op. if b = ''02'' \<and> op = Action then Failure else Success)"

abbreviation saga_leased :: "global_row option \<times> store" where
  "saga_leased \<equiv> lock_one_due (dr_owner (demo_driver two_steps [])) (dr_lease (demo_driver two_steps [])) saga_start"

definition saga_ended :: world where
  "saga_ended = snd (run_state (process 6 second_refused (demo_driver two_steps []) (the (fst saga_leased)))
     \<lparr>w_store = snd saga_leased, w_step = 0, w_trace = []\<rparr>)"

lemma saga_start_fresh: "fresh_txn ''g'' (the (get_global ''g'' saga_start)) saga_start"
proof -
  have "store_ok saga_start"
    using store_ok_create_global [of "empty_store 5"] saga_start_facts(1) saga_start_setting(1) by (metis snd_conv)
  moreover have "list_all (\<lambda>b. b_status b = BPrepared \<and>
      (case index_of (b_branch_id b) of None \<Rightarrow> True | Some i \<Rightarrow> b_branch_id b = branch_id i)) (st_branch saga_start)"
    "get_global ''g'' saga_start = Some (the (get_global ''g'' saga_start))"
    "\<not> is_final (g_status (the (get_global ''g'' saga_start)))"
    "g_trans_type (the (get_global ''g'' saga_start)) = Saga" by code_simp+
  ultimately show ?thesis
    by (auto simp: fresh_txn_def on_record_def clear_numbers_def list_all_iff split: option.splits)
qed

lemma saga_history: "history (demo_json two_steps []) ''g'' saga_start (w_store saga_ended) (w_trace saga_ended)"
proof -
  have "fst saga_leased = Some (the (fst saga_leased))" "g_gid (the (fst saga_leased)) = ''g''" by code_simp+
  then have "saga_leased = (Some (the (fst saga_leased)), snd saga_leased)" by (metis prod.collapse)
  moreover have "dr_json (demo_driver two_steps []) = demo_json two_steps []"
    by (simp add: demo_driver_def with_config_def)
  moreover have "apart ''g'' second_refused" "joins second_refused"
    by (simp_all add: apart_def joins_def second_refused_def answering_def)
  ultimately show ?thesis
    using history.round [OF history.created _ _ _ _
        \<open>g_gid (the (fst saga_leased)) = ''g''\<close> saga_ended_def] by simp
qed

definition saga_ops :: "(string \<times> branch_op) list" where
  "saga_ops = [(''01'', Action), (''02'', Compensate), (''02'', Action), (''01'', Compensate)]"

lemma saga_effects_witness:
  "effects ''g'' (branch_id 1) (at_barrier ''g'' saga_ops) = [] \<or>
   effects ''g'' (branch_id 1) (at_barrier ''g'' saga_ops) = [Action, Compensate]"
proof -
  have tr: "map (\<lambda>e. case e of Called c r \<Rightarrow> Some (c_branch_id c, c_op c, r) | _ \<Rightarrow> None) (w_trace saga_ended) =
      [Some (''01'', Action, Success), Some (''02'', Action, Failure), None,
       Some (''02'', Compensate, Success), Some (''01'', Compensate, Success), None]"
    by code_simp
  have heard: "(c_branch_id c, c_op c, r) \<in> {(''01'', Action, Success), (''02'', Action, Failure),
      (''02'', Compensate, Success), (''01'', Compensate, Success)}" if "Called c r \<in> set (w_trace saga_ended)" for c r
  proof -
    from that have "Some (c_branch_id c, c_op c, r) \<in> (\<lambda>e. case e of Called c r \<Rightarrow>
        Some (c_branch_id c, c_op c, r) | _ \<Rightarrow> None) ` set (w_trace saga_ended)"
      by (rule image_eqI [rotated]) simp
    then show ?thesis unfolding set_map [symmetric] tr by auto
  qed
  have "was_called ''g'' Action (w_trace saga_ended)" "was_called ''g'' Compensate (w_trace saga_ended)"
    by code_simp+
  then have "delivered {} ''g'' (w_trace saga_ended) (at_barrier ''g'' saga_ops)"
    by (intro delivered_at_barrier) (auto simp: saga_ops_def dest!: heard)
  moreover have "status_of ''g'' (w_store saga_ended) = Some GFailed" by code_simp
  moreover have "\<forall>c. c_gid c = ''g'' \<longrightarrow> c_op c = Compensate \<longrightarrow> Called c Failure \<notin> set (w_trace saga_ended)"
    by (auto dest!: heard)
  moreover have "g_trans_type (the (get_global ''g'' saga_start)) = Saga" by code_simp
  moreover have "js_steps (demo_json two_steps []) (g_payload (the (get_global ''g'' saga_start))) = Some two_steps"
    by (simp add: demo_json_def)
  ultimately show ?thesis
    using saga_effects [OF saga_history saga_start_fresh, of two_steps 1] saga_start_setting(4) by simp
qed

end
