(* ===== verification/Xa_Effects.thy ===== *)
theory Xa_Effects
  imports Effects Xa
begin

text \<open>
  The coordinator, the XA helper and the database together. A second commit of a branch finds no
  prepared transaction, and the helper reports this as success; that is right because over its
  whole history a transaction goes one way, so what is not there any more was committed. The
  database is a parameter with the behaviour the manuals of PostgreSQL and MySQL describe.
\<close>

section \<open>The database\<close>

text \<open>What has become of a prepared transaction.\<close>

datatype fate = In_doubt | Kept | Dropped

fun fate_of :: "branch_op \<Rightarrow> fate" where
  "fate_of Commit = Kept"
| "fate_of _ = Dropped"

definition fate_sql :: "flavor \<Rightarrow> branch_op \<Rightarrow> string \<Rightarrow> string" where
  "fate_sql f op x = (if op = Commit then commit_sql f x else rollback_sql f x)"

text \<open>
  A statement that ends a prepared transaction succeeds only where there is one; where there is
  none it is refused with the code for this; with another error, a lost connection, it has
  happened or not. It touches no other name.
\<close>

definition two_phase_db :: "flavor \<Rightarrow> 'db exec \<Rightarrow> ('db \<Rightarrow> string \<Rightarrow> fate option) \<Rightarrow> bool" where
  "two_phase_db f exec look \<longleftrightarrow>
     (\<forall>op x db. op = Commit \<or> op = Rollback \<longrightarrow>
        (let (r, db') = exec (fate_sql f op x) db
         in (\<forall>y. y \<noteq> x \<longrightarrow> look db' y = look db y) \<and>
            (r = Inr () \<longrightarrow> look db x = Some In_doubt \<and> look db' x = Some (fate_of op)) \<and>
            (r = Inl (Some (already_resolved_code f)) \<longrightarrow>
               look db x \<noteq> Some In_doubt \<and> look db' x = look db x) \<and>
            (r \<noteq> Inr () \<longrightarrow> look db' x = look db x \<or>
               look db x = Some In_doubt \<and> look db' x = Some (fate_of op))))"

section \<open>The service\<close>

text \<open>A request, as gid, branch number and operation: the helper is called with the branch's name.\<close>

type_synonym xa_request = "string \<times> string \<times> branch_op"

definition xa_name :: "flavor \<Rightarrow> xa_request \<Rightarrow> string" where
  "xa_name f rq = xid_for f (fst rq) (fst (snd rq))"

definition xa_settle ::
  "flavor \<Rightarrow> 'db exec \<Rightarrow> xa_request \<Rightarrow> 'db \<Rightarrow> (string option xa_error + resolved) \<times> 'db" where
  "xa_settle f exec rq db =
     (if snd (snd rq) = Commit then commit_prepared f exec (xa_name f rq) db
      else rollback_prepared f exec (xa_name f rq) db)"

text \<open>The requests in the order they reach the database: its final state and who was told success.\<close>

primrec xa_final :: "flavor \<Rightarrow> 'db exec \<Rightarrow> xa_request list \<Rightarrow> 'db \<Rightarrow> 'db" where
  "xa_final f exec [] db = db"
| "xa_final f exec (rq # rqs) db = xa_final f exec rqs (snd (xa_settle f exec rq db))"

primrec xa_told :: "flavor \<Rightarrow> 'db exec \<Rightarrow> xa_request list \<Rightarrow> 'db \<Rightarrow> xa_request set" where
  "xa_told f exec [] db = {}"
| "xa_told f exec (rq # rqs) db =
     (if isl (fst (xa_settle f exec rq db)) then {} else {rq}) \<union>
     xa_told f exec rqs (snd (xa_settle f exec rq db))"

lemma settle_run:
  "xa_settle f exec rq db =
     (let (r, db') = exec (fate_sql f (snd (snd rq)) (xa_name f rq)) db
      in case r of
           Inr _ \<Rightarrow> (Inr Resolved_now, db')
         | Inl e \<Rightarrow> if e = Some (already_resolved_code f) then (Inr Already_resolved, db')
                   else (Inl (Db_error e), db'))"
proof -
  have "check_xid f (xa_name f rq) = (Inr () :: string option xa_error + unit)"
    using xid_for_ok [of f "fst rq" "fst (snd rq)"] by (simp add: check_xid_def xa_name_def)
  then show ?thesis
    by (simp add: xa_settle_def commit_prepared_def rollback_prepared_def resolve_def fate_sql_def
        split_beta split: sum.split)
qed

lemma settle_fate:
  assumes "two_phase_db f exec look" "snd (snd rq) = Commit \<or> snd (snd rq) = Rollback"
  shows "y \<noteq> xa_name f rq \<Longrightarrow> look (snd (xa_settle f exec rq db)) y = look db y"
    and "look db (xa_name f rq) \<in> {Some In_doubt, Some (fate_of (snd (snd rq)))} \<Longrightarrow>
      look (snd (xa_settle f exec rq db)) (xa_name f rq) \<in> {Some In_doubt, Some (fate_of (snd (snd rq)))}"
    and "look db (xa_name f rq) = Some (fate_of (snd (snd rq))) \<Longrightarrow>
      look (snd (xa_settle f exec rq db)) (xa_name f rq) = Some (fate_of (snd (snd rq)))"
    and "\<not> isl (fst (xa_settle f exec rq db)) \<Longrightarrow>
      look db (xa_name f rq) \<in> {Some In_doubt, Some (fate_of (snd (snd rq)))} \<Longrightarrow>
      look (snd (xa_settle f exec rq db)) (xa_name f rq) = Some (fate_of (snd (snd rq)))"
proof -
  let ?x = "xa_name f rq" and ?op = "snd (snd rq)"
  obtain r db' where e: "exec (fate_sql f ?op ?x) db = (r, db')" by fastforce
  from assms have law: "let (r, db') = exec (fate_sql f ?op ?x) db
         in (\<forall>y. y \<noteq> ?x \<longrightarrow> look db' y = look db y) \<and>
            (r = Inr () \<longrightarrow> look db ?x = Some In_doubt \<and> look db' ?x = Some (fate_of ?op)) \<and>
            (r = Inl (Some (already_resolved_code f)) \<longrightarrow>
               look db ?x \<noteq> Some In_doubt \<and> look db' ?x = look db ?x) \<and>
            (r \<noteq> Inr () \<longrightarrow> look db' ?x = look db ?x \<or>
               look db ?x = Some In_doubt \<and> look db' ?x = Some (fate_of ?op))"
    unfolding two_phase_db_def by blast
  have run: "snd (xa_settle f exec rq db) = db'"
    "\<not> isl (fst (xa_settle f exec rq db)) \<longleftrightarrow> r = Inr () \<or> r = Inl (Some (already_resolved_code f))"
    by (auto simp: settle_run e split: sum.split)
  show "y \<noteq> ?x \<Longrightarrow> look (snd (xa_settle f exec rq db)) y = look db y"
    and "look db ?x \<in> {Some In_doubt, Some (fate_of ?op)} \<Longrightarrow>
      look (snd (xa_settle f exec rq db)) ?x \<in> {Some In_doubt, Some (fate_of ?op)}"
    and "look db ?x = Some (fate_of ?op) \<Longrightarrow> look (snd (xa_settle f exec rq db)) ?x = Some (fate_of ?op)"
    and "\<not> isl (fst (xa_settle f exec rq db)) \<Longrightarrow> look db ?x \<in> {Some In_doubt, Some (fate_of ?op)} \<Longrightarrow>
      look (snd (xa_settle f exec rq db)) ?x = Some (fate_of ?op)"
    using law unfolding e run by (cases "r = Inr ()"; auto)+
qed

lemma requests_fate:
  assumes "two_phase_db f exec look"
    and "\<forall>rq\<in>set rqs. snd (snd rq) = Commit \<or> snd (snd rq) = Rollback"
    and "\<forall>rq\<in>set rqs. xa_name f rq = x \<longrightarrow> snd (snd rq) = op"
    and "look db x \<in> {Some In_doubt, Some (fate_of op)}"
    and "look db x = Some (fate_of op) \<or> (\<exists>rq\<in>xa_told f exec rqs db. xa_name f rq = x)"
  shows "look (xa_final f exec rqs db) x = Some (fate_of op)"
  using assms(2-)
proof (induction rqs arbitrary: db)
  case (Cons rq rqs)
  let ?db = "snd (xa_settle f exec rq db)"
  have op: "snd (snd rq) = Commit \<or> snd (snd rq) = Rollback" using Cons.prems(1) by simp
  note step = settle_fate [OF assms(1) op]
  have "look ?db x \<in> {Some In_doubt, Some (fate_of op)} \<and>
      (look ?db x = Some (fate_of op) \<or> (\<exists>rq\<in>xa_told f exec rqs ?db. xa_name f rq = x))"
  proof (cases "xa_name f rq = x")
    case True
    then have same: "snd (snd rq) = op" using Cons.prems(2) by simp
    from step(2-4) [unfolded True same] Cons.prems(3,4) show ?thesis
      by (cases "isl (fst (xa_settle f exec rq db))") auto
  next
    case False
    with step(1) [of x db] Cons.prems(3,4) show ?thesis by (auto split: if_splits)
  qed
  with Cons.IH [of ?db] Cons.prems(1,2) show ?case by simp
qed auto

section \<open>With the coordinator\<close>

definition xa_delivered ::
  "string \<Rightarrow> event list \<Rightarrow> flavor \<Rightarrow> 'db exec \<Rightarrow> xa_request list \<Rightarrow> 'db \<Rightarrow> bool" where
  "xa_delivered gid C f exec rqs db \<longleftrightarrow>
     (\<forall>c. Called c Success \<in> set C \<longrightarrow> c_gid c = gid \<longrightarrow>
        (gid, c_branch_id c, c_op c) \<in> xa_told f exec rqs db) \<and>
     (\<forall>(g, bid, op)\<in>set rqs. (op = Commit \<or> op = Rollback) \<and> (g = gid \<longrightarrow> was_called gid op C))"


text \<open>A database that reads the two statements of PostgreSQL.\<close>

definition end_doubt :: "string \<Rightarrow> fate \<Rightarrow> (string \<Rightarrow> fate option) \<Rightarrow> (string option + unit) \<times> (string \<Rightarrow> fate option)" where
  "end_doubt x t db =
     (if db x = Some In_doubt then (Inr (), db(x \<mapsto> t)) else (Inl (Some ''42704''), db))"

definition demo_exec :: "(string \<Rightarrow> fate option) exec" where
  "demo_exec sql db =
     (if take 15 sql = ''COMMIT PREPARED'' then end_doubt (butlast (drop 17 sql)) Kept db
      else end_doubt (butlast (drop 19 sql)) Dropped db)"

lemma demo_exec_fate: "op = Commit \<or> op = Rollback \<Longrightarrow> demo_exec (fate_sql Pg op x) db = end_doubt x (fate_of op) db"
  by (auto simp: demo_exec_def fate_sql_def quoted_def)

lemma demo_two_phase_db: "two_phase_db Pg demo_exec (\<lambda>db. db)"
  by (auto simp: two_phase_db_def demo_exec_fate end_doubt_def Let_def)

definition xa_demo :: store where
  "xa_demo = snd (register_branch_with ''g'' ''01'' [(Commit, ''http://c''), (Rollback, ''http://x'')]
     [] (one_txn 7 Xa GSubmitted))"

abbreviation xa_leased :: "global_row option \<times> store" where
  "xa_leased \<equiv> lock_one_due (dr_owner (demo_driver [] [])) (dr_lease (demo_driver [] [])) xa_demo"

definition xa_ended :: world where
  "xa_ended = snd (run_state (process 3 willing (demo_driver [] []) (the (fst xa_leased)))
     \<lparr>w_store = snd xa_leased, w_step = 0, w_trace = []\<rparr>)"

lemma xa_demo_rows:
  "st_branch xa_demo = map (\<lambda>(op, u). \<lparr>b_gid = ''g'', b_branch_id = ''01'', b_op = op,
      b_url = u, b_payload = [], b_status = BPrepared, b_create_time = 7, b_update_time = 7,
      b_finish_time = None\<rparr>) [(Commit, ''http://c''), (Rollback, ''http://x'')]"
  "st_global xa_demo = [global_init 7 ''g'' Xa GSubmitted ''[]'']"
  by code_simp+

lemma xa_demo_fresh: "fresh_txn ''g'' (global_init 7 ''g'' Xa GSubmitted ''[]'') xa_demo"
proof -
  have "store_ok xa_demo" unfolding xa_demo_def by (rule store_ok_register) simp
  moreover have "on_record ''g'' xa_demo = {}" by (auto simp: on_record_def xa_demo_rows)
  moreover have "clear_numbers ''g'' xa_demo"
    by (auto simp: clear_numbers_def xa_demo_rows(1) tcc_demo_rows(3,4))
  ultimately show ?thesis
    by (simp add: fresh_txn_def get_global_def xa_demo_rows(2) row_at_Cons global_init_def)
qed

lemma xa_history: "history (demo_json [] []) ''g'' xa_demo (w_store xa_ended) (w_trace xa_ended)"
proof -
  have "fst xa_leased = Some (the (fst xa_leased))" "g_gid (the (fst xa_leased)) = ''g''" by code_simp+
  then have "xa_leased = (Some (the (fst xa_leased)), snd xa_leased)" by (metis prod.collapse)
  moreover have "dr_json (demo_driver [] []) = demo_json [] []"
    by (simp add: demo_driver_def with_config_def)
  ultimately show ?thesis
    using history.round [OF history.created willing_apart willing_alone(2) _ _
        \<open>g_gid (the (fst xa_leased)) = ''g''\<close> xa_ended_def] by simp
qed

definition prepared_db :: "string \<Rightarrow> fate option" where
  "prepared_db = (\<lambda>x. None)(xid_for Pg ''g'' ''01'' \<mapsto> In_doubt)"


end
