(* ===== verification/Http_Body.thy ===== *)
theory Http_Body
  imports Http
begin

text \<open>
  The bodies of the HTTP requests as JSON values, and what the request types of
  \<^verbatim>\<open>crates/dtmrs-server/src/http.rs\<close> read from an object: a missing field has its default, a
  missing field without one, or a field of another type, refuses the request. The text of a value
  is serde_json; fields of an object have distinct names, and unknown ones are ignored.
\<close>

section \<open>Values\<close>

datatype json_value =
    JNull
  | JBool bool
  | JInt int
  | JStr string
  | JArr "json_value list"
  | JObj "(string \<times> json_value) list"

type_synonym json_object = "(string \<times> json_value) list"

text \<open>Indexing: what is not there, or not in an object, is null.\<close>

fun json_field :: "json_value \<Rightarrow> string \<Rightarrow> json_value" where
  "json_field (JObj fs) k = (case map_of fs k of None \<Rightarrow> JNull | Some v \<Rightarrow> v)"
| "json_field _ k = JNull"

fun as_str :: "json_value \<Rightarrow> string option" where
  "as_str (JStr s) = Some s"
| "as_str _ = None"

fun as_bool :: "json_value \<Rightarrow> bool option" where
  "as_bool (JBool b) = Some b"
| "as_bool _ = None"

fun as_i64 :: "json_value \<Rightarrow> int option" where
  "as_i64 (JInt i) = (if in_i64 i then Some i else None)"
| "as_i64 _ = None"

text \<open>The elements of an array, if each can be read.\<close>

fun as_list :: "(json_value \<Rightarrow> 'a option) \<Rightarrow> json_value \<Rightarrow> 'a list option" where
  "as_list f (JArr vs) = those (map f vs)"
| "as_list f _ = None"

fun as_nullable :: "(json_value \<Rightarrow> 'a option) \<Rightarrow> json_value \<Rightarrow> 'a option option" where
  "as_nullable f JNull = Some None"
| "as_nullable f v = map_option Some (f v)"

section \<open>Fields\<close>

definition required :: "(json_value \<Rightarrow> 'a option) \<Rightarrow> string \<Rightarrow> json_object \<Rightarrow> 'a option" where
  "required f k fs = Option.bind (map_of fs k) f"

definition defaulted :: "'a \<Rightarrow> (json_value \<Rightarrow> 'a option) \<Rightarrow> string \<Rightarrow> json_object \<Rightarrow> 'a option" where
  "defaulted d f k fs = (case map_of fs k of None \<Rightarrow> Some d | Some v \<Rightarrow> f v)"

abbreviation text_field :: "string \<Rightarrow> json_object \<Rightarrow> string option" where
  "text_field \<equiv> defaulted [] as_str"

section \<open>Request types\<close>

text \<open>A step is an object, or an array of its fields in order.\<close>

fun step_of_json :: "json_value \<Rightarrow> saga_step option" where
  "step_of_json (JObj fs) = do {
     a \<leftarrow> required as_str ''action'' fs;
     c \<leftarrow> required as_str ''compensate'' fs;
     p \<leftarrow> text_field ''payload'' fs;
     Some \<lparr>s_action = a, s_compensate = c, s_payload = p\<rparr>
   }"
| "step_of_json (JArr [JStr a, JStr c]) = Some \<lparr>s_action = a, s_compensate = c, s_payload = []\<rparr>"
| "step_of_json (JArr [JStr a, JStr c, JStr p]) = Some \<lparr>s_action = a, s_compensate = c, s_payload = p\<rparr>"
| "step_of_json _ = None"

definition submit_of_json :: "json_object \<Rightarrow> submit_req option" where
  "submit_of_json fs = do {
     gid \<leftarrow> required as_str ''gid'' fs;
     tt \<leftarrow> defaulted default_trans_type as_str ''trans_type'' fs;
     steps \<leftarrow> defaulted [] (as_list step_of_json) ''steps'' fs;
     Some \<lparr>sr_gid = gid, sr_trans_type = tt, sr_steps = steps\<rparr>
   }"

definition prepare_of_json :: "json_object \<Rightarrow> prepare_req option" where
  "prepare_of_json fs = do {
     gid \<leftarrow> required as_str ''gid'' fs;
     tt \<leftarrow> required as_str ''trans_type'' fs;
     actions \<leftarrow> defaulted [] (as_list as_str) ''actions'' fs;
     q \<leftarrow> text_field ''query_prepared'' fs;
     grace \<leftarrow> defaulted None (as_nullable as_i64) ''grace_secs'' fs;
     payloads \<leftarrow> defaulted [] (as_list as_str) ''payloads'' fs;
     empty_topic \<leftarrow> defaulted False as_bool ''allow_empty_topic'' fs;
     timeout \<leftarrow> defaulted 0 as_i64 ''timeout_to_fail'' fs;
     Some \<lparr>pr_gid = gid, pr_trans_type = tt, pr_actions = actions, pr_query_prepared = q,
       pr_grace_secs = grace, pr_payloads = payloads, pr_allow_empty_topic = empty_topic,
       pr_timeout_to_fail = timeout\<rparr>
   }"

definition register_of_json :: "json_object \<Rightarrow> register_branch_req option" where
  "register_of_json fs = do {
     gid \<leftarrow> required as_str ''gid'' fs;
     bid \<leftarrow> required as_str ''branch_id'' fs;
     confirm \<leftarrow> text_field ''confirm'' fs;
     cancel \<leftarrow> text_field ''cancel'' fs;
     try \<leftarrow> text_field ''try'' fs;
     commit \<leftarrow> text_field ''commit'' fs;
     rollback \<leftarrow> text_field ''rollback'' fs;
     data \<leftarrow> text_field ''data'' fs;
     Some \<lparr>rr_gid = gid, rr_branch_id = bid, rr_confirm = confirm, rr_cancel = cancel, rr_try = try,
       rr_commit = commit, rr_rollback = rollback, rr_data = data\<rparr>
   }"

text \<open>The requests with a body, by their path.\<close>

definition posted :: "string \<Rightarrow> json_object \<Rightarrow> http_request option" where
  "posted path fs =
     (if path = ''/api/dtmsvr/submit'' then map_option Submit_http (submit_of_json fs)
      else if path = ''/api/dtmsvr/prepare'' then map_option Prepare_http (prepare_of_json fs)
      else if path = ''/api/dtmsvr/registerBranch'' then map_option Register_http (register_of_json fs)
      else if path = ''/api/dtmsvr/abort'' then map_option Abort_http (required as_str ''gid'' fs)
      else if path = ''/api/dtmsvr/retry'' then map_option Retry_http (required as_str ''gid'' fs)
      else None)"

lemmas body_defs = required_def defaulted_def submit_of_json_def prepare_of_json_def
  register_of_json_def posted_def

lemma posted_route: "posted path fs = Some req \<Longrightarrow> route_of req = (''POST'', path)"
  by (auto simp: posted_def split: if_splits)

lemma as_list_map:
  "(\<And>i. i \<in> set is \<Longrightarrow> f (g i) = Some (h i)) \<Longrightarrow> as_list f (JArr (map g is)) = Some (map h is)"
  by (induction "is") auto

text \<open>Only the gid and, where a first phase needs them, mode and branch number have no default.\<close>

lemma posted_needs_gid: "posted path fs = Some req \<Longrightarrow> \<exists>gid. map_of fs ''gid'' = Some (JStr gid)"
proof -
  have "required as_str ''gid'' fs = Some g \<Longrightarrow> \<exists>gid. map_of fs ''gid'' = Some (JStr gid)" for g
    by (auto simp: required_def Option.bind_eq_Some_conv elim!: as_str.elims)
  then show "posted path fs = Some req \<Longrightarrow> \<exists>gid. map_of fs ''gid'' = Some (JStr gid)"
    by (auto simp: posted_def submit_of_json_def prepare_of_json_def register_of_json_def
        Option.bind_eq_Some_conv split: if_splits)
qed

end
