(* ===== verification/Bench_Laws.thy ===== *)
theory Bench_Laws
  imports Bench_Client Server_Main
begin

text \<open>
  What a measurement rests on: the coordinator accepts every request of the load generator and a
  branch is registered before it is tried; the counter counts a transaction once, by the last of its
  actions, and nothing else; the wait ends without a clock; and the coordinator it starts is
  configured by its flags.
\<close>

section \<open>The protocol\<close>

text \<open>The requests of each mode as the coordinator reads them; an action or a try is an address.\<close>

definition first_phase_request :: "string \<Rightarrow> string \<Rightarrow> string list \<Rightarrow> string \<Rightarrow> http_request" where
  "first_phase_request gid tt actions q =
     Prepare_http \<lparr>pr_gid = gid, pr_trans_type = tt, pr_actions = actions, pr_query_prepared = q,
       pr_grace_secs = None, pr_payloads = [], pr_allow_empty_topic = False, pr_timeout_to_fail = 0\<rparr>"

definition decide_request :: "string \<Rightarrow> string \<Rightarrow> saga_step list \<Rightarrow> http_request" where
  "decide_request gid tt steps = Submit_http \<lparr>sr_gid = gid, sr_trans_type = tt, sr_steps = steps\<rparr>"

theorem client_protocol:
  assumes "target \<noteq> ''dtm''"
  shows "map read_call (client_calls ''saga'' gid n target b) =
      [Inl (Some (decide_request gid ''saga''
        (map (\<lambda>i. saga_step_new (busi_url (CHR ''a'') i) (busi_url (CHR ''c'') i)) (from_one n))))]"
    and "map read_call (client_calls ''msg'' gid n target b) =
      [Inl (Some (first_phase_request gid ''msg'' (map (busi_url (CHR ''a'')) (from_one n)) (busi_base @ ''/query''))),
       Inl (Some (decide_request gid ''msg'' []))]"
    and "map read_call (client_calls ''tcc'' gid n target b) =
      [Inl (Some (first_phase_request gid ''tcc'' [] []))] @
      concat (map (\<lambda>i. [Inl (Some (Register_http (bench_registration gid i))), Inr (busi_url (CHR ''t'') i)]) (from_one n)) @
      [Inl (Some (decide_request gid ''tcc'' []))]"
    and "map read_call (client_calls ''xa'' gid n target b) =
      [Inl (Some (first_phase_request gid ''xa'' [] []))] @
      map (\<lambda>i. Inr (xa_first_url b gid i)) (from_one n) @ [Inl (Some (decide_request gid ''xa'' []))]"
proof -
  note e = assms client_calls_def first_phase_request_def decide_request_def
  show "map read_call (client_calls ''saga'' gid n target b) =
      [Inl (Some (decide_request gid ''saga''
        (map (\<lambda>i. saga_step_new (busi_url (CHR ''a'') i) (busi_url (CHR ''c'') i)) (from_one n))))]"
    by (simp add: e read_saga del: upt_Suc)
  show "map read_call (client_calls ''msg'' gid n target b) =
      [Inl (Some (first_phase_request gid ''msg'' (map (busi_url (CHR ''a'')) (from_one n)) (busi_base @ ''/query''))),
       Inl (Some (decide_request gid ''msg'' []))]"
    using read_msg [of gid "busi_url (CHR ''a'')" "from_one n" "busi_base @ ''/query''"]
    by (simp add: e read_submit del: upt_Suc)
  show "map read_call (client_calls ''tcc'' gid n target b) =
      [Inl (Some (first_phase_request gid ''tcc'' [] []))] @
      concat (map (\<lambda>i. [Inl (Some (Register_http (bench_registration gid i))), Inr (busi_url (CHR ''t'') i)]) (from_one n)) @
      [Inl (Some (decide_request gid ''tcc'' []))]"
    by (simp add: e read_submit read_prepare read_tcc_register map_concat comp_def del: upt_Suc)
  show "map read_call (client_calls ''xa'' gid n target b) =
      [Inl (Some (first_phase_request gid ''xa'' [] []))] @
      map (\<lambda>i. Inr (xa_first_url b gid i)) (from_one n) @ [Inl (Some (decide_request gid ''xa'' []))]"
    by (simp add: e read_submit read_prepare comp_def del: upt_Suc)
qed

text \<open>The number of requests, which is what the modes differ in.\<close>

lemma client_round_trips:
  assumes "target \<noteq> ''dtm''"
  shows "length (client_calls ''saga'' gid n target b) = 1" "length (client_calls ''msg'' gid n target b) = 2"
    "length (client_calls ''xa'' gid n target b) = 2 + n" "length (client_calls ''tcc'' gid n target b) = 2 + 2 * n"
proof -
  have "length (concat (map (\<lambda>i. [f i, g i]) is)) = 2 * length is" for f g :: "nat \<Rightarrow> client_call" and "is"
    by (induction "is") auto
  with assms show "length (client_calls ''saga'' gid n target b) = 1" "length (client_calls ''msg'' gid n target b) = 2"
    "length (client_calls ''xa'' gid n target b) = 2 + n" "length (client_calls ''tcc'' gid n target b) = 2 + 2 * n"
    by (simp_all add: client_calls_def del: upt_Suc)
qed

text \<open>The branch numbers are the driver's, up to the largest it has; the next one is refused.\<close>

lemma bench_numbers: "i \<in> set (from_one n) \<Longrightarrow> rr_branch_id (bench_registration gid i) = branch_id (i - 1)"
  by (auto simp: bench_registration_def branch_id_def)

lemma bench_numbers_canonical:
  assumes "i \<in> set (from_one n)"
  shows "is_canonical_branch_id (rr_branch_id (bench_registration gid i)) \<longleftrightarrow> i \<le> max_branch_index + 1"
  using assms by (auto simp: bench_numbers [OF assms] canonical_iff branch_id_inj)

section \<open>Counting\<close>

text \<open>
  The counter goes up by one for the last action and for no other action, try or compensation, so
  it counts a transaction once if each action is done once.
\<close>

lemma busi_path: "busi_url c i = busi_base @ CHR ''/'' # c # dec i"
  by (simp add: busi_url_def)

lemma path_counts: "CHR ''/'' # c # dec i = final_path n \<longleftrightarrow> c = CHR ''a'' \<and> i = n"
  by (auto simp: final_path_def dest: dec_inj)

theorem last_action_counts:
  "snd (busi_serve (final_path n) (CHR ''/'' # c # dec i) k) = (if c = CHR ''a'' \<and> i = n then k + 1 else k)"
  by (simp add: busi_serve_def path_counts)

lemma counted_paths:
  "snd (busi_serve (final_path n) p k) \<noteq> k \<longleftrightarrow> p = final_path n"
  by (simp add: busi_serve_def)

section \<open>Waiting\<close>

text \<open>A counter that never falls: the wait ends after so many turns, whatever the clock says.\<close>

lemma wait_ends:
  assumes "mono count" "prev \<le> count (2 * k)" "stalled \<le> 500" "501 * (n - prev) + (501 - stalled) \<le> fuel"
  shows "wait_done fuel n count in_time k stalled prev \<noteq> None"
  using assms(2-)
proof (induction fuel arbitrary: k stalled prev)
  case (Suc fuel)
  let ?cur = "count (2 * k + 1)"
  have cur: "prev \<le> ?cur" "?cur \<le> count (2 * Suc k)"
    using Suc.prems(1) monoD [OF assms(1), of "2 * k" "2 * k + 1"] monoD [OF assms(1), of "2 * k + 1" "2 * Suc k"]
    by simp_all
  show ?case
  proof (cases "count (2 * k) < n \<and> in_time k")
    case True
    with Suc.prems(1) have n: "prev < n" by simp
    show ?thesis
    proof (cases "?cur = prev")
      case True
      with Suc.prems cur Suc.IH [of prev "Suc k" "stalled + 1"] show ?thesis by (simp add: Let_def)
    next
      case False
      with cur n have "n - ?cur + 1 \<le> n - prev" by simp
      then have "501 * (n - ?cur) + 501 \<le> 501 * (n - prev)" by linarith
      with Suc.prems have "501 * (n - ?cur) + (501 - 0) \<le> fuel" by linarith
      with False cur Suc.IH [of ?cur "Suc k" 0] True show ?thesis by (simp add: Let_def)
    qed
  next
    case False
    then have "wait_done (Suc fuel) n count in_time k stalled prev = Some k" by (simp only: wait_done.simps if_False)
    then show ?thesis by simp
  qed
qed simp

theorem bench_wait_ends:
  "mono count \<Longrightarrow> wait_done (501 * n + 501) n count in_time 0 0 0 \<noteq> None"
  by (rule wait_ends) simp_all

section \<open>The final check\<close>

theorem verified_means_ended:
  assumes "verify fuel is_dtm n answers over k = Some (ok, other)" "\<forall>k. length (answers k) = n"
  shows "ok + other = n \<and> (ok = n \<longrightarrow> (\<exists>k. \<forall>a\<in>set (answers k). ended_answer is_dtm a))"
  using assms(1)
proof (induction fuel arbitrary: k)
  case (Suc fuel)
  let ?ok = "filter (ended_answer is_dtm) (answers k)"
  have sum: "length ?ok + length (filter (\<lambda>a. \<not> ended_answer is_dtm a) (answers k)) = n"
    using sum_length_filter_compl [of "ended_answer is_dtm" "answers k"] assms(2) by simp
  show ?case
  proof (cases "length ?ok = n \<or> over k")
    case True
    with Suc.prems have e: "ok = length ?ok" "other = length (filter (\<lambda>a. \<not> ended_answer is_dtm a) (answers k))"
      by (auto simp: Let_def split: if_splits)
    have "\<forall>a\<in>set (answers k). ended_answer is_dtm a" if "ok = n"
    proof -
      from that e assms(2) have "length ?ok = length (answers k)" by simp
      then show ?thesis by (metis filter_id_conv length_filter_less less_irrefl)
    qed
    with sum e show ?thesis by blast
  next
    case False
    with Suc.prems have "verify fuel is_dtm n answers over (Suc k) = Some (ok, other)"
      by (simp add: Let_def)
    then show ?thesis by (rule Suc.IH)
  qed
qed simp

section \<open>The coordinator it starts\<close>

text \<open>The flags reach it; a tick that is no positive number leaves it at its default.\<close>

lemma bench_settings:
  assumes "\<forall>k\<in>fst ` set (tc_environment getenv a). env k = map_of (tc_environment getenv a) k"
  shows "se_db (settings_of env pid) = bench_dsn getenv a"
    and "se_addr (settings_of env pid) = ''127.0.0.1:26700''"
    and "se_grpc_addr (settings_of env pid) = ''127.0.0.1:26701''"
    and "se_tick_ms (settings_of env pid) =
      (case parse_usize (ba_tick a) of None \<Rightarrow> 1000 | Some n \<Rightarrow> if 0 < n then n else 1000)"
proof -
  have d: "dec 26700 = ''26700''" "dec 26701 = ''26701''" by code_simp+
  show "se_db (settings_of env pid) = bench_dsn getenv a"
    "se_addr (settings_of env pid) = ''127.0.0.1:26700''"
    "se_grpc_addr (settings_of env pid) = ''127.0.0.1:26701''"
    "se_tick_ms (settings_of env pid) =
      (case parse_usize (ba_tick a) of None \<Rightarrow> 1000 | Some n \<Rightarrow> if 0 < n then n else 1000)"
    using assms by (simp_all add: settings_of_def env_or_def tc_environment_def tc_port_default_def d)
qed

section \<open>Clearing\<close>

text \<open>
  The default store is database 1 of the Redis server, never database 0, where the tests are; the
  statements for SQL leave tokens and subscriptions in place.
\<close>

lemma default_clearing:
  "clearing_of (bench_dsn (\<lambda>_. None) bench_defaults) =
     Run_command ''redis-cli -h 127.0.0.1 -p 16379 -n 1 flushdb''"
  "bench_args_of [''dtmrs-bench'', ''--db'', ''redis'', ''--steps'', ''many'', ''--quiet''] =
     Some (bench_defaults\<lparr>ba_quiet := True\<rparr>)"
  "bench_args_of [''dtmrs-bench'', ''--fast''] = None"
  by code_simp+

end
