(* ===== verification/Bench_Rm.thy ===== *)
theory Bench_Rm
  imports Bench_Client Xa_Effects
begin

text \<open>
  The resource manager of an XA measurement (\<^verbatim>\<open>bench/harness/src/xa.rs\<close>): a service in front of a
  database whose branches are inserted in a first phase, registered with the coordinator before, and
  committed or rolled back when it calls. The database and the coordinator are parameters.
\<close>

section \<open>The thread with the database\<close>

datatype rm_job = First_phase string string | Commit_branch string string | Rollback_branch string string

text \<open>
  Statements with text only, the insert with its two values, and what becomes of a branch that is
  dropped with its connection.
\<close>

record 'db business_db =
  bd_exec :: "'db exec"
  bd_insert :: "string \<Rightarrow> string \<Rightarrow> int \<Rightarrow> 'db \<Rightarrow> bool \<times> 'db"
  bd_drop :: "xa_branch \<Rightarrow> 'db \<Rightarrow> 'db"

datatype 'e setup_error =
    Not_connected 'e
  | Not_xa "'e xa_error"
  | Two_phase_off "'e xa_error"
  | Table_failed 'e

definition bench_insert :: "string \<Rightarrow> string" where
  "bench_insert dsn = sql_q (from_url dsn) ''INSERT INTO xa_bench (gid, val) VALUES (?, ?)''"

text \<open>
  The answers to connecting, to the question about two-phase commit and to creating the table; what
  deleting the old rows answers does not matter.
\<close>

definition rm_setup ::
  "string \<Rightarrow> 'e + unit \<Rightarrow> 'e + string \<Rightarrow> 'e + unit \<Rightarrow> 'e setup_error + flavor \<times> string" where
  "rm_setup dsn connected enabled created =
     (case connected of
        Inl e \<Rightarrow> Inl (Not_connected e)
      | Inr _ \<Rightarrow>
          (case flavor_from_url dsn of
             Inl e \<Rightarrow> Inl (Not_xa e)
           | Inr f \<Rightarrow>
               (case ensure_enabled f enabled of
                  Inl e \<Rightarrow> Inl (Two_phase_off e)
                | Inr _ \<Rightarrow>
                    (case created of
                       Inl e \<Rightarrow> Inl (Table_failed e)
                     | Inr _ \<Rightarrow> Inr (f, bench_insert dsn)))))"

text \<open>One job: whether it succeeded, the counter, and the database.\<close>

fun do_job ::
  "flavor \<Rightarrow> string \<Rightarrow> 'db business_db \<Rightarrow> rm_job \<Rightarrow> 64 word \<times> 'db \<Rightarrow> bool \<times> 64 word \<times> 'db" where
  "do_job f ins B (First_phase gid bid) (n, db) =
     (case xa_begin f (bd_exec B) gid bid db of
        (Inl _, db) \<Rightarrow> (False, n, db)
      | (Inr br, db) \<Rightarrow>
          (case bd_insert B ins gid 1 db of
             (False, db) \<Rightarrow> (False, n, bd_drop B br db)
           | (True, db) \<Rightarrow>
               (case xa_prepare (bd_exec B) br db of (r, db) \<Rightarrow> (\<not> isl r, n, db))))"
| "do_job f ins B (Commit_branch gid bid) (n, db) =
     (case commit_prepared f (bd_exec B) (xid_for f gid bid) db of
        (Inl _, db) \<Rightarrow> (False, n, db)
      | (Inr _, db) \<Rightarrow> (True, n + 1, db))"
| "do_job f ins B (Rollback_branch gid bid) (n, db) =
     (case rollback_prepared f (bd_exec B) (xid_for f gid bid) db of (r, db) \<Rightarrow> (\<not> isl r, n, db))"

text \<open>The two channels to the thread: a job may not reach it, or its answer may not come back.\<close>

datatype link = Works | Gone | Answer_lost

definition run_job ::
  "link \<Rightarrow> flavor \<Rightarrow> string \<Rightarrow> 'db business_db \<Rightarrow> rm_job \<Rightarrow> 64 word \<times> 'db \<Rightarrow> bool \<times> 64 word \<times> 'db" where
  "run_job l f ins B j st =
     (case l of
        Gone \<Rightarrow> (False, st)
      | Answer_lost \<Rightarrow> (False, snd (do_job f ins B j st))
      | Works \<Rightarrow> do_job f ins B j st)"

section \<open>The service\<close>

text \<open>gid and branch number from the query of an address; the last of several counts.\<close>

definition gid_branch :: "string option \<Rightarrow> string \<times> string" where
  "gid_branch query =
     fold (\<lambda>kv (gid, bid).
         case split_once (CHR ''='') kv of
           Some (k, v) \<Rightarrow>
             if k = ''gid'' then (v, bid) else if k = ''branch_id'' then (gid, v) else (gid, bid)
         | None \<Rightarrow> (gid, bid))
       (split_on (CHR ''&'') (case query of None \<Rightarrow> [] | Some q \<Rightarrow> q)) ([], ''01'')"

definition dtm_answer :: "string \<Rightarrow> string" where
  "dtm_answer word =
     ''{'' @ [CHR 0x22] @ ''dtm_result'' @ [CHR 0x22] @ '':'' @ [CHR 0x22] @ word @ [CHR 0x22] @ ''}''"

definition rm_fail :: string where
  "rm_fail = dtm_answer ''FAILURE''"

definition rm_registration :: "string \<Rightarrow> string \<Rightarrow> string \<Rightarrow> json_object" where
  "rm_registration base gid bid =
     [(''gid'', JStr gid), (''branch_id'', JStr bid), (''commit'', JStr (base @ ''/commit'')),
      (''rollback'', JStr (base @ ''/rollback''))]"

text \<open>\<open>post\<close>: status and text of the answer to a request, if one came.\<close>

type_synonym 't post = "string \<Rightarrow> json_object \<Rightarrow> 't \<Rightarrow> (nat \<times> string) option \<times> 't"

definition rm_first_phase ::
  "'t post \<Rightarrow> string \<Rightarrow> string \<Rightarrow> link \<Rightarrow> flavor \<Rightarrow> string \<Rightarrow> 'db business_db \<Rightarrow> string option \<Rightarrow>
   't \<times> 64 word \<times> 'db \<Rightarrow> string \<times> 't \<times> 64 word \<times> 'db" where
  "rm_first_phase post tc base l f ins B query st =
     (let (gid, bid) = gid_branch query;
          (answer, t) = post (tc @ ''/api/dtmsvr/registerBranch'') (rm_registration base gid bid) (fst st)
      in if answer = None then (rm_fail, t, snd st)
         else (case run_job l f ins B (First_phase gid bid) (snd st) of
                 (ok, st') \<Rightarrow> (if ok then ''{}'' else rm_fail, t, st')))"

definition rm_commit ::
  "link \<Rightarrow> flavor \<Rightarrow> string \<Rightarrow> 'db business_db \<Rightarrow> string option \<Rightarrow> 64 word \<times> 'db \<Rightarrow> string \<times> 64 word \<times> 'db" where
  "rm_commit l f ins B query st =
     (let (gid, bid) = gid_branch query
      in case run_job l f ins B (Commit_branch gid bid) st of
           (ok, st') \<Rightarrow> (if ok then ''{}'' else dtm_answer ''ONGOING'', st'))"

definition rm_rollback ::
  "link \<Rightarrow> flavor \<Rightarrow> string \<Rightarrow> 'db business_db \<Rightarrow> string option \<Rightarrow> 64 word \<times> 'db \<Rightarrow> string \<times> 64 word \<times> 'db" where
  "rm_rollback l f ins B query st =
     (let (gid, bid) = gid_branch query
      in case run_job l f ins B (Rollback_branch gid bid) st of (_, st') \<Rightarrow> (''{}'', st'))"

section \<open>Before and after\<close>

text \<open>The rows written and the transactions still in doubt, \<open>-1\<close> for what cannot be asked.\<close>

definition verify_rows :: "string \<Rightarrow> bool \<Rightarrow> int option \<Rightarrow> 'e + prepared_row list \<Rightarrow> int \<times> int" where
  "verify_rows dsn connected rows listed =
     (if \<not> connected then (-1, -1)
      else
        (case rows of None \<Rightarrow> -1 | Some n \<Rightarrow> n,
         case flavor_from_url dsn :: 'e xa_error + flavor of
           Inl _ \<Rightarrow> -1
         | Inr f \<Rightarrow> (case list_prepared f listed of Inl _ \<Rightarrow> -1 | Inr ps \<Rightarrow> int (length ps))))"

datatype clear_outcome = Unreachable | Not_an_xa_dsn | Not_listed | Cleared_prepared nat

definition clear_prepared ::
  "string \<Rightarrow> bool \<Rightarrow> 'db exec \<Rightarrow> string option + prepared_row list \<Rightarrow> 'db \<Rightarrow> clear_outcome \<times> 'db" where
  "clear_prepared dsn connected exec listed db =
     (if \<not> connected then (Unreachable, db)
      else
        (case flavor_from_url dsn :: string option xa_error + flavor of
           Inl _ \<Rightarrow> (Not_an_xa_dsn, db)
         | Inr f \<Rightarrow>
             (case list_prepared f listed of
                Inl _ \<Rightarrow> (Not_listed, db)
              | Inr ps \<Rightarrow>
                  (Cleared_prepared (length ps),
                   fold (\<lambda>p db. snd (rollback_prepared f exec (px_xid p) db)) ps db))))"

section \<open>Addresses\<close>

lemma split_on_plain: "d \<notin> set a \<Longrightarrow> split_on d a = [a]"
  by (induction a) auto

lemma split_on_first: "d \<notin> set a \<Longrightarrow> split_on d (a @ d # b) = a # split_on d b"
  by (induction a) auto

lemma split_once_first: "d \<notin> set a \<Longrightarrow> split_once d (a @ d # b) = Some (a, b)"
  by (simp add: split_once_Some_iff)

lemma no_amp_pad2: "CHR ''&'' \<notin> set (pad2 i)"
  using pad2_digits [of "CHR ''&''" i] by (auto simp: is_digit_def)

text \<open>
  The client asks for a first phase, the driver for a second one with four parameters; the service
  reads the same gid and branch number from both. It decodes nothing: the queries are those of a
  gid whose characters stand for themselves in a query.
\<close>

definition first_query :: "string \<Rightarrow> nat \<Rightarrow> string" where
  "first_query gid i = ''gid='' @ gid @ ''&branch_id='' @ pad2 i"

definition second_query :: "string \<Rightarrow> branch_op \<Rightarrow> nat \<Rightarrow> string" where
  "second_query gid op i =
     ''gid='' @ gid @ ''&trans_type=xa&branch_id='' @ pad2 i @ ''&op='' @ branch_op_str op"

lemma first_query_sent: "xa_first_url b gid i = b @ ''/xa1?'' @ first_query gid i"
  by (simp add: xa_first_url_def first_query_def)

lemma amp_pieces:
  assumes "CHR ''&'' \<notin> set gid"
  shows "split_on (CHR ''&'') (first_query gid i) = [''gid='' @ gid, ''branch_id='' @ pad2 i]"
    and "split_on (CHR ''&'') (second_query gid op i) =
      [''gid='' @ gid, ''trans_type=xa'', ''branch_id='' @ pad2 i, ''op='' @ branch_op_str op]"
proof -
  have op: "CHR ''&'' \<notin> set (branch_op_str op)" by (cases op) simp_all
  have "split_on (CHR ''&'') ((''gid='' @ gid) @ CHR ''&'' # x) = (''gid='' @ gid) # split_on (CHR ''&'') x" for x
    using assms by (intro split_on_first) simp
  moreover have "split_on (CHR ''&'') (''branch_id='' @ pad2 i) = [''branch_id='' @ pad2 i]"
    using no_amp_pad2 by (intro split_on_plain) simp
  moreover have "split_on (CHR ''&'') (''trans_type=xa'' @ CHR ''&'' # x) = ''trans_type=xa'' # split_on (CHR ''&'') x" for x
    by (intro split_on_first) simp
  moreover have "split_on (CHR ''&'') ((''branch_id='' @ pad2 i) @ CHR ''&'' # x) =
      (''branch_id='' @ pad2 i) # split_on (CHR ''&'') x" for x
    using no_amp_pad2 by (intro split_on_first) simp
  moreover have "split_on (CHR ''&'') (''op='' @ branch_op_str op) = [''op='' @ branch_op_str op]"
    using op by (intro split_on_plain) simp
  ultimately show "split_on (CHR ''&'') (first_query gid i) = [''gid='' @ gid, ''branch_id='' @ pad2 i]"
    and "split_on (CHR ''&'') (second_query gid op i) =
      [''gid='' @ gid, ''trans_type=xa'', ''branch_id='' @ pad2 i, ''op='' @ branch_op_str op]"
    by (simp_all add: first_query_def second_query_def del: split_on.simps)
qed

theorem phases_meet:
  assumes "CHR ''&'' \<notin> set gid"
  shows "gid_branch (Some (first_query gid i)) = (gid, pad2 i)"
    and "gid_branch (Some (second_query gid op i)) = (gid, pad2 i)"
  by (simp_all add: gid_branch_def amp_pieces [OF assms])

end
