(* ===== verification/Bench_Rm_Laws.thy ===== *)
theory Bench_Rm_Laws
  imports Bench_Rm Bench_Laws
begin

text \<open>
  What the coordinator is told by the resource manager of the measurements. A commit is reported
  done only when it is, and never refused. Three things are not as they should be: a rollback is
  reported done whatever became of it, a registration that was refused is taken for one that
  succeeded, and the counter counts branches where the measurement counts transactions.
\<close>

lemma answers_read:
  "from_http 200 ''{}'' = Success" "from_http 200 (dtm_answer ''ONGOING'') = Ongoing"
  "from_http 200 rm_fail = Failure"
  unfolding rm_fail_def by code_simp+

section \<open>Commit\<close>

lemma do_commit:
  "do_job f ins B (Commit_branch gid bid) (n, db) =
     (case xa_settle f (bd_exec B) (gid, bid, Commit) db of
        (r, db') \<Rightarrow> (\<not> isl r, if isl r then n else n + 1, db'))"
  by (auto simp: xa_settle_def xa_name_def split: prod.splits sum.splits)

lemma do_rollback:
  "do_job f ins B (Rollback_branch gid bid) (n, db) =
     (case xa_settle f (bd_exec B) (gid, bid, Rollback) db of (r, db') \<Rightarrow> (\<not> isl r, n, db'))"
  by (auto simp: xa_settle_def xa_name_def split: prod.splits)

text \<open>
  A commit is never answered with a refusal, and a success means that a branch that was prepared
  is committed now, by this call or an earlier one.
\<close>

theorem commit_answer_holds:
  assumes "two_phase_db f (bd_exec B) look" "CHR ''&'' \<notin> set gid"
    and "rm_commit l f ins B (Some (second_query gid Commit i)) (n, db) = (answer, n', db')"
    and "look db (xid_for f gid (pad2 i)) \<in> {Some In_doubt, Some Kept}"
  shows "from_http 200 answer \<noteq> Failure \<and>
    (from_http 200 answer = Success \<longrightarrow> look db' (xid_for f gid (pad2 i)) = Some Kept)"
proof -
  obtain r d where s: "xa_settle f (bd_exec B) (gid, pad2 i, Commit) db = (r, d)" by fastforce
  have "\<not> isl r \<Longrightarrow> look d (xid_for f gid (pad2 i)) = Some Kept"
    using settle_fate(4) [OF assms(1), of "(gid, pad2 i, Commit)" db] assms(4) s by (simp add: xa_name_def)
  then show ?thesis
    using assms(3) answers_read
    by (cases l; cases "isl r")
      (auto simp: rm_commit_def run_job_def phases_meet [OF assms(2)] do_commit s simp del: do_job.simps)
qed

section \<open>Rollback\<close>

text \<open>
  A rollback is answered with success also when the database refused it and the transaction is
  still in doubt, or the job never reached the database; the coordinator will not call again.
\<close>

theorem rollback_is_reported_anyway:
  assumes "CHR ''&'' \<notin> set gid" "bd_exec B (rollback_sql f (xid_for f gid (pad2 i))) db = (Inl None, db)"
  shows "rm_rollback Works f ins B (Some (second_query gid Rollback i)) (n, db) = (''{}'', n, db)"
    and "rm_rollback Gone f ins B (Some (second_query gid Rollback i)) (n, db) = (''{}'', n, db)"
    and "from_http 200 ''{}'' = Success"
proof -
  have "check_xid f (xid_for f gid (pad2 i)) = (Inr () :: string option xa_error + unit)"
    using xid_for_ok [of f gid "pad2 i"] by (simp add: check_xid_def)
  with assms(2) show "rm_rollback Works f ins B (Some (second_query gid Rollback i)) (n, db) = (''{}'', n, db)"
    by (simp add: rm_rollback_def run_job_def phases_meet [OF assms(1)] rollback_prepared_def resolve_def)
  show "rm_rollback Gone f ins B (Some (second_query gid Rollback i)) (n, db) = (''{}'', n, db)"
    by (simp add: rm_rollback_def run_job_def phases_meet [OF assms(1)])
  show "from_http 200 ''{}'' = Success" by (rule answers_read)
qed

section \<open>The first phase\<close>

text \<open>The coordinator of the model at the other end; \<open>txt\<close> prints the body of an answer.\<close>

definition tc_post ::
  "environment \<Rightarrow> kv_json \<Rightarrow> api \<Rightarrow> (body \<Rightarrow> string) \<Rightarrow> string \<Rightarrow> world post" where
  "tc_post env KJ a txt tc url fs w =
     (case strip_prefix tc url of
        None \<Rightarrow> (None, w)
      | Some path \<Rightarrow>
          (case posted path fs of
             None \<Rightarrow> (Some (422, []), w)
           | Some req \<Rightarrow> (case run_state (routes env KJ a [] req) w of ((st, b), w') \<Rightarrow> (Some (st, txt b), w'))))"

lemma read_registration:
  "posted ''/api/dtmsvr/registerBranch'' (rm_registration base gid bid) =
     Some (Register_http \<lparr>rr_gid = gid, rr_branch_id = bid, rr_confirm = [], rr_cancel = [], rr_try = [],
       rr_commit = base @ ''/commit'', rr_rollback = base @ ''/rollback'', rr_data = []\<rparr>)"
  by (simp add: body_defs rm_registration_def)

text \<open>
  A gid the coordinator does not have is answered with 404 and nothing is put on record; the service
  goes on all the same, and if the database takes the work, a prepared transaction is left that no
  coordinator will ever end.
\<close>

theorem refused_branch_is_prepared:
  assumes "CHR ''&'' \<notin> set gid" "gid \<noteq> []" "0 < i" "i \<le> max_branch_index + 1"
    and "get_global gid (e_others env (w_step w) (w_store w)) = None"
    and "do_job f ins B (First_phase gid (pad2 i)) (n, db) = (True, n', db')"
  shows "rm_first_phase (tc_post env KJ a txt tc) tc base Works f ins B (Some (first_query gid i)) (w, n, db) =
      (''{}'', looked env w, n', db')"
    and "\<exists>b. tc_post env KJ a txt tc (tc @ ''/api/dtmsvr/registerBranch'')
      (rm_registration base gid (pad2 i)) w = (Some (404, b), looked env w)"
proof -
  have can: "is_canonical_branch_id (pad2 i)"
    unfolding canonical_iff using assms(3,4) by (intro exI [of _ "i - 1"]) (simp add: branch_id_def)
  have "\<exists>b. tc_post env KJ a txt tc (tc @ ''/api/dtmsvr/registerBranch'')
      (rm_registration base gid (pad2 i)) w = (Some (404, b), looked env w)"
    using assms(2,5) can
    by (simp add: tc_post_def strip_prefix_def read_registration http_register_branch_def answered_def
        api_register_branch_def observe_def access_def Let_def http_result_def http_err_def split_beta)
  then show "\<exists>b. tc_post env KJ a txt tc (tc @ ''/api/dtmsvr/registerBranch'')
      (rm_registration base gid (pad2 i)) w = (Some (404, b), looked env w)" .
  then obtain b where post: "tc_post env KJ a txt tc (tc @ ''/api/dtmsvr/registerBranch'')
      (rm_registration base gid (pad2 i)) w = (Some (404, b), looked env w)" by blast
  show "rm_first_phase (tc_post env KJ a txt tc) tc base Works f ins B (Some (first_query gid i)) (w, n, db) =
      (''{}'', looked env w, n', db')"
    using assms(6) by (simp add: rm_first_phase_def phases_meet [OF assms(1)] post run_job_def)
qed

section \<open>Counting\<close>

text \<open>The second phases of the branches of one transaction, all of which succeed.\<close>

definition commit_branches ::
  "flavor \<Rightarrow> string \<Rightarrow> 'db business_db \<Rightarrow> string \<Rightarrow> nat list \<Rightarrow> 64 word \<times> 'db \<Rightarrow> 64 word \<times> 'db" where
  "commit_branches f ins B gid is st =
     fold (\<lambda>i st. snd (rm_commit Works f ins B (Some (second_query gid Commit i)) st)) is st"

text \<open>
  One transaction raises the counter by the number of its branches; the wait compares it with the
  number of transactions, so with two branches, the default, it ends when half of them are committed
  and the throughput that is printed is twice the real one.
\<close>

theorem xa_counts_branches:
  assumes "CHR ''&'' \<notin> set gid" "\<And>sql db. fst (bd_exec B sql db) \<in> {Inr (), Inl (Some (already_resolved_code f))}"
  shows "fst (commit_branches f ins B gid (from_one steps) (n, db)) = n + word_of_nat steps"
proof -
  have one: "\<exists>db'. rm_commit Works f ins B (Some (second_query gid Commit i)) (n, db) = (''{}'', n + 1, db')" for i n db
  proof -
    have "\<not> isl (fst (xa_settle f (bd_exec B) (gid, pad2 i, Commit) db))"
      using assms(2) [of "fate_sql f Commit (xa_name f (gid, pad2 i, Commit))" db]
      by (auto simp: settle_run split_beta split: sum.splits)
    then show ?thesis
      by (auto simp: rm_commit_def run_job_def phases_meet [OF assms(1)] do_commit split_beta simp del: do_job.simps)
  qed
  have "fst (commit_branches f ins B gid is (n, db)) = n + word_of_nat (length is)" for "is"
  proof (induction "is" arbitrary: n db)
    case Nil
    then show ?case by (simp add: commit_branches_def)
  next
    case (Cons i "is")
    obtain db' where "rm_commit Works f ins B (Some (second_query gid Commit i)) (n, db) = (''{}'', n + 1, db')"
      using one by blast
    with Cons.IH [of "n + 1" db'] show ?case by (simp add: commit_branches_def)
  qed
  from this [of "from_one steps"] show ?thesis by (simp del: upt_Suc)
qed

section \<open>Clearing\<close>

text \<open>
  What is left of an earlier run is cleared by its being prepared, not by its name: a prepared
  transaction of another program on the same server is rolled back too.
\<close>

lemma clearing_spares_nobody:
  "clear_prepared ''postgres://h/d'' True demo_exec (Inr [\<lparr>pr_gid = ''pay-7'', pr_age = Some 1, pr_data = None, pr_fourth = None\<rparr>])
     [''pay-7'' \<mapsto> In_doubt] = (Cleared_prepared 1, [''pay-7'' \<mapsto> In_doubt, ''pay-7'' \<mapsto> Dropped])"
proof -
  have f: "flavor_from_url ''postgres://h/d'' = (Inr Pg :: string option xa_error + flavor)"
    and x: "check_xid Pg ''pay-7'' = (Inr () :: string option xa_error + unit)" by code_simp+
  have "demo_exec (fate_sql Pg Rollback ''pay-7'') db = end_doubt ''pay-7'' Dropped db" for db
    by (simp add: demo_exec_fate)
  then have "demo_exec (rollback_sql Pg ''pay-7'') db = end_doubt ''pay-7'' Dropped db" for db
    by (simp add: fate_sql_def)
  then show ?thesis
    by (simp add: clear_prepared_def f list_prepared_def rollback_prepared_def resolve_def x end_doubt_def
        del: rollback_sql.simps)
qed

end
