(* ===== verification/Spec2Isabelle.thy ===== *)
theory Spec2Isabelle
  imports Core_Types Advance Topics Branch_Id Dialect Sql_Store Sql_Laws Store_Contract Lifecycle
    Lease_History Registry Server_Rows Alert Exec Workflow Driver Driver_Guarantee Driver_Trace
    Branch_Slots Saga_Run Round_Ends Workflow_Laws Api Api_Laws Coordinator
    Redis_Keys Redis_Store Redis_Laws Redis_History Redis_Leases Backends_Agree Redis_Props
    Barrier Redis_Barrier Xa Auth Auth_Laws
    Http Grpc_Server Grpc_Client Protocol_Laws Embedded Embedded_Laws Two_Phase_Run Tcc_Client
    Ffi_Host Ffi_Pull Ffi_Workflow Ffi Ffi_Laws
    Schema Schema_Laws Store_Dispatch Topics_Agree Server_Main Confirmed Gid
    Retries Driven Worker_Stop Barrier_Schema Txn_History Txn_Direction
    Crash_Turns Crash Effects Saga_Effects Xa_Effects
    Http_Body Bench_Client Bench_Laws Bench_Rm Bench_Rm_Laws
begin

text \<open>
  A verification development for dtmrs, a coordinator of distributed transactions in Rust.

  \<^bold>\<open>The program.\<close> A client describes a global transaction to the API: a saga, a TCC, a two-phase
  message, an XA transaction or a workflow. The coordinator stores it with its branches in a
  database. Workers lease a due transaction, ask the state machine of its mode what comes next,
  call the branch over HTTP, gRPC or in the process, record the answer, and go on until the
  transaction has succeeded or failed or has to wait. Several workers, instances and clients act
  on the store at once.

  \<^bold>\<open>The theories.\<close>
  \<^item> \<open>Prelude\<close>: strings as UTF-8 bytes, numbers as text, wrapping and saturating 64-bit arithmetic,
    tables as lists of rows with the SQL statements used on them.
  \<^item> \<open>Core_Types\<close>, \<open>Advance\<close>, \<open>Topics\<close> (\<^verbatim>\<open>dtmrs-core/src/lib.rs\<close>): verdicts, modes, statuses and
    operations; the state machines \<open>saga_advance\<close>, \<open>tcc_advance\<close>, \<open>msg_advance\<close>,
    \<open>msg_fanout_advance\<close>, \<open>xa_advance\<close> and \<open>workflow_advance\<close>, the retry policy and the prepared
    deadline; the expansion of topics.
  \<^item> \<open>Branch_Id\<close> (\<^verbatim>\<open>dtmrs-server/src/driver.rs\<close>): the numbers of branches.
  \<^item> \<open>Dialect\<close> (\<^verbatim>\<open>dtmrs-core/src/dialect.rs\<close>): templates and column types of the three databases.
  \<^item> \<open>Sql_Store\<close> (\<^verbatim>\<open>dtmrs-store/src/lib.rs\<close>): the tables as a record and every operation as a
    function on it; a transaction of the database is one function. \<open>Sql_Laws\<close>: how lookups see
    the operations, unique keys, all-or-nothing registration. \<open>Store_Contract\<close>: the locales
    \<open>status_store\<close> and \<open>lease_store\<close>, what the coordinator needs of a store, interpreted on the
    SQL store. \<open>Lease_History\<close>: what they give over any history of operations.
  \<^item> \<open>Redis_Keys\<close>, \<open>Redis_Store\<close> (\<^verbatim>\<open>dtmrs-store/src/redis_store.rs\<close>): the Redis commands on a key space
    and every operation of the Redis backend; a Lua script or a \<open>MULTI\<close> block is one function.
    \<open>Redis_Laws\<close>: how hashes read as rows, and the Redis store as an instance of \<open>status_store\<close>
    and \<open>lease_store\<close>. \<open>Redis_History\<close>, \<open>Redis_Leases\<close>: the invariants over any history, leases and
    the scan. \<open>Backends_Agree\<close>: the two backends run side by side. \<open>Redis_Props\<close>: the properties.
  \<^item> \<open>Schema\<close>, \<open>Schema_Laws\<close> (\<^verbatim>\<open>dtmrs-store/src/lib.rs\<close>): opening a SQL store, its tables with their
    column types, migration; old databases are completed and every text fits its column.
    \<open>Store_Dispatch\<close>: the store as one of the two backends, again an instance of \<open>lease_store\<close>.
    \<open>Topics_Agree\<close>: subscriptions on both.
  \<^item> \<open>Server_Main\<close> (\<^verbatim>\<open>dtmrs/src/main.rs\<close>): the server process, from its environment variables to the
    two protocols it serves, and that it is closed when it was given a secret.
  \<^item> \<open>Barrier\<close>, \<open>Redis_Barrier\<close> (\<^verbatim>\<open>dtmrs-barrier/src\<close>): what makes a branch safe against repeated,
    empty and late calls, on a table of the business database and on Redis keys. \<open>Barrier_Schema\<close>:
    the table, and that no row is cut to fit it.
  \<^item> \<open>Xa\<close> (\<^verbatim>\<open>dtmrs-xa/src/lib.rs\<close>): the statements of two-phase commit on MySQL and PostgreSQL, and
    the transactions left in doubt.
  \<^item> \<open>Auth\<close>, \<open>Auth_Laws\<close> (\<^verbatim>\<open>dtmrs-server/src/auth.rs\<close>): the guard, sessions, managed tokens and
    their cache over any history of an instance.
  \<^item> \<open>Http\<close>, \<open>Grpc_Server\<close> (\<^verbatim>\<open>dtmrs-server/src/http.rs\<close>, \<^verbatim>\<open>grpc/server.rs\<close>): routes, requests and answers of
    the two protocols around the API, and the guards in front of them. \<open>Protocol_Laws\<close>: they
    accept and refuse alike. \<open>Http_Body\<close>: what a request reads from its JSON body.
  \<^item> \<open>Embedded\<close>, \<open>Embedded_Laws\<close> (\<^verbatim>\<open>dtmrs-server/src/embedded.rs\<close>): the coordinator inside another
    process, with its builders; a try and a local transaction of the host are programs.
  \<^item> \<open>Grpc_Client\<close> (\<^verbatim>\<open>grpc/client.rs\<close>): the channels to branches, their certificates and the reading of
    an answer.
  \<^item> \<open>Ffi_Host\<close>, \<open>Ffi_Pull\<close>, \<open>Ffi_Workflow\<close>, \<open>Ffi\<close> (\<^verbatim>\<open>dtmrs-ffi/src/lib.rs\<close>): the C interface: codes, strings
    and callbacks; the queue from which a host pulls branches; workflows written in the language
    of the host; the exported functions. \<open>Ffi_Laws\<close>: starting and errors.
  \<^item> \<open>Bench_Client\<close>, \<open>Bench_Rm\<close> (\<^verbatim>\<open>bench/harness/src\<close>): the load generator with the requests of a
    transaction in each mode, and its XA service in front of a database.
  \<^item> \<open>Lifecycle\<close>: the abstract specification: \<open>reach\<close> says which statuses a transaction of a mode
    may reach from which, \<open>evolves\<close> lifts it to stores.
  \<^item> \<open>Registry\<close>, \<open>Server_Rows\<close>, \<open>Alert\<close>, \<open>Workflow\<close>, \<open>Driver\<close>, \<open>Api\<close> (\<^verbatim>\<open>dtmrs-server/src\<close>): the files
    of the same names; one definition per handler, with the helpers its loops are made of. \<open>Gid\<close>: the
    numbers handed out by the API.
  \<^item> \<open>Exec\<close>: the execution model of driver and API. A program transforms a \<open>world\<close> (the store, a
    step counter and the trace of calls and status writes) and makes its accesses one at a
    time; before each access \<open>e_others\<close> of the environment does to the store what every other
    worker, client and instance does in the meantime, so that a theorem for all environments
    speaks of all interleavings. The environment also answers the branch calls.

  \<^bold>\<open>What is shown.\<close>
  \<^item> Interleavings (\<open>Driver_Guarantee\<close>, \<open>Coordinator\<close>): each program of the coordinator keeps the
    life cycle as long as the others do (rely and guarantee); so a submitted TCC, XA or message
    transaction only succeeds, and an ended transaction stays as it is.
  \<^item> Traces (\<open>Driver_Trace\<close>): what a round may call and write, given the status it starts from.
    \<open>Confirmed\<close>: a success is recorded only for a branch that has answered it, and a transaction
    is ended only when every branch it owes a success has.
  \<^item> Runs (\<open>Branch_Slots\<close>, \<open>Saga_Run\<close>): a saga from the rows the API writes to its end, forward and
    backward, with the calls in order. \<open>Two_Phase_Run\<close>, \<open>Tcc_Client\<close>: a TCC transaction from the
    host that opens it and runs the tries, over registration, submission or abort and the lease,
    to its end.
  \<^item> Histories (\<open>Txn_History\<close>, \<open>Txn_Direction\<close>): a transaction over all the rounds it takes, by any
    workers, with everybody else acting in between and meanwhile; only the holder of the lease
    records answers and ends it (\<open>elsewhere\<close>). An ended transaction has heard every success it
    needs, and it has gone one way only.
  \<^item> Deaths (\<open>Crash_Turns\<close>, \<open>Crash\<close>): workers that die between two turns, in a call or before they
    turn a saga. A round that dies in a call leaves what a round leaves that does not hear the
    answer, but for the lease, so such histories come to nothing new.
  \<^item> Coordinator and services together (\<open>Effects\<close>, \<open>Saga_Effects\<close>, \<open>Xa_Effects\<close>): such a history
    next to the requests that reach the barrier, or the database of an XA branch, in any order: an
    ended saga, TCC or XA transaction has done all of its business or none of it. What a service
    promises is a hypothesis: success only for what it has committed (\<open>delivered\<close>,
    \<open>xa_delivered\<close>), and of the database what its manual says (\<open>two_phase_db\<close>).
  \<^item> Stopping (\<open>Worker_Stop\<close>): a stopped worker has made whole turns.
  \<^item> Hosts (\<open>Embedded_Laws\<close>): a try runs only when its branch is registered, a local transaction
    only when its message is prepared, and waiting ends.
  \<^item> Termination (\<open>Round_Ends\<close>): a round ends whatever the branches answer. Loops of the driver
    run with fuel, and the fuel that is enough is given: two turns a step and two for a saga,
    one turn more than the largest branch number for TCC and XA.
  \<^item> Progress (\<open>Retries\<close>, \<open>Driven\<close>): time passes between the turns of a worker, and a round that
    meets a failing branch puts its transaction off. The locale \<open>retried\<close> says what a round owes;
    with it a TCC, an XA transaction and a saga end within the longest wait after their branches
    answer success again, however they failed before.
  \<^item> Backends (\<open>Store_Contract\<close>, \<open>Redis_History\<close>, \<open>Backends_Agree\<close>): both stores write a status
    by comparison where others may write, lease to one worker at a time and answer alike; the
    index of Redis never loses a transaction, and only ended ones expire.
  \<^item> Hosts in other languages (\<open>Ffi_Pull\<close>, \<open>Ffi_Workflow\<close>, \<open>Ffi_Laws\<close>): a dispatched branch returns
    what the host replied to it or unknown, in every interleaving of dispatches, pulls, replies
    and timeouts; a function of the host runs as the workflow its branches make, errors it
    ignores included; the first start decides, and errors change nothing.
  \<^item> Channels (\<open>Grpc_Client\<close>): a branch that asks for TLS is called over TLS with the certificate of
    the configuration or not at all.
  \<^item> Measurements (\<open>Bench_Laws\<close>, \<open>Bench_Rm_Laws\<close>): the coordinator accepts every request of the load
    generator, which registers before it tries; its counter counts a transaction once except in XA
    mode, where it counts branches; the wait ends; the XA service commits what it says, but reports
    a rollback that was refused as done.
  \<^item> The API (\<open>Api_Laws\<close>), workflows (\<open>Workflow_Laws\<close>), the pure functions, each in its theory.

  \<^bold>\<open>Parameters.\<close> serde_json is the record \<open>json\<close>, and \<open>branch_json\<close> for the values of branch fields
  in Redis; where a property needs that decoding inverts encoding it says so. SHA-256 and
  AES-GCM are functions. Answers of branches, handlers and workflow functions come from the
  environment or are arguments. Environment variables are functions from names to values.

  \<^bold>\<open>Not modelled.\<close> Errors of the database connection and crashes inside an access (an operation
  of the store happens or the program has not got to it), the order in which the database
  returns rows without ORDER BY (table order here), its collations (texts compare by bytes here),
  spawning tasks and waiting for them, how a panic of a branch spreads (the worker dies in the call),
  texts of log lines, the rounding of Redis scores beyond 2^53, which connection an XA branch holds, what axum, tonic and serde do between the wire and a request, memory and threads of the C
  interface, closing it, binding ports and logging. Of the load generator: tasks, processes, clocks
  and what it prints.
\<close>

end
